(* ===== verification/Tester_Prelude.thy ===== *)
theory Tester_Prelude
  imports Main "HOL-Library.Word"
begin

text \<open>
  Shared vocabulary of the development: the machine integers of the C code, the faults an
  execution can run into, statement blocks with early return (the shape of the handlers of
  \<^verbatim>\<open>applications/main.c\<close>), array access with its bounds, and the interface every component
  with an invariant offers (\<^verbatim>\<open>locale step_invariant\<close>).
\<close>

unbundle bit_operations_syntax

section \<open>Machine integers\<close>

text \<open>
  \<^verbatim>\<open>uint8_t\<close>, \<^verbatim>\<open>uint16_t\<close> and \<^verbatim>\<open>uint32_t\<close> are words of their width. The target is
  arm-none-eabi, where plain \<^verbatim>\<open>char\<close> is unsigned, so a \<^verbatim>\<open>char\<close> is a \<^verbatim>\<open>u8\<close> too.
\<close>

type_synonym u8 = "8 word"
type_synonym u16 = "16 word"
type_synonym u32 = "32 word"

text \<open>A character constant and a string literal of the source, as bytes.\<close>

abbreviation byte :: "char \<Rightarrow> u8" where
  "byte c \<equiv> of_char c"

definition bytes :: "string \<Rightarrow> u8 list" where
  "bytes s = map byte s"

lemma bytes_simps [simp]:
  "bytes [] = []"
  "bytes (c # cs) = byte c # bytes cs"
  by (simp_all add: bytes_def)

section \<open>Faults and results\<close>

text \<open>
  What the C standard leaves undefined is a value: an index outside an array, the value of a
  function that ends without \<^verbatim>\<open>return\<close>, a division by zero. \<^verbatim>\<open>AssertFailed\<close> is a failed
  \<^verbatim>\<open>RT_ASSERT\<close>, \<^verbatim>\<open>Uninitialised\<close> the use of a variable that was never written. \<^verbatim>\<open>OutOfFuel\<close> is not a fault of the code: it says that the fuel given to a waiting
  loop did not suffice.
\<close>

datatype fault = OutOfBounds | NoReturnValue | DivByZero | OutOfFuel | AssertFailed | Uninitialised

type_synonym 'a result = "fault + 'a"

definition bind_r :: "'a result \<Rightarrow> ('a \<Rightarrow> 'b result) \<Rightarrow> 'b result" where
  "bind_r m f = (case m of Inl e \<Rightarrow> Inl e | Inr x \<Rightarrow> f x)"

lemma bind_r_simps [simp]:
  "bind_r (Inl e) f = Inl e"
  "bind_r (Inr x) f = f x"
  by (simp_all add: bind_r_def)

lemma bind_r_eq_Inr: "bind_r m f = Inr y \<longleftrightarrow> (\<exists>x. m = Inr x \<and> f x = Inr y)"
  by (cases m) auto

lemma bind_r_InrE [elim]:
  assumes "bind_r m f = Inr y"
  obtains x where "m = Inr x" and "f x = Inr y"
  using assms by (auto simp: bind_r_eq_Inr)

lemma bind_r_total:
  "\<exists>x. m = Inr x \<Longrightarrow> (\<And>x. m = Inr x \<Longrightarrow> \<exists>y. f x = Inr y) \<Longrightarrow> \<exists>y. bind_r m f = Inr y"
  by auto

lemma bind_r_assoc: "bind_r (bind_r m f) g = bind_r m (\<lambda>x. bind_r (f x) g)"
  by (cases m) simp_all

lemma not_isl_pair: "\<not> isl m \<Longrightarrow> \<exists>x y. m = Inr (x, y)"
  by (cases m) auto

definition map_r :: "('a \<Rightarrow> 'b) \<Rightarrow> 'a result \<Rightarrow> 'b result" where
  "map_r f m = bind_r m (\<lambda>x. Inr (f x))"

lemma map_r_simps [simp]:
  "map_r f (Inl e) = Inl e"
  "map_r f (Inr x) = Inr (f x)"
  by (simp_all add: map_r_def)

lemma map_r_eq_Inr: "map_r f m = Inr y \<longleftrightarrow> (\<exists>x. m = Inr x \<and> y = f x)"
  by (cases m) auto

text \<open>Array reads and writes, with the bound the C code does not check.\<close>

definition arr_get :: "'a list \<Rightarrow> nat \<Rightarrow> 'a result" where
  "arr_get xs i = (if i < length xs then Inr (xs ! i) else Inl OutOfBounds)"

definition arr_set :: "'a list \<Rightarrow> nat \<Rightarrow> 'a \<Rightarrow> 'a list result" where
  "arr_set xs i v = (if i < length xs then Inr (xs[i := v]) else Inl OutOfBounds)"

lemma arr_get_in [simp]: "i < length xs \<Longrightarrow> arr_get xs i = Inr (xs ! i)"
  by (simp add: arr_get_def)

lemma arr_set_in [simp]: "i < length xs \<Longrightarrow> arr_set xs i v = Inr (xs[i := v])"
  by (simp add: arr_set_def)

lemma arr_get_out [simp]: "length xs \<le> i \<Longrightarrow> arr_get xs i = Inl OutOfBounds"
  by (simp add: arr_get_def)

lemma arr_set_out [simp]: "length xs \<le> i \<Longrightarrow> arr_set xs i v = Inl OutOfBounds"
  by (simp add: arr_set_def)

lemma arr_set_length: "arr_set xs i v = Inr ys \<Longrightarrow> length ys = length xs"
  by (auto simp: arr_set_def split: if_splits)

text \<open>A failing operation repeated over a list (a \<^verbatim>\<open>for\<close> loop whose body can fault).\<close>

primrec fold_r :: "('a \<Rightarrow> 's \<Rightarrow> 's result) \<Rightarrow> 'a list \<Rightarrow> 's \<Rightarrow> 's result" where
  "fold_r f [] s = Inr s"
| "fold_r f (x # xs) s = bind_r (f x s) (fold_r f xs)"

lemma fold_r_append: "fold_r f (xs @ ys) s = bind_r (fold_r f xs s) (fold_r f ys)"
proof (induction xs arbitrary: s)
  case Nil
  then show ?case by simp
next
  case (Cons x xs)
  then have "fold_r f (xs @ ys) = (\<lambda>s. bind_r (fold_r f xs s) (fold_r f ys))" by (rule ext)
  then show ?case by (simp add: bind_r_assoc)
qed

lemma fold_r_Inr:
  assumes "\<And>x s. x \<in> set xs \<Longrightarrow> f x s = Inr (g x s)"
  shows "fold_r f xs s = Inr (fold g xs s)"
  using assms by (induction xs arbitrary: s) simp_all

lemma fold_r_cong [fundef_cong]:
  "xs = ys \<Longrightarrow> s = s' \<Longrightarrow> (\<And>x s. x \<in> set ys \<Longrightarrow> f x s = g x s) \<Longrightarrow>
     fold_r f xs s = fold_r g ys s'"
proof (induction xs arbitrary: ys s s')
  case Nil
  then show ?case by auto
next
  case (Cons x xs)
  then have "\<And>s. fold_r f xs s = fold_r g xs s" by auto
  then have "fold_r f xs = fold_r g xs" by (rule ext)
  with Cons.prems show ?case by auto
qed

section \<open>Statement blocks\<close>

text \<open>
  A C function body is a list of statements; a statement goes on with the next state or returns
  early. \<^verbatim>\<open>block\<close> runs the statements in order and stops at the first return or fault.
\<close>

datatype 's flow = Go 's | Return 's

primrec state_of :: "'s flow \<Rightarrow> 's" where
  "state_of (Go s) = s"
| "state_of (Return s) = s"

type_synonym 's action = "'s \<Rightarrow> 's flow result"

fun block :: "'s action list \<Rightarrow> 's action" where
  "block [] s = Inr (Go s)"
| "block (a # as) s =
     (case a s of
        Inl e \<Rightarrow> Inl e
      | Inr (Return s') \<Rightarrow> Inr (Return s')
      | Inr (Go s') \<Rightarrow> block as s')"

definition body :: "'s action list \<Rightarrow> 's \<Rightarrow> 's result" where
  "body as s = map_r state_of (block as s)"

definition do_set :: "('s \<Rightarrow> 's) \<Rightarrow> 's action" where
  "do_set f s = Inr (Go (f s))"

definition do_call :: "('s \<Rightarrow> 's result) \<Rightarrow> 's action" where
  "do_call f s = map_r Go (f s)"

definition do_when :: "('s \<Rightarrow> bool) \<Rightarrow> 's action list \<Rightarrow> 's action" where
  "do_when c as s = (if c s then block as s else Inr (Go s))"

definition do_if :: "('s \<Rightarrow> bool) \<Rightarrow> 's action list \<Rightarrow> 's action list \<Rightarrow> 's action" where
  "do_if c as bs s = (if c s then block as s else block bs s)"

definition do_return :: "'s action" where
  "do_return s = Inr (Return s)"

lemma block_append:
  "block (as @ bs) s =
     (case block as s of
        Inl e \<Rightarrow> Inl e
      | Inr (Return s') \<Rightarrow> Inr (Return s')
      | Inr (Go s') \<Rightarrow> block bs s')"
  by (induction as arbitrary: s) (auto split: sum.split flow.split)

text \<open>
  Two judgements carry the proofs about handlers: a statement that \<open>keeps\<close> a predicate wherever
  it gets through, and one that is \<open>safe\<close>, which also says that it does not fault.
\<close>

definition keeps :: "('s \<Rightarrow> bool) \<Rightarrow> 's action \<Rightarrow> bool" where
  "keeps P a \<longleftrightarrow> (\<forall>s f. P s \<longrightarrow> a s = Inr f \<longrightarrow> P (state_of f))"

definition safe :: "('s \<Rightarrow> bool) \<Rightarrow> 's action \<Rightarrow> bool" where
  "safe P a \<longleftrightarrow> (\<forall>s. P s \<longrightarrow> (\<exists>f. a s = Inr f \<and> P (state_of f)))"

named_theorems block_rules

lemma keeps_block: "(\<And>a. a \<in> set as \<Longrightarrow> keeps P a) \<Longrightarrow> keeps P (block as)"
proof (induction as)
  case Nil
  then show ?case by (simp add: keeps_def)
next
  case (Cons a as)
  then have a: "keeps P a" and "keeps P (block as)" by auto
  then show ?case
    unfolding keeps_def by (fastforce split: sum.splits flow.splits)
qed

lemma keeps_set: "(\<And>s. P s \<Longrightarrow> P (f s)) \<Longrightarrow> keeps P (do_set f)"
  by (auto simp: keeps_def do_set_def)

lemma keeps_call: "(\<And>s s'. P s \<Longrightarrow> f s = Inr s' \<Longrightarrow> P s') \<Longrightarrow> keeps P (do_call f)"
  by (auto simp: keeps_def do_call_def map_r_eq_Inr)

lemma keeps_when [block_rules]: "keeps P (block as) \<Longrightarrow> keeps P (do_when c as)"
  by (auto simp: keeps_def do_when_def)

lemma keeps_if [block_rules]:
  "keeps P (block as) \<Longrightarrow> keeps P (block bs) \<Longrightarrow> keeps P (do_if c as bs)"
  by (auto simp: keeps_def do_if_def)

lemma keeps_return [block_rules]: "keeps P do_return"
  by (auto simp: keeps_def do_return_def)

lemma keeps_body: "keeps P (block as) \<Longrightarrow> P s \<Longrightarrow> body as s = Inr s' \<Longrightarrow> P s'"
  by (auto simp: keeps_def body_def map_r_eq_Inr)

lemma safe_block: "(\<And>a. a \<in> set as \<Longrightarrow> safe P a) \<Longrightarrow> safe P (block as)"
proof (induction as)
  case Nil
  then show ?case by (simp add: safe_def)
next
  case (Cons a as)
  then have a: "safe P a" and as: "safe P (block as)" by auto
  show ?case
    unfolding safe_def
  proof (intro allI impI)
    fix s
    assume "P s"
    with a obtain f where f: "a s = Inr f" and Pf: "P (state_of f)" by (auto simp: safe_def)
    show "\<exists>f. block (a # as) s = Inr f \<and> P (state_of f)"
    proof (cases f)
      case (Go s')
      with Pf as show ?thesis by (auto simp: f safe_def)
    next
      case (Return s')
      with Pf show ?thesis by (simp add: f)
    qed
  qed
qed

lemma safe_set: "(\<And>s. P s \<Longrightarrow> P (f s)) \<Longrightarrow> safe P (do_set f)"
  by (auto simp: safe_def do_set_def)

lemma safe_call: "(\<And>s. P s \<Longrightarrow> \<exists>s'. f s = Inr s' \<and> P s') \<Longrightarrow> safe P (do_call f)"
  by (fastforce simp: safe_def do_call_def)

lemma safe_return: "safe P do_return"
  by (simp add: safe_def do_return_def)

lemma safe_body: "safe P (block as) \<Longrightarrow> P s \<Longrightarrow> \<exists>s'. body as s = Inr s' \<and> P s'"
  by (fastforce simp: safe_def body_def)

section \<open>Components with an invariant\<close>

text \<open>
  The interface every stateful component offers its clients: an invariant of the start state
  that each step keeps, where it gets through. A run is a list of steps.
\<close>

locale step_invariant =
  fixes start :: "'s \<Rightarrow> bool"
    and step :: "'e \<Rightarrow> 's \<Rightarrow> 's result"
    and inv :: "'s \<Rightarrow> bool"
  assumes inv_start: "start s \<Longrightarrow> inv s"
    and inv_step: "inv s \<Longrightarrow> step e s = Inr s' \<Longrightarrow> inv s'"
begin

lemma inv_run: "inv s \<Longrightarrow> fold_r step es s = Inr s' \<Longrightarrow> inv s'"
  by (induction es arbitrary: s) (auto simp: bind_r_eq_Inr intro: inv_step)

lemma inv_reachable: "start s \<Longrightarrow> fold_r step es s = Inr s' \<Longrightarrow> inv s'"
  by (blast intro: inv_run inv_start)

end

text \<open>A component none of whose steps can fault while the invariant holds.\<close>

locale safe_component = step_invariant +
  assumes step_total: "inv s \<Longrightarrow> \<exists>s'. step e s = Inr s'"
begin

lemma run_total: "inv s \<Longrightarrow> \<exists>s'. fold_r step es s = Inr s' \<and> inv s'"
proof (induction es arbitrary: s)
  case Nil
  then show ?case by simp
next
  case (Cons e es)
  from step_total [OF Cons.prems] obtain s1 where s1: "step e s = Inr s1" by blast
  with Cons.prems have "inv s1" by (blast intro: inv_step)
  from Cons.IH [OF this] show ?case by (simp add: s1)
qed

end

section \<open>Small numbers and searches\<close>

text \<open>Bounded indices as the finitely many cases they are.\<close>

lemma less_4: "(n::nat) < 4 \<longleftrightarrow> n = 0 \<or> n = 1 \<or> n = 2 \<or> n = 3"
  by linarith

lemma less_8:
  "(n::nat) < 8 \<longleftrightarrow> n = 0 \<or> n = 1 \<or> n = 2 \<or> n = 3 \<or> n = 4 \<or> n = 5 \<or> n = 6 \<or> n = 7"
  by linarith

lemma find_Some_mem: "find P xs = Some x \<Longrightarrow> x \<in> set xs \<and> P x"
  by (induction xs) (auto split: if_splits)

lemma find_append: "find P (xs @ ys) = (case find P xs of None \<Rightarrow> find P ys | Some x \<Rightarrow> Some x)"
  by (induction xs) auto

section \<open>Bits and bytes\<close>

text \<open>The bits of a byte, most significant first, as the serial links shift them out.\<close>

definition msb_bits :: "u8 \<Rightarrow> bool list" where
  "msb_bits w = map (bit w) [7, 6, 5, 4, 3, 2, 1, 0]"

definition byte_of_bits :: "bool list \<Rightarrow> u8" where
  "byte_of_bits bs = horner_sum of_bool 2 (rev bs)"

lemma upt_4: "[0..<4] = [0, 1, 2, 3]"
  by code_simp

lemma upt_8: "[0..<8] = [0, 1, 2, 3, 4, 5, 6, 7]"
  by code_simp

lemma rev_msb_bits: "rev (msb_bits w) = map (bit w) [0..<8]"
  by (simp add: msb_bits_def upt_8)

lemma byte_of_msb_bits [simp]: "byte_of_bits (msb_bits w) = w"
  unfolding byte_of_bits_def rev_msb_bits horner_sum_bit_eq_take_bit
  by (rule take_bit_word_eq_self) simp

lemma length_msb_bits [simp]: "length (msb_bits w) = 8"
  by (simp add: msb_bits_def)

lemma and_exp_u8: "w AND 2 ^ n = (if bit w n then 2 ^ n else 0)" for w :: u8
  by (rule bit_word_eqI) (auto simp: bit_simps)

lemma and_0x80: "(w AND 0x80 = 0x80) = bit w 7" for w :: u8
  using and_exp_u8 [of w 7] by simp

lemma bit_double_u8: "bit (w * 2) n = (0 < n \<and> n < 8 \<and> bit w (n - 1))" for w :: u8
proof -
  have "w * 2 = push_bit 1 w" by simp
  then show ?thesis by (simp add: bit_push_bit_iff del: push_bit_Suc) (auto simp: bit_simps)
qed

lemma unat_u8_less: "unat w < 256" for w :: u8
  using unsigned_less [of w] by simp

lemma lo_nibble: "unat (l AND 0x0F) = unat l mod 16" for l :: u8
proof -
  have "l AND 0x0F = take_bit 4 l" by (simp add: take_bit_eq_mask mask_eq_exp_minus_1)
  then show ?thesis by (simp add: take_bit_eq_mod unat_mod_distrib)
qed

lemma hi_nibble: "unat (drop_bit 4 l AND 0x0F) = unat l div 16" for l :: u8
  using unat_u8_less [of l] by (simp add: lo_nibble unat_div_distrib drop_bit_eq_div)

lemma u8_less_8:
  "p < 8 \<longleftrightarrow> p = 0 \<or> p = 1 \<or> p = 2 \<or> p = 3 \<or> p = 4 \<or> p = 5 \<or> p = 6 \<or> p = 7" for p :: u8
proof
  assume "p < 8"
  then have "unat p < 8" by (simp add: word_less_nat_alt)
  moreover have "p = of_nat (unat p)" by simp
  ultimately show "p = 0 \<or> p = 1 \<or> p = 2 \<or> p = 3 \<or> p = 4 \<or> p = 5 \<or> p = 6 \<or> p = 7"
    unfolding less_8 by (elim disjE) simp_all
qed auto

section \<open>Rows of digits\<close>

text \<open>A row of digits as the display keeps it: its length and the digits as glyph numbers.\<close>

definition digit_row :: "u8 list \<Rightarrow> u8 list" where
  "digit_row ds = of_nat (length ds) # map (\<lambda>d. d + 100) ds"

end
