(* ===== verification/Board_IO.thy ===== *)
theory Board_IO
  imports Tester_Prelude
begin

text \<open>
  What the firmware does to the board and what the board answers. Every access of the C code to
  hardware or to a library that is not in the repository is an event of a history, newest first.
  The world outside the firmware is the record \<open>env\<close>: each of its fields answers one kind of
  question from the whole history, so it can stand for any board, chip or file volume.
\<close>

datatype pin_mode = Output | Input | InputPullup | InputPulldown

datatype event =
    PinMode nat pin_mode            \<comment> \<open>\<^verbatim>\<open>rt_pin_mode\<close>\<close>
  | PinWrite nat bool               \<comment> \<open>\<^verbatim>\<open>rt_pin_write\<close>\<close>
  | PinRead nat bool                \<comment> \<open>\<^verbatim>\<open>rt_pin_read\<close> and its answer\<close>
  | Delay nat                       \<comment> \<open>\<^verbatim>\<open>rt_thread_mdelay\<close>\<close>
  | Spin nat                        \<comment> \<open>the busy loop \<^verbatim>\<open>Delay\<close> of the display driver\<close>
  | SpiSend "u8 list"               \<comment> \<open>\<^verbatim>\<open>rt_spi_send\<close>, \<^verbatim>\<open>rt_spi_send_then_send\<close>\<close>
  | SpiRecv "u8 list" "u8 list"     \<comment> \<open>\<^verbatim>\<open>rt_spi_send_then_recv\<close>: bytes sent, bytes received\<close>
  | SerialWrite "u8 list"           \<comment> \<open>\<^verbatim>\<open>rt_device_write\<close> on the meter's line\<close>
  | PwmSet u32 u32                  \<comment> \<open>\<^verbatim>\<open>rt_pwm_set\<close>: period and pulse\<close>
  | PwmEnable
  | PwmDisable
  | SemRelease string               \<comment> \<open>\<^verbatim>\<open>rt_sem_release\<close>\<close>
  | TimerStop                       \<comment> \<open>\<^verbatim>\<open>rt_timer_stop\<close> on the send timer\<close>
  | RtcSetTime "u8 list"            \<comment> \<open>\<^verbatim>\<open>set_time\<close> of the clock driver\<close>
  | RtcSetDate "u8 list"            \<comment> \<open>\<^verbatim>\<open>set_date\<close> of the clock driver\<close>
  | RtcRead                         \<comment> \<open>\<^verbatim>\<open>get_time\<close> or \<^verbatim>\<open>get_date\<close>\<close>
  | TickRead                        \<comment> \<open>\<^verbatim>\<open>rt_tick_get\<close>\<close>

type_synonym history = "event list"

text \<open>
  The world. The clock driver \<^verbatim>\<open>ds3231\<close> is a package the build fetches; it is known by two
  functions that fill the caller's array. What it writes there is up to the world.
\<close>

record env =
  pin_level :: "history \<Rightarrow> nat \<Rightarrow> bool"
  spi_reply :: "history \<Rightarrow> u8 list \<Rightarrow> nat \<Rightarrow> u8"
  rtc_time :: "history \<Rightarrow> u8 list \<Rightarrow> u8 list"
  rtc_date :: "history \<Rightarrow> u8 list \<Rightarrow> u8 list"
  tick_now :: "history \<Rightarrow> u32"
  radio_irq :: "history \<Rightarrow> bool"
  string_address :: u8

text \<open>A bench without a board: every line is low and every register and clock reads zero.\<close>

definition bench :: env where
  "bench =
     \<lparr>pin_level = \<lambda>_ _. False, spi_reply = \<lambda>_ _ _. 0, rtc_time = \<lambda>_ t. t, rtc_date = \<lambda>_ t. t,
      tick_now = \<lambda>_. 0, radio_irq = \<lambda>_. False, string_address = 0\<rparr>"

section \<open>Pins and delays\<close>

definition rt_pin_mode :: "nat \<Rightarrow> pin_mode \<Rightarrow> history \<Rightarrow> history" where
  "rt_pin_mode p m h = PinMode p m # h"

definition rt_pin_write :: "nat \<Rightarrow> bool \<Rightarrow> history \<Rightarrow> history" where
  "rt_pin_write p v h = PinWrite p v # h"

definition rt_pin_read :: "env \<Rightarrow> nat \<Rightarrow> history \<Rightarrow> bool \<times> history" where
  "rt_pin_read e p h = (let v = pin_level e h p in (v, PinRead p v # h))"

definition rt_thread_mdelay :: "nat \<Rightarrow> history \<Rightarrow> history" where
  "rt_thread_mdelay ms h = Delay ms # h"

text \<open>The level the firmware last drove on an output pin.\<close>

fun driven :: "history \<Rightarrow> nat \<Rightarrow> bool" where
  "driven [] p = False"
| "driven (PinWrite q v # h) p = (if q = p then v else driven h p)"
| "driven (_ # h) p = driven h p"

lemma driven_rt_pin_write [simp]: "driven (rt_pin_write q v h) p = (if q = p then v else driven h p)"
  by (simp add: rt_pin_write_def)

lemma driven_rt_pin_mode [simp]: "driven (rt_pin_mode q m h) p = driven h p"
  by (simp add: rt_pin_mode_def)

lemma driven_rt_pin_read [simp]: "driven (snd (rt_pin_read e q h)) p = driven h p"
  by (simp add: rt_pin_read_def Let_def)

end
