(* ===== verification/Keypad.thy ===== *)
theory Keypad
  imports Board_IO
begin

text \<open>
  The 4 by 4 matrix keypad (\<^verbatim>\<open>applications/button_16.c\<close>): \<open>get_button_number\<close> drives one row
  after the other and reads the four columns; \<open>button_lock\<close> makes one press count once.
\<close>

definition BUTTON9 :: nat where "BUTTON9 = 0x25"
definition BUTTON10 :: nat where "BUTTON10 = 0x10"

definition button_list :: "nat list" where
  "button_list = [0x19, 0x18, 0x17, 0x16, 0x15, 0x14, 0x13, 0x32]"

definition button_data :: "u16 list" where
  "button_data =
     [1, 2, 3, 10,
      4, 5, 6, 11,
      7, 8, 9, 12,
      13, 0, 14, 15]"

record keypad =
  button :: u8
  button_lock :: u8

definition keypad_init :: keypad where
  "keypad_init = \<lparr>button = 16, button_lock = 16\<rparr>"

definition my_button_init :: "history \<Rightarrow> history" where
  "my_button_init h =
     (let h = fold (\<lambda>i h.
            rt_pin_mode (button_list ! (i + 4)) InputPulldown
              (rt_pin_write (button_list ! i) False
                (rt_pin_mode (button_list ! i) Output h))) [0, 1, 2, 3] h
      in rt_pin_mode BUTTON10 Input (rt_pin_mode BUTTON9 Input h))"

text \<open>The inner loop over the columns and the outer loop over the rows.\<close>

primrec scan_columns :: "env \<Rightarrow> nat list \<Rightarrow> history \<Rightarrow> nat option \<times> history" where
  "scan_columns e [] h = (None, h)"
| "scan_columns e (j # js) h =
     (case rt_pin_read e (button_list ! (j + 4)) h of
        (v, h1) \<Rightarrow> if v then (Some j, h1) else scan_columns e js h1)"

primrec scan_rows :: "env \<Rightarrow> nat list \<Rightarrow> history \<Rightarrow> (nat \<times> nat) option \<times> history" where
  "scan_rows e [] h = (None, h)"
| "scan_rows e (i # is) h =
     (case scan_columns e [0, 1, 2, 3] (rt_pin_write (button_list ! i) True h) of
        (Some j, h1) \<Rightarrow> (Some (i, j), h1)
      | (None, h1) \<Rightarrow> scan_rows e is (rt_pin_write (button_list ! i) False h1))"

definition get_button_number :: "env \<Rightarrow> keypad \<Rightarrow> history \<Rightarrow> u8 \<times> keypad \<times> history" where
  "get_button_number e k h =
     (let k0 = k\<lparr>button := 16\<rparr>;
          h0 = fold (\<lambda>i. rt_pin_write (button_list ! i) False) [0, 1, 2, 3] h
      in case scan_rows e [0, 1, 2, 3] h0 of
           (Some (i, j), h1) \<Rightarrow>
             (if button_lock k0 = 16
              then (let b = ucast (button_data ! (j + i * 4))
                    in (b, k0\<lparr>button := b, button_lock := b\<rparr>, h1))
              else (16, k0, h1))
         | (None, h1) \<Rightarrow> (16, k0\<lparr>button_lock := 16\<rparr>, h1))"

section \<open>What the scan sees\<close>

text \<open>
  The wiring of the matrix: a column reads high when some row that is driven high has its key in
  that column pressed. This is the only thing assumed of the hardware.
\<close>

definition matrix_wiring :: "env \<Rightarrow> (nat \<Rightarrow> nat \<Rightarrow> bool) \<Rightarrow> bool" where
  "matrix_wiring e pressed \<longleftrightarrow>
     (\<forall>h. \<forall>j<4. pin_level e h (button_list ! (j + 4)) =
        list_ex (\<lambda>i. driven h (button_list ! i) \<and> pressed i j) [0, 1, 2, 3])"

definition key_code :: "nat \<Rightarrow> nat \<Rightarrow> u8" where
  "key_code i j = ucast (button_data ! (j + i * 4))"

definition first_pressed :: "(nat \<Rightarrow> nat \<Rightarrow> bool) \<Rightarrow> (nat \<times> nat) option" where
  "first_pressed pressed =
     find (\<lambda>(i, j). pressed i j) (List.product [0, 1, 2, 3] [0, 1, 2, 3])"

lemma button_list_distinct: "distinct button_list"
  by (simp add: button_list_def)

lemma button_list_length: "length button_list = 8"
  by (simp add: button_list_def)

lemma row_pins_distinct:
  "i < 4 \<Longrightarrow> k < 4 \<Longrightarrow> button_list ! i = button_list ! k \<longleftrightarrow> i = k"
  using nth_eq_iff_index_eq [OF button_list_distinct] by (simp add: button_list_length)

lemma scan_columns_find:
  assumes "matrix_wiring e pressed" and "i < 4" and "set js \<subseteq> {..<4}"
    and "\<forall>k<4. driven h (button_list ! k) = (k = i)"
  shows "fst (scan_columns e js h) = find (pressed i) js \<and>
    driven (snd (scan_columns e js h)) = driven h"
  using assms(3,4)
proof (induction js arbitrary: h)
  case Nil
  then show ?case by simp
next
  case (Cons j js)
  have level: "pin_level e h (button_list ! (j + 4)) = pressed i j"
  proof -
    have "pin_level e h (button_list ! (j + 4)) =
        list_ex (\<lambda>k. driven h (button_list ! k) \<and> pressed k j) [0, 1, 2, 3]"
      using assms(1) Cons.prems(1) by (simp add: matrix_wiring_def)
    also have "\<dots> = list_ex (\<lambda>k. k = i \<and> pressed k j) [0, 1, 2, 3]"
      using Cons.prems(2) by (intro list_ex_cong) auto
    also have "\<dots> = pressed i j"
      using assms(2) by (auto simp: less_4)
    finally show ?thesis .
  qed
  let ?h = "snd (rt_pin_read e (button_list ! (j + 4)) h)"
  have same: "driven ?h = driven h" by (rule ext) simp
  have "fst (scan_columns e js ?h) = find (pressed i) js \<and>
      driven (snd (scan_columns e js ?h)) = driven ?h"
    using Cons.prems by (intro Cons.IH) (simp_all add: same)
  with same show ?case
    by (cases "pressed i j") (simp_all add: level rt_pin_read_def Let_def)
qed

lemma scan_rows_find:
  assumes "matrix_wiring e pressed" and "set is \<subseteq> {..<4}"
    and "\<forall>k<4. \<not> driven h (button_list ! k)"
  shows "fst (scan_rows e is h) =
    find (\<lambda>(i, j). pressed i j) (List.product is [0, 1, 2, 3])"
  using assms(2,3)
proof (induction "is" arbitrary: h)
  case Nil
  then show ?case by simp
next
  case (Cons i "is")
  let ?h = "rt_pin_write (button_list ! i) True h"
  from Cons.prems have i: "i < 4" by simp
  with Cons.prems have up: "\<forall>k<4. driven ?h (button_list ! k) = (k = i)"
    by (auto simp: row_pins_distinct)
  obtain r h1 where sc: "scan_columns e [0, 1, 2, 3] ?h = (r, h1)" by fastforce
  from scan_columns_find [OF assms(1) i _ up, of "[0, 1, 2, 3]"] sc
  have r: "r = find (pressed i) [0, 1, 2, 3]" and h1: "driven h1 = driven ?h" by auto
  have find_row: "find (\<lambda>(i, j). pressed i j) (map (Pair i) js) = map_option (Pair i) (find (pressed i) js)"
    for js by (induction js) auto
  have "fst (scan_rows e is (rt_pin_write (button_list ! i) False h1)) =
      find (\<lambda>(i, j). pressed i j) (List.product is [0, 1, 2, 3])"
  proof (rule Cons.IH)
    show "set is \<subseteq> {..<4}" using Cons.prems by simp
    show "\<forall>k<4. \<not> driven (rt_pin_write (button_list ! i) False h1) (button_list ! k)"
      using up i by (auto simp: h1 row_pins_distinct)
  qed
  then show ?case
    by (simp only: scan_rows.simps sc r List.product.simps find_append find_row prod.case)
      (simp split: option.split)
qed

lemma rows_low:
  "k < 4 \<Longrightarrow> \<not> driven (fold (\<lambda>i. rt_pin_write (button_list ! i) False) [0, 1, 2, 3] h) (button_list ! k)"
  by (auto simp: less_4)

lemma get_button_number_spec:
  assumes "matrix_wiring e pressed"
  shows "case get_button_number e k h of (b, k', _) \<Rightarrow>
    (case first_pressed pressed of
       None \<Rightarrow> b = 16 \<and> button_lock k' = 16
     | Some (i, j) \<Rightarrow>
         (if button_lock k = 16 then b = key_code i j \<and> button_lock k' = key_code i j
          else b = 16 \<and> button_lock k' = button_lock k))"
proof -
  let ?h = "fold (\<lambda>i. rt_pin_write (button_list ! i) False) [0, 1, 2, 3] h"
  obtain r h1 where sr: "scan_rows e [0, 1, 2, 3] ?h = (r, h1)" by fastforce
  have "fst (scan_rows e [0, 1, 2, 3] ?h) = first_pressed pressed"
    unfolding first_pressed_def using assms rows_low by (intro scan_rows_find) auto
  with sr have "r = first_pressed pressed" by simp
  with sr show ?thesis
    unfolding get_button_number_def Let_def
    by (simp add: key_code_def split: option.split)
qed

text \<open>No key has the code 16, so a lock that is 16 means that no key was down at the last scan.\<close>

lemma key_code_neq_16: "i < 4 \<Longrightarrow> j < 4 \<Longrightarrow> key_code i j \<noteq> 16"
  by (auto simp: key_code_def button_data_def less_4)

lemma first_pressed_bounds: "first_pressed pressed = Some (i, j) \<Longrightarrow> i < 4 \<and> j < 4"
proof -
  assume "first_pressed pressed = Some (i, j)"
  then have "(i, j) \<in> set (List.product [0, 1, 2, 3] [0, 1, 2, 3])"
    unfolding first_pressed_def by (blast dest: find_Some_mem)
  then show ?thesis by (auto simp: less_4)
qed

section \<open>One press, one key event\<close>

text \<open>The main loop polls the keypad again and again; the keys may change between polls.\<close>

primrec poll_all :: "env list \<Rightarrow> keypad \<Rightarrow> history \<Rightarrow> u8 list" where
  "poll_all [] k h = []"
| "poll_all (e # es) k h =
     (case get_button_number e k h of (b, k', h') \<Rightarrow> b # poll_all es k' h')"

fun edge_codes :: "bool \<Rightarrow> (nat \<times> nat) option list \<Rightarrow> u8 list" where
  "edge_codes held [] = []"
| "edge_codes held (None # ks) = 16 # edge_codes False ks"
| "edge_codes held (Some (i, j) # ks) =
     (if held then 16 else key_code i j) # edge_codes True ks"

text \<open>
  C32: Polled again and again, with the keys changing freely between the polls, the keypad
  reports the code of a key once per press: while any key stays down, and until all are up,
  it reports nothing more.
\<close>

theorem one_press_one_code:
  assumes "list_all2 matrix_wiring es ps"
  shows "poll_all es k h = edge_codes (button_lock k \<noteq> 16) (map first_pressed ps)"
  using assms
proof (induction es ps arbitrary: k h rule: list_all2_induct)
  case Nil
  then show ?case by simp
next
  case (Cons e es p ps)
  obtain b k' h' where g: "get_button_number e k h = (b, k', h')" by (metis prod_cases3)
  from get_button_number_spec [OF Cons.hyps(1), of k h] g Cons.IH [of k' h'] show ?case
    by (cases "first_pressed p")
      (auto split: if_splits dest!: first_pressed_bounds simp: key_code_neq_16)
qed

text \<open>A keypad with one set of keys held down, wired as the board is.\<close>

definition wired :: "(nat \<Rightarrow> nat \<Rightarrow> bool) \<Rightarrow> env" where
  "wired pressed = bench\<lparr>pin_level := (\<lambda>h p.
     list_ex (\<lambda>j. p = button_list ! (j + 4) \<and>
       list_ex (\<lambda>i. driven h (button_list ! i) \<and> pressed i j) [0, 1, 2, 3]) [0, 1, 2, 3])\<rparr>"

lemma wired_matrix: "matrix_wiring (wired pressed) pressed"
  by (auto simp: matrix_wiring_def wired_def button_list_def less_4)

theorem one_press_one_code_witness:
  "poll_all [wired (\<lambda>i j. i = 1 \<and> j = 2), wired (\<lambda>i j. i = 1 \<and> j = 2), wired (\<lambda>i j. False),
      wired (\<lambda>i j. i = 0 \<and> j = 0)] keypad_init [] = [6, 16, 16, 1]"
proof -
  let ?ps = "[\<lambda>i j. i = 1 \<and> j = 2, \<lambda>i j. i = 1 \<and> j = 2, \<lambda>i j. False, \<lambda>i j. i = 0 \<and> j = 0] ::
    (nat \<Rightarrow> nat \<Rightarrow> bool) list"
  have "list_all2 matrix_wiring (map wired ?ps) ?ps" by (simp add: wired_matrix)
  from one_press_one_code [OF this, of keypad_init "[]"] show ?thesis
    by (simp add: keypad_init_def first_pressed_def key_code_def button_data_def)
qed

end
