(* ===== verification/Lcd_Fonts.thy ===== *)
theory Lcd_Fonts
  imports Tester_Prelude
begin

text \<open>
  The data of the display driver (\<^verbatim>\<open>applications/LCD_19264.c\<close>): the controller's start-up
  commands, the four glyph tables and the two strings that say which character a glyph draws. One
  inner list is one glyph, its bytes in the order of the source.
\<close>

definition IC :: "u8 list" where
  "IC = [0xe2, 0xa3, 0xeb, 0x2f, 0xc2, 0x81, 180, 0xaf]"

text \<open>Glyphs of 8 by 16 pixels: digits, letters and signs.\<close>

definition sz :: "u8 list list" where
  "sz =
    [
     [0x00, 0x07, 0x08, 0x10, 0x10, 0x08, 0x07, 0x00, 0x00, 0xf0, 0x08, 0x04, 0x04, 0x08, 0xf0, 0x00],
     [0x00, 0x00, 0x08, 0x08, 0x1f, 0x00, 0x00, 0x00, 0x00, 0x00, 0x04, 0x04, 0xfc, 0x04, 0x04, 0x00],
     [0x00, 0x0e, 0x10, 0x10, 0x10, 0x10, 0x0f, 0x00, 0x00, 0x0c, 0x14, 0x24, 0x44, 0x84, 0x0c, 0x00],
     [0x00, 0x0c, 0x10, 0x10, 0x10, 0x11, 0x0e, 0x00, 0x00, 0x18, 0x04, 0x84, 0x84, 0x44, 0x38, 0x00],
     [0x00, 0x00, 0x01, 0x02, 0x0c, 0x1f, 0x00, 0x00, 0x00, 0x60, 0xa0, 0x24, 0x24, 0xfc, 0x24, 0x24],
     [0x00, 0x1f, 0x11, 0x11, 0x11, 0x10, 0x10, 0x00, 0x00, 0x98, 0x04, 0x04, 0x04, 0x88, 0x70, 0x00],
     [0x00, 0x07, 0x08, 0x11, 0x11, 0x09, 0x00, 0x00, 0x00, 0xf0, 0x88, 0x04, 0x04, 0x04, 0xf8, 0x00],
     [0x00, 0x18, 0x10, 0x10, 0x11, 0x16, 0x18, 0x00, 0x00, 0x00, 0x00, 0x7c, 0x80, 0x00, 0x00, 0x00],
     [0x00, 0x0e, 0x11, 0x10, 0x10, 0x11, 0x0e, 0x00, 0x00, 0x38, 0x44, 0x84, 0x84, 0x44, 0x38, 0x00],
     [0x00, 0x0f, 0x10, 0x10, 0x10, 0x08, 0x07, 0x00, 0x00, 0x80, 0x48, 0x44, 0x44, 0x88, 0xf0, 0x00],
     [0x00, 0x00, 0x00, 0x00, 0x00, 0x00, 0x00, 0x00, 0x00, 0x00, 0x00, 0x00, 0x00, 0x00, 0x00, 0x00],
     [0x10, 0x1f, 0x1f, 0x00, 0x1f, 0x1f, 0x10, 0x00, 0x04, 0xfc, 0x80, 0x7c, 0x80, 0xfc, 0x04, 0x00],
     [0x00, 0x0e, 0x11, 0x10, 0x10, 0x10, 0x1c, 0x00, 0x00, 0x1c, 0x04, 0x84, 0x84, 0x44, 0x38, 0x00],
     [0x00, 0x10, 0x10, 0x1f, 0x10, 0x10, 0x00, 0x00, 0x00, 0x04, 0x04, 0xfc, 0x04, 0x04, 0x00, 0x00],
     [0x10, 0x1f, 0x10, 0x10, 0x10, 0x08, 0x07, 0x00, 0x04, 0xfc, 0x04, 0x04, 0x04, 0x08, 0xf0, 0x00],
     [0x10, 0x1e, 0x11, 0x00, 0x00, 0x13, 0x1c, 0x10, 0x00, 0x00, 0xe0, 0x1c, 0x70, 0x80, 0x00, 0x00],
     [0x18, 0x10, 0x10, 0x1f, 0x10, 0x10, 0x18, 0x00, 0x00, 0x00, 0x04, 0xfc, 0x04, 0x00, 0x00, 0x00],
     [0x00, 0x10, 0x10, 0x1f, 0x10, 0x10, 0x00, 0x00, 0x00, 0x04, 0x04, 0xfc, 0x04, 0x04, 0x00, 0x00],
     [0x10, 0x1f, 0x1f, 0x00, 0x1f, 0x1f, 0x10, 0x00, 0x04, 0xfc, 0x80, 0x7c, 0x80, 0xfc, 0x04, 0x00],
     [0x10, 0x1f, 0x11, 0x11, 0x17, 0x10, 0x08, 0x00, 0x04, 0xfc, 0x04, 0x04, 0xc4, 0x04, 0x18, 0x00],
     [0x00, 0x00, 0x00, 0x03, 0x03, 0x00, 0x00, 0x00, 0x00, 0x00, 0x00, 0x0c, 0x0c, 0x00, 0x00, 0x00],
     [0x10, 0x1f, 0x00, 0x1f, 0x00, 0x1f, 0x10, 0x00, 0x00, 0xc0, 0x7c, 0x80, 0x7c, 0xc0, 0x00, 0x00],
     [0x10, 0x1f, 0x10, 0x00, 0x00, 0x00, 0x00, 0x00, 0x04, 0xfc, 0x04, 0x04, 0x04, 0x04, 0x0c, 0x00],
     [0x10, 0x1f, 0x11, 0x11, 0x11, 0x0e, 0x00, 0x00, 0x04, 0xfc, 0x04, 0x04, 0x04, 0x88, 0x70, 0x00],
     [0x03, 0x0c, 0x10, 0x10, 0x10, 0x10, 0x1c, 0x00, 0xe0, 0x18, 0x04, 0x04, 0x04, 0x08, 0x10, 0x00],
     [0x01, 0x01, 0x01, 0x00, 0x01, 0x01, 0x01, 0x00, 0x04, 0x04, 0xfc, 0x84, 0x04, 0x00, 0x80, 0x00],
     [0x00, 0x01, 0x19, 0x19, 0x00, 0x00, 0x00, 0x00, 0x00, 0x04, 0x04, 0xfc, 0x04, 0x04, 0x00, 0x00],
     [0x00, 0x01, 0x01, 0x07, 0x01, 0x01, 0x00, 0x00, 0x00, 0x00, 0x00, 0xf8, 0x04, 0x04, 0x08, 0x00],
     [0x00, 0x00, 0x01, 0x01, 0x01, 0x01, 0x00, 0x00, 0x00, 0xf8, 0x24, 0x24, 0x24, 0x24, 0xe8, 0x00],
     [0x00, 0x00, 0x01, 0x01, 0x01, 0x01, 0x00, 0x00, 0x00, 0xf8, 0x04, 0x04, 0x04, 0x04, 0xf8, 0x00],
     [0x00, 0x00, 0x01, 0x01, 0x01, 0x00, 0x00, 0x00, 0x00, 0x98, 0x24, 0x24, 0x48, 0xfc, 0x04, 0x00],
     [0x00, 0x08, 0x08, 0x1f, 0x00, 0x00, 0x00, 0x00, 0x00, 0x04, 0x04, 0xfc, 0x04, 0x04, 0x00, 0x00],
     [0x01, 0x01, 0x01, 0x00, 0x01, 0x01, 0x01, 0x00, 0x00, 0xc0, 0x30, 0x0c, 0x30, 0xc0, 0x00, 0x00],
     [0x01, 0x01, 0x01, 0x01, 0x01, 0x01, 0x01, 0x00, 0x04, 0xfc, 0x04, 0x00, 0xfc, 0x04, 0x00, 0xfc],
     [0x01, 0x01, 0x00, 0x01, 0x01, 0x00, 0x00, 0x00, 0x01, 0xff, 0x89, 0x04, 0x04, 0x88, 0x70, 0x00],
     [0x01, 0x01, 0x00, 0x01, 0x01, 0x00, 0x01, 0x01, 0x80, 0x70, 0x0c, 0x30, 0xe0, 0x1c, 0x60, 0x80],
     [0x01, 0x01, 0x01, 0x00, 0x00, 0x01, 0x01, 0x01, 0x00, 0x81, 0x61, 0x1e, 0x18, 0x60, 0x80, 0x00],
     [0x00, 0x00, 0x00, 0x01, 0x01, 0x01, 0x00, 0x00, 0x00, 0x70, 0x88, 0x04, 0x04, 0x04, 0x88, 0x00],
     [0x00, 0x00, 0x01, 0x01, 0x01, 0x01, 0x01, 0x00, 0x00, 0xcc, 0x24, 0x24, 0x24, 0x24, 0x98, 0x00],
     [0x01, 0x01, 0x00, 0x00, 0x00, 0x01, 0x01, 0x00, 0x00, 0xf8, 0x04, 0x04, 0x04, 0x08, 0xfc, 0x04],
     [0x01, 0x01, 0x00, 0x01, 0x01, 0x01, 0x00, 0x00, 0x04, 0xfc, 0x84, 0x00, 0x00, 0x04, 0xfc, 0x04],
     [0x00, 0x00, 0x01, 0x01, 0x01, 0x01, 0x01, 0x00, 0x00, 0xd6, 0x29, 0x29, 0x29, 0xc9, 0x06, 0x00],
     [0x08, 0x0f, 0x00, 0x01, 0x01, 0x01, 0x00, 0x00, 0x04, 0xfc, 0x84, 0x00, 0x00, 0x04, 0xfc, 0x04],
     [0x10, 0x1f, 0x11, 0x11, 0x11, 0x11, 0x0e, 0x00, 0x04, 0xfc, 0x04, 0x00, 0xc0, 0x30, 0x0c, 0x04],
     [0x00, 0x00, 0x01, 0x01, 0x01, 0x09, 0x0f, 0x00, 0x00, 0xf8, 0x04, 0x04, 0x04, 0x08, 0xfc, 0x04],
     [0x00, 0x10, 0x10, 0x1f, 0x10, 0x10, 0x00, 0x00, 0x00, 0x04, 0x04, 0xfc, 0x04, 0x04, 0x00, 0x00],
     [0x00, 0x01, 0x01, 0x07, 0x09, 0x09, 0x04, 0x00, 0x00, 0x04, 0x04, 0xfc, 0x04, 0x04, 0x00, 0x00]
    ]"

text \<open>Glyphs of 16 by 16 pixels: Chinese characters.\<close>

definition hz :: "u8 list list" where
  "hz =
    [
     [0x00, 0x40, 0x40, 0x4f, 0x48, 0x48, 0x48, 0x4f, 0x40, 0x40, 0x40, 0x7f, 0x40, 0x40, 0x40, 0x00,
      0x00, 0x00, 0x00, 0xf0, 0x20, 0x20, 0x20, 0xf0, 0x00, 0x02, 0x01, 0xfe, 0x00, 0x00, 0x00, 0x00],
     [0x08, 0x08, 0x08, 0xff, 0x09, 0x04, 0x19, 0x12, 0x14, 0x90, 0x70, 0x14, 0x12, 0x15, 0x18, 0x00,
      0x40, 0x42, 0x81, 0xfe, 0x00, 0x02, 0x02, 0x42, 0x42, 0x42, 0x7e, 0x42, 0x42, 0x42, 0x02, 0x00],
     [0x00, 0x1f, 0x81, 0x42, 0x07, 0x59, 0x41, 0x5f, 0x42, 0x52, 0x4a, 0x42, 0x40, 0x7f, 0x00, 0x00,
      0x00, 0xff, 0x00, 0x00, 0xfe, 0x00, 0x04, 0xc8, 0x30, 0x28, 0xc4, 0x1e, 0x01, 0xfe, 0x00, 0x00],
     [0x00, 0x1f, 0x80, 0x60, 0x00, 0x00, 0x40, 0x40, 0x40, 0x40, 0x40, 0x40, 0x40, 0x7f, 0x00, 0x00,
      0x00, 0xff, 0x00, 0x00, 0x00, 0x00, 0x00, 0x00, 0x00, 0x00, 0x00, 0x02, 0x01, 0xfe, 0x00, 0x00],
     [0x00, 0x7c, 0x44, 0x47, 0x44, 0x7c, 0x08, 0x37, 0xe4, 0x24, 0x24, 0x27, 0x20, 0x3f, 0x00, 0x00,
      0x04, 0xfc, 0x04, 0xf8, 0x88, 0x88, 0x00, 0xfc, 0x42, 0x42, 0x52, 0xca, 0x12, 0xe2, 0x0e, 0x00],
     [0x00, 0x20, 0x24, 0x24, 0x24, 0x24, 0x24, 0xff, 0x24, 0x24, 0x24, 0x24, 0x24, 0x20, 0x00, 0x00,
      0x84, 0x84, 0x88, 0x90, 0xbf, 0xc1, 0x82, 0xc4, 0xa0, 0x90, 0x88, 0x94, 0xa4, 0x82, 0x82, 0x00],
     [0x01, 0x01, 0x79, 0x49, 0x49, 0x49, 0x79, 0x07, 0x01, 0x79, 0x4d, 0x4b, 0x49, 0x79, 0x01, 0x00,
      0x10, 0x10, 0x2f, 0x29, 0x49, 0x49, 0x8f, 0x00, 0x80, 0x4f, 0x49, 0x29, 0x29, 0x1f, 0x10, 0x00],
     [0x00, 0x3f, 0x21, 0x21, 0x21, 0x3f, 0x00, 0x08, 0x08, 0x08, 0x08, 0x08, 0xff, 0x08, 0x08, 0x00,
      0x00, 0xfc, 0x08, 0x08, 0x08, 0xfc, 0x00, 0x00, 0x80, 0x60, 0x02, 0x01, 0xfe, 0x00, 0x00, 0x00],
     [0x01, 0x02, 0x04, 0x09, 0x11, 0x61, 0x01, 0x01, 0x01, 0xc1, 0x31, 0x08, 0x04, 0x02, 0x01, 0x00,
      0x00, 0x01, 0x02, 0x04, 0x18, 0xe0, 0x00, 0x02, 0x01, 0x02, 0xfc, 0x00, 0x00, 0x00, 0x00, 0x00],
     [0x24, 0x24, 0x25, 0x7f, 0xc4, 0x44, 0x00, 0x03, 0x1c, 0x00, 0xff, 0x00, 0x10, 0x08, 0x06, 0x00,
      0x10, 0x60, 0x80, 0xff, 0x80, 0x60, 0x81, 0x01, 0x02, 0x02, 0xe4, 0x08, 0x30, 0xc0, 0x00, 0x00],
     [0x10, 0x60, 0x41, 0x5e, 0x44, 0x44, 0x44, 0x44, 0x44, 0x44, 0x44, 0x44, 0x44, 0x50, 0x60, 0x00,
      0x10, 0x10, 0x90, 0x90, 0x90, 0x90, 0x90, 0x90, 0x90, 0x92, 0x81, 0x82, 0xfc, 0x00, 0x00, 0x00],
     [0x00, 0x00, 0x00, 0x00, 0x00, 0x80, 0x47, 0x38, 0x07, 0x00, 0x00, 0x00, 0x00, 0x00, 0x00, 0x00,
      0x01, 0x02, 0x04, 0x08, 0x30, 0xc0, 0x00, 0x00, 0x00, 0xc0, 0x30, 0x0c, 0x02, 0x01, 0x01, 0x00],
     [0x09, 0x4a, 0x2c, 0x08, 0xff, 0x08, 0x2c, 0x4a, 0x01, 0x0e, 0xf1, 0x10, 0x10, 0x1f, 0x10, 0x00,
      0x41, 0x59, 0x6a, 0xc6, 0x44, 0x4a, 0x71, 0x00, 0x01, 0x02, 0xcc, 0x30, 0xcc, 0x02, 0x01, 0x00],
     [0x08, 0x08, 0xff, 0x08, 0x09, 0x00, 0x7f, 0x49, 0x49, 0x49, 0x4f, 0x49, 0x49, 0x79, 0x01, 0x00,
      0x42, 0x41, 0xfe, 0x80, 0x01, 0x06, 0xf8, 0x00, 0x3f, 0x22, 0xe2, 0x22, 0x22, 0x3f, 0x00, 0x00],
     [0x13, 0x1d, 0xf1, 0x17, 0x11, 0x11, 0x02, 0x12, 0x12, 0x17, 0xfa, 0x12, 0x12, 0x12, 0x02, 0x00,
      0x10, 0x18, 0x10, 0xff, 0x20, 0x20, 0x00, 0x40, 0xd0, 0x48, 0x44, 0x4b, 0x50, 0x60, 0x00, 0x00],
     [0x02, 0x22, 0x23, 0x22, 0x22, 0x22, 0x02, 0x08, 0x08, 0xff, 0x08, 0x08, 0x08, 0x0f, 0x00, 0x00,
      0x08, 0x3c, 0xc8, 0x08, 0x28, 0x1d, 0x02, 0x0c, 0x70, 0x80, 0x02, 0x01, 0x02, 0xfc, 0x00, 0x00],
     [0x00, 0x20, 0x24, 0x24, 0x24, 0x24, 0x24, 0xff, 0x24, 0x24, 0x24, 0x24, 0x24, 0x20, 0x00, 0x00,
      0x84, 0x84, 0x88, 0x90, 0xbf, 0xc1, 0x82, 0xc4, 0xa0, 0x90, 0x88, 0x94, 0xa4, 0x82, 0x82, 0x00],
     [0x00, 0x00, 0x08, 0x06, 0x20, 0x18, 0x00, 0x00, 0xff, 0x00, 0x00, 0x00, 0x00, 0x00, 0x00, 0x00,
      0x81, 0x81, 0x82, 0x82, 0x84, 0x88, 0x90, 0xe0, 0x80, 0xa0, 0x90, 0x88, 0x84, 0x83, 0x80, 0x00],
     [0x08, 0x08, 0x0b, 0xff, 0x09, 0x08, 0x10, 0x11, 0x13, 0x15, 0x99, 0x71, 0x11, 0x12, 0x14, 0x00,
      0x20, 0xc0, 0x00, 0xff, 0x00, 0xc0, 0x11, 0x11, 0x22, 0x22, 0x44, 0x88, 0x14, 0x22, 0x41, 0x00],
     [0x00, 0x10, 0x12, 0x11, 0x10, 0x13, 0x1c, 0x00, 0x09, 0x08, 0x08, 0xff, 0x08, 0x08, 0x08, 0x00,
      0x00, 0x04, 0x08, 0x30, 0xc0, 0x20, 0x18, 0x00, 0x00, 0xc2, 0x01, 0xfe, 0x00, 0x00, 0x00, 0x00],
     [0x00, 0x00, 0x00, 0x00, 0x00, 0x00, 0x00, 0x00, 0x00, 0x00, 0x00, 0x03, 0x0c, 0x30, 0xc0, 0x00,
      0x00, 0x00, 0x00, 0x08, 0x10, 0x20, 0x18, 0x04, 0x08, 0x30, 0xc0, 0x00, 0x00, 0x00, 0x00, 0x00],
     [0x00, 0x01, 0x06, 0x1f, 0xe0, 0x08, 0x09, 0x08, 0x88, 0x68, 0x08, 0x08, 0x0b, 0x08, 0x00, 0x00,
      0x80, 0x00, 0x00, 0xff, 0x02, 0x02, 0x82, 0x7a, 0x02, 0x02, 0x0e, 0x72, 0x82, 0x02, 0x02, 0x00],
     [0x02, 0x22, 0x2a, 0x26, 0xa2, 0x7e, 0x22, 0x22, 0x22, 0x7e, 0xa2, 0x26, 0x2a, 0x22, 0x02, 0x00,
      0x00, 0x00, 0x00, 0xff, 0x92, 0x92, 0x92, 0x92, 0x92, 0x92, 0x92, 0xff, 0x00, 0x00, 0x00, 0x00],
     [0x02, 0x42, 0x33, 0x00, 0x00, 0x47, 0x44, 0x54, 0x54, 0x4f, 0x54, 0x64, 0x44, 0x07, 0x00, 0x00,
      0x01, 0x02, 0xfc, 0x02, 0x01, 0xff, 0x91, 0x91, 0x91, 0xfd, 0x91, 0x95, 0x93, 0xfd, 0x01, 0x00],
     [0x00, 0x00, 0x0f, 0x08, 0x08, 0x08, 0x08, 0xff, 0x08, 0x08, 0x08, 0x08, 0x0f, 0x00, 0x00, 0x00,
      0x00, 0x00, 0xf0, 0x20, 0x20, 0x20, 0x20, 0xff, 0x20, 0x20, 0x20, 0x20, 0xf0, 0x00, 0x00, 0x00],
     [0x04, 0x0c, 0x35, 0xc6, 0x08, 0x00, 0x7f, 0x12, 0x0a, 0x02, 0xff, 0x02, 0x0a, 0x12, 0x00, 0x00,
      0x44, 0xe6, 0x44, 0x48, 0x48, 0x00, 0xfe, 0x22, 0x42, 0x82, 0xfe, 0x82, 0x42, 0x22, 0x02, 0x00],
     [0x01, 0x01, 0x79, 0x49, 0x49, 0x49, 0x79, 0x07, 0x01, 0x79, 0x4d, 0x4b, 0x49, 0x79, 0x01, 0x00,
      0x10, 0x10, 0x2f, 0x29, 0x49, 0x49, 0x8f, 0x00, 0x80, 0x4f, 0x49, 0x29, 0x29, 0x1f, 0x10, 0x00],
     [0x00, 0x00, 0x7f, 0x40, 0x40, 0x4f, 0x49, 0x59, 0x69, 0x49, 0x49, 0x4f, 0x40, 0x40, 0x40, 0x00,
      0x01, 0x06, 0xf8, 0x02, 0x04, 0xe8, 0x22, 0x21, 0x3e, 0x20, 0x20, 0xe8, 0x04, 0x02, 0x00, 0x00],
     [0x04, 0x44, 0x45, 0x7e, 0x44, 0x44, 0x7f, 0x44, 0x44, 0x00, 0x3e, 0x00, 0x00, 0xff, 0x00, 0x00,
      0x22, 0x42, 0x92, 0x12, 0x12, 0x12, 0x92, 0x7e, 0x12, 0x12, 0x12, 0x92, 0x52, 0x82, 0x02, 0x00],
     [0x08, 0x08, 0x0b, 0xff, 0x09, 0x08, 0x00, 0x7f, 0x40, 0x40, 0x40, 0x7f, 0x00, 0x00, 0x00, 0x00,
      0x20, 0xc0, 0x00, 0xff, 0x00, 0xc1, 0x06, 0xf8, 0x00, 0x00, 0x00, 0xfc, 0x02, 0x02, 0x1e, 0x00]
    ]"

text \<open>Glyphs of 6 by 8 pixels: the small font.\<close>

definition zm6_8 :: "u8 list list" where
  "zm6_8 =
    [
     [0x7c, 0x82, 0x82, 0x82, 0x7c, 0x00],
     [0x00, 0x42, 0xfe, 0x02, 0x00, 0x00],
     [0x46, 0x86, 0x8a, 0x92, 0x62, 0x00],
     [0x44, 0x82, 0xa2, 0xa2, 0xdc, 0x00],
     [0x18, 0x28, 0x48, 0xfe, 0x08, 0x00],
     [0xe4, 0xa2, 0xa2, 0xa2, 0x9c, 0x00],
     [0x7c, 0x92, 0x92, 0x92, 0x0c, 0x00],
     [0xc0, 0x80, 0x9e, 0xe0, 0x80, 0x00],
     [0x6c, 0x92, 0x92, 0x92, 0x6c, 0x00],
     [0x60, 0x92, 0x92, 0x92, 0x7c, 0x00],
     [0x00, 0x00, 0x00, 0x00, 0x00, 0x00],
     [0xfe, 0xf0, 0x1e, 0xe0, 0xfe, 0x00],
     [0x66, 0x92, 0x92, 0x92, 0xcc, 0x00],
     [0x80, 0xf8, 0x06, 0x1c, 0xe0, 0x80],
     [0x82, 0x82, 0xfe, 0x82, 0x82, 0x00],
     [0x82, 0xfe, 0x82, 0x82, 0x7c, 0x00],
     [0x82, 0xfe, 0x82, 0x02, 0x02, 0x06],
     [0x82, 0xee, 0x38, 0xee, 0x82, 0x00],
     [0x02, 0x3e, 0xe8, 0x78, 0x0e, 0x02],
     [0x01, 0x81, 0x81, 0xfe, 0x80, 0x80],
     [0x82, 0xfe, 0xb2, 0x78, 0xc6, 0x82],
     [0x00, 0x00, 0x22, 0x00, 0x00, 0x00],
     [0x10, 0x10, 0x10, 0x10, 0x10, 0x00],
     [0xc0, 0x82, 0xfe, 0x82, 0xc0, 0x00],
     [0x82, 0xfe, 0x92, 0x90, 0x60, 0x00],
     [0x82, 0xfe, 0xa2, 0xf2, 0x86, 0x00],
     [0x82, 0xfe, 0xa2, 0xb0, 0xee, 0x02],
     [0x82, 0xfe, 0xa2, 0xa2, 0xdc, 0x00],
     [0x80, 0xe2, 0x9e, 0xe2, 0x80, 0x00],
     [0x7c, 0x8a, 0x8a, 0x87, 0x7d, 0x00],
     [0x7c, 0x82, 0x82, 0x82, 0x7c, 0x00],
     [0xe0, 0x1e, 0xe0, 0x3e, 0xe0, 0x00],
     [0x66, 0x92, 0x92, 0x92, 0xcc, 0x00],
     [0x82, 0x82, 0xfe, 0x82, 0x82, 0x00],
     [0x82, 0xfe, 0x72, 0x88, 0xfe, 0x80],
     [0x00, 0x03, 0x1c, 0x60, 0x80, 0x00]
    ]"

text \<open>Glyphs of 16 by 32 pixels: the large digits.\<close>

definition zm16_32 :: "u8 list list" where
  "zm16_32 =
    [
     [0x00, 0x00, 0x00, 0x00, 0x01, 0x03, 0x03, 0x03, 0x03, 0x03, 0x03, 0x01, 0x00, 0x00, 0x00, 0x00,
      0x00, 0x0f, 0x7f, 0xff, 0xe0, 0x80, 0x00, 0x00, 0x00, 0x00, 0xc0, 0xf0, 0xff, 0x3f, 0x00, 0x00,
      0x00, 0xf8, 0xff, 0xff, 0x03, 0x00, 0x00, 0x00, 0x00, 0x00, 0x00, 0x07, 0xff, 0xfe, 0x00, 0x00,
      0x00, 0x00, 0x00, 0xc0, 0xc0, 0xe0, 0x60, 0x70, 0x70, 0x60, 0xe0, 0xc0, 0x80, 0x00, 0x00, 0x00],
     [0x00, 0x00, 0x00, 0x00, 0x00, 0x00, 0x00, 0x03, 0x03, 0x03, 0x00, 0x00, 0x00, 0x00, 0x00, 0x00,
      0x00, 0x00, 0x00, 0x38, 0x30, 0x60, 0xc0, 0xff, 0xff, 0xff, 0x00, 0x00, 0x00, 0x00, 0x00, 0x00,
      0x00, 0x00, 0x00, 0x00, 0x00, 0x00, 0x00, 0xff, 0xff, 0xff, 0x00, 0x00, 0x00, 0x00, 0x00, 0x00,
      0x00, 0x00, 0x00, 0x00, 0x00, 0x00, 0x00, 0xe0, 0xe0, 0xe0, 0x00, 0x00, 0x00, 0x00, 0x00, 0x00],
     [0x00, 0x00, 0x00, 0x01, 0x03, 0x03, 0x03, 0x03, 0x03, 0x03, 0x03, 0x01, 0x01, 0x00, 0x00, 0x00,
      0x00, 0x20, 0xe0, 0xe0, 0xc0, 0x80, 0x00, 0x00, 0x00, 0x00, 0x83, 0xff, 0xff, 0x78, 0x00, 0x00,
      0x00, 0x00, 0x00, 0x01, 0x03, 0x07, 0x0e, 0x1c, 0x78, 0xf0, 0xc0, 0x80, 0x00, 0x00, 0x00, 0x00,
      0x00, 0x00, 0xe0, 0xe0, 0xe0, 0xe0, 0x60, 0x60, 0x60, 0x60, 0x60, 0x60, 0x60, 0x60, 0x00, 0x00],
     [0x00, 0x00, 0x00, 0x00, 0x01, 0x03, 0x03, 0x03, 0x03, 0x03, 0x03, 0x01, 0x01, 0x00, 0x00, 0x00,
      0x00, 0x00, 0x60, 0xf0, 0xc0, 0x80, 0x01, 0x01, 0x01, 0x03, 0x83, 0xfe, 0xfe, 0x78, 0x00, 0x00,
      0x00, 0x02, 0x03, 0x07, 0x01, 0x00, 0x80, 0x80, 0x80, 0xc0, 0xc0, 0xfb, 0x7f, 0x3f, 0x00, 0x00,
      0x00, 0x00, 0x80, 0xc0, 0xe0, 0xe0, 0x60, 0x70, 0x70, 0x60, 0xe0, 0xc0, 0xc0, 0x00, 0x00, 0x00],
     [0x00, 0x00, 0x00, 0x00, 0x00, 0x00, 0x00, 0x00, 0x00, 0x01, 0x03, 0x03, 0x00, 0x00, 0x00, 0x00,
      0x00, 0x00, 0x00, 0x00, 0x03, 0x07, 0x0e, 0x3c, 0x78, 0xe0, 0xff, 0xff, 0x00, 0x00, 0x00, 0x00,
      0x0e, 0x1e, 0x7e, 0xfe, 0xce, 0x8e, 0x0e, 0x0e, 0x0e, 0x0e, 0xff, 0xff, 0x0e, 0x0e, 0x0e, 0x00,
      0x00, 0x00, 0x00, 0x00, 0x00, 0x00, 0x00, 0x00, 0x00, 0x00, 0xe0, 0xe0, 0x00, 0x00, 0x00, 0x00],
     [0x00, 0x00, 0x00, 0x03, 0x03, 0x03, 0x03, 0x03, 0x03, 0x03, 0x03, 0x03, 0x03, 0x00, 0x00, 0x00,
      0x00, 0x01, 0x1f, 0xff, 0xf3, 0x06, 0x06, 0x06, 0x06, 0x07, 0x03, 0x03, 0x01, 0x00, 0x00, 0x00,
      0x00, 0x83, 0x87, 0x81, 0x00, 0x00, 0x00, 0x00, 0x00, 0x00, 0x80, 0xe7, 0xff, 0x7f, 0x00, 0x00,
      0x00, 0x80, 0xc0, 0xe0, 0x60, 0x70, 0x70, 0x70, 0x70, 0xe0, 0xe0, 0xc0, 0x80, 0x00, 0x00, 0x00],
     [0x00, 0x00, 0x00, 0x00, 0x00, 0x00, 0x00, 0x00, 0x03, 0x03, 0x03, 0x00, 0x00, 0x00, 0x00, 0x00,
      0x00, 0x00, 0x00, 0x03, 0x0f, 0x1f, 0x7f, 0xf3, 0xe3, 0x83, 0x03, 0x03, 0x01, 0x00, 0x00, 0x00,
      0x00, 0x3e, 0xff, 0xff, 0xc1, 0x80, 0x00, 0x00, 0x00, 0x00, 0x00, 0x80, 0xff, 0xff, 0x7f, 0x00,
      0x00, 0x00, 0x80, 0xc0, 0xe0, 0xe0, 0x60, 0x70, 0x70, 0x70, 0x60, 0xe0, 0xc0, 0x80, 0x00, 0x00],
     [0x00, 0x03, 0x03, 0x03, 0x03, 0x03, 0x03, 0x03, 0x03, 0x03, 0x03, 0x03, 0x03, 0x03, 0x03, 0x00,
      0x00, 0x00, 0x00, 0x00, 0x00, 0x00, 0x00, 0x00, 0x01, 0x07, 0x1f, 0x7c, 0xf0, 0xc0, 0x80, 0x00,
      0x00, 0x00, 0x00, 0x00, 0x00, 0x01, 0x0f, 0x7f, 0xfc, 0xe0, 0x00, 0x00, 0x00, 0x00, 0x00, 0x00,
      0x00, 0x00, 0x00, 0x00, 0x20, 0xe0, 0xe0, 0x80, 0x00, 0x00, 0x00, 0x00, 0x00, 0x00, 0x00, 0x00],
     [0x00, 0x00, 0x00, 0x01, 0x03, 0x03, 0x03, 0x03, 0x03, 0x03, 0x03, 0x01, 0x00, 0x00, 0x00, 0x00,
      0x00, 0x00, 0xfe, 0xfe, 0x87, 0x03, 0x01, 0x01, 0x01, 0x03, 0x87, 0xfe, 0xfe, 0x78, 0x00, 0x00,
      0x00, 0x3f, 0x7f, 0xf3, 0xe0, 0xc0, 0x80, 0x80, 0x80, 0xc0, 0xc0, 0xf1, 0x7f, 0x3f, 0x00, 0x00,
      0x00, 0x80, 0xc0, 0xe0, 0xe0, 0x60, 0x70, 0x70, 0x70, 0x60, 0xe0, 0xe0, 0xc0, 0x80, 0x00, 0x00],
     [0x00, 0x00, 0x00, 0x01, 0x03, 0x03, 0x03, 0x03, 0x03, 0x03, 0x03, 0x01, 0x00, 0x00, 0x00, 0x00,
      0x00, 0x7f, 0xff, 0xe1, 0x80, 0x80, 0x00, 0x00, 0x00, 0x80, 0xc1, 0xff, 0xff, 0x7e, 0x00, 0x00,
      0x00, 0x80, 0xc0, 0xe0, 0xe0, 0x60, 0x61, 0x67, 0x7f, 0xfe, 0xf8, 0xe0, 0xc0, 0x00, 0x00, 0x00,
      0x00, 0x00, 0x00, 0x00, 0x10, 0x70, 0xf0, 0xc0, 0x80, 0x00, 0x00, 0x00, 0x00, 0x00, 0x00, 0x00],
     [0x00, 0x00, 0x00, 0x00, 0x00, 0x00, 0x00, 0x00, 0x00, 0x00, 0x00, 0x00, 0x00, 0x00, 0x00, 0x00,
      0x00, 0x01, 0x01, 0x01, 0x01, 0x01, 0x01, 0x01, 0x01, 0x01, 0x01, 0x01, 0x01, 0x01, 0x01, 0x00,
      0x00, 0x80, 0x80, 0x80, 0x80, 0x80, 0x80, 0x80, 0x80, 0x80, 0x80, 0x80, 0x80, 0x80, 0x80, 0x00,
      0x00, 0x00, 0x00, 0x00, 0x00, 0x00, 0x00, 0x00, 0x00, 0x00, 0x00, 0x00, 0x00, 0x00, 0x00, 0x00],
     [0x00, 0x03, 0x03, 0x03, 0x03, 0x03, 0x03, 0x03, 0x03, 0x03, 0x03, 0x01, 0x01, 0x00, 0x00, 0x00,
      0x00, 0xff, 0xff, 0xff, 0x00, 0x00, 0x00, 0x00, 0x00, 0x81, 0x81, 0xff, 0xff, 0x7f, 0x00, 0x00,
      0x00, 0xff, 0xff, 0xff, 0xc0, 0xc0, 0xc0, 0xc0, 0xf0, 0xfc, 0xff, 0x8f, 0x83, 0x00, 0x00, 0x00,
      0x00, 0xe0, 0xe0, 0xe0, 0x00, 0x00, 0x00, 0x00, 0x00, 0x00, 0x00, 0xc0, 0xe0, 0xe0, 0x20, 0x00],
     [0x00, 0x00, 0x00, 0x01, 0x01, 0x03, 0x03, 0x03, 0x03, 0x03, 0x03, 0x01, 0x00, 0x00, 0x00, 0x00,
      0x00, 0x00, 0xfc, 0xfe, 0xff, 0x87, 0x03, 0x01, 0x01, 0x81, 0xc0, 0xf0, 0xf0, 0x30, 0x00, 0x00,
      0x00, 0x07, 0x07, 0x07, 0x01, 0x80, 0x80, 0x80, 0xc0, 0xe0, 0xe0, 0x79, 0x7f, 0x3f, 0x00, 0x00,
      0x00, 0x00, 0x80, 0xc0, 0xe0, 0x60, 0x70, 0x70, 0x70, 0x60, 0xe0, 0xe0, 0xc0, 0x80, 0x00, 0x00],
     [0x00, 0x00, 0x00, 0x00, 0x00, 0x00, 0x03, 0x03, 0x03, 0x00, 0x00, 0x00, 0x00, 0x00, 0x00, 0x00,
      0x00, 0x00, 0x00, 0x00, 0x00, 0x00, 0xff, 0xff, 0xff, 0x00, 0x00, 0x00, 0x00, 0x00, 0x00, 0x00,
      0x00, 0x00, 0x00, 0x00, 0x00, 0x00, 0xff, 0xff, 0xff, 0x00, 0x00, 0x00, 0x00, 0x00, 0x00, 0x00,
      0x00, 0x00, 0x00, 0x00, 0x00, 0x00, 0xe0, 0xe0, 0xe0, 0x00, 0x00, 0x00, 0x00, 0x00, 0x00, 0x00],
     [0x00, 0x00, 0x00, 0x00, 0x00, 0x00, 0x00, 0x00, 0x00, 0x00, 0x00, 0x00, 0x00, 0x00, 0x00, 0x00,
      0x00, 0x00, 0x00, 0x00, 0x00, 0x00, 0x00, 0x00, 0x00, 0x00, 0x00, 0x00, 0x00, 0x00, 0x00, 0x00,
      0x00, 0x00, 0x00, 0x00, 0x00, 0x00, 0x00, 0x00, 0x00, 0x00, 0x00, 0x00, 0x00, 0x00, 0x00, 0x00,
      0x00, 0x00, 0x00, 0x00, 0x00, 0x00, 0x00, 0x00, 0x00, 0x00, 0x00, 0x00, 0x00, 0x00, 0x00, 0x00]
    ]"

definition my_szzf_list :: "u8 list" where
  "my_szzf_list = bytes ''0123456789 MSIDVTIME:WLBCriteoalvmpwycsunghRdIf''"

definition my_zf6_8 :: "u8 list" where
  "my_zf6_8 = bytes ''0123456789 MSVIDLXAJK:-TPERBYQOWSIN/''"

section \<open>Shape of the tables\<close>

lemma font_lengths [simp]:
  "length sz = 47" "length hz = 30" "length zm6_8 = 36" "length zm16_32 = 15"
  by (simp_all add: sz_def hz_def zm6_8_def zm16_32_def)

lemma glyph_lengths:
  "list_all (\<lambda>g. length g = 16) sz"
  "list_all (\<lambda>g. length g = 32) hz"
  "list_all (\<lambda>g. length g = 6) zm6_8"
  "list_all (\<lambda>g. length g = 64) zm16_32"
  by (simp_all add: sz_def hz_def zm6_8_def zm16_32_def)

lemma glyph_length_nth [simp]:
  "k < 47 \<Longrightarrow> length (sz ! k) = 16"
  "k < 30 \<Longrightarrow> length (hz ! k) = 32"
  "k < 36 \<Longrightarrow> length (zm6_8 ! k) = 6"
  "k < 15 \<Longrightarrow> length (zm16_32 ! k) = 64"
  using glyph_lengths by (auto simp: list_all_length)

text \<open>Every character of the two strings has a glyph in the table it indexes.\<close>

lemma alphabet_lengths [simp]: "length my_szzf_list = 47" "length my_zf6_8 = 36"
  by (simp_all add: my_szzf_list_def my_zf6_8_def)

end
