(* ===== verification/Lcd_19264.thy ===== *)
theory Lcd_19264
  imports Board_IO Lcd_Fonts
begin

text \<open>
  The driver of the 192 by 64 display (\<^verbatim>\<open>applications/LCD_19264.c\<close>). It clocks bytes out over
  three pins (\<open>WriteData\<close>) and paints glyphs with page and column commands. The second half of
  the theory is what the display sees: a serial receiver that samples the pins, and the display
  memory the received commands and data address.
\<close>

section \<open>The driver\<close>

definition LCD_SCK :: nat where "LCD_SCK = 0x1d"
definition LCD_SDA :: nat where "LCD_SDA = 0x1f"
definition LCD_RST :: nat where "LCD_RST = 0x1e"
definition LCD_CD :: nat where "LCD_CD = 0x26"
definition LCD_NSS :: nat where "LCD_NSS = 0x1c"
definition LCD_BK :: nat where "LCD_BK = 0x27"

definition spin :: "nat \<Rightarrow> history \<Rightarrow> history" where
  "spin z h = Spin z # h"

definition write_bit :: "u8 \<Rightarrow> history \<Rightarrow> history" where
  "write_bit dat h =
     (let h = rt_pin_write LCD_SDA (dat AND 0x80 = 0x80) h;
          h = spin 5 (rt_pin_write LCD_SCK False h)
      in spin 5 (rt_pin_write LCD_SCK True h))"

primrec shift_out :: "nat \<Rightarrow> u8 \<Rightarrow> history \<Rightarrow> history" where
  "shift_out 0 dat h = h"
| "shift_out (Suc n) dat h = shift_out n (push_bit 1 dat) (write_bit dat h)"

definition WriteData :: "u8 \<Rightarrow> u8 \<Rightarrow> history \<Rightarrow> history" where
  "WriteData data C h =
     (let h = rt_pin_write LCD_NSS False h;
          h = rt_pin_write LCD_CD (C = 1) h
      in rt_pin_write LCD_NSS True (shift_out 8 data h))"

definition lcd_gpio_init :: "history \<Rightarrow> history" where
  "lcd_gpio_init h =
     rt_pin_write LCD_BK True
       (fold (\<lambda>p. rt_pin_mode p Output) [LCD_SCK, LCD_SDA, LCD_RST, LCD_CD, LCD_NSS, LCD_BK] h)"

definition clear_page :: "u8 \<Rightarrow> u8 \<Rightarrow> history \<Rightarrow> history" where
  "clear_page D i h =
     (let h = WriteData 0x40 0 h;
          h = WriteData (0xb0 OR i) 0 h;
          h = WriteData 0x10 0 h;
          h = WriteData 0x00 0 h
      in fold (\<lambda>_. WriteData D 1) [0..<192] h)"

definition Dispgraphic :: "u8 \<Rightarrow> history \<Rightarrow> history" where
  "Dispgraphic D h = fold (clear_page D) [0, 1, 2, 3, 4, 5, 6, 7] h"

text \<open>
  One page of a glyph: the page command, the two column commands and \<open>w\<close> data bytes, read from
  the glyph from the right to the left. The glyph number is the index the C code does not check.
\<close>

definition glyph_page ::
    "u8 list list \<Rightarrow> nat \<Rightarrow> u8 \<Rightarrow> u8 \<Rightarrow> nat \<Rightarrow> u8 \<Rightarrow> bool \<Rightarrow> history \<Rightarrow> history result" where
  "glyph_page font w page l s k invert h =
     (let h = WriteData page 0 h;
          h = WriteData (0x10 + (drop_bit 4 l AND 0x0F)) 0 h;
          h = WriteData (l AND 0x0F) 0 h
      in fold_r (\<lambda>j h. bind_r (arr_get font (unat k)) (\<lambda>glyph.
             map_r (\<lambda>b. WriteData (if invert then NOT b else b) 1 h) (arr_get glyph (j + s - 1))))
           (rev [1..<w + 1]) h)"

definition lcd_number :: "u8 \<Rightarrow> u8 \<Rightarrow> u8 \<Rightarrow> u8 \<Rightarrow> history \<Rightarrow> history result" where
  "lcd_number y l k reverse h =
     (let y = 6 - y; l = 192 - 8 - l
      in bind_r (glyph_page sz 8 ((0xb0 OR 1) + y) l 0 k (reverse \<noteq> 0) h)
           (glyph_page sz 8 ((0xb0 OR 0) + y) l 8 k (reverse \<noteq> 0)))"

definition lcd_show16_32 :: "u8 \<Rightarrow> u8 \<Rightarrow> u8 \<Rightarrow> history \<Rightarrow> history result" where
  "lcd_show16_32 y l k h =
     (let y = 4 - y; l = 192 - 16 - l
      in bind_r (glyph_page zm16_32 16 ((0xb0 OR 3) + y) l 0 k False h) (\<lambda>h.
         bind_r (glyph_page zm16_32 16 ((0xb0 OR 2) + y) l 16 k False h) (\<lambda>h.
         bind_r (glyph_page zm16_32 16 ((0xb0 OR 1) + y) l 32 k False h)
           (glyph_page zm16_32 16 ((0xb0 OR 0) + y) l 48 k False))))"

definition lcd_show6_8 :: "u8 \<Rightarrow> u8 \<Rightarrow> u8 \<Rightarrow> u8 \<Rightarrow> history \<Rightarrow> history result" where
  "lcd_show6_8 y l k reverse h =
     (let y = 7 - y; l = 192 - 6 - l
      in glyph_page zm6_8 6 (0xb0 + y) l 0 k (reverse \<noteq> 0) h)"

definition lcd_chinese :: "u8 \<Rightarrow> u8 \<Rightarrow> u8 \<Rightarrow> u8 \<Rightarrow> history \<Rightarrow> history result" where
  "lcd_chinese y l k reverse h =
     (let y = 6 - y; l = 192 - 16 - l
      in bind_r (glyph_page hz 16 ((0xb0 OR 1) + y) l 0 k (reverse \<noteq> 0) h)
           (glyph_page hz 16 ((0xb0 OR 0) + y) l 16 k (reverse \<noteq> 0)))"

text \<open>The search loops: the index of a character, 0 when the string does not hold it.\<close>

primrec zf_search :: "u8 list \<Rightarrow> u8 \<Rightarrow> u8 \<Rightarrow> u8" where
  "zf_search [] i data = 0"
| "zf_search (c # cs) i data = (if data = c then i else zf_search cs (i + 1) data)"

definition get_zf68_number :: "u8 \<Rightarrow> u8" where
  "get_zf68_number data = zf_search my_zf6_8 0 data"

definition get_zf_number :: "u8 \<Rightarrow> u8" where
  "get_zf_number data = zf_search my_szzf_list 0 data"

text \<open>
  The text loops. A C string is the list of its bytes before the terminating zero; the loop index
  \<open>i\<close> and the pen position \<open>Centered\<close> are \<^verbatim>\<open>uint8_t\<close>.
\<close>

primrec text_loop ::
    "(u8 \<Rightarrow> u8 \<Rightarrow> u8 \<Rightarrow> history \<Rightarrow> history result) \<Rightarrow> u8 \<Rightarrow> u8 list \<Rightarrow> u8 \<Rightarrow> u8 \<Rightarrow>
       history \<Rightarrow> history result" where
  "text_loop put width [] i centered h = Inr h"
| "text_loop put width (c # cs) i centered h =
     bind_r (put i centered c h) (text_loop put width cs (i + 1) (centered + width))"

definition lcd_show_zf6_8 :: "u8 \<Rightarrow> u8 \<Rightarrow> u8 list \<Rightarrow> history \<Rightarrow> history result" where
  "lcd_show_zf6_8 y l data =
     text_loop (\<lambda>i centered c. lcd_show6_8 y (l + centered) (get_zf68_number c) 0) 6 data 0 0"

definition lcd_show_zf_time :: "u8 \<Rightarrow> u8 \<Rightarrow> u8 list \<Rightarrow> u8 \<Rightarrow> history \<Rightarrow> history result" where
  "lcd_show_zf_time y l data reverse =
     text_loop (\<lambda>i centered c.
         lcd_show6_8 y (l + centered) (get_zf68_number c)
           (if unat i \<noteq> 2 + unat reverse + unat reverse div 2 then 0 else 1)) 6 data 0 0"

definition lcd_show_zf :: "u8 \<Rightarrow> u8 \<Rightarrow> u8 list \<Rightarrow> history \<Rightarrow> history result" where
  "lcd_show_zf y l data =
     text_loop (\<lambda>i centered c. lcd_number y (l + centered) (get_zf_number c) 0) 8 data 0 0"

text \<open>
  \<^verbatim>\<open>lcd_show\<close> draws a list of glyph codes: below 100 a Chinese character, else a character of
  \<open>sz\<close>; entry 0 of the array is not drawn. With \<open>l = 200\<close> the line is centred. \<open>reverse = 1\<close>
  inverts all of it, \<open>reverse = 10 + n\<close> its \<open>n\<close>-th glyph.
\<close>

primrec half_width :: "u8 list \<Rightarrow> nat list \<Rightarrow> u8 \<Rightarrow> u8 result" where
  "half_width list [] centered = Inr centered"
| "half_width list (i # is) centered =
     bind_r (arr_get list (i + 1)) (\<lambda>c.
       half_width list is (centered + (if c < 100 then 8 else 4)))"

primrec show_loop ::
    "u8 \<Rightarrow> u8 \<Rightarrow> u8 list \<Rightarrow> u8 \<Rightarrow> nat list \<Rightarrow> u8 \<Rightarrow> history \<Rightarrow> history result" where
  "show_loop y l list reverse [] centered h = Inr h"
| "show_loop y l list reverse (i # is) centered h =
     bind_r (arr_get list (i + 1)) (\<lambda>c.
       let inv = (if (reverse \<ge> 10 \<and> unat reverse - 10 = i) \<or> reverse = 1 then 1 else 0)
       in if c < 100
          then bind_r (lcd_chinese y (l + centered) c inv h)
                 (show_loop y l list reverse is (centered + 16))
          else bind_r (lcd_number y (l + centered) (c - 100) inv h)
                 (show_loop y l list reverse is (centered + 8)))"

definition lcd_show :: "u8 \<Rightarrow> u8 \<Rightarrow> u8 list \<Rightarrow> u8 \<Rightarrow> u8 \<Rightarrow> history \<Rightarrow> history result" where
  "lcd_show y l list len reverse h =
     bind_r
       (if l = 200
        then map_r (\<lambda>c. if c < 96 then 96 - c else 0) (half_width list [0..<unat len] 0)
        else Inr l)
       (\<lambda>l. show_loop y l list reverse [0..<unat len] 0 h)"

definition Init_lcd :: "history \<Rightarrow> history" where
  "Init_lcd h =
     (let h = lcd_gpio_init h;
          h = rt_thread_mdelay 15 (rt_pin_write LCD_RST False h);
          h = rt_thread_mdelay 30 (rt_pin_write LCD_RST True h);
          h = fold (\<lambda>c. WriteData c 0) IC h
      in Dispgraphic 0x00 h)"

section \<open>What the display receives\<close>

text \<open>
  The receiver at the other end of the wires: selected while chip select is low, it samples the
  data pin at each rising edge of the clock, and after eight edges it has a byte, which is data or
  a command by the level of the command/data pin.
\<close>

record lcd_rx =
  rx_selected :: bool
  rx_cd :: bool
  rx_sda :: bool
  rx_sck :: bool
  rx_shift :: "bool list"
  rx_out :: "(u8 \<times> bool) list"

definition lcd_rx_idle :: lcd_rx where
  "lcd_rx_idle = \<lparr>rx_selected = False, rx_cd = False, rx_sda = False, rx_sck = False,
     rx_shift = [], rx_out = []\<rparr>"

definition lcd_sample :: "lcd_rx \<Rightarrow> lcd_rx" where
  "lcd_sample r =
     (let bs = rx_shift r @ [rx_sda r]
      in if length bs = 8
         then r\<lparr>rx_shift := [], rx_out := rx_out r @ [(byte_of_bits bs, rx_cd r)]\<rparr>
         else r\<lparr>rx_shift := bs\<rparr>)"

fun lcd_rx_step :: "event \<Rightarrow> lcd_rx \<Rightarrow> lcd_rx" where
  "lcd_rx_step (PinWrite p v) r =
     (if p = LCD_NSS then r\<lparr>rx_selected := \<not> v, rx_shift := []\<rparr>
      else if p = LCD_CD then r\<lparr>rx_cd := v\<rparr>
      else if p = LCD_SDA then r\<lparr>rx_sda := v\<rparr>
      else if p = LCD_SCK
      then (if v \<and> \<not> rx_sck r \<and> rx_selected r then lcd_sample r else r)\<lparr>rx_sck := v\<rparr>
      else r)"
| "lcd_rx_step _ r = r"

primrec lcd_rx_of :: "history \<Rightarrow> lcd_rx" where
  "lcd_rx_of [] = lcd_rx_idle"
| "lcd_rx_of (e # h) = lcd_rx_step e (lcd_rx_of h)"

definition lcd_stream :: "history \<Rightarrow> (u8 \<times> bool) list" where
  "lcd_stream h = rx_out (lcd_rx_of h)"

subsection \<open>The link: one byte per call\<close>

lemma lcd_pins_distinct [simp]:
  "LCD_NSS \<noteq> LCD_CD" "LCD_NSS \<noteq> LCD_SDA" "LCD_NSS \<noteq> LCD_SCK"
  "LCD_CD \<noteq> LCD_NSS" "LCD_CD \<noteq> LCD_SDA" "LCD_CD \<noteq> LCD_SCK"
  "LCD_SDA \<noteq> LCD_NSS" "LCD_SDA \<noteq> LCD_CD" "LCD_SDA \<noteq> LCD_SCK"
  "LCD_SCK \<noteq> LCD_NSS" "LCD_SCK \<noteq> LCD_CD" "LCD_SCK \<noteq> LCD_SDA"
  by (simp_all add: LCD_NSS_def LCD_CD_def LCD_SDA_def LCD_SCK_def)

lemma lcd_rx_of_pin_write [simp]:
  "lcd_rx_of (rt_pin_write p v h) = lcd_rx_step (PinWrite p v) (lcd_rx_of h)"
  by (simp add: rt_pin_write_def)

lemma lcd_rx_of_spin [simp]: "lcd_rx_of (spin z h) = lcd_rx_of h"
  by (simp add: spin_def)

text \<open>A bit clocked out reaches the shift register, whatever the clock was before.\<close>

lemma lcd_rx_of_write_bit:
  "rx_selected (lcd_rx_of h) \<Longrightarrow>
     lcd_rx_of (write_bit dat h) =
       (lcd_sample ((lcd_rx_of h)\<lparr>rx_sda := bit dat 7, rx_sck := False\<rparr>))\<lparr>rx_sck := True\<rparr>"
  by (simp add: write_bit_def Let_def and_0x80)

lemma shift_out_bits:
  assumes "rx_selected (lcd_rx_of h)" and "length (rx_shift (lcd_rx_of h)) + Suc n = 8"
  shows "rx_out (lcd_rx_of (shift_out (Suc n) dat h)) =
      rx_out (lcd_rx_of h) @
        [(byte_of_bits (rx_shift (lcd_rx_of h) @ map (\<lambda>i. bit dat (7 - i)) [0..<Suc n]),
          rx_cd (lcd_rx_of h))]"
  using assms
proof (induction n arbitrary: dat h)
  case 0
  then show ?case by (simp add: lcd_rx_of_write_bit lcd_sample_def Let_def)
next
  case (Suc n)
  let ?r = "lcd_rx_of h" and ?r' = "lcd_rx_of (write_bit dat h)"
  have r': "?r' = ?r\<lparr>rx_sda := bit dat 7, rx_sck := True, rx_shift := rx_shift ?r @ [bit dat 7]\<rparr>"
    using Suc.prems by (simp add: lcd_rx_of_write_bit lcd_sample_def Let_def)
  have bits: "map (\<lambda>i. bit dat (7 - i)) [0..<Suc (Suc n)] =
      bit dat 7 # map (\<lambda>i. bit (push_bit 1 dat) (7 - i)) [0..<Suc n]"
    using Suc.prems by (auto simp: upt_conv_Cons map_Suc_upt [symmetric] bit_double_u8 simp del: upt_Suc)
  have "rx_out (lcd_rx_of (shift_out (Suc n) (push_bit 1 dat) (write_bit dat h))) =
      rx_out ?r' @
        [(byte_of_bits (rx_shift ?r' @ map (\<lambda>i. bit (push_bit 1 dat) (7 - i)) [0..<Suc n]), rx_cd ?r')]"
    using Suc.prems by (intro Suc.IH) (simp_all add: r')
  then show ?case
    by (simp only: shift_out.simps(2) [of "Suc n"] bits) (simp add: r')
qed

lemma WriteData_received: "lcd_stream (WriteData d c h) = lcd_stream h @ [(d, c = 1)]"
proof -
  let ?h = "rt_pin_write LCD_CD (c = 1) (rt_pin_write LCD_NSS False h)"
  have "rx_out (lcd_rx_of (shift_out (Suc 7) d ?h)) =
      rx_out (lcd_rx_of h) @ [(byte_of_bits (map (\<lambda>i. bit d (7 - i)) [0..<Suc 7]), c = 1)]"
    by (subst shift_out_bits) simp_all
  moreover have "map (\<lambda>i. bit d (7 - i)) [0..<Suc 7] = msb_bits d"
    by (simp add: msb_bits_def upt_8)
  ultimately show ?thesis by (simp add: WriteData_def Let_def lcd_stream_def)
qed

text \<open>
  The interface the painting routines rely on: a way to emit a byte and what the other side has
  received of it. Whatever is emitted arrives, in order, with its command/data level.
\<close>

locale byte_link =
  fixes emit :: "u8 \<Rightarrow> u8 \<Rightarrow> 'h \<Rightarrow> 'h"
    and stream :: "'h \<Rightarrow> (u8 \<times> bool) list"
  assumes stream_emit: "stream (emit d c h) = stream h @ [(d, c = 1)]"
begin

lemma stream_commands:
  "stream (fold (\<lambda>c. emit c 0) cs h) = stream h @ map (\<lambda>c. (c, False)) cs"
  by (induction cs arbitrary: h) (simp_all add: stream_emit)

lemma stream_data:
  "stream (fold (\<lambda>x. emit (f x) 1) xs h) = stream h @ map (\<lambda>x. (f x, True)) xs"
  by (induction xs arbitrary: h) (simp_all add: stream_emit)

lemma stream_fill:
  "stream (fold (\<lambda>x. emit d 1) xs h) = stream h @ replicate (length xs) (d, True)"
  by (induction xs arbitrary: h) (simp_all add: stream_emit)

end

interpretation lcd: byte_link WriteData lcd_stream
  by unfold_locales (rule WriteData_received)

text \<open>The bytes of one page of a glyph.\<close>

definition page_stream :: "u8 list \<Rightarrow> nat \<Rightarrow> u8 \<Rightarrow> u8 \<Rightarrow> nat \<Rightarrow> bool \<Rightarrow> (u8 \<times> bool) list" where
  "page_stream glyph w page l s invert =
     [(page, False), (0x10 + (drop_bit 4 l AND 0x0F), False), (l AND 0x0F, False)] @
     map (\<lambda>j. (if invert then NOT (glyph ! (j + s - 1)) else glyph ! (j + s - 1), True))
       (rev [1..<w + 1])"

lemma glyph_page_stream:
  assumes "unat k < length font" and "s + w \<le> length (font ! unat k)"
  shows "\<exists>h'. glyph_page font w page l s k invert h = Inr h' \<and>
    lcd_stream h' = lcd_stream h @ page_stream (font ! unat k) w page l s invert"
proof -
  let ?g = "font ! unat k"
  let ?f = "\<lambda>j. if invert then NOT (?g ! (j + s - 1)) else ?g ! (j + s - 1)"
  let ?put = "\<lambda>j h. bind_r (arr_get font (unat k)) (\<lambda>glyph.
      map_r (\<lambda>b. WriteData (if invert then NOT b else b) 1 h) (arr_get glyph (j + s - 1)))"
  have "fold_r ?put (rev [1..<w + 1]) h' = Inr (fold (\<lambda>j. WriteData (?f j) 1) (rev [1..<w + 1]) h')"
    for h' using assms by (intro fold_r_Inr) auto
  then show ?thesis
    by (simp add: glyph_page_def Let_def lcd.stream_data lcd.stream_emit page_stream_def)
qed

lemma glyph_page_fault:
  "length font \<le> unat k \<Longrightarrow> glyph_page font (Suc w) page l s k invert h = Inl OutOfBounds"
  by (simp add: glyph_page_def Let_def)

end
