(* ===== verification/Lcd_Screen.thy ===== *)
theory Lcd_Screen
  imports Lcd_19264
begin

text \<open>
  The display memory behind the serial link. The commands are those the driver's comments name:
  \<open>0xb0 + page\<close>, \<open>0x10 + high nibble\<close> and \<open>low nibble\<close> of the column; a data byte goes to the
  addressed cell and moves the column on. With it the painting routines have a meaning: which
  cells they change, and to what.
\<close>

record lcd_ram =
  ram_page :: nat
  ram_col :: nat
  ram_cell :: "nat \<Rightarrow> nat \<Rightarrow> u8"

fun ram_step :: "u8 \<times> bool \<Rightarrow> lcd_ram \<Rightarrow> lcd_ram" where
  "ram_step (b, True) r =
     r\<lparr>ram_cell := (ram_cell r)(ram_page r := (ram_cell r (ram_page r))(ram_col r := b)),
       ram_col := Suc (ram_col r)\<rparr>"
| "ram_step (b, False) r =
     (if b AND 0xf0 = 0xb0 then r\<lparr>ram_page := unat (b AND 0x0f)\<rparr>
      else if b AND 0xf0 = 0x10 then r\<lparr>ram_col := 16 * unat (b AND 0x0f) + ram_col r mod 16\<rparr>
      else if b AND 0xf0 = 0 then r\<lparr>ram_col := 16 * (ram_col r div 16) + unat (b AND 0x0f)\<rparr>
      else r)"

definition lcd_ram_blank :: lcd_ram where
  "lcd_ram_blank = \<lparr>ram_page = 0, ram_col = 0, ram_cell = (\<lambda>_ _. 0)\<rparr>"

definition lcd_display :: "history \<Rightarrow> lcd_ram" where
  "lcd_display h = fold ram_step (lcd_stream h) lcd_ram_blank"

lemma lcd_display_append:
  "lcd_stream h' = lcd_stream h @ xs \<Longrightarrow> lcd_display h' = fold ram_step xs (lcd_display h)"
  by (simp add: lcd_display_def)

lemma ram_data:
  "fold ram_step (map (\<lambda>x. (f x, True)) xs) r =
     r\<lparr>ram_cell := (\<lambda>p c. if p = ram_page r \<and> ram_col r \<le> c \<and> c < ram_col r + length xs
          then f (xs ! (c - ram_col r)) else ram_cell r p c),
       ram_col := ram_col r + length xs\<rparr>"
proof (induction xs arbitrary: r)
  case Nil
  show ?case by (rule lcd_ram.equality) (auto simp: fun_eq_iff)
next
  case (Cons x xs)
  show ?case
    by (rule lcd_ram.equality) (auto simp: Cons.IH fun_eq_iff nth_Cons' Suc_le_eq)
qed

section \<open>Addressing\<close>

lemma column_commands:
  "(0x10 + (drop_bit 4 l AND 0x0F)) AND 0xf0 = 0x10"
  "(0x10 + (drop_bit 4 l AND 0x0F)) AND 0x0f = drop_bit 4 l AND 0x0F"
  "(l AND 0x0F) AND 0xf0 = 0"
  "(l AND 0x0F) AND 0x0f = l AND 0x0F" for l :: u8
proof -
  have "(0x10 :: u8) AND (drop_bit 4 l AND 0x0F) = 0"
    by (rule bit_word_eqI) (auto simp: bit_simps less_8)
  then have "0x10 + (drop_bit 4 l AND 0x0F) = 0x10 OR (drop_bit 4 l AND 0x0F)"
    by (simp add: disjunctive_add_eq_or)
  then show "(0x10 + (drop_bit 4 l AND 0x0F)) AND 0xf0 = 0x10"
    "(0x10 + (drop_bit 4 l AND 0x0F)) AND 0x0f = drop_bit 4 l AND 0x0F"
    "(l AND 0x0F) AND 0xf0 = 0" "(l AND 0x0F) AND 0x0f = l AND 0x0F"
    by (auto intro!: bit_word_eqI simp: bit_simps less_8)
qed

lemma page_command: "p < 8 \<Longrightarrow> (0xb0 + p) AND 0xf0 = 0xb0 \<and> (0xb0 + p) AND 0x0f = p" for p :: u8
  unfolding u8_less_8 by auto

text \<open>One glyph page paints \<open>w\<close> cells of one page, from column \<open>l\<close> on, and no other cell.\<close>

definition glyph_cell :: "u8 list \<Rightarrow> nat \<Rightarrow> nat \<Rightarrow> bool \<Rightarrow> nat \<Rightarrow> u8" where
  "glyph_cell glyph w s invert i =
     (let b = glyph ! (w - i + s - 1) in if invert then NOT b else b)"

lemma page_stream_paint:
  assumes "p < 8"
  shows "fold ram_step (page_stream glyph w (0xb0 + p) l s invert) r =
    r\<lparr>ram_page := unat p,
      ram_cell := (\<lambda>q c. if q = unat p \<and> unat l \<le> c \<and> c < unat l + w
         then glyph_cell glyph w s invert (c - unat l) else ram_cell r q c),
      ram_col := unat l + w\<rparr>"
proof -
  let ?f = "\<lambda>j. if invert then NOT (glyph ! (j + s - 1)) else glyph ! (j + s - 1)"
  have nth: "rev [Suc 0..<Suc w] ! i = w - i" if "i < w" for i
    using that by (simp add: rev_nth del: upt_Suc)
  have data: "fold ram_step (map (\<lambda>j. (?f j, True)) (rev [Suc 0..<Suc w])) r' =
      r'\<lparr>ram_cell := (\<lambda>q c. if q = ram_page r' \<and> ram_col r' \<le> c \<and> c < ram_col r' + w
           then glyph_cell glyph w s invert (c - ram_col r') else ram_cell r' q c),
         ram_col := ram_col r' + w\<rparr>" for r'
    unfolding ram_data
    by (rule lcd_ram.equality) (auto simp: fun_eq_iff glyph_cell_def Let_def nth simp del: upt_Suc)
  show ?thesis
    unfolding page_stream_def
    using page_command [OF assms] lo_nibble [of l] hi_nibble [of l]
    by (intro lcd_ram.equality)
      (simp_all add: data column_commands fun_eq_iff del: upt_Suc)
qed

section \<open>What the painting routines paint\<close>

text \<open>Clearing the screen writes every cell.\<close>

lemma clear_page_paint:
  assumes "i < 8"
  shows "ram_cell (lcd_display (clear_page D i h)) =
    (\<lambda>p c. if p = unat i \<and> c < 192 then D else ram_cell (lcd_display h) p c)"
proof -
  have page: "0xb0 OR i = 0xb0 + i"
    using assms unfolding u8_less_8 by auto
  have "lcd_stream (clear_page D i h) =
      lcd_stream h @ [(0x40, False), (0xb0 + i, False), (0x10, False), (0x00, False)] @
        map (\<lambda>_. (D, True)) [0..<192]"
    by (simp add: clear_page_def Let_def lcd.stream_data lcd.stream_emit page)
  from lcd_display_append [OF this] show ?thesis
    using page_command [OF assms] by (auto simp: ram_data fun_eq_iff)
qed

lemma clear_pages_paint:
  "\<forall>i\<in>set is. i < 8 \<Longrightarrow>
     ram_cell (lcd_display (fold (clear_page D) is h)) =
       (\<lambda>p c. if p \<in> unat ` set is \<and> c < 192 then D else ram_cell (lcd_display h) p c)"
  by (induction "is" arbitrary: h) (auto simp: clear_page_paint fun_eq_iff)

text \<open>
  Clearing the screen sets every cell of the eight pages to the given byte and no cell beyond.
\<close>

theorem screen_cleared:
  "ram_cell (lcd_display (Dispgraphic D h)) =
     (\<lambda>p c. if p < 8 \<and> c < 192 then D else ram_cell (lcd_display h) p c)"
proof -
  have "(p \<in> unat ` set [0 :: u8, 1, 2, 3, 4, 5, 6, 7]) = (p < 8)" for p :: nat
    by (auto simp: less_8)
  then show ?thesis
    unfolding Dispgraphic_def by (subst clear_pages_paint) auto
qed

text \<open>
  A glyph of a two-page font with its top left corner at text row \<open>y\<close> and column \<open>l\<close> (both
  counted from the other side of the glass) paints its own cells only.
\<close>

lemma two_page_paint:
  assumes "unat k < length font" and "w + w \<le> length (font ! unat k)" and "p < 8" and "q < 8"
  shows "\<exists>h'. bind_r (glyph_page font w (0xb0 + p) l 0 k invert h)
        (glyph_page font w (0xb0 + q) l w k invert) = Inr h' \<and>
    ram_cell (lcd_display h') = (\<lambda>r c.
      if r = unat q \<and> unat l \<le> c \<and> c < unat l + w
      then glyph_cell (font ! unat k) w w invert (c - unat l)
      else if r = unat p \<and> unat l \<le> c \<and> c < unat l + w
      then glyph_cell (font ! unat k) w 0 invert (c - unat l)
      else ram_cell (lcd_display h) r c)"
proof -
  obtain h1 where h1: "glyph_page font w (0xb0 + p) l 0 k invert h = Inr h1"
    and s1: "lcd_stream h1 = lcd_stream h @ page_stream (font ! unat k) w (0xb0 + p) l 0 invert"
    using glyph_page_stream [of k font 0 w] assms by fastforce
  obtain h2 where h2: "glyph_page font w (0xb0 + q) l w k invert h1 = Inr h2"
    and s2: "lcd_stream h2 = lcd_stream h1 @ page_stream (font ! unat k) w (0xb0 + q) l w invert"
    using glyph_page_stream [of k font w w] assms by fastforce
  have "ram_cell (lcd_display h2) = (\<lambda>r c.
      if r = unat q \<and> unat l \<le> c \<and> c < unat l + w
      then glyph_cell (font ! unat k) w w invert (c - unat l)
      else if r = unat p \<and> unat l \<le> c \<and> c < unat l + w
      then glyph_cell (font ! unat k) w 0 invert (c - unat l)
      else ram_cell (lcd_display h) r c)"
    by (auto simp: lcd_display_append [OF s2] lcd_display_append [OF s1] page_stream_paint assms
        fun_eq_iff)
  with h1 h2 show ?thesis by simp
qed

lemma text_row_pages:
  fixes y :: u8
  assumes "y \<le> 6"
  shows "(0xb0 OR 1) + (6 - y) = 0xb0 + (7 - y)" "(0xb0 OR 0) + (6 - y) = 0xb0 + (6 - y)"
    "7 - y < 8" "6 - y < 8"
proof -
  have "y < 8" using assms by (simp add: word_le_nat_alt word_less_nat_alt)
  then show "(0xb0 OR 1) + (6 - y) = 0xb0 + (7 - y)" "(0xb0 OR 0) + (6 - y) = 0xb0 + (6 - y)"
    "7 - y < 8" "6 - y < 8"
    using assms unfolding u8_less_8 by auto
qed

text \<open>
  C38: A character drawn in a text row lights exactly the pixels of its glyph, inverted if asked,
  in the two pages of that row, and changes nothing else on the glass.
\<close>

theorem character_painted:
  assumes "y \<le> 6" and "unat k < 47"
  shows "\<exists>h'. lcd_number y l k reverse h = Inr h' \<and>
    ram_cell (lcd_display h') = (\<lambda>r c.
      let L = unat (184 - l) in
      if r = unat (6 - y) \<and> L \<le> c \<and> c < L + 8 then glyph_cell (sz ! unat k) 8 8 (reverse \<noteq> 0) (c - L)
      else if r = unat (7 - y) \<and> L \<le> c \<and> c < L + 8
      then glyph_cell (sz ! unat k) 8 0 (reverse \<noteq> 0) (c - L)
      else ram_cell (lcd_display h) r c)"
  using two_page_paint [of k sz 8 "7 - y" "6 - y" "184 - l" "reverse \<noteq> 0" h] assms
  by (simp add: lcd_number_def Let_def text_row_pages)

theorem character_painted_witness:
  "\<exists>h'. lcd_number 2 40 7 0 [] = Inr h' \<and>
    ram_cell (lcd_display h') 4 145 = glyph_cell (sz ! 7) 8 8 False 1"
  using character_painted [of 2 7 40 0 "[]"] by (auto simp: Let_def)

lemma lcd_chinese_paint:
  assumes "y \<le> 6" and "unat k < 30"
  shows "\<exists>h'. lcd_chinese y l k reverse h = Inr h' \<and>
    ram_cell (lcd_display h') = (\<lambda>r c.
      let L = unat (176 - l) in
      if r = unat (6 - y) \<and> L \<le> c \<and> c < L + 16
      then glyph_cell (hz ! unat k) 16 16 (reverse \<noteq> 0) (c - L)
      else if r = unat (7 - y) \<and> L \<le> c \<and> c < L + 16
      then glyph_cell (hz ! unat k) 16 0 (reverse \<noteq> 0) (c - L)
      else ram_cell (lcd_display h) r c)"
  using two_page_paint [of k hz 16 "7 - y" "6 - y" "176 - l" "reverse \<noteq> 0" h] assms
  by (simp add: lcd_chinese_def Let_def text_row_pages)

section \<open>Lines of text never leave the glyph tables\<close>

lemma lcd_number_total: "unat k < 47 \<Longrightarrow> \<exists>h'. lcd_number y l k reverse h = Inr h'"
  using glyph_page_stream [of k sz 0 8] glyph_page_stream [of k sz 8 8]
  by (fastforce simp: lcd_number_def Let_def bind_r_eq_Inr)

lemma lcd_chinese_total: "unat k < 30 \<Longrightarrow> \<exists>h'. lcd_chinese y l k reverse h = Inr h'"
  using glyph_page_stream [of k hz 0 16] glyph_page_stream [of k hz 16 16]
  by (fastforce simp: lcd_chinese_def Let_def bind_r_eq_Inr)

lemma lcd_show6_8_total: "unat k < 36 \<Longrightarrow> \<exists>h'. lcd_show6_8 y l k reverse h = Inr h'"
  using glyph_page_stream [of k zm6_8 0 6] by (fastforce simp: lcd_show6_8_def Let_def)

lemma lcd_show6_8_fault: "36 \<le> unat k \<Longrightarrow> lcd_show6_8 y l k reverse h = Inl OutOfBounds"
  using glyph_page_fault [of zm6_8 k 5] by (simp add: lcd_show6_8_def Let_def)

lemma lcd_show16_32_total:
  assumes "unat k < 15"
  shows "\<exists>h'. lcd_show16_32 y l k h = Inr h'"
proof -
  have p: "\<exists>h'. glyph_page zm16_32 16 page l s k False h = Inr h'" if "s \<le> 48" for page l s h
    using glyph_page_stream [of k zm16_32 s 16] assms that by fastforce
  show ?thesis
    unfolding lcd_show16_32_def Let_def by (intro bind_r_total p) simp_all
qed

lemma lcd_show16_32_fault: "15 \<le> unat k \<Longrightarrow> lcd_show16_32 y l k h = Inl OutOfBounds"
  using glyph_page_fault [of zm16_32 k 15] by (simp add: lcd_show16_32_def Let_def)

text \<open>The search loops return an index of the string they search, and the right one.\<close>

lemma zf_search_bound:
  assumes "unat i + length cs \<le> 255"
  shows "unat (zf_search cs i d) < max 1 (unat i + length cs)"
  using assms
proof (induction cs arbitrary: i)
  case Nil
  then show ?case by simp
next
  case (Cons c cs)
  have i: "unat (i + 1) = Suc (unat i)"
    using Cons.prems by (simp add: unat_word_ariths unat_u8_less)
  with Cons.prems have "unat (zf_search cs (i + 1) d) < max 1 (unat (i + 1) + length cs)"
    by (intro Cons.IH) simp
  with i show ?case by auto
qed

lemma zf_search_nth:
  assumes "d \<in> set cs" and "unat i + length cs \<le> 255"
  shows "unat i \<le> unat (zf_search cs i d) \<and> cs ! (unat (zf_search cs i d) - unat i) = d"
  using assms
proof (induction cs arbitrary: i)
  case Nil
  then show ?case by simp
next
  case (Cons c cs)
  have i: "unat (i + 1) = Suc (unat i)"
    using Cons.prems by (simp add: unat_word_ariths unat_u8_less)
  show ?case
  proof (cases "d = c")
    case True
    then show ?thesis by simp
  next
    case False
    with Cons.prems i have "unat (i + 1) \<le> unat (zf_search cs (i + 1) d) \<and>
        cs ! (unat (zf_search cs (i + 1) d) - unat (i + 1)) = d"
      by (intro Cons.IH) auto
    with False i show ?thesis by (auto simp: nth_Cons' Suc_diff_le)
  qed
qed

lemma get_zf_number_bound: "unat (get_zf_number c) < 47"
  using zf_search_bound [of 0 my_szzf_list c] by (simp add: get_zf_number_def)

lemma get_zf68_number_bound: "unat (get_zf68_number c) < 36"
  using zf_search_bound [of 0 my_zf6_8 c] by (simp add: get_zf68_number_def)

lemma text_loop_total:
  assumes "\<And>i p c h. \<exists>h'. put i p c h = Inr h'"
  shows "\<exists>h'. text_loop put w cs i p h = Inr h'"
proof (induction cs arbitrary: i p h)
  case Nil
  then show ?case by simp
next
  case (Cons c cs)
  from assms obtain h1 where "put i p c h = Inr h1" by blast
  with Cons.IH show ?case by simp
qed

lemma lcd_show_zf_total: "\<exists>h'. lcd_show_zf y l cs h = Inr h'"
  unfolding lcd_show_zf_def by (intro text_loop_total lcd_number_total get_zf_number_bound)

lemma lcd_show_zf6_8_total: "\<exists>h'. lcd_show_zf6_8 y l cs h = Inr h'"
  unfolding lcd_show_zf6_8_def by (intro text_loop_total lcd_show6_8_total get_zf68_number_bound)

lemma lcd_show_zf_time_total: "\<exists>h'. lcd_show_zf_time y l cs r h = Inr h'"
  unfolding lcd_show_zf_time_def by (intro text_loop_total lcd_show6_8_total get_zf68_number_bound)

text \<open>
  Text of any bytes and any length is drawn without leaving the glyph tables, by each of the
  three text routines: a byte without a glyph is drawn as the first one.
\<close>

theorem any_text_drawn:
  "(\<exists>h'. lcd_show_zf y l cs h = Inr h') \<and> (\<exists>h'. lcd_show_zf6_8 y l cs h = Inr h') \<and>
    (\<exists>h'. lcd_show_zf_time y l cs r h = Inr h')"
  using lcd_show_zf_total lcd_show_zf6_8_total lcd_show_zf_time_total by simp

text \<open>A line of glyph codes can be drawn when each code has a glyph and the array holds them.\<close>

definition drawable :: "u8 \<Rightarrow> bool" where
  "drawable c \<longleftrightarrow> unat c < 30 \<or> (100 \<le> unat c \<and> unat c < 147)"

definition line_ok :: "u8 list \<Rightarrow> u8 \<Rightarrow> bool" where
  "line_ok list len \<longleftrightarrow>
     unat len < length list \<and> list_all drawable (take (unat len) (tl list))"

lemma line_ok_nth:
  assumes "line_ok list len" and "i < unat len"
  shows "Suc i < length list" and "drawable (list ! Suc i)"
proof -
  from assms show len: "Suc i < length list" by (auto simp: line_ok_def)
  have "take (unat len) (tl list) ! i = list ! Suc i"
    using assms len by (cases list) (simp_all add: line_ok_def)
  moreover have "i < length (take (unat len) (tl list))"
    using assms by (auto simp: line_ok_def)
  ultimately show "drawable (list ! Suc i)"
    using assms(1) unfolding line_ok_def list_all_length by metis
qed

lemma half_width_total:
  "\<forall>i\<in>set is. Suc i < length list \<Longrightarrow> \<exists>c. half_width list is c0 = Inr c"
  by (induction "is" arbitrary: c0) auto

lemma show_loop_total:
  "\<forall>i\<in>set is. Suc i < length list \<and> drawable (list ! Suc i) \<Longrightarrow>
     \<exists>h'. show_loop y l list reverse is c h = Inr h'"
proof (induction "is" arbitrary: c h)
  case Nil
  then show ?case by simp
next
  case (Cons i "is")
  let ?g = "list ! Suc i"
  let ?inv = "if (reverse \<ge> 10 \<and> unat reverse - 10 = i) \<or> reverse = 1 then 1 else (0 :: u8)"
  have IH: "\<exists>h'. show_loop y l list reverse is c h = Inr h'" for c h
    using Cons by auto
  show ?case
  proof (cases "?g < 100")
    case True
    with Cons.prems have "unat ?g < 30" by (auto simp: drawable_def word_less_nat_alt)
    from lcd_chinese_total [OF this] obtain h1 where
      "lcd_chinese y (l + c) ?g ?inv h = Inr h1" by blast
    with True Cons.prems IH show ?thesis by (simp add: Let_def)
  next
    case False
    then have ge: "100 \<le> ?g" by simp
    then have "unat (?g - 100) = unat ?g - 100" by (simp add: unat_sub)
    with False Cons.prems have "unat (?g - 100) < 47"
      by (auto simp: drawable_def word_less_nat_alt)
    from lcd_number_total [OF this] obtain h1 where
      "lcd_number y (l + c) (?g - 100) ?inv h = Inr h1" by blast
    with False Cons.prems IH show ?thesis by (simp add: Let_def)
  qed
qed

lemma lcd_show_total:
  assumes "line_ok list len"
  shows "\<exists>h'. lcd_show y l list len reverse h = Inr h'"
proof -
  have ok: "\<forall>i\<in>set [0..<unat len]. Suc i < length list \<and> drawable (list ! Suc i)"
    using line_ok_nth [OF assms] by auto
  then obtain c where "half_width list [0..<unat len] 0 = Inr c"
    using half_width_total [of "[0..<unat len]" list 0] by auto
  then show ?thesis
    using show_loop_total [OF ok] by (auto simp: lcd_show_def)
qed

text \<open>
  Every byte handed to the display arrives there, whole, after the ones before it and with
  its command or data level, whatever the lines carried before.
\<close>

theorem every_byte_arrives: "lcd_stream (WriteData d c h) = lcd_stream h @ [(d, c = 1)]"
  by (rule lcd.stream_emit)

end
