(* ===== verification/Record_Store.thy ===== *)
theory Record_Store
  imports Tester_Prelude
begin

text \<open>
  The records kept on the file volume (\<^verbatim>\<open>applications/my_dfs.c\<close>): the test results in slots of 20
  bytes, the received radio frames in slots of 60 bytes, the two counters with the format version,
  and the three meter numbers. The volume itself is a map from paths to contents with the POSIX
  calls the code makes; as in FatFs, seeking past the end of a file opened for writing stretches
  it, and what the stretch contains is up to the medium (\<open>hole\<close>).
\<close>

section \<open>The file volume\<close>

record volume =
  files :: "string \<rightharpoonup> u8 list"
  mounted :: bool
  hole :: "nat \<Rightarrow> u8"

definition file_seek :: "(nat \<Rightarrow> u8) \<Rightarrow> nat \<Rightarrow> u8 list \<Rightarrow> u8 list" where
  "file_seek hl off c = c @ map hl [length c..<off]"

definition file_write :: "(nat \<Rightarrow> u8) \<Rightarrow> nat \<Rightarrow> u8 list \<Rightarrow> u8 list \<Rightarrow> u8 list" where
  "file_write hl off bs c =
     (let c = file_seek hl off c in take off c @ bs @ drop (off + length bs) c)"

definition file_read :: "nat \<Rightarrow> nat \<Rightarrow> u8 list \<Rightarrow> u8 list" where
  "file_read off n c = take n (drop off c)"

text \<open>\<open>open\<close> with \<^verbatim>\<open>O_RDWR | O_CREAT\<close>, and with \<^verbatim>\<open>O_WRONLY\<close>: the content, if it succeeds.\<close>

definition open_rw :: "string \<Rightarrow> volume \<Rightarrow> u8 list option" where
  "open_rw p v =
     (if mounted v then Some (case files v p of None \<Rightarrow> [] | Some c \<Rightarrow> c) else None)"

definition open_w :: "string \<Rightarrow> volume \<Rightarrow> u8 list option" where
  "open_w p v = (if mounted v then files v p else None)"

definition store_file :: "string \<Rightarrow> u8 list \<Rightarrow> volume \<Rightarrow> volume" where
  "store_file p c v = v\<lparr>files := (files v)(p \<mapsto> c)\<rparr>"

definition unlink :: "string \<Rightarrow> volume \<Rightarrow> volume" where
  "unlink p v = (if mounted v then v\<lparr>files := (files v)(p := None)\<rparr> else v)"

section \<open>The record files\<close>

definition RECORD_MAX :: u16 where "RECORD_MAX = 50000"
definition AX5043_MAX :: u16 where "AX5043_MAX = 50000"

abbreviation "Record_len_txt \<equiv> ''/Record_len.txt''"
abbreviation "MS_record_txt \<equiv> ''/MS_record.txt''"
abbreviation "AX_record_txt \<equiv> ''/AX_record.txt''"
abbreviation "MS_MSID_txt \<equiv> ''/MS_MSID.txt''"

record store =
  buffer :: "u8 list"
  record_len :: u16
  ax5043_len :: u16
  version :: u8
  vol :: volume

definition store_boot :: "volume \<Rightarrow> store" where
  "store_boot v =
     \<lparr>buffer = replicate 80 0, record_len = 0, ax5043_len = 0, version = 1, vol = v\<rparr>"

definition get_recordled_data :: "store \<Rightarrow> u16" where
  "get_recordled_data s = record_len s"

definition get_ax5045len_data :: "store \<Rightarrow> u16" where
  "get_ax5045len_data s = ax5043_len s"

definition get_version :: "store \<Rightarrow> u8" where
  "get_version s = version s"

text \<open>Bytes stored into the static \<^verbatim>\<open>buffer[80]\<close> from an index on.\<close>

definition splice :: "nat \<Rightarrow> 'a list \<Rightarrow> 'a list \<Rightarrow> 'a list" where
  "splice i xs ys = take i ys @ xs @ drop (i + length xs) ys"

definition set_Record_txt :: "u16 \<Rightarrow> u16 \<Rightarrow> u8 \<Rightarrow> store \<Rightarrow> store" where
  "set_Record_txt r_len a_len v s =
     (case open_rw Record_len_txt (vol s) of
        None \<Rightarrow> s
      | Some c \<Rightarrow>
          (let r_len = r_len mod RECORD_MAX;
               a_len = a_len mod (AX5043_MAX + 1);
               bs = [ucast (r_len div 0x100), ucast (r_len mod 0x100),
                     ucast (a_len div 0x100), ucast (a_len mod 0x100), v]
           in s\<lparr>buffer := splice 0 bs (buffer s),
                vol := store_file Record_len_txt (file_write (hole (vol s)) 0 bs c) (vol s),
                record_len := r_len, ax5043_len := a_len\<rparr>))"

definition AX_delete :: "store \<Rightarrow> store" where
  "AX_delete s =
     (let s = set_Record_txt (record_len s) 0 (version s) s
      in s\<lparr>vol := unlink AX_record_txt (vol s)\<rparr>)"

definition MS_delete :: "store \<Rightarrow> store" where
  "MS_delete s =
     (let s = set_Record_txt 0 (ax5043_len s) (version s) s
      in s\<lparr>vol := unlink MS_record_txt (vol s)\<rparr>)"

definition unlink_record :: "store \<Rightarrow> store" where
  "unlink_record s = s\<lparr>vol := unlink MS_record_txt (vol s)\<rparr>"

definition get_Record_len :: "store \<Rightarrow> store" where
  "get_Record_len s =
     (case open_rw Record_len_txt (vol s) of
        None \<Rightarrow> s
      | Some c \<Rightarrow>
          (let got = file_read 0 5 c;
               s = s\<lparr>buffer := splice 0 got (buffer s), vol := store_file Record_len_txt c (vol s)\<rparr>
           in if length got < 5
              then s\<lparr>record_len := 0, ax5043_len := 0, version := 0\<rparr>
              else (let s = s\<lparr>record_len := ucast (buffer s ! 0) * 0x100 + ucast (buffer s ! 1),
                             ax5043_len := ucast (buffer s ! 2) * 0x100 + ucast (buffer s ! 3)\<rparr>
                    in if version s \<noteq> buffer s ! 4
                       then (let s = s\<lparr>vol := unlink AX_record_txt (unlink MS_record_txt (vol s))\<rparr>;
                                 s = set_Record_txt 0 0 (version s) s
                             in s\<lparr>record_len := 0, ax5043_len := 0\<rparr>)
                       else s)))"

definition my_dfs_init :: "store \<Rightarrow> store" where
  "my_dfs_init s = get_Record_len s"

definition get_MSID :: "u8 list \<Rightarrow> store \<Rightarrow> u8 list \<times> store" where
  "get_MSID data s =
     (case open_rw MS_MSID_txt (vol s) of
        None \<Rightarrow> (data, s)
      | Some c \<Rightarrow>
          (let got = file_read 0 80 c;
               s = s\<lparr>buffer := splice 0 got (buffer s), vol := store_file MS_MSID_txt c (vol s)\<rparr>;
               s = (if length got < 20
                    then (let b = splice 0 [1, 2, 3, 4, 5, 6] (buffer s);
                              b = splice 14 [1, 2, 3, 4, 5, 6] b;
                              b = splice 6 [1, 2, 3, 4, 5, 6, 7, 8] b;
                              s = s\<lparr>buffer := b\<rparr>
                          in case open_w MS_MSID_txt (vol s) of
                               None \<Rightarrow> s
                             | Some c \<Rightarrow> s\<lparr>vol := store_file MS_MSID_txt
                                 (file_write (hole (vol s)) 0 (take 20 b) c) (vol s)\<rparr>)
                    else s)
           in (map (\<lambda>b. if b < 10 then b else 1) (take 20 (buffer s)) @ drop 20 data, s)))"

text \<open>
  The three digit rows come as the display lists of the caller: entry 0 is the length, a digit is
  stored as its value plus 100.
\<close>

definition digits_of_row :: "u8 list \<Rightarrow> nat \<Rightarrow> u8 list result" where
  "digits_of_row row n =
     (if n < length row then Inr (map (\<lambda>z. z - 100) (take n (tl row))) else Inl OutOfBounds)"

definition set_MSID :: "u8 list \<Rightarrow> u8 list \<Rightarrow> u8 list \<Rightarrow> store \<Rightarrow> store result" where
  "set_MSID msid1 msid2 msid3 s =
     (case open_w MS_MSID_txt (vol s) of
        None \<Rightarrow> Inr s
      | Some c \<Rightarrow>
          bind_r (digits_of_row msid1 6) (\<lambda>d1.
          bind_r (digits_of_row msid2 8) (\<lambda>d2.
          bind_r (digits_of_row msid3 6) (\<lambda>d3.
          let b = splice 0 (d1 @ d2 @ d3) (buffer s)
          in Inr (s\<lparr>buffer := b,
               vol := store_file MS_MSID_txt
                 (file_write (hole (vol s)) 0 (take 20 b) c) (vol s)\<rparr>)))))"

definition ms_number_hex :: "u8 \<Rightarrow> u8" where
  "ms_number_hex data = (if data < 10 then data + byte CHR ''0'' else data - 10 + byte CHR ''A'')"

text \<open>A test record: the number, the error code, the time, the meter kind and a line end.\<close>

definition ms_record :: "u8 \<Rightarrow> u8 list \<Rightarrow> u8 \<Rightarrow> u8 list \<Rightarrow> u8 list result" where
  "ms_record kind zf_list ms_error ms_time =
     bind_r (digits_of_row zf_list (if kind = 1 then 8 else 6)) (\<lambda>ds.
     bind_r (arr_get ms_time 0) (\<lambda>sec.
     bind_r (arr_get ms_time 1) (\<lambda>mins.
     bind_r (arr_get ms_time 2) (\<lambda>hrs.
       Inr (map (\<lambda>d. d + byte CHR ''0'') ds @
         [byte CHR '' '', ms_number_hex ms_error, byte CHR '' '',
          ms_number_hex (hrs div 10), ms_number_hex (hrs mod 10), byte CHR '','',
          ms_number_hex (mins div 10), ms_number_hex (mins mod 10), byte CHR '','',
          ms_number_hex (sec div 10), ms_number_hex (sec mod 10)] @
         (if kind \<noteq> 1
          then byte CHR '' '' #
            (if kind = 0 then [byte CHR ''A''] else if kind = 2 then [byte CHR ''B''] else [])
          else []) @
         [0x0d])))))"

definition set_record :: "u8 \<Rightarrow> u8 list \<Rightarrow> u8 \<Rightarrow> u8 list \<Rightarrow> store \<Rightarrow> store result" where
  "set_record kind zf_list ms_error ms_time s =
     (case open_rw MS_record_txt (vol s) of
        None \<Rightarrow> Inr s
      | Some c \<Rightarrow>
          map_r (\<lambda>rec. s\<lparr>buffer := splice 0 rec (buffer s),
              vol := store_file MS_record_txt
                (file_write (hole (vol s)) (unat (record_len s) * 20) rec c) (vol s)\<rparr>)
            (ms_record kind zf_list ms_error ms_time))"

text \<open>\<open>len\<close> decimal digits of a number, most significant first.\<close>

primrec dec_digits :: "nat \<Rightarrow> u32 \<Rightarrow> u8 list" where
  "dec_digits 0 x = []"
| "dec_digits (Suc n) x = dec_digits n (x div 10) @ [ucast (x mod 10) + byte CHR ''0'']"

definition two_digits :: "u8 \<Rightarrow> u8 list" where
  "two_digits x = [x div 10 mod 10 + byte CHR ''0'', x mod 10 + byte CHR ''0'']"

definition ax_record :: "u8 \<Rightarrow> u8 list \<Rightarrow> u32 \<Rightarrow> u32 \<Rightarrow> u8 list \<Rightarrow> u16 \<Rightarrow> u8 list" where
  "ax_record ver zf_list msid msv my_time rssi =
     [ver + byte CHR ''0'', byte CHR '' ''] @
     dec_digits 8 msid @ [byte CHR '' ''] @
     dec_digits 6 msv @ [byte CHR '' ''] @
     concat (map (\<lambda>i. [zf_list ! i + byte CHR ''0'', byte CHR '' '']) [0..<10]) @
     two_digits (my_time ! 6) @ [byte CHR ''-''] @ two_digits (my_time ! 5) @ [byte CHR ''-''] @
     two_digits (my_time ! 4) @ [byte CHR '' ''] @
     two_digits (my_time ! 2) @ [byte CHR '':''] @ two_digits (my_time ! 1) @ [byte CHR '':''] @
     two_digits (my_time ! 0) @ [byte CHR '' ''] @
     [ucast (rssi div 100 mod 10) + byte CHR ''0'', ucast (rssi div 10 mod 10) + byte CHR ''0'',
      ucast (rssi mod 10) + byte CHR ''0'', 0x0d]"

definition set_ax_record ::
    "u8 \<Rightarrow> u8 list \<Rightarrow> u32 \<Rightarrow> u32 \<Rightarrow> u8 list \<Rightarrow> u16 \<Rightarrow> store \<Rightarrow> store result" where
  "set_ax_record ver zf_list msid msv my_time rssi s =
     (case open_rw AX_record_txt (vol s) of
        None \<Rightarrow> Inr s
      | Some c \<Rightarrow>
          if length zf_list < 10 \<or> length my_time < 7 then Inl OutOfBounds
          else (let rec = ax_record ver zf_list msid msv my_time rssi;
                    ax_len = ax5043_len s mod AX5043_MAX
                in Inr (s\<lparr>buffer := splice 0 rec (buffer s),
                     vol := store_file AX_record_txt
                       (file_write (hole (vol s)) (unat ax_len * 60) rec c) (vol s)\<rparr>)))"

definition get_ax_Record :: "u16 \<Rightarrow> store \<Rightarrow> u8 \<times> store" where
  "get_ax_Record ax_addr s =
     (case open_rw AX_record_txt (vol s) of
        None \<Rightarrow> (0, s)
      | Some c \<Rightarrow>
          (let c = file_seek (hole (vol s)) (unat ax_addr * 60) c;
               got = file_read (unat ax_addr * 60) 60 c;
               s = s\<lparr>buffer := splice 0 got (buffer s), vol := store_file AX_record_txt c (vol s)\<rparr>
           in if length got < 60 then (0, s) else (1, s)))"

definition get_ax_data :: "u8 \<Rightarrow> store \<Rightarrow> u8 result" where
  "get_ax_data addr s = arr_get (buffer s) (unat addr)"

text \<open>\<open>stat_sample\<close> ends without a return value when the file does not exist.\<close>

definition stat_sample :: "store \<Rightarrow> u16 result" where
  "stat_sample s =
     (case (if mounted (vol s) then files (vol s) AX_record_txt else None) of
        None \<Rightarrow> Inl NoReturnValue
      | Some c \<Rightarrow> Inr (of_nat (length c div 60)))"

section \<open>Byte stores with slots\<close>

text \<open>
  What the record files promise: a read of a whole written range gives what was written, and a
  complete read elsewhere is not disturbed. Records of a fixed size at multiples of that size do
  not disturb each other, and a log written slot after slot can be read back entry by entry.
\<close>

locale byte_store =
  fixes wr :: "nat \<Rightarrow> 'b list \<Rightarrow> 'c \<Rightarrow> 'c"
    and rd :: "nat \<Rightarrow> nat \<Rightarrow> 'c \<Rightarrow> 'b list"
  assumes read_written: "rd off (length bs) (wr off bs c) = bs"
    and read_apart:
      "length (rd at n c) = n \<Longrightarrow> at + n \<le> off \<or> off + length bs \<le> at \<Longrightarrow>
         rd at n (wr off bs c) = rd at n c"
begin

lemma slot_apart:
  assumes "length (rd (j * k) k c) = k" and "length bs = k" and "i \<noteq> j"
  shows "rd (j * k) k (wr (i * k) bs c) = rd (j * k) k c"
proof (rule read_apart [OF assms(1)])
  from \<open>i \<noteq> j\<close> consider "Suc j \<le> i" | "Suc i \<le> j" by linarith
  then show "j * k + k \<le> i * k \<or> i * k + length bs \<le> j * k"
  proof cases
    case 1
    from mult_le_mono1 [OF this, of k] show ?thesis by simp
  next
    case 2
    from mult_le_mono1 [OF this, of k] show ?thesis by (simp add: assms(2))
  qed
qed

primrec write_log :: "nat \<Rightarrow> nat \<Rightarrow> 'b list list \<Rightarrow> 'c \<Rightarrow> 'c" where
  "write_log k i [] c = c"
| "write_log k i (r # rs) c = write_log k (Suc i) rs (wr (i * k) r c)"

lemma log_apart:
  assumes "length (rd (j * k) k c) = k" and "\<forall>r \<in> set rs. length r = k" and "j < i"
  shows "rd (j * k) k (write_log k i rs c) = rd (j * k) k c"
  using assms by (induction rs arbitrary: i c) (simp_all add: slot_apart)

lemma log_entry:
  assumes "\<forall>r \<in> set rs. length r = k" and "n < length rs"
  shows "rd ((i + n) * k) k (write_log k i rs c) = rs ! n"
  using assms
proof (induction rs arbitrary: i n c)
  case Nil
  then show ?case by simp
next
  case (Cons r rs)
  show ?case
  proof (cases n)
    case 0
    from Cons.prems have "length r = k" by simp
    then have "rd (i * k) k (wr (i * k) r c) = r" using read_written [of "i * k" r c] by simp
    with Cons.prems 0 show ?thesis using log_apart [of i k "wr (i * k) r c" rs "Suc i"] by simp
  next
    case (Suc m)
    with Cons.prems Cons.IH [of m "Suc i" "wr (i * k) r c"] show ?thesis by simp
  qed
qed

end

lemma length_file_seek [simp]: "length (file_seek hl off c) = max off (length c)"
  by (simp add: file_seek_def)

lemma take_file_seek: "n \<le> length c \<Longrightarrow> take n (file_seek hl off c) = take n c"
  by (simp add: file_seek_def)

lemma length_file_read: "length (file_read off n c) = n \<longleftrightarrow> n = 0 \<or> off + n \<le> length c"
  by (auto simp: file_read_def)

lemma read_file_write: "file_read off (length bs) (file_write hl off bs c) = bs"
  by (simp add: file_read_def file_write_def Let_def)

lemma read_file_write_apart:
  assumes "length (file_read at n c) = n" and "at + n \<le> off \<or> off + length bs \<le> at"
  shows "file_read at n (file_write hl off bs c) = file_read at n c"
proof (cases "n = 0")
  case True
  then show ?thesis by (simp add: file_read_def)
next
  case False
  define c' where "c' = file_seek hl off c"
  from False assms(1) have le: "at + n \<le> length c" by (simp add: length_file_read)
  then have seek: "take n (drop at c') = take n (drop at c)"
    by (simp add: c'_def file_seek_def)
  have len: "length c' = max off (length c)" by (simp add: c'_def)
  from assms(2) have "take n (drop at (take off c' @ bs @ drop (off + length bs) c')) = take n (drop at c')"
    using le len by (auto simp: drop_take min_def)
  with seek show ?thesis by (simp add: file_read_def file_write_def Let_def c'_def)
qed

interpretation content: byte_store "file_write hl" file_read for hl
  by unfold_locales (fact read_file_write, fact read_file_write_apart)

section \<open>Facts about the volume\<close>

lemma length_splice [simp]: "i + length xs \<le> length ys \<Longrightarrow> length (splice i xs ys) = length ys"
  by (simp add: splice_def)

lemma take_splice [simp]: "take (length xs) (splice 0 xs ys) = xs"
  by (simp add: splice_def)

lemma take_splice_n: "length xs = n \<Longrightarrow> take n (splice 0 xs ys) = xs"
  by (simp add: splice_def)

lemma nth_splice_0: "n < length xs \<Longrightarrow> splice 0 xs ys ! n = xs ! n"
  by (simp add: splice_def nth_append)

lemma open_rw_store_file [simp]:
  "open_rw p (store_file q c v) =
     (if p = q then if mounted v then Some c else None else open_rw p v)"
  by (simp add: open_rw_def store_file_def)

lemma open_w_store_file [simp]:
  "open_w p (store_file q c v) =
     (if p = q then if mounted v then Some c else None else open_w p v)"
  by (simp add: open_w_def store_file_def)

lemma store_file_simps [simp]:
  "mounted (store_file p c v) = mounted v"
  "hole (store_file p c v) = hole v"
  "files (store_file p c v) q = (if q = p then Some c else files v q)"
  by (simp_all add: store_file_def)

lemma open_rw_mounted: "mounted v \<Longrightarrow> \<exists>c. open_rw p v = Some c"
  by (simp add: open_rw_def)

lemma unlink_simps [simp]:
  "mounted (unlink p v) = mounted v"
  "hole (unlink p v) = hole v"
  "mounted v \<Longrightarrow> files (unlink p v) q = (if q = p then None else files v q)"
  by (simp_all add: unlink_def)

lemma file_read_written: "length bs = n \<Longrightarrow> file_read off n (file_write hl off bs c) = bs"
  using read_file_write by blast

lemma store_boot_simps [simp]:
  "vol (store_boot v) = v" "version (store_boot v) = 1" "length (buffer (store_boot v)) = 80"
  "record_len (store_boot v) = 0" "ax5043_len (store_boot v) = 0"
  by (simp_all add: store_boot_def)

section \<open>The counters survive a restart\<close>

lemma u16_of_bytes: "ucast (ucast (w div 0x100) :: u8) * 0x100 + ucast (ucast (w mod 0x100) :: u8) = w"
  for w :: u16
proof -
  have "unat w < 65536" using unsigned_less [of w] by simp
  moreover from this have "unat w div 256 < 256" by simp
  ultimately show ?thesis
    by (simp add: word_unat_eq_iff unat_word_ariths unat_div_distrib unat_mod_distrib
        unsigned_ucast_eq unsigned_take_bit_eq take_bit_eq_mod)
qed

text \<open>What a start makes of a counter file that holds a whole entry.\<close>

lemma boot_entry:
  assumes "open_rw Record_len_txt v = Some c" and "file_read 0 5 c = [a, b, d, e, 1]"
  shows "record_len (my_dfs_init (store_boot v)) = ucast a * 0x100 + ucast b"
    and "ax5043_len (my_dfs_init (store_boot v)) = ucast d * 0x100 + ucast e"
    and "vol (my_dfs_init (store_boot v)) = store_file Record_len_txt c v"
  using assms
  by (simp_all add: my_dfs_init_def get_Record_len_def Let_def nth_splice_0)

lemma set_ax_record_total:
  "10 \<le> length zf \<Longrightarrow> 7 \<le> length t \<Longrightarrow> \<exists>s'. set_ax_record ver zf msid msv t rssi s = Inr s'"
  by (simp add: set_ax_record_def Let_def split: option.split)

lemma set_Record_txt_file:
  assumes "mounted (vol s)"
  shows "\<exists>c. open_rw Record_len_txt (vol (set_Record_txt r a v s)) = Some c \<and>
     file_read 0 5 c =
       [ucast (r mod RECORD_MAX div 0x100), ucast (r mod RECORD_MAX mod 0x100),
        ucast (a mod (AX5043_MAX + 1) div 0x100), ucast (a mod (AX5043_MAX + 1) mod 0x100), v]"
proof -
  obtain c where "open_rw Record_len_txt (vol s) = Some c" using open_rw_mounted [OF assms] by blast
  then show ?thesis
    using assms by (simp add: set_Record_txt_def Let_def file_read_written)
qed

lemma set_Record_txt_simps [simp]:
  "mounted (vol (set_Record_txt r a v s)) = mounted (vol s)"
  "hole (vol (set_Record_txt r a v s)) = hole (vol s)"
  "version (set_Record_txt r a v s) = version s"
  "p \<noteq> Record_len_txt \<Longrightarrow> files (vol (set_Record_txt r a v s)) p = files (vol s) p"
  "mounted (vol s) \<Longrightarrow> record_len (set_Record_txt r a v s) = r mod RECORD_MAX"
  "mounted (vol s) \<Longrightarrow> ax5043_len (set_Record_txt r a v s) = a mod (AX5043_MAX + 1)"
  using open_rw_mounted [of "vol s" Record_len_txt]
  by (auto simp: set_Record_txt_def Let_def split: option.split)

definition empty_volume :: volume where
  "empty_volume = \<lparr>files = (\<lambda>_. None), mounted = True, hole = (\<lambda>_. 0)\<rparr>"

text \<open>
  The counters written with the running format version are the counters after the next start
  (reduced to the sizes of the two files), and the received frames are kept.
\<close>

theorem counters_survive_restart:
  assumes "mounted (vol s)"
  shows "record_len (my_dfs_init (store_boot (vol (set_Record_txt r a 1 s)))) = r mod RECORD_MAX \<and>
    ax5043_len (my_dfs_init (store_boot (vol (set_Record_txt r a 1 s)))) = a mod (AX5043_MAX + 1) \<and>
    files (vol (my_dfs_init (store_boot (vol (set_Record_txt r a 1 s))))) AX_record_txt =
      files (vol s) AX_record_txt"
proof -
  from set_Record_txt_file [OF assms, of r a 1] obtain c
    where "open_rw Record_len_txt (vol (set_Record_txt r a 1 s)) = Some c"
      and "file_read 0 5 c =
       [ucast (r mod RECORD_MAX div 0x100), ucast (r mod RECORD_MAX mod 0x100),
        ucast (a mod (AX5043_MAX + 1) div 0x100), ucast (a mod (AX5043_MAX + 1) mod 0x100), 1]"
    by blast
  from boot_entry [OF this] show ?thesis by (simp only: u16_of_bytes) simp
qed

theorem counters_survive_restart_witness:
  "record_len (my_dfs_init (store_boot (vol (set_Record_txt 7 300 1 (store_boot empty_volume))))) = 7 \<and>
   ax5043_len (my_dfs_init (store_boot (vol (set_Record_txt 7 300 1 (store_boot empty_volume))))) = 300"
  using counters_survive_restart [of "store_boot empty_volume" 7 300]
  by (simp add: empty_volume_def RECORD_MAX_def AX5043_MAX_def)

text \<open>A start that finds a counter entry of another version drops every record.\<close>

lemma boot_other_version:
  assumes "open_rw Record_len_txt v = Some c" and "file_read 0 5 c = [a, b, d, e, ver]" and "ver \<noteq> 1"
  shows "files (vol (my_dfs_init (store_boot v))) MS_record_txt = None \<and>
    files (vol (my_dfs_init (store_boot v))) AX_record_txt = None \<and>
    record_len (my_dfs_init (store_boot v)) = 0 \<and> ax5043_len (my_dfs_init (store_boot v)) = 0"
proof -
  from assms(1) have "mounted v" by (simp add: open_rw_def split: if_splits)
  with assms show ?thesis
    by (simp add: my_dfs_init_def get_Record_len_def Let_def nth_splice_0)
qed

text \<open>
  C39: The first start on an empty volume leaves version 0 behind. A frame recorded in that session
  is stored and counted with it, and the next start deletes the file and resets the counter.
\<close>

theorem first_boot_records_lost:
  assumes "mounted v" and "files v Record_len_txt = None"
    and "set_ax_record ver zf msid msv t rssi (my_dfs_init (store_boot v)) = Inr s"
    and "s' = set_Record_txt (get_recordled_data s) (get_ax5045len_data s + 1) (get_version s) s"
  shows "files (vol s') AX_record_txt \<noteq> None \<and> ax5043_len s' = 1 \<and>
    files (vol (my_dfs_init (store_boot (vol s')))) AX_record_txt = None \<and>
    ax5043_len (my_dfs_init (store_boot (vol s'))) = 0"
proof -
  have boot: "version (my_dfs_init (store_boot v)) = 0" "ax5043_len (my_dfs_init (store_boot v)) = 0"
    "mounted (vol (my_dfs_init (store_boot v)))"
    using assms(1,2) by (simp_all add: my_dfs_init_def get_Record_len_def Let_def open_rw_def file_read_def)
  with assms(3) have s: "version s = 0" "ax5043_len s = 0" "mounted (vol s)" "files (vol s) AX_record_txt \<noteq> None"
    using open_rw_mounted [of "vol (my_dfs_init (store_boot v))" AX_record_txt]
    by (auto simp: set_ax_record_def Let_def split: if_splits)
  from set_Record_txt_file [OF s(3), of "get_recordled_data s" "get_ax5045len_data s + 1" "get_version s"]
  obtain c where c: "open_rw Record_len_txt (vol s') = Some c"
    and f: "file_read 0 5 c =
       [ucast (get_recordled_data s mod RECORD_MAX div 0x100), ucast (get_recordled_data s mod RECORD_MAX mod 0x100),
        ucast ((get_ax5045len_data s + 1) mod (AX5043_MAX + 1) div 0x100),
        ucast ((get_ax5045len_data s + 1) mod (AX5043_MAX + 1) mod 0x100), get_version s]"
    by (auto simp: assms(4))
  have "get_version s \<noteq> 1" by (simp add: get_version_def s(1))
  from boot_other_version [OF c f this] s show ?thesis
    by (simp add: assms(4) get_ax5045len_data_def AX5043_MAX_def)
qed

theorem first_boot_records_lost_witness:
  "\<exists>s s'. set_ax_record 1 (replicate 10 1) 12345678 123456 (replicate 7 1) 80
       (my_dfs_init (store_boot empty_volume)) = Inr s \<and>
     s' = set_Record_txt (get_recordled_data s) (get_ax5045len_data s + 1) (get_version s) s \<and>
     files (vol s') AX_record_txt \<noteq> None \<and>
     files (vol (my_dfs_init (store_boot (vol s')))) AX_record_txt = None"
proof -
  obtain s where s: "set_ax_record 1 (replicate 10 1) 12345678 123456 (replicate 7 1) 80
       (my_dfs_init (store_boot empty_volume)) = Inr s"
    using set_ax_record_total by force
  from first_boot_records_lost [OF _ _ s refl] s show ?thesis
    by (auto simp: empty_volume_def)
qed

section \<open>Records and slots\<close>

lemma length_dec_digits [simp]: "length (dec_digits n x) = n"
  by (induction n arbitrary: x) simp_all

lemma length_ax_record [simp]: "length (ax_record ver zf msid msv t rssi) = 60"
proof -
  have "[0..<10] = [0, 1, 2, 3, 4, 5, 6, 7, 8, 9 :: nat]" by code_simp
  then show ?thesis by (simp add: ax_record_def two_digits_def)
qed

lemma length_digits_of_row: "digits_of_row row n = Inr ds \<Longrightarrow> length ds = n"
  by (auto simp: digits_of_row_def split: if_splits)

text \<open>
  Every test record fills its slot of 20 bytes, whatever the meter kind.
\<close>

theorem ms_record_fills_slot:
  assumes "kind < 3" and "ms_record kind zf_list ms_error ms_time = Inr rec"
  shows "length rec = 20 \<and> last rec = 0x0d"
proof -
  from \<open>kind < 3\<close> have "kind < 8" by unat_arith
  with \<open>kind < 3\<close> have "kind = 0 \<or> kind = 1 \<or> kind = 2" by (auto simp: u8_less_8)
  with assms(2) show ?thesis
    by (auto simp: ms_record_def bind_r_eq_Inr dest!: length_digits_of_row)
qed

theorem ms_record_fills_slot_witness:
  "\<exists>rec. ms_record 1 (digit_row [1, 2, 3, 4, 5, 6, 7, 8]) 0 [30, 45, 12] = Inr rec \<and> length rec = 20"
proof -
  obtain rec where "ms_record 1 (digit_row [1, 2, 3, 4, 5, 6, 7, 8]) 0 [30, 45, 12] = Inr rec"
    by (simp add: ms_record_def digits_of_row_def digit_row_def)
  with ms_record_fills_slot [OF _ this] show ?thesis by auto
qed

lemma file_read_seek [simp]: "file_read off n (file_seek hl off c) = file_read off n c"
  by (simp add: file_read_def file_seek_def)

lemma length_file_read_le: "length (file_read off n c) \<le> n"
  by (simp add: file_read_def)

lemma get_ax_Record_hit:
  assumes "open_rw AX_record_txt (vol s) = Some c"
  shows "fst (get_ax_Record j s) = 1 \<longleftrightarrow> length (file_read (unat j * 60) 60 c) = 60"
    and "length (file_read (unat j * 60) 60 c) = 60 \<Longrightarrow>
      take 60 (buffer (snd (get_ax_Record j s))) = file_read (unat j * 60) 60 c"
  using assms length_file_read_le [of "unat j * 60" 60 c]
  by (auto simp: get_ax_Record_def Let_def take_splice_n)

lemma set_ax_record_file:
  assumes "open_rw AX_record_txt (vol s) = Some c"
    and "set_ax_record ver zf msid msv t rssi s = Inr s'"
  shows "open_rw AX_record_txt (vol s') = Some (file_write (hole (vol s))
    (unat (ax5043_len s mod AX5043_MAX) * 60) (ax_record ver zf msid msv t rssi) c)"
proof -
  from assms(1) have "mounted (vol s)" by (simp add: open_rw_def split: if_splits)
  with assms show ?thesis by (auto simp: set_ax_record_def Let_def split: if_splits)
qed

text \<open>
  C35: A received frame that is recorded can be read back from its slot byte for byte, and the
  frames in the other slots stay what they were.
\<close>

theorem ax_record_read_back:
  assumes "mounted (vol s)"
    and "set_ax_record ver zf msid msv t rssi s = Inr s'"
    and "i = ax5043_len s mod AX5043_MAX"
  shows "fst (get_ax_Record i s') = 1 \<and>
    take 60 (buffer (snd (get_ax_Record i s'))) = ax_record ver zf msid msv t rssi \<and>
    (\<forall>j. j \<noteq> i \<longrightarrow> fst (get_ax_Record j s) = 1 \<longrightarrow>
       fst (get_ax_Record j s') = 1 \<and>
       take 60 (buffer (snd (get_ax_Record j s'))) = take 60 (buffer (snd (get_ax_Record j s))))"
proof -
  obtain c where c: "open_rw AX_record_txt (vol s) = Some c"
    using open_rw_mounted [OF assms(1)] by blast
  let ?rec = "ax_record ver zf msid msv t rssi"
  let ?c = "file_write (hole (vol s)) (unat i * 60) ?rec c"
  from set_ax_record_file [OF c assms(2)] have c': "open_rw AX_record_txt (vol s') = Some ?c"
    by (simp add: assms(3))
  have "file_read (unat i * 60) 60 ?c = ?rec" by (simp add: file_read_written)
  with get_ax_Record_hit [OF c', of i] show ?thesis
    using get_ax_Record_hit [OF c'] get_ax_Record_hit [OF c]
      content.slot_apart [of _ 60 c ?rec "unat i" "hole (vol s)"]
    by (simp add: word_unat_eq_iff)
qed

theorem ax_record_read_back_witness:
  "\<exists>s'. set_ax_record 1 (replicate 10 1) 12345678 123456 (replicate 7 1) 80
       (store_boot empty_volume) = Inr s' \<and>
     take 60 (buffer (snd (get_ax_Record 0 s'))) =
       ax_record 1 (replicate 10 1) 12345678 123456 (replicate 7 1) 80"
proof -
  obtain s' where s': "set_ax_record 1 (replicate 10 1) 12345678 123456 (replicate 7 1) 80
       (store_boot empty_volume) = Inr s'"
    using set_ax_record_total by force
  from ax_record_read_back [OF _ s' refl] s' show ?thesis
    by (auto simp: empty_volume_def AX5043_MAX_def)
qed

lemma digits_of_digit_row: "length ds = n \<Longrightarrow> digits_of_row (digit_row ds) n = Inr ds"
  by (simp add: digits_of_row_def digit_row_def comp_def)

lemma file_read_shorter: "n \<le> m \<Longrightarrow> take n (file_read off m c) = file_read off n c"
  by (simp add: file_read_def)

lemma file_read_long: "length (file_read off n c) = n \<Longrightarrow> n \<le> m \<Longrightarrow> n \<le> length (file_read off m c)"
  by (auto simp: file_read_def)

lemma take_splice_le: "n \<le> length xs \<Longrightarrow> take n (splice 0 xs ys) = take n xs"
  by (simp add: splice_def)

text \<open>
  The three meter numbers the user enters are the numbers read back, digit for digit.
\<close>

theorem meter_numbers_round_trip:
  assumes "open_w MS_MSID_txt (vol s) = Some c"
    and "length d1 = 6" and "length d2 = 8" and "length d3 = 6"
    and "\<forall>d \<in> set (d1 @ d2 @ d3). d < 10"
    and "set_MSID (digit_row d1) (digit_row d2) (digit_row d3) s = Inr s'"
  shows "fst (get_MSID data s') = d1 @ d2 @ d3 @ drop 20 data"
proof -
  let ?ds = "d1 @ d2 @ d3"
  let ?c = "file_write (hole (vol s)) 0 ?ds c"
  have len: "length ?ds = 20" using assms by simp
  from assms(1) have "mounted (vol s)" by (simp add: open_w_def split: if_splits)
  moreover have "take 20 (splice 0 ?ds (buffer s)) = ?ds" by (rule take_splice_n [OF len])
  ultimately have open': "open_rw MS_MSID_txt (vol s') = Some ?c"
    using assms by (auto simp: set_MSID_def digits_of_digit_row Let_def)
  have got: "file_read 0 20 ?c = ?ds" by (rule file_read_written [OF len])
  then have long: "20 \<le> length (file_read 0 80 ?c)" using len by (intro file_read_long) simp_all
  have "take 20 (splice 0 (file_read 0 80 ?c) (buffer s')) = ?ds"
    using got by (simp only: take_splice_le [OF long] file_read_shorter)
  moreover have "map (\<lambda>b. if b < 10 then b else 1) ?ds = ?ds"
    using assms(5) by (intro map_idI) auto
  ultimately show ?thesis
    using open' long by (simp add: get_MSID_def Let_def)
qed

theorem meter_numbers_round_trip_witness:
  "\<exists>s'. set_MSID (digit_row [1, 2, 3, 4, 5, 6]) (digit_row [1, 2, 3, 4, 5, 6, 7, 8])
       (digit_row [9, 8, 7, 6, 5, 4])
       (store_boot (empty_volume\<lparr>files := [MS_MSID_txt \<mapsto> []]\<rparr>)) = Inr s' \<and>
     fst (get_MSID (replicate 20 0) s') =
       [1, 2, 3, 4, 5, 6, 1, 2, 3, 4, 5, 6, 7, 8, 9, 8, 7, 6, 5, 4]"
proof -
  let ?s = "store_boot (empty_volume\<lparr>files := [MS_MSID_txt \<mapsto> []]\<rparr>)"
  have c: "open_w MS_MSID_txt (vol ?s) = Some []" by (simp add: open_w_def empty_volume_def)
  then obtain s' where s': "set_MSID (digit_row [1, 2, 3, 4, 5, 6])
      (digit_row [1, 2, 3, 4, 5, 6, 7, 8]) (digit_row [9, 8, 7, 6, 5, 4]) ?s = Inr s'"
    by (auto simp: set_MSID_def digits_of_digit_row Let_def)
  from meter_numbers_round_trip [OF c _ _ _ _ s'] s' show ?thesis by auto
qed

end
