(* ===== verification/Meter_Uart.thy ===== *)
theory Meter_Uart
  imports Board_IO
begin

text \<open>
  The line to the gas meter (\<^verbatim>\<open>applications/MS_Uart.c\<close>): requests are frames of ASCII text with a
  checksum, replies are collected one character at a time by the receive thread, parsed when the
  expected length is there, and given up by the timeout thread. The two threads are the steps
  \<open>data_parsing\<close> (a character) and \<open>data_timeout_parsing\<close> (a period of 50 ms), each as it goes when
  no other thread comes in between; theory \<open>Meter_Threads\<close> takes them apart into their accesses.
\<close>

section \<open>State\<close>

definition ONE_DATA_MAXLEN :: nat where "ONE_DATA_MAXLEN = 100"

definition UART_WAIT :: u8 where "UART_WAIT = 0"
definition UART_ERROR_TIMEOUT :: u8 where "UART_ERROR_TIMEOUT = 1"
definition UART_ERROR_DATA :: u8 where "UART_ERROR_DATA = 2"
definition UART_READ_OK :: u8 where "UART_READ_OK = 3"

lemmas uart_flags = UART_WAIT_def UART_ERROR_TIMEOUT_def UART_ERROR_DATA_def UART_READ_OK_def

record uart =
  data :: "u8 list"
  data_len :: u8
  data_end :: u8
  uart_timeot :: u8
  uart_flag :: u8
  uart_commend :: u8
  uart_get_data :: u32
  fs_data :: "u8 list"

definition uart_boot :: uart where
  "uart_boot =
     \<lparr>data = replicate 100 0, data_len = 0, data_end = 0, uart_timeot = 0, uart_flag = 0,
      uart_commend = 0, uart_get_data = 0, fs_data = bytes ''@AB83*'' @ replicate 34 0\<rparr>"

definition MS_Set_Command :: "u8 list" where
  "MS_Set_Command = [byte CHR ''A'', byte CHR ''E'', byte CHR ''G'']"

definition MS_Get_Command :: "u8 list" where
  "MS_Get_Command = [byte CHR ''B'', byte CHR ''F'', byte CHR ''I'']"

definition number_hex :: "u8 \<Rightarrow> u8" where
  "number_hex number =
     (if 10 \<le> number then number - 10 + byte CHR ''A'' else number + byte CHR ''0'')"

text \<open>\<open>hex_number\<close> returns nothing for a character that is not a digit.\<close>

definition hex_number :: "u8 \<Rightarrow> u8 result" where
  "hex_number hex =
     (if byte CHR ''A'' \<le> hex \<and> hex \<le> byte CHR ''F'' then Inr (hex - byte CHR ''A'' + 10)
      else if byte CHR ''a'' \<le> hex \<and> hex \<le> byte CHR ''f'' then Inr (hex - byte CHR ''a'' + 10)
      else if byte CHR ''0'' \<le> hex \<and> hex \<le> byte CHR ''9'' then Inr (hex - byte CHR ''0'')
      else Inl NoReturnValue)"

text \<open>The running sum both sides take modulo 256.\<close>

definition check_sum :: "u8 list \<Rightarrow> u16" where
  "check_sum bs = fold (\<lambda>b n. (n + ucast b) mod 0x100) bs 0"

section \<open>Receiving\<close>

text \<open>The number in a reply, a hexadecimal digit per character.\<close>

definition reply_number :: "nat \<Rightarrow> u8 list \<Rightarrow> u32 result" where
  "reply_number n d =
     fold_r (\<lambda>i acc. bind_r (arr_get d (3 + i)) (\<lambda>c. bind_r (hex_number c) (\<lambda>v.
         let acc = acc + ucast v in Inr (if i + 1 < n then acc * 0x10 else acc)))) [0..<n] 0"

definition flag_bits :: "u8 \<Rightarrow> (u8 \<times> u32) list \<Rightarrow> u32" where
  "flag_bits v ms = fold (\<lambda>(m, b) acc. if v AND m \<noteq> 0 then acc OR b else acc) ms 0"

text \<open>The status reply: four digits of the data become numbers, their bits the flags.\<close>

definition hex_at :: "nat \<Rightarrow> u8 list \<Rightarrow> u8 list result" where
  "hex_at i d = bind_r (arr_get d i) (\<lambda>c. bind_r (hex_number c) (arr_set d i))"

definition status_short :: "uart \<Rightarrow> uart result" where
  "status_short u =
     bind_r (hex_at 4 (data u)) (\<lambda>d.
       Inr (u\<lparr>data := d, uart_get_data := flag_bits (d ! 4) [(0x01, 0x01), (0x02, 0x02)]\<rparr>))"

definition status_long :: "uart \<Rightarrow> uart result" where
  "status_long u =
     bind_r (fold_r hex_at [4, 5, 6, 7] (data u)) (\<lambda>d.
       Inr (u\<lparr>data := d, uart_get_data :=
         flag_bits (d ! 4) [(0x01, 0x01), (0x02, 0x02)] OR
         flag_bits (d ! 5) [(0x01, 0x04)] OR
         flag_bits (d ! 6) [(0x01, 0x08), (0x02, 0x10), (0x04, 0x20), (0x08, 0x40)] OR
         flag_bits (d ! 7) [(0x01, 0x80), (0x02, 0x100), (0x04, 0x200)]\<rparr>))"

text \<open>What a reply with a good checksum does, by its command letter.\<close>

definition reply_action :: "uart \<Rightarrow> uart result" where
  "reply_action u =
     (let n = unat (data_len u); c = data u ! 2 in
      if c = byte CHR ''A'' \<or> c = byte CHR ''E'' \<or> c = byte CHR ''G''
      then Inr (u\<lparr>uart_flag :=
             (if data u ! 3 = byte CHR ''0'' then UART_READ_OK else UART_ERROR_DATA)\<rparr>)
      else if c = byte CHR ''B'' \<or> c = byte CHR ''F''
      then map_r (\<lambda>x. u\<lparr>uart_flag := UART_READ_OK, uart_get_data := x\<rparr>)
             (reply_number (n - 6) (data u))
      else if c = byte CHR ''I''
      then (let u = u\<lparr>uart_flag := UART_READ_OK\<rparr>
            in if n = 8 then status_short u else if n = 11 then status_long u else Inr u)
      else if c = byte CHR ''R''
      then if n < 4 then Inl OutOfBounds
           else Inr (u\<lparr>uart_flag := UART_READ_OK, uart_get_data := ucast (data u ! (n - 4))\<rparr>)
      else Inr u)"

definition reply_checked :: "uart \<Rightarrow> bool" where
  "reply_checked u =
     (let n = unat (data_len u); hex_check = check_sum (take (n - 4) (drop 1 (data u)))
      in data u ! (n - 1) = byte CHR ''*'' \<and>
         data u ! (n - 3) = number_hex (ucast (hex_check div 0x10)) \<and>
         data u ! (n - 2) = number_hex (ucast (hex_check mod 0x10)))"

text \<open>
  The parser reads the characters 0 to \<open>data_len - 1\<close> and looks three places back, so a length
  below 3 (which no request sets) or beyond the array is an access outside it.
\<close>

definition my_data_parsing :: "uart \<Rightarrow> uart result" where
  "my_data_parsing u =
     (if unat (data_len u) < 3 \<or> length (data u) < unat (data_len u) then Inl OutOfBounds
      else map_r (\<lambda>u. u\<lparr>uart_timeot := 0\<rparr>)
        (if reply_checked u then reply_action u else Inr (u\<lparr>uart_flag := UART_ERROR_DATA\<rparr>)))"

definition data_parsing :: "u8 \<Rightarrow> uart \<Rightarrow> uart result" where
  "data_parsing ch u =
     (if data_end u = 0 then Inr u
      else bind_r
        (if (data_len u = 0 \<and> ch = byte CHR ''@'') \<or> (data_len u = 1 \<and> ch = byte CHR ''A'') \<or>
            3 \<le> data_len u \<or> (data_len u = 2 \<and> ch = uart_commend u)
         then map_r (\<lambda>d. u\<lparr>data := d, data_len := data_len u + 1, uart_timeot := 10\<rparr>)
                (arr_set (data u) (unat (data_len u)) ch)
         else Inr u)
        (\<lambda>u. if data_len u = data_end u then my_data_parsing u else Inr u))"

text \<open>A period of the timeout thread, with nobody in between its statements.\<close>

definition data_timeout_parsing :: "uart \<Rightarrow> uart" where
  "data_timeout_parsing u =
     (let u = (if uart_timeot u \<noteq> 0 then u\<lparr>uart_timeot := uart_timeot u - 1\<rparr> else u)
      in if uart_flag u = UART_WAIT \<and> uart_timeot u = 0
         then u\<lparr>uart_flag := UART_ERROR_TIMEOUT\<rparr> else u)"

section \<open>Requests\<close>

text \<open>A request: line fill, start mark, the text, two digits of its checksum, the two end marks.\<close>

definition request_frame :: "u8 list \<Rightarrow> u8 list" where
  "request_frame text =
     [0xff, byte CHR ''@''] @ text @
     [number_hex (ucast (check_sum text div 0x10)), number_hex (ucast (check_sum text mod 0x10)),
      byte CHR ''*'', 0x0D]"

definition fs_fill :: "u8 list \<Rightarrow> uart \<Rightarrow> uart result" where
  "fs_fill bs u =
     (if length bs \<le> length (fs_data u)
      then Inr (u\<lparr>fs_data := bs @ drop (length bs) (fs_data u)\<rparr>) else Inl OutOfBounds)"

text \<open>The shell commands send one fixed frame each.\<close>

definition ms_uart_fs :: "uart \<times> history \<Rightarrow> (uart \<times> history) result" where
  "ms_uart_fs = (\<lambda>(u, h).
     let bs = [0xff, byte CHR ''@'', byte CHR ''A'', byte CHR ''B'', byte CHR ''8'',
               byte CHR ''3'', byte CHR ''*'', 0x0D]
     in map_r (\<lambda>u. (u, SerialWrite bs # h)) (fs_fill bs u))"

definition ms_uart_fs1 :: "uart \<times> history \<Rightarrow> (uart \<times> history) result" where
  "ms_uart_fs1 = (\<lambda>(u, h).
     let bs = [0xff, byte CHR ''@'', byte CHR ''A'', byte CHR ''I'', byte CHR ''8'',
               byte CHR ''A'', byte CHR ''*'', 0x0D]
     in map_r (\<lambda>u. (u, SerialWrite bs # h)) (fs_fill bs u))"

definition ms_uart_fs2 :: "uart \<times> history \<Rightarrow> (uart \<times> history) result" where
  "ms_uart_fs2 = (\<lambda>(u, h).
     let bs = [0xff, byte CHR ''@'', byte CHR ''A'', byte CHR ''F'', byte CHR ''8'',
               byte CHR ''7'', byte CHR ''*'', 0x0D]
     in map_r (\<lambda>u. (u, SerialWrite bs # h)) (fs_fill bs u))"

text \<open>The number a request carries: the digits of a row, or a clock time in half seconds.\<close>

definition row_number :: "u8 list \<Rightarrow> nat \<Rightarrow> u32 result" where
  "row_number zf_list len =
     fold_r (\<lambda>i acc. bind_r (arr_get zf_list (i + 1)) (\<lambda>z.
         let acc = acc + (ucast z - 100) in Inr (if i + 1 \<noteq> len then acc * 10 else acc)))
       [0..<len] 0"

definition clock_number :: "u8 list \<Rightarrow> u32 result" where
  "clock_number zf_list =
     (if length zf_list < 9 then Inl OutOfBounds
      else let d = (\<lambda>i. ucast (zf_list ! i) - 100 :: u32)
           in Inr ((d 1 * 36000 + d 2 * 3600 + d 4 * 600 + d 5 * 60 + d 7 * 10 + d 8) * 2))"

primrec hex_digits :: "nat \<Rightarrow> u32 \<Rightarrow> u8 list" where
  "hex_digits 0 x = []"
| "hex_digits (Suc n) x = hex_digits n (x div 0x10) @ [number_hex (ucast (x mod 0x10))]"

definition my_uart_SetData ::
    "nat \<Rightarrow> u8 list \<Rightarrow> nat \<Rightarrow> uart \<times> history \<Rightarrow> (uart \<times> history) result" where
  "my_uart_SetData flag zf_list len = (\<lambda>(u, h).
     bind_r (if flag \<noteq> 2 then row_number zf_list len else clock_number zf_list) (\<lambda>list_number.
     bind_r (arr_get MS_Set_Command flag) (\<lambda>cmd.
       let bs = request_frame ([byte CHR ''A'', cmd] @ hex_digits (len - 1) list_number)
       in map_r (\<lambda>u. (u\<lparr>uart_commend := cmd, data_len := 0, data_end := 7,
                        uart_flag := UART_WAIT, uart_timeot := 40\<rparr>, SerialWrite bs # h))
            (fs_fill bs u))))"

definition get_reply_length :: "nat \<Rightarrow> nat \<Rightarrow> u8 \<Rightarrow> u8" where
  "get_reply_length flag kind old =
     (if flag = 0 then (if kind = 0 then 12 else 14)
      else if flag = 1 then 12
      else if flag = 2 then (if kind = 0 then 8 else 11)
      else old)"

definition my_uart_GetData :: "nat \<Rightarrow> nat \<Rightarrow> uart \<times> history \<Rightarrow> (uart \<times> history) result" where
  "my_uart_GetData flag kind = (\<lambda>(u, h).
     bind_r (arr_get MS_Get_Command flag) (\<lambda>cmd.
       let bs = request_frame [byte CHR ''A'', cmd]
       in map_r (\<lambda>u. (u\<lparr>uart_commend := cmd, data_end := get_reply_length flag kind (data_end u),
                        data_len := 0, uart_flag := UART_WAIT, uart_timeot := 80\<rparr>,
                      SerialWrite bs # h))
            (fs_fill bs u)))"

text \<open>
  The valve request. The source assigns the string literal \<^verbatim>\<open>"F"\<close>, not the character, to each of
  the 24 places: what is sent is the low byte of the literal's address (\<open>string_address\<close>).
\<close>

definition ms_open_valve :: "env \<Rightarrow> uart \<times> history \<Rightarrow> (uart \<times> history) result" where
  "ms_open_valve e = (\<lambda>(u, h).
     let bs = request_frame ([byte CHR ''A'', byte CHR ''R'', byte CHR ''0''] @
                replicate 24 (string_address e))
     in map_r (\<lambda>u. (u\<lparr>uart_commend := byte CHR ''R'', data_len := 0, data_end := 33,
                      uart_flag := UART_WAIT, uart_timeot := 120\<rparr>, SerialWrite bs # h))
          (fs_fill bs u))"

definition get_UartData :: "uart \<Rightarrow> u32" where
  "get_UartData u = uart_get_data u"

section \<open>Hexadecimal digits\<close>

lemma u8_less_16: "d < 16 \<Longrightarrow> d \<in> set (map of_nat [0..<16])" for d :: u8
proof -
  assume "d < 16"
  then have "unat d \<in> {0..<16}" by (simp add: word_less_nat_alt)
  then have "of_nat (unat d) \<in> (of_nat ` {0..<16} :: u8 set)" by (rule imageI)
  then show ?thesis by (simp only: set_map set_upt) simp
qed

lemma hex_number_all: "list_all (\<lambda>d. hex_number (number_hex d) = Inr d) (map of_nat [0..<16])"
  by code_simp

lemma hex_number_hex: "d < 16 \<Longrightarrow> hex_number (number_hex d) = Inr d"
  using hex_number_all u8_less_16 by (auto simp: list_all_iff)

lemma length_hex_digits [simp]: "length (hex_digits n x) = n"
  by (induction n arbitrary: x) simp_all

lemma nth_hex_digits:
  "i < n \<Longrightarrow> hex_digits n x ! i = number_hex (ucast (take_bit 4 (drop_bit (4 * (n - Suc i)) x)))"
proof (induction n arbitrary: x)
  case 0
  then show ?case by simp
next
  case (Suc n)
  have dm: "x div 0x10 = drop_bit 4 x" "x mod 0x10 = take_bit 4 x"
    by (simp_all add: drop_bit_eq_div take_bit_eq_mod)
  show ?case
  proof (cases "i = n")
    case True
    then show ?thesis by (simp add: nth_append dm)
  next
    case False
    with Suc.prems have "i < n" by simp
    then have "4 * (n - Suc i) + 4 = 4 * (Suc n - Suc i)" by simp
    with Suc.IH [OF \<open>i < n\<close>] \<open>i < n\<close> show ?thesis
      by (simp only: hex_digits.simps nth_append length_hex_digits dm drop_bit_drop_bit) simp
  qed
qed

lemma ucast_nibble: "ucast (ucast (take_bit 4 y) :: u8) = (take_bit 4 y :: u32)"
  by (rule bit_word_eqI) (auto simp: bit_simps)

lemma nibble_less: "(ucast (take_bit 4 y) :: u8) < 16" for y :: u32
proof -
  have "take_bit 4 (unat y) < 2 ^ 4" by (rule take_bit_nat_less_exp)
  then show ?thesis
    by (simp add: word_less_nat_alt unsigned_ucast_eq unsigned_take_bit_eq)
qed

lemma reply_digit:
  fixes y :: u32
  assumes "arr_get d (3 + i) = Inr (number_hex (ucast (take_bit 4 y)))"
  shows "bind_r (arr_get d (3 + i)) (\<lambda>c. bind_r (hex_number c) (\<lambda>v.
      let acc = push_bit 4 (drop_bit 4 y) + ucast v in Inr (if i + 1 < n then acc * 0x10 else acc))) =
    Inr (if i + 1 < n then push_bit 4 y else y)"
proof -
  have "push_bit 4 (drop_bit 4 y) + ucast (ucast (take_bit 4 y) :: u8) = y"
    by (simp only: ucast_nibble bits_ident)
  moreover have "y * 0x10 = push_bit 4 y" by (simp add: push_bit_eq_mult)
  ultimately show ?thesis
    by (simp only: assms bind_r_simps hex_number_hex [OF nibble_less] Let_def)
qed

lemma reply_number_prefix:
  assumes "length d = 3" and "drop_bit (4 * n) x = 0" and "m \<le> n"
    and "f = (\<lambda>i acc. bind_r (arr_get (d @ hex_digits n x @ r) (3 + i)) (\<lambda>c.
      bind_r (hex_number c) (\<lambda>v.
        let acc = acc + ucast v in Inr (if i + 1 < n then acc * 0x10 else acc))))"
  shows "fold_r f [0..<m] 0 =
    Inr (if m < n then push_bit 4 (drop_bit (4 * (n - m)) x) else drop_bit (4 * (n - m)) x)"
  using assms(3)
proof (induction m)
  case 0
  then show ?case using assms(2) by (cases "n = 0") simp_all
next
  case (Suc m)
  then have m: "m < n" by simp
  define y where "y = drop_bit (4 * (n - Suc m)) x"
  have "4 * (n - m) = 4 + 4 * (n - Suc m)" using m by simp
  then have y: "drop_bit (4 * (n - m)) x = drop_bit 4 y" by (simp add: y_def drop_bit_drop_bit)
  have get: "arr_get (d @ hex_digits n x @ r) (3 + m) = Inr (number_hex (ucast (take_bit 4 y)))"
    using m by (simp add: nth_append assms(1) nth_hex_digits y_def)
  have "f m (push_bit 4 (drop_bit 4 y)) = Inr (if m + 1 < n then push_bit 4 y else y)"
    unfolding assms(4) by (rule reply_digit [OF get])
  moreover have "y = x" if "\<not> Suc m < n"
    using m that by (simp add: y_def)
  ultimately show ?case using Suc.IH m by (simp add: fold_r_append y flip: y_def)
qed

lemma reply_number_digits:
  assumes "length d = 3" and "drop_bit (4 * n) x = 0"
  shows "reply_number n (d @ hex_digits n x @ r) = Inr x"
  using reply_number_prefix [OF assms order_refl refl] by (simp add: reply_number_def)

section \<open>Replies\<close>

text \<open>A reply as the meter composes it: the text with its start mark, checksum and end mark.\<close>

definition reply_frame :: "u8 list \<Rightarrow> u8 list" where
  "reply_frame text =
     byte CHR ''@'' # text @
     [number_hex (ucast (check_sum text div 0x10)), number_hex (ucast (check_sum text mod 0x10)),
      byte CHR ''*'']"

lemma length_reply_frame [simp]: "length (reply_frame text) = length text + 4"
  by (simp add: reply_frame_def)

text \<open>Three good characters in, every further character is taken until the length is there.\<close>

lemma collect_rest:
  assumes "length (data u) = 100" and "unat (data_len u) = k" and "3 \<le> k" and "suf \<noteq> []"
    and "k + length suf = unat (data_end u)" and "k + length suf \<le> 100"
  shows "fold_r data_parsing suf u =
    my_data_parsing (u\<lparr>data := take k (data u) @ suf @ drop (k + length suf) (data u),
      data_len := data_end u, uart_timeot := 10\<rparr>)"
  using assms
proof (induction suf arbitrary: u k)
  case Nil
  then show ?case by simp
next
  case (Cons ch suf)
  have end0: "data_end u \<noteq> 0" using Cons.prems by auto
  have ge3: "3 \<le> data_len u" using Cons.prems by (simp add: word_le_nat_alt)
  have next_len: "unat (data_len u + 1) = Suc k"
    using Cons.prems by (simp add: unat_word_ariths)
  let ?u = "u\<lparr>data := (data u)[k := ch], data_len := data_len u + 1, uart_timeot := 10\<rparr>"
  have upd: "(data u)[k := ch] = take k (data u) @ ch # drop (Suc k) (data u)"
    using Cons.prems by (intro upd_conv_take_nth_drop) simp
  have step: "data_parsing ch u =
      (if data_len u + 1 = data_end u then my_data_parsing ?u else Inr ?u)"
    using Cons.prems end0 ge3 by (simp add: data_parsing_def)
  show ?case
  proof (cases "suf = []")
    case True
    then have "data_len u + 1 = data_end u"
      using Cons.prems next_len by (simp add: word_unat_eq_iff)
    then show ?thesis using True step by (cases "my_data_parsing ?u") (simp_all add: upd)
  next
    case False
    then obtain c cs where "suf = c # cs" by (cases suf) simp_all
    then have "data_len u + 1 \<noteq> data_end u"
      using Cons.prems next_len by (auto simp: word_unat_eq_iff)
    then have "fold_r data_parsing (ch # suf) u = fold_r data_parsing suf ?u" using step by simp
    also have "\<dots> = my_data_parsing (?u\<lparr>data := take (Suc k) (data ?u) @ suf @
        drop (Suc k + length suf) (data ?u), data_len := data_end ?u, uart_timeot := 10\<rparr>)"
      by (rule Cons.IH) (use Cons.prems False next_len in simp_all)
    finally show ?thesis using Cons.prems(1,6) by (simp add: upd min_def ac_simps)
  qed
qed

text \<open>Characters before the start mark are dropped.\<close>

lemma collect_noise:
  assumes "data_len u = 0" and "byte CHR ''@'' \<notin> set noise" and "data_end u \<noteq> 0"
  shows "fold_r data_parsing noise u = Inr u"
  using assms by (induction noise) (simp_all add: data_parsing_def)

lemma collect_frame:
  assumes "length (data u) = 100" and "data_len u = 0" and "byte CHR ''@'' \<notin> set noise"
    and "4 \<le> length bs" and "length bs \<le> 100" and "data_end u = of_nat (length bs)"
    and "bs = [byte CHR ''@'', byte CHR ''A'', uart_commend u] @ rest"
  shows "fold_r data_parsing (noise @ bs) u =
    my_data_parsing (u\<lparr>data := bs @ drop (length bs) (data u), data_len := data_end u,
      uart_timeot := 10\<rparr>)"
proof -
  let ?n = "length bs"
  have n: "unat (data_end u) = ?n" using assms(4-6) by (simp add: unat_of_nat)
  then have ends: "data_end u \<noteq> 0" "data_end u \<noteq> 1" "data_end u \<noteq> 2" "data_end u \<noteq> 3"
    using assms(4) by auto
  have rest: "rest \<noteq> []" using assms(4) by (auto simp: assms(7))
  obtain a b c tl where d: "data u = a # b # c # tl"
    using assms(1) by (cases "data u" rule: list.exhaust)
      (auto simp: length_Suc_conv numeral_eq_Suc)
  let ?u = "u\<lparr>data := byte CHR ''@'' # byte CHR ''A'' # uart_commend u # tl, data_len := 3,
    uart_timeot := 10\<rparr>"
  have "fold_r data_parsing bs u = fold_r data_parsing rest ?u"
    using assms(2) ends by (simp add: assms(7) data_parsing_def d)
  also have "\<dots> = my_data_parsing (?u\<lparr>data := take 3 (data ?u) @ rest @
      drop (3 + length rest) (data ?u), data_len := data_end ?u, uart_timeot := 10\<rparr>)"
    by (rule collect_rest) (use assms n d rest in simp_all)
  finally show ?thesis
    using collect_noise [OF assms(2,3) ends(1)]
    by (simp add: fold_r_append assms(7) d numeral_3_eq_3)
qed

lemma reply_checked_frame:
  assumes "data u = bs @ r" and "length bs = unat (data_len u)" and "4 \<le> length bs"
    and "hd bs = byte CHR ''@''"
  shows "reply_checked u \<longleftrightarrow> (\<exists>text. bs = reply_frame text)"
proof -
  let ?n = "length bs"
  define msg where "msg = take (?n - 4) (drop 1 bs)"
  have split: "bs = byte CHR ''@'' # msg @ [bs ! (?n - 3), bs ! (?n - 2), bs ! (?n - 1)]"
  proof (rule nth_equalityI)
    show "length bs = length (byte CHR ''@'' # msg @ [bs ! (?n - 3), bs ! (?n - 2), bs ! (?n - 1)])"
      using assms(3) by (simp add: msg_def)
  next
    fix i
    assume i: "i < ?n"
    consider "i = 0" | "0 < i" "i < ?n - 3" | "i = ?n - 3" | "i = ?n - 2" | "i = ?n - 1"
      using i assms(3) by linarith
    then show "bs ! i = (byte CHR ''@'' # msg @ [bs ! (?n - 3), bs ! (?n - 2), bs ! (?n - 1)]) ! i"
      using assms(3,4) i
      by cases (auto simp: msg_def hd_conv_nth nth_append nth_Cons' min_def)
  qed
  have same: "take (?n - 4) (drop 1 (data u)) = msg"
    using assms(1,3) by (simp add: msg_def)
  have nths: "data u ! (?n - k) = bs ! (?n - k)" if "0 < k" for k
  proof -
    from that assms(3) have "?n - k < ?n" by linarith
    then show ?thesis by (simp add: assms(1) nth_append)
  qed
  have "reply_checked u \<longleftrightarrow> bs ! (?n - 1) = byte CHR ''*'' \<and>
      bs ! (?n - 3) = number_hex (ucast (check_sum msg div 0x10)) \<and>
      bs ! (?n - 2) = number_hex (ucast (check_sum msg mod 0x10))"
    by (simp only: reply_checked_def Let_def assms(2) [symmetric] same) (simp add: nths)
  also have "\<dots> \<longleftrightarrow> (\<exists>text. bs = reply_frame text)"
  proof
    assume "bs ! (?n - 1) = byte CHR ''*'' \<and>
      bs ! (?n - 3) = number_hex (ucast (check_sum msg div 0x10)) \<and>
      bs ! (?n - 2) = number_hex (ucast (check_sum msg mod 0x10))"
    with split have "bs = reply_frame msg" by (simp add: reply_frame_def)
    then show "\<exists>text. bs = reply_frame text" ..
  next
    assume "\<exists>text. bs = reply_frame text"
    then obtain msg' where "bs = reply_frame msg'" ..
    then show "bs ! (?n - 1) = byte CHR ''*'' \<and>
      bs ! (?n - 3) = number_hex (ucast (check_sum msg div 0x10)) \<and>
      bs ! (?n - 2) = number_hex (ucast (check_sum msg mod 0x10))"
      by (simp add: msg_def reply_frame_def nth_append)
  qed
  finally show ?thesis .
qed

lemma my_data_parsing_frame:
  assumes "data u = bs @ r" and "length bs = unat (data_len u)" and "4 \<le> length bs"
    and "hd bs = byte CHR ''@''"
  shows "my_data_parsing u = map_r (\<lambda>u. u\<lparr>uart_timeot := 0\<rparr>)
    (if \<exists>text. bs = reply_frame text then reply_action u
     else Inr (u\<lparr>uart_flag := UART_ERROR_DATA\<rparr>))"
  using assms by (simp add: my_data_parsing_def reply_checked_frame)

text \<open>The state a request leaves, and the frame that answers it.\<close>

lemma GetData_state:
  assumes "my_uart_GetData flag kind (u, h) = Inr (u', h')"
  shows "data u' = data u \<and> data_len u' = 0 \<and> uart_flag u' = UART_WAIT \<and> uart_timeot u' = 80 \<and>
    data_end u' = get_reply_length flag kind (data_end u) \<and> flag < 3 \<and>
    uart_commend u' = MS_Get_Command ! flag"
  using assms
  by (auto simp: my_uart_GetData_def bind_r_eq_Inr map_r_eq_Inr fs_fill_def arr_get_def Let_def
      MS_Get_Command_def split: if_splits)

lemma SetData_state:
  assumes "my_uart_SetData flag row n (u, h) = Inr (u', h')"
  shows "data u' = data u \<and> data_len u' = 0 \<and> uart_flag u' = UART_WAIT \<and> uart_timeot u' = 40 \<and>
    data_end u' = 7 \<and> flag < 3 \<and> uart_commend u' = MS_Set_Command ! flag"
  using assms
  by (auto simp: my_uart_SetData_def bind_r_eq_Inr map_r_eq_Inr fs_fill_def arr_get_def Let_def
      MS_Set_Command_def split: if_splits)

lemma reply_collected:
  assumes "length (data u) = 100" and "data_len u = 0" and "byte CHR ''@'' \<notin> set noise"
    and "bs = reply_frame ([byte CHR ''A'', uart_commend u] @ rest)"
    and "length bs = unat (data_end u)" and "length bs \<le> 100"
  shows "fold_r data_parsing (noise @ bs) u = map_r (\<lambda>u. u\<lparr>uart_timeot := 0\<rparr>)
    (reply_action (u\<lparr>data := bs @ drop (length bs) (data u), data_len := data_end u,
       uart_timeot := 10\<rparr>))"
proof -
  let ?u = "u\<lparr>data := bs @ drop (length bs) (data u), data_len := data_end u, uart_timeot := 10\<rparr>"
  have len: "4 \<le> length bs" by (simp add: assms(4))
  have "fold_r data_parsing (noise @ bs) u = my_data_parsing ?u"
  proof (rule collect_frame)
    show "data_end u = of_nat (length bs)" by (simp add: assms(5))
    show "bs = [byte CHR ''@'', byte CHR ''A'', uart_commend u] @ tl (tl (tl bs))"
      by (simp add: assms(4) reply_frame_def)
  qed (use assms len in auto)
  also have "\<dots> = map_r (\<lambda>u. u\<lparr>uart_timeot := 0\<rparr>) (reply_action ?u)"
    by (subst my_data_parsing_frame [of _ bs]) (use assms len in \<open>auto simp: reply_frame_def\<close>)
  finally show ?thesis .
qed

lemma get_boot: "\<exists>p. my_uart_GetData 0 0 (uart_boot, []) = Inr p"
  by (simp add: my_uart_GetData_def MS_Get_Command_def fs_fill_def uart_boot_def request_frame_def Let_def)

lemma reading_reply:
  assumes "my_uart_GetData flag kind (u, h) = Inr (u', h')" and "flag < 2"
    and "length (data u) = 100" and "byte CHR ''@'' \<notin> set noise"
    and "n = unat (data_end u') - 6" and "drop_bit (4 * n) x = 0"
  shows "\<exists>u''. fold_r data_parsing
      (noise @ reply_frame ([byte CHR ''A'', uart_commend u'] @ hex_digits n x)) u' = Inr u'' \<and>
    uart_flag u'' = UART_READ_OK \<and> get_UartData u'' = x \<and> uart_timeot u'' = 0 \<and>
    length (data u'') = 100 \<and> fs_data u'' = fs_data u'"
proof -
  let ?text = "[byte CHR ''A'', uart_commend u'] @ hex_digits n x"
  let ?bs = "reply_frame ?text"
  note st = GetData_state [OF assms(1)]
  from st \<open>flag < 2\<close> have c: "uart_commend u' = byte CHR ''B'' \<or> uart_commend u' = byte CHR ''F''"
    by (auto simp: MS_Get_Command_def less_2_cases_iff)
  from st \<open>flag < 2\<close> have e: "data_end u' = 12 \<and> n = 6 \<or> data_end u' = 14 \<and> n = 8"
    by (auto simp: get_reply_length_def assms(5))
  then have len: "length ?bs = unat (data_end u')" by auto
  let ?u = "u'\<lparr>data := ?bs @ drop (length ?bs) (data u'), data_len := data_end u', uart_timeot := 10\<rparr>"
  have "fold_r data_parsing (noise @ ?bs) u' =
      map_r (\<lambda>u. u\<lparr>uart_timeot := 0\<rparr>) (reply_action ?u)"
    by (rule reply_collected [OF _ _ assms(4) refl len]) (use assms(3) st len e in auto)
  also have "reply_action ?u = Inr (?u\<lparr>uart_flag := UART_READ_OK, uart_get_data := x\<rparr>)"
  proof -
    have "data ?u = [byte CHR ''@'', byte CHR ''A'', uart_commend u'] @ hex_digits n x @
        drop (n + 3) (data ?u)"
      by (simp add: reply_frame_def numeral_3_eq_3)
    then have "reply_number n (data ?u) = Inr x"
      using reply_number_digits [OF _ assms(6)] by (metis length_Cons list.size(3) numeral_3_eq_3)
    moreover have "data ?u ! 2 = uart_commend u'" by (simp add: reply_frame_def)
    moreover have "unat (data_len ?u) - 6 = n" by (simp add: assms(5))
    ultimately show ?thesis using c by (auto simp: reply_action_def Let_def)
  qed
  finally show ?thesis using st assms(3) e by (auto simp: get_UartData_def)
qed

text \<open>
  After a request for a reading, the answer with the reading in hexadecimal digits, received
  one character at a time and behind any noise without a start mark, gives exactly that reading.
\<close>

theorem reading_reply_decoded:
  assumes "my_uart_GetData flag kind (u, h) = Inr (u', h')" and "flag < 2"
    and "length (data u) = 100" and "byte CHR ''@'' \<notin> set noise"
    and "n = unat (data_end u') - 6" and "drop_bit (4 * n) x = 0"
  shows "\<exists>u''. fold_r data_parsing
      (noise @ reply_frame ([byte CHR ''A'', uart_commend u'] @ hex_digits n x)) u' = Inr u'' \<and>
    uart_flag u'' = UART_READ_OK \<and> get_UartData u'' = x \<and> uart_timeot u'' = 0"
  using reading_reply [OF assms] by blast

theorem reading_reply_decoded_witness:
  "\<exists>u' h' u''. my_uart_GetData 0 0 (uart_boot, []) = Inr (u', h') \<and>
     fold_r data_parsing (bytes ''AB'' @
       reply_frame ([byte CHR ''A'', uart_commend u'] @ hex_digits 6 0x1E240)) u' = Inr u'' \<and>
     uart_flag u'' = UART_READ_OK \<and> get_UartData u'' = 123456"
proof -
  obtain u' h' where req: "my_uart_GetData 0 0 (uart_boot, []) = Inr (u', h')"
    using get_boot by auto
  have n: "6 = unat (data_end u') - 6"
    using GetData_state [OF req] by (simp add: get_reply_length_def)
  have x: "drop_bit (4 * 6) (0x1E240 :: u32) = 0" by simp
  have "length (data uart_boot) = 100" by (simp add: uart_boot_def)
  from reading_reply_decoded [OF req _ this _ n x, of "bytes ''AB''"] req show ?thesis by auto
qed

text \<open>
  A reply of the expected length that is not a well-formed frame (start mark, checksum of the
  text, end mark) ends the wait with a data error, whatever it claims to carry.
\<close>

theorem corrupt_reply_rejected:
  assumes "my_uart_GetData flag kind (u, h) = Inr (u', h')" and "length (data u) = 100"
    and "byte CHR ''@'' \<notin> set noise"
    and "bs = [byte CHR ''@'', byte CHR ''A'', uart_commend u'] @ rest"
    and "length bs = unat (data_end u')" and "\<nexists>text. bs = reply_frame text"
  shows "\<exists>u''. fold_r data_parsing (noise @ bs) u' = Inr u'' \<and>
    uart_flag u'' = UART_ERROR_DATA \<and> uart_timeot u'' = 0 \<and>
    get_UartData u'' = get_UartData u"
proof -
  note st = GetData_state [OF assms(1)]
  then have e: "data_end u' \<in> {8, 11, 12, 14}"
    by (auto simp: get_reply_length_def split: if_splits)
  then have len: "4 \<le> length bs" "length bs \<le> 100" by (auto simp: assms(5))
  let ?u = "u'\<lparr>data := bs @ drop (length bs) (data u'), data_len := data_end u', uart_timeot := 10\<rparr>"
  have "fold_r data_parsing (noise @ bs) u' = my_data_parsing ?u"
  proof (rule collect_frame)
    show "data_end u' = of_nat (length bs)" by (simp add: assms(5))
  qed (use assms st len in auto)
  also have "\<dots> = Inr (?u\<lparr>uart_flag := UART_ERROR_DATA, uart_timeot := 0\<rparr>)"
    by (subst my_data_parsing_frame [of _ bs]) (use len assms(4-6) in \<open>simp_all\<close>)
  finally show ?thesis
    using assms(1)
    by (auto simp: get_UartData_def my_uart_GetData_def bind_r_eq_Inr map_r_eq_Inr fs_fill_def
        Let_def split: if_splits)
qed

theorem corrupt_reply_rejected_witness:
  "\<exists>u' h' u''. my_uart_GetData 0 0 (uart_boot, []) = Inr (u', h') \<and>
     fold_r data_parsing (bytes ''@AB12345600*'') u' = Inr u'' \<and> uart_flag u'' = UART_ERROR_DATA"
proof -
  obtain u' h' where req: "my_uart_GetData 0 0 (uart_boot, []) = Inr (u', h')"
    using get_boot by auto
  have c: "uart_commend u' = byte CHR ''B''" and n: "data_end u' = 12"
    using GetData_state [OF req] by (simp_all add: get_reply_length_def MS_Get_Command_def)
  have "\<nexists>text. bytes ''@AB12345600*'' = reply_frame text"
  proof
    assume "\<exists>text. bytes ''@AB12345600*'' = reply_frame text"
    then obtain msg where msg: "bytes ''@AB12345600*'' = reply_frame msg" ..
    from arg_cong [OF msg, of length] have "length msg = 8" by simp
    with arg_cong [OF msg, of "\<lambda>l. take 8 (tl l)"]
    have "msg = bytes ''AB123456''" by (simp add: reply_frame_def)
    with msg have "bytes ''@AB12345600*'' = reply_frame (bytes ''AB123456'')" by simp
    moreover have "bytes ''@AB12345600*'' \<noteq> reply_frame (bytes ''AB123456'')" by code_simp
    ultimately show False by simp
  qed
  moreover have "length (data uart_boot) = 100" by (simp add: uart_boot_def)
  ultimately show ?thesis
    using corrupt_reply_rejected [OF req, of "[]" "bytes ''@AB12345600*''" "bytes ''12345600*''"] req c n by auto
qed

lemma setting_reply:
  assumes "my_uart_SetData flag row n (u, h) = Inr (u', h')" and "length (data u) = 100"
    and "byte CHR ''@'' \<notin> set noise"
  shows "\<exists>u''. fold_r data_parsing
      (noise @ reply_frame [byte CHR ''A'', uart_commend u', status]) u' = Inr u'' \<and>
    uart_timeot u'' = 0 \<and>
    uart_flag u'' = (if status = byte CHR ''0'' then UART_READ_OK else UART_ERROR_DATA) \<and>
    length (data u'') = 100 \<and> fs_data u'' = fs_data u'"
proof -
  let ?bs = "reply_frame ([byte CHR ''A'', uart_commend u'] @ [status])"
  note st = SetData_state [OF assms(1)]
  then have c: "uart_commend u' \<in> {byte CHR ''A'', byte CHR ''E'', byte CHR ''G''}"
    by (auto simp: MS_Set_Command_def less_Suc_eq numeral_3_eq_3)
  let ?u = "u'\<lparr>data := ?bs @ drop (length ?bs) (data u'), data_len := data_end u', uart_timeot := 10\<rparr>"
  have "fold_r data_parsing (noise @ ?bs) u' =
      map_r (\<lambda>u. u\<lparr>uart_timeot := 0\<rparr>) (reply_action ?u)"
    by (rule reply_collected [OF _ _ assms(3) refl]) (use assms(2) st in auto)
  also have "reply_action ?u = Inr (?u\<lparr>uart_flag :=
      (if status = byte CHR ''0'' then UART_READ_OK else UART_ERROR_DATA)\<rparr>)"
    using c by (auto simp: reply_action_def Let_def reply_frame_def)
  finally show ?thesis using st assms(2) by simp
qed

text \<open>The answer to a status request about a meter without a valve: two digits, the second counts.\<close>

lemma status_reply:
  assumes "my_uart_GetData 2 0 (u, h) = Inr (u', h')" and "length (data u) = 100"
    and "byte CHR ''@'' \<notin> set noise" and "d < 16"
  shows "\<exists>u''. fold_r data_parsing
      (noise @ reply_frame [byte CHR ''A'', byte CHR ''I'', c, number_hex d]) u' = Inr u'' \<and>
    uart_timeot u'' = 0 \<and> uart_flag u'' = UART_READ_OK \<and>
    get_UartData u'' = flag_bits d [(0x01, 0x01), (0x02, 0x02)] \<and>
    length (data u'') = 100 \<and> fs_data u'' = fs_data u'"
proof -
  note st = GetData_state [OF assms(1)]
  then have com: "uart_commend u' = byte CHR ''I''" and e: "data_end u' = 8"
    by (simp_all add: MS_Get_Command_def get_reply_length_def)
  let ?bs = "reply_frame ([byte CHR ''A'', uart_commend u'] @ [c, number_hex d])"
  let ?u = "u'\<lparr>data := ?bs @ drop (length ?bs) (data u'), data_len := data_end u', uart_timeot := 10\<rparr>"
  have "fold_r data_parsing (noise @ ?bs) u' =
      map_r (\<lambda>u. u\<lparr>uart_timeot := 0\<rparr>) (reply_action ?u)"
    by (rule reply_collected [OF _ _ assms(3) refl]) (use assms(2) st e in auto)
  then show ?thesis
    using assms(2) st
    by (simp add: com e reply_action_def Let_def reply_frame_def status_short_def hex_at_def
        hex_number_hex [OF assms(4)] get_UartData_def)
qed

text \<open>
  The answer to a setting is accepted exactly when its status digit is 0.
\<close>

theorem setting_reply_decides:
  assumes "my_uart_SetData flag row n (u, h) = Inr (u', h')" and "length (data u) = 100"
    and "byte CHR ''@'' \<notin> set noise"
  shows "\<exists>u''. fold_r data_parsing
      (noise @ reply_frame [byte CHR ''A'', uart_commend u', status]) u' = Inr u'' \<and>
    uart_timeot u'' = 0 \<and>
    uart_flag u'' = (if status = byte CHR ''0'' then UART_READ_OK else UART_ERROR_DATA)"
  using setting_reply [OF assms] by blast

theorem setting_reply_decides_witness:
  "\<exists>u' h' u''. my_uart_SetData 0 (digit_row [1, 2, 3, 4, 5, 6]) 6 (uart_boot, []) = Inr (u', h') \<and>
     fold_r data_parsing (reply_frame [byte CHR ''A'', uart_commend u', byte CHR ''0'']) u' = Inr u'' \<and>
     uart_flag u'' = UART_READ_OK"
proof -
  have "\<not> isl (my_uart_SetData 0 (digit_row [1, 2, 3, 4, 5, 6]) 6 (uart_boot, []))" by code_simp
  then obtain u' h' where req: "my_uart_SetData 0 (digit_row [1, 2, 3, 4, 5, 6]) 6 (uart_boot, []) = Inr (u', h')"
    using not_isl_pair by blast
  from setting_reply_decides [OF req, of "[]" "byte CHR ''0''"] req show ?thesis
    by (auto simp: uart_boot_def)
qed

section \<open>Silence\<close>

lemma unat_left: "k < unat w \<Longrightarrow> unat (w - of_nat k) = unat w - k" for w :: u8
  using unat_u8_less [of w] by (simp add: unat_sub_if_size unat_of_nat)

lemma timeout_steps:
  assumes "uart_flag u = UART_WAIT" and "k < unat (uart_timeot u)"
  shows "(data_timeout_parsing ^^ k) u = u\<lparr>uart_timeot := uart_timeot u - of_nat k\<rparr>"
  using assms(2)
proof (induction k)
  case 0
  then show ?case by simp
next
  case (Suc k)
  have "uart_timeot u - of_nat k \<noteq> 0" "uart_timeot u - of_nat k - 1 \<noteq> 0"
    using Suc.prems unat_u8_less [of "uart_timeot u"]
    by (auto simp: word_unat_eq_iff unat_sub_if_size unat_of_nat)
  with Suc show ?case by (simp add: data_timeout_parsing_def assms(1) diff_diff_eq add.commute)
qed

text \<open>
  A request that is not answered is given up after exactly as many periods of the timeout thread
  as its timeout says, with the timeout flag, and not a period earlier.
\<close>

lemma silence:
  assumes "uart_flag u = UART_WAIT" and "uart_timeot u \<noteq> 0"
  shows "(data_timeout_parsing ^^ unat (uart_timeot u)) u =
    u\<lparr>uart_timeot := 0, uart_flag := UART_ERROR_TIMEOUT\<rparr>"
proof -
  obtain k where k: "unat (uart_timeot u) = Suc k"
    using assms(2) by (cases "unat (uart_timeot u)") (simp_all add: unat_eq_0)
  have "uart_timeot u = of_nat (unat (uart_timeot u))" by simp
  then have last: "uart_timeot u = of_nat k + 1" by (simp only: k of_nat_Suc add.commute)
  have "k < unat (uart_timeot u)" by (simp add: k)
  from timeout_steps [OF assms(1) this]
  have "(data_timeout_parsing ^^ k) u = u\<lparr>uart_timeot := 1\<rparr>" by (simp add: last)
  then show ?thesis by (simp add: k data_timeout_parsing_def assms(1))
qed

lemma silence_pending:
  assumes "uart_flag u = UART_WAIT" and "j < unat (uart_timeot u)"
  shows "uart_flag ((data_timeout_parsing ^^ j) u) = UART_WAIT \<and>
    uart_timeot ((data_timeout_parsing ^^ j) u) \<noteq> 0"
  using assms(2) by (simp add: timeout_steps [OF assms] assms(1) word_unat_eq_iff unat_left)

section \<open>More characters than expected\<close>

text \<open>
  After a reply is complete nothing stops the collection: each further character is stored,
  and the one that no longer fits into the array is written outside it.
\<close>

theorem late_characters_overflow:
  assumes "length (data u) = 100" and "data_end u \<noteq> 0" and "3 \<le> data_len u"
    and "data_end u \<le> data_len u" and "unat (data_len u) \<le> 100"
    and "100 < unat (data_len u) + length late"
  shows "fold_r data_parsing late u = Inl OutOfBounds"
  using assms
proof (induction late arbitrary: u)
  case Nil
  then show ?case by simp
next
  case (Cons ch late)
  show ?case
  proof (cases "unat (data_len u) = 100")
    case True
    with Cons.prems show ?thesis by (simp add: data_parsing_def)
  next
    case False
    with Cons.prems(5) have less: "unat (data_len u) < 100" by simp
    then have suc: "unat (data_len u + 1) = unat (data_len u) + 1" by (simp add: unat_word_ariths)
    let ?u = "u\<lparr>data := (data u)[unat (data_len u) := ch], data_len := data_len u + 1,
      uart_timeot := 10\<rparr>"
    have "data_end u < data_len u + 1"
      using Cons.prems(4) suc by (simp add: word_less_nat_alt word_le_nat_alt)
    then have "data_len u + 1 \<noteq> data_end u" by auto
    then have "data_parsing ch u = Inr ?u"
      using Cons.prems less by (simp add: data_parsing_def)
    moreover have "fold_r data_parsing late ?u = Inl OutOfBounds"
      by (rule Cons.IH) (use Cons.prems less suc in \<open>simp_all add: word_le_nat_alt\<close>)
    ultimately show ?thesis by simp
  qed
qed

theorem late_characters_overflow_witness:
  "fold_r data_parsing (replicate 94 0x2A) (uart_boot\<lparr>data_len := 7, data_end := 7\<rparr>) = Inl OutOfBounds"
  by (rule late_characters_overflow) (simp_all add: uart_boot_def)

section \<open>The request for a setting\<close>

text \<open>The number a row of digits stands for.\<close>

definition decimal :: "u8 list \<Rightarrow> nat" where
  "decimal ds = fold (\<lambda>d n. 10 * n + unat d) ds 0"

lemma decimal_snoc: "decimal (ds @ [d]) = 10 * decimal ds + unat d"
  by (simp add: decimal_def)

lemma decimal_bound: "\<forall>d \<in> set ds. d < 10 \<Longrightarrow> decimal ds < 10 ^ length ds"
proof (induction ds rule: rev_induct)
  case Nil
  then show ?case by (simp add: decimal_def)
next
  case (snoc d ds)
  then have "unat d < 10" and "decimal ds < 10 ^ length ds" by (auto simp: word_less_nat_alt)
  then show ?case by (simp add: decimal_snoc)
qed

lemma glyph_digit: "d < 10 \<Longrightarrow> ucast (d + 100) = (ucast d + 100 :: u32)" for d :: u8
proof -
  assume "d < 10"
  then have d: "unat d < 10" by (simp add: word_less_nat_alt)
  then have "unat (d + 100) = unat d + 100" by (simp add: unat_word_ariths)
  moreover have "unat (ucast w :: u32) = unat w" for w :: u8
    using unat_u8_less [of w] by (simp add: unsigned_ucast_eq take_bit_nat_eq_self)
  ultimately show ?thesis using d by (simp add: word_unat_eq_iff unat_word_ariths)
qed

lemma row_number_prefix:
  assumes "m \<le> length ds" and "\<forall>d \<in> set ds. d < 10" and "n = length ds"
    and "f = (\<lambda>i acc. bind_r (arr_get (digit_row ds) (i + 1)) (\<lambda>z.
         let acc = acc + (ucast z - 100) in Inr (if i + 1 \<noteq> n then acc * 10 else acc)))"
  shows "fold_r f [0..<m] 0 =
    Inr (of_nat (if m < n then 10 * decimal (take m ds) else decimal (take m ds)) :: u32)"
  using assms(1)
proof (induction m)
  case 0
  then show ?case by (simp add: decimal_def)
next
  case (Suc m)
  then have m: "m < length ds" by simp
  then have "ds ! m < 10" using assms(2) by simp
  note z = glyph_digit [OF this]
  have dec: "decimal (take (Suc m) ds) = 10 * decimal (take m ds) + unat (ds ! m)"
    using m by (simp add: take_Suc_conv_app_nth decimal_snoc)
  have "f m (of_nat (10 * decimal (take m ds))) =
      Inr (of_nat (if Suc m < n then 10 * decimal (take (Suc m) ds) else decimal (take (Suc m) ds)))"
    using m by (simp only: dec) (simp add: assms(3,4) digit_row_def Let_def z algebra_simps)
  then show ?case using Suc.IH m assms(3) by (simp add: fold_r_append)
qed

lemma row_number_digits:
  assumes "\<forall>d \<in> set ds. d < 10"
  shows "row_number (digit_row ds) (length ds) = Inr (of_nat (decimal ds))"
  using row_number_prefix [OF order_refl assms refl refl] by (simp add: row_number_def)

lemma drop_bit_small: "unat x < 2 ^ n \<Longrightarrow> drop_bit n x = 0" for x :: u32
  by (simp only: word_unat_eq_iff unsigned_drop_bit_eq)
    (simp add: drop_bit_eq_div take_bit_eq_mod)

text \<open>
  C37: The frame sent for a setting of 6 or 8 decimal digits carries the number they stand for,
  in hexadecimal digits one fewer than the decimal ones, with nothing lost: read back the way the
  program reads a number, they give it.
\<close>

theorem setting_frame_carries_number:
  assumes "length ds = 6 \<or> length ds = 8" and "\<forall>d \<in> set ds. d < 10" and "flag < 2"
    and "my_uart_SetData flag (digit_row ds) (length ds) (u, h) = Inr (u', h')"
    and "length pre = 3"
  shows "\<exists>hs. h' = SerialWrite (request_frame ([byte CHR ''A'', uart_commend u'] @ hs)) # h \<and>
    length hs = length ds - 1 \<and>
    map_r unat (reply_number (length ds - 1) (pre @ hs)) = Inr (decimal ds)"
proof -
  let ?n = "length ds - 1"
  let ?x = "of_nat (decimal ds) :: u32"
  have "decimal ds < 10 ^ length ds" by (rule decimal_bound [OF assms(2)])
  moreover have "(10::nat) ^ 6 < 2 ^ (4 * 5)" "(10::nat) ^ 8 < 2 ^ (4 * 7)" by simp_all
  ultimately have dec: "decimal ds < 2 ^ (4 * ?n)" and small: "decimal ds < 2 ^ 32"
    using assms(1) by auto
  from small have x: "unat ?x = decimal ds" by (simp add: unat_of_nat)
  have num: "reply_number ?n (pre @ hex_digits ?n ?x @ []) = Inr ?x"
    by (rule reply_number_digits [OF assms(5)]) (use dec x in \<open>intro drop_bit_small; simp\<close>)
  have h': "h' = SerialWrite (request_frame ([byte CHR ''A'', uart_commend u'] @ hex_digits ?n ?x)) # h"
    using assms(3,4)
    by (auto simp: my_uart_SetData_def bind_r_eq_Inr map_r_eq_Inr fs_fill_def Let_def
        row_number_digits [OF assms(2)] split: if_splits)
  show ?thesis
    by (rule exI [of _ "hex_digits ?n ?x"]) (use h' num x in simp)
qed

theorem setting_frame_carries_number_witness:
  "\<exists>u' h' hs. my_uart_SetData 0 (digit_row [1, 2, 3, 4, 5, 6]) 6 (uart_boot, []) = Inr (u', h') \<and>
     h' = [SerialWrite (request_frame ([byte CHR ''A'', uart_commend u'] @ hs))] \<and>
     map_r unat (reply_number 5 (bytes ''@AA'' @ hs)) = Inr 123456"
proof -
  let ?ds = "[1, 2, 3, 4, 5, 6] :: u8 list"
  have "\<not> isl (my_uart_SetData 0 (digit_row ?ds) (length ?ds) (uart_boot, []))" by code_simp
  then obtain u' h' where req: "my_uart_SetData 0 (digit_row ?ds) (length ?ds) (uart_boot, []) = Inr (u', h')"
    using not_isl_pair by blast
  have ds: "decimal ?ds = 123456" "\<forall>d \<in> set ?ds. d < 10" by (simp_all add: decimal_def)
  have n: "length ?ds = 6" "6 - 1 = (5::nat)" by simp_all
  have "\<exists>hs. h' = SerialWrite (request_frame ([byte CHR ''A'', uart_commend u'] @ hs)) # [] \<and>
      length hs = length ?ds - 1 \<and>
      map_r unat (reply_number (length ?ds - 1) (bytes ''@AA'' @ hs)) = Inr (decimal ?ds)"
    by (rule setting_frame_carries_number [OF _ ds(2) _ req]) simp_all
  note sent = this [unfolded n ds(1)]
  from sent req [unfolded n] show ?thesis by blast
qed

section \<open>The line as a component\<close>

text \<open>Everything that happens to the line: characters, timeout periods and the requests.\<close>

datatype uart_event =
    RxChar u8 | TimeoutTick
  | SetRequest nat "u8 list" nat | GetRequest nat nat | ValveRequest

definition uart_step :: "env \<Rightarrow> uart_event \<Rightarrow> uart \<times> history \<Rightarrow> (uart \<times> history) result" where
  "uart_step e ev uh =
     (case ev of
        RxChar ch \<Rightarrow> map_r (\<lambda>u. (u, snd uh)) (data_parsing ch (fst uh))
      | TimeoutTick \<Rightarrow> Inr (data_timeout_parsing (fst uh), snd uh)
      | SetRequest flag row n \<Rightarrow> my_uart_SetData flag row n uh
      | GetRequest flag kind \<Rightarrow> my_uart_GetData flag kind uh
      | ValveRequest \<Rightarrow> ms_open_valve e uh)"

definition commands :: "u8 list" where
  "commands = bytes ''AEGBFIR''"

text \<open>
  Once a request was made: its command is known and, when three characters are in, stands in the
  array; and a wait whose timeout has run down is over.
\<close>

definition uart_ok :: "uart \<Rightarrow> bool" where
  "uart_ok u \<longleftrightarrow> length (data u) = 100 \<and> length (fs_data u) = 40 \<and>
     (data_end u \<noteq> 0 \<longrightarrow>
        uart_commend u \<in> set commands \<and> (3 \<le> data_len u \<longrightarrow> data u ! 2 = uart_commend u) \<and>
        (uart_timeot u = 0 \<longrightarrow> uart_flag u \<noteq> UART_WAIT))"

lemma uart_ok_boot: "uart_ok uart_boot"
  by (simp add: uart_ok_def uart_boot_def)

lemma hex_at_keeps: "hex_at i d = Inr d' \<Longrightarrow> 2 < i \<Longrightarrow> length d' = length d \<and> d' ! 2 = d ! 2"
  by (auto simp: hex_at_def bind_r_eq_Inr arr_set_def split: if_splits)

lemma reply_action_keeps:
  assumes "reply_action u = Inr u'" and "data u ! 2 \<in> set commands"
  shows "uart_flag u' \<noteq> UART_WAIT \<and> length (data u') = length (data u) \<and>
    data u' ! 2 = data u ! 2 \<and> fs_data u' = fs_data u \<and> data_end u' = data_end u \<and>
    uart_commend u' = uart_commend u"
  using assms
  by (auto simp: reply_action_def Let_def commands_def uart_flags map_r_eq_Inr bind_r_eq_Inr
      status_short_def status_long_def dest!: hex_at_keeps split: if_splits)

lemma my_data_parsing_keeps:
  assumes "my_data_parsing u = Inr u'" and "data u ! 2 \<in> set commands"
  shows "uart_flag u' \<noteq> UART_WAIT \<and> length (data u') = length (data u) \<and>
    data u' ! 2 = data u ! 2 \<and> fs_data u' = fs_data u \<and> data_end u' = data_end u \<and>
    uart_commend u' = uart_commend u"
  using assms reply_action_keeps
  by (fastforce simp: my_data_parsing_def map_r_eq_Inr uart_flags split: if_splits)

lemma store_char_keeps:
  assumes "uart_ok u" and "(data_len u = 0 \<and> ch = byte CHR ''@'') \<or>
    (data_len u = 1 \<and> ch = byte CHR ''A'') \<or> 3 \<le> data_len u \<or>
    (data_len u = 2 \<and> ch = uart_commend u)"
    and "arr_set (data u) (unat (data_len u)) ch = Inr d"
  shows "uart_ok (u\<lparr>data := d, data_len := data_len u + 1, uart_timeot := 10\<rparr>)"
proof -
  from assms(1,3) have d: "length d = 100" "unat (data_len u) < 100"
    "d = (data u)[unat (data_len u) := ch]" "length (data u) = 100"
    by (auto simp: uart_ok_def arr_set_def split: if_splits)
  have "d ! 2 = uart_commend u"
    if e: "data_end u \<noteq> 0" and three: "3 \<le> data_len u + 1"
  proof -
    from three d(2) have "2 \<le> unat (data_len u)" by (simp add: word_le_nat_alt unat_word_ariths)
    then consider "data_len u = 2" | "3 \<le> data_len u"
      by (force simp: word_le_nat_alt word_unat_eq_iff)
    then show ?thesis
    proof cases
      case 1
      with assms(2) d show ?thesis by simp
    next
      case 2
      then have "unat (data_len u) \<noteq> 2" by (simp add: word_le_nat_alt)
      with 2 e assms(1) show ?thesis by (simp add: d(3) uart_ok_def)
    qed
  qed
  then show ?thesis using assms(1) d(1) by (simp add: uart_ok_def)
qed

lemma parsed_keeps:
  assumes "uart_ok u" and "data_end u \<noteq> 0" and "my_data_parsing u = Inr u'"
  shows "uart_ok u'"
proof -
  from assms(3) have three: "3 \<le> data_len u"
    by (auto simp: my_data_parsing_def word_le_nat_alt split: if_splits)
  with assms(1,2) have "data u ! 2 \<in> set commands" by (simp add: uart_ok_def)
  from my_data_parsing_keeps [OF assms(3) this] assms(1,2) three show ?thesis
    by (simp add: uart_ok_def)
qed

lemma data_parsing_keeps:
  assumes "uart_ok u" and "data_parsing ch u = Inr u'"
  shows "uart_ok u'"
proof (cases "data_end u = 0")
  case True
  with assms show ?thesis by (simp add: data_parsing_def)
next
  case False
  let ?takes = "(data_len u = 0 \<and> ch = byte CHR ''@'') \<or>
    (data_len u = 1 \<and> ch = byte CHR ''A'') \<or> 3 \<le> data_len u \<or>
    (data_len u = 2 \<and> ch = uart_commend u)"
  have "\<exists>u1. uart_ok u1 \<and> data_end u1 = data_end u \<and>
    (if data_len u1 = data_end u1 then my_data_parsing u1 else Inr u1) = Inr u'"
  proof (cases ?takes)
    case True
    from False True assms(2) obtain d where d: "arr_set (data u) (unat (data_len u)) ch = Inr d"
      by (cases "arr_set (data u) (unat (data_len u)) ch")
        (simp_all only: data_parsing_def if_False if_True map_r_simps bind_r_simps sum.distinct)
    let ?u1 = "u\<lparr>data := d, data_len := data_len u + 1, uart_timeot := 10\<rparr>"
    have "(if data_len ?u1 = data_end ?u1 then my_data_parsing ?u1 else Inr ?u1) = Inr u'"
      using assms(2)
      by (simp only: data_parsing_def if_not_P [OF False] if_P [OF True] d map_r_simps bind_r_simps)
    moreover have "data_end ?u1 = data_end u" by simp
    ultimately show ?thesis using store_char_keeps [OF assms(1) True d] by blast
  next
    case takes: False
    have "(if data_len u = data_end u then my_data_parsing u else Inr u) = Inr u'"
      using assms(2)
      by (simp only: data_parsing_def if_not_P [OF False] if_not_P [OF takes] bind_r_simps)
    with assms(1) show ?thesis by blast
  qed
  with False show ?thesis by (auto split: if_splits intro: parsed_keeps)
qed

lemma timeout_keeps: "uart_ok u \<Longrightarrow> uart_ok (data_timeout_parsing u)"
  by (cases "uart_timeot u = 0"; cases "uart_flag u = UART_WAIT"; cases "uart_timeot u = 1")
    (simp_all add: uart_ok_def data_timeout_parsing_def uart_flags)

lemma uart_step_keeps:
  assumes "uart_ok (fst uh)" and "uart_step e ev uh = Inr uh'"
  shows "uart_ok (fst uh')"
proof (cases ev)
  case (RxChar ch)
  with assms show ?thesis by (auto simp: uart_step_def map_r_eq_Inr intro: data_parsing_keeps)
next
  case TimeoutTick
  with assms show ?thesis
    by (auto simp: uart_step_def intro: timeout_keeps)
next
  case (SetRequest flag row n)
  with assms have "flag < 3" using SetData_state [of flag row n "fst uh" "snd uh" "fst uh'" "snd uh'"]
    by (simp add: uart_step_def)
  with assms SetRequest show ?thesis
    by (cases uh; cases uh') (auto simp: uart_step_def uart_ok_def my_uart_SetData_def bind_r_eq_Inr map_r_eq_Inr
        fs_fill_def Let_def commands_def MS_Set_Command_def less_Suc_eq numeral_3_eq_3 split: if_splits)
next
  case (GetRequest flag kind)
  with assms have "flag < 3" using GetData_state [of flag kind "fst uh" "snd uh" "fst uh'" "snd uh'"]
    by (simp add: uart_step_def)
  with assms GetRequest show ?thesis
    by (cases uh; cases uh') (auto simp: uart_step_def uart_ok_def my_uart_GetData_def bind_r_eq_Inr map_r_eq_Inr
        fs_fill_def Let_def commands_def MS_Get_Command_def less_Suc_eq numeral_3_eq_3 split: if_splits)
next
  case ValveRequest
  with assms show ?thesis
    by (cases uh; cases uh') (auto simp: uart_step_def uart_ok_def ms_open_valve_def map_r_eq_Inr fs_fill_def Let_def
        commands_def split: if_splits)
qed

interpretation line: step_invariant
  "\<lambda>uh. fst uh = uart_boot" "uart_step e" "\<lambda>uh. uart_ok (fst uh)" for e
  by unfold_locales (use uart_ok_boot in simp, rule uart_step_keeps)

end
