(* ===== verification/Meter_Lag.thy ===== *)
theory Meter_Lag
  imports Meter_Uart
begin

text \<open>
  Answers of the meter that come in time: as long as no period of the timeout thread gives up, the
  parser does the same with and without the periods in between.
\<close>

text \<open>
  The state \<open>u\<close> is \<open>v\<close> but for a timeout that has run down further: what periods of the timeout
  thread make of a state as long as none of them gives up.
\<close>

definition lags :: "uart \<Rightarrow> uart \<Rightarrow> bool" where
  "lags u v \<longleftrightarrow> (\<exists>x \<le> uart_timeot v. u = v\<lparr>uart_timeot := x\<rparr>)"

lemma lags_refl [simp]: "lags u u"
  unfolding lags_def by (intro exI [of _ "uart_timeot u"]) simp

lemma lags_same:
  "lags u v \<Longrightarrow> uart_flag u = uart_flag v \<and> get_UartData u = get_UartData v \<and> data u = data v \<and>
     fs_data u = fs_data v \<and> (uart_timeot v = 0 \<longrightarrow> uart_timeot u = 0)"
  by (auto simp: lags_def get_UartData_def)

lemma lags_trans:
  assumes "lags u v" and "lags v w"
  shows "lags u w"
proof -
  from assms obtain x y where "x \<le> y" "u = w\<lparr>uart_timeot := x\<rparr>" "y \<le> uart_timeot w"
    by (auto simp: lags_def)
  then show ?thesis unfolding lags_def by (intro exI [of _ x]) simp
qed

lemma action_timeot:
  "reply_action (u\<lparr>uart_timeot := x\<rparr>) = map_r (\<lambda>u. u\<lparr>uart_timeot := x\<rparr>) (reply_action u)"
  by (simp add: reply_action_def Let_def status_short_def status_long_def map_r_def bind_r_def
      split: sum.split)

lemma parsing_timeot: "my_data_parsing (u\<lparr>uart_timeot := x\<rparr>) = my_data_parsing u"
proof -
  have "reply_checked (u\<lparr>uart_timeot := x\<rparr>) = reply_checked u" by (simp add: reply_checked_def)
  then show ?thesis
    by (cases "reply_action u") (simp_all add: my_data_parsing_def action_timeot)
qed

lemma lags_char:
  assumes "lags u v" and "data_parsing ch v = Inr v'"
  shows "\<exists>u'. data_parsing ch u = Inr u' \<and> lags u' v'"
proof -
  from assms(1) obtain x where x: "x \<le> uart_timeot v" "u = v\<lparr>uart_timeot := x\<rparr>" by (auto simp: lags_def)
  let ?takes = "(data_len v = 0 \<and> ch = byte CHR ''@'') \<or> (data_len v = 1 \<and> ch = byte CHR ''A'') \<or>
    3 \<le> data_len v \<or> (data_len v = 2 \<and> ch = uart_commend v)"
  consider "data_end v = 0" | "data_end v \<noteq> 0" "?takes" | "data_end v \<noteq> 0" "\<not> ?takes" by blast
  then show ?thesis
  proof cases
    case 1
    with assms x show ?thesis by (simp add: data_parsing_def)
  next
    case 2
    then have "data_parsing ch u = data_parsing ch v" by (simp add: data_parsing_def x(2))
    with assms(2) show ?thesis by simp
  next
    case 3
    have not_taken: "data_parsing ch w = (if data_len w = data_end w then my_data_parsing w else Inr w)"
      if "data_end w \<noteq> 0" "\<not> ((data_len w = 0 \<and> ch = byte CHR ''@'') \<or> (data_len w = 1 \<and> ch = byte CHR ''A'') \<or>
        3 \<le> data_len w \<or> (data_len w = 2 \<and> ch = uart_commend w))" for w
      unfolding data_parsing_def if_not_P [OF that(1)] if_not_P [OF that(2)] by simp
    have "data_end u = data_end v" "data_len u = data_len v" "uart_commend u = uart_commend v"
      by (simp_all add: x(2))
    note this not_taken [OF 3] not_taken [of u, unfolded this, OF 3]
    with assms show ?thesis
      by (cases "data_len v = data_end v") (simp_all add: x(2) parsing_timeot)
  qed
qed
lemma lags_chars:
  "lags u v \<Longrightarrow> fold_r data_parsing cs v = Inr v' \<Longrightarrow> \<exists>u'. fold_r data_parsing cs u = Inr u' \<and> lags u' v'"
proof (induction cs arbitrary: u v)
  case (Cons c cs)
  from Cons.prems(2) obtain v1 where v1: "data_parsing c v = Inr v1" "fold_r data_parsing cs v1 = Inr v'"
    by (auto simp: bind_r_eq_Inr)
  from lags_char [OF Cons.prems(1) v1(1)] Cons.IH [OF _ v1(2)] show ?case by auto
qed simp

lemma lags_period:
  assumes "lags u v" and "uart_flag u \<noteq> UART_WAIT \<or> 1 < uart_timeot u"
  shows "lags (data_timeout_parsing u) v"
proof -
  from assms(1) obtain x where x: "x \<le> uart_timeot v" "u = v\<lparr>uart_timeot := x\<rparr>" by (auto simp: lags_def)
  let ?y = "if x = 0 then 0 else x - 1"
  have "?y \<le> x" by (auto simp: word_le_nat_alt unat_minus_one)
  moreover have "data_timeout_parsing u = v\<lparr>uart_timeot := ?y\<rparr>"
    using assms(2) x(2) by (auto simp: data_timeout_parsing_def Let_def)
  ultimately show ?thesis using x(1) by (auto simp: lags_def intro: order_trans)
qed

end
