(* ===== verification/Rtt_Sem.thy ===== *)
theory Rtt_Sem
  imports Tester_Prelude
begin

text \<open>
  The counting semaphores of RT-Thread (\<^verbatim>\<open>rt-thread/src/ipc.c\<close>) as far as the program's threads use
  them: taking without a time limit, releasing, and the reset. Threads are numbers; the scheduler
  decides later which of the ready ones runs.
\<close>

section \<open>Semaphores\<close>

record semaphore =
  sem_value :: u16
  suspend_thread :: "nat list"

text \<open>\<^verbatim>\<open>RT_ASSERT(value < 0x10000U)\<close> holds of every \<open>u16\<close>.\<close>

definition rt_sem_init :: "u16 \<Rightarrow> semaphore" where
  "rt_sem_init v = \<lparr>sem_value = v, suspend_thread = []\<rparr>"

text \<open>
  \<^verbatim>\<open>rt_sem_take\<close> with a limit of 0 or without one: the semaphore is taken, the call returns with a
  timeout, or the thread is suspended behind the others (\<^verbatim>\<open>RT_IPC_FLAG_FIFO\<close>).
\<close>

datatype take_outcome = Taken | TimedOut | Suspended

definition rt_sem_take :: "nat \<Rightarrow> bool \<Rightarrow> semaphore \<Rightarrow> take_outcome \<times> semaphore" where
  "rt_sem_take tid forever s =
     (if 0 < sem_value s then (Taken, s\<lparr>sem_value := sem_value s - 1\<rparr>)
      else if \<not> forever then (TimedOut, s)
      else (Suspended, s\<lparr>suspend_thread := suspend_thread s @ [tid]\<rparr>))"

definition rt_sem_trytake :: "nat \<Rightarrow> semaphore \<Rightarrow> take_outcome \<times> semaphore" where
  "rt_sem_trytake tid = rt_sem_take tid False"

text \<open>The first suspended thread is resumed; without one the value is counted up, with wrap-around.\<close>

definition rt_sem_release :: "semaphore \<Rightarrow> nat list \<times> semaphore" where
  "rt_sem_release s =
     (case suspend_thread s of
        [] \<Rightarrow> ([], s\<lparr>sem_value := sem_value s + 1\<rparr>)
      | t # ts \<Rightarrow> ([t], s\<lparr>suspend_thread := ts\<rparr>))"

text \<open>\<^verbatim>\<open>rt_sem_control\<close> with \<^verbatim>\<open>RT_IPC_CMD_RESET\<close>: all suspended threads are resumed.\<close>

definition rt_sem_reset :: "u16 \<Rightarrow> semaphore \<Rightarrow> nat list \<times> semaphore" where
  "rt_sem_reset v s = (suspend_thread s, \<lparr>sem_value = v, suspend_thread = []\<rparr>)"

section \<open>What a semaphore counts\<close>

text \<open>Threads wait only at a semaphore whose value is 0.\<close>

definition sem_ok :: "semaphore \<Rightarrow> bool" where
  "sem_ok s \<longleftrightarrow> (suspend_thread s \<noteq> [] \<longrightarrow> sem_value s = 0)"

datatype sem_event = Take nat bool | Release | Reset u16

definition sem_step :: "sem_event \<Rightarrow> semaphore \<Rightarrow> semaphore result" where
  "sem_step ev s =
     Inr (case ev of
        Take t w \<Rightarrow> snd (rt_sem_take t w s)
      | Release \<Rightarrow> snd (rt_sem_release s)
      | Reset v \<Rightarrow> snd (rt_sem_reset v s))"

lemma sem_ok_step: "sem_ok s \<Longrightarrow> sem_step ev s = Inr s' \<Longrightarrow> sem_ok s'"
  by (auto simp: sem_ok_def sem_step_def word_gt_0 rt_sem_take_def rt_sem_release_def rt_sem_reset_def
      split: sem_event.splits list.splits if_splits)

interpretation sem: safe_component "\<lambda>s. \<exists>v. s = rt_sem_init v" sem_step sem_ok
proof
  show "sem_ok s" if "\<exists>v. s = rt_sem_init v" for s
    using that by (auto simp: sem_ok_def rt_sem_init_def)
  show "sem_ok s'" if "sem_ok s" "sem_step ev s = Inr s'" for s ev s'
    using that by (rule sem_ok_step)
  show "\<exists>s'. sem_step ev s = Inr s'" if "sem_ok s" for s ev
    by (simp add: sem_step_def)
qed

end
