(* ===== verification/Serial_Fifo.thy ===== *)
theory Serial_Fifo
  imports Tester_Prelude
begin

text \<open>
  The receive buffer of a serial device (\<^verbatim>\<open>rt-thread/components/drivers/serial/serial.c\<close>): a ring
  the receive interrupt fills and the reading thread empties. What it promises is a queue that
  keeps the most recent characters.
\<close>

section \<open>Queues that keep the most recent items\<close>

definition recent :: "nat \<Rightarrow> 'a list \<Rightarrow> 'a list" where
  "recent k xs = drop (length xs - k) xs"

lemma recent_short [simp]: "length xs \<le> k \<Longrightarrow> recent k xs = xs"
  by (simp add: recent_def)

lemma length_recent [simp]: "length (recent k xs) = min (length xs) k"
  by (simp add: recent_def)

lemma recent_recent: "recent k (recent k xs @ ys) = recent k (xs @ ys)"
proof (cases "length xs \<le> k")
  case False
  then have "length xs + length ys - k = (length xs - k) + length ys" by simp
  with False show ?thesis by (simp add: recent_def add.commute)
qed simp

lemma recent_last:
  assumes "ys \<noteq> []" and "0 < k"
  shows "recent k (xs @ ys) \<noteq> []" and "last (recent k (xs @ ys)) = last ys"
proof -
  have less: "length (xs @ ys) - k < length (xs @ ys)" using assms by (cases ys) auto
  then show "recent k (xs @ ys) \<noteq> []" by (simp only: recent_def drop_eq_Nil not_le)
  show "last (recent k (xs @ ys)) = last ys"
    using last_drop [OF less] assms(1) by (simp only: recent_def last_append if_False)
qed

locale recent_queue =
  fixes wf :: "'q \<Rightarrow> bool"
    and items :: "'q \<Rightarrow> 'a list"
    and enq :: "'a \<Rightarrow> 'q \<Rightarrow> 'q result"
    and deq :: "'q \<Rightarrow> ('a list \<times> 'q) result"
    and cap :: nat
  assumes enq_law: "wf q \<Longrightarrow> \<exists>q'. enq x q = Inr q' \<and> wf q' \<and> items q' = recent cap (items q @ [x])"
    and deq_law: "wf q \<Longrightarrow> \<exists>q'. deq q = Inr (take 1 (items q), q') \<and> wf q' \<and> items q' = drop 1 (items q)"
    and items_bound: "wf q \<Longrightarrow> length (items q) \<le> cap"
begin

lemma enq_all: "wf q \<Longrightarrow> \<exists>q'. fold_r enq xs q = Inr q' \<and> wf q' \<and> items q' = recent cap (items q @ xs)"
proof (induction xs arbitrary: q)
  case Nil
  then show ?case by (simp add: items_bound)
next
  case (Cons x xs)
  from enq_law [OF Cons.prems] obtain q1 where q1: "enq x q = Inr q1" "wf q1"
    "items q1 = recent cap (items q @ [x])" by blast
  from Cons.IH [OF q1(2)] show ?case by (simp add: q1 recent_recent)
qed

text \<open>While the queue has room, nothing is lost.\<close>

lemma enq_room:
  "wf q \<Longrightarrow> length (items q) + length xs \<le> cap \<Longrightarrow>
     \<exists>q'. fold_r enq xs q = Inr q' \<and> wf q' \<and> items q' = items q @ xs"
  using enq_all [of q xs] by auto

end

section \<open>The ring\<close>

record rx_fifo =
  rx_buffer :: "u8 list"
  put_index :: u16
  get_index :: u16
  is_full :: bool

text \<open>What \<^verbatim>\<open>rt_serial_open\<close> sets up for reception by interrupt.\<close>

definition fifo_open :: "u16 \<Rightarrow> rx_fifo" where
  "fifo_open bufsz =
     \<lparr>rx_buffer = replicate (unat bufsz) 0, put_index = 0, get_index = 0, is_full = False\<rparr>"

definition next_index :: "u16 \<Rightarrow> u16 \<Rightarrow> u16" where
  "next_index bufsz i = (if bufsz \<le> i + 1 then 0 else i + 1)"

text \<open>One character in the interrupt; if the ring is full, the oldest one is given up.\<close>

definition isr_store :: "u16 \<Rightarrow> u8 \<Rightarrow> rx_fifo \<Rightarrow> rx_fifo result" where
  "isr_store bufsz ch f =
     map_r (\<lambda>b.
         let f = f\<lparr>rx_buffer := b, put_index := next_index bufsz (put_index f)\<rparr>
         in if put_index f = get_index f
            then f\<lparr>get_index := next_index bufsz (get_index f), is_full := True\<rparr> else f)
       (arr_set (rx_buffer f) (unat (put_index f)) ch)"

text \<open>The number of characters the interrupt reports.\<close>

definition isr_rx_length :: "u16 \<Rightarrow> rx_fifo \<Rightarrow> u16" where
  "isr_rx_length bufsz f =
     (if get_index f \<le> put_index f then put_index f - get_index f
      else bufsz - (get_index f - put_index f))"

definition serial_fifo_calc_recved_len :: "u16 \<Rightarrow> rx_fifo \<Rightarrow> u16" where
  "serial_fifo_calc_recved_len bufsz f =
     (if put_index f = get_index f then (if \<not> is_full f then 0 else bufsz)
      else if get_index f < put_index f then put_index f - get_index f
      else bufsz - (get_index f - put_index f))"

text \<open>Reading up to \<open>len\<close> characters, by \<^verbatim>\<open>_serial_int_rx\<close>.\<close>

primrec serial_int_rx :: "u16 \<Rightarrow> nat \<Rightarrow> rx_fifo \<Rightarrow> (u8 list \<times> rx_fifo) result" where
  "serial_int_rx bufsz 0 f = Inr ([], f)"
| "serial_int_rx bufsz (Suc len) f =
     (if get_index f = put_index f \<and> \<not> is_full f then Inr ([], f)
      else bind_r (arr_get (rx_buffer f) (unat (get_index f))) (\<lambda>ch.
             map_r (\<lambda>(chs, f). (ch # chs, f))
               (serial_int_rx bufsz len
                  (f\<lparr>get_index := next_index bufsz (get_index f), is_full := False\<rparr>))))"

section \<open>The ring is such a queue\<close>

definition fifo_ok :: "u16 \<Rightarrow> rx_fifo \<Rightarrow> bool" where
  "fifo_ok bufsz f \<longleftrightarrow> 2 \<le> bufsz \<and> length (rx_buffer f) = unat bufsz \<and> put_index f < bufsz \<and>
     get_index f < bufsz \<and> (is_full f \<longrightarrow> put_index f \<noteq> get_index f)"

definition fill :: "nat \<Rightarrow> nat \<Rightarrow> nat \<Rightarrow> nat" where
  "fill n p g = (if g \<le> p then p - g else n - g + p)"

text \<open>The waiting characters, oldest first.\<close>

definition queued :: "rx_fifo \<Rightarrow> u8 list" where
  "queued f = (let n = length (rx_buffer f); g = unat (get_index f)
     in map (\<lambda>i. rx_buffer f ! ((g + i) mod n)) [0..<fill n (unat (put_index f)) g])"

lemma length_queued: "length (queued f) = fill (length (rx_buffer f)) (unat (put_index f)) (unat (get_index f))"
  by (simp add: queued_def Let_def)

lemma fifo_open_ok: "2 \<le> bufsz \<Longrightarrow> fifo_ok bufsz (fifo_open bufsz) \<and> queued (fifo_open bufsz) = []"
  by (simp add: fifo_ok_def fifo_open_def queued_def Let_def fill_def word_less_nat_alt word_le_nat_alt)

lemma unat_next_index:
  assumes "i < bufsz"
  shows "unat (next_index bufsz i) = Suc (unat i) mod unat bufsz" and "next_index bufsz i < bufsz"
proof -
  have "unat i < unat bufsz" "unat bufsz < 65536"
    using assms unsigned_less [of bufsz] by (simp_all add: word_less_nat_alt)
  then have "unat (i + 1) = Suc (unat i)" by (simp add: unat_word_ariths)
  with \<open>unat i < unat bufsz\<close> show "unat (next_index bufsz i) = Suc (unat i) mod unat bufsz"
    by (auto simp: next_index_def word_le_nat_alt mod_Suc)
  with \<open>unat i < unat bufsz\<close> show "next_index bufsz i < bufsz"
    by (simp add: word_less_nat_alt)
qed

text \<open>The arithmetic of the two indices.\<close>

lemma fill_less: "p < n \<Longrightarrow> g < n \<Longrightarrow> fill n p g < n"
  by (auto simp: fill_def)

lemma fill_put: "p < n \<Longrightarrow> g < n \<Longrightarrow> (g + fill n p g) mod n = p"
  by (auto simp: fill_def)

lemma fill_put_next:
  "p < n \<Longrightarrow> g < n \<Longrightarrow> fill n (Suc p mod n) g = (if Suc p mod n = g then 0 else Suc (fill n p g))"
  by (auto simp: fill_def mod_Suc)

lemma fill_get_next: "p < n \<Longrightarrow> g < n \<Longrightarrow> p \<noteq> g \<Longrightarrow> fill n p g = Suc (fill n p (Suc g mod n))"
  by (auto simp: fill_def mod_Suc)

lemma fill_zero: "p < n \<Longrightarrow> g < n \<Longrightarrow> fill n p g = 0 \<longleftrightarrow> p = g"
  by (auto simp: fill_def)

lemma fill_around:
  "p < n \<Longrightarrow> g < n \<Longrightarrow> 2 \<le> n \<Longrightarrow> Suc p mod n = g \<Longrightarrow> fill n p g = n - 1 \<and> fill n g (Suc g mod n) = n - 1"
  by (auto simp: fill_def mod_Suc split: if_splits)

text \<open>A stretch of the ring.\<close>

definition stretch :: "'a list \<Rightarrow> nat \<Rightarrow> nat \<Rightarrow> nat \<Rightarrow> 'a list" where
  "stretch b n g k = map (\<lambda>i. b ! ((g + i) mod n)) [0..<k]"

lemma stretch_Suc: "stretch b n g (Suc k) = b ! (g mod n) # stretch b n (Suc g mod n) k"
  by (auto simp: stretch_def map_upt_Suc mod_simps simp del: upt_Suc)

lemma ring_apart:
  assumes "i < k" and "k < (n :: nat)"
  shows "(g + i) mod n \<noteq> (g + k) mod n"
proof
  assume "(g + i) mod n = (g + k) mod n"
  then have "n dvd (g + k) - (g + i)" using assms by (metis mod_eq_dvd_iff_nat add_le_cancel_left less_imp_le)
  then have "n dvd k - i" by simp
  with assms show False by (auto dest: dvd_imp_le)
qed

lemma stretch_other:
  assumes "k < n"
  shows "stretch (b[(g + k) mod n := x]) n g k = stretch b n g k"
proof -
  have "b[(g + k) mod n := x] ! ((g + i) mod n) = b ! ((g + i) mod n)" if "i < k" for i
    using ring_apart [OF that assms, of g] by (simp add: nth_list_update)
  then show ?thesis by (simp add: stretch_def)
qed

lemma stretch_snoc:
  "k < n \<Longrightarrow> length b = n \<Longrightarrow> stretch (b[(g + k) mod n := x]) n g (Suc k) = stretch b n g k @ [x]"
  using stretch_other [of k n b g x] by (simp add: stretch_def)

lemma queued_stretch:
  "queued f = stretch (rx_buffer f) (length (rx_buffer f)) (unat (get_index f))
     (fill (length (rx_buffer f)) (unat (put_index f)) (unat (get_index f)))"
  by (simp add: queued_def stretch_def Let_def)

lemma fifo_ok_nat:
  assumes "fifo_ok bufsz f"
  shows "2 \<le> unat bufsz" "length (rx_buffer f) = unat bufsz" "unat (put_index f) < unat bufsz"
    "unat (get_index f) < unat bufsz"
  using assms by (simp_all add: fifo_ok_def word_less_nat_alt word_le_nat_alt)

lemma isr_store_queued:
  assumes "fifo_ok bufsz f"
  shows "\<exists>f'. isr_store bufsz ch f = Inr f' \<and> fifo_ok bufsz f' \<and>
    queued f' = recent (unat bufsz - 1) (queued f @ [ch])"
proof -
  let ?n = "unat bufsz" and ?p = "unat (put_index f)" and ?g = "unat (get_index f)"
  let ?b = "(rx_buffer f)[?p := ch]" and ?p' = "next_index bufsz (put_index f)"
  note nat = fifo_ok_nat [OF assms]
  let ?k = "fill ?n ?p ?g"
  have k: "?k < ?n" "(?g + ?k) mod ?n = ?p" using nat by (simp_all add: fill_less fill_put)
  have idx: "put_index f < bufsz" "get_index f < bufsz" using assms by (simp_all add: fifo_ok_def)
  note p' = unat_next_index [OF idx(1)] and g' = unat_next_index [OF idx(2)]
  have snoc: "stretch ?b ?n ?g (Suc ?k) = queued f @ [ch]"
    using stretch_snoc [OF k(1) nat(2), of ?g ch] nat by (simp add: k(2) queued_stretch)
  have set: "arr_set (rx_buffer f) ?p ch = Inr ?b" using nat by (simp add: arr_set_def)
  show ?thesis
  proof (cases "?p' = get_index f")
    case False
    let ?f = "f\<lparr>rx_buffer := ?b, put_index := ?p'\<rparr>"
    from False have "Suc ?p mod ?n \<noteq> ?g" using p'(1) by (metis word_unat_eq_iff)
    then have "fill ?n (unat ?p') ?g = Suc ?k" using nat by (simp add: p'(1) fill_put_next)
    with snoc have q: "queued ?f = queued f @ [ch]" using nat by (simp add: queued_stretch)
    have "fill ?n (unat ?p') ?g < ?n" using nat p'(2) by (intro fill_less) (simp_all add: word_less_nat_alt)
    then have "length (queued f @ [ch]) \<le> ?n - 1"
      using \<open>fill ?n (unat ?p') ?g = Suc ?k\<close> nat by (simp add: length_queued)
    with q have "queued ?f = recent (?n - 1) (queued f @ [ch])" by simp
    moreover have "isr_store bufsz ch f = Inr ?f" using False by (simp add: isr_store_def set Let_def)
    moreover have "fifo_ok bufsz ?f" using assms False p'(2) by (auto simp: fifo_ok_def)
    ultimately show ?thesis by blast
  next
    case True
    let ?g' = "next_index bufsz (get_index f)"
    let ?f = "f\<lparr>rx_buffer := ?b, put_index := ?p', get_index := ?g', is_full := True\<rparr>"
    from True have "Suc ?p mod ?n = ?g" using p'(1) by simp
    with nat have fills: "?k = ?n - 1" "fill ?n ?g (Suc ?g mod ?n) = ?n - 1"
      using fill_around [of ?p ?n ?g] by simp_all
    have "queued ?f = stretch ?b ?n (Suc ?g mod ?n) (?n - 1)"
      using nat True by (simp add: queued_stretch g'(1) fills)
    also have "\<dots> = drop 1 (stretch ?b ?n ?g (Suc ?k))" by (simp add: stretch_Suc fills)
    also have "\<dots> = recent (?n - 1) (queued f @ [ch])"
      using nat by (simp only: snoc) (simp add: recent_def length_queued fills)
    finally have "queued ?f = recent (?n - 1) (queued f @ [ch])" .
    moreover have "isr_store bufsz ch f = Inr ?f" using True by (simp add: isr_store_def set Let_def)
    moreover have "fifo_ok bufsz ?f"
    proof -
      have "Suc ?g mod ?n \<noteq> ?g" using nat by (auto simp: mod_Suc)
      then have "?g' \<noteq> get_index f" using g'(1) by metis
      with assms True g'(2) show ?thesis by (auto simp: fifo_ok_def)
    qed
    ultimately show ?thesis by blast
  qed
qed

lemma serial_int_rx_queued:
  assumes "fifo_ok bufsz f"
  shows "\<exists>f'. serial_int_rx bufsz 1 f = Inr (take 1 (queued f), f') \<and> fifo_ok bufsz f' \<and>
    queued f' = drop 1 (queued f)"
proof -
  let ?n = "unat bufsz" and ?p = "unat (put_index f)" and ?g = "unat (get_index f)"
  note nat = fifo_ok_nat [OF assms]
  show ?thesis
  proof (cases "get_index f = put_index f")
    case True
    then have "\<not> is_full f" "queued f = []"
      using assms nat by (simp_all add: fifo_ok_def queued_stretch stretch_def fill_def)
    with True assms show ?thesis by simp
  next
    case False
    let ?f = "f\<lparr>get_index := next_index bufsz (get_index f), is_full := False\<rparr>"
    have idx: "get_index f < bufsz" using assms by (simp add: fifo_ok_def)
    note g' = unat_next_index [OF idx]
    from False have "?p \<noteq> ?g" by (metis word_unat_eq_iff)
    with nat have k: "fill ?n ?p ?g = Suc (fill ?n ?p (Suc ?g mod ?n))" by (intro fill_get_next)
    have "queued f = rx_buffer f ! ?g # queued ?f"
      using nat by (simp add: queued_stretch k stretch_Suc g'(1))
    moreover have "arr_get (rx_buffer f) ?g = Inr (rx_buffer f ! ?g)"
      using nat by (intro arr_get_in) simp
    moreover have "fifo_ok bufsz ?f" using assms g'(2) by (simp add: fifo_ok_def)
    ultimately show ?thesis using False by simp
  qed
qed

interpretation rx: recent_queue "fifo_ok bufsz" queued "isr_store bufsz" "serial_int_rx bufsz 1"
    "unat bufsz - 1" for bufsz
proof
  fix f :: rx_fifo and ch
  assume ok: "fifo_ok bufsz f"
  show "\<exists>f'. isr_store bufsz ch f = Inr f' \<and> fifo_ok bufsz f' \<and>
      queued f' = recent (unat bufsz - 1) (queued f @ [ch])"
    by (rule isr_store_queued [OF ok])
  show "\<exists>f'. serial_int_rx bufsz 1 f = Inr (take 1 (queued f), f') \<and> fifo_ok bufsz f' \<and>
      queued f' = drop 1 (queued f)"
    by (rule serial_int_rx_queued [OF ok])
  show "length (queued f) \<le> unat bufsz - 1"
    using fifo_ok_nat [OF ok] fill_less [of "unat (put_index f)" "unat bufsz" "unat (get_index f)"]
    by (simp add: length_queued)
qed

text \<open>What the interrupt and the control call report is the number of waiting characters.\<close>

lemma fill_fifo:
  assumes "fifo_ok bufsz f"
  shows "length (queued f) = (if get_index f \<le> put_index f then unat (put_index f) - unat (get_index f)
    else unat bufsz - unat (get_index f) + unat (put_index f))"
  using fifo_ok_nat [OF assms] by (simp add: length_queued fill_def word_le_nat_alt)

lemma unat_minus: "b \<le> a \<Longrightarrow> unat (a - b) = unat a - unat b" for a b :: u16
  by (simp add: unat_sub)

lemma unat_around:
  fixes a b c :: u16
  assumes "b < a" and "a \<le> c"
  shows "unat (c - (a - b)) = unat c - unat a + unat b"
proof -
  have "unat (a - b) = unat a - unat b" using assms(1) by (simp add: unat_minus)
  moreover have "a - b \<le> c" using assms calculation by (simp add: word_le_nat_alt word_less_nat_alt)
  ultimately show ?thesis using assms by (simp add: unat_minus word_le_nat_alt word_less_nat_alt)
qed

lemma isr_rx_length_queued:
  assumes "fifo_ok bufsz f"
  shows "unat (isr_rx_length bufsz f) = length (queued f)"
proof (cases "get_index f \<le> put_index f")
  case True
  then show ?thesis by (simp add: fill_fifo [OF assms] isr_rx_length_def unat_minus)
next
  case False
  moreover have "get_index f \<le> bufsz" using assms by (auto simp: fifo_ok_def)
  ultimately show ?thesis by (simp add: fill_fifo [OF assms] isr_rx_length_def unat_around)
qed

lemma calc_recved_len_queued:
  assumes "fifo_ok bufsz f"
  shows "unat (serial_fifo_calc_recved_len bufsz f) = length (queued f)"
proof -
  have "is_full f \<longrightarrow> put_index f \<noteq> get_index f" using assms by (simp add: fifo_ok_def)
  then have "serial_fifo_calc_recved_len bufsz f = isr_rx_length bufsz f"
    by (auto simp: serial_fifo_calc_recved_len_def isr_rx_length_def)
  then show ?thesis by (simp add: isr_rx_length_queued [OF assms])
qed

end
