(* ===== verification/Meter_Line.thy ===== *)
theory Meter_Line
  imports Meter_Lag Rtt_Sem Serial_Fifo "HOL-Library.Sublist"
begin

text \<open>
  How a character of the meter gets from the interrupt to the parser (\<^verbatim>\<open>uart_rx_ind\<close>,
  \<^verbatim>\<open>uart_sample_get_char\<close> and the loop of \<^verbatim>\<open>data_parsing\<close> in \<^verbatim>\<open>applications/MS_Uart.c\<close>): the interrupt
  stores into the ring of the serial device and releases the semaphore \<^verbatim>\<open>rx_sem\<close>, the thread
  \<^verbatim>\<open>serial\<close> empties the ring and waits at the semaphore. A step is what happens between two points
  at which the interrupt makes a difference; the other threads run in between, each of their
  operations as one step (theory \<open>Meter_Threads\<close> takes those apart).
\<close>

section \<open>The line as a system of interrupt, threads, ring and semaphore\<close>

text \<open>Where the thread \<^verbatim>\<open>serial\<close> stands: the calls of \<^verbatim>\<open>uart_sample_get_char\<close> and the loop's body.\<close>

datatype place = Reading | Parsing u8 | Resetting | Taking | Waiting

record line =
  rx_fifo :: rx_fifo
  rx_sem :: semaphore
  serial_at :: place
  parser :: "uart \<times> history"

definition RX_BUFSZ :: u16 where "RX_BUFSZ = 128"

definition serial_thread :: nat where "serial_thread = 0"

text \<open>
  \<^verbatim>\<open>uart_data_sample\<close>: the semaphore is 0, the device is open for reception by interrupt with the
  configured buffer, and the thread has started (its first statement leaves \<^verbatim>\<open>data_end\<close> 0).
\<close>

definition uart_data_sample :: "uart \<times> history \<Rightarrow> line" where
  "uart_data_sample p =
     \<lparr>rx_fifo = fifo_open RX_BUFSZ, rx_sem = rt_sem_init 0, serial_at = Reading, parser = p\<rparr>"

text \<open>A thread that a semaphore call resumed goes on behind its \<^verbatim>\<open>rt_sem_take\<close>.\<close>

definition resume :: "nat list \<times> semaphore \<Rightarrow> line \<Rightarrow> line" where
  "resume ts l =
     l\<lparr>rx_sem := snd ts,
       serial_at := (if serial_thread \<in> set (fst ts) then Reading else serial_at l)\<rparr>"

definition uart_rx_ind :: "u16 \<Rightarrow> line \<Rightarrow> line" where
  "uart_rx_ind rx_length l = (if 0 < rx_length then resume (rt_sem_release (rx_sem l)) l else l)"

text \<open>The interrupt with the characters it finds, \<^verbatim>\<open>RT_SERIAL_EVENT_RX_IND\<close> of \<^verbatim>\<open>rt_hw_serial_isr\<close>.\<close>

definition rt_hw_serial_isr :: "u8 list \<Rightarrow> line \<Rightarrow> line result" where
  "rt_hw_serial_isr chs l =
     map_r (\<lambda>f.
         let l = l\<lparr>rx_fifo := f\<rparr>; rx_length = isr_rx_length RX_BUFSZ f
         in if rx_length \<noteq> 0 then uart_rx_ind rx_length l else l)
       (fold_r (isr_store RX_BUFSZ) chs (rx_fifo l))"

text \<open>One step of the thread, \<^verbatim>\<open>uart_sample_get_char\<close> inlined into the loop.\<close>

definition serial_step :: "line \<Rightarrow> line result" where
  "serial_step l =
     (case serial_at l of
        Reading \<Rightarrow>
          map_r (\<lambda>(chs, f). l\<lparr>rx_fifo := f,
              serial_at := (case chs of [] \<Rightarrow> Resetting | ch # _ \<Rightarrow> Parsing ch)\<rparr>)
            (serial_int_rx RX_BUFSZ 1 (rx_fifo l))
      | Parsing ch \<Rightarrow>
          map_r (\<lambda>u. l\<lparr>serial_at := Reading, parser := (u, snd (parser l))\<rparr>)
            (data_parsing ch (fst (parser l)))
      | Resetting \<Rightarrow> Inr (resume (rt_sem_reset 0 (rx_sem l)) (l\<lparr>serial_at := Taking\<rparr>))
      | Taking \<Rightarrow>
          (case rt_sem_take serial_thread True (rx_sem l) of
             (Suspended, s) \<Rightarrow> Inr (l\<lparr>rx_sem := s, serial_at := Waiting\<rparr>)
           | (_, s) \<Rightarrow> Inr (l\<lparr>rx_sem := s, serial_at := Reading\<rparr>))
      | Waiting \<Rightarrow> Inr l)"

text \<open>
  What can happen next: the interrupt, a step of the thread, or an operation of another thread on
  the parser's variables (the timeout thread's period and the three requests).
\<close>

datatype line_event =
    Interrupt "u8 list" | SerialThread | TimeoutThread
  | CallSet nat "u8 list" nat | CallGet nat nat | CallValve

primrec line_step :: "env \<Rightarrow> line_event \<Rightarrow> line \<Rightarrow> line result" where
  "line_step e (Interrupt chs) l = rt_hw_serial_isr chs l"
| "line_step e SerialThread l = serial_step l"
| "line_step e TimeoutThread l =
     Inr (l\<lparr>parser := (data_timeout_parsing (fst (parser l)), snd (parser l))\<rparr>)"
| "line_step e (CallSet flag row n) l =
     map_r (\<lambda>p. l\<lparr>parser := p\<rparr>) (my_uart_SetData flag row n (parser l))"
| "line_step e (CallGet flag kind) l =
     map_r (\<lambda>p. l\<lparr>parser := p\<rparr>) (my_uart_GetData flag kind (parser l))"
| "line_step e CallValve l = map_r (\<lambda>p. l\<lparr>parser := p\<rparr>) (ms_open_valve e (parser l))"

section \<open>The invariant of the line\<close>

definition line_ok :: "line \<Rightarrow> bool" where
  "line_ok l \<longleftrightarrow> fifo_ok RX_BUFSZ (rx_fifo l) \<and> sem_ok (rx_sem l) \<and>
     suspend_thread (rx_sem l) = (if serial_at l = Waiting then [serial_thread] else [])"

lemma line_ok_start: "line_ok (uart_data_sample p)"
  using fifo_open_ok [of RX_BUFSZ]
  by (simp add: line_ok_def uart_data_sample_def rt_sem_init_def sem_ok_def RX_BUFSZ_def word_le_nat_alt)

lemmas stored = rx.enq_all [of RX_BUFSZ]
lemmas taken = rx.deq_law [of RX_BUFSZ]

text \<open>The interrupt: the ring takes the characters, a waiting thread goes on.\<close>

lemma isr_state:
  assumes "line_ok l"
  shows "\<exists>l'. rt_hw_serial_isr chs l = Inr l' \<and> line_ok l' \<and> parser l' = parser l \<and>
    queued (rx_fifo l') = recent (unat RX_BUFSZ - 1) (queued (rx_fifo l) @ chs) \<and>
    serial_at l' = (if queued (rx_fifo l') \<noteq> [] \<and> serial_at l = Waiting then Reading else serial_at l) \<and>
    sem_value (rx_sem l') = (if queued (rx_fifo l') \<noteq> [] \<and> serial_at l \<noteq> Waiting
      then sem_value (rx_sem l) + 1 else sem_value (rx_sem l))"
proof -
  from assms have ok: "fifo_ok RX_BUFSZ (rx_fifo l)" by (simp add: line_ok_def)
  from stored [OF ok, of chs] obtain f where f: "fold_r (isr_store RX_BUFSZ) chs (rx_fifo l) = Inr f"
    "fifo_ok RX_BUFSZ f" "queued f = recent (unat RX_BUFSZ - 1) (queued (rx_fifo l) @ chs)"
    by blast
  have len: "isr_rx_length RX_BUFSZ f = 0 \<longleftrightarrow> queued f = []"
    using isr_rx_length_queued [OF f(2)] by (simp add: unat_eq_0 [symmetric])
  show ?thesis
    using assms f(2,3)
    by (auto simp: rt_hw_serial_isr_def f(1) Let_def len uart_rx_ind_def resume_def rt_sem_release_def
        line_ok_def sem_ok_def word_gt_0 split: list.splits if_splits)
qed

section \<open>What the parser gets\<close>

text \<open>The characters an event brings in, and those a parser event takes.\<close>

primrec arrivals :: "line_event \<Rightarrow> u8 list" where
  "arrivals (Interrupt chs) = chs"
| "arrivals SerialThread = []"
| "arrivals TimeoutThread = []"
| "arrivals (CallSet flag row n) = []"
| "arrivals (CallGet flag kind) = []"
| "arrivals CallValve = []"

primrec characters :: "uart_event \<Rightarrow> u8 list" where
  "characters (RxChar ch) = [ch]"
| "characters TimeoutTick = []"
| "characters (SetRequest flag row n) = []"
| "characters (GetRequest flag kind) = []"
| "characters ValveRequest = []"

text \<open>The parser's own events among those of the line.\<close>

primrec operations :: "line_event \<Rightarrow> uart_event list" where
  "operations (Interrupt chs) = []"
| "operations SerialThread = []"
| "operations TimeoutThread = [TimeoutTick]"
| "operations (CallSet flag row n) = [SetRequest flag row n]"
| "operations (CallGet flag kind) = [GetRequest flag kind]"
| "operations CallValve = [ValveRequest]"

definition arrived :: "line_event list \<Rightarrow> u8 list" where
  "arrived evs = concat (map arrivals evs)"

definition received :: "uart_event list \<Rightarrow> u8 list" where
  "received us = concat (map characters us)"

text \<open>The characters that came in and are not parsed yet.\<close>

definition pending :: "line \<Rightarrow> u8 list" where
  "pending l = (case serial_at l of Parsing ch \<Rightarrow> [ch] | _ \<Rightarrow> []) @ queued (rx_fifo l)"

text \<open>\<open>us\<close> are parser events that explain the step from \<open>l\<close> to \<open>l'\<close>.\<close>

definition explains :: "env \<Rightarrow> line \<Rightarrow> u8 list \<Rightarrow> uart_event list \<Rightarrow> uart_event list \<Rightarrow> line \<Rightarrow> bool" where
  "explains e l new ops us l' \<longleftrightarrow>
     fold_r (uart_step e) us (parser l) = Inr (parser l') \<and>
     filter (\<lambda>u. characters u = []) us = ops \<and>
     subseq (received us @ pending l') (pending l @ new) \<and>
     (length (pending l @ new) < unat RX_BUFSZ \<longrightarrow> received us @ pending l' = pending l @ new)"

lemma subseq_recent: "subseq (recent k xs) xs"
  by (simp add: recent_def sublist_imp_subseq)

lemma interrupt_explained:
  assumes "line_ok l" and "line_step e (Interrupt chs) l = Inr l'"
  shows "line_ok l' \<and> explains e l chs [] [] l'"
proof -
  let ?k = "unat RX_BUFSZ - 1" and ?in = "case serial_at l of Parsing ch \<Rightarrow> [ch] | _ \<Rightarrow> []"
  from isr_state [OF assms(1), of chs] assms(2) have l': "line_ok l'" "parser l' = parser l"
    "queued (rx_fifo l') = recent ?k (queued (rx_fifo l) @ chs)"
    "serial_at l' = (if queued (rx_fifo l') \<noteq> [] \<and> serial_at l = Waiting then Reading else serial_at l)"
    by auto
  then have p: "pending l' = ?in @ recent ?k (queued (rx_fifo l) @ chs)"
    by (auto simp: pending_def split: place.splits)
  have "subseq (pending l') (pending l @ chs)"
    by (simp add: p pending_def [of l] subseq_recent list_emb_append_mono)
  moreover have "pending l' = pending l @ chs" if "length (pending l @ chs) < unat RX_BUFSZ"
  proof -
    from that have "length (queued (rx_fifo l) @ chs) \<le> ?k" by (simp add: pending_def)
    then show ?thesis by (simp add: p pending_def [of l])
  qed
  ultimately show ?thesis using l'(1,2) by (simp add: explains_def received_def)
qed

lemma thread_explained:
  assumes "line_ok l" and "line_step e SerialThread l = Inr l'"
  shows "line_ok l' \<and> (\<exists>us. explains e l [] [] us l')"
proof (cases "serial_at l")
  case Reading
  from assms(1) have "fifo_ok RX_BUFSZ (rx_fifo l)" by (simp add: line_ok_def)
  from taken [OF this] obtain f where f: "serial_int_rx RX_BUFSZ 1 (rx_fifo l) = Inr (take 1 (queued (rx_fifo l)), f)"
    "fifo_ok RX_BUFSZ f" "queued f = drop 1 (queued (rx_fifo l))" by blast
  with Reading assms have "line_ok l' \<and> explains e l [] [] [] l'"
    by (cases "queued (rx_fifo l)")
      (auto simp: serial_step_def line_ok_def explains_def received_def pending_def)
  then show ?thesis by blast
next
  case (Parsing ch)
  with assms have "line_ok l' \<and> explains e l [] [] [RxChar ch] l'"
    by (auto simp: serial_step_def line_ok_def explains_def received_def pending_def map_r_eq_Inr uart_step_def)
  then show ?thesis by blast
next
  case Resetting
  with assms have "line_ok l' \<and> explains e l [] [] [] l'"
    by (auto simp: serial_step_def line_ok_def explains_def received_def pending_def resume_def
        rt_sem_reset_def sem_ok_def)
  then show ?thesis by blast
next
  case Taking
  with assms have "line_ok l' \<and> explains e l [] [] [] l'"
    by (auto simp: serial_step_def line_ok_def explains_def received_def pending_def
        rt_sem_take_def sem_ok_def word_gt_0 split: if_splits)
  then show ?thesis by blast
next
  case Waiting
  with assms have "line_ok l' \<and> explains e l [] [] [] l'"
    by (auto simp: serial_step_def explains_def received_def)
  then show ?thesis by blast
qed

lemma step_explained:
  assumes "line_ok l" and "line_step e ev l = Inr l'"
  shows "line_ok l' \<and> (\<exists>us. explains e l (arrivals ev) (operations ev) us l')"
proof -
  have other: "line_ok (l\<lparr>parser := p\<rparr>) \<and> (\<exists>us. explains e l [] [u] us (l\<lparr>parser := p\<rparr>))"
    if "uart_step e u (parser l) = Inr p" "characters u = []" for u p
  proof -
    have "explains e l [] [u] [u] (l\<lparr>parser := p\<rparr>)"
      using that by (simp add: explains_def received_def pending_def)
    moreover have "line_ok (l\<lparr>parser := p\<rparr>)" using assms(1) by (simp add: line_ok_def)
    ultimately show ?thesis by blast
  qed
  show ?thesis
  proof (cases ev)
    case (Interrupt chs)
    with interrupt_explained [OF assms(1), of e chs l'] assms(2) show ?thesis by auto
  next
    case SerialThread
    with thread_explained [OF assms(1), of e l'] assms(2) show ?thesis by auto
  next
    case TimeoutThread
    with other [of TimeoutTick] assms(2) show ?thesis by (auto simp: uart_step_def)
  next
    case (CallSet flag row n)
    with other [of "SetRequest flag row n"] assms(2) show ?thesis
      by (auto simp: uart_step_def map_r_eq_Inr)
  next
    case (CallGet flag kind)
    with other [of "GetRequest flag kind"] assms(2) show ?thesis
      by (auto simp: uart_step_def map_r_eq_Inr)
  next
    case CallValve
    with other [of ValveRequest] assms(2) show ?thesis by (auto simp: uart_step_def map_r_eq_Inr)
  qed
qed

interpretation meter_line: step_invariant "\<lambda>l. \<exists>p. l = uart_data_sample p" "line_step e" line_ok for e
  by unfold_locales (use line_ok_start in blast, use step_explained in blast)

text \<open>At every step the characters that come in have room behind those that wait.\<close>

definition never_full :: "env \<Rightarrow> line_event list \<Rightarrow> line \<Rightarrow> bool" where
  "never_full e evs l \<longleftrightarrow>
     (\<forall>n < length evs. \<forall>l'. fold_r (line_step e) (take n evs) l = Inr l' \<longrightarrow>
        length (pending l' @ arrivals (evs ! n)) < unat RX_BUFSZ)"

lemma never_full_snoc:
  "never_full e (evs @ [ev]) l \<longleftrightarrow> never_full e evs l \<and>
     (\<forall>l'. fold_r (line_step e) evs l = Inr l' \<longrightarrow> length (pending l' @ arrivals ev) < unat RX_BUFSZ)"
  by (auto simp: never_full_def nth_append less_Suc_eq all_conj_distrib)

lemma run_explained:
  assumes "fold_r (line_step e) evs (uart_data_sample p) = Inr l"
  shows "\<exists>us. fold_r (uart_step e) us p = Inr (parser l) \<and>
    filter (\<lambda>u. characters u = []) us = concat (map operations evs) \<and>
    subseq (received us @ pending l) (arrived evs) \<and>
    (never_full e evs (uart_data_sample p) \<longrightarrow> received us @ pending l = arrived evs)"
  using assms
proof (induction evs arbitrary: l rule: rev_induct)
  case Nil
  have "pending (uart_data_sample p) = []"
    using fifo_open_ok [of RX_BUFSZ]
    by (simp add: pending_def uart_data_sample_def RX_BUFSZ_def word_le_nat_alt)
  with Nil show ?case by (intro exI [of _ "[]"]) (auto simp: arrived_def received_def uart_data_sample_def)
next
  case (snoc ev evs)
  let ?l0 = "uart_data_sample p"
  from snoc.prems obtain l1 where l1: "fold_r (line_step e) evs ?l0 = Inr l1" "line_step e ev l1 = Inr l"
    by (auto simp: fold_r_append bind_r_eq_Inr)
  from snoc.IH [OF l1(1)] obtain us where us: "fold_r (uart_step e) us p = Inr (parser l1)"
    "filter (\<lambda>u. characters u = []) us = concat (map operations evs)"
    "subseq (received us @ pending l1) (arrived evs)"
    "never_full e evs ?l0 \<Longrightarrow> received us @ pending l1 = arrived evs"
    by blast
  have "line_ok l1" using meter_line.inv_reachable [OF _ l1(1)] by blast
  from step_explained [OF this l1(2)] obtain vs where vs: "fold_r (uart_step e) vs (parser l1) = Inr (parser l)"
    "filter (\<lambda>u. characters u = []) vs = operations ev"
    "subseq (received vs @ pending l) (pending l1 @ arrivals ev)"
    "length (pending l1 @ arrivals ev) < unat RX_BUFSZ \<Longrightarrow> received vs @ pending l = pending l1 @ arrivals ev"
    by (auto simp: explains_def)
  have "subseq (received us @ received vs @ pending l) (received us @ pending l1 @ arrivals ev)"
    by (rule list_emb_append_mono [OF _ vs(3)]) simp
  moreover have "subseq ((received us @ pending l1) @ arrivals ev) (arrived evs @ arrivals ev)"
    by (rule list_emb_append_mono [OF us(3)]) simp
  ultimately have "subseq (received (us @ vs) @ pending l) (arrived (evs @ [ev]))"
    by (auto simp: received_def arrived_def intro: subseq_order.trans)
  moreover have "received (us @ vs) @ pending l = arrived (evs @ [ev])" if "never_full e (evs @ [ev]) ?l0"
    using that us(4) vs(4) l1(1) by (simp add: never_full_snoc received_def arrived_def)
  ultimately show ?case
    using us(1,2) vs(1,2) by (intro exI [of _ "us @ vs"]) (simp add: fold_r_append)
qed

text \<open>
  C24: However interrupts, the steps of the receive thread and the program's other threads
  interleave, what the parser does is what it does when it is handed single characters (the
  abstract line): the requests and periods happen in their order, the characters are those the
  interrupts brought in their order, and as long as the ring of 128 has room none is missing.
\<close>

theorem line_refines:
  assumes "fold_r (line_step e) evs (uart_data_sample p) = Inr l"
  shows "\<exists>us. fold_r (uart_step e) us p = Inr (parser l) \<and>
    filter (\<lambda>u. characters u = []) us = concat (map operations evs) \<and>
    subseq (received us @ pending l) (arrived evs) \<and>
    (never_full e evs (uart_data_sample p) \<longrightarrow> received us @ pending l = arrived evs)"
  by (rule run_explained [OF assms])

definition sample_run :: "line_event list" where
  "sample_run = [CallGet 2 0, SerialThread, SerialThread, Interrupt (bytes ''@A''), SerialThread,
     SerialThread, SerialThread, SerialThread, TimeoutThread, SerialThread, Interrupt (bytes ''I''),
     SerialThread, SerialThread, SerialThread]"

lemma sample_run_parser:
  "case fold_r (line_step bench) sample_run (uart_data_sample (uart_boot, [])) of
     Inl _ \<Rightarrow> False | Inr l \<Rightarrow> data_len (fst (parser l)) = 3 \<and> serial_at l = Resetting"
  by code_simp

theorem line_refines_witness:
  "\<exists>us l. fold_r (line_step bench) sample_run (uart_data_sample (uart_boot, [])) = Inr l \<and>
     fold_r (uart_step bench) us (uart_boot, []) = Inr (parser l) \<and> data_len (fst (parser l)) = 3 \<and>
     subseq (received us @ pending l) (bytes ''@AI'')"
proof -
  obtain l where l: "fold_r (line_step bench) sample_run (uart_data_sample (uart_boot, [])) = Inr l"
    "data_len (fst (parser l)) = 3"
    using sample_run_parser by (auto split: sum.splits)
  have "arrived sample_run = bytes ''@AI''" by code_simp
  with line_refines [OF l(1)] l show ?thesis by auto
qed

section \<open>The thread keeps up\<close>

lemma read_one:
  assumes "line_ok l" and "serial_at l = Reading"
  shows "\<exists>l'. serial_step l = Inr l' \<and> line_ok l' \<and> parser l' = parser l \<and>
    queued (rx_fifo l') = drop 1 (queued (rx_fifo l)) \<and>
    serial_at l' = (case queued (rx_fifo l) of [] \<Rightarrow> Resetting | ch # _ \<Rightarrow> Parsing ch)"
proof -
  from assms(1) have "fifo_ok RX_BUFSZ (rx_fifo l)" by (simp add: line_ok_def)
  from taken [OF this] obtain f where "serial_int_rx RX_BUFSZ 1 (rx_fifo l) = Inr (take 1 (queued (rx_fifo l)), f)"
    "fifo_ok RX_BUFSZ f" "queued f = drop 1 (queued (rx_fifo l))" by blast
  with assms show ?thesis
    by (cases "queued (rx_fifo l)") (auto simp: serial_step_def line_ok_def)
qed

lemma drains:
  assumes "line_ok l" and "serial_at l = Reading"
    and "fold_r data_parsing (queued (rx_fifo l)) (fst (parser l)) = Inr u"
  shows "\<exists>l'. fold_r (line_step e) (replicate (2 * length (queued (rx_fifo l)) + 3) SerialThread) l = Inr l' \<and>
    line_ok l' \<and> serial_at l' = Waiting \<and> queued (rx_fifo l') = [] \<and> parser l' = (u, snd (parser l))"
  using assms
proof (induction "queued (rx_fifo l)" arbitrary: l)
  case Nil
  from read_one [OF Nil.prems(1,2)] Nil.hyps obtain l1 where l1: "serial_step l = Inr l1" "line_ok l1"
    "parser l1 = parser l" "queued (rx_fifo l1) = []" "serial_at l1 = Resetting" by auto
  let ?l2 = "l1\<lparr>rx_sem := rt_sem_init 0, serial_at := Taking\<rparr>"
  let ?l3 = "l1\<lparr>rx_sem := \<lparr>sem_value = 0, suspend_thread = [serial_thread]\<rparr>, serial_at := Waiting\<rparr>"
  have "serial_step l1 = Inr ?l2"
    using l1(2,5) by (simp add: serial_step_def resume_def rt_sem_reset_def rt_sem_init_def line_ok_def)
  moreover have "serial_step ?l2 = Inr ?l3"
    by (simp add: serial_step_def rt_sem_take_def rt_sem_init_def)
  moreover have "line_ok ?l3" using l1(2) by (simp add: line_ok_def sem_ok_def)
  ultimately show ?case
    using l1(1,3,4) Nil.prems(3) Nil.hyps by (simp add: numeral_3_eq_3 prod_eq_iff)
next
  case (Cons ch chs)
  have q: "queued (rx_fifo l) = ch # chs" using Cons.hyps(2) by simp
  from read_one [OF Cons.prems(1,2)] obtain l1 where l1: "serial_step l = Inr l1"
    "line_ok l1" "parser l1 = parser l" "queued (rx_fifo l1) = chs" "serial_at l1 = Parsing ch"
    by (auto simp: q)
  from Cons.prems(3) obtain u1 where u1: "data_parsing ch (fst (parser l)) = Inr u1"
    "fold_r data_parsing chs u1 = Inr u" by (auto simp: bind_r_eq_Inr q)
  let ?l2 = "l1\<lparr>serial_at := Reading, parser := (u1, snd (parser l))\<rparr>"
  have "serial_step l1 = Inr ?l2" using l1(3,5) u1(1) by (simp add: serial_step_def)
  moreover have "line_ok ?l2" using l1(2,5) by (simp add: line_ok_def)
  moreover have "2 * length (queued (rx_fifo l)) + 3 = Suc (Suc (2 * length chs + 3))" by (simp add: q)
  ultimately show ?case
    using Cons.hyps(1) [of ?l2] l1(1,4) u1(2) by (simp only: replicate_Suc) simp
qed

lemma interrupt_served:
  assumes "line_ok l" and "serial_at l = Waiting" and "chs \<noteq> []"
    and "length (queued (rx_fifo l) @ chs) < unat RX_BUFSZ"
    and "fold_r data_parsing (queued (rx_fifo l) @ chs) (fst (parser l)) = Inr u"
  shows "\<exists>l'. fold_r (line_step e) (Interrupt chs #
      replicate (2 * length (queued (rx_fifo l) @ chs) + 3) SerialThread) l = Inr l' \<and>
    line_ok l' \<and> serial_at l' = Waiting \<and> queued (rx_fifo l') = [] \<and> parser l' = (u, snd (parser l))"
proof -
  have "length (queued (rx_fifo l) @ chs) \<le> unat RX_BUFSZ - 1" using assms(4) by simp
  with isr_state [OF assms(1), of chs] assms(2,3) obtain l1 where l1: "rt_hw_serial_isr chs l = Inr l1" "line_ok l1"
    "parser l1 = parser l" "queued (rx_fifo l1) = queued (rx_fifo l) @ chs" "serial_at l1 = Reading"
    by auto
  show ?thesis using drains [OF l1(2,5), of u e] assms(5) l1(1,3,4) by simp
qed

text \<open>
  A waiting receive thread is woken by the next interrupt: after two steps for each character
  that waits and three more, all of them are parsed, in order, and the thread waits again with an
  empty ring.
\<close>

theorem interrupt_drains:
  assumes "fold_r (line_step e) evs (uart_data_sample p) = Inr l"
    and "serial_at l = Waiting" and "chs \<noteq> []"
    and "length (queued (rx_fifo l) @ chs) < unat RX_BUFSZ"
    and "fold_r data_parsing (queued (rx_fifo l) @ chs) (fst (parser l)) = Inr u"
  shows "\<exists>l'. fold_r (line_step e) (Interrupt chs #
      replicate (2 * length (queued (rx_fifo l) @ chs) + 3) SerialThread) l = Inr l' \<and>
    serial_at l' = Waiting \<and> queued (rx_fifo l') = [] \<and> parser l' = (u, snd (parser l))"
proof -
  have "line_ok l" using meter_line.inv_reachable [OF _ assms(1)] by blast
  from interrupt_served [OF this assms(2-)] show ?thesis by blast
qed

definition waiting_run :: "line_event list" where
  "waiting_run = [CallGet 2 0, SerialThread, SerialThread, SerialThread]"

theorem interrupt_drains_witness:
  "\<exists>l l'. fold_r (line_step bench) waiting_run (uart_data_sample (uart_boot, [])) = Inr l \<and>
     fold_r (line_step bench) (Interrupt (bytes ''@A'') # replicate 7 SerialThread) l = Inr l' \<and>
     serial_at l' = Waiting \<and> queued (rx_fifo l') = [] \<and> data_len (fst (parser l')) = 2"
proof -
  have "case fold_r (line_step bench) waiting_run (uart_data_sample (uart_boot, [])) of
     Inl _ \<Rightarrow> False
   | Inr l \<Rightarrow> serial_at l = Waiting \<and> queued (rx_fifo l) = [] \<and>
       (case fold_r data_parsing (bytes ''@A'') (fst (parser l)) of
          Inl _ \<Rightarrow> False | Inr u \<Rightarrow> data_len u = 2)"
    by code_simp
  then obtain l u where l: "fold_r (line_step bench) waiting_run (uart_data_sample (uart_boot, [])) = Inr l"
    "serial_at l = Waiting" "queued (rx_fifo l) = []"
    "fold_r data_parsing (bytes ''@A'') (fst (parser l)) = Inr u" "data_len u = 2"
    by (auto split: sum.splits)
  from interrupt_drains [OF l(1,2), of "bytes ''@A''" u] l(3-5) have
    "\<exists>l'. fold_r (line_step bench) (Interrupt (bytes ''@A'') # replicate 7 SerialThread) l = Inr l' \<and>
       serial_at l' = Waiting \<and> queued (rx_fifo l') = [] \<and> parser l' = (u, snd (parser l))"
    by (simp add: RX_BUFSZ_def)
  with l(1,5) show ?thesis by auto
qed

section \<open>An answer in any number of pieces\<close>

text \<open>
  When the thread will see the characters that wait: it is not about to sleep over them, unless the
  semaphore was released since it was reset.
\<close>

definition alert :: "line \<Rightarrow> bool" where
  "alert l \<longleftrightarrow> line_ok l \<and> length (pending l) < unat RX_BUFSZ \<and>
     (serial_at l \<in> {Resetting, Waiting} \<longrightarrow> queued (rx_fifo l) = []) \<and>
     (serial_at l = Taking \<longrightarrow> unat (sem_value (rx_sem l)) \<le> length (queued (rx_fifo l)) \<and>
        (queued (rx_fifo l) \<noteq> [] \<longrightarrow> sem_value (rx_sem l) \<noteq> 0))"

text \<open>
  Only interrupts, the receive thread and periods of the timeout thread happen; no interrupt falls
  between the read that found the ring empty and the reset of the semaphore, each finds room in the
  ring for its characters, and the timeout does not run down while the answer is awaited.
\<close>

primrec timely_event :: "line_event \<Rightarrow> line \<Rightarrow> bool" where
  "timely_event (Interrupt chs) l =
     (chs \<noteq> [] \<and> serial_at l \<noteq> Resetting \<and> length (pending l @ chs) < unat RX_BUFSZ)"
| "timely_event SerialThread l = True"
| "timely_event TimeoutThread l =
     (uart_flag (fst (parser l)) \<noteq> UART_WAIT \<or> 1 < uart_timeot (fst (parser l)))"
| "timely_event (CallSet flag row n) l = False"
| "timely_event (CallGet flag kind) l = False"
| "timely_event CallValve l = False"

fun timely :: "env \<Rightarrow> line_event list \<Rightarrow> line \<Rightarrow> bool" where
  "timely e [] l = True"
| "timely e (ev # evs) l =
     (timely_event ev l \<and> (case line_step e ev l of Inl _ \<Rightarrow> True | Inr l' \<Rightarrow> timely e evs l'))"

text \<open>Nothing waits before the request, so a release that counts was not yet made.\<close>

interpretation meter_taking: step_invariant "\<lambda>l. \<exists>p. l = uart_data_sample p" "line_step e"
  "\<lambda>l. line_ok l \<and> (serial_at l = Taking \<longrightarrow> queued (rx_fifo l) = [] \<longrightarrow> sem_value (rx_sem l) = 0)" for e
proof
  fix l
  assume "\<exists>p. l = uart_data_sample p"
  then show "line_ok l \<and> (serial_at l = Taking \<longrightarrow> queued (rx_fifo l) = [] \<longrightarrow> sem_value (rx_sem l) = 0)"
    using line_ok_start by (auto simp: uart_data_sample_def)
next
  fix ev l l'
  assume inv: "line_ok l \<and> (serial_at l = Taking \<longrightarrow> queued (rx_fifo l) = [] \<longrightarrow> sem_value (rx_sem l) = 0)"
    and run: "line_step e ev l = Inr l'"
  then have "line_ok l'" using step_explained by blast
  moreover have "sem_value (rx_sem l') = 0" if at: "serial_at l' = Taking" "queued (rx_fifo l') = []"
  proof (cases ev)
    case (Interrupt chs)
    with isr_state [of l chs] inv run at have l': "serial_at l = Taking"
      "sem_value (rx_sem l') = sem_value (rx_sem l)"
      "length (recent (unat RX_BUFSZ - 1) (queued (rx_fifo l) @ chs)) = 0" by (auto split: if_splits)
    from l'(3) have "queued (rx_fifo l) = []"
      by (cases "queued (rx_fifo l)") (simp_all add: recent_def RX_BUFSZ_def)
    with inv l'(1,2) show ?thesis by simp
  next
    case SerialThread
    have "serial_at l \<noteq> Reading"
      using read_one [of l] inv run at SerialThread by (auto split: list.splits)
    with SerialThread inv run at show ?thesis
      by (cases "serial_at l")
        (auto simp: serial_step_def map_r_eq_Inr resume_def rt_sem_reset_def rt_sem_take_def
          split: if_splits)
  qed (use inv run that in \<open>auto simp: map_r_eq_Inr\<close>)
  ultimately show "line_ok l' \<and> (serial_at l' = Taking \<longrightarrow> queued (rx_fifo l') = [] \<longrightarrow> sem_value (rx_sem l') = 0)"
    by blast
qed

text \<open>The release of an interrupt that finds nobody waiting.\<close>

lemma isr_alert:
  assumes "alert l" and "serial_at l \<noteq> Resetting" and "chs \<noteq> []" and "length (pending l @ chs) < unat RX_BUFSZ"
  shows "\<exists>l'. rt_hw_serial_isr chs l = Inr l' \<and> alert l' \<and> parser l' = parser l \<and>
    pending l' = pending l @ chs"
proof -
  have len: "length (queued (rx_fifo l) @ chs) \<le> unat RX_BUFSZ - 1"
    using assms(4) by (simp add: pending_def)
  have "line_ok l" using assms(1) by (simp add: alert_def)
  from isr_state [OF this, of chs] len obtain l' where l': "rt_hw_serial_isr chs l = Inr l'" "line_ok l'"
    "parser l' = parser l" "queued (rx_fifo l') = queued (rx_fifo l) @ chs"
    "serial_at l' = (if serial_at l = Waiting then Reading else serial_at l)"
    "sem_value (rx_sem l') = (if serial_at l \<noteq> Waiting then sem_value (rx_sem l) + 1 else sem_value (rx_sem l))"
    using assms(3) by auto
  have pend: "pending l' = pending l @ chs" using l'(4,5) by (auto simp: pending_def)
  have "unat (sem_value (rx_sem l')) \<le> length (queued (rx_fifo l')) \<and> sem_value (rx_sem l') \<noteq> 0"
    if "serial_at l' = Taking"
  proof -
    from that l'(5) have at: "serial_at l = Taking" by (auto split: if_splits)
    with assms(1) have "unat (sem_value (rx_sem l)) \<le> length (queued (rx_fifo l))" by (simp add: alert_def)
    moreover have "0 < length chs" "length (queued (rx_fifo l)) + length chs \<le> 127"
      using assms(3) len by (simp_all add: RX_BUFSZ_def)
    ultimately have "unat (sem_value (rx_sem l)) < 127" "0 < length chs" by linarith+
    then have "unat (sem_value (rx_sem l')) = Suc (unat (sem_value (rx_sem l)))"
      using l'(6) at by (simp add: unat_word_ariths)
    with \<open>unat (sem_value (rx_sem l)) \<le> length (queued (rx_fifo l))\<close> assms(3) l'(4)
    show ?thesis by (cases chs) (simp_all add: unat_eq_0 [symmetric])
  qed
  then have "alert l'"
    using l'(2,5) pend assms(2,4) by (auto simp: alert_def split: if_splits)
  with l'(1,3) pend show ?thesis by blast
qed

lemma thread_alert:
  assumes "alert l" and "fold_r data_parsing (pending l) (fst (parser l)) = Inr u"
  shows "\<exists>l'. serial_step l = Inr l' \<and> alert l' \<and> snd (parser l') = snd (parser l) \<and>
    fold_r data_parsing (pending l') (fst (parser l')) = Inr u"
proof (cases "serial_at l")
  case Reading
  from assms(1) have "line_ok l" by (simp add: alert_def)
  from read_one [OF this Reading] obtain l' where l': "serial_step l = Inr l'" "line_ok l'"
    "parser l' = parser l" "queued (rx_fifo l') = drop 1 (queued (rx_fifo l))"
    "serial_at l' = (case queued (rx_fifo l) of [] \<Rightarrow> Resetting | ch # _ \<Rightarrow> Parsing ch)" by blast
  have pend: "pending l' = pending l"
    using Reading l'(4,5) by (cases "queued (rx_fifo l)") (simp_all add: pending_def)
  with l' assms have "alert l'" by (cases "queued (rx_fifo l)") (auto simp: alert_def)
  with l' pend assms(2) show ?thesis by auto
next
  case (Parsing ch)
  with assms obtain u1 where "data_parsing ch (fst (parser l)) = Inr u1"
    "fold_r data_parsing (queued (rx_fifo l)) u1 = Inr u" by (auto simp: pending_def bind_r_eq_Inr)
  with Parsing assms(1) show ?thesis by (auto simp: serial_step_def alert_def line_ok_def pending_def)
next
  case Resetting
  with assms show ?thesis
    by (auto simp: serial_step_def alert_def line_ok_def pending_def resume_def rt_sem_reset_def sem_ok_def)
next
  case Taking
  with assms show ?thesis
    by (cases "sem_value (rx_sem l) = 0")
      (auto simp: serial_step_def alert_def line_ok_def pending_def rt_sem_take_def sem_ok_def word_gt_0)
next
  case Waiting
  with assms show ?thesis by (auto simp: serial_step_def)
qed

text \<open>A stretch of the run: what waits, and what still comes, goes into the parser.\<close>

lemma timely_run:
  assumes "alert l" and "timely e evs l"
    and "fold_r data_parsing (pending l) (fst (parser l)) = Inr u" and "lags u v"
    and "fold_r data_parsing (arrived evs) v = Inr w"
  shows "\<exists>l' u'. fold_r (line_step e) evs l = Inr l' \<and> alert l' \<and>
    fold_r data_parsing (pending l') (fst (parser l')) = Inr u' \<and> lags u' w"
  using assms
proof (induction evs arbitrary: l u v)
  case Nil
  then show ?case by (auto simp: arrived_def)
next
  case (Cons ev evs)
  have now: "timely_event ev l" using Cons.prems(2) by simp
  have "\<exists>l1 u1 v1. line_step e ev l = Inr l1 \<and> alert l1 \<and>
    fold_r data_parsing (pending l1) (fst (parser l1)) = Inr u1 \<and> lags u1 v1 \<and>
    fold_r data_parsing (arrived evs) v1 = Inr w"
  proof (cases ev)
    case (Interrupt chs)
    with isr_alert [OF Cons.prems(1), of chs] now obtain l1 where l1:
      "line_step e ev l = Inr l1" "alert l1" "parser l1 = parser l" "pending l1 = pending l @ chs" by auto
    from Cons.prems(5) Interrupt obtain v1 where v1: "fold_r data_parsing chs v = Inr v1"
      "fold_r data_parsing (arrived evs) v1 = Inr w" by (auto simp: arrived_def fold_r_append bind_r_eq_Inr)
    from lags_chars [OF Cons.prems(4) v1(1)] obtain u1 where "fold_r data_parsing chs u = Inr u1" "lags u1 v1"
      by blast
    with l1 v1(2) Cons.prems(3) Interrupt show ?thesis
      by (intro exI [of _ l1] exI [of _ u1] exI [of _ v1]) (simp add: arrived_def fold_r_append)
  next
    case SerialThread
    from thread_alert [OF Cons.prems(1,3)] obtain l1 where l1: "serial_step l = Inr l1" "alert l1"
      "fold_r data_parsing (pending l1) (fst (parser l1)) = Inr u" by blast
    with Cons.prems(4,5) SerialThread show ?thesis by (auto simp: arrived_def)
  next
    case TimeoutThread
    let ?l1 = "l\<lparr>parser := (data_timeout_parsing (fst (parser l)), snd (parser l))\<rparr>"
    have "lags (fst (parser ?l1)) (fst (parser l))" using lags_period now TimeoutThread by simp
    from lags_chars [OF this Cons.prems(3)] obtain u1 where u1:
      "fold_r data_parsing (pending l) (fst (parser ?l1)) = Inr u1" "lags u1 u" by blast
    moreover have "alert ?l1" "pending ?l1 = pending l"
      using Cons.prems(1) by (simp_all add: alert_def line_ok_def pending_def)
    ultimately show ?thesis
      using Cons.prems(4,5) TimeoutThread lags_trans [OF u1(2) Cons.prems(4)] by (auto simp: arrived_def)
  qed (use now in simp_all)
  then obtain l1 u1 v1 where l1: "line_step e ev l = Inr l1" "alert l1"
    "fold_r data_parsing (pending l1) (fst (parser l1)) = Inr u1" "lags u1 v1"
    "fold_r data_parsing (arrived evs) v1 = Inr w" by blast
  then have "timely e evs l1" using Cons.prems(2) by simp
  from Cons.IH [OF l1(2) this l1(3-5)] l1(1) show ?case by auto
qed

text \<open>Left alone, the thread parses what waits and goes to sleep.\<close>

lemma settles:
  assumes "alert l" and "fold_r data_parsing (pending l) (fst (parser l)) = Inr u"
  shows "\<exists>k \<le> 2 * length (pending l) + 4. \<exists>l'.
    fold_r (line_step e) (replicate k SerialThread) l = Inr l' \<and> serial_at l' = Waiting \<and>
    queued (rx_fifo l') = [] \<and> parser l' = (u, snd (parser l))"
proof -
  from assms(1) have ok: "line_ok l" by (simp add: alert_def)
  have first: "fold_r (line_step e) (replicate (Suc n) SerialThread) l =
      fold_r (line_step e) (replicate n SerialThread) l1" if "serial_step l = Inr l1" for n l l1
    using that by simp
  have reading: "\<exists>l'. fold_r (line_step e) (replicate (2 * length (pending l) + 3) SerialThread) l = Inr l' \<and>
      serial_at l' = Waiting \<and> queued (rx_fifo l') = [] \<and> parser l' = (u, snd (parser l))"
    if "line_ok l" "serial_at l = Reading" "fold_r data_parsing (pending l) (fst (parser l)) = Inr u" for l
    using drains [OF that(1,2), of u e] that(2,3) by (auto simp: pending_def)
  show ?thesis
  proof (cases "serial_at l")
    case Reading
    with reading [OF ok] assms(2) show ?thesis by (intro exI [of _ "2 * length (pending l) + 3"]) auto
  next
    case (Parsing ch)
    with assms(2) obtain u1 where u1: "data_parsing ch (fst (parser l)) = Inr u1"
      "fold_r data_parsing (queued (rx_fifo l)) u1 = Inr u" by (auto simp: pending_def bind_r_eq_Inr)
    let ?l1 = "l\<lparr>serial_at := Reading, parser := (u1, snd (parser l))\<rparr>"
    have "serial_step l = Inr ?l1" using Parsing u1(1) by (simp add: serial_step_def)
    moreover have "line_ok ?l1" using ok Parsing by (simp add: line_ok_def)
    moreover have "pending ?l1 = queued (rx_fifo l)" "pending l = ch # queued (rx_fifo l)"
      using Parsing by (simp_all add: pending_def)
    ultimately show ?thesis using reading [of ?l1] u1(2)
      by (intro exI [of _ "Suc (2 * length (queued (rx_fifo l)) + 3)"])
        (simp only: first, simp)
  next
    case Resetting
    then have q: "queued (rx_fifo l) = []" using assms(1) by (simp add: alert_def)
    let ?l1 = "l\<lparr>rx_sem := rt_sem_init 0, serial_at := Taking\<rparr>"
    let ?l2 = "l\<lparr>rx_sem := \<lparr>sem_value = 0, suspend_thread = [serial_thread]\<rparr>, serial_at := Waiting\<rparr>"
    have "serial_step l = Inr ?l1"
      using ok Resetting by (simp add: serial_step_def resume_def rt_sem_reset_def rt_sem_init_def line_ok_def)
    moreover have "serial_step ?l1 = Inr ?l2"
      by (simp add: serial_step_def rt_sem_take_def rt_sem_init_def)
    ultimately show ?thesis using q assms(2) Resetting
      by (intro exI [of _ 2]) (simp add: numeral_2_eq_2 pending_def prod_eq_iff)
  next
    case Taking
    show ?thesis
    proof (cases "queued (rx_fifo l) = []")
      case True
      with Taking assms(1) have "sem_value (rx_sem l) = 0" by (simp add: alert_def unat_eq_0)
      with True Taking assms(2) show ?thesis
        by (intro exI [of _ 1]) (simp add: serial_step_def rt_sem_take_def pending_def prod_eq_iff)
    next
      case False
      with Taking assms(1) have "0 < sem_value (rx_sem l)" by (simp add: alert_def word_gt_0)
      then have "serial_step l = Inr (l\<lparr>rx_sem := (rx_sem l)\<lparr>sem_value := sem_value (rx_sem l) - 1\<rparr>, serial_at := Reading\<rparr>)"
        (is "_ = Inr ?l1") using Taking by (simp add: serial_step_def rt_sem_take_def)
      moreover have "line_ok ?l1" using ok Taking by (simp add: line_ok_def sem_ok_def)
      moreover have "pending ?l1 = pending l" using Taking by (simp add: pending_def)
      ultimately show ?thesis using reading [of ?l1] assms(2)
        by (intro exI [of _ "Suc (2 * length (pending l) + 3)"]) (simp only: first, simp)
    qed
  next
    case Waiting
    then have "queued (rx_fifo l) = []" using assms(1) by (simp add: alert_def)
    with Waiting assms(2) show ?thesis by (intro exI [of _ 0]) (simp add: pending_def prod_eq_iff)
  qed
qed

lemma parser_array:
  assumes "fold_r (line_step e) evs (uart_data_sample (uart_boot, [])) = Inr l"
  shows "length (data (fst (parser l))) = 100"
proof -
  obtain us where "fold_r (uart_step e) us (uart_boot, []) = Inr (parser l)"
    using run_explained [OF assms] by blast
  with line.inv_reachable [of "(uart_boot, [])"] have "uart_ok (fst (parser l))" by simp
  then show ?thesis by (simp add: uart_ok_def)
qed

lemma pending_start: "pending l = [] \<Longrightarrow> alert l \<longleftrightarrow> line_ok l \<and>
  (serial_at l = Taking \<longrightarrow> queued (rx_fifo l) = [] \<longrightarrow> sem_value (rx_sem l) = 0)"
  by (auto simp: alert_def pending_def RX_BUFSZ_def unat_eq_0)

text \<open>
  C26: From the interrupt to the value: after a request for a reading, made when no character
  waits, the answer, behind any noise without a start mark and split over interrupts in any way,
  gives exactly the reading it carries. The interrupts come while the thread is anywhere else than
  between its empty read and the reset of the semaphore (there C25 applies), with any steps of the
  thread and periods of the timeout thread in between, as long as the ring has room and the timeout
  does not run down; what then still waits the thread parses in a bounded number of its steps.
\<close>

theorem reading_through_interrupts:
  assumes "fold_r (line_step e) evs (uart_data_sample (uart_boot, [])) = Inr l" and "pending l = []"
    and "my_uart_GetData flag kind (parser l) = Inr (u', h')" and "flag < 2"
    and "n = unat (data_end u') - 6" and "drop_bit (4 * n) x = 0" and "byte CHR ''@'' \<notin> set noise"
    and "timely e rest (l\<lparr>parser := (u', h')\<rparr>)"
    and "arrived rest = noise @ reply_frame ([byte CHR ''A'', uart_commend u'] @ hex_digits n x)"
  shows "\<exists>k \<le> 2 * unat RX_BUFSZ + 4. \<exists>l'.
    fold_r (line_step e) (CallGet flag kind # rest @ replicate k SerialThread) l = Inr l' \<and>
    serial_at l' = Waiting \<and> queued (rx_fifo l') = [] \<and> uart_flag (fst (parser l')) = UART_READ_OK \<and>
    get_UartData (fst (parser l')) = x \<and> uart_timeot (fst (parser l')) = 0"
proof -
  let ?l1 = "l\<lparr>parser := (u', h')\<rparr>"
  have "my_uart_GetData flag kind (fst (parser l), snd (parser l)) = Inr (u', h')" using assms(3) by simp
  from reading_reply [OF this assms(4) parser_array [OF assms(1)] assms(7,5,6)]
  obtain u where u: "fold_r data_parsing (arrived rest) u' = Inr u"
    "uart_flag u = UART_READ_OK" "get_UartData u = x" "uart_timeot u = 0"
    by (auto simp: assms(9))
  have "alert l" using meter_taking.inv_reachable [OF _ assms(1)] pending_start [OF assms(2)] by blast
  then have "alert ?l1" by (simp add: alert_def line_ok_def pending_def)
  moreover have "fold_r data_parsing (pending ?l1) (fst (parser ?l1)) = Inr u'"
    using assms(2) by (simp add: pending_def)
  ultimately obtain l2 u2 where l2: "fold_r (line_step e) rest ?l1 = Inr l2" "alert l2"
    "fold_r data_parsing (pending l2) (fst (parser l2)) = Inr u2" "lags u2 u"
    using timely_run [OF _ assms(8) _ lags_refl u(1)] by blast
  from settles [OF l2(2,3), of e] obtain k l' where l': "k \<le> 2 * length (pending l2) + 4"
    "fold_r (line_step e) (replicate k SerialThread) l2 = Inr l'" "serial_at l' = Waiting"
    "queued (rx_fifo l') = []" "parser l' = (u2, snd (parser l2))" by blast
  have "k \<le> 2 * unat RX_BUFSZ + 4" using l'(1) l2(2) by (simp add: alert_def)
  then show ?thesis
    using l'(2-5) l2(1) lags_same [OF l2(4)] u(2-)
    by (intro exI [of _ k] conjI exI [of _ l']) (simp_all add: assms(3) fold_r_append)
qed

text \<open>The reading comes in two pieces, the second while the thread is parsing the first.\<close>

definition pieces :: "u8 list \<Rightarrow> line_event list" where
  "pieces frame = Interrupt (bytes ''AB'') # replicate 3 SerialThread @ [TimeoutThread] @
     Interrupt (take 5 frame) # replicate 8 SerialThread @ [Interrupt (drop 5 frame)]"

lemma arrived_replicate [simp]: "arrived (replicate n SerialThread @ evs) = arrived evs"
  by (simp add: arrived_def)

lemma pieces_arrive: "arrived (pieces frame) = bytes ''AB'' @ frame"
  by (simp add: pieces_def) (simp add: arrived_def)

theorem reading_through_interrupts_witness:
  "\<exists>l k l'. fold_r (line_step bench) (replicate 3 SerialThread) (uart_data_sample (uart_boot, [])) = Inr l \<and>
     fold_r (line_step bench) (CallGet 0 0 # pieces (reply_frame (bytes ''AB'' @ hex_digits 6 0x1E240)) @
       replicate k SerialThread) l = Inr l' \<and>
     uart_flag (fst (parser l')) = UART_READ_OK \<and> get_UartData (fst (parser l')) = 123456"
proof -
  let ?frame = "reply_frame (bytes ''AB'' @ hex_digits 6 0x1E240)"
  have "case fold_r (line_step bench) (replicate 3 SerialThread) (uart_data_sample (uart_boot, [])) of
     Inl _ \<Rightarrow> False
   | Inr l \<Rightarrow> pending l = [] \<and>
       (case my_uart_GetData 0 0 (parser l) of Inl _ \<Rightarrow> False
        | Inr (u', h') \<Rightarrow> data_end u' = 12 \<and> uart_commend u' = byte CHR ''B'' \<and>
            timely bench (pieces ?frame) (l\<lparr>parser := (u', h')\<rparr>))"
    by code_simp
  then obtain l u' h' where l: "fold_r (line_step bench) (replicate 3 SerialThread) (uart_data_sample (uart_boot, [])) = Inr l"
    "pending l = []" "my_uart_GetData 0 0 (parser l) = Inr (u', h')"
    "data_end u' = 12" "uart_commend u' = byte CHR ''B''"
    "timely bench (pieces ?frame) (l\<lparr>parser := (u', h')\<rparr>)"
    by (auto split: sum.splits)
  have "arrived (pieces ?frame) =
      bytes ''AB'' @ reply_frame ([byte CHR ''A'', uart_commend u'] @ hex_digits 6 0x1E240)"
    by (simp add: pieces_arrive l(5))
  moreover have "6 = unat (data_end u') - 6" by (simp add: l(4))
  moreover have "drop_bit (4 * 6) (0x1E240 :: u32) = 0" by simp
  moreover have "byte CHR ''@'' \<notin> set (bytes ''AB'')" by simp
  ultimately obtain k l' where "fold_r (line_step bench) (CallGet 0 0 # pieces ?frame @ replicate k SerialThread) l = Inr l'"
    "uart_flag (fst (parser l')) = UART_READ_OK" "get_UartData (fst (parser l')) = 0x1E240"
    using reading_through_interrupts [where n = 6 and x = "0x1E240" and noise = "bytes ''AB''",
        OF l(1-3) _ _ _ _ l(6)]
    by auto
  then show ?thesis using l(1) by (intro exI [of _ l] exI [of _ k] exI [of _ l']) simp
qed

section \<open>The wake-up that gets lost\<close>

lemma without_interrupts:
  assumes "fold_r (line_step e) rest l = Inr l'" and "\<forall>ev \<in> set rest. \<forall>chs. ev \<noteq> Interrupt chs"
    and "serial_at l = Waiting"
  shows "serial_at l' = Waiting \<and> rx_fifo l' = rx_fifo l"
  using assms
proof (induction rest arbitrary: l)
  case (Cons ev rest)
  from Cons.prems(1) obtain l1 where l1: "line_step e ev l = Inr l1" "fold_r (line_step e) rest l1 = Inr l'"
    by (auto simp: bind_r_eq_Inr)
  from l1(1) Cons.prems(2,3) have "serial_at l1 = Waiting \<and> rx_fifo l1 = rx_fifo l"
    by (cases ev) (auto simp: serial_step_def map_r_eq_Inr)
  with Cons.IH [OF l1(2)] Cons.prems(2) show ?case by simp
qed simp

lemma timeout_thread:
  "fold_r (line_step e) (replicate k TimeoutThread) l =
     Inr (l\<lparr>parser := ((data_timeout_parsing ^^ k) (fst (parser l)), snd (parser l))\<rparr>)"
  by (induction k arbitrary: l) (simp_all add: funpow_swap1)

lemma lost_in_reset:
  assumes "line_ok l" and "serial_at l = Resetting" and "chs \<noteq> []"
  shows "\<exists>l'. fold_r (line_step e) [Interrupt chs, SerialThread, SerialThread] l = Inr l' \<and>
    serial_at l' = Waiting \<and> queued (rx_fifo l') \<noteq> [] \<and> last (queued (rx_fifo l')) = last chs \<and>
    parser l' = parser l"
proof -
  from isr_state [OF assms(1), of chs] assms(2) obtain l1 where l1: "rt_hw_serial_isr chs l = Inr l1" "line_ok l1"
    "parser l1 = parser l" "queued (rx_fifo l1) = recent 127 (queued (rx_fifo l) @ chs)"
    "serial_at l1 = Resetting" by (auto simp: RX_BUFSZ_def)
  let ?l2 = "l1\<lparr>rx_sem := rt_sem_init 0, serial_at := Taking\<rparr>"
  let ?l3 = "l1\<lparr>rx_sem := \<lparr>sem_value = 0, suspend_thread = [serial_thread]\<rparr>, serial_at := Waiting\<rparr>"
  have "serial_step l1 = Inr ?l2"
    using l1(2,5) by (simp add: serial_step_def resume_def rt_sem_reset_def rt_sem_init_def line_ok_def)
  moreover have "serial_step ?l2 = Inr ?l3"
    by (simp add: serial_step_def rt_sem_take_def rt_sem_init_def)
  ultimately show ?thesis using l1 assms(3) by (simp add: recent_last)
qed

text \<open>
  C25: \<^verbatim>\<open>uart_sample_get_char\<close> resets the semaphore after it has found the ring empty: what arrives
  in between leaves the thread waiting with the characters in the ring until the next interrupt,
  and a request whose answer ends with them runs into its timeout although they are there.
\<close>

theorem wakeup_lost:
  assumes "fold_r (line_step e) evs (uart_data_sample p) = Inr l"
    and "serial_at l = Resetting" and "chs \<noteq> []"
    and "uart_flag (fst (parser l)) = UART_WAIT" and "uart_timeot (fst (parser l)) \<noteq> 0"
  shows "\<exists>l'. fold_r (line_step e) [Interrupt chs, SerialThread, SerialThread] l = Inr l' \<and>
    queued (rx_fifo l') \<noteq> [] \<and> last (queued (rx_fifo l')) = last chs \<and>
    (\<forall>rest l''. (\<forall>ev \<in> set rest. \<forall>c. ev \<noteq> Interrupt c) \<longrightarrow>
       fold_r (line_step e) rest l' = Inr l'' \<longrightarrow>
       serial_at l'' = Waiting \<and> queued (rx_fifo l'') = queued (rx_fifo l')) \<and>
    (\<exists>l''. fold_r (line_step e) (replicate (unat (uart_timeot (fst (parser l)))) TimeoutThread) l' = Inr l'' \<and>
       uart_flag (fst (parser l'')) = UART_ERROR_TIMEOUT)"
proof -
  have "line_ok l" using meter_line.inv_reachable [OF _ assms(1)] by blast
  from lost_in_reset [OF this assms(2,3)] obtain l' where l':
    "fold_r (line_step e) [Interrupt chs, SerialThread, SerialThread] l = Inr l'" "serial_at l' = Waiting"
    "queued (rx_fifo l') \<noteq> []" "last (queued (rx_fifo l')) = last chs" "parser l' = parser l" by blast
  let ?u = "fst (parser l)"
  let ?rest = "replicate (unat (uart_timeot ?u)) TimeoutThread"
  have "(data_timeout_parsing ^^ unat (uart_timeot ?u)) ?u =
      ?u\<lparr>uart_timeot := 0, uart_flag := UART_ERROR_TIMEOUT\<rparr>"
    using silence [OF assms(4,5)] .
  then have "\<exists>l''. fold_r (line_step e) ?rest l' = Inr l'' \<and>
      uart_flag (fst (parser l'')) = UART_ERROR_TIMEOUT"
    by (simp add: timeout_thread l'(5))
  moreover have "serial_at l'' = Waiting \<and> queued (rx_fifo l'') = queued (rx_fifo l')"
    if "\<forall>ev \<in> set rest. \<forall>c. ev \<noteq> Interrupt c" "fold_r (line_step e) rest l' = Inr l''" for rest l''
    using without_interrupts [OF that(2,1) l'(2)] by simp
  ultimately show ?thesis using l'(1,3,4) by blast
qed

text \<open>The end mark of a status reply arrives in that gap.\<close>

definition gap_run :: "line_event list" where
  "gap_run = [CallGet 2 0, SerialThread, SerialThread, SerialThread, Interrupt (bytes ''@AI00EA'')] @
     replicate 15 SerialThread"

lemma gap_run_end:
  "case fold_r (line_step bench) gap_run (uart_data_sample (uart_boot, [])) of
     Inl _ \<Rightarrow> False
   | Inr l \<Rightarrow> serial_at l = Resetting \<and> uart_flag (fst (parser l)) = UART_WAIT \<and>
       uart_timeot (fst (parser l)) = 10 \<and> data_len (fst (parser l)) = 7"
  by code_simp

theorem wakeup_lost_witness:
  "\<exists>l l' l''. fold_r (line_step bench) gap_run (uart_data_sample (uart_boot, [])) = Inr l \<and>
     data_len (fst (parser l)) = 7 \<and>
     fold_r (line_step bench) [Interrupt (bytes ''*''), SerialThread, SerialThread] l = Inr l' \<and>
     last (queued (rx_fifo l')) = byte CHR ''*'' \<and>
     fold_r (line_step bench) (replicate 10 TimeoutThread) l' = Inr l'' \<and>
     uart_flag (fst (parser l'')) = UART_ERROR_TIMEOUT"
proof -
  obtain l where l: "fold_r (line_step bench) gap_run (uart_data_sample (uart_boot, [])) = Inr l"
    "serial_at l = Resetting" "uart_flag (fst (parser l)) = UART_WAIT"
    "uart_timeot (fst (parser l)) = 10" "data_len (fst (parser l)) = 7"
    using gap_run_end by (auto split: sum.splits)
  from wakeup_lost [OF l(1,2), of "bytes ''*''"] l(3-5) show ?thesis
    by (auto simp: l(1))
qed

end
