(* ===== verification/Meter_Threads.thy ===== *)
theory Meter_Threads
  imports Meter_Uart
begin

text \<open>
  The threads around the meter line one access at a time (\<^verbatim>\<open>applications/MS_Uart.c\<close>). The timeout
  thread has the lowest priority of the three, so the receive thread and the main thread come in
  between any two of its accesses to \<^verbatim>\<open>uart_timeot\<close> and \<^verbatim>\<open>uart_flag\<close>; the main thread also comes in
  between those of the receive thread. In \<open>Meter_Uart\<close> a period and a character are one step each:
  that is what happens here when nobody comes in between.
\<close>

section \<open>Where the threads stand\<close>

text \<open>Before the test of \<^verbatim>\<open>uart_timeot\<close>, within \<^verbatim>\<open>uart_timeot--\<close>, at the two halves of the second test, before the store.\<close>

datatype counting = Napping | Lowering | Storing u8 | TestingFlag | TestingZero | GivingUp

text \<open>Before the next character, before \<^verbatim>\<open>my_data_parsing\<close>, before its last statement.\<close>

datatype taking = AwaitingChar | Deciding | Closing

record threads =
  shared :: "uart \<times> history"
  counting :: counting
  taking :: taking

definition threads_boot :: threads where
  "threads_boot = \<lparr>shared = (uart_boot, []), counting = Napping, taking = AwaitingChar\<rparr>"

definition on_uart :: "(uart \<Rightarrow> uart) \<Rightarrow> threads \<Rightarrow> threads" where
  "on_uart f t = t\<lparr>shared := (f (fst (shared t)), snd (shared t))\<rparr>"

definition timeout_statement :: "threads \<Rightarrow> threads" where
  "timeout_statement t =
     (let u = fst (shared t) in
      case counting t of
        Napping \<Rightarrow> t\<lparr>counting := (if uart_timeot u \<noteq> 0 then Lowering else TestingFlag)\<rparr>
      | Lowering \<Rightarrow> t\<lparr>counting := Storing (uart_timeot u)\<rparr>
      | Storing v \<Rightarrow> on_uart (\<lambda>u. u\<lparr>uart_timeot := v - 1\<rparr>) (t\<lparr>counting := TestingFlag\<rparr>)
      | TestingFlag \<Rightarrow> t\<lparr>counting := (if uart_flag u = UART_WAIT then TestingZero else Napping)\<rparr>
      | TestingZero \<Rightarrow> t\<lparr>counting := (if uart_timeot u = 0 then GivingUp else Napping)\<rparr>
      | GivingUp \<Rightarrow> on_uart (\<lambda>u. u\<lparr>uart_flag := UART_ERROR_TIMEOUT\<rparr>) (t\<lparr>counting := Napping\<rparr>))"

definition store_char :: "u8 \<Rightarrow> uart \<Rightarrow> uart result" where
  "store_char ch u =
     (if (data_len u = 0 \<and> ch = byte CHR ''@'') \<or> (data_len u = 1 \<and> ch = byte CHR ''A'') \<or>
         3 \<le> data_len u \<or> (data_len u = 2 \<and> ch = uart_commend u)
      then map_r (\<lambda>d. u\<lparr>data := d, data_len := data_len u + 1, uart_timeot := 10\<rparr>)
             (arr_set (data u) (unat (data_len u)) ch)
      else Inr u)"

definition decide_reply :: "uart \<Rightarrow> uart result" where
  "decide_reply u =
     (if unat (data_len u) < 3 \<or> length (data u) < unat (data_len u) then Inl OutOfBounds
      else if reply_checked u then reply_action u else Inr (u\<lparr>uart_flag := UART_ERROR_DATA\<rparr>))"

text \<open>A statement of the receive thread; \<open>ch\<close> is the character it gets if it stands before one.\<close>

definition serial_statement :: "u8 \<Rightarrow> threads \<Rightarrow> threads result" where
  "serial_statement ch t =
     (let u = fst (shared t) in
      case taking t of
        AwaitingChar \<Rightarrow>
          if data_end u = 0 then Inr t
          else map_r (\<lambda>u. t\<lparr>shared := (u, snd (shared t)),
                 taking := (if data_len u = data_end u then Deciding else AwaitingChar)\<rparr>)
               (store_char ch u)
      | Deciding \<Rightarrow> map_r (\<lambda>u. t\<lparr>shared := (u, snd (shared t)), taking := Closing\<rparr>) (decide_reply u)
      | Closing \<Rightarrow> Inr (on_uart (\<lambda>u. u\<lparr>uart_timeot := 0\<rparr>) (t\<lparr>taking := AwaitingChar\<rparr>)))"

text \<open>The main thread makes its requests in one go: no other thread of the line comes in between.\<close>

datatype thread_event =
    SerialOn u8 | TimeoutOn
  | RequestSet nat "u8 list" nat | RequestGet nat nat | RequestValve

primrec thread_step :: "env \<Rightarrow> thread_event \<Rightarrow> threads \<Rightarrow> threads result" where
  "thread_step e (SerialOn ch) t = serial_statement ch t"
| "thread_step e TimeoutOn t = Inr (timeout_statement t)"
| "thread_step e (RequestSet flag row n) t =
     map_r (\<lambda>p. t\<lparr>shared := p\<rparr>) (my_uart_SetData flag row n (shared t))"
| "thread_step e (RequestGet flag kind) t =
     map_r (\<lambda>p. t\<lparr>shared := p\<rparr>) (my_uart_GetData flag kind (shared t))"
| "thread_step e RequestValve t = map_r (\<lambda>p. t\<lparr>shared := p\<rparr>) (ms_open_valve e (shared t))"

section \<open>Nobody in between\<close>

lemma store_char_parsing:
  "data_parsing ch u =
     (if data_end u = 0 then Inr u
      else bind_r (store_char ch u) (\<lambda>u. if data_len u = data_end u then my_data_parsing u else Inr u))"
  by (simp add: data_parsing_def store_char_def)

lemma decide_reply_parsing:
  "my_data_parsing u = map_r (\<lambda>u. u\<lparr>uart_timeot := 0\<rparr>) (decide_reply u)"
  by (simp add: my_data_parsing_def decide_reply_def)

definition data_timeout_statements :: "threads \<Rightarrow> nat" where
  "data_timeout_statements t =
     (let u = fst (shared t); n = (if uart_timeot u = 0 then 1 else 3); left = uart_timeot u \<in> {0, 1}
      in if uart_flag u \<noteq> UART_WAIT then n + 1 else if left then n + 3 else n + 2)"

text \<open>A period of the timeout thread and a character without anybody in between.\<close>

theorem period_in_statements:
  assumes "counting t = Napping"
  shows "(timeout_statement ^^ data_timeout_statements t) t = on_uart data_timeout_parsing t"
proof -
  let ?u = "fst (shared t)"
  have "\<not> uart_timeot ?u - 1 = 0" if "uart_timeot ?u \<noteq> 1" using that by simp
  then show ?thesis
    using assms
    by (cases "uart_timeot ?u = 0"; cases "uart_timeot ?u = 1"; cases "uart_flag ?u = UART_WAIT")
      (simp_all add: data_timeout_statements_def timeout_statement_def on_uart_def Let_def
        data_timeout_parsing_def numeral_eq_Suc prod_eq_iff)
qed

theorem character_in_statements:
  assumes "taking t = AwaitingChar"
  shows "map_r (\<lambda>u. t\<lparr>shared := (u, snd (shared t))\<rparr>) (data_parsing ch (fst (shared t))) =
    bind_r (serial_statement ch t) (\<lambda>t1.
      if taking t1 = AwaitingChar then Inr t1
      else bind_r (serial_statement ch t1) (serial_statement ch))"
proof (cases "data_end (fst (shared t)) = 0")
  case True
  with assms show ?thesis by (simp add: serial_statement_def store_char_parsing)
next
  case False
  show ?thesis
  proof (cases "store_char ch (fst (shared t))")
    case (Inl x)
    with False assms show ?thesis by (simp add: serial_statement_def store_char_parsing)
  next
    case (Inr u)
    with False assms show ?thesis
      by (cases "data_len u = data_end u"; cases "decide_reply u")
        (simp_all add: serial_statement_def store_char_parsing decide_reply_parsing on_uart_def)
  qed
qed

section \<open>What holds whoever comes in between\<close>

text \<open>No request is made while the receive thread is within a reply.\<close>

primrec is_request :: "thread_event \<Rightarrow> bool" where
  "is_request (SerialOn ch) = False"
| "is_request TimeoutOn = False"
| "is_request (RequestSet flag row n) = True"
| "is_request (RequestGet flag kind) = True"
| "is_request RequestValve = True"

fun orderly :: "env \<Rightarrow> thread_event list \<Rightarrow> threads \<Rightarrow> bool" where
  "orderly e [] t = True"
| "orderly e (ev # evs) t =
     ((is_request ev \<longrightarrow> taking t = AwaitingChar) \<and>
      (case thread_step e ev t of Inl _ \<Rightarrow> True | Inr t' \<Rightarrow> orderly e evs t'))"

text \<open>The timeout thread has lowered the count and not yet drawn the consequence.\<close>

definition concluding :: "threads \<Rightarrow> bool" where
  "concluding t \<longleftrightarrow> counting t \<in> {TestingFlag, TestingZero, GivingUp}"

definition undecided :: "uart \<Rightarrow> bool" where
  "undecided u \<longleftrightarrow> data_end u \<noteq> 0 \<and> uart_timeot u = 0 \<and> uart_flag u = UART_WAIT"

text \<open>The shared variables are in order but for the count, which another thread may hold back.\<close>

definition uart_sound :: "uart \<Rightarrow> bool" where
  "uart_sound u \<longleftrightarrow> uart_ok (u\<lparr>uart_timeot := 1\<rparr>)"

definition threads_ok :: "threads \<Rightarrow> bool" where
  "threads_ok t \<longleftrightarrow>
     (let u = fst (shared t) in
      uart_sound u \<and> (taking t \<noteq> AwaitingChar \<longrightarrow> data_end u \<noteq> 0) \<and>
      (taking t = Closing \<longrightarrow> uart_flag u \<noteq> UART_WAIT) \<and> (undecided u \<longrightarrow> concluding t))"

lemma threads_ok_boot: "threads_ok threads_boot"
  using uart_ok_boot
  by (simp add: threads_ok_def threads_boot_def uart_sound_def undecided_def uart_boot_def uart_ok_def)

lemma uart_sound_simps [simp]:
  "uart_sound (u\<lparr>uart_timeot := v\<rparr>) = uart_sound u"
  "uart_sound (u\<lparr>uart_flag := f\<rparr>) = uart_sound u"
  "uart_ok u \<Longrightarrow> uart_sound u"
  by (simp_all add: uart_sound_def uart_ok_def)

lemma store_char_sound:
  assumes "uart_sound u" and "store_char ch u = Inr u'"
  shows "uart_sound u' \<and> data_end u' = data_end u \<and> (u' = u \<or> uart_timeot u' = 10)"
proof -
  let ?takes = "(data_len u = 0 \<and> ch = byte CHR ''@'') \<or> (data_len u = 1 \<and> ch = byte CHR ''A'') \<or>
    3 \<le> data_len u \<or> (data_len u = 2 \<and> ch = uart_commend u)"
  show ?thesis
  proof (cases ?takes)
    case True
    with assms(2) obtain d where d: "arr_set (data u) (unat (data_len u)) ch = Inr d"
      "u' = u\<lparr>data := d, data_len := data_len u + 1, uart_timeot := 10\<rparr>"
      unfolding store_char_def by (auto simp only: if_True map_r_eq_Inr)
    have "uart_ok ((u\<lparr>uart_timeot := 1\<rparr>)\<lparr>data := d, data_len := data_len u + 1, uart_timeot := 10\<rparr>)"
      using store_char_keeps [of "u\<lparr>uart_timeot := 1\<rparr>" ch d] assms(1) True d(1) by (simp add: uart_sound_def)
    then show ?thesis using d(2) by (simp add: uart_sound_def uart_ok_def)
  next
    case False
    have "u' = u" using assms(2) unfolding store_char_def if_not_P [OF False] by simp
    with assms(1) show ?thesis by simp
  qed
qed

lemma decide_reply_sound:
  assumes "uart_sound u" and "data_end u \<noteq> 0" and "decide_reply u = Inr u'"
  shows "uart_sound u' \<and> data_end u' \<noteq> 0 \<and> uart_flag u' \<noteq> UART_WAIT"
proof -
  have parsed: "my_data_parsing u = Inr (u'\<lparr>uart_timeot := 0\<rparr>)"
    by (simp add: decide_reply_parsing assms(3))
  then have three: "3 \<le> data_len u"
    by (auto simp: my_data_parsing_def word_le_nat_alt split: if_splits)
  with assms(1,2) have "data u ! 2 \<in> set commands" by (simp add: uart_sound_def uart_ok_def)
  from my_data_parsing_keeps [OF parsed this] assms(1,2) three show ?thesis
    by (simp add: uart_sound_def uart_ok_def)
qed

lemma requests_sound:
  "my_uart_SetData flag row n p = Inr p' \<Longrightarrow> uart_sound (fst p) \<Longrightarrow>
     uart_sound (fst p') \<and> uart_timeot (fst p') \<noteq> 0"
  "my_uart_GetData flag kind p = Inr p' \<Longrightarrow> uart_sound (fst p) \<Longrightarrow>
     uart_sound (fst p') \<and> uart_timeot (fst p') \<noteq> 0"
  "ms_open_valve e p = Inr p' \<Longrightarrow> uart_sound (fst p) \<Longrightarrow>
     uart_sound (fst p') \<and> uart_timeot (fst p') \<noteq> 0"
  by (cases p; auto simp: my_uart_SetData_def my_uart_GetData_def ms_open_valve_def uart_sound_def
      uart_ok_def bind_r_eq_Inr map_r_eq_Inr fs_fill_def arr_get_def Let_def commands_def
      MS_Set_Command_def MS_Get_Command_def less_Suc_eq numeral_3_eq_3 split: if_splits)+

lemma timeout_statement_ok:
  assumes "threads_ok t"
  shows "threads_ok (timeout_statement t)"
  using assms
  by (cases "counting t")
    (auto simp: threads_ok_def timeout_statement_def on_uart_def Let_def concluding_def undecided_def
      uart_flags)

lemma serial_statement_ok:
  assumes "threads_ok t" and "serial_statement ch t = Inr t'"
  shows "threads_ok t'"
proof (cases "taking t")
  case AwaitingChar
  with assms show ?thesis
    using store_char_sound [of "fst (shared t)" ch]
    by (fastforce simp: threads_ok_def serial_statement_def Let_def map_r_eq_Inr undecided_def
        concluding_def split: if_splits)
next
  case Deciding
  with assms show ?thesis
    using decide_reply_sound [of "fst (shared t)"]
    by (fastforce simp: threads_ok_def serial_statement_def Let_def map_r_eq_Inr undecided_def)
next
  case Closing
  with assms show ?thesis
    by (auto simp: threads_ok_def serial_statement_def Let_def on_uart_def undecided_def)
qed

lemma thread_step_ok:
  assumes "threads_ok t" and "thread_step e ev t = Inr t'"
    and "is_request ev \<longrightarrow> taking t = AwaitingChar"
  shows "threads_ok t'"
proof -
  have request: "threads_ok (t\<lparr>shared := p\<rparr>)"
    if "taking t = AwaitingChar" "uart_sound (fst (shared t)) \<longrightarrow> uart_sound (fst p) \<and> uart_timeot (fst p) \<noteq> 0" for p
    using assms(1) that by (simp add: threads_ok_def Let_def undecided_def)
  show ?thesis
  proof (cases ev)
    case (SerialOn ch)
    with assms serial_statement_ok show ?thesis by simp
  next
    case TimeoutOn
    with assms timeout_statement_ok show ?thesis by auto
  next
    case (RequestSet flag row n)
    with assms(2) obtain p where "my_uart_SetData flag row n (shared t) = Inr p" "t' = t\<lparr>shared := p\<rparr>"
      by (auto simp: map_r_eq_Inr)
    with request requests_sound(1) assms(3) RequestSet show ?thesis by auto
  next
    case (RequestGet flag kind)
    with assms(2) obtain p where "my_uart_GetData flag kind (shared t) = Inr p" "t' = t\<lparr>shared := p\<rparr>"
      by (auto simp: map_r_eq_Inr)
    with request requests_sound(2) assms(3) RequestGet show ?thesis by auto
  next
    case RequestValve
    with assms(2) obtain p where "ms_open_valve e (shared t) = Inr p" "t' = t\<lparr>shared := p\<rparr>"
      by (auto simp: map_r_eq_Inr)
    with request requests_sound(3) assms(3) RequestValve show ?thesis by auto
  qed
qed

lemma orderly_run_ok:
  assumes "fold_r (thread_step e) evs t = Inr t'" and "orderly e evs t" and "threads_ok t"
  shows "threads_ok t'"
  using assms
proof (induction evs arbitrary: t)
  case (Cons ev evs)
  from Cons.prems(1) obtain t1 where t1: "thread_step e ev t = Inr t1" "fold_r (thread_step e) evs t1 = Inr t'"
    by (auto simp: bind_r_eq_Inr)
  have "threads_ok t1" using thread_step_ok [OF Cons.prems(3) t1(1)] Cons.prems(2) by simp
  with Cons.IH [OF t1(2)] Cons.prems(2) t1(1) show ?case by simp
qed simp

text \<open>Left alone, the timeout thread draws the consequence in at most three of its statements.\<close>

lemma concluded:
  assumes "undecided (fst (shared t))" and "concluding t"
  shows "\<exists>k \<le> 3. uart_flag (fst (shared ((timeout_statement ^^ k) t))) = UART_ERROR_TIMEOUT"
proof (cases "counting t")
  case TestingFlag
  with assms have "uart_flag (fst (shared ((timeout_statement ^^ 3) t))) = UART_ERROR_TIMEOUT"
    by (simp add: undecided_def timeout_statement_def on_uart_def Let_def numeral_3_eq_3)
  then show ?thesis by blast
next
  case TestingZero
  with assms have "uart_flag (fst (shared ((timeout_statement ^^ 2) t))) = UART_ERROR_TIMEOUT"
    by (simp add: undecided_def timeout_statement_def on_uart_def Let_def numeral_2_eq_2)
  then show ?thesis by (intro exI [of _ 2]) simp
next
  case GivingUp
  with assms have "uart_flag (fst (shared ((timeout_statement ^^ 1) t))) = UART_ERROR_TIMEOUT"
    by (simp add: undecided_def timeout_statement_def on_uart_def Let_def)
  then show ?thesis by (intro exI [of _ 1]) simp
qed (use assms in \<open>simp_all add: concluding_def\<close>)

text \<open>
  C30: However the statements of the timeout thread and the receive thread interleave with each other
  and with the requests of the main thread, none of which is made while the receive thread is
  within a reply: a request whose timeout has run down is decided, by a reply, a data error or the
  timeout. The one exception is the moment in which the timeout thread has lowered the count and
  not yet drawn the consequence; then it does so in at most three further statements.
\<close>

theorem wait_ends_decided:
  assumes "fold_r (thread_step e) evs threads_boot = Inr t" and "orderly e evs threads_boot"
    and "data_end (fst (shared t)) \<noteq> 0" and "uart_timeot (fst (shared t)) = 0"
  shows "if counting t \<in> {TestingFlag, TestingZero, GivingUp} \<and> uart_flag (fst (shared t)) = UART_WAIT
    then \<exists>k \<le> 3. uart_flag (fst (shared ((timeout_statement ^^ k) t))) = UART_ERROR_TIMEOUT
    else uart_flag (fst (shared t)) \<noteq> UART_WAIT"
proof -
  have "threads_ok t" by (rule orderly_run_ok [OF assms(1,2) threads_ok_boot])
  then have "undecided (fst (shared t)) \<longrightarrow> concluding t" by (simp add: threads_ok_def Let_def)
  with concluded [of t] assms(3,4) show ?thesis
    by (auto simp: undecided_def concluding_def)
qed

text \<open>The timeout of a status request of which only the start mark was answered, up to the lowered count.\<close>

definition silent_run :: "thread_event list" where
  "silent_run = [RequestGet 2 0, SerialOn (byte CHR ''@'')] @ replicate 48 TimeoutOn"

lemma silent_run_end:
  "case fold_r (thread_step bench) silent_run threads_boot of
     Inl _ \<Rightarrow> False
   | Inr t \<Rightarrow> orderly bench silent_run threads_boot \<and> data_end (fst (shared t)) \<noteq> 0 \<and>
       uart_timeot (fst (shared t)) = 0 \<and> uart_flag (fst (shared t)) = UART_WAIT \<and>
       counting t = TestingFlag"
  by code_simp

theorem wait_ends_decided_witness:
  "\<exists>t. fold_r (thread_step bench) silent_run threads_boot = Inr t \<and> counting t = TestingFlag \<and>
     (\<exists>k \<le> 3. uart_flag (fst (shared ((timeout_statement ^^ k) t))) = UART_ERROR_TIMEOUT)"
proof -
  obtain t where t: "fold_r (thread_step bench) silent_run threads_boot = Inr t"
    "orderly bench silent_run threads_boot" "data_end (fst (shared t)) \<noteq> 0"
    "uart_timeot (fst (shared t)) = 0" "uart_flag (fst (shared t)) = UART_WAIT" "counting t = TestingFlag"
    using silent_run_end by (auto split: sum.splits)
  from wait_ends_decided [OF t(1-4)] t(1,5,6) show ?thesis by auto
qed

text \<open>
  In that moment a caller whose sleep ends (\<^verbatim>\<open>get_uart_flag\<close> looks at the count, then at the flag)
  gets \<^verbatim>\<open>UART_WAIT\<close>, which is none of the answers.
\<close>

theorem caller_reads_wait:
  "\<exists>evs t. orderly bench evs threads_boot \<and> fold_r (thread_step bench) evs threads_boot = Inr t \<and>
     data_end (fst (shared t)) \<noteq> 0 \<and> uart_timeot (fst (shared t)) = 0 \<and>
     uart_flag (fst (shared t)) = UART_WAIT"
  using silent_run_end by (auto split: sum.splits)

text \<open>
  A status reply whose last character comes when the timeout thread is between the halves of its
  second test: the reply is accepted, and then given up.
\<close>

definition late_run :: "thread_event list" where
  "late_run = RequestGet 2 0 # map SerialOn (bytes ''@AI00EA'') @ replicate 4 TimeoutOn @
     [SerialOn (byte CHR ''*''), SerialOn 0, SerialOn 0]"

theorem accepted_reply_given_up:
  "\<exists>t t'. orderly bench (late_run @ [TimeoutOn, TimeoutOn]) threads_boot \<and>
     fold_r (thread_step bench) late_run threads_boot = Inr t \<and> uart_flag (fst (shared t)) = UART_READ_OK \<and>
     fold_r (thread_step bench) [TimeoutOn, TimeoutOn] t = Inr t' \<and>
     uart_flag (fst (shared t')) = UART_ERROR_TIMEOUT"
proof -
  have "orderly bench (late_run @ [TimeoutOn, TimeoutOn]) threads_boot"
    by code_simp
  moreover have "case fold_r (thread_step bench) late_run threads_boot of
       Inl _ \<Rightarrow> False
     | Inr t \<Rightarrow> uart_flag (fst (shared t)) = UART_READ_OK \<and>
         (case fold_r (thread_step bench) [TimeoutOn, TimeoutOn] t of
            Inl _ \<Rightarrow> False | Inr t' \<Rightarrow> uart_flag (fst (shared t')) = UART_ERROR_TIMEOUT)"
    by code_simp
  ultimately show ?thesis by (fastforce split: sum.splits simp del: fold_r.simps)
qed

end
