(* ===== verification/Motor.thy ===== *)
theory Motor
  imports Board_IO
begin

text \<open>
  The stepper motor that draws the test gas (\<^verbatim>\<open>applications/BJ_pwm.c\<close>): a run is started by one of
  two commands, counted pulse by pulse in the timer interrupt, which ends it, and accelerated by
  a thread of ten periods of 50 ms.
\<close>

definition MS1_SPEED_ALL :: u32 where "MS1_SPEED_ALL = 192000"
definition MS2_SPEED_ALL :: u32 where "MS2_SPEED_ALL = 44800"
definition PWM_SPEED :: u32 where "PWM_SPEED = 625000"
definition PWM_SPEED_HIGH :: u32 where "PWM_SPEED_HIGH = 625000"
definition PWM_SPEED_LOW :: u32 where "PWM_SPEED_LOW = 125000"

definition MOT_EN :: nat where "MOT_EN = 0x12"
definition MOT_DIR :: nat where "MOT_DIR = 0x1a"

lemmas speeds = MS1_SPEED_ALL_def MS2_SPEED_ALL_def PWM_SPEED_def PWM_SPEED_HIGH_def PWM_SPEED_LOW_def

text \<open>
  The counters of the source, the count of the semaphore, and where the ramp thread stands:
  \<open>None\<close> while it waits for the semaphore, \<open>Some i\<close> while it sleeps before round \<open>i\<close>.
\<close>

record motor =
  stepper_number :: u32
  pwm_period :: u32
  speed_flag :: u16
  speed_k :: u16
  speed_number :: u16
  speed_all :: u32
  speed_period :: u32
  pwm_sem :: nat
  ramp_round :: "nat option"

definition motor_boot :: motor where
  "motor_boot =
     \<lparr>stepper_number = 0, pwm_period = 0, speed_flag = 0, speed_k = 0, speed_number = 0,
      speed_all = 19200, speed_period = 0, pwm_sem = 0, ramp_round = None\<rparr>"

definition rt_pwm_set :: "u32 \<Rightarrow> u32 \<Rightarrow> history \<Rightarrow> history" where
  "rt_pwm_set p w h = PwmSet p w # h"

definition rt_pwm_enable :: "history \<Rightarrow> history" where
  "rt_pwm_enable h = PwmEnable # h"

definition rt_pwm_disable :: "history \<Rightarrow> history" where
  "rt_pwm_disable h = PwmDisable # h"

definition pwm_sample :: "motor \<times> history \<Rightarrow> motor \<times> history" where
  "pwm_sample = (\<lambda>(m, h).
     let h = rt_pin_mode MOT_EN Output h; h = rt_pin_mode MOT_DIR Output h;
         h = rt_pin_write MOT_DIR True h; h = rt_pin_write MOT_EN True h
     in (m\<lparr>pwm_period := PWM_SPEED, pwm_sem := 0\<rparr>, h))"

definition high_speed :: "motor \<times> history \<Rightarrow> motor \<times> history" where
  "high_speed = (\<lambda>(m, h).
     let h = rt_pin_write MOT_EN False h; period = PWM_SPEED_HIGH;
         m = m\<lparr>stepper_number := 0, speed_flag := 0, speed_k := 0, speed_all := MS2_SPEED_ALL\<rparr>
     in (m, rt_pwm_enable (rt_pwm_set period (period div 20) h)))"

definition low_speed :: "motor \<times> history \<Rightarrow> motor \<times> history" where
  "low_speed = (\<lambda>(m, h).
     let h = rt_pin_write MOT_EN False h; period = PWM_SPEED_LOW;
         m = m\<lparr>stepper_number := 0, speed_flag := 1, speed_k := 0, speed_all := MS1_SPEED_ALL,
               pwm_sem := pwm_sem m + 1\<rparr>;
         h = SemRelease ''pwm_sem'' # h
     in (m, rt_pwm_enable (rt_pwm_set period (period div 20) h)))"

definition stop_turning :: "motor \<times> history \<Rightarrow> motor \<times> history" where
  "stop_turning = (\<lambda>(m, h). (m, rt_pwm_disable h))"

definition HAL_TIM_PWM_PulseFinishedCallback :: "motor \<times> history \<Rightarrow> motor \<times> history" where
  "HAL_TIM_PWM_PulseFinishedCallback = (\<lambda>(m, h).
     let m = m\<lparr>stepper_number := stepper_number m + 1\<rparr>
     in if speed_all m \<le> stepper_number m
        then (m, rt_pin_write MOT_EN True (rt_pwm_disable h)) else (m, h))"

text \<open>
  The ramp thread. \<open>ramp_period\<close> is the assignment of round \<open>i\<close>; \<open>speed_k\<close> is a 16-bit number
  promoted to \<^verbatim>\<open>int\<close>, so \<^verbatim>\<open>speed_k - 4\<close> may be negative. One step of the thread is what it does
  between two points where it waits.
\<close>

definition ramp_period :: "nat \<Rightarrow> u16 \<Rightarrow> u32 \<Rightarrow> u32" where
  "ramp_period i k old =
     (if i < 4 then PWM_SPEED_LOW - ucast k * 10000
      else if i < 8 then PWM_SPEED_LOW - 40000 - (ucast k - 4) * 5000
      else if i = 9 then 62500 else old)"

definition pwm_thread :: "motor \<times> history \<Rightarrow> motor \<times> history" where
  "pwm_thread = (\<lambda>(m, h).
     case ramp_round m of
       None \<Rightarrow>
         if pwm_sem m = 0 then (m, h)
         else (m\<lparr>pwm_sem := pwm_sem m - 1, ramp_round := Some 0\<rparr>, h)
     | Some i \<Rightarrow>
         (let p = ramp_period i (speed_k m) (speed_period m)
          in (m\<lparr>speed_period := p, ramp_round := (if i + 1 < 10 then Some (i + 1) else None)\<rparr>,
              rt_pwm_set p (p div 20) h)))"

text \<open>What can happen to the motor while another thread waits.\<close>

datatype motor_event = PwmPulse | RampRun

definition motor_step :: "motor_event \<Rightarrow> motor \<times> history \<Rightarrow> motor \<times> history" where
  "motor_step ev =
     (case ev of PwmPulse \<Rightarrow> HAL_TIM_PWM_PulseFinishedCallback | RampRun \<Rightarrow> pwm_thread)"

section \<open>A run ends after its pulses\<close>

text \<open>Whether the timer drives the motor: what the newest command to it said.\<close>

fun pwm_on :: "history \<Rightarrow> bool" where
  "pwm_on [] = False"
| "pwm_on (PwmEnable # h) = True"
| "pwm_on (PwmDisable # h) = False"
| "pwm_on (_ # h) = pwm_on h"

lemma pwm_on_simps [simp]:
  "pwm_on (rt_pwm_set p w h) = pwm_on h"
  "pwm_on (rt_pwm_enable h)"
  "\<not> pwm_on (rt_pwm_disable h)"
  "pwm_on (rt_pin_write q v h) = pwm_on h"
  by (simp_all add: rt_pwm_set_def rt_pwm_enable_def rt_pwm_disable_def rt_pin_write_def)

lemma driven_pwm [simp]:
  "driven (rt_pwm_set p w h) q = driven h q"
  "driven (rt_pwm_enable h) q = driven h q"
  "driven (rt_pwm_disable h) q = driven h q"
  by (simp_all add: rt_pwm_set_def rt_pwm_enable_def rt_pwm_disable_def)

text \<open>Pulses seen in this run; the driver is on, and the motor's enable line low, until the last.\<close>

definition turning :: "u32 \<Rightarrow> nat \<Rightarrow> motor \<times> history \<Rightarrow> bool" where
  "turning all n mh \<longleftrightarrow>
     speed_all (fst mh) = all \<and> unat (stepper_number (fst mh)) = n \<and>
     pwm_on (snd mh) = (n < unat all) \<and> driven (snd mh) MOT_EN = (unat all \<le> n)"

lemma turning_ramp: "turning all n mh \<Longrightarrow> turning all n (motor_step RampRun mh)"
  by (auto simp: turning_def motor_step_def pwm_thread_def Let_def split: option.split prod.split)

lemma turning_pulse:
  assumes "turning all n mh" and "n < 2 ^ 32 - 1"
  shows "turning all (Suc n) (motor_step PwmPulse mh)"
proof -
  obtain m h where mh: "mh = (m, h)" by (cases mh)
  have "unat (stepper_number m + 1) = Suc n"
    using assms by (simp add: mh turning_def unat_word_ariths)
  then show ?thesis
    using assms(1)
    by (auto simp: mh turning_def motor_step_def HAL_TIM_PWM_PulseFinishedCallback_def Let_def
        word_le_nat_alt)
qed

lemma turning_events:
  assumes "turning all n mh" and "n + count_list evs PwmPulse < 2 ^ 32"
  shows "turning all (n + count_list evs PwmPulse) (fold motor_step evs mh)"
  using assms
proof (induction evs arbitrary: n mh)
  case Nil
  then show ?case by simp
next
  case (Cons ev evs)
  show ?case
  proof (cases ev)
    case PwmPulse
    with Cons.prems have "turning all (Suc n) (motor_step ev mh)"
      by (auto intro: turning_pulse)
    from Cons.IH [OF this] Cons.prems PwmPulse show ?thesis by simp
  next
    case RampRun
    with Cons show ?thesis by (simp add: turning_ramp)
  qed
qed

lemma turning_low: "turning MS1_SPEED_ALL 0 (low_speed mh)"
  by (cases mh) (simp add: turning_def low_speed_def Let_def speeds rt_pin_write_def)

lemma turning_high: "turning MS2_SPEED_ALL 0 (high_speed mh)"
  by (cases mh) (simp add: turning_def high_speed_def Let_def speeds)

text \<open>
  A slow run moves exactly 192000 pulses: whatever the ramp thread does meanwhile, the driver
  is on and the motor enabled until then, and off and disabled from then on.
\<close>

theorem low_speed_run:
  assumes "count_list evs PwmPulse < 2 ^ 32"
  shows "pwm_on (snd (fold motor_step evs (low_speed mh))) =
      (count_list evs PwmPulse < 192000) \<and>
    driven (snd (fold motor_step evs (low_speed mh))) MOT_EN =
      (192000 \<le> count_list evs PwmPulse) \<and>
    unat (stepper_number (fst (fold motor_step evs (low_speed mh)))) = count_list evs PwmPulse"
  using turning_events [OF turning_low, of evs mh] assms by (simp add: turning_def speeds)

theorem low_speed_run_witness:
  "pwm_on (snd (fold motor_step [RampRun, PwmPulse, RampRun] (low_speed (motor_boot, []))))"
  using low_speed_run [of "[RampRun, PwmPulse, RampRun]" "(motor_boot, [])"] by simp

section \<open>The ramp\<close>

text \<open>Rounds of the ramp thread after a slow run was started from rest.\<close>

definition ramp_periods :: "nat \<Rightarrow> motor \<times> history \<Rightarrow> u32 list" where
  "ramp_periods n mh =
     rev (map (\<lambda>ev. case ev of PwmSet p w \<Rightarrow> p | _ \<Rightarrow> 0)
       (take n (snd ((pwm_thread ^^ Suc n) mh))))"

text \<open>
  The ramp of a slow run is not a ramp. \<^verbatim>\<open>speed_k\<close> is never counted up, so the first four
  rounds repeat the start period, the next five use one single period, and the last jumps to the
  end speed.
\<close>

theorem ramp_has_three_levels:
  assumes "pwm_sem m = 0" and "ramp_round m = None"
  shows "ramp_periods 10 (low_speed (m, h)) =
    replicate 4 125000 @ replicate 5 105000 @ [62500]"
  using assms
  by (simp add: ramp_periods_def low_speed_def pwm_thread_def rt_pwm_set_def Let_def
      numeral_eq_Suc ramp_period_def speeds)

theorem ramp_has_three_levels_witness:
  "ramp_periods 10 (low_speed (motor_boot, [])) =
    replicate 4 125000 @ replicate 5 105000 @ [62500]"
  by (rule ramp_has_three_levels) (simp_all add: motor_boot_def)

end
