(* ===== verification/Radio_Regs.thy ===== *)
theory Radio_Regs
  imports Tester_Prelude
begin

text \<open>
  The registers of the AX5043 the code names (\<^verbatim>\<open>radio/AX5043.h\<close>; those with a short address are
  bytes, those with a long one 16-bit words), the phases of the driver, and the register tables
  of the 40.68 MHz configuration (\<^verbatim>\<open>radio/Config_4068.h\<close>), row by row.
\<close>

section \<open>Registers\<close>

abbreviation (input) "REG_SCRATCH \<equiv> 0x01 :: u8"
abbreviation (input) "REG_PWRMODE \<equiv> 0x02 :: u8"
abbreviation (input) "REG_POWSTICKYSTAT \<equiv> 0x04 :: u8"
abbreviation (input) "REG_IRQMASK1 \<equiv> 0x06 :: u8"
abbreviation (input) "REG_IRQMASK0 \<equiv> 0x07 :: u8"
abbreviation (input) "REG_RADIOEVENTMASK0 \<equiv> 0x09 :: u8"
abbreviation (input) "REG_IRQREQUEST1 \<equiv> 0x0C :: u8"
abbreviation (input) "REG_IRQREQUEST0 \<equiv> 0x0D :: u8"
abbreviation (input) "REG_RADIOEVENTREQ0 \<equiv> 0x0F :: u8"
abbreviation (input) "REG_MODULATION \<equiv> 0x10 :: u8"
abbreviation (input) "REG_FRAMING \<equiv> 0x12 :: u8"
abbreviation (input) "REG_RADIOSTATE \<equiv> 0x1C :: u8"
abbreviation (input) "REG_XTALSTATUS \<equiv> 0x1D :: u8"
abbreviation (input) "REG_PINFUNCIRQ \<equiv> 0x24 :: u8"
abbreviation (input) "REG_FIFOSTAT \<equiv> 0x28 :: u8"
abbreviation (input) "REG_FIFODATA \<equiv> 0x29 :: u8"
abbreviation (input) "REG_FIFOFREE1 \<equiv> 0x2C :: u8"
abbreviation (input) "REG_FIFOFREE0 \<equiv> 0x2D :: u8"
abbreviation (input) "REG_FIFOTHRESH1 \<equiv> 0x2E :: u8"
abbreviation (input) "REG_FIFOTHRESH0 \<equiv> 0x2F :: u8"
abbreviation (input) "REG_PLLLOOP \<equiv> 0x30 :: u8"
abbreviation (input) "REG_PLLCPI \<equiv> 0x31 :: u8"
abbreviation (input) "REG_PLLRANGINGA \<equiv> 0x33 :: u8"
abbreviation (input) "REG_FREQA3 \<equiv> 0x34 :: u8"
abbreviation (input) "REG_FREQA2 \<equiv> 0x35 :: u8"
abbreviation (input) "REG_FREQA1 \<equiv> 0x36 :: u8"
abbreviation (input) "REG_FREQA0 \<equiv> 0x37 :: u8"
abbreviation (input) "REG_PLLRANGINGB \<equiv> 0x3B :: u8"

abbreviation (input) "REG_FSKDEV2 \<equiv> 0x161 :: u16"
abbreviation (input) "REG_FSKDEV1 \<equiv> 0x162 :: u16"
abbreviation (input) "REG_FSKDEV0 \<equiv> 0x163 :: u16"
abbreviation (input) "REG_TXPWRCOEFFB1 \<equiv> 0x16A :: u16"
abbreviation (input) "REG_TXPWRCOEFFB0 \<equiv> 0x16B :: u16"
abbreviation (input) "REG_PLLVCOI \<equiv> 0x180 :: u16"
abbreviation (input) "REG_PKTADDRCFG \<equiv> 0x200 :: u16"
abbreviation (input) "REG_PKTLENOFFSET \<equiv> 0x202 :: u16"
abbreviation (input) "REG_TMGRXAGC \<equiv> 0x227 :: u16"
abbreviation (input) "REG_TMGRXPREAMBLE1 \<equiv> 0x229 :: u16"
abbreviation (input) "REG_RSSIREFERENCE \<equiv> 0x22C :: u16"
abbreviation (input) "REG_PKTMISCFLAGS \<equiv> 0x231 :: u16"
abbreviation (input) "REG_PKTSTOREFLAGS \<equiv> 0x232 :: u16"
abbreviation (input) "REG_GPADCCTRL \<equiv> 0x300 :: u16"
abbreviation (input) "REG_GPADC13VALUE1 \<equiv> 0x308 :: u16"
abbreviation (input) "REG_GPADC13VALUE0 \<equiv> 0x309 :: u16"
abbreviation (input) "REG_LPOSCCONFIG \<equiv> 0x310 :: u16"

text \<open>Power states and the command codes of the FIFO.\<close>

abbreviation (input) "PWRSTATE_POWERDOWN \<equiv> 0x00 :: u8"
abbreviation (input) "PWRSTATE_XTAL_ON \<equiv> 0x05 :: u8"
abbreviation (input) "PWRSTATE_FIFO_ON \<equiv> 0x07 :: u8"
abbreviation (input) "PWRSTATE_FULL_RX \<equiv> 0x09 :: u8"
abbreviation (input) "PWRSTATE_FULL_TX \<equiv> 0x0D :: u8"
abbreviation (input) "FIFOCMD_DATA \<equiv> 0x01 :: u8"
abbreviation (input) "FIFOCMD_REPEATDATA \<equiv> 0x02 :: u8"
abbreviation (input) "FIFOCMD_TIMER \<equiv> 0x10 :: u8"
abbreviation (input) "FIFOCMD_RSSI \<equiv> 0x11 :: u8"
abbreviation (input) "FIFOCMD_RFFREQOFFS \<equiv> 0x13 :: u8"
abbreviation (input) "FIFOCMD_ANTRSSI \<equiv> 0x15 :: u8"
abbreviation (input) "AXRADIO_ERR_NOERROR \<equiv> 0x00 :: u8"
abbreviation (input) "AXRADIO_ERR_RANGING \<equiv> 0x06 :: u8"

section \<open>Register tables\<close>

definition set_registers_4068 :: "(u16 \<times> u16) list" where
  "set_registers_4068 =
     [(0x010, 0x08), (0x011, 0x00), (0x012, 0x06), (0x021, 0x01), (0x022, 0x01), (0x023, 0x01),
      (0x025, 0x01), (0x026, 0x07), (0x06E, 0x01), (0x100, 0x01), (0x101, 0xF8), (0x102, 0x14),
      (0x103, 0x02), (0x104, 0x22), (0x105, 0x37), (0x106, 0x00), (0x107, 0x00), (0x108, 0x00),
      (0x109, 0x80), (0x10A, 0x00), (0x10B, 0x34), (0x10C, 0x0D), (0x10D, 0x97), (0x10E, 0xF2),
      (0x10F, 0x69), (0x115, 0x00), (0x117, 0xF4), (0x120, 0xE8), (0x121, 0x84), (0x124, 0x8C),
      (0x125, 0x86), (0x126, 0xC3), (0x127, 0x0F), (0x128, 0x1F), (0x129, 0x0B), (0x12A, 0x0B),
      (0x12B, 0x06), (0x12C, 0x00), (0x12D, 0x00), (0x12F, 0x00), (0x130, 0xE8), (0x131, 0x84),
      (0x132, 0x00), (0x133, 0x00), (0x134, 0x8A), (0x135, 0x85), (0x136, 0xC3), (0x137, 0x0F),
      (0x138, 0x1F), (0x139, 0x0B), (0x13A, 0x0B), (0x13B, 0x06), (0x13C, 0x01), (0x13D, 0xF0),
      (0x13E, 0x16), (0x13F, 0x00), (0x150, 0xFF), (0x151, 0x84), (0x152, 0x00), (0x153, 0x00),
      (0x154, 0x89), (0x155, 0x84), (0x156, 0xC3), (0x157, 0x0F), (0x158, 0x1F), (0x159, 0x0D),
      (0x15A, 0x0D), (0x15B, 0x06), (0x15C, 0x01), (0x15D, 0xF0), (0x15E, 0x16), (0x15F, 0x00),
      (0x160, 0x00), (0x161, 0x00), (0x162, 0x04), (0x163, 0x27), (0x164, 0x05), (0x165, 0x00),
      (0x166, 0x01), (0x167, 0x80), (0x16A, 0x07), (0x16B, 0x00), (0x180, 0xA2), (0x183, 0x04),
      (0x188, 0x0F), (0x189, 0x77), (0x200, 0x80), (0x201, 0x00), (0x202, 0x10), (0x203, 0xC8),
      (0x210, 0x5A), (0x211, 0xAA), (0x212, 0x00), (0x213, 0x00), (0x214, 0x8F), (0x216, 0x0F),
      (0x218, 0xAA), (0x219, 0xAA), (0x21C, 0x8A), (0x21E, 0x0A), (0x220, 0x3E), (0x221, 0x31),
      (0x223, 0x3E), (0x224, 0x31), (0x225, 0x00), (0x226, 0x7F), (0x228, 0x03), (0x22A, 0x1A),
      (0x22D, 0xE0), (0x22F, 0x00), (0x230, 0x0D), (0x233, 0x20), (0x330, 0x00), (0x331, 0x00),
      (0x332, 0x00), (0xF0D, 0x03), (0xF10, 0x04), (0xF11, 0x00), (0xF1C, 0x07), (0xF21, 0x68),
      (0xF22, 0xFF), (0xF23, 0x84), (0xF26, 0x98), (0xF34, 0x28), (0xF35, 0x11), (0xF44, 0x25)]"

definition set_registers_tx_4068 :: "(u16 \<times> u16) list" where
  "set_registers_tx_4068 =
     [(0x030, 0x0A), (0x031, 0x10), (0x032, 0x35), (0x184, 0x00), (0xF00, 0x0F), (0xF18, 0x06)]"

definition set_registers_rx_4068 :: "(u16 \<times> u16) list" where
  "set_registers_rx_4068 =
     [(0x030, 0x0A), (0x031, 0x10), (0x032, 0x35), (0x184, 0x00), (0xF00, 0x0F), (0xF18, 0x06)]"

lemma register_table_lengths [simp]:
  "length set_registers_4068 = 126" "length set_registers_tx_4068 = 6" "length set_registers_rx_4068 = 6"
  by (simp_all add: set_registers_4068_def set_registers_tx_4068_def set_registers_rx_4068_def)

section \<open>Phases of the driver\<close>

text \<open>The values of \<^verbatim>\<open>ubRFState\<close>, ordered by their numbers in the source.\<close>

datatype trxstate =
    trxstate_off | trxstate_rx | trxstate_rxwor
  | trxstate_wait_xtal | trxstate_xtal_ready | trxstate_pll_ranging
  | trxstate_pll_ranging_done | trxstate_pll_settling | trxstate_pll_settled
  | trxstate_tx_xtalwait | trxstate_tx_longpreamble | trxstate_tx_shortpreamble
  | trxstate_tx_packet | trxstate_tx_waitdone | trxstate_txcw_xtalwait
  | trxstate_txstream_xtalwait | trxstate_txstream

primrec trx_code :: "trxstate \<Rightarrow> nat" where
  "trx_code trxstate_off = 0x00"
| "trx_code trxstate_rx = 0x01"
| "trx_code trxstate_rxwor = 0x02"
| "trx_code trxstate_wait_xtal = 0x03"
| "trx_code trxstate_xtal_ready = 0x04"
| "trx_code trxstate_pll_ranging = 0x05"
| "trx_code trxstate_pll_ranging_done = 0x06"
| "trx_code trxstate_pll_settling = 0x07"
| "trx_code trxstate_pll_settled = 0x08"
| "trx_code trxstate_tx_xtalwait = 0x09"
| "trx_code trxstate_tx_longpreamble = 0x0A"
| "trx_code trxstate_tx_shortpreamble = 0x0B"
| "trx_code trxstate_tx_packet = 0x0C"
| "trx_code trxstate_tx_waitdone = 0x0D"
| "trx_code trxstate_txcw_xtalwait = 0x0E"
| "trx_code trxstate_txstream_xtalwait = 0x0F"
| "trx_code trxstate_txstream = 0x10"

lemma trx_code_inject: "trx_code a = trx_code b \<longleftrightarrow> a = b"
  by (cases a; cases b) simp_all

instantiation trxstate :: linorder
begin

definition less_eq_trxstate :: "trxstate \<Rightarrow> trxstate \<Rightarrow> bool" where
  "less_eq_trxstate a b \<longleftrightarrow> trx_code a \<le> trx_code b"

definition less_trxstate :: "trxstate \<Rightarrow> trxstate \<Rightarrow> bool" where
  "less_trxstate a b \<longleftrightarrow> trx_code a < trx_code b"

instance
  by standard (auto simp: less_eq_trxstate_def less_trxstate_def trx_code_inject)

end

end
