(* ===== verification/Radio_Port.thy ===== *)
theory Radio_Port
  imports Board_IO Radio_Regs
begin

text \<open>
  The register access of the radio driver over SPI (\<^verbatim>\<open>radio/Radio_Drv.c\<close>), polling of a register
  with fuel, and the view of the chip these accesses give: the value last written to a register.
\<close>

section \<open>Register access\<close>

definition SpiWriteSingleAddressRegister :: "u8 \<Rightarrow> u8 \<Rightarrow> history \<Rightarrow> history" where
  "SpiWriteSingleAddressRegister a v h = SpiSend [a OR 0x80, v] # h"

definition long_address :: "u16 \<Rightarrow> u8 list" where
  "long_address a = [ucast (drop_bit 8 (a AND 0xFF00)), ucast (a AND 0x00FF)]"

definition SpiWriteLongAddressRegister :: "u16 \<Rightarrow> u8 \<Rightarrow> history \<Rightarrow> history" where
  "SpiWriteLongAddressRegister a v h = SpiSend (long_address (a OR 0xF000) @ [v]) # h"

definition SpiWriteData :: "u8 list \<Rightarrow> u8 \<Rightarrow> history \<Rightarrow> history result" where
  "SpiWriteData buf len h =
     (if unat len \<le> length buf then Inr (SpiSend ((REG_FIFODATA OR 0x80) # take (unat len) buf) # h)
      else Inl OutOfBounds)"

text \<open>A transfer sends \<open>tx\<close> and receives \<open>n\<close> bytes, which the board answers.\<close>

definition spi_transfer :: "env \<Rightarrow> u8 list \<Rightarrow> nat \<Rightarrow> history \<Rightarrow> u8 list \<times> history" where
  "spi_transfer e tx n h =
     (let rx = map (spi_reply e h tx) [0..<n] in (rx, SpiRecv tx rx # h))"

definition SpiReadSingleAddressRegister :: "env \<Rightarrow> u8 \<Rightarrow> history \<Rightarrow> u8 \<times> history" where
  "SpiReadSingleAddressRegister e a h =
     (let (rx, h) = spi_transfer e [a AND 0x7F] 1 h in (rx ! 0, h))"

definition SpiReadLongAddressRegister :: "env \<Rightarrow> u16 \<Rightarrow> history \<Rightarrow> u8 \<times> history" where
  "SpiReadLongAddressRegister e a h =
     (let (rx, h) = spi_transfer e (long_address (a OR 0x7000)) 1 h in (rx ! 0, h))"

definition SpiReadData :: "env \<Rightarrow> u8 list \<Rightarrow> u8 \<Rightarrow> history \<Rightarrow> (u8 list \<times> history) result" where
  "SpiReadData e buf len h =
     (if unat len \<le> length buf
      then (let (rx, h) = spi_transfer e [REG_FIFODATA AND 0x7F] (unat len) h
            in Inr (rx @ drop (unat len) buf, h))
      else Inl OutOfBounds)"

abbreviation "w1 \<equiv> SpiWriteSingleAddressRegister"
abbreviation "w2 \<equiv> SpiWriteLongAddressRegister"
abbreviation "r1 \<equiv> SpiReadSingleAddressRegister"
abbreviation "r2 \<equiv> SpiReadLongAddressRegister"

definition bus :: "(history \<Rightarrow> history) list \<Rightarrow> history \<Rightarrow> history" where
  "bus fs h = fold (\<lambda>f. f) fs h"

lemma bus_simps [simp]:
  "bus [] h = h"
  "bus (f # fs) h = bus fs (f h)"
  by (simp_all add: bus_def)

definition Ax5043_Spi_Reset :: "history \<Rightarrow> history" where
  "Ax5043_Spi_Reset h =
     (let h = SpiSend [REG_PWRMODE OR 0x80, 0x80] # h in SpiSend [REG_PWRMODE OR 0x80, 0x00] # h)"

text \<open>A register is read until the value is right, at most as often as the fuel says.\<close>

primrec poll_until ::
    "nat \<Rightarrow> (history \<Rightarrow> u8 \<times> history) \<Rightarrow> (u8 \<Rightarrow> bool) \<Rightarrow> history \<Rightarrow> history result" where
  "poll_until 0 rd ok h = Inl OutOfFuel"
| "poll_until (Suc n) rd ok h =
     (case rd h of (v, h) \<Rightarrow> if ok v then Inr h else poll_until n rd ok h)"

section \<open>The chip as the writes leave it\<close>

fun chip_reg :: "u8 \<Rightarrow> history \<Rightarrow> u8 option" where
  "chip_reg a [] = None"
| "chip_reg a (SpiSend [x, v] # h) = (if x = a OR 0x80 then Some v else chip_reg a h)"
| "chip_reg a (_ # h) = chip_reg a h"

fun chip_long_reg :: "u16 \<Rightarrow> history \<Rightarrow> u8 option" where
  "chip_long_reg a [] = None"
| "chip_long_reg a (SpiSend [x, y, v] # h) =
     (if [x, y] = long_address (a OR 0xF000) then Some v else chip_long_reg a h)"
| "chip_long_reg a (_ # h) = chip_long_reg a h"

lemma chip_reg_w1 [simp]: "chip_reg a (w1 b v h) = (if b OR 0x80 = a OR 0x80 then Some v else chip_reg a h)"
  by (simp add: SpiWriteSingleAddressRegister_def)

lemma chip_reg_w2 [simp]: "chip_reg a (w2 b v h) = chip_reg a h"
  by (simp add: SpiWriteLongAddressRegister_def long_address_def)

lemma chip_long_reg_w1 [simp]: "chip_long_reg a (w1 b v h) = chip_long_reg a h"
  by (simp add: SpiWriteSingleAddressRegister_def)

lemma chip_long_reg_w2 [simp]:
  "chip_long_reg a (w2 b v h) =
     (if long_address (b OR 0xF000) = long_address (a OR 0xF000) then Some v else chip_long_reg a h)"
  by (simp add: SpiWriteLongAddressRegister_def long_address_def)

lemma chip_read [simp]:
  "chip_reg a (snd (r1 e b h)) = chip_reg a h"
  "chip_reg a (snd (r2 e c h)) = chip_reg a h"
  "chip_long_reg d (snd (r1 e b h)) = chip_long_reg d h"
  "chip_long_reg d (snd (r2 e c h)) = chip_long_reg d h"
  by (simp_all add: SpiReadSingleAddressRegister_def SpiReadLongAddressRegister_def
      spi_transfer_def Let_def)

lemma chip_read_eq:
  "r1 e b h = (v, h') \<Longrightarrow> chip_reg a h' = chip_reg a h"
  "r2 e c h = (v, h') \<Longrightarrow> chip_reg a h' = chip_reg a h"
  using chip_read(1) [of a e b h] chip_read(2) [of a e c h] by simp_all

lemma chip_fold_w2 [simp]: "chip_reg a (fold (\<lambda>i. w2 (f i) (g i)) is h) = chip_reg a h"
  by (induction "is" arbitrary: h) simp_all

lemma chip_spi_reset [simp]:
  "chip_reg REG_PWRMODE (Ax5043_Spi_Reset h) = Some 0"
  "a OR 0x80 \<noteq> REG_PWRMODE OR 0x80 \<Longrightarrow> chip_reg a (Ax5043_Spi_Reset h) = chip_reg a h"
  by (auto simp: Ax5043_Spi_Reset_def Let_def)

lemma poll_until_chip: "poll_until n (r1 e b) ok h = Inr h' \<Longrightarrow> chip_reg a h' = chip_reg a h"
proof (induction n arbitrary: h)
  case 0
  then show ?case by simp
next
  case (Suc n)
  then show ?case by (auto split: prod.splits if_splits simp: chip_read_eq(1))
qed

end
