(* ===== verification/Radio_Core.thy ===== *)
theory Radio_Core
  imports Radio_Port
begin

text \<open>
  The radio driver (\<^verbatim>\<open>radio/Radio_Common.c\<close>) as far as it does not wait for its interrupt task:
  register setup, reset, receiving, transmitting, power, and the calibration of the oscillator
  current. The log lines of the source are compiled out at its debug level; register reads that
  stand in their arguments are not made.
\<close>

section \<open>State\<close>

record rconfig =
  axradio_phy_preamble_len :: u8
  axradio_framing_synclen :: u8
  axradio_phy_preamble_flags :: u8
  axradio_phy_preamble_byte :: u8
  axradio_phy_preamble_appendbits :: u8
  axradio_phy_preamble_appendpattern :: u8
  axradio_phy_chanfreq :: u32
  axradio_phy_chanpllrnginit :: u8
  axradio_phy_rssioffset :: int
  axradio_phy_rssireference :: u8
  axradio_framing_syncflags :: u8
  axradio_framing_syncword :: "u8 list"

text \<open>The configuration of the 40.68 MHz channel (\<^verbatim>\<open>radio/Radio_4068.c\<close>).\<close>

definition rf_4068_config_init :: rconfig where
  "rf_4068_config_init =
     \<lparr>axradio_phy_preamble_len = 16, axradio_framing_synclen = 16,
      axradio_phy_preamble_flags = 0x38, axradio_phy_preamble_byte = 0x55,
      axradio_phy_preamble_appendbits = 0, axradio_phy_preamble_appendpattern = 0x00,
      axradio_phy_chanfreq = 0x01908aa3, axradio_phy_chanpllrnginit = 0xFF,
      axradio_phy_rssioffset = 64, axradio_phy_rssireference = 0x36,
      axradio_framing_syncflags = 0x38, axradio_framing_syncword = [0x55, 0x5a, 0x33, 0x55]\<rparr>"

record radio =
  config :: rconfig
  ubRssi :: int
  ubRFState :: trxstate
  TXBuff :: "u8 list"
  TxLen :: u8
  RXBuff :: "u8 list"
  RxLen :: u8
  axradio_phy_chanpllrng :: u8
  axradio_power_now :: u8
  RegValue :: "(u16 \<times> u16) list"
  TXRegValue :: "(u16 \<times> u16) list"
  RXRegValue :: "(u16 \<times> u16) list"
  axradio_txbuffer_cnt :: u32

text \<open>The three register tables and the two buffers have the sizes the structure declares.\<close>

definition radio_ok :: "radio \<Rightarrow> bool" where
  "radio_ok d \<longleftrightarrow> length (RegValue d) = 126 \<and> length (TXRegValue d) = 6 \<and>
     length (RXRegValue d) = 6 \<and> length (TXBuff d) = 64 \<and> length (RXBuff d) = 64"

section \<open>Registers\<close>

definition axradio_get_pllvcoi :: "env \<Rightarrow> history \<Rightarrow> u8 \<times> history" where
  "axradio_get_pllvcoi e h = r2 e REG_PLLVCOI h"

definition write_row :: "(u16 \<times> u16) list \<Rightarrow> nat \<Rightarrow> history \<Rightarrow> history" where
  "write_row rows i = w2 (fst (rows ! i)) (ucast (snd (rows ! i)))"

definition InitAx5043REG :: "env \<Rightarrow> radio \<Rightarrow> history \<Rightarrow> history" where
  "InitAx5043REG e d h =
     (let h = fold (write_row (RegValue d)) [0..<125] h;
          (v, h) = r2 e REG_PKTLENOFFSET h
      in bus [w2 REG_PKTLENOFFSET v, w1 REG_PINFUNCIRQ 0x03, w2 REG_PKTSTOREFLAGS 0x15] h)"

definition ax5043_init_registers_common :: "env \<Rightarrow> radio \<Rightarrow> history \<Rightarrow> u8 \<times> history" where
  "ax5043_init_registers_common e d h =
     (let rng = axradio_phy_chanpllrng d
      in if rng AND 0x20 \<noteq> 0 then (AXRADIO_ERR_RANGING, h)
         else (let (l, h) = r1 e REG_PLLLOOP h;
                   h = (if l AND 0x80 \<noteq> 0 then w1 REG_PLLRANGINGB (rng AND 0x0F) h
                        else w1 REG_PLLRANGINGA (rng AND 0x0F) h);
                   (rng, h) = axradio_get_pllvcoi e h;
                   h = (if rng AND 0x80 \<noteq> 0 then w2 REG_PLLVCOI rng h else h)
               in (AXRADIO_ERR_NOERROR, h)))"

definition Ax5043SetRegisters_TX :: "env \<Rightarrow> radio \<Rightarrow> history \<Rightarrow> u8 \<times> history" where
  "Ax5043SetRegisters_TX e d h =
     ax5043_init_registers_common e d (fold (write_row (TXRegValue d)) [0..<6] h)"

definition Ax5043SetRegisters_RX :: "env \<Rightarrow> radio \<Rightarrow> history \<Rightarrow> u8 \<times> history" where
  "Ax5043SetRegisters_RX e d h =
     ax5043_init_registers_common e d (fold (write_row (RXRegValue d)) [0..<6] h)"

definition Ax5043_Reset :: "nat \<Rightarrow> env \<Rightarrow> history \<Rightarrow> history result" where
  "Ax5043_Reset n e h =
     bind_r
       (poll_until n (r1 e REG_SCRATCH) (\<lambda>v. v = 0x55)
         (bus [Ax5043_Spi_Reset, w1 REG_PWRMODE 0x00, w1 REG_SCRATCH 0x55] h))
       (\<lambda>h. Inr (bus [w1 REG_PINFUNCIRQ 0x01, w1 REG_PINFUNCIRQ 0x00, w1 REG_PINFUNCIRQ 0x03] h))"

definition Ax5043ReceiverON :: "radio \<times> history \<Rightarrow> radio \<times> history" where
  "Ax5043ReceiverON = (\<lambda>(d, h).
     let h = bus [w2 REG_RSSIREFERENCE (axradio_phy_rssireference (config d)),
                  w2 REG_TMGRXPREAMBLE1 0x00, w2 REG_PKTSTOREFLAGS 0x50,
                  w1 REG_FIFOSTAT 0x03, w1 REG_PWRMODE PWRSTATE_FULL_RX] h;
         d = d\<lparr>ubRFState := trxstate_rx\<rparr>
     in (d, bus [w1 REG_IRQMASK0 0x01, w1 REG_IRQMASK1 0x00] h))"

definition Ax5043Receiver_Continuous :: "env \<Rightarrow> radio \<times> history \<Rightarrow> radio \<times> history" where
  "Ax5043Receiver_Continuous e = (\<lambda>(d, h).
     let h = bus [w1 REG_RADIOEVENTMASK0 0x04,
                  w2 REG_RSSIREFERENCE (axradio_phy_rssireference (config d)),
                  w2 REG_TMGRXAGC 0, w2 REG_TMGRXPREAMBLE1 0, w2 REG_PKTMISCFLAGS 0] h;
         (v, h) = r2 e REG_PKTSTOREFLAGS h;
         h = bus [w2 REG_PKTSTOREFLAGS (v AND NOT 0x40), w1 REG_IRQMASK0 0x01,
                  w1 REG_FIFOSTAT 0x03, w1 REG_PWRMODE PWRSTATE_FULL_RX] h;
         d = d\<lparr>ubRFState := trxstate_rx\<rparr>
     in (d, w1 REG_IRQMASK1 0x00 h))"

definition Ax5043_OFF :: "radio \<times> history \<Rightarrow> radio \<times> history" where
  "Ax5043_OFF = (\<lambda>(d, h).
     let h = bus [w1 REG_IRQMASK0 0x00, w1 REG_IRQMASK1 0x00, w1 REG_PWRMODE PWRSTATE_XTAL_ON,
                  w2 REG_LPOSCCONFIG 0x00] h
     in (d\<lparr>ubRFState := trxstate_off\<rparr>, w1 REG_PWRMODE PWRSTATE_POWERDOWN h))"

text \<open>The carrier frequency, written byte by byte.\<close>

definition write_freq :: "radio \<Rightarrow> history \<Rightarrow> history" where
  "write_freq d =
     (let f = axradio_phy_chanfreq (config d)
      in bus [w1 REG_FREQA0 (ucast f), w1 REG_FREQA1 (ucast (drop_bit 8 f)),
              w1 REG_FREQA2 (ucast (drop_bit 16 f)), w1 REG_FREQA3 (ucast (drop_bit 24 f))])"

definition rf_restart :: "env \<Rightarrow> radio \<times> history \<Rightarrow> radio \<times> history" where
  "rf_restart e dh =
     (let (d, h) = Ax5043_OFF dh;
          h = bus [Ax5043_Spi_Reset, w1 REG_PWRMODE 0x00, w1 REG_PINFUNCIRQ 0x01,
                   w1 REG_PINFUNCIRQ 0x00, w1 REG_PINFUNCIRQ 0x03] h;
          h = InitAx5043REG e d h;
          h = w1 REG_PLLRANGINGA (axradio_phy_chanpllrng d AND 0x0F) h;
          h = write_freq d h
      in (d\<lparr>ubRFState := trxstate_rx\<rparr>, h))"

definition rf_restart_tx :: "nat \<Rightarrow> env \<Rightarrow> radio \<times> history \<Rightarrow> (radio \<times> history) result" where
  "rf_restart_tx n e dh =
     (let (d, h) = Ax5043_OFF dh
      in bind_r (Ax5043_Reset n e h) (\<lambda>h.
           let h = InitAx5043REG e d h;
               h = snd (Ax5043SetRegisters_TX e d h);
               h = w1 REG_PLLRANGINGA (axradio_phy_chanpllrng d AND 0x0F) h
           in Inr (d, write_freq d h)))"

definition ChangeMaxPower :: "radio \<times> history \<Rightarrow> radio \<times> history" where
  "ChangeMaxPower = (\<lambda>(d, h).
     if axradio_power_now d = 0
     then (d\<lparr>axradio_power_now := 1\<rparr>, bus [w2 REG_TXPWRCOEFFB1 0x0C, w2 REG_TXPWRCOEFFB0 0x00] h)
     else (d, h))"

definition BackNormalPower :: "radio \<times> history \<Rightarrow> radio \<times> history" where
  "BackNormalPower = (\<lambda>(d, h).
     if axradio_power_now d \<noteq> 0
     then (d\<lparr>axradio_power_now := 0\<rparr>, bus [w2 REG_TXPWRCOEFFB1 0x07, w2 REG_TXPWRCOEFFB0 0x00] h)
     else (d, h))"

section \<open>Receiving\<close>

text \<open>\<open>n\<close> bytes read from the FIFO and dropped.\<close>

primrec drop_bytes :: "env \<Rightarrow> nat \<Rightarrow> history \<Rightarrow> history" where
  "drop_bytes e 0 h = h"
| "drop_bytes e (Suc n) h = drop_bytes e n (snd (r1 e REG_FIFODATA h))"

text \<open>
  One chunk of the FIFO: its command and length, then its bytes. A data chunk is copied to a
  buffer of 64 bytes, whatever its length; the frequency offset is read and not used.
\<close>

definition receive_chunk :: "env \<Rightarrow> radio \<times> history \<Rightarrow> (radio \<times> history) result" where
  "receive_chunk e = (\<lambda>(d, h).
     let (c, h) = r1 e REG_FIFODATA h;
         n = drop_bit 5 (c AND 0xE0);
         (n, h) = (if n = 0x07 then r1 e REG_FIFODATA h else (n, h));
         cmd = c AND 0x1F
     in if cmd = FIFOCMD_DATA
        then (if n = 0 then Inr (d, h)
              else (let h = drop_bytes e 1 h; n = n - 1
                    in bind_r (SpiReadData e (RXBuff d) n h) (\<lambda>(buf, h).
                         let d = d\<lparr>RXBuff := buf, RxLen := n\<rparr>;
                             (m, h) = r1 e REG_IRQMASK0 h
                         in Inr (d, w1 REG_IRQMASK0 (m AND NOT 0x01) h))))
        else if cmd = FIFOCMD_RFFREQOFFS
        then (if n \<noteq> 3 then Inr (d, drop_bytes e (unat n) h) else Inr (d, drop_bytes e 3 h))
        else if cmd = FIFOCMD_RSSI
        then (if n \<noteq> 1 then Inr (d, drop_bytes e (unat n) h)
              else (let (r, h) = r1 e REG_FIFODATA h
                    in Inr (d\<lparr>ubRssi := sint r - axradio_phy_rssioffset (config d)\<rparr>, h)))
        else if cmd = FIFOCMD_TIMER
        then (if n \<noteq> 3 then Inr (d, drop_bytes e (unat n) h) else Inr (d, drop_bytes e 3 h))
        else if cmd = FIFOCMD_ANTRSSI
        then (if n = 0 then Inr (d, h)
              else Inr (d, drop_bytes e (unat (n - 1)) (drop_bytes e 1 h)))
        else Inr (d, drop_bytes e (unat n) h))"

primrec receive_loop :: "nat \<Rightarrow> env \<Rightarrow> radio \<times> history \<Rightarrow> (radio \<times> history) result" where
  "receive_loop 0 e dh = Inl OutOfFuel"
| "receive_loop (Suc k) e dh =
     (let (q, h) = r1 e REG_IRQREQUEST0 (snd dh)
      in if q AND 0x01 = 0 then Inr (fst dh, h)
         else bind_r (receive_chunk e (fst dh, h)) (receive_loop k e))"

definition ReceiveData :: "nat \<Rightarrow> env \<Rightarrow> radio \<times> history \<Rightarrow> (radio \<times> history) result" where
  "ReceiveData k e = (\<lambda>(d, h).
     let d = d\<lparr>ubRssi := 0, RxLen := 0, RXBuff := replicate 64 0\<rparr>;
         h = snd (r1 e REG_RADIOEVENTREQ0 h)
     in receive_loop k e (d, h))"

definition blank_radio :: radio where
  "blank_radio =
     \<lparr>config = rf_4068_config_init, ubRssi = 0, ubRFState = trxstate_rx, TXBuff = replicate 64 0,
      TxLen = 0, RXBuff = replicate 64 0, RxLen = 0, axradio_phy_chanpllrng = 0,
      axradio_power_now = 0, RegValue = set_registers_4068, TXRegValue = set_registers_tx_4068,
      RXRegValue = set_registers_rx_4068, axradio_txbuffer_cnt = 0\<rparr>"

section \<open>What the setup leaves in the chip\<close>

lemma chip_write_row [simp]: "chip_reg a (write_row rows i h) = chip_reg a h"
  by (simp add: write_row_def)

lemma chip_write_rows [simp]: "chip_reg a (fold (write_row rows) is h) = chip_reg a h"
  by (induction "is" arbitrary: h) simp_all

lemma chip_bus_Init [simp]:
  "a OR 0x80 \<noteq> REG_PINFUNCIRQ OR 0x80 \<Longrightarrow> chip_reg a (InitAx5043REG e d h) = chip_reg a h"
  by (auto simp: InitAx5043REG_def Let_def case_prod_beta)

lemma chip_write_freq [simp]:
  "a OR 0x80 \<notin> {REG_FREQA0 OR 0x80, REG_FREQA1 OR 0x80, REG_FREQA2 OR 0x80, REG_FREQA3 OR 0x80} \<Longrightarrow>
     chip_reg a (write_freq d h) = chip_reg a h"
  by (auto simp: write_freq_def Let_def)

lemma chip_registers_common [simp]:
  "a OR 0x80 \<notin> {REG_PLLRANGINGA OR 0x80, REG_PLLRANGINGB OR 0x80} \<Longrightarrow>
     chip_reg a (snd (ax5043_init_registers_common e d h)) = chip_reg a h"
  by (auto simp: ax5043_init_registers_common_def axradio_get_pllvcoi_def Let_def case_prod_beta)

lemma chip_registers_RX [simp]:
  "a OR 0x80 \<notin> {REG_PLLRANGINGA OR 0x80, REG_PLLRANGINGB OR 0x80} \<Longrightarrow>
     chip_reg a (snd (Ax5043SetRegisters_RX e d h)) = chip_reg a h"
  by (simp add: Ax5043SetRegisters_RX_def)

text \<open>Writes to other long registers leave a register alone.\<close>

lemma long_address_inject:
  "long_address (a OR 0xF000) = long_address (b OR 0xF000) \<longleftrightarrow> a OR 0xF000 = b OR 0xF000"
proof -
  have "x = y" if "long_address x = long_address y" for x y
  proof -
    from that have hi: "(ucast (drop_bit 8 (x AND 0xFF00)) :: u8) = ucast (drop_bit 8 (y AND 0xFF00))"
      and lo: "(ucast (x AND 0x00FF) :: u8) = ucast (y AND 0x00FF)"
      by (simp_all add: long_address_def)
    have m: "(0xFF00 :: u16) = push_bit 8 (mask 8)" "(0x00FF :: u16) = mask 8" by (simp_all add: mask_eq_exp_minus_1)
    show "x = y"
    proof (rule bit_word_eqI)
      fix n
      assume n: "n < LENGTH(16)"
      then have "n - 8 < 8" by simp
      with n show "bit x n = bit y n"
        using arg_cong [OF hi, of "\<lambda>w. bit w (n - 8)"] arg_cong [OF lo, of "\<lambda>w. bit w n"]
        by (cases "n < 8") (simp_all add: m bit_ucast_iff bit_and_iff bit_push_bit_iff bit_mask_iff bit_drop_bit_eq)
    qed
  qed
  then show ?thesis by auto
qed

lemma chip_long_rows:
  "\<forall>i \<in> set is. fst (rows ! i) OR 0xF000 \<noteq> a OR 0xF000 \<Longrightarrow>
     chip_long_reg a (fold (write_row rows) is h) = chip_long_reg a h"
  by (induction "is" arbitrary: h) (simp_all add: write_row_def long_address_inject)

text \<open>
  The setup loop stops one row early. The table has 126 rows, the loop writes 125: the last
  register, 0xF44, keeps whatever value the chip had, although the configuration gives it one.
\<close>

theorem last_register_not_written:
  assumes "RegValue d = set_registers_4068[82 := (REG_PLLVCOI, v)]"
  shows "RegValue d ! 125 = (0xF44, 0x25) \<and>
    chip_long_reg 0xF44 (InitAx5043REG e d h) = chip_long_reg 0xF44 h"
proof -
  have "list_all (\<lambda>(a, v). a OR 0xF000 \<noteq> 0xF44 OR 0xF000)
      (take 125 (set_registers_4068[82 := (REG_PLLVCOI, v)]))"
    by (simp add: set_registers_4068_def)
  then have "\<forall>i \<in> set [0..<125]. fst (RegValue d ! i) OR 0xF000 \<noteq> 0xF44 OR 0xF000"
    by (auto simp: list_all_length assms case_prod_beta)
  from chip_long_rows [OF this, of h]
  have "chip_long_reg 0xF44 (InitAx5043REG e d h) = chip_long_reg 0xF44 h"
    by (simp add: InitAx5043REG_def Let_def case_prod_beta long_address_def)
  moreover have "RegValue d ! 125 = (0xF44, 0x25)" by (simp add: assms set_registers_4068_def)
  ultimately show ?thesis by simp
qed

theorem last_register_not_written_witness:
  "chip_long_reg 0xF44 (InitAx5043REG bench
     (blank_radio\<lparr>RegValue := set_registers_4068[82 := (REG_PLLVCOI, 0xA5)]\<rparr>) []) = None"
  using last_register_not_written
    [of "blank_radio\<lparr>RegValue := set_registers_4068[82 := (REG_PLLVCOI, 0xA5)]\<rparr>"] by simp

section \<open>The FIFO\<close>

text \<open>
  A chip whose FIFO holds given bytes: a read of the FIFO register takes the next ones, and the
  interrupt request says whether any are left. Every other register reads zero.
\<close>

fun fifo_taken :: "history \<Rightarrow> nat" where
  "fifo_taken [] = 0"
| "fifo_taken (SpiRecv tx rx # h) =
     (if tx = [REG_FIFODATA AND 0x7F] then length rx + fifo_taken h else fifo_taken h)"
| "fifo_taken (_ # h) = fifo_taken h"

definition fifo_chip :: "u8 list \<Rightarrow> env" where
  "fifo_chip bs = bench\<lparr>spi_reply := (\<lambda>h tx i.
     if tx = [REG_FIFODATA AND 0x7F]
     then (if fifo_taken h + i < length bs then bs ! (fifo_taken h + i) else 0)
     else if tx = [REG_IRQREQUEST0 AND 0x7F] then (if fifo_taken h < length bs then 1 else 0)
     else 0)\<rparr>"

lemma fifo_taken_simps [simp]:
  "fifo_taken (w1 a v h) = fifo_taken h"
  "fifo_taken (w2 b v h) = fifo_taken h"
  "fifo_taken (snd (r1 e a h)) =
     (if a AND 0x7F = REG_FIFODATA AND 0x7F then Suc (fifo_taken h) else fifo_taken h)"
  by (simp_all add: SpiWriteSingleAddressRegister_def SpiWriteLongAddressRegister_def
      SpiReadSingleAddressRegister_def spi_transfer_def Let_def)

lemma fifo_read:
  "fst (r1 (fifo_chip bs) REG_FIFODATA h) =
     (if fifo_taken h < length bs then bs ! fifo_taken h else 0)"
  "fst (r1 (fifo_chip bs) REG_IRQREQUEST0 h) = (if fifo_taken h < length bs then 1 else 0)"
  by (simp_all add: SpiReadSingleAddressRegister_def spi_transfer_def Let_def fifo_chip_def)

lemma fifo_read_data:
  assumes "unat n \<le> length buf" and "fifo_taken h + unat n \<le> length bs"
  shows "\<exists>h'. SpiReadData (fifo_chip bs) buf n h =
      Inr (take (unat n) (drop (fifo_taken h) bs) @ drop (unat n) buf, h') \<and>
    fifo_taken h' = fifo_taken h + unat n"
proof -
  have "map (spi_reply (fifo_chip bs) h [REG_FIFODATA AND 0x7F]) [0..<unat n] =
      take (unat n) (drop (fifo_taken h) bs)"
    using assms(2) by (intro nth_equalityI) (simp_all add: fifo_chip_def)
  then show ?thesis
    using assms by (simp add: SpiReadData_def spi_transfer_def Let_def)
qed

lemma fifo_next:
  assumes "fifo_taken h < length bs"
  shows "\<exists>h'. r1 (fifo_chip bs) REG_FIFODATA h = (bs ! fifo_taken h, h') \<and>
    fifo_taken h' = Suc (fifo_taken h)"
  using assms fifo_read(1) [of bs h] fifo_taken_simps(3) [of "fifo_chip bs" REG_FIFODATA h]
  by (cases "r1 (fifo_chip bs) REG_FIFODATA h") simp

lemma rssi_chunk:
  assumes "Suc (fifo_taken h) < length bs" and "bs ! fifo_taken h = 0x31"
  shows "\<exists>h'. receive_chunk (fifo_chip bs) (d, h) =
      Inr (d\<lparr>ubRssi := sint (bs ! Suc (fifo_taken h)) - axradio_phy_rssioffset (config d)\<rparr>, h') \<and>
    fifo_taken h' = fifo_taken h + 2"
proof -
  obtain h1 where h1: "r1 (fifo_chip bs) REG_FIFODATA h = (0x31, h1)" "fifo_taken h1 = Suc (fifo_taken h)"
    using fifo_next [of h bs] assms by auto
  obtain h2 where "r1 (fifo_chip bs) REG_FIFODATA h1 = (bs ! Suc (fifo_taken h), h2)"
    "fifo_taken h2 = fifo_taken h + 2"
    using fifo_next [of h1 bs] assms h1 by auto
  with h1 show ?thesis by (simp add: receive_chunk_def Let_def)
qed

lemma data_chunk:
  assumes "drop (fifo_taken h) bs = [0xE1, of_nat (length p + 1), flag] @ p"
    and "length p \<le> length (RXBuff d)" and "length p < 255"
  shows "\<exists>h'. receive_chunk (fifo_chip bs) (d, h) =
      Inr (d\<lparr>RXBuff := p @ drop (length p) (RXBuff d), RxLen := of_nat (length p)\<rparr>, h') \<and>
    fifo_taken h' = length bs"
proof -
  let ?e = "fifo_chip bs" and ?t = "fifo_taken h"
  have len: "length bs = ?t + 3 + length p"
    using arg_cong [OF assms(1), of length] by (cases "?t \<le> length bs") auto
  have nth: "bs ! (?t + i) = ([0xE1, of_nat (length p + 1), flag] @ p) ! i" if "?t + i < length bs" for i
    using that assms(1) by (metis less_imp_le nth_drop add_leD1)
  have b: "bs ! ?t = 0xE1" "bs ! Suc ?t = of_nat (length p + 1)"
    using nth [of 0] nth [of 1] len by simp_all
  obtain h1 where h1: "r1 ?e REG_FIFODATA h = (0xE1, h1)" "fifo_taken h1 = Suc ?t"
    using fifo_next [of h bs] b len by auto
  obtain h2 where h2: "r1 ?e REG_FIFODATA h1 = (of_nat (length p + 1), h2)" "fifo_taken h2 = Suc (Suc ?t)"
    using fifo_next [of h1 bs] b len h1(2) by auto
  let ?h3 = "snd (r1 ?e REG_FIFODATA h2)"
  have n: "of_nat (length p + 1) \<noteq> (0 :: u8)" "of_nat (length p + 1) - 1 = (of_nat (length p) :: u8)"
    "unat (of_nat (length p) :: u8) = length p"
    using assms(3) by (auto simp: word_unat_eq_iff unat_of_nat unat_word_ariths)
  have t3: "fifo_taken ?h3 = ?t + 3" by (simp add: h2(2))
  have "drop (?t + 3) bs = p"
    using arg_cong [OF assms(1), of "drop 3"] by (simp add: add.commute)
  then have tk: "take (length p) (drop (?t + 3) bs) = p" by simp
  have "unat (of_nat (length p) :: u8) \<le> length (RXBuff d)"
    "fifo_taken ?h3 + unat (of_nat (length p) :: u8) \<le> length bs"
    by (simp_all only: n(3) t3 len assms(2) order_refl)
  note rd = fifo_read_data [OF this, unfolded n(3) t3 tk]
  from rd obtain h4 where "SpiReadData ?e (RXBuff d) (of_nat (length p)) ?h3 =
      Inr (p @ drop (length p) (RXBuff d), h4)" "fifo_taken h4 = length bs"
    unfolding len by blast
  with h1 h2 n show ?thesis
    by (simp add: receive_chunk_def Let_def case_prod_beta)
qed

text \<open>
  A packet of up to 64 bytes that stands in the chip's FIFO behind its signal strength is
  taken out whole: the receive buffer starts with its bytes, the length is theirs, the strength is
  the signed value less the offset, and the FIFO is empty.
\<close>

theorem packet_received:
  assumes "fifo_taken h = 0" and "length p \<le> 64"
    and "bs = [0x31, rssi] @ [0xE1, of_nat (length p + 1), flag] @ p"
  shows "\<exists>d' h'. ReceiveData (k + 3) (fifo_chip bs) (d, h) = Inr (d', h') \<and>
    take (length p) (RXBuff d') = p \<and> RxLen d' = of_nat (length p) \<and>
    ubRssi d' = sint rssi - axradio_phy_rssioffset (config d) \<and> fifo_taken h' = length bs"
proof -
  let ?e = "fifo_chip bs"
  let ?d = "d\<lparr>ubRssi := 0, RxLen := 0, RXBuff := replicate 64 0\<rparr>"
  let ?h = "snd (r1 ?e REG_RADIOEVENTREQ0 h)"
  let ?d1 = "?d\<lparr>ubRssi := sint rssi - axradio_phy_rssioffset (config ?d)\<rparr>"
  let ?d2 = "?d1\<lparr>RXBuff := p @ drop (length p) (RXBuff ?d1), RxLen := of_nat (length p)\<rparr>"
  have t0: "fifo_taken ?h = 0" by (simp add: assms(1))
  let ?hq = "snd (r1 ?e REG_IRQREQUEST0 ?h)"
  have q0: "fst (r1 ?e REG_IRQREQUEST0 ?h) = 1" by (simp only: fifo_read t0) (simp add: assms(1,3))
  obtain h1 where h1: "receive_chunk ?e (?d, ?hq) = Inr (?d1, h1)" "fifo_taken h1 = 2"
    using rssi_chunk [of ?hq bs ?d] t0 by (auto simp: assms(3))
  let ?h1 = "snd (r1 ?e REG_IRQREQUEST0 h1)"
  have q1: "fst (r1 ?e REG_IRQREQUEST0 h1) = 1"
    by (simp only: fifo_read h1(2)) (simp add: assms(3))
  obtain h2 where h2: "receive_chunk ?e (?d1, ?h1) = Inr (?d2, h2)" "fifo_taken h2 = length bs"
    using data_chunk [of ?h1 bs p flag ?d1] h1(2) assms(2) by (auto simp: assms(3))
  have q2: "fst (r1 ?e REG_IRQREQUEST0 h2) = 0" by (simp only: fifo_read h2(2)) simp
  have "receive_loop (k + 3) ?e (?d, ?h) = Inr (?d2, snd (r1 ?e REG_IRQREQUEST0 h2))"
    using q0 q1 q2 h1(1) h2(1) by (simp add: numeral_3_eq_3 Let_def case_prod_beta)
  then show ?thesis
    using h2(2) by (simp add: ReceiveData_def Let_def)
qed

theorem packet_received_witness:
  "\<exists>d' h'. ReceiveData 3 (fifo_chip [0x31, 0xF0, 0xE1, 4, 0, 7, 8, 9]) (blank_radio, []) = Inr (d', h') \<and>
    take 3 (RXBuff d') = [7, 8, 9] \<and> RxLen d' = 3 \<and> ubRssi d' = - 80"
  using packet_received [where h = "[]" and p = "[7, 8, 9]" and rssi = "0xF0" and flag = 0 and k = 0
      and bs = "[0x31, 0xF0, 0xE1, 4, 0, 7, 8, 9]" and d = blank_radio]
  by (auto simp: blank_radio_def rf_4068_config_init_def numeral_3_eq_3)

text \<open>
  A data chunk that says it is longer than 65 bytes, which one byte from the air's side of
  the chip decides, is copied beyond the 64 bytes of the receive buffer.
\<close>

theorem long_chunk_overflows:
  assumes "r1 e REG_FIFODATA h = (0xE1, h1)" and "r1 e REG_FIFODATA h1 = (n, h2)"
    and "65 < n" and "length (RXBuff d) = 64"
  shows "receive_chunk e (d, h) = Inl OutOfBounds"
proof -
  have "64 < unat (n - 1)" using assms(3) by unat_arith
  with assms show ?thesis by (auto simp: receive_chunk_def Let_def SpiReadData_def)
qed

theorem long_chunk_overflows_witness:
  "receive_chunk (fifo_chip [0xE1, 66]) (blank_radio, []) = Inl OutOfBounds"
proof -
  obtain h1 where h1: "r1 (fifo_chip [0xE1, 66]) REG_FIFODATA [] = (0xE1, h1)" "fifo_taken h1 = 1"
    using fifo_next [of "[]" "[0xE1, 66]"] by auto
  obtain h2 where h2: "r1 (fifo_chip [0xE1, 66]) REG_FIFODATA h1 = (66, h2)"
    using fifo_next [of h1 "[0xE1, 66]"] h1(2) by auto
  show ?thesis by (rule long_chunk_overflows [OF h1(1) h2]) (simp_all add: blank_radio_def)
qed

end
