(* ===== verification/Radio_Tx.thy ===== *)
theory Radio_Tx
  imports Radio_Core
begin

text \<open>
  Transmitting (\<^verbatim>\<open>TransmitData\<close> and its task in \<^verbatim>\<open>radio/Radio_Common.c\<close>): the state machine that
  fills the FIFO, as one pass of its endless loop per step, and the two ways out of it.
\<close>

text \<open>What a pass decides: go round again, leave by one of the two labels, or return.\<close>

datatype tx_next = TxAgain | TxCommit | TxEnd | TxReturn

definition write_fifo :: "u8 list \<Rightarrow> history \<Rightarrow> history" where
  "write_fifo bs = fold (w1 REG_FIFODATA) bs"

text \<open>The stop bit behind \<open>n\<close> valid bits of a byte, by the bit order of the packet engine.\<close>

definition stop_bit :: "u8 \<Rightarrow> nat \<Rightarrow> u8 \<Rightarrow> u8" where
  "stop_bit cfg n b =
     (if cfg AND 0x80 \<noteq> 0 then (b AND push_bit (8 - n) 0xFF) OR drop_bit n 0x80
      else (b AND drop_bit (8 - n) 0xFF) OR push_bit n 0x01)"

definition tx_sync :: "radio \<times> history \<Rightarrow> (radio \<times> history) result" where
  "tx_sync = (\<lambda>(d, h).
     let c = config d;
         i = (if axradio_framing_synclen c AND 0x07 \<noteq> 0 then 0x04 else 0);
         len_byte = drop_bit 3 (axradio_framing_synclen c + 7);
         h = write_fifo [0x01 OR push_bit 5 (len_byte + 1), axradio_framing_syncflags c OR i] h
     in if unat len_byte \<le> length (axradio_framing_syncword c)
        then Inr (d\<lparr>ubRFState := trxstate_tx_packet\<rparr>,
               write_fifo (take (unat len_byte) (axradio_framing_syncword c)) h)
        else Inl OutOfBounds)"

text \<open>The tail of the short preamble: repeated bytes, then the last bits.\<close>

definition tx_preamble_rest ::
    "env \<Rightarrow> u8 \<Rightarrow> radio \<times> history \<Rightarrow> tx_next \<times> radio \<times> history" where
  "tx_preamble_rest e free = (\<lambda>(d, h).
     if free < 4 then (TxCommit, d, h)
     else (let c = config d; cnt = axradio_txbuffer_cnt d;
               n = (if cnt < 255 * 8 then ucast (drop_bit 3 cnt) else 255 :: u8)
           in if n \<noteq> 0
              then (TxAgain, d\<lparr>axradio_txbuffer_cnt := cnt - push_bit 3 (ucast n)\<rparr>,
                    write_fifo [FIFOCMD_REPEATDATA OR push_bit 5 3,
                      axradio_phy_preamble_flags c, n, axradio_phy_preamble_byte c] h)
              else (let h = write_fifo [FIFOCMD_DATA OR push_bit 5 2, 0x1C] h;
                        (a, h) = r2 e REG_PKTADDRCFG h
                    in (TxAgain, d\<lparr>axradio_txbuffer_cnt := 0\<rparr>,
                        write_fifo [stop_bit a (unat cnt) (axradio_phy_preamble_byte c)] h))))"

definition tx_shortpreamble ::
    "env \<Rightarrow> u8 \<Rightarrow> radio \<times> history \<Rightarrow> (tx_next \<times> radio \<times> history) result" where
  "tx_shortpreamble e free = (\<lambda>(d, h).
     if axradio_txbuffer_cnt d = 0
     then if free < 15 then Inr (TxCommit, d, h)
          else (let c = config d;
                    h = (if axradio_phy_preamble_appendbits c \<noteq> 0
                         then (let h = write_fifo [FIFOCMD_DATA OR push_bit 5 2, 0x1C] h;
                                   (a, h) = r2 e REG_PKTADDRCFG h
                               in write_fifo [stop_bit a (unat (axradio_phy_preamble_appendbits c))
                                    (axradio_phy_preamble_appendpattern c)] h)
                         else h);
                    (f, h) = r1 e REG_FRAMING h
                in if f AND 0x0E = 0x06 \<and> axradio_framing_synclen c \<noteq> 0
                   then map_r (\<lambda>dh. (TxAgain, dh)) (tx_sync (d, h))
                   else Inr (tx_preamble_rest e free (d, h)))
     else Inr (tx_preamble_rest e free (d, h)))"

definition tx_longpreamble ::
    "env \<Rightarrow> u8 \<Rightarrow> radio \<times> history \<Rightarrow> (tx_next \<times> radio \<times> history) result" where
  "tx_longpreamble e free = (\<lambda>(d, h).
     let cnt = axradio_txbuffer_cnt d
     in if cnt = 0
        then tx_shortpreamble e free
               (d\<lparr>ubRFState := trxstate_tx_shortpreamble,
                  axradio_txbuffer_cnt := ucast (axradio_phy_preamble_len (config d))\<rparr>, h)
        else if free < 4 then Inr (TxCommit, d, h)
        else (let n = (if cnt < 7 then ucast cnt else 7 :: u8)
              in Inr (TxAgain, d\<lparr>axradio_txbuffer_cnt := cnt - ucast n\<rparr>,
                   write_fifo [0x02 OR push_bit 5 3, 0x38, push_bit 5 n, 0x55] h)))"

definition tx_packet :: "radio \<times> history \<Rightarrow> (tx_next \<times> radio \<times> history) result" where
  "tx_packet = (\<lambda>(d, h).
     if TxLen d < 11 then Inr (TxCommit, d, h)
     else map_r (\<lambda>h. (TxEnd, d, h))
       (SpiWriteData (TXBuff d) (TxLen d)
         (write_fifo [FIFOCMD_DATA OR push_bit 5 7, 1 + TxLen d, 3] h)))"

definition tx_pass :: "env \<Rightarrow> radio \<times> history \<Rightarrow> (tx_next \<times> radio \<times> history) result" where
  "tx_pass e = (\<lambda>(d, h).
     let (free, h) = r1 e REG_FIFOFREE0 h;
         (more, h) = r1 e REG_FIFOFREE1 h;
         free = (if more \<noteq> 0 then 0xff else free)
     in case ubRFState d of
          trxstate_tx_longpreamble \<Rightarrow> tx_longpreamble e free (d, h)
        | trxstate_tx_shortpreamble \<Rightarrow> tx_shortpreamble e free (d, h)
        | trxstate_tx_packet \<Rightarrow> tx_packet (d, h)
        | _ \<Rightarrow> Inr (TxReturn, d, h))"

text \<open>The code behind the labels: \<^verbatim>\<open>fifocommit\<close> runs on into \<^verbatim>\<open>pktend\<close>.\<close>

definition tx_pktend :: "radio \<times> history \<Rightarrow> radio \<times> history" where
  "tx_pktend = (\<lambda>(d, h).
     (d\<lparr>ubRFState := trxstate_tx_waitdone\<rparr>,
      bus [w1 REG_FIFOSTAT 4, w1 REG_RADIOEVENTMASK0 0x01, w1 REG_IRQMASK0 0x40] h))"

definition tx_fifocommit :: "radio \<times> history \<Rightarrow> radio \<times> history" where
  "tx_fifocommit = (\<lambda>(d, h). tx_pktend (d, w1 REG_FIFOSTAT 4 h))"

primrec TransmitData :: "nat \<Rightarrow> env \<Rightarrow> radio \<times> history \<Rightarrow> (radio \<times> history) result" where
  "TransmitData 0 e dh = Inl OutOfFuel"
| "TransmitData (Suc k) e dh =
     bind_r (tx_pass e dh) (\<lambda>(nxt, dh).
       case nxt of
         TxAgain \<Rightarrow> TransmitData k e dh
       | TxCommit \<Rightarrow> Inr (tx_fifocommit dh)
       | TxEnd \<Rightarrow> Inr (tx_pktend dh)
       | TxReturn \<Rightarrow> Inr dh)"

definition transmit_packet_task ::
    "env \<Rightarrow> u8 list \<Rightarrow> u8 \<Rightarrow> radio \<times> history \<Rightarrow> (radio \<times> history) result" where
  "transmit_packet_task e Buf Length = (\<lambda>(d, h).
     let h = bus [w1 REG_PWRMODE PWRSTATE_XTAL_ON, w1 REG_PWRMODE PWRSTATE_FIFO_ON] h;
         h = snd (Ax5043SetRegisters_TX e d h);
         d = d\<lparr>TxLen := Length + 1\<rparr>
     in if unat Length + 1 \<le> length (TXBuff d) \<and> unat Length \<le> length Buf
        then (let d = d\<lparr>TXBuff := TxLen d # take (unat Length) Buf @
                          drop (unat Length + 1) (TXBuff d),
                        ubRFState := trxstate_tx_xtalwait\<rparr>;
                  h = bus [w1 REG_FIFOTHRESH1 0x00, w1 REG_FIFOTHRESH0 0x80,
                           w1 REG_IRQMASK0 0x00, w1 REG_IRQMASK1 0x01] h
              in Inr (d, snd (r1 e REG_POWSTICKYSTAT h)))
        else Inl OutOfBounds)"

definition Normal_send :: "env \<Rightarrow> u8 list \<Rightarrow> u8 \<Rightarrow> radio \<times> history \<Rightarrow> (radio \<times> history) result" where
  "Normal_send e Buf Length = (\<lambda>(d, h).
     transmit_packet_task e Buf Length (d\<lparr>axradio_txbuffer_cnt := 0\<rparr>, h))"

section \<open>What goes into the FIFO\<close>

fun fifo_written :: "history \<Rightarrow> u8 list" where
  "fifo_written [] = []"
| "fifo_written (SpiSend (x # bs) # h) =
     fifo_written h @ (if x = REG_FIFODATA OR 0x80 then bs else [])"
| "fifo_written (_ # h) = fifo_written h"

lemma fifo_written_w1 [simp]:
  "fifo_written (w1 a v h) =
     fifo_written h @ (if a OR 0x80 = REG_FIFODATA OR 0x80 then [v] else [])"
  by (simp add: SpiWriteSingleAddressRegister_def)

lemma fifo_written_read [simp]:
  "fifo_written (snd (r1 e a h)) = fifo_written h"
  "fifo_written (snd (r2 e c h)) = fifo_written h"
  by (simp_all add: SpiReadSingleAddressRegister_def SpiReadLongAddressRegister_def
      spi_transfer_def Let_def)

lemma fifo_written_write_fifo [simp]: "fifo_written (write_fifo bs h) = fifo_written h @ bs"
proof (induction bs arbitrary: h)
  case Nil
  then show ?case by (simp add: write_fifo_def)
next
  case (Cons b bs)
  have "write_fifo (b # bs) h = write_fifo bs (w1 REG_FIFODATA b h)" by (simp add: write_fifo_def)
  with Cons show ?case by simp
qed

text \<open>A chip with room in its FIFO and in the framing mode the configuration sets.\<close>

definition tx_ready :: "env \<Rightarrow> bool" where
  "tx_ready e \<longleftrightarrow> (\<forall>h. fst (r1 e REG_FIFOFREE1 h) \<noteq> 0 \<and> fst (r1 e REG_FRAMING h) AND 0x0E = 0x06)"

lemma tx_pass_long:
  assumes "tx_ready e" and "config d = rf_4068_config_init"
    and "ubRFState d = trxstate_tx_longpreamble" and "axradio_txbuffer_cnt d = 0"
  shows "\<exists>h'. tx_pass e (d, h) = Inr (TxAgain,
      d\<lparr>ubRFState := trxstate_tx_shortpreamble, axradio_txbuffer_cnt := 0\<rparr>, h') \<and>
    fifo_written h' = fifo_written h @ [0x62, 0x38, 2, 0x55]"
  using assms
  by (simp add: tx_pass_def tx_longpreamble_def tx_shortpreamble_def tx_preamble_rest_def tx_ready_def
      Let_def case_prod_beta rf_4068_config_init_def)

lemma tx_pass_short:
  assumes "tx_ready e" and "config d = rf_4068_config_init"
    and "ubRFState d = trxstate_tx_shortpreamble" and "axradio_txbuffer_cnt d = 0"
  shows "\<exists>h'. tx_pass e (d, h) = Inr (TxAgain, d\<lparr>ubRFState := trxstate_tx_packet\<rparr>, h') \<and>
    fifo_written h' = fifo_written h @ [0x61, 0x38, 0x55, 0x5a]"
  using assms
  by (simp add: tx_pass_def tx_shortpreamble_def tx_sync_def tx_ready_def
      Let_def case_prod_beta rf_4068_config_init_def)

lemma tx_pass_packet:
  assumes "ubRFState d = trxstate_tx_packet" and "unat (TxLen d) \<le> length (TXBuff d)"
  shows "\<exists>h'. tx_pass e (d, h) = Inr (if TxLen d < 11 then TxCommit else TxEnd, d, h') \<and>
    fifo_written h' = fifo_written h @
      (if TxLen d < 11 then [] else [0xE1, 1 + TxLen d, 3] @ take (unat (TxLen d)) (TXBuff d))"
  using assms
  by (simp add: tx_pass_def tx_packet_def SpiWriteData_def Let_def case_prod_beta)

lemma fifo_written_end:
  "fifo_written (snd (tx_pktend (d, h))) = fifo_written h"
  "fifo_written (snd (tx_fifocommit (d, h))) = fifo_written h"
  by (simp_all add: tx_pktend_def tx_fifocommit_def)

definition idle_chip :: env where
  "idle_chip = bench\<lparr>spi_reply := (\<lambda>h tx i.
     if tx = [REG_FIFOFREE1 AND 0x7F] then 1 else if tx = [REG_FRAMING AND 0x7F] then 0x06 else 0)\<rparr>"

lemma idle_chip_ready: "tx_ready idle_chip"
  by (simp add: tx_ready_def idle_chip_def SpiReadSingleAddressRegister_def spi_transfer_def Let_def)

definition sender :: "u8 \<Rightarrow> radio" where
  "sender n =
     \<lparr>config = rf_4068_config_init, ubRssi = 0, ubRFState = trxstate_tx_longpreamble,
      TXBuff = replicate 64 0x31, TxLen = n, RXBuff = replicate 64 0, RxLen = 0,
      axradio_phy_chanpllrng = 0, axradio_power_now = 0, RegValue = [], TXRegValue = [],
      RXRegValue = [], axradio_txbuffer_cnt = 0\<rparr>"



text \<open>
  A packet of fewer than 11 bytes is never sent: its preamble and sync word go out, its bytes
  do not, and the driver still waits for the end of its transmission as if they had.
\<close>

theorem short_packet_not_sent:
  assumes "tx_ready e" and "config d = rf_4068_config_init"
    and "ubRFState d = trxstate_tx_longpreamble" and "axradio_txbuffer_cnt d = 0"
    and "TxLen d < 11" and "unat (TxLen d) \<le> length (TXBuff d)"
  shows "\<exists>d' h'. TransmitData (k + 3) e (d, h) = Inr (d', h') \<and>
    ubRFState d' = trxstate_tx_waitdone \<and>
    fifo_written h' = fifo_written h @ [0x62, 0x38, 2, 0x55] @ [0x61, 0x38, 0x55, 0x5a]"
proof -
  let ?d1 = "d\<lparr>ubRFState := trxstate_tx_shortpreamble, axradio_txbuffer_cnt := 0\<rparr>"
  let ?d2 = "?d1\<lparr>ubRFState := trxstate_tx_packet\<rparr>"
  obtain h1 where h1: "tx_pass e (d, h) = Inr (TxAgain, ?d1, h1)"
    "fifo_written h1 = fifo_written h @ [0x62, 0x38, 2, 0x55]"
    using tx_pass_long [OF assms(1-4)] by blast
  obtain h2 where h2: "tx_pass e (?d1, h1) = Inr (TxAgain, ?d2, h2)"
    "fifo_written h2 = fifo_written h1 @ [0x61, 0x38, 0x55, 0x5a]"
    using tx_pass_short [OF assms(1), of ?d1 h1] assms(2) by auto
  obtain h3 where h3: "tx_pass e (?d2, h2) = Inr (TxCommit, ?d2, h3)" "fifo_written h3 = fifo_written h2"
    using tx_pass_packet [of ?d2 e h2] assms(5,6) by auto
  have "TransmitData (k + 3) e (d, h) = Inr (tx_fifocommit (?d2, h3))"
    by (simp only: numeral_3_eq_3 add_Suc_right TransmitData.simps h1(1) h2(1) h3(1) bind_r_simps
        prod.case tx_next.case)
  then show ?thesis
    using h1(2) h2(2) h3(2) by (simp add: tx_pktend_def tx_fifocommit_def)
qed

theorem short_packet_not_sent_witness:
  "\<exists>d' h'. TransmitData 3 idle_chip (sender 10, []) = Inr (d', h') \<and>
    ubRFState d' = trxstate_tx_waitdone \<and>
    fifo_written h' = [0x62, 0x38, 2, 0x55, 0x61, 0x38, 0x55, 0x5a]"
  using short_packet_not_sent [OF idle_chip_ready, of "sender 10" 0 "[]"]
  by (auto simp: sender_def)

section \<open>Phases of a transmission\<close>

definition sending :: "trxstate \<Rightarrow> bool" where
  "sending p \<longleftrightarrow> trxstate_tx_longpreamble \<le> p \<and> p \<le> trxstate_tx_packet"

lemma sending_simps [simp]:
  "sending trxstate_tx_longpreamble" "sending trxstate_tx_shortpreamble" "sending trxstate_tx_packet"
  by (simp_all add: sending_def less_eq_trxstate_def)

lemma sending_cases:
  "sending p \<Longrightarrow> p = trxstate_tx_longpreamble \<or> p = trxstate_tx_shortpreamble \<or> p = trxstate_tx_packet"
  by (cases p) (simp_all add: sending_def less_eq_trxstate_def)

lemma tx_rest_phase:
  "tx_preamble_rest e free (d, h) = (nxt, d', h') \<Longrightarrow>
     ubRFState d' = ubRFState d \<and> nxt \<noteq> TxReturn"
  by (auto simp: tx_preamble_rest_def Let_def case_prod_beta split: if_splits)

lemma tx_short_phase:
  "tx_shortpreamble e free (d, h) = Inr (nxt, d', h') \<Longrightarrow> sending (ubRFState d) \<Longrightarrow>
     ubRFState d \<le> trxstate_tx_shortpreamble \<Longrightarrow>
     nxt \<noteq> TxReturn \<and> ubRFState d \<le> ubRFState d' \<and> ubRFState d' \<le> trxstate_tx_packet"
  by (auto simp: tx_shortpreamble_def tx_sync_def Let_def case_prod_beta map_r_eq_Inr
      less_eq_trxstate_def dest!: tx_rest_phase split: if_splits)

lemma tx_long_phase:
  "tx_longpreamble e free (d, h) = Inr (nxt, d', h') \<Longrightarrow> ubRFState d = trxstate_tx_longpreamble \<Longrightarrow>
     nxt \<noteq> TxReturn \<and> ubRFState d \<le> ubRFState d' \<and> ubRFState d' \<le> trxstate_tx_packet"
  by (auto simp: tx_longpreamble_def Let_def less_eq_trxstate_def
      dest!: tx_short_phase split: if_splits)

text \<open>A pass of the loop moves the phase forward or keeps it, and never leaves by the return.\<close>

lemma tx_pass_phase:
  assumes "tx_pass e (d, h) = Inr (nxt, d', h')" and "sending (ubRFState d)"
  shows "nxt \<noteq> TxReturn \<and> ubRFState d \<le> ubRFState d' \<and> sending (ubRFState d')"
  using sending_cases [OF assms(2)]
proof (elim disjE)
  assume p: "ubRFState d = trxstate_tx_longpreamble"
  with assms(1) show ?thesis
    by (auto simp: tx_pass_def Let_def case_prod_beta sending_def dest!: tx_long_phase)
next
  assume p: "ubRFState d = trxstate_tx_shortpreamble"
  with assms(1) show ?thesis
    by (auto simp: tx_pass_def Let_def case_prod_beta sending_def less_eq_trxstate_def
        dest!: tx_short_phase)
next
  assume p: "ubRFState d = trxstate_tx_packet"
  with assms(1) show ?thesis
    by (auto simp: tx_pass_def tx_packet_def Let_def case_prod_beta map_r_eq_Inr split: if_splits)
qed

lemma TransmitData_phase:
  assumes "TransmitData k e (d, h) = Inr (d', h')" and "sending (ubRFState d)"
  shows "ubRFState d' = trxstate_tx_waitdone"
  using assms
proof (induction k arbitrary: d h)
  case 0
  then show ?case by simp
next
  case (Suc k)
  then obtain nxt d1 h1 where pass: "tx_pass e (d, h) = Inr (nxt, d1, h1)"
    by (auto simp: bind_r_eq_Inr)
  from tx_pass_phase [OF pass Suc.prems(2)] have p: "nxt \<noteq> TxReturn" "sending (ubRFState d1)" by simp_all
  show ?case
    using Suc.prems(1) Suc.IH [of d1 h1] p
    by (cases nxt) (auto simp: pass tx_fifocommit_def tx_pktend_def)
qed

end
