(* ===== verification/Radio_Calibration.thy ===== *)
theory Radio_Calibration
  imports Radio_Core
begin

text \<open>
  Calibration of the oscillator current (\<^verbatim>\<open>radio/Radio_Common.c\<close>): the tuning voltage, the two
  searches over the current, and the search over the ranges that runs once at start-up. \<open>k\<close> is
  the fuel of each wait for a register.
\<close>

section \<open>Tuning voltage\<close>

definition adc_shot :: "nat \<Rightarrow> env \<Rightarrow> history \<Rightarrow> history result" where
  "adc_shot k e h =
     poll_until k (r2 e REG_GPADCCTRL) (\<lambda>v. v AND 0x80 = 0) (w2 REG_GPADCCTRL 0x84 h)"

definition axradio_tunevoltage :: "nat \<Rightarrow> env \<Rightarrow> history \<Rightarrow> (u16 \<times> history) result" where
  "axradio_tunevoltage k e h =
     bind_r (fold_r (\<lambda>_. adc_shot k e) [0..<64] h) (\<lambda>h.
       fold_r (\<lambda>_ (r, h). bind_r (adc_shot k e h) (\<lambda>h.
           let (hi, h) = r2 e REG_GPADC13VALUE1 h; (lo, h) = r2 e REG_GPADC13VALUE0 h
           in Inr (r + (push_bit 8 (ucast (hi AND 0x03)) OR ucast lo), h)))
         [0..<32] (0, h))"

section \<open>Searching the current\<close>

text \<open>One candidate: the best value and its setting so far, improved if it is better.\<close>

definition try_current ::
    "nat \<Rightarrow> env \<Rightarrow> u8 \<Rightarrow> u16 \<times> u8 \<times> history \<Rightarrow> (u16 \<times> u8 \<times> history) result" where
  "try_current k e cand = (\<lambda>(bestval, bestrng, h).
     if cand AND 0xC0 = 0
     then bind_r (axradio_tunevoltage k e (w2 REG_PLLVCOI (0x80 OR cand) h)) (\<lambda>(val, h).
            Inr (if val < bestval then (val, cand, h) else (bestval, bestrng, h)))
     else Inr (bestval, bestrng, h))"

definition axradio_adjustvcoi :: "nat \<Rightarrow> env \<Rightarrow> u8 \<Rightarrow> history \<Rightarrow> (u8 \<times> history) result" where
  "axradio_adjustvcoi k e rng h =
     (let rng = rng AND 0x7F
      in bind_r
           (fold_r (\<lambda>offs s. bind_r (try_current k e (rng + of_nat offs) s) (\<lambda>s.
                if offs = 0 then Inr s else try_current k e (rng - of_nat offs) s))
             [0..<16] (0xFFFF, rng, h))
           (\<lambda>(bestval, bestrng, h).
             Inr (if bestval \<le> 0x0010 then rng OR 0x80 else bestrng OR 0x80, h)))"

definition calvcoi_round ::
    "nat \<Rightarrow> env \<Rightarrow> u8 \<Rightarrow> u8 \<times> u16 \<times> u16 \<times> history \<Rightarrow> (u8 \<times> u16 \<times> u16 \<times> history) result" where
  "calvcoi_round k e i = (\<lambda>(r, vmin, vmax, h).
     let h = snd (r1 e REG_PLLRANGINGA (w2 REG_PLLVCOI (0x80 OR i) h))
     in bind_r (axradio_tunevoltage k e h) (\<lambda>(curtune, h).
          let h = snd (r1 e REG_PLLRANGINGA h);
              vmax = (if vmax < curtune then curtune else vmax)
          in if curtune < vmin
             then (let (l, h) = r1 e REG_PLLRANGINGA h
                   in Inr (if 0xC0 AND NOT l = 0 then i OR 0x80 else r, curtune, vmax, h))
             else Inr (r, vmin, vmax, h)))"

definition axradio_calvcoi :: "nat \<Rightarrow> env \<Rightarrow> history \<Rightarrow> (u8 \<times> history) result" where
  "axradio_calvcoi k e h =
     bind_r (fold_r (calvcoi_round k e) (map of_nat (rev [0..<0x40])) (0, 0xffff, 0x0000, h))
       (\<lambda>(r, vmin, vmax, h).
         Inr (if r AND 0x80 = 0 \<or> 0xFF00 \<le> vmax \<or> vmin < 0x0100 \<or>
                 sint (ucast vmax - ucast vmin :: u32) < 0x4000
              then 0 else r, h))"

section \<open>Searching the range at start-up\<close>

definition PLLRang_wait_for_xtal :: "nat \<Rightarrow> env \<Rightarrow> history \<Rightarrow> history result" where
  "PLLRang_wait_for_xtal k e h =
     (let (m, h) = r1 e REG_IRQMASK1 h
      in map_r (w1 REG_IRQMASK1 0)
           (poll_until k (r1 e REG_XTALSTATUS) (\<lambda>v. v \<noteq> 0) (w1 REG_IRQMASK1 (m OR 0x01) h)))"

definition range_wait :: "nat \<Rightarrow> env \<Rightarrow> history \<Rightarrow> history result" where
  "range_wait k e = poll_until k (r1 e REG_IRQREQUEST1) (\<lambda>v. v AND 0x10 \<noteq> 0)"

text \<open>
  The local variables of the search. The two tables have ten places and are filled without a
  check; only place 0 has a value at the start, the others are unset and written before read.
\<close>

record ranging =
  range_num :: u8
  range_oldnum :: u8
  range_table :: "u8 list"
  range_tableold :: "u8 list"

definition note_range :: "u8 \<Rightarrow> u8 \<Rightarrow> ranging \<Rightarrow> ranging result" where
  "note_range i pllrng s =
     (if pllrng \<noteq> range_oldnum s
      then bind_r (arr_set (range_table s) (unat (range_num s)) i) (\<lambda>t.
           bind_r (arr_set (range_tableold s) (unat (range_num s)) pllrng) (\<lambda>told.
             Inr (s\<lparr>range_oldnum := pllrng, range_table := t, range_tableold := told,
                    range_num := range_num s + 1\<rparr>)))
      else if range_num s = 0 then Inl OutOfBounds
      else bind_r (arr_get (range_table s) (unat (range_num s) - 1)) (\<lambda>t.
             if t < i
             then map_r (\<lambda>t. s\<lparr>range_table := t\<rparr>)
                    (arr_set (range_table s) (unat (range_num s) - 1) i)
             else Inr s))"

definition ranging_round :: "nat \<Rightarrow> env \<Rightarrow> u8 \<Rightarrow> ranging \<times> history \<Rightarrow> (ranging \<times> history) result" where
  "ranging_round k e i = (\<lambda>(s, h).
     let h = bus [w1 REG_IRQMASK1 0x00, w2 REG_PLLVCOI i, w1 REG_IRQMASK1 0x10] h;
         h = snd (r1 e REG_IRQREQUEST1 h);
         h = w1 REG_PLLRANGINGA 0x18 h
     in bind_r (range_wait k e h) (\<lambda>h.
          let (pllrng, h) = r1 e REG_PLLRANGINGA (w1 REG_IRQMASK1 0x00 h)
          in if pllrng AND 0x20 = 0
             then map_r (\<lambda>s. (s, h)) (note_range i (pllrng AND 0x0f) s)
             else Inr (s, h)))"

text \<open>The last of the entries with the lowest range.\<close>

definition lowest_range :: "ranging \<Rightarrow> u8" where
  "lowest_range s = range_table s ! snd
     (fold (\<lambda>i (old, num). if range_tableold s ! i \<le> old then (range_tableold s ! i, i) else (old, num))
        [0..<unat (range_num s)] (0x0F, 0))"

definition simple_autorange_pll :: "nat \<Rightarrow> env \<Rightarrow> history \<Rightarrow> (u8 \<times> history) result" where
  "simple_autorange_pll k e h =
     (let h = snd (r1 e REG_PLLCPI (snd (r1 e REG_PLLLOOP h)));
          h = bus [w1 REG_PLLLOOP 0x09, w1 REG_PLLCPI 0x08, w1 REG_PWRMODE PWRSTATE_XTAL_ON] h
      in bind_r (PLLRang_wait_for_xtal k e h) (\<lambda>h.
         bind_r (fold_r (ranging_round k e) (map of_nat [0xa2..<0xbf])
           (\<lparr>range_num = 0, range_oldnum = 0, range_table = replicate 10 0,
             range_tableold = replicate 10 0\<rparr>, h)) (\<lambda>(s, h).
         bind_r (range_wait k e (bus [w1 REG_IRQMASK1 0x10, w1 REG_PLLRANGINGA 0x18] h)) (\<lambda>h.
           let h = snd (r1 e REG_PLLRANGINGA (w1 REG_IRQMASK1 0x00 h))
           in Inr (lowest_range s, w1 REG_PWRMODE 0x0c h)))))"

end
