(* ===== verification/Radio_Decoder.thy ===== *)
theory Radio_Decoder
  imports Tester_Prelude
begin

text \<open>
  The decoder of a received meter frame (\<^verbatim>\<open>radio/Radio_Decoder.c\<close>): 16 bytes of Manchester code
  are 8 bytes of data, a matrix of bits whose rows and columns must have even parity; the fields
  of the frame are read from it seven bits per row.
\<close>

section \<open>State and operations\<close>

record decoder =
  msid :: u32
  msv :: u32
  Controllable_Ms_flag :: "u8 list"
  ax_rssi :: int
  frame_version :: u8

definition decoder_boot :: decoder where
  "decoder_boot =
     \<lparr>msid = 0, msv = 0, Controllable_Ms_flag = replicate 10 0, ax_rssi = 0, frame_version = 0\<rparr>"

definition get_buffer_bit :: "u8 \<Rightarrow> nat \<Rightarrow> u8" where
  "get_buffer_bit buff n = (if buff AND push_bit n 1 \<noteq> 0 then 1 else 0)"

text \<open>The four pairs of one received byte, shifted into a byte of data.\<close>

definition demod_byte :: "u8 \<Rightarrow> u8 \<Rightarrow> u8 option" where
  "demod_byte rx acc =
     fold (\<lambda>j r. Option.bind r (\<lambda>acc.
         let acc = push_bit 1 acc;
             hi = get_buffer_bit rx (7 - j * 2); lo = get_buffer_bit rx (6 - j * 2)
         in if hi = 0 \<and> lo = 1 then Some (acc OR 0x01)
            else if hi = lo then None else Some acc))
       [0, 1, 2, 3] (Some acc)"

definition demodulate :: "u8 list \<Rightarrow> u8 list option" where
  "demodulate rx =
     fold (\<lambda>i r. Option.bind r (\<lambda>d.
         map_option (\<lambda>v. d[i div 2 := v]) (demod_byte (rx ! i) (d ! (i div 2)))))
       [0..<16] (Some (replicate 8 0))"

definition validity1 :: "u8 list \<Rightarrow> nat \<Rightarrow> nat" where
  "validity1 d i = sum_list (map (\<lambda>j. if d ! i AND push_bit j 1 \<noteq> 0 then 1 else 0) [0..<8])"

definition validity2 :: "u8 list \<Rightarrow> nat \<Rightarrow> nat" where
  "validity2 d i = sum_list (map (\<lambda>j. if d ! j AND push_bit i 1 \<noteq> 0 then 1 else 0) [0..<8])"

definition frame_valid :: "u8 list \<Rightarrow> bool" where
  "frame_valid d \<longleftrightarrow> list_all (\<lambda>i. validity1 d i mod 2 = 0 \<and> validity2 d i mod 2 = 0) [0..<8]"

text \<open>Bit \<open>k\<close> of the frame's contents, and a number of \<open>n\<close> bits from bit \<open>s\<close> on.\<close>

definition frame_bit :: "u8 list \<Rightarrow> nat \<Rightarrow> u8" where
  "frame_bit d k = get_buffer_bit (d ! (k div 7)) (7 - k mod 7)"

definition frame_number :: "u8 list \<Rightarrow> nat \<Rightarrow> nat \<Rightarrow> u32" where
  "frame_number d s n =
     fold (\<lambda>i number. push_bit 1 number OR ucast (frame_bit d (i + s))) [0..<n] 0"

text \<open>
  The second component says whether the frame asks for the screen to be refreshed
  (\<^verbatim>\<open>set_thread_MS\<close>).
\<close>

definition take_fields :: "u8 list \<Rightarrow> decoder \<Rightarrow> decoder \<times> bool" where
  "take_fields d s =
     (let version = get_buffer_bit (d ! 0) 7 * 0x02 + get_buffer_bit (d ! 0) 6;
          s = s\<lparr>frame_version := version\<rparr>
      in if version = 0
         then if frame_number d 29 5 = 0x1f
              then (let number = frame_number d 2 27;
                        flag = (msid s = number);
                        s = (if msid s \<noteq> number then s\<lparr>msid := number, msv := 0\<rparr> else s)
                    in (s\<lparr>Controllable_Ms_flag := map (\<lambda>i. frame_bit d (i + 34)) [0..<10]\<rparr>, flag))
              else (s\<lparr>msid := frame_number d 2 27, msv := frame_number d 29 27\<rparr>, False)
         else (s\<lparr>Controllable_Ms_flag :=
                   [get_buffer_bit (d ! 0) 5, get_buffer_bit (d ! 0) 4] @ replicate 8 0,
                 msid := frame_number d 4 20, msv := frame_number d 24 20\<rparr>, True))"

definition rf4068_rx_callback :: "u8 \<Rightarrow> int \<Rightarrow> u8 list \<Rightarrow> u8 \<Rightarrow> decoder \<Rightarrow> decoder \<times> bool" where
  "rf4068_rx_callback thread_MS rssi rx_buffer rx_len s =
     (let s = s\<lparr>ax_rssi := rssi\<rparr>
      in if rx_len = 16 \<and> thread_MS = 11
         then case demodulate rx_buffer of
                None \<Rightarrow> (s, False)
              | Some d \<Rightarrow> if frame_valid d then take_fields d s else (s, False)
         else (s, False))"

definition get_ax_msid :: "decoder \<Rightarrow> u32" where "get_ax_msid s = msid s"
definition get_ax_msv :: "decoder \<Rightarrow> u32" where "get_ax_msv s = msv s"
definition get_ax_rssi :: "decoder \<Rightarrow> int" where "get_ax_rssi s = ax_rssi s"
definition get_ax_v :: "decoder \<Rightarrow> u8" where "get_ax_v s = frame_version s"
definition get_ax_flag :: "decoder \<Rightarrow> u8 list" where
  "get_ax_flag s = take 10 (Controllable_Ms_flag s)"

section \<open>Manchester code\<close>

text \<open>The sender's side: a 1 is sent as 01, a 0 as 10, four data bits to a byte.\<close>

definition manchester_half :: "u8 \<Rightarrow> nat \<Rightarrow> u8" where
  "manchester_half b s = byte_of_bits
     (concat (map (\<lambda>j. [\<not> bit b (s - j), bit b (s - j)]) [0, 1, 2, 3]))"

definition manchester :: "u8 list \<Rightarrow> u8 list" where
  "manchester d = concat (map (\<lambda>b. [manchester_half b 7, manchester_half b 3]) d)"

lemma bit_byte_of_bits: "length bs = 8 \<Longrightarrow> n < 8 \<Longrightarrow> bit (byte_of_bits bs) n = rev bs ! n"
  by (simp add: byte_of_bits_def bit_horner_sum_bit_iff)

lemma push_bit_1_u8: "push_bit n 1 = (2 ^ n :: u8)"
  by (simp add: push_bit_eq_mult)

lemma and_push_bit: "b AND push_bit n 1 \<noteq> 0 \<longleftrightarrow> bit b n" for b :: u8
proof (cases "n < 8")
  case True
  then have "(2 ^ n :: u8) \<noteq> 0" by (auto simp: less_8)
  then show ?thesis by (simp add: push_bit_1_u8 and_exp_u8)
next
  case False
  then have "\<not> bit b n" by (auto dest: bit_imp_le_length)
  then show ?thesis by (simp add: push_bit_1_u8 and_exp_u8)
qed

lemma get_buffer_bit_eq: "get_buffer_bit b n = of_bool (bit b n)"
  by (simp only: get_buffer_bit_def and_push_bit) simp

lemma bits_of_half:
  "s < 8 \<Longrightarrow> 3 \<le> s \<Longrightarrow> j < 4 \<Longrightarrow>
     bit (manchester_half b s) (7 - j * 2) = (\<not> bit b (s - j)) \<and>
     bit (manchester_half b s) (6 - j * 2) = bit b (s - j)"
  by (auto simp: manchester_half_def bit_byte_of_bits less_4)

lemma demod_pairs:
  assumes "\<forall>j \<in> set js. bit rx (7 - j * 2) = (\<not> x j) \<and> bit rx (6 - j * 2) = x j"
  shows "fold (\<lambda>j r. Option.bind r (\<lambda>acc.
         let acc = push_bit 1 acc;
             hi = get_buffer_bit rx (7 - j * 2); lo = get_buffer_bit rx (6 - j * 2)
         in if hi = 0 \<and> lo = 1 then Some (acc OR 0x01)
            else if hi = lo then None else Some acc)) js (Some acc) =
    Some (fold (\<lambda>j acc. push_bit 1 acc OR of_bool (x j)) js acc)"
  using assms
proof (induction js arbitrary: acc)
  case Nil
  then show ?case by simp
next
  case (Cons j js)
  from Cons.prems have "bit rx (7 - j * 2) = (\<not> x j)" "bit rx (6 - j * 2) = x j" by simp_all
  then have "(let acc = push_bit 1 acc;
             hi = get_buffer_bit rx (7 - j * 2); lo = get_buffer_bit rx (6 - j * 2)
         in if hi = 0 \<and> lo = 1 then Some (acc OR 0x01)
            else if hi = lo then None else Some acc) = Some (push_bit 1 acc OR of_bool (x j))"
    by (cases "x j") (simp_all only: get_buffer_bit_eq Let_def of_bool_eq if_True if_False
        simp_thms or.right_neutral zero_neq_one one_neq_zero)
  with Cons show ?case by (simp only: fold_Cons comp_def Option.bind.simps) simp
qed

lemma demod_half:
  assumes "s < 8" and "3 \<le> s"
  shows "demod_byte (manchester_half b s) acc =
    Some (fold (\<lambda>j acc. push_bit 1 acc OR of_bool (bit b (s - j))) [0, 1, 2, 3] acc)"
  unfolding demod_byte_def
  by (rule demod_pairs, rule ballI, rule bits_of_half [OF assms]) auto

lemma bit_shift_in:
  "bit (push_bit 1 acc OR of_bool x) n \<longleftrightarrow> (if n = 0 then x else n < 8 \<and> bit acc (n - 1))" for acc :: u8
  by (auto simp: bit_or_iff bit_push_bit_iff bit_of_bool_iff simp del: push_bit_Suc)

lemma demod_both:
  "Option.bind (demod_byte (manchester_half b 7) 0) (demod_byte (manchester_half b 3)) = Some b"
proof -
  have "fold (\<lambda>j acc. push_bit 1 acc OR of_bool (bit b (3 - j))) [0, 1, 2, 3]
      (fold (\<lambda>j acc. push_bit 1 acc OR of_bool (bit b (7 - j))) [0, 1, 2, 3] (0 :: u8)) = b"
  proof (rule bit_word_eqI)
    fix n
    assume "n < LENGTH(8)"
    then have "n < 8" by simp
    then show "bit (fold (\<lambda>j acc. push_bit 1 acc OR of_bool (bit b (3 - j))) [0, 1, 2, 3]
      (fold (\<lambda>j acc. push_bit 1 acc OR of_bool (bit b (7 - j))) [0, 1, 2, 3] (0 :: u8))) n = bit b n"
      unfolding less_8 by (elim disjE) (simp_all only: fold_simps bit_shift_in, simp_all)
  qed
  then show ?thesis by (simp only: demod_half) (simp add: demod_half)
qed

lemma length_manchester [simp]: "length (manchester d) = 2 * length d"
  by (induction d) (simp_all add: manchester_def)

lemma manchester_nth:
  assumes "k < length d"
  shows "manchester d ! (2 * k) = manchester_half (d ! k) 7 \<and>
    manchester d ! (2 * k + 1) = manchester_half (d ! k) 3"
  using assms
proof (induction d arbitrary: k)
  case Nil
  then show ?case by simp
next
  case (Cons b d)
  have "manchester (b # d) = [manchester_half b 7, manchester_half b 3] @ manchester d"
    by (simp add: manchester_def)
  with Cons show ?case by (cases k) simp_all
qed

lemma demodulate_prefix:
  assumes "length d = 8" and "k \<le> 8"
  shows "fold (\<lambda>i r. Option.bind r (\<lambda>d'.
         map_option (\<lambda>v. d'[i div 2 := v]) (demod_byte ((manchester d @ r') ! i) (d' ! (i div 2)))))
       [0..<2 * k] (Some (replicate 8 0)) = Some (take k d @ replicate (8 - k) 0)"
  using assms(2)
proof (induction k)
  case 0
  then show ?case by simp
next
  case (Suc k)
  then have k: "k < 8" by simp
  have rx: "manchester d ! (2 * k) = manchester_half (d ! k) 7"
    "manchester d ! Suc (2 * k) = manchester_half (d ! k) 3"
    using manchester_nth [of k d] k assms(1) by simp_all
  obtain v where v: "demod_byte (manchester_half (d ! k) 7) 0 = Some v"
    and w: "demod_byte (manchester_half (d ! k) 3) v = Some (d ! k)"
    using demod_both [of "d ! k"] by (auto simp: bind_eq_Some_conv)
  have rep: "replicate (8 - k) 0 = (0 :: u8) # replicate (8 - Suc k) 0"
    using k by (simp add: Suc_diff_Suc flip: replicate_Suc)
  have upt: "[0..<2 * Suc k] = [0..<2 * k] @ [2 * k, 2 * k + 1]" by simp
  have "take (Suc k) d = take k d @ [d ! k]" using k assms(1) by (simp add: take_Suc_conv_app_nth)
  then show ?case
    using k assms(1) Suc.IH
    by (simp only: upt fold_append comp_def) (simp add: rx v w rep nth_append list_update_append)
qed

lemma demodulate_manchester: "length d = 8 \<Longrightarrow> demodulate (manchester d @ r) = Some d"
  using demodulate_prefix [of d 8 r] by (simp add: demodulate_def)

section \<open>Parity\<close>

lemma validity_row: "validity1 d i mod 2 = 0 \<longleftrightarrow> even (card {j. j < 8 \<and> bit (d ! i) j})"
proof -
  have "validity1 d i = (\<Sum>j \<in> {..<8}. if bit (d ! i) j then 1 else 0)"
    by (simp only: validity1_def and_push_bit sum_list_distinct_conv_sum_set [OF distinct_upt]
        set_upt atLeast0LessThan)
  also have "\<dots> = card {j. j < 8 \<and> bit (d ! i) j}"
    by (simp add: sum.If_cases card_eq_sum [symmetric] Int_def)
  finally show ?thesis by (simp add: even_iff_mod_2_eq_zero)
qed

lemma validity_column: "validity2 d i mod 2 = 0 \<longleftrightarrow> even (card {j. j < 8 \<and> bit (d ! j) i})"
proof -
  have "validity2 d i = (\<Sum>j \<in> {..<8}. if bit (d ! j) i then 1 else 0)"
    by (simp only: validity2_def and_push_bit sum_list_distinct_conv_sum_set [OF distinct_upt]
        set_upt atLeast0LessThan)
  also have "\<dots> = card {j. j < 8 \<and> bit (d ! j) i}"
    by (simp add: sum.If_cases card_eq_sum [symmetric] Int_def)
  finally show ?thesis by (simp add: even_iff_mod_2_eq_zero)
qed

section \<open>The fields of a frame\<close>

text \<open>
  The contents of a frame, in the order they are sent: the seven high bits of each row. The low
  bit of a row is its check bit; the last row checks the columns.
\<close>

definition payload :: "u8 list \<Rightarrow> bool list" where
  "payload d = concat (map (\<lambda>b. map (bit b) [7, 6, 5, 4, 3, 2, 1]) d)"

definition bits_number :: "bool list \<Rightarrow> nat" where
  "bits_number bs = fold (\<lambda>b n. 2 * n + of_bool b) bs 0"

lemma length_payload [simp]: "length (payload d) = 7 * length d"
  by (induction d) (simp_all add: payload_def)

lemma payload_nth: "k < 7 * length d \<Longrightarrow> payload d ! k = bit (d ! (k div 7)) (7 - k mod 7)"
proof (induction d arbitrary: k)
  case Nil
  then show ?case by simp
next
  case (Cons b d)
  have cons: "payload (b # d) = map (bit b) [7, 6, 5, 4, 3, 2, 1] @ payload d"
    by (simp add: payload_def)
  show ?case
  proof (cases "k < 7")
    case True
    then have "k = 0 \<or> k = 1 \<or> k = 2 \<or> k = 3 \<or> k = 4 \<or> k = 5 \<or> k = 6" by linarith
    then show ?thesis by (elim disjE) (simp_all add: cons)
  next
    case False
    then have "k div 7 = Suc ((k - 7) div 7)" "k mod 7 = (k - 7) mod 7"
      by (simp_all add: le_div_geq le_mod_geq)
    moreover have "payload (b # d) ! k = payload d ! (k - 7)"
    proof -
      have "length (map (bit b) [7, 6, 5, 4, 3, 2, 1]) = 7" by simp
      with False show ?thesis by (simp only: cons nth_append if_False)
    qed
    ultimately show ?thesis using False Cons by simp
  qed
qed

lemma frame_bit_payload:
  "length d = 8 \<Longrightarrow> k < 56 \<Longrightarrow> frame_bit d k = of_bool (payload d ! k)"
  by (simp add: frame_bit_def get_buffer_bit_eq payload_nth)

lemma shift_in_eq: "push_bit 1 x OR of_bool b = 2 * x + of_bool b" for x :: u32
proof -
  have "push_bit 1 x AND of_bool b = 0"
    by (rule bit_word_eqI) (simp only: bit_and_iff bit_push_bit_iff bit_of_bool_iff, simp)
  then have "push_bit 1 x OR of_bool b = push_bit 1 x + of_bool b"
    by (rule disjunctive_add_eq_or [symmetric])
  moreover have "push_bit 1 x = 2 * x" by (simp add: push_bit_eq_mult mult.commute)
  ultimately show ?thesis by (simp only:)
qed

lemma frame_number_Suc:
  assumes "length d = 8" and "s + Suc n \<le> 56"
  shows "frame_number d s (Suc n) = push_bit 1 (frame_number d s n) OR of_bool (payload d ! (s + n))"
proof -
  have "frame_number d s (Suc n) = push_bit 1 (frame_number d s n) OR ucast (frame_bit d (n + s))"
    by (simp add: frame_number_def)
  also have "(ucast (frame_bit d (n + s)) :: u32) = of_bool (payload d ! (s + n))"
    using assms by (simp add: frame_bit_payload add.commute)
  finally show ?thesis .
qed

text \<open>\<open>n\<close> bits of the payload from bit \<open>k\<close> on, as a number.\<close>

definition payload_field :: "u8 list \<Rightarrow> nat \<Rightarrow> nat \<Rightarrow> u32" where
  "payload_field d k n = of_nat (bits_number (take n (drop k (payload d))))"

lemma frame_number_payload:
  assumes "length d = 8" and "s + n \<le> 56"
  shows "frame_number d s n = of_nat (bits_number (take n (drop s (payload d))))"
  using assms(2)
proof (induction n)
  case 0
  then show ?case by (simp add: frame_number_def bits_number_def)
next
  case (Suc n)
  have "take (Suc n) (drop s (payload d)) = take n (drop s (payload d)) @ [payload d ! (s + n)]"
    using Suc.prems assms(1) by (simp add: take_Suc_conv_app_nth)
  then have "bits_number (take (Suc n) (drop s (payload d))) =
      2 * bits_number (take n (drop s (payload d))) + of_bool (payload d ! (s + n))"
    by (simp add: bits_number_def)
  moreover have "frame_number d s (Suc n) = 2 * frame_number d s n + of_bool (payload d ! (s + n))"
    using frame_number_Suc [OF assms(1) Suc.prems] by (simp only: shift_in_eq)
  ultimately show ?case using Suc by simp
qed

lemma bit_frame_number:
  assumes "length d = 8" and "s + n \<le> 56" and "n \<le> 32" and "m < n"
  shows "bit (frame_number d s n) m = payload d ! (s + n - Suc m)"
  using assms(2-4)
proof (induction n arbitrary: m)
  case 0
  then show ?case by simp
next
  case (Suc n)
  have "frame_number d s (Suc n) = push_bit 1 (frame_number d s n) OR of_bool (payload d ! (s + n))"
    by (rule frame_number_Suc [OF assms(1) Suc.prems(1)])
  then have b: "bit (frame_number d s (Suc n)) m =
      (if m = 0 then payload d ! (s + n) else m < 32 \<and> bit (frame_number d s n) (m - 1))"
    by (auto simp: bit_or_iff bit_push_bit_iff bit_of_bool_iff simp del: push_bit_Suc)
  show ?case
  proof (cases m)
    case 0
    with b show ?thesis by simp
  next
    case (Suc m')
    with b Suc.IH [of m'] Suc.prems show ?thesis by simp
  qed
qed

definition sample_frame :: "u8 list" where
  "sample_frame = [0xA5, 0xA5, 0, 0, 0, 0, 0, 0]"

lemma sample_frame_valid: "length sample_frame = 8" "frame_valid sample_frame"
  by (simp_all add: sample_frame_def frame_valid_def validity1_def validity2_def upt_8)

text \<open>
  C31: A frame of the newer versions that arrives intact sets the meter number, the reading and
  the two flags to the numbers in its contents, and asks for the screen to be refreshed.
\<close>

theorem meter_frame_decoded:
  assumes "length d = 8" and "frame_valid d" and "payload d ! 0 \<or> payload d ! 1"
  shows "rf4068_rx_callback 11 rssi (manchester d @ r) 16 s =
    (s\<lparr>ax_rssi := rssi,
       frame_version := 2 * of_bool (payload d ! 0) + of_bool (payload d ! 1),
       Controllable_Ms_flag := [of_bool (payload d ! 2), of_bool (payload d ! 3)] @ replicate 8 0,
       msid := of_nat (bits_number (take 20 (drop 4 (payload d)))),
       msv := of_nat (bits_number (take 20 (drop 24 (payload d))))\<rparr>, True)"
proof -
  have b: "get_buffer_bit (d ! 0) (7 - k) = of_bool (payload d ! k)" if "k < 7" for k
    using that assms(1) by (simp add: get_buffer_bit_eq payload_nth)
  have "get_buffer_bit (d ! 0) 7 = of_bool (payload d ! 0)"
    "get_buffer_bit (d ! 0) 6 = of_bool (payload d ! 1)"
    "get_buffer_bit (d ! 0) 5 = of_bool (payload d ! 2)"
    "get_buffer_bit (d ! 0) 4 = of_bool (payload d ! 3)"
    using b [of 0] b [of 1] b [of 2] b [of 3] by simp_all
  then show ?thesis
    using assms
    by (auto simp: rf4068_rx_callback_def demodulate_manchester take_fields_def Let_def
        frame_number_payload)
qed

text \<open>A valid frame of any version: the fields are taken from it as its first bits say.\<close>

lemma valid_frame_taken:
  assumes "length d = 8" and "frame_valid d"
  shows "rf4068_rx_callback 11 rssi (manchester d @ r) 16 s = take_fields d (s\<lparr>ax_rssi := rssi\<rparr>)"
  using assms by (simp add: rf4068_rx_callback_def demodulate_manchester)

lemma five_ones: "length bs = 5 \<Longrightarrow> of_nat (bits_number bs) = (0x1f :: u32) \<longleftrightarrow> bs = replicate 5 True"
proof -
  assume "length bs = 5"
  then obtain a b c d e where "bs = [a, b, c, d, e]" by (auto simp: length_Suc_conv numeral_eq_Suc)
  moreover have "replicate 5 True = [True, True, True, True, True]" by (simp add: eval_nat_numeral)
  ultimately show ?thesis
    by (cases a; cases b; cases c; cases d; cases e) (simp_all add: bits_number_def)
qed

lemma fields_taken:
  assumes "length d = 8"
  shows "take_fields d s = (s', refresh) \<Longrightarrow> ax_rssi s' = ax_rssi s \<and>
    (if payload d ! 0 \<or> payload d ! 1
     then refresh \<and> msid s' = payload_field d 4 20 \<and> msv s' = payload_field d 24 20
     else msid s' = payload_field d 2 27 \<and>
       (if take 5 (drop 29 (payload d)) = replicate 5 True
        then (refresh \<longleftrightarrow> msid s = payload_field d 2 27) \<and> msv s' = (if refresh then msv s else 0)
        else \<not> refresh \<and> msv s' = payload_field d 29 27))"
proof -
  have "get_buffer_bit (d ! 0) 7 = of_bool (payload d ! 0)" "get_buffer_bit (d ! 0) 6 = of_bool (payload d ! 1)"
    using assms by (simp_all add: get_buffer_bit_eq payload_nth)
  then have version: "get_buffer_bit (d ! 0) 7 * 0x02 + get_buffer_bit (d ! 0) 6 = 0 \<longleftrightarrow> \<not> (payload d ! 0 \<or> payload d ! 1)"
    by simp
  have five: "frame_number d 29 5 = 0x1f \<longleftrightarrow> take 5 (drop 29 (payload d)) = replicate 5 True"
    using assms by (simp add: frame_number_payload five_ones)
  have fields: "frame_number d 4 20 = payload_field d 4 20" "frame_number d 24 20 = payload_field d 24 20"
    "frame_number d 2 27 = payload_field d 2 27" "frame_number d 29 27 = payload_field d 29 27"
    using assms by (simp_all add: frame_number_payload payload_field_def)
  show "take_fields d s = (s', refresh) \<Longrightarrow> ?thesis"
    unfolding take_fields_def Let_def decoder.simps
    by (simp only: version five fields) (auto split: if_splits)
qed

theorem meter_frame_decoded_witness:
  "msid (fst (rf4068_rx_callback 11 (- 80) (manchester sample_frame) 16 decoder_boot)) =
     of_nat (bits_number (take 20 (drop 4 (payload sample_frame)))) \<and>
   snd (rf4068_rx_callback 11 (- 80) (manchester sample_frame) 16 decoder_boot)"
proof -
  have "payload sample_frame ! 0 \<or> payload sample_frame ! 1" by code_simp
  from meter_frame_decoded [OF sample_frame_valid this, of "- 80" "[]" decoder_boot]
  show ?thesis by simp
qed

text \<open>
  C36: One wrong bit in the demodulated matrix is always noticed: the frame is dropped, and apart
  from the signal strength nothing changes.
\<close>

theorem single_bit_error_rejected:
  assumes "length d = 8" and "frame_valid d" and "i < 8" and "j < 8"
  shows "rf4068_rx_callback 11 rssi (manchester (d[i := flip_bit j (d ! i)]) @ r) 16 s =
    (s\<lparr>ax_rssi := rssi\<rparr>, False)"
proof -
  let ?d = "d[i := flip_bit j (d ! i)]"
  let ?row = "\<lambda>d. {k. k < 8 \<and> bit (d ! i) k}"
  have flip: "bit (?d ! i) k = (if k = j then \<not> bit (d ! i) k else bit (d ! i) k)" if "k < 8" for k
    using assms(1,3) that by (simp add: bit_flip_bit_iff)
  have even: "even (card (?row d))"
    using assms(2,3) by (simp add: frame_valid_def validity_row list_all_iff)
  have "odd (card (?row ?d))"
  proof (cases "bit (d ! i) j")
    case True
    then have "?row d = insert j (?row ?d)" "j \<notin> ?row ?d"
      using flip assms(4) by (auto split: if_splits)
    then have "card (?row d) = Suc (card (?row ?d))" by simp
    with even show ?thesis by simp
  next
    case False
    then have "?row ?d = insert j (?row d)" "j \<notin> ?row d"
      using flip assms(4) by (auto split: if_splits)
    then have "card (?row ?d) = Suc (card (?row d))" by simp
    with even show ?thesis by simp
  qed
  then have "\<not> frame_valid ?d"
    using assms(3) by (auto simp: frame_valid_def validity_row list_all_iff)
  then show ?thesis
    using assms(1) by (simp add: rf4068_rx_callback_def demodulate_manchester Let_def)
qed

theorem single_bit_error_rejected_witness:
  "\<not> snd (rf4068_rx_callback 11 (- 80)
      (manchester (sample_frame[3 := flip_bit 4 (sample_frame ! 3)])) 16 decoder_boot)"
  using single_bit_error_rejected [OF sample_frame_valid, of 3 4 "- 80" "[]" decoder_boot] by simp

text \<open>
  The reading of a version 0 frame is not free: its low seven bits lie in the row of column
  checks, so in every frame that is accepted each of them is the parity of seven other bits.
\<close>

theorem reading_holds_check_bits:
  assumes "length d = 8" and "frame_valid d" and "k < 7"
  shows "bit (frame_number d 29 27) (6 - k) = odd (card {r. r < 7 \<and> payload d ! (7 * r + k)})"
proof -
  define col where "col = {r. r < 8 \<and> bit (d ! r) (7 - k)}"
  have even_col: "even (card col)" and fin: "finite col"
    using assms(2,3) by (simp_all add: col_def frame_valid_def validity_column list_all_iff)
  have pay: "payload d ! (7 * r + k) = bit (d ! r) (7 - k)" if "r < 8" for r
    using that assms(1,3) by (simp add: payload_nth)
  then have seven: "{r. r < 7 \<and> payload d ! (7 * r + k)} = col - {7}"
    by (auto simp: col_def)
  have "bit (frame_number d 29 27) (6 - k) = payload d ! (29 + 27 - Suc (6 - k))"
    by (rule bit_frame_number) (use assms in simp_all)
  also have "29 + 27 - Suc (6 - k) = 7 * 7 + k" using assms(3) by simp
  also have "payload d ! (7 * 7 + k) = (7 \<in> col)" by (subst pay) (simp_all add: col_def)
  also have "\<dots> = odd (card (col - {7}))"
  proof (cases "7 \<in> col")
    case True
    with fin have "Suc (card (col - {7})) = card col" by (simp only: card_Suc_Diff1)
    with even_col have "even (Suc (card (col - {7})))" by simp
    with True show ?thesis by simp
  next
    case False
    then have "col - {7} = col" by simp
    with False even_col show ?thesis by simp
  qed
  finally show ?thesis by (simp only: seven)
qed

theorem reading_holds_check_bits_witness:
  "bit (frame_number sample_frame 29 27) 5 = odd (card {r. r < 7 \<and> payload sample_frame ! (7 * r + 1)})"
  using reading_holds_check_bits [OF sample_frame_valid, of 1] by simp

end
