(* ===== verification/Radio_Irq.thy ===== *)
theory Radio_Irq
  imports Radio_Tx Radio_Calibration Radio_Decoder
begin

text \<open>
  The interrupt task of the radio and what waits for it (\<^verbatim>\<open>radio/Radio_4068.c\<close> and the waits of
  \<^verbatim>\<open>radio/Radio_Common.c\<close>): one step of the task per release of its semaphore, by the phase of the
  driver; start-up, which sleeps until the task has moved the phase on; the send timer.
\<close>

section \<open>State\<close>

text \<open>
  The device, the decoder behind it, the screen number \<^verbatim>\<open>MS\<close> of the main loop (which the decoder
  reads, and sets when the screen is to be refreshed), and the history of the board.
\<close>

record rf_state =
  dev :: radio
  dec :: decoder
  thread_MS :: u8
  trace :: history

definition on_dev :: "(radio \<times> history \<Rightarrow> radio \<times> history) \<Rightarrow> rf_state \<Rightarrow> rf_state" where
  "on_dev f s = (case f (dev s, trace s) of (d, h) \<Rightarrow> s\<lparr>dev := d, trace := h\<rparr>)"

definition on_dev_r ::
    "(radio \<times> history \<Rightarrow> (radio \<times> history) result) \<Rightarrow> rf_state \<Rightarrow> rf_state result" where
  "on_dev_r f s = map_r (\<lambda>(d, h). s\<lparr>dev := d, trace := h\<rparr>) (f (dev s, trace s))"

definition on_bus :: "(history \<Rightarrow> history) \<Rightarrow> rf_state \<Rightarrow> rf_state" where
  "on_bus f s = s\<lparr>trace := f (trace s)\<rparr>"

definition set_phase :: "trxstate \<Rightarrow> rf_state \<Rightarrow> rf_state" where
  "set_phase p s = s\<lparr>dev := (dev s)\<lparr>ubRFState := p\<rparr>\<rparr>"

definition IRQ2 :: nat where "IRQ2 = 0x24"

definition IRQ2_Bounding :: "history \<Rightarrow> history" where
  "IRQ2_Bounding h = rt_pin_mode IRQ2 InputPullup h"

section \<open>The interrupt task\<close>

definition rx_report :: "rf_state \<Rightarrow> rf_state" where
  "rx_report s =
     (if RxLen (dev s) \<noteq> 0
      then (let (d, refresh) = rf4068_rx_callback (thread_MS s) (ubRssi (dev s)) (RXBuff (dev s))
                                 (RxLen (dev s)) (dec s)
            in s\<lparr>dec := d, thread_MS := (if refresh then 12 else thread_MS s)\<rparr>)
      else s)"

definition irq_rx :: "nat \<Rightarrow> env \<Rightarrow> rf_state \<Rightarrow> rf_state result" where
  "irq_rx k e s =
     map_r (\<lambda>s.
         let s = on_bus (\<lambda>h. snd (Ax5043SetRegisters_RX e (dev s) h)) s;
             s = on_dev (Ax5043Receiver_Continuous e) s
         in rx_report s)
       (on_dev_r (ReceiveData k e) s)"

definition irq_tx_xtalwait :: "nat \<Rightarrow> env \<Rightarrow> rf_state \<Rightarrow> rf_state result" where
  "irq_tx_xtalwait k e s =
     (let s = on_bus (\<lambda>h. bus [w1 REG_FIFOSTAT 0x03, w1 REG_IRQMASK1 0x00, w1 REG_IRQMASK0 0x08]
                (snd (r1 e REG_RADIOEVENTREQ0 h))) s;
          s = set_phase trxstate_tx_longpreamble s;
          (m, h) = r1 e REG_MODULATION (trace s);
          s = s\<lparr>trace := (if m AND 0x0F = 9
                 then write_fifo [FIFOCMD_DATA OR push_bit 5 7, 2, 0x01, 0x11] h else h)\<rparr>
      in map_r (on_bus (w1 REG_PWRMODE PWRSTATE_FULL_TX)) (on_dev_r (TransmitData k e) s))"

definition irq_tx_waitdone :: "env \<Rightarrow> rf_state \<Rightarrow> rf_state" where
  "irq_tx_waitdone e s =
     (let h = snd (r1 e REG_RADIOEVENTREQ0 (TimerStop # trace s));
          (st, h) = r1 e REG_RADIOSTATE h;
          s = s\<lparr>trace := h\<rparr>
      in if st \<noteq> 0 then s
         else on_dev (rf_restart e) (on_bus (w1 REG_RADIOEVENTMASK0 0x00) s))"

definition rf_4068_task_callback :: "nat \<Rightarrow> env \<Rightarrow> rf_state \<Rightarrow> rf_state result" where
  "rf_4068_task_callback k e s =
     (case ubRFState (dev s) of
        trxstate_rx \<Rightarrow> irq_rx k e s
      | trxstate_wait_xtal \<Rightarrow>
          Inr (set_phase trxstate_xtal_ready (on_bus (w1 REG_IRQMASK1 0x00) s))
      | trxstate_pll_ranging \<Rightarrow>
          Inr (set_phase trxstate_pll_ranging_done (on_bus (w1 REG_IRQMASK1 0x00) s))
      | trxstate_pll_settling \<Rightarrow>
          Inr (set_phase trxstate_pll_settled (on_bus (w1 REG_RADIOEVENTMASK0 0x00) s))
      | trxstate_tx_xtalwait \<Rightarrow> irq_tx_xtalwait k e s
      | trxstate_tx_longpreamble \<Rightarrow> on_dev_r (TransmitData k e) s
      | trxstate_tx_shortpreamble \<Rightarrow> on_dev_r (TransmitData k e) s
      | trxstate_tx_packet \<Rightarrow> on_dev_r (TransmitData k e) s
      | trxstate_tx_waitdone \<Rightarrow> Inr (irq_tx_waitdone e s)
      | _ \<Rightarrow> Inr (on_bus (bus [w1 REG_IRQMASK1 0x00, w1 REG_IRQMASK0 0x00]) s))"

definition rf_4068_send_timer_callback :: "env \<Rightarrow> rf_state \<Rightarrow> rf_state" where
  "rf_4068_send_timer_callback e s =
     (if ubRFState (dev s) \<noteq> trxstate_rx
      then on_dev (rf_restart e) (on_bus (w1 REG_RADIOEVENTMASK0 0x00) s)
      else s)"

section \<open>Start-up\<close>

text \<open>
  Sleeping: the interrupt task has the higher priority, so if the chip raised its line
  (\<open>radio_irq\<close>) the task has run when the sleep is over.
\<close>

definition radio_sleep :: "nat \<Rightarrow> env \<Rightarrow> nat \<Rightarrow> rf_state \<Rightarrow> rf_state result" where
  "radio_sleep k e ms s =
     (let s = on_bus (rt_thread_mdelay ms) s
      in if radio_irq e (trace s) then rf_4068_task_callback k e s else Inr s)"

primrec wait_phase :: "nat \<Rightarrow> nat \<Rightarrow> env \<Rightarrow> trxstate \<Rightarrow> rf_state \<Rightarrow> rf_state result" where
  "wait_phase 0 k e p s = Inl OutOfFuel"
| "wait_phase (Suc n) k e p s =
     bind_r (radio_sleep k e 10 s) (\<lambda>s.
       if ubRFState (dev s) = p then wait_phase n k e p s else Inr s)"

definition RadioXtalON :: "nat \<Rightarrow> nat \<Rightarrow> env \<Rightarrow> rf_state \<Rightarrow> rf_state result" where
  "RadioXtalON n k e s =
     (let s = set_phase trxstate_wait_xtal s;
          (m, h) = r1 e REG_IRQMASK1 (trace s);
          s = s\<lparr>trace := bus [w1 REG_IRQMASK1 (m OR 0x01), w1 REG_PWRMODE PWRSTATE_XTAL_ON] h\<rparr>
      in wait_phase n k e trxstate_wait_xtal s)"

definition ranging_start :: "radio \<Rightarrow> u8" where
  "ranging_start d =
     (if axradio_phy_chanpllrnginit (config d) AND 0xF0 = 0
      then axradio_phy_chanpllrnginit (config d) OR 0x10 else 0x18)"

text \<open>The one channel of \<^verbatim>\<open>CHANNEL_NUM\<close>; start-up goes on whatever the ranging gave.\<close>

definition rf_startup :: "nat \<Rightarrow> nat \<Rightarrow> env \<Rightarrow> rf_state \<Rightarrow> (u8 \<times> rf_state) result" where
  "rf_startup n k e s =
     (let s = on_dev Ax5043_OFF s
      in bind_r (Ax5043_Reset k e (trace s)) (\<lambda>h.
         let h = InitAx5043REG e (dev s) h;
             h = snd (Ax5043SetRegisters_TX e (dev s) h);
             h = bus [w1 REG_PLLLOOP 0x09, w1 REG_PLLCPI 0x08, w1 REG_PWRMODE PWRSTATE_XTAL_ON,
                      w1 REG_MODULATION 0x08, w2 REG_FSKDEV2 0x00, w2 REG_FSKDEV1 0x00,
                      w2 REG_FSKDEV0 0x00] h
         in bind_r (RadioXtalON n k e (s\<lparr>trace := h\<rparr>)) (\<lambda>s.
            let s = on_bus (write_freq (dev s)) s;
                s = set_phase trxstate_pll_ranging s;
                s = on_bus (bus [w1 REG_IRQMASK1 0x10, w1 REG_PLLRANGINGA (ranging_start (dev s))]) s
            in bind_r (wait_phase n k e trxstate_pll_ranging s) (\<lambda>s.
               let s = set_phase trxstate_off s;
                   (r, h) = r1 e REG_PLLRANGINGA (w1 REG_IRQMASK1 0x00 (trace s));
                   s = s\<lparr>dev := (dev s)\<lparr>axradio_phy_chanpllrng := r\<rparr>, trace := h\<rparr>;
                   h = w1 REG_PWRMODE PWRSTATE_POWERDOWN (trace s);
                   h = InitAx5043REG e (dev s) h;
                   h = snd (Ax5043SetRegisters_RX e (dev s) h);
                   h = w1 REG_PLLRANGINGA (axradio_phy_chanpllrng (dev s) AND 0x0F) h;
                   h = write_freq (dev s) h;
                   s = set_phase trxstate_rx (s\<lparr>trace := h\<rparr>)
               in Inr (if axradio_phy_chanpllrng (dev s) AND 0x20 \<noteq> 0
                       then AXRADIO_ERR_RANGING else AXRADIO_ERR_NOERROR, s)))))"

text \<open>The tables copied into the device; the row of the oscillator current is the calibrated one.\<close>

definition load_tables :: "(u16 \<times> u16) list \<Rightarrow> radio \<Rightarrow> radio" where
  "load_tables rows d =
     d\<lparr>config := rf_4068_config_init, RegValue := rows,
       TXRegValue := set_registers_tx_4068, RXRegValue := set_registers_rx_4068\<rparr>"

definition rf_4068_Init ::
    "nat \<Rightarrow> nat \<Rightarrow> env \<Rightarrow> (u16 \<times> u16) list \<Rightarrow> rf_state \<Rightarrow> ((u16 \<times> u16) list \<times> rf_state) result" where
  "rf_4068_Init n k e rows s =
     (let s = on_bus IRQ2_Bounding (s\<lparr>dev := load_tables rows (dev s)\<rparr>)
      in bind_r (rf_startup n k e s) (\<lambda>(_, s).
         bind_r (simple_autorange_pll k e (trace s)) (\<lambda>(vcoi, h).
           let rows = rows[82 := (fst (rows ! 82), ucast vcoi)];
               s = s\<lparr>dev := (dev s)\<lparr>RegValue := rows\<rparr>, trace := h\<rparr>
           in bind_r (rf_startup n k e s) (\<lambda>(_, s).
                let s = on_bus (\<lambda>h. snd (Ax5043SetRegisters_RX e (dev s) h)) s
                in Inr (rows, on_dev Ax5043ReceiverON s)))))"

definition buf1 :: "u8 list" where
  "buf1 = [0x31, 0x31, 0x32, 0x32, 0x33, 0x33, 0x34, 0x34, 0x35, 0x35, 0x36, 0x36, 0x37, 0x37]"

definition sendlow ::
    "nat \<Rightarrow> nat \<Rightarrow> env \<Rightarrow> (u16 \<times> u16) list \<Rightarrow> rf_state \<Rightarrow> ((u16 \<times> u16) list \<times> rf_state) result" where
  "sendlow n k e rows s =
     bind_r (rf_4068_Init n k e rows s) (\<lambda>(rows, s).
       map_r (\<lambda>s. (rows, s)) (on_dev_r (Normal_send e buf1 14) s))"

definition radio_boot :: radio where
  "radio_boot =
     \<lparr>config = rf_4068_config_init, ubRssi = 0, ubRFState = trxstate_off, TXBuff = replicate 64 0,
      TxLen = 0, RXBuff = replicate 64 0, RxLen = 0, axradio_phy_chanpllrng = 0,
      axradio_power_now = 0, RegValue = replicate 126 (0, 0), TXRegValue = replicate 6 (0, 0),
      RXRegValue = replicate 6 (0, 0), axradio_txbuffer_cnt = 0\<rparr>"

section \<open>Phases\<close>

text \<open>The moves an interrupt can make. Everything else of the seventeen phases stays where it is.\<close>

inductive trx_edge :: "trxstate \<Rightarrow> trxstate \<Rightarrow> bool" where
  stay: "trx_edge p p"
| crystal: "trx_edge trxstate_wait_xtal trxstate_xtal_ready"
| ranged: "trx_edge trxstate_pll_ranging trxstate_pll_ranging_done"
| settled: "trx_edge trxstate_pll_settling trxstate_pll_settled"
| started: "trx_edge trxstate_tx_xtalwait trxstate_tx_waitdone"
| filled: "sending p \<Longrightarrow> trx_edge p trxstate_tx_waitdone"
| finished: "trx_edge trxstate_tx_waitdone trxstate_rx"

inductive_simps trx_edge_from_rx: "trx_edge trxstate_rx p"
inductive_simps trx_edge_from_off: "trx_edge trxstate_off p"
inductive_cases trx_edge_to_rxE: "trx_edge p trxstate_rx"

lemma phase_on_bus [simp]: "dev (on_bus f s) = dev s"
  by (simp add: on_bus_def)

lemma trace_on_bus [simp]: "trace (on_bus f s) = f (trace s)"
  by (simp add: on_bus_def)

lemma set_phase_simps [simp]:
  "ubRFState (dev (set_phase p s)) = p" "trace (set_phase p s) = trace s"
  "dec (set_phase p s) = dec s" "thread_MS (set_phase p s) = thread_MS s"
  by (simp_all add: set_phase_def)

lemma on_dev_eq:
  "dev (on_dev f s) = fst (f (dev s, trace s))" "trace (on_dev f s) = snd (f (dev s, trace s))"
  "dec (on_dev f s) = dec s" "thread_MS (on_dev f s) = thread_MS s"
  by (simp_all add: on_dev_def case_prod_beta)

lemma on_dev_r_Inr:
  "on_dev_r f s = Inr s' \<longleftrightarrow>
     (\<exists>d h. f (dev s, trace s) = Inr (d, h) \<and> s' = s\<lparr>dev := d, trace := h\<rparr>)"
  by (auto simp: on_dev_r_def map_r_eq_Inr)

lemma rf_restart_phase: "ubRFState (fst (rf_restart e dh)) = trxstate_rx"
  by (simp add: rf_restart_def Let_def case_prod_beta)

lemma Continuous_phase: "ubRFState (fst (Ax5043Receiver_Continuous e dh)) = trxstate_rx"
  by (cases dh) (simp add: Ax5043Receiver_Continuous_def Let_def case_prod_beta)

lemma rx_report_dev [simp]: "dev (rx_report s) = dev s" "trace (rx_report s) = trace s"
  by (simp_all add: rx_report_def Let_def case_prod_beta)

lemma irq_tx_phase:
  "on_dev_r (TransmitData k e) s = Inr s' \<Longrightarrow> sending (ubRFState (dev s)) \<Longrightarrow>
     ubRFState (dev s') = trxstate_tx_waitdone"
  by (auto simp: on_dev_r_Inr intro: TransmitData_phase)

definition rf_boot :: rf_state where
  "rf_boot = \<lparr>dev = radio_boot, dec = decoder_boot, thread_MS = 11, trace = []\<rparr>"

text \<open>
  C29: One interrupt moves the driver's phase along an edge of the phase graph or leaves it where
  it is, whatever the chip answers.
\<close>

theorem interrupt_follows_phase_graph:
  assumes "rf_4068_task_callback k e s = Inr s'"
  shows "trx_edge (ubRFState (dev s)) (ubRFState (dev s'))"
proof (cases "sending (ubRFState (dev s))")
  case True
  with assms have "on_dev_r (TransmitData k e) s = Inr s'"
    by (auto simp: rf_4068_task_callback_def dest!: sending_cases)
  from irq_tx_phase [OF this True] True show ?thesis by (simp add: trx_edge.filled)
next
  case False
  have start: "ubRFState (dev s') = trxstate_tx_waitdone" if "irq_tx_xtalwait k e s = Inr s'"
    using that
    by (auto simp: irq_tx_xtalwait_def Let_def case_prod_beta map_r_eq_Inr dest!: irq_tx_phase)
  show ?thesis
  proof (cases "ubRFState (dev s)")
    case trxstate_rx
    with assms show ?thesis
      by (auto simp: rf_4068_task_callback_def irq_rx_def map_r_eq_Inr Let_def on_dev_eq
          Continuous_phase trx_edge.stay)
  next
    case trxstate_tx_waitdone
    with assms show ?thesis
      by (auto simp: rf_4068_task_callback_def irq_tx_waitdone_def Let_def case_prod_beta on_dev_eq
          rf_restart_phase trx_edge.stay trx_edge.finished)
  qed (use assms False start in \<open>auto simp: rf_4068_task_callback_def intro: trx_edge.intros\<close>)
qed

theorem interrupt_follows_phase_graph_witness:
  "\<exists>s'. rf_4068_task_callback 1 bench (set_phase trxstate_pll_ranging rf_boot) = Inr s' \<and>
     trx_edge trxstate_pll_ranging (ubRFState (dev s'))"
proof -
  have "rf_4068_task_callback 1 bench (set_phase trxstate_pll_ranging rf_boot) =
      Inr (set_phase trxstate_pll_ranging_done
        (on_bus (w1 REG_IRQMASK1 0x00) (set_phase trxstate_pll_ranging rf_boot)))"
    by (simp add: rf_4068_task_callback_def)
  from interrupt_follows_phase_graph [OF this] this show ?thesis by auto
qed

text \<open>
  While the driver receives, every interrupt ends with the receiver armed again: full receive
  power, the FIFO interrupt on, the phase still receiving.
\<close>

theorem receiver_rearmed:
  assumes "rf_4068_task_callback k e s = Inr s'" and "ubRFState (dev s) = trxstate_rx"
  shows "ubRFState (dev s') = trxstate_rx \<and> chip_reg REG_PWRMODE (trace s') = Some PWRSTATE_FULL_RX \<and>
    chip_reg REG_IRQMASK0 (trace s') = Some 0x01 \<and> chip_reg REG_IRQMASK1 (trace s') = Some 0x00"
  using assms
  by (auto simp: rf_4068_task_callback_def irq_rx_def map_r_eq_Inr Let_def on_dev_eq
      Ax5043Receiver_Continuous_def case_prod_beta)

theorem receiver_rearmed_witness:
  "\<exists>s'. rf_4068_task_callback 1 bench (set_phase trxstate_rx rf_boot) = Inr s' \<and>
     chip_reg REG_PWRMODE (trace s') = Some PWRSTATE_FULL_RX"
proof -
  have "\<exists>s'. rf_4068_task_callback 1 bench (set_phase trxstate_rx rf_boot) = Inr s'"
    by (simp add: rf_4068_task_callback_def irq_rx_def on_dev_r_def ReceiveData_def Let_def
        case_prod_beta bench_def SpiReadSingleAddressRegister_def spi_transfer_def)
  then show ?thesis using receiver_rearmed by force
qed

text \<open>
  After a finished transmission the driver says it receives and does not: the chip is powered
  down with both interrupt masks clear, so no interrupt will ever start the receiver again.
\<close>

theorem deaf_after_sending:
  assumes "rf_4068_task_callback k e s = Inr s'" and "ubRFState (dev s) = trxstate_tx_waitdone"
    and "fst (r1 e REG_RADIOSTATE (snd (r1 e REG_RADIOEVENTREQ0 (TimerStop # trace s)))) = 0"
  shows "ubRFState (dev s') = trxstate_rx \<and> chip_reg REG_PWRMODE (trace s') = Some 0 \<and>
    chip_reg REG_IRQMASK0 (trace s') = Some 0 \<and> chip_reg REG_IRQMASK1 (trace s') = Some 0"
proof -
  have "s' = irq_tx_waitdone e s" using assms(1,2) by (simp add: rf_4068_task_callback_def)
  then show ?thesis
    using assms(3)
    by (simp add: irq_tx_waitdone_def Let_def case_prod_beta on_dev_eq rf_restart_def Ax5043_OFF_def)
qed

theorem deaf_after_sending_witness:
  "\<exists>s'. rf_4068_task_callback 1 bench (set_phase trxstate_tx_waitdone rf_boot) = Inr s' \<and>
     ubRFState (dev s') = trxstate_rx \<and> chip_reg REG_PWRMODE (trace s') = Some 0"
proof -
  have run: "rf_4068_task_callback 1 bench (set_phase trxstate_tx_waitdone rf_boot) =
      Inr (irq_tx_waitdone bench (set_phase trxstate_tx_waitdone rf_boot))"
    by (simp add: rf_4068_task_callback_def)
  have "fst (r1 bench REG_RADIOSTATE h) = 0" for h
    by (simp add: SpiReadSingleAddressRegister_def spi_transfer_def bench_def Let_def)
  with deaf_after_sending [OF run] run show ?thesis by auto
qed

text \<open>
  C1: A valid meter frame that stands in the FIFO as the chip delivers a packet, a chunk with the signal
  strength and one with the 16 bytes, does in one interrupt on the receiving screen what its version
  says. The newer versions set the meter number and the reading and ask the main loop to refresh.
  Version 0 comes in two frames: one sets number and reading and asks for nothing; the other, marked by
  five ones where the reading begins, asks for the refresh if it names the meter the reading is from,
  and else takes over the number with reading 0. The signal strength is set in every case.
\<close>

theorem frame_reaches_screen:
  assumes "ubRFState (dev s) = trxstate_rx" and "thread_MS s = 11" and "fifo_taken (trace s) = 0"
    and "length d = 8" and "frame_valid d"
    and "bs = [0x31, rssi] @ [0xE1, 17, flag] @ manchester d"
  shows "\<exists>s'. rf_4068_task_callback (k + 3) (fifo_chip bs) s = Inr s' \<and>
    get_ax_rssi (dec s') = sint rssi - axradio_phy_rssioffset (config (dev s)) \<and>
    (if payload d ! 0 \<or> payload d ! 1
     then thread_MS s' = 12 \<and> get_ax_msid (dec s') = payload_field d 4 20 \<and> get_ax_msv (dec s') = payload_field d 24 20
     else get_ax_msid (dec s') = payload_field d 2 27 \<and>
       (if take 5 (drop 29 (payload d)) = replicate 5 True
        then if get_ax_msid (dec s) = payload_field d 2 27
             then thread_MS s' = 12 \<and> get_ax_msv (dec s') = get_ax_msv (dec s)
             else thread_MS s' = 11 \<and> get_ax_msv (dec s') = 0
        else thread_MS s' = 11 \<and> get_ax_msv (dec s') = payload_field d 29 27))"
proof -
  have len: "length (manchester d) = 16" using assms(4) by simp
  have "bs = [0x31, rssi] @ [0xE1, of_nat (length (manchester d) + 1), flag] @ manchester d"
    by (simp only: assms(6) len) simp
  from packet_received [OF assms(3) _ this, of k "dev s"] len obtain d' h' where
    rx: "ReceiveData (k + 3) (fifo_chip bs) (dev s, trace s) = Inr (d', h')"
    and buf: "take 16 (RXBuff d') = manchester d" "RxLen d' = 16"
    and rssi: "ubRssi d' = sint rssi - axradio_phy_rssioffset (config (dev s))"
    by auto
  have split: "RXBuff d' = manchester d @ drop 16 (RXBuff d')"
    using append_take_drop_id [of 16 "RXBuff d'"] by (simp only: buf(1))
  have keep: "RXBuff (fst (Ax5043Receiver_Continuous e (d'', h))) = RXBuff d''"
    "RxLen (fst (Ax5043Receiver_Continuous e (d'', h))) = RxLen d''"
    "ubRssi (fst (Ax5043Receiver_Continuous e (d'', h))) = ubRssi d''" for e d'' h
    by (simp_all add: Ax5043Receiver_Continuous_def Let_def case_prod_beta)
  note call = valid_frame_taken [OF assms(4,5), of "ubRssi d'" "drop 16 (RXBuff d')" "dec s",
      folded split, unfolded rssi]
  obtain t refresh where t: "take_fields d (dec s\<lparr>ax_rssi := sint rssi - axradio_phy_rssioffset (config (dev s))\<rparr>) = (t, refresh)"
    by fastforce
  have "\<exists>s'. rf_4068_task_callback (k + 3) (fifo_chip bs) s = Inr s' \<and> dec s' = t \<and>
      thread_MS s' = (if refresh then 12 else 11)"
    using assms(1,2) rssi
    by (simp add: rf_4068_task_callback_def irq_rx_def on_dev_r_def rx Let_def rx_report_def on_dev_eq
        keep buf call t on_bus_def)
  with fields_taken [OF assms(4) t] show ?thesis
    by (auto simp: get_ax_msid_def get_ax_msv_def get_ax_rssi_def split: if_splits)
qed

theorem frame_reaches_screen_witness:
  "\<exists>s'. rf_4068_task_callback 3
       (fifo_chip ([0x31, 0xF0, 0xE1, 17, 0] @ manchester sample_frame)) (set_phase trxstate_rx rf_boot) =
     Inr s' \<and> thread_MS s' = 12 \<and> get_ax_rssi (dec s') = - 80"
proof -
  have "payload sample_frame ! 0 \<or> payload sample_frame ! 1" by code_simp
  with frame_reaches_screen [OF _ _ _ sample_frame_valid,
      of "set_phase trxstate_rx rf_boot" "[0x31, 0xF0, 0xE1, 17, 0] @ manchester sample_frame" "0xF0" 0 0]
  show ?thesis
    by (auto simp: rf_boot_def set_phase_def radio_boot_def rf_4068_config_init_def)
qed

section \<open>Waiting for the chip at start-up\<close>

lemma radio_sleep_xtal:
  assumes "ubRFState (dev s) = trxstate_wait_xtal"
  shows "radio_sleep k e ms s = Inr (if radio_irq e (Delay ms # trace s)
    then set_phase trxstate_xtal_ready (on_bus (\<lambda>h. w1 REG_IRQMASK1 0x00 (Delay ms # h)) s)
    else on_bus (rt_thread_mdelay ms) s)"
  using assms
  by (simp add: radio_sleep_def Let_def rf_4068_task_callback_def on_bus_def rt_thread_mdelay_def)

text \<open>
  The wait for the crystal ends exactly when the chip raises its line during one of the
  sleeps; a chip that never does keeps the whole program in start-up for ever.
\<close>

theorem crystal_wait_ends_iff:
  assumes "ubRFState (dev s) = trxstate_wait_xtal"
  shows "(\<exists>s'. wait_phase n k e trxstate_wait_xtal s = Inr s' \<and>
      ubRFState (dev s') = trxstate_xtal_ready) \<longleftrightarrow>
    (\<exists>j<n. radio_irq e (replicate (Suc j) (Delay 10) @ trace s))"
  using assms
proof (induction n arbitrary: s)
  case 0
  then show ?case by simp
next
  case (Suc n)
  let ?s = "on_bus (rt_thread_mdelay 10) s"
  have app: "replicate (Suc j) (Delay 10) @ trace ?s = replicate (Suc (Suc j)) (Delay 10) @ trace s" for j
    by (simp add: rt_thread_mdelay_def replicate_app_Cons_same)
  show ?case
  proof (cases "radio_irq e (Delay 10 # trace s)")
    case True
    then show ?thesis using Suc.prems by (auto simp: radio_sleep_xtal intro!: exI [of _ 0])
  next
    case False
    then have "wait_phase (Suc n) k e trxstate_wait_xtal s = wait_phase n k e trxstate_wait_xtal ?s"
      using Suc.prems by (simp add: radio_sleep_xtal)
    moreover have "(\<exists>j<Suc n. radio_irq e (replicate (Suc j) (Delay 10) @ trace s)) \<longleftrightarrow>
        (\<exists>j<n. radio_irq e (replicate (Suc j) (Delay 10) @ trace ?s))"
      using False by (simp only: app Ex_less_Suc2) simp
    ultimately show ?thesis using Suc.IH [of ?s] Suc.prems by simp
  qed
qed

theorem crystal_wait_ends_iff_witness:
  "\<nexists>s'. wait_phase 1000 1 bench trxstate_wait_xtal (set_phase trxstate_wait_xtal rf_boot) = Inr s' \<and>
     ubRFState (dev s') = trxstate_xtal_ready"
  using crystal_wait_ends_iff [of "set_phase trxstate_wait_xtal rf_boot" 1000 1 bench]
  by (simp add: bench_def)

end
