(* ===== verification/Tester_State.thy ===== *)
theory Tester_State
  imports Keypad Lcd_Screen Record_Store Meter_Uart Motor Radio_Irq
begin

text \<open>
  The state of the whole tester (\<^verbatim>\<open>applications/main.c\<close>): the components below it, the static
  variables of the main loop, and what happens in the other threads and interrupts while the
  main loop sleeps. A rule set for handlers (\<open>wp\<close>) runs the statement blocks symbolically.
\<close>

section \<open>State\<close>

text \<open>
  The screen number \<^verbatim>\<open>MS\<close> is shared with the radio and is its field \<open>thread_MS\<close>; the history of
  the board is its field \<open>trace\<close>. \<open>chosen\<close> is the variable \<^verbatim>\<open>choose\<close>, \<open>setting_time\<close> the static of
  \<^verbatim>\<open>MS_thread_SettingMs\<close>. \<open>readings\<close> is not in the code: it lists the numbers the tests took from
  the meter's replies, newest first, so that theorems can speak of them.
\<close>

record sys =
  keys :: keypad
  recs :: store
  meter :: uart
  mot :: motor
  rf :: rf_state
  rf_rows :: "(u16 \<times> u16) list"
  button_number :: u8
  thread_time :: u8
  chosen :: u8
  choose_number :: u8
  reverse :: u8
  MS_error :: u8
  zf_list6 :: "u8 list list"
  zf_list7 :: "u8 list"
  zf_list8 :: "u8 list"
  MSID :: "u8 list"
  my_time :: "u8 list"
  msv_error :: u8
  MS_thread_tick :: u32
  show_ax_addr :: u16
  time_number :: u8
  setting_time :: u8
  readings :: "u32 list"

abbreviation MS :: "sys \<Rightarrow> u8" where
  "MS s \<equiv> thread_MS (rf s)"

abbreviation hist :: "sys \<Rightarrow> history" where
  "hist s \<equiv> trace (rf s)"

definition set_MS :: "u8 \<Rightarrow> sys \<Rightarrow> sys" where
  "set_MS v s = s\<lparr>rf := (rf s)\<lparr>thread_MS := v\<rparr>\<rparr>"

definition on_hist :: "(history \<Rightarrow> history) \<Rightarrow> sys \<Rightarrow> sys" where
  "on_hist f s = s\<lparr>rf := (rf s)\<lparr>trace := f (hist s)\<rparr>\<rparr>"

definition on_hist_r :: "(history \<Rightarrow> history result) \<Rightarrow> sys \<Rightarrow> sys result" where
  "on_hist_r f s = map_r (\<lambda>h. s\<lparr>rf := (rf s)\<lparr>trace := h\<rparr>\<rparr>) (f (hist s))"

definition on_motor :: "(motor \<times> history \<Rightarrow> motor \<times> history) \<Rightarrow> sys \<Rightarrow> sys" where
  "on_motor f s = (case f (mot s, hist s) of (m, h) \<Rightarrow> s\<lparr>mot := m, rf := (rf s)\<lparr>trace := h\<rparr>\<rparr>)"

definition on_meter :: "(uart \<times> history \<Rightarrow> (uart \<times> history) result) \<Rightarrow> sys \<Rightarrow> sys result" where
  "on_meter f s =
     map_r (\<lambda>(u, h). s\<lparr>meter := u, rf := (rf s)\<lparr>trace := h\<rparr>\<rparr>) (f (meter s, hist s))"

definition on_recs :: "(store \<Rightarrow> store) \<Rightarrow> sys \<Rightarrow> sys" where
  "on_recs f s = s\<lparr>recs := f (recs s)\<rparr>"

definition on_recs_r :: "(store \<Rightarrow> store result) \<Rightarrow> sys \<Rightarrow> sys result" where
  "on_recs_r f s = map_r (\<lambda>r. s\<lparr>recs := r\<rparr>) (f (recs s))"

definition zf_list1 :: "u8 list" where "zf_list1 = [7, 22, 23, 111, 112, 4, 5, 6]"
definition zf_list2 :: "u8 list" where "zf_list2 = [11, 0, 1, 2, 3, 111, 112, 4, 5, 6, 108, 21]"
definition zf_list12 :: "u8 list" where "zf_list12 = [11, 0, 1, 2, 3, 111, 112, 4, 5, 6, 106, 21]"
definition zf_list13 :: "u8 list" where "zf_list13 = [6, 24, 25, 26, 27, 28, 29]"
definition zf_list3 :: "u8 list" where "zf_list3 = [5, 111, 112, 113, 114, 120]"
definition zf_list4 :: "u8 list" where "zf_list4 = [4, 111, 112, 115, 120]"
definition zf_list5 :: "u8 list" where "zf_list5 = [5, 116, 117, 118, 119, 120]"
definition zf_list9 :: "u8 list" where "zf_list9 = [7, 10, 11, 12, 13, 110, 110, 20]"
definition zf_list10 :: "u8 list" where "zf_list10 = [7, 14, 15, 16, 17, 110, 110, 20]"
definition zf_list11 :: "u8 list" where "zf_list11 = [7, 18, 19, 12, 13, 110, 110, 20]"

lemmas fixed_lists = zf_list1_def zf_list2_def zf_list12_def zf_list13_def zf_list3_def zf_list4_def
  zf_list5_def zf_list9_def zf_list10_def zf_list11_def

text \<open>The state at power-on, before \<^verbatim>\<open>main\<close> runs.\<close>

definition sys_boot :: "volume \<Rightarrow> sys" where
  "sys_boot v =
     \<lparr>keys = keypad_init, recs = store_boot v, meter = uart_boot, mot = motor_boot,
      rf = \<lparr>dev = radio_boot, dec = decoder_boot, thread_MS = 0, trace = []\<rparr>,
      rf_rows = set_registers_4068,
      button_number = 0, thread_time = 0, chosen = 0, choose_number = 0, reverse = 0, MS_error = 0,
      zf_list6 = [[6, 101, 102, 103, 104, 105, 106, 100, 100, 100],
                  [8, 109, 108, 107, 106, 105, 104, 103, 102, 100],
                  [6, 101, 102, 103, 104, 105, 106, 100, 100, 100]],
      zf_list7 = [6, 100, 100, 100, 100, 100, 100],
      zf_list8 = [9, 100, 100, 7, 100, 100, 8, 100, 100, 9],
      MSID = replicate 20 0, my_time = replicate 7 0, msv_error = 0, MS_thread_tick = 0,
      show_ax_addr = 0, time_number = 0, setting_time = 0, readings = []\<rparr>"

section \<open>What happens while the main loop sleeps\<close>

text \<open>
  The threads of the meter line have a lower priority than the main loop, so they run only while
  it sleeps; the interrupts and the tasks of motor and radio, which have a higher one, are placed
  there too. \<open>meanwhile\<close> says which of them run during a sleep, from the history before its end.
\<close>

datatype background =
    MeterChar u8 | TimeoutPeriod | MotorStep motor_event | RadioTask | RadioTimer

record world =
  board :: env
  meanwhile :: "history \<Rightarrow> background list"
  patience :: nat
  spi_patience :: nat

definition background_step :: "world \<Rightarrow> background \<Rightarrow> sys \<Rightarrow> sys result" where
  "background_step w b s =
     (case b of
        MeterChar ch \<Rightarrow> map_r (\<lambda>u. s\<lparr>meter := u\<rparr>) (data_parsing ch (meter s))
      | TimeoutPeriod \<Rightarrow> Inr (s\<lparr>meter := data_timeout_parsing (meter s)\<rparr>)
      | MotorStep ev \<Rightarrow> Inr (on_motor (motor_step ev) s)
      | RadioTask \<Rightarrow>
          map_r (\<lambda>r. s\<lparr>rf := r\<rparr>) (rf_4068_task_callback (spi_patience w) (board w) (rf s))
      | RadioTimer \<Rightarrow> Inr (s\<lparr>rf := rf_4068_send_timer_callback (board w) (rf s)\<rparr>))"

definition sleep :: "world \<Rightarrow> nat \<Rightarrow> sys \<Rightarrow> sys result" where
  "sleep w ms s =
     (let s = on_hist (rt_thread_mdelay ms) s
      in fold_r (background_step w) (meanwhile w (hist s)) s)"

text \<open>The two waiting loops; \<open>patience\<close> is the number of sleeps before the model gives up.\<close>

primrec wait_while :: "nat \<Rightarrow> world \<Rightarrow> nat \<Rightarrow> (sys \<Rightarrow> bool) \<Rightarrow> sys \<Rightarrow> sys result" where
  "wait_while 0 w ms c s = (if c s then Inl OutOfFuel else Inr s)"
| "wait_while (Suc n) w ms c s =
     (if c s then bind_r (sleep w ms s) (wait_while n w ms c) else Inr s)"

definition get_uart_flag :: "world \<Rightarrow> sys \<Rightarrow> (u8 \<times> sys) result" where
  "get_uart_flag w s =
     map_r (\<lambda>s. (uart_flag (meter s), s))
       (wait_while (patience w) w 100 (\<lambda>s. uart_timeot (meter s) \<noteq> 0) s)"

definition wait_pwm_finish :: "world \<Rightarrow> sys \<Rightarrow> sys result" where
  "wait_pwm_finish w = wait_while (patience w) w 20 (\<lambda>s. stepper_number (mot s) < speed_all (mot s))"

section \<open>Statements of the handlers\<close>

text \<open>A value from a call that also changes the state, and the rest of the block with it.\<close>

definition do_with :: "(sys \<Rightarrow> ('a \<times> sys) result) \<Rightarrow> ('a \<Rightarrow> sys action list) \<Rightarrow> sys action" where
  "do_with f k s = (case f s of Inl e \<Rightarrow> Inl e | Inr (x, s') \<Rightarrow> block (k x) s')"

definition value_of :: "(sys \<Rightarrow> 'a result) \<Rightarrow> sys \<Rightarrow> ('a \<times> sys) result" where
  "value_of f s = map_r (\<lambda>x. (x, s)) (f s)"

definition read_pin :: "world \<Rightarrow> nat \<Rightarrow> sys \<Rightarrow> (bool \<times> sys) result" where
  "read_pin w p s =
     (case rt_pin_read (board w) p (hist s) of (v, h) \<Rightarrow> Inr (v, on_hist (\<lambda>_. h) s))"

definition write_pin :: "nat \<Rightarrow> bool \<Rightarrow> sys action" where
  "write_pin p v = do_set (on_hist (rt_pin_write p v))"

definition show_list :: "u8 \<Rightarrow> u8 \<Rightarrow> (sys \<Rightarrow> u8 list result) \<Rightarrow> (sys \<Rightarrow> u8) \<Rightarrow> sys action" where
  "show_list y l row shade = do_call (\<lambda>s.
     bind_r (row s) (\<lambda>zf. bind_r (arr_get zf 0) (\<lambda>len. on_hist_r (lcd_show y l zf len (shade s)) s)))"

definition show_fixed :: "u8 \<Rightarrow> u8 \<Rightarrow> u8 list \<Rightarrow> (sys \<Rightarrow> u8) \<Rightarrow> sys action" where
  "show_fixed y l zf shade = show_list y l (\<lambda>_. Inr zf) shade"

definition show_text :: "u8 \<Rightarrow> u8 \<Rightarrow> string \<Rightarrow> sys action" where
  "show_text y l t = do_call (on_hist_r (lcd_show_zf y l (bytes t)))"

definition show_small :: "u8 \<Rightarrow> u8 \<Rightarrow> string \<Rightarrow> sys action" where
  "show_small y l t = do_call (on_hist_r (lcd_show_zf6_8 y l (bytes t)))"

definition clear_screen :: "sys action" where
  "clear_screen = do_set (on_hist (Dispgraphic 0x00))"

definition delay :: "world \<Rightarrow> nat \<Rightarrow> sys action" where
  "delay w ms = do_call (sleep w ms)"

text \<open>The number of the meter's last reply, noted among the readings.\<close>

definition take_reading :: "sys \<Rightarrow> (u32 \<times> sys) result" where
  "take_reading s = (let x = get_UartData (meter s) in Inr (x, s\<lparr>readings := x # readings s\<rparr>))"

text \<open>
  The clock package fills the caller's array: \<^verbatim>\<open>get_time\<close> and \<^verbatim>\<open>get_date\<close> store what the world
  answers into \<^verbatim>\<open>my_time\<close>, whose size does not change.
\<close>

definition fill_array :: "u8 list \<Rightarrow> u8 list \<Rightarrow> u8 list" where
  "fill_array old new = take (length old) new @ drop (length new) old"

definition get_time :: "world \<Rightarrow> sys \<Rightarrow> sys" where
  "get_time w s = (on_hist (\<lambda>h. RtcRead # h) s)
     \<lparr>my_time := fill_array (my_time s) (rtc_time (board w) (hist s) (my_time s))\<rparr>"

definition get_date :: "world \<Rightarrow> sys \<Rightarrow> sys" where
  "get_date w s = (on_hist (\<lambda>h. RtcRead # h) s)
     \<lparr>my_time := fill_array (my_time s) (rtc_date (board w) (hist s) (my_time s))\<rparr>"

definition set_time :: "u8 list \<Rightarrow> sys \<Rightarrow> sys" where
  "set_time t = on_hist (\<lambda>h. RtcSetTime t # h)"

definition set_date :: "u8 list \<Rightarrow> sys \<Rightarrow> sys" where
  "set_date t = on_hist (\<lambda>h. RtcSetDate t # h)"

definition rt_tick_get :: "world \<Rightarrow> sys \<Rightarrow> (u32 \<times> sys) result" where
  "rt_tick_get w s = Inr (tick_now (board w) (hist s), on_hist (\<lambda>h. TickRead # h) s)"

definition row_of_choice :: "sys \<Rightarrow> u8 list result" where
  "row_of_choice s = arr_get (zf_list6 s) (unat (chosen s))"

section \<open>Running a block symbolically\<close>

text \<open>
  \<open>wp as Q R s\<close>: if the block gets through without a fault, it ends with \<open>Q\<close>, or with \<open>R\<close> where
  it returned early. The rules compute it statement by statement.
\<close>

definition wp :: "sys action list \<Rightarrow> (sys \<Rightarrow> bool) \<Rightarrow> (sys \<Rightarrow> bool) \<Rightarrow> sys \<Rightarrow> bool" where
  "wp as Q R s \<longleftrightarrow>
     (case block as s of Inl _ \<Rightarrow> True | Inr (Go s') \<Rightarrow> Q s' | Inr (Return s') \<Rightarrow> R s')"

lemma wp_body:
  assumes "wp as Q Q s" and "body as s = Inr s'"
  shows "Q s'"
proof -
  from assms(2) obtain f where "block as s = Inr f" and "s' = state_of f"
    by (auto simp: body_def map_r_eq_Inr)
  with assms(1) show ?thesis by (cases f) (simp_all add: wp_def)
qed

lemma wp_nil: "wp [] Q R s = Q s"
  by (simp add: wp_def)

lemma wp_append: "wp (as @ bs) Q R s = wp as (wp bs Q R) R s"
  by (auto simp: wp_def block_append split: sum.split flow.split)

lemma wp_set: "wp (do_set f # as) Q R s = wp as Q R (f s)"
  by (simp add: wp_def do_set_def)

lemma wp_call: "wp (do_call f # as) Q R s \<longleftrightarrow> (\<forall>s'. f s = Inr s' \<longrightarrow> wp as Q R s')"
  by (cases "f s") (simp_all add: wp_def do_call_def)

lemma wp_when: "wp (do_when c bs # as) Q R s = (if c s then wp (bs @ as) Q R s else wp as Q R s)"
  by (auto simp: wp_def do_when_def block_append split: sum.split flow.split)

lemma wp_if: "wp (do_if c bs cs # as) Q R s = (if c s then wp (bs @ as) Q R s else wp (cs @ as) Q R s)"
  by (auto simp: wp_def do_if_def block_append split: sum.split flow.split)

lemma wp_return: "wp (do_return # as) Q R s = R s"
  by (simp add: wp_def do_return_def)

lemma wp_with:
  "wp (do_with f k # as) Q R s \<longleftrightarrow> (\<forall>x s'. f s = Inr (x, s') \<longrightarrow> wp (k x @ as) Q R s')"
  by (cases "f s") (auto simp: wp_def do_with_def block_append split: sum.split flow.split prod.split)

lemma wp_weaken:
  assumes "wp as Q R s" and "\<And>s. Q s \<Longrightarrow> Q' s" and "\<And>s. R s \<Longrightarrow> R' s"
  shows "wp as Q' R' s"
  using assms by (auto simp: wp_def split: sum.splits flow.splits)

section \<open>What the main loop sees\<close>

text \<open>
  The part of the state that only the main loop itself writes. Calls to the components below and
  sleeps keep it, with one exception: while the receiving screen (11) is on, the radio may move
  the screen number on to 12.
\<close>

definition view :: "sys \<Rightarrow> sys" where
  "view s = s\<lparr>keys := keypad_init, meter := uart_boot, mot := motor_boot,
     rf := rf_boot\<lparr>thread_MS := MS s\<rparr>, rf_rows := []\<rparr>"

lemma view_fields [simp]:
  "recs (view s) = recs s" "MS (view s) = MS s"
  "button_number (view s) = button_number s" "thread_time (view s) = thread_time s"
  "chosen (view s) = chosen s" "choose_number (view s) = choose_number s"
  "reverse (view s) = reverse s" "MS_error (view s) = MS_error s"
  "zf_list6 (view s) = zf_list6 s" "zf_list7 (view s) = zf_list7 s" "zf_list8 (view s) = zf_list8 s"
  "MSID (view s) = MSID s" "my_time (view s) = my_time s" "msv_error (view s) = msv_error s"
  "MS_thread_tick (view s) = MS_thread_tick s" "show_ax_addr (view s) = show_ax_addr s"
  "time_number (view s) = time_number s" "setting_time (view s) = setting_time s"
  "readings (view s) = readings s"
  by (simp_all add: view_def)

lemma view_view [simp]: "view (view s) = view s"
  by (simp add: view_def rf_boot_def)

lemma view_on_hist [simp]: "view (on_hist f s) = view s"
  by (simp add: view_def on_hist_def)

lemma view_set_MS [simp]: "view (set_MS m s) = set_MS m (view s)"
  by (simp add: view_def set_MS_def)

lemma MS_set_MS [simp]: "MS (set_MS m s) = m"
  by (simp add: set_MS_def)

lemma set_MS_fields [simp]:
  "recs (set_MS m s) = recs s"
  "button_number (set_MS m s) = button_number s"
  "thread_time (set_MS m s) = thread_time s"
  "chosen (set_MS m s) = chosen s"
  "choose_number (set_MS m s) = choose_number s"
  "reverse (set_MS m s) = reverse s"
  "MS_error (set_MS m s) = MS_error s"
  "zf_list6 (set_MS m s) = zf_list6 s"
  "zf_list7 (set_MS m s) = zf_list7 s"
  "zf_list8 (set_MS m s) = zf_list8 s"
  "MSID (set_MS m s) = MSID s"
  "my_time (set_MS m s) = my_time s"
  "msv_error (set_MS m s) = msv_error s"
  "MS_thread_tick (set_MS m s) = MS_thread_tick s"
  "show_ax_addr (set_MS m s) = show_ax_addr s"
  "time_number (set_MS m s) = time_number s"
  "setting_time (set_MS m s) = setting_time s"
  "readings (set_MS m s) = readings s"
  "meter (set_MS m s) = meter s"
  "mot (set_MS m s) = mot s"
  "keys (set_MS m s) = keys s"
  by (simp_all add: set_MS_def)

lemma view_on_motor [simp]: "view (on_motor f s) = view s"
  by (simp add: view_def on_motor_def split: prod.split)

lemma view_on_hist_r: "on_hist_r f s = Inr s' \<Longrightarrow> view s' = view s"
  by (auto simp: on_hist_r_def map_r_eq_Inr view_def)

lemma view_on_meter: "on_meter f s = Inr s' \<Longrightarrow> view s' = view s"
  by (auto simp: on_meter_def map_r_eq_Inr view_def)

text \<open>The radio asks for the refresh of the receiving screen and changes no other.\<close>

lemma rx_report_screen:
  "thread_MS (rx_report r) = thread_MS r \<or> thread_MS r = 11 \<and> thread_MS (rx_report r) = 12"
  by (simp add: rx_report_def rf4068_rx_callback_def Let_def case_prod_beta)

lemma on_dev_r_screen: "on_dev_r f r = Inr r' \<Longrightarrow> thread_MS r' = thread_MS r"
  by (auto simp: on_dev_r_Inr)

lemma on_bus_screen [simp]: "thread_MS (on_bus f r) = thread_MS r"
  by (simp add: on_bus_def)

lemma irq_rx_screen:
  assumes "irq_rx k e r = Inr r'"
  shows "thread_MS r' = thread_MS r \<or> thread_MS r = 11 \<and> thread_MS r' = 12"
proof -
  from assms obtain r1 where r1: "on_dev_r (ReceiveData k e) r = Inr r1"
    and r': "r' = rx_report (on_dev (Ax5043Receiver_Continuous e)
      (on_bus (\<lambda>h. snd (Ax5043SetRegisters_RX e (dev r1) h)) r1))"
    by (auto simp: irq_rx_def map_r_eq_Inr Let_def)
  let ?r = "on_dev (Ax5043Receiver_Continuous e) (on_bus (\<lambda>h. snd (Ax5043SetRegisters_RX e (dev r1) h)) r1)"
  have "thread_MS ?r = thread_MS r" using on_dev_r_screen [OF r1] by (simp add: on_dev_eq)
  with rx_report_screen [of ?r] show ?thesis by (simp add: r')
qed

lemma irq_tx_xtalwait_screen: "irq_tx_xtalwait k e r = Inr r' \<Longrightarrow> thread_MS r' = thread_MS r"
  by (auto simp: irq_tx_xtalwait_def map_r_eq_Inr Let_def case_prod_beta dest!: on_dev_r_screen)

lemma irq_tx_waitdone_screen: "thread_MS (irq_tx_waitdone e r) = thread_MS r"
  by (simp add: irq_tx_waitdone_def Let_def case_prod_beta on_dev_eq)

lemma irq_screen:
  assumes "rf_4068_task_callback k e r = Inr r'"
  shows "thread_MS r' = thread_MS r \<or> thread_MS r = 11 \<and> thread_MS r' = 12"
  using assms
  by (cases "ubRFState (dev r)")
    (auto simp: rf_4068_task_callback_def irq_tx_waitdone_screen
      dest: irq_rx_screen irq_tx_xtalwait_screen on_dev_r_screen)

lemma timer_screen: "thread_MS (rf_4068_send_timer_callback e r) = thread_MS r"
  by (simp add: rf_4068_send_timer_callback_def on_dev_eq)

lemma background_screen:
  assumes "background_step w b s = Inr s'"
  shows "view s' = view s \<or> MS s = 11 \<and> view s' = set_MS 12 (view s)"
  using assms
  by (cases b) (auto simp: background_step_def map_r_eq_Inr view_def timer_screen on_motor_def set_MS_def
      dest!: irq_screen split: prod.splits)

lemma set_MS_set_MS [simp]: "set_MS a (set_MS b s) = set_MS a s"
  by (simp add: set_MS_def)

lemma background_run_screen:
  assumes "fold_r (background_step w) bs s = Inr s'"
  shows "view s' = view s \<or> MS s = 11 \<and> view s' = set_MS 12 (view s)"
  using assms
proof (induction bs arbitrary: s)
  case Nil
  then show ?case by simp
next
  case (Cons b bs)
  then obtain s1 where s1: "background_step w b s = Inr s1"
    and rest: "fold_r (background_step w) bs s1 = Inr s'" by auto
  from background_screen [OF s1] show ?case
  proof (elim disjE conjE)
    assume v: "view s1 = view s"
    then have "MS s1 = MS s" by (metis view_fields(2))
    with Cons.IH [OF rest] v show ?thesis by simp
  next
    assume "MS s = 11" and v: "view s1 = set_MS 12 (view s)"
    from v have "MS s1 = 12" by (metis view_fields(2) MS_set_MS)
    with Cons.IH [OF rest] v \<open>MS s = 11\<close> show ?thesis by simp
  qed
qed

lemma sleep_screen:
  assumes "sleep w ms s = Inr s'"
  shows "view s' = view s \<or> MS s = 11 \<and> view s' = set_MS 12 (view s)"
  using assms background_run_screen [of w _ "on_hist (rt_thread_mdelay ms) s" s']
  by (simp add: sleep_def Let_def) (simp add: on_hist_def)

lemma view_sleep: "sleep w ms s = Inr s' \<Longrightarrow> MS s \<noteq> 11 \<Longrightarrow> view s' = view s"
  using sleep_screen by blast

lemma view_wait_while:
  assumes "wait_while n w ms c s = Inr s'" and "MS s \<noteq> 11"
  shows "view s' = view s \<and> \<not> c s'"
  using assms
proof (induction n arbitrary: s)
  case 0
  then show ?case by (auto split: if_splits)
next
  case (Suc n)
  show ?case
  proof (cases "c s")
    case True
    with Suc.prems obtain s1 where s1: "sleep w ms s = Inr s1" and rest: "wait_while n w ms c s1 = Inr s'"
      by auto
    from view_sleep [OF s1 Suc.prems(2)] have v: "view s1 = view s" .
    then have "MS s1 = MS s" by (metis view_fields(2))
    with Suc.IH [OF rest] Suc.prems v show ?thesis by simp
  next
    case False
    with Suc.prems show ?thesis by simp
  qed
qed

lemma view_get_uart_flag: "get_uart_flag w s = Inr (x, s') \<Longrightarrow> MS s \<noteq> 11 \<Longrightarrow> view s' = view s"
  by (auto simp: get_uart_flag_def map_r_eq_Inr dest: view_wait_while)

lemma view_wait_pwm_finish: "wait_pwm_finish w s = Inr s' \<Longrightarrow> MS s \<noteq> 11 \<Longrightarrow> view s' = view s"
  by (auto simp: wait_pwm_finish_def dest: view_wait_while)

lemma view_read_pin: "read_pin w p s = Inr (x, s') \<Longrightarrow> view s' = view s"
  by (auto simp: read_pin_def rt_pin_read_def Let_def)

lemma view_updates [simp]:
  "view (chosen_update f s) = chosen_update f (view s)"
  "view (button_number_update f s) = button_number_update f (view s)"
  "view (thread_time_update f s) = thread_time_update f (view s)"
  "view (choose_number_update f s) = choose_number_update f (view s)"
  "view (reverse_update f s) = reverse_update f (view s)"
  "view (MS_error_update f s) = MS_error_update f (view s)"
  "view (zf_list6_update fss s) = zf_list6_update fss (view s)"
  "view (zf_list7_update fl s) = zf_list7_update fl (view s)"
  "view (zf_list8_update fl s) = zf_list8_update fl (view s)"
  "view (MSID_update fl s) = MSID_update fl (view s)"
  "view (my_time_update fl s) = my_time_update fl (view s)"
  "view (msv_error_update f s) = msv_error_update f (view s)"
  "view (MS_thread_tick_update ft s) = MS_thread_tick_update ft (view s)"
  "view (show_ax_addr_update fa s) = show_ax_addr_update fa (view s)"
  "view (time_number_update f s) = time_number_update f (view s)"
  "view (setting_time_update f s) = setting_time_update f (view s)"
  "view (readings_update fr s) = readings_update fr (view s)"
  "view (recs_update fs s) = recs_update fs (view s)"
  by (simp_all add: view_def)

lemma length_fill_array [simp]: "length (fill_array old new) = length old"
  by (simp add: fill_array_def)

section \<open>Blocks over what the main loop sees\<close>

text \<open>
  \<open>runs as Q R v\<close>: from every state that shows \<open>v\<close>, the block, if it gets through, ends in a state
  that shows \<open>Q\<close>, or \<open>R\<close> where it returned early.
\<close>

definition runs :: "sys action list \<Rightarrow> (sys \<Rightarrow> bool) \<Rightarrow> (sys \<Rightarrow> bool) \<Rightarrow> sys \<Rightarrow> bool" where
  "runs as Q R v \<longleftrightarrow> (\<forall>s. view s = v \<longrightarrow> wp as (\<lambda>s. Q (view s)) (\<lambda>s. R (view s)) s)"

lemma runs_body: "runs as Q Q (view s) \<Longrightarrow> body as s = Inr s' \<Longrightarrow> Q (view s')"
  unfolding runs_def by (rule wp_body) simp_all

lemma runs_nil: "Q v \<Longrightarrow> runs [] Q R v"
  by (simp add: runs_def wp_nil)

lemma runs_return: "R v \<Longrightarrow> runs (do_return # as) Q R v"
  by (simp add: runs_def wp_return)

lemma runs_set:
  "(\<And>s. view (f s) = f (view s)) \<Longrightarrow> runs as Q R (f v) \<Longrightarrow> runs (do_set f # as) Q R v"
  by (simp add: runs_def wp_set)

lemma runs_do_set: "(\<And>s. view s = v \<Longrightarrow> runs as Q R (view (f s))) \<Longrightarrow> runs (do_set f # as) Q R v"
  by (simp add: runs_def wp_set)

lemma runs_when:
  "(\<And>s. c (view s) = c s) \<Longrightarrow> (c v \<Longrightarrow> runs (bs @ as) Q R v) \<Longrightarrow> (\<not> c v \<Longrightarrow> runs as Q R v) \<Longrightarrow>
     runs (do_when c bs # as) Q R v"
  unfolding runs_def wp_when by metis

lemma runs_if:
  "(\<And>s. c (view s) = c s) \<Longrightarrow> (c v \<Longrightarrow> runs (bs @ as) Q R v) \<Longrightarrow> (\<not> c v \<Longrightarrow> runs (cs @ as) Q R v) \<Longrightarrow>
     runs (do_if c bs cs # as) Q R v"
  unfolding runs_def wp_if by metis

lemma runs_call:
  assumes "\<And>s s'. view s = v \<Longrightarrow> f s = Inr s' \<Longrightarrow> runs as Q R (view s')"
  shows "runs (do_call f # as) Q R v"
  using assms by (auto simp: runs_def wp_call)

lemma runs_with:
  assumes "\<And>s x s'. view s = v \<Longrightarrow> f s = Inr (x, s') \<Longrightarrow> runs (k x @ as) Q R (view s')"
  shows "runs (do_with f k # as) Q R v"
  using assms by (auto simp: runs_def wp_with)

lemma runs_body_call: "runs bs (runs as Q R) (runs as Q R) v \<Longrightarrow> runs (do_call (body bs) # as) Q R v"
  by (rule runs_call) (blast dest: runs_body)

lemma runs_quiet:
  "runs as Q R v \<Longrightarrow> runs (write_pin p b # as) Q R v"
  "runs as Q R v \<Longrightarrow> runs (clear_screen # as) Q R v"
  by (auto simp: runs_def wp_set write_pin_def clear_screen_def)

lemma runs_show:
  "runs as Q R v \<Longrightarrow> runs (show_list y l row shade # as) Q R v"
  "runs as Q R v \<Longrightarrow> runs (show_fixed y l zf shade # as) Q R v"
  "runs as Q R v \<Longrightarrow> runs (show_text y l t # as) Q R v"
  "runs as Q R v \<Longrightarrow> runs (show_small y l t # as) Q R v"
  unfolding show_list_def show_fixed_def show_text_def show_small_def
  by (auto intro!: runs_call simp: bind_r_eq_Inr dest!: view_on_hist_r)

lemma runs_hist_r: "runs as Q R v \<Longrightarrow> runs (do_call (on_hist_r f) # as) Q R v"
  by (auto intro!: runs_call dest!: view_on_hist_r)

lemma runs_meter: "runs as Q R v \<Longrightarrow> runs (do_call (on_meter f) # as) Q R v"
  by (auto intro!: runs_call dest!: view_on_meter)

lemma MS_of_view: "view s = v \<Longrightarrow> MS s = MS v"
  by auto

lemma runs_waiting:
  "MS v \<noteq> 11 \<Longrightarrow> runs as Q R v \<Longrightarrow> runs (delay w ms # as) Q R v"
  "MS v \<noteq> 11 \<Longrightarrow> runs as Q R v \<Longrightarrow> runs (do_call (wait_pwm_finish w) # as) Q R v"
  "MS v \<noteq> 11 \<Longrightarrow> (\<And>x. runs (k x @ as) Q R v) \<Longrightarrow> runs (do_with (get_uart_flag w) k # as) Q R v"
  unfolding delay_def
  by (auto intro!: runs_call runs_with dest: MS_of_view view_sleep view_wait_pwm_finish view_get_uart_flag)

lemma runs_read_pin: "(\<And>x. runs (k x @ as) Q R v) \<Longrightarrow> runs (do_with (read_pin w p) k # as) Q R v"
  by (auto intro!: runs_with dest!: view_read_pin)

lemma runs_value:
  assumes "\<And>s. f (view s) = f s" and "\<And>x. f v = Inr x \<Longrightarrow> runs (k x @ as) Q R v"
  shows "runs (do_with (value_of f) k # as) Q R v"
proof (rule runs_with)
  fix s x s'
  assume "view s = v" and "value_of f s = Inr (x, s')"
  moreover from this have "f v = Inr x" using assms(1) [of s] by (auto simp: value_of_def map_r_eq_Inr)
  ultimately show "runs (k x @ as) Q R (view s')"
    using assms(2) by (auto simp: value_of_def map_r_eq_Inr)
qed

lemma runs_reading:
  "(\<And>x. runs (k x @ as) Q R (v\<lparr>readings := x # readings v\<rparr>)) \<Longrightarrow>
     runs (do_with take_reading k # as) Q R v"
  by (rule runs_with) (auto simp: take_reading_def Let_def)

lemma runs_clock:
  "(\<And>t. length t = length (my_time v) \<Longrightarrow> runs as Q R (v\<lparr>my_time := t\<rparr>)) \<Longrightarrow>
     runs (do_set (get_time w) # as) Q R v"
  "(\<And>t. length t = length (my_time v) \<Longrightarrow> runs as Q R (v\<lparr>my_time := t\<rparr>)) \<Longrightarrow>
     runs (do_set (get_date w) # as) Q R v"
  "runs as Q R v \<Longrightarrow> runs (do_set (\<lambda>s. set_time (f s) s) # as) Q R v"
  "runs as Q R v \<Longrightarrow> runs (do_set (\<lambda>s. set_date (f s) s) # as) Q R v"
  by (auto intro!: runs_do_set simp: get_time_def get_date_def set_time_def set_date_def)

lemma runs_tick: "(\<And>x. runs (k x @ as) Q R v) \<Longrightarrow> runs (do_with (rt_tick_get w) k # as) Q R v"
  by (rule runs_with) (auto simp: rt_tick_get_def)

lemma runs_recs:
  "(\<And>r. runs as Q R (v\<lparr>recs := r\<rparr>)) \<Longrightarrow> runs (do_call (\<lambda>s. on_recs_r (f s) s) # as) Q R v"
  "(\<And>r. runs as Q R (v\<lparr>recs := r\<rparr>)) \<Longrightarrow> runs (do_set (\<lambda>s. on_recs (g s) s) # as) Q R v"
  by (auto intro!: runs_call runs_do_set simp: on_recs_r_def on_recs_def map_r_eq_Inr)

lemma runs_motor: "runs as Q R v \<Longrightarrow> runs (do_set (on_motor f) # as) Q R v"
  by (simp add: runs_def wp_set)

lemmas run_rules = runs_return runs_quiet runs_show runs_hist_r runs_meter runs_waiting
  runs_read_pin runs_reading runs_clock runs_tick runs_recs runs_motor

lemma runs_weaken:
  assumes "runs as Q R v" and "\<And>v. Q v \<Longrightarrow> Q' v" and "\<And>v. R v \<Longrightarrow> R' v"
  shows "runs as Q' R' v"
  using assms(1) unfolding runs_def by (auto intro: wp_weaken assms(2,3))

end
