(* ===== verification/Tester_Ui.thy ===== *)
theory Tester_Ui
  imports Tester_State
begin

text \<open>
  The screens before and after a test (\<^verbatim>\<open>applications/main.c\<close>): the choice of the meter kind, the
  entry of number, reading and time, the error screen and the return with the next number. Array
  indices that are constants below the array's size are written as plain list accesses; computed
  ones go through \<open>arr_get\<close> and \<open>arr_set\<close>.
\<close>

definition BUTTON_UP :: u8 where "BUTTON_UP = 10"
definition BUTTON_DOWN :: u8 where "BUTTON_DOWN = 11"
definition BUTTON_LEFT :: u8 where "BUTTON_LEFT = 13"
definition BUTTON_RIGHT :: u8 where "BUTTON_RIGHT = 14"
definition BUTTON_OK :: u8 where "BUTTON_OK = 15"
definition BUTTON_RETUEN :: u8 where "BUTTON_RETUEN = 12"

lemmas buttons = BUTTON_UP_def BUTTON_DOWN_def BUTTON_LEFT_def BUTTON_RIGHT_def BUTTON_OK_def
  BUTTON_RETUEN_def

definition IR_DET :: nat where "IR_DET = 0x00"
definition IR_LED :: nat where "IR_LED = 0x01"
definition LED1 :: nat where "LED1 = 0x2e"
definition LED2 :: nat where "LED2 = 0x2f"
definition LED3 :: nat where "LED3 = 0x20"
definition LED4 :: nat where "LED4 = 0x21"
definition BUZZ :: nat where "BUZZ = 0x2d"

definition WRITE_ERROR :: u8 where "WRITE_ERROR = 1"
definition MSID_ERROR :: u8 where "MSID_ERROR = 2"
definition MSV_ERROR :: u8 where "MSV_ERROR = 3"
definition MSV_INTERFERENCE :: u8 where "MSV_INTERFERENCE = 4"
definition LOW_POWER :: u8 where "LOW_POWER = 5"
definition VALVE_ERROR :: u8 where "VALVE_ERROR = 6"
definition TAMPER :: u8 where "TAMPER = 7"
definition LOW_BATTERY :: u8 where "LOW_BATTERY = 8"
definition CRITICAL_LOW_BATTERY :: u8 where "CRITICAL_LOW_BATTERY = 9"
definition VALVE_STATUS_ERROR :: u8 where "VALVE_STATUS_ERROR = 10"
definition CRITICAL_ESCAPE :: u8 where "CRITICAL_ESCAPE = 11"
definition MINOR_ESCAPE_ERROR :: u8 where "MINOR_ESCAPE_ERROR = 12"
definition VALVE_CONNECTION_ERROR :: u8 where "VALVE_CONNECTION_ERROR = 13"
definition VALVE_ERROR_ALARM :: u8 where "VALVE_ERROR_ALARM = 14"
definition VALVE_TIGHTNESS_ERROR :: u8 where "VALVE_TIGHTNESS_ERROR = 15"
definition READ_ERROR :: u8 where "READ_ERROR = 16"
definition INSPECT_ERROR :: u8 where "INSPECT_ERROR = 17"
definition WRITE_ERROR1 :: u8 where "WRITE_ERROR1 = 18"
definition WRITE_ERROR2 :: u8 where "WRITE_ERROR2 = 19"
definition VALVE_ERROR1 :: u8 where "VALVE_ERROR1 = 20"

lemmas error_codes = WRITE_ERROR_def MSID_ERROR_def MSV_ERROR_def MSV_INTERFERENCE_def LOW_POWER_def
  VALVE_ERROR_def TAMPER_def LOW_BATTERY_def CRITICAL_LOW_BATTERY_def VALVE_STATUS_ERROR_def
  CRITICAL_ESCAPE_def MINOR_ESCAPE_ERROR_def VALVE_CONNECTION_ERROR_def VALVE_ERROR_ALARM_def
  VALVE_TIGHTNESS_ERROR_def READ_ERROR_def INSPECT_ERROR_def WRITE_ERROR1_def WRITE_ERROR2_def
  VALVE_ERROR1_def

section \<open>The clock row and the lamps\<close>

definition clock_row :: "u8 list \<Rightarrow> u8 list \<Rightarrow> u8 list" where
  "clock_row t row = row
     [1 := t ! 2 div 10 + 100, 2 := t ! 2 mod 10 + 100,
      4 := t ! 1 div 10 + 100, 5 := t ! 1 mod 10 + 100,
      7 := t ! 0 div 10 + 100, 8 := t ! 0 mod 10 + 100]"

definition MS_thread_GetTime :: "world \<Rightarrow> sys \<Rightarrow> sys result" where
  "MS_thread_GetTime w = body
     [do_set (get_time w),
      do_set (\<lambda>s. s\<lparr>zf_list8 := clock_row (my_time s) (zf_list8 s)\<rparr>)]"

definition time_of_row :: "u8 list \<Rightarrow> u8 list \<Rightarrow> u8 list" where
  "time_of_row row t = t
     [2 := (row ! 1 - 100) * 10 + (row ! 2 - 100),
      1 := (row ! 4 - 100) * 10 + (row ! 5 - 100),
      0 := (row ! 7 - 100) * 10 + (row ! 8 - 100)]"

definition MS_thread_SetTime :: "sys \<Rightarrow> sys result" where
  "MS_thread_SetTime = body
     [do_set (\<lambda>s. s\<lparr>my_time := time_of_row (zf_list8 s) (my_time s)\<rparr>),
      do_when (\<lambda>s. 23 < my_time s ! 2) [do_set (\<lambda>s. s\<lparr>my_time := (my_time s)[0 := 23]\<rparr>)],
      do_when (\<lambda>s. 59 < my_time s ! 1) [do_set (\<lambda>s. s\<lparr>my_time := (my_time s)[1 := 59]\<rparr>)],
      do_when (\<lambda>s. 59 < my_time s ! 0) [do_set (\<lambda>s. s\<lparr>my_time := (my_time s)[2 := 59]\<rparr>)],
      do_set (\<lambda>s. set_time (my_time s) s)]"

definition MS_LED_init :: "history \<Rightarrow> history" where
  "MS_LED_init h =
     (let h = fold (\<lambda>p. rt_pin_mode p Output) [LED1, LED2, LED3, LED4] h;
          h = fold (\<lambda>p. rt_pin_write p True) [LED1, LED2, LED3, LED4] h;
          h = rt_pin_write BUZZ False (rt_pin_mode BUZZ Output h);
          h = rt_pin_write IR_DET False (rt_pin_mode IR_DET Output h)
      in rt_pin_mode IR_LED Input h)"

definition set_pins :: "(nat \<times> bool) list \<Rightarrow> history \<Rightarrow> history" where
  "set_pins ps = fold (\<lambda>(p, v). rt_pin_write p v) ps"

definition MS_LED_error :: "history \<Rightarrow> history" where
  "MS_LED_error = set_pins [(LED1, False), (LED3, False), (LED2, True), (LED4, True)]"

definition MS_LED_ok :: "history \<Rightarrow> history" where
  "MS_LED_ok = set_pins [(LED1, True), (LED3, True), (LED2, False), (LED4, False)]"

definition MS_LED_off :: "history \<Rightarrow> history" where
  "MS_LED_off = set_pins [(LED1, True), (LED3, True), (LED2, True), (LED4, True)]"

section \<open>The menu\<close>

definition show_menu :: "sys action list" where
  "show_menu =
     [show_fixed 0 200 zf_list1 (\<lambda>_. 0), show_fixed 2 200 zf_list2 (\<lambda>_. 0),
      show_fixed 4 200 zf_list12 (\<lambda>_. 0), show_fixed 6 200 zf_list13 (\<lambda>_. 0)]"

definition menu_rows :: "u8 list \<Rightarrow> u8 list list" where
  "menu_rows d =
     [take 6 d, take 8 (drop 6 d), take 6 (drop 14 d)]"

text \<open>The three numbers of the array go to their rows behind the length; the rest of a row stays.\<close>

definition load_numbers :: "u8 list \<Rightarrow> u8 list list \<Rightarrow> u8 list list" where
  "load_numbers d rows = map2 (\<lambda>ds row. splice 1 (map (\<lambda>x. x + 100) ds) row) (menu_rows d) rows"

definition MS_thread_init :: "sys \<Rightarrow> sys result" where
  "MS_thread_init = body
     ([clear_screen] @ show_menu @
      [do_set (set_MS 1),
       do_set (\<lambda>s. s\<lparr>thread_time := 0, chosen := 0\<rparr>),
       do_set (\<lambda>s. case get_MSID (MSID s) (recs s) of (d, r) \<Rightarrow> s\<lparr>MSID := d, recs := r\<rparr>),
       do_set (\<lambda>s. s\<lparr>zf_list6 := load_numbers (MSID s) (zf_list6 s)\<rparr>)])"

text \<open>The line of the chosen meter kind, in its place in the menu or as the heading.\<close>

definition show_choice :: "(sys \<Rightarrow> u8) \<Rightarrow> sys action" where
  "show_choice shade =
     do_if (\<lambda>s. chosen s = 0) [show_fixed 0 200 zf_list1 shade]
       [do_if (\<lambda>s. chosen s = 1) [show_fixed 2 200 zf_list2 shade]
         [do_if (\<lambda>s. chosen s = 2) [show_fixed 4 200 zf_list12 shade]
           [do_when (\<lambda>s. chosen s = 3) [show_fixed 6 200 zf_list13 shade]]]]"

definition show_heading :: "sys action" where
  "show_heading =
     do_if (\<lambda>s. chosen s = 0) [show_fixed 0 200 zf_list1 (\<lambda>_. 0)]
       [do_if (\<lambda>s. chosen s = 1) [show_fixed 0 200 zf_list2 (\<lambda>_. 0)]
         [do_when (\<lambda>s. chosen s = 2) [show_fixed 0 200 zf_list12 (\<lambda>_. 0)]]]"

definition show_settings :: "world \<Rightarrow> (sys \<Rightarrow> u8) \<Rightarrow> sys action list" where
  "show_settings w shade =
     [show_fixed 2 0 zf_list3 shade, show_fixed 4 4 zf_list4 shade, show_fixed 6 0 zf_list5 shade,
      show_list 2 40 row_of_choice shade,
      show_list 4 40 (\<lambda>s. Inr (zf_list7 s)) shade,
      do_call (MS_thread_GetTime w),
      show_list 6 40 (\<lambda>s. Inr (zf_list8 s)) shade]"

definition blink :: "sys action" where
  "blink = do_set (\<lambda>s. s\<lparr>reverse := (reverse s + 1) mod 2\<rparr>)"

definition MS_thread_SelectMode :: "world \<Rightarrow> sys \<Rightarrow> sys result" where
  "MS_thread_SelectMode w = body
     [do_when (\<lambda>s. thread_time s mod 10 = 0) [blink, show_choice reverse],
      do_when (\<lambda>s. button_number s \<noteq> 16)
        [do_when (\<lambda>s. button_number s = BUTTON_UP)
           [do_when (\<lambda>s. reverse s \<noteq> 0) [show_choice (\<lambda>_. 0)],
            do_set (\<lambda>s. s\<lparr>chosen := (if chosen s \<noteq> 0 then chosen s - 1 else 3)\<rparr>),
            do_set (\<lambda>s. s\<lparr>reverse := 0, thread_time := 9\<rparr>)],
         do_when (\<lambda>s. button_number s = BUTTON_DOWN)
           [do_when (\<lambda>s. reverse s \<noteq> 0) [show_choice (\<lambda>_. 0)],
            do_set (\<lambda>s. s\<lparr>chosen := (chosen s + 1) mod 4\<rparr>),
            do_set (\<lambda>s. s\<lparr>reverse := 0, thread_time := 9\<rparr>)],
         do_when (\<lambda>s. button_number s = BUTTON_OK)
           [do_set (set_MS 2), clear_screen,
            do_set (\<lambda>s. s\<lparr>thread_time := 0, reverse := 0, choose_number := 0\<rparr>),
            show_heading,
            do_when (\<lambda>s. chosen s \<noteq> 3) (show_settings w reverse),
            do_when (\<lambda>s. chosen s = 3) [do_set (set_MS 10)]]]]"

section \<open>Entering number, reading and time\<close>

text \<open>
  The cursor \<^verbatim>\<open>choose_number\<close> counts 10 per line: the digits of the number from 0, of the
  reading from 10, of the time from 20; 30 is the state ready to test. A digit goes to the place
  the cursor stands for.
\<close>

definition put_digit :: "sys \<Rightarrow> sys result" where
  "put_digit s =
     (let b = button_number s + 100; c = choose_number s; p = unat (c mod 10) in
      if c < 10
      then bind_r (row_of_choice s) (\<lambda>row.
             map_r (\<lambda>row. s\<lparr>zf_list6 := (zf_list6 s)[unat (chosen s) := row]\<rparr>)
               (arr_set row (unat c + 1) b))
      else if c < 20 then map_r (\<lambda>row. s\<lparr>zf_list7 := row\<rparr>) (arr_set (zf_list7 s) (p + 1) b)
      else if c < 30 then map_r (\<lambda>row. s\<lparr>zf_list8 := row\<rparr>) (arr_set (zf_list8 s) (p + 1 + p div 2) b)
      else Inr s)"

text \<open>What the keys do to the cursor, the kind of the meter given.\<close>

definition after_digit :: "u8 \<Rightarrow> u8 \<Rightarrow> u8" where
  "after_digit k c =
     (let c = c + 1 in
      if k = 1 then (if 8 \<le> c mod 10 \<and> c < 10 then 0 else c)
      else if 6 \<le> c mod 10 then c div 10 * 10 else c)"

definition cursor_up :: "u8 \<Rightarrow> u8" where
  "cursor_up c =
     (let c = (if 5 < c mod 10 then c div 10 * 10 + 5 else c)
      in if 10 \<le> c then c - 10 else 20 + c)"

definition cursor_down :: "u8 \<Rightarrow> u8" where
  "cursor_down c = ((if 5 < c mod 10 then 5 else c) + 10) mod 30"

definition cursor_left :: "u8 \<Rightarrow> u8 \<Rightarrow> u8" where
  "cursor_left k c =
     (if 0 < c mod 10 then c - 1 else if c < 10 \<and> k = 1 then 7 else c div 10 * 10 + 5)"

definition cursor_right :: "u8 \<Rightarrow> u8 \<Rightarrow> u8" where
  "cursor_right k c =
     (let c = c + 1 in
      if c < 10 \<and> k = 1 then c div 10 * 10 + c mod 10 mod 8 else c div 10 * 10 + c mod 10 mod 6)"

definition move_cursor :: "u8 \<Rightarrow> (u8 \<Rightarrow> u8 \<Rightarrow> u8) \<Rightarrow> sys action" where
  "move_cursor b f = do_when (\<lambda>s. button_number s = b)
     [do_set (\<lambda>s. s\<lparr>choose_number := f (chosen s) (choose_number s)\<rparr>),
      do_set (\<lambda>s. s\<lparr>reverse := 0, thread_time := 9\<rparr>)]"

definition store_time :: "sys action list" where
  "store_time = [do_set (\<lambda>s. s\<lparr>setting_time := 0\<rparr>), do_call MS_thread_SetTime]"

definition save_numbers :: "sys \<Rightarrow> sys result" where
  "save_numbers s =
     on_recs_r (set_MSID (zf_list6 s ! 0) (zf_list6 s ! 1) (zf_list6 s ! 2)) s"

text \<open>Blinking: the line the cursor is in is drawn with its digit inverted.\<close>

definition blink_lines :: "world \<Rightarrow> sys action list" where
  "blink_lines w =
     [blink,
      show_list 2 40 row_of_choice (\<lambda>s.
        if choose_number s < 10 \<and> reverse s \<noteq> 0 then choose_number s mod 10 + 10 else 0),
      show_list 4 40 (\<lambda>s. Inr (zf_list7 s)) (\<lambda>s.
        if 10 \<le> choose_number s \<and> choose_number s < 20 \<and> reverse s \<noteq> 0
        then choose_number s mod 10 + 10 else 0),
      do_if (\<lambda>s. 20 \<le> choose_number s \<and> choose_number s < 30 \<and> reverse s \<noteq> 0)
        [show_list 6 40 (\<lambda>s. Inr (zf_list8 s)) (\<lambda>s.
           choose_number s mod 10 + 10 + choose_number s mod 10 div 2)]
        [do_when (\<lambda>s. setting_time s = 0) [do_call (MS_thread_GetTime w)],
         show_list 6 40 (\<lambda>s. Inr (zf_list8 s)) (\<lambda>_. 0)]]"

definition setting_keys :: "sys action list" where
  "setting_keys =
     [do_when (\<lambda>s. button_number s < 10 \<and> choose_number s < 30)
        [do_call put_digit,
         do_set (\<lambda>s. s\<lparr>choose_number := after_digit (chosen s) (choose_number s)\<rparr>),
         do_set (\<lambda>s. s\<lparr>reverse := 0, thread_time := 9\<rparr>)],
      move_cursor BUTTON_UP (\<lambda>_. cursor_up),
      move_cursor BUTTON_DOWN (\<lambda>_. cursor_down),
      move_cursor BUTTON_LEFT cursor_left,
      move_cursor BUTTON_RIGHT cursor_right,
      do_when (\<lambda>s. button_number s \<in> {BUTTON_UP, BUTTON_DOWN, BUTTON_LEFT, BUTTON_RIGHT})
        [do_if (\<lambda>s. 20 \<le> choose_number s \<and> choose_number s \<le> 25)
           [do_when (\<lambda>s. setting_time s = 0) [do_set (\<lambda>s. s\<lparr>setting_time := 1\<rparr>)]]
           [do_when (\<lambda>s. setting_time s = 1) store_time]],
      do_when (\<lambda>s. button_number s = BUTTON_RETUEN)
        [do_if (\<lambda>s. choose_number s = 30)
           [do_set (\<lambda>s. s\<lparr>choose_number := 0, reverse := 0, thread_time := 9\<rparr>)]
           [do_if (\<lambda>s. setting_time s = 1)
              [do_set (\<lambda>s. s\<lparr>choose_number := 0, reverse := 0, thread_time := 9, setting_time := 0\<rparr>)]
              ([clear_screen] @ show_menu @
               [do_set (set_MS 1), do_set (\<lambda>s. s\<lparr>thread_time := 0, chosen := 0\<rparr>)])]],
      do_when (\<lambda>s. button_number s = BUTTON_OK)
        [do_when (\<lambda>s. choose_number s < 30)
           [do_call save_numbers,
            do_when (\<lambda>s. setting_time s = 1) store_time,
            do_set (\<lambda>s. s\<lparr>choose_number := 30\<rparr>)]]]"

definition start_test :: "world \<Rightarrow> sys action" where
  "start_test w = do_with (read_pin w BUTTON9) (\<lambda>level.
     if level then []
     else [do_set (set_MS 3), clear_screen, show_heading,
           show_fixed 2 0 zf_list9 (\<lambda>_. 0), show_text 2 80 ''  ''])"

definition MS_thread_SettingMs :: "world \<Rightarrow> sys \<Rightarrow> sys result" where
  "MS_thread_SettingMs w = body
     [do_when (\<lambda>s. thread_time s mod 10 = 0) (blink_lines w),
      do_when (\<lambda>s. button_number s \<noteq> 16) setting_keys,
      do_when (\<lambda>s. choose_number s = 30) [start_test w]]"

section \<open>The error screen\<close>

text \<open>The texts of the third line, in the order of the source's chain of conditions.\<close>

definition error_texts :: "(u8 \<times> string) list" where
  "error_texts =
     [(READ_ERROR, ''read error''), (MSID_ERROR, ''MSID error''),
      (MSV_ERROR, ''MSV error''), (MSV_INTERFERENCE, ''MSV interference''),
      (LOW_POWER, ''Low power''), (WRITE_ERROR1, ''Write error''), (TAMPER, ''Tamper''),
      (CRITICAL_LOW_BATTERY, ''Critcal Low Battery''), (VALVE_STATUS_ERROR, ''Valve status error''),
      (CRITICAL_ESCAPE, ''Critical escape''), (MINOR_ESCAPE_ERROR, ''Minor escape error''),
      (INSPECT_ERROR, ''Inspect error''), (VALVE_CONNECTION_ERROR, ''Valve connection error''),
      (VALVE_ERROR_ALARM, ''Valve error alarm''), (VALVE_TIGHTNESS_ERROR, ''Valve tightness error''),
      (LOW_BATTERY, ''Low Battery''), (VALVE_ERROR1, ''Valve error'')]"

definition show_error :: "sys \<Rightarrow> sys result" where
  "show_error s =
     body (if MS_error s = WRITE_ERROR
           then [show_text 2 0 ''        '', show_text 2 0 ''Write error'']
           else if MS_error s = VALVE_ERROR \<or> MS_error s = WRITE_ERROR2
           then [show_text 4 0 ''        '',
                 show_text 4 0 (if MS_error s = VALVE_ERROR then ''Valve error'' else ''Write error'')]
           else show_text 6 0 ''        '' #
                (case map_of error_texts (MS_error s) of None \<Rightarrow> [] | Some t \<Rightarrow> [show_text 6 0 t]) @
                (if MS_error s = MSV_ERROR
                 then [do_call (on_hist_r (lcd_number 6 88 (msv_error s) 0))] else [])) s"

definition beep3 :: "world \<Rightarrow> sys action list" where
  "beep3 w =
     [write_pin BUZZ True, delay w 200, write_pin BUZZ False, delay w 200,
      write_pin BUZZ True, delay w 200, write_pin BUZZ False, delay w 200,
      write_pin BUZZ True, delay w 200, write_pin BUZZ False]"

text \<open>Back to the settings, ready for the next test.\<close>

definition back_to_settings :: "world \<Rightarrow> sys action list" where
  "back_to_settings w =
     [do_set (set_MS 2), clear_screen,
      do_set (\<lambda>s. s\<lparr>thread_time := 0, reverse := 0, choose_number := 30\<rparr>),
      show_heading] @ show_settings w (\<lambda>_. 0)"

definition MS_thread_ERROR :: "world \<Rightarrow> sys \<Rightarrow> sys result" where
  "MS_thread_ERROR w = body
     [do_when (\<lambda>s. MS_error s \<noteq> 0)
        ([do_call show_error, do_set (\<lambda>s. s\<lparr>MS_error := 0\<rparr>)] @ beep3 w),
      do_when (\<lambda>s. MS_error s = 0)
        [do_with (read_pin w BUTTON9) (\<lambda>v9.
           if \<not> v9 then back_to_settings w
           else [do_with (read_pin w BUTTON10) (\<lambda>v10.
             if \<not> v10 then back_to_settings w
             else [do_when (\<lambda>s. button_number s = BUTTON_OK \<or> button_number s = BUTTON_RETUEN)
                     (back_to_settings w)])])]]"

section \<open>The next number\<close>

text \<open>The loop that stores the digits, from the last place to the first.\<close>

primrec store_digits :: "nat \<Rightarrow> u32 \<Rightarrow> u8 list \<Rightarrow> u8 list result" where
  "store_digits 0 number row = Inr row"
| "store_digits (Suc n) number row =
     bind_r (arr_set row (Suc n) (ucast (number mod 10) + 100)) (store_digits n (number div 10))"

definition number_length :: "u8 \<Rightarrow> nat" where
  "number_length k = (if k = 1 then 8 else 6)"

definition next_number :: "sys \<Rightarrow> sys result" where
  "next_number s =
     (let len = number_length (chosen s) in
      bind_r (row_of_choice s) (\<lambda>row.
      bind_r (row_number row len) (\<lambda>number.
      map_r (\<lambda>row. s\<lparr>zf_list6 := (zf_list6 s)[unat (chosen s) := row]\<rparr>)
        (store_digits len (number + 1) row))))"

definition MS_thread_return :: "world \<Rightarrow> sys \<Rightarrow> sys result" where
  "MS_thread_return w = body ([do_call next_number, do_call save_numbers] @ back_to_settings w)"

section \<open>The digits of the next number\<close>

lemma row_number_append:
  assumes "n < length row"
  shows "row_number (row @ rest) n = row_number row n"
proof -
  have "arr_get (row @ rest) (i + 1) = arr_get row (i + 1)" if "i < n" for i
    using that assms by (simp add: arr_get_def nth_append)
  then show ?thesis unfolding row_number_def by (intro fold_r_cong) auto
qed

lemma store_digits_decimal:
  assumes "length ds = n"
  shows "\<exists>ds'. store_digits n x (a # ds @ rest) = Inr (a # map (\<lambda>d. d + 100) ds' @ rest) \<and>
    length ds' = n \<and> (\<forall>d\<in>set ds'. d < 10) \<and> decimal ds' = unat x mod 10 ^ n"
  using assms
proof (induction n arbitrary: x ds rest)
  case 0
  then show ?case by (simp add: decimal_def)
next
  case (Suc n)
  then obtain es e where ds: "ds = es @ [e]" "length es = n"
    by (metis append_butlast_last_id length_butlast diff_Suc_1 list.size(3) nat.distinct(1))
  let ?b = "ucast (x mod 10) :: u8"
  have "arr_set (a # ds @ rest) (Suc n) (?b + 100) = Inr (a # es @ (?b + 100) # rest)"
    using ds by (simp add: arr_set_def list_update_append)
  moreover from Suc.IH [OF ds(2), of "x div 10" "(?b + 100) # rest"] obtain ds' where
    ds': "store_digits n (x div 10) (a # es @ (?b + 100) # rest) =
      Inr (a # map (\<lambda>d. d + 100) ds' @ (?b + 100) # rest)" "length ds' = n" "\<forall>d\<in>set ds'. d < 10"
      "decimal ds' = unat (x div 10) mod 10 ^ n" by blast
  moreover have "unat ?b = unat x mod 10"
    by (simp add: unsigned_ucast_eq take_bit_nat_eq_self unat_mod_distrib)
  moreover from this have "?b < 10" by (simp add: word_less_nat_alt)
  moreover have "unat x mod 10 ^ Suc n = 10 * (unat x div 10 mod 10 ^ n) + unat x mod 10"
    by (simp add: mod_mult2_eq)
  ultimately show ?case
    by (intro exI [of _ "ds' @ [?b]"]) (simp add: decimal_snoc unat_div_distrib)
qed

text \<open>
  After a passed test the number of the chosen meter kind is counted on by one in decimal, from
  the digits on the screen to the digits on the screen; from all nines it goes to zero.
\<close>

theorem number_counted_on:
  assumes "row_of_choice s = Inr (digit_row ds @ rest)" and "\<forall>d\<in>set ds. d < 10"
    and "length ds = number_length (chosen s)"
  shows "\<exists>ds'. next_number s =
      Inr (s\<lparr>zf_list6 := (zf_list6 s)[unat (chosen s) := digit_row ds' @ rest]\<rparr>) \<and>
    length ds' = length ds \<and> (\<forall>d\<in>set ds'. d < 10) \<and>
    decimal ds' = (decimal ds + 1) mod 10 ^ length ds"
proof -
  let ?n = "length ds"
  have "?n \<le> 8" by (simp add: assms(3) number_length_def)
  have "decimal ds < 10 ^ ?n" by (rule decimal_bound [OF assms(2)])
  also have "(10::nat) ^ ?n \<le> 10 ^ 8" using \<open>?n \<le> 8\<close> by (rule power_increasing) simp
  finally have "unat (of_nat (decimal ds) + 1 :: u32) = decimal ds + 1"
    by (simp add: unat_word_ariths unat_of_nat take_bit_eq_mod)
  moreover from store_digits_decimal [of "map (\<lambda>d. d + 100) ds" ?n
      "of_nat (decimal ds) + 1" "of_nat ?n" rest] obtain ds' where
    "store_digits ?n (of_nat (decimal ds) + 1) (digit_row ds @ rest) =
      Inr (of_nat ?n # map (\<lambda>d. d + 100) ds' @ rest)" "length ds' = ?n" "\<forall>d\<in>set ds'. d < 10"
      "decimal ds' = unat (of_nat (decimal ds) + 1 :: u32) mod 10 ^ ?n"
    by (auto simp: digit_row_def)
  moreover have "row_number (digit_row ds @ rest) ?n = Inr (of_nat (decimal ds))"
    using row_number_append [of ?n "digit_row ds" rest] row_number_digits [OF assms(2)]
    by (simp add: digit_row_def)
  ultimately show ?thesis
    using assms(1,3) by (intro exI [of _ ds']) (simp add: next_number_def Let_def digit_row_def)
qed

theorem number_counted_on_witness:
  "\<exists>ds'. next_number (sys_boot empty_volume) = Inr (sys_boot empty_volume
       \<lparr>zf_list6 := (zf_list6 (sys_boot empty_volume))[0 := digit_row ds' @ [100, 100, 100]]\<rparr>) \<and>
     decimal ds' = 123457"
proof -
  let ?s = "sys_boot empty_volume"
  have dec: "decimal [1, 2, 3, 4, 5, 6] = 123456" by (simp add: decimal_def)
  have row: "row_of_choice ?s = Inr (digit_row [1, 2, 3, 4, 5, 6] @ [100, 100, 100])"
    by (simp add: row_of_choice_def sys_boot_def digit_row_def)
  have c: "chosen ?s = 0" by (simp add: sys_boot_def)
  have d: "\<forall>d\<in>set [1, 2, 3, 4, 5, 6 :: u8]. d < 10" by simp
  have l: "length [1, 2, 3, 4, 5, 6 :: u8] = number_length (chosen ?s)" by (simp add: c number_length_def)
  from number_counted_on [OF row d l] obtain ds' where
    step: "next_number ?s = Inr (?s\<lparr>zf_list6 := (zf_list6 ?s)[unat (chosen ?s) := digit_row ds' @ [100, 100, 100]]\<rparr>)"
    and "decimal ds' = (decimal [1, 2, 3, 4, 5, 6] + 1) mod 10 ^ length [1, 2, 3, 4, 5, 6 :: u8]" by blast
  then have "decimal ds' = 123457" by (simp add: dec)
  with step [unfolded c unat_0] show ?thesis by blast
qed

section \<open>Two faults of the entry screen\<close>

text \<open>
  The limits of the entered time are put on the wrong fields: hours above 23 stay and set the
  seconds to 23, and otherwise seconds above 59 stay and set the hours to 59; only the minutes are
  limited as meant. The clock is set to that.
\<close>

theorem clock_limits_swapped:
  assumes "length (my_time s) = 7" and "t = time_of_row (zf_list8 s) (my_time s)"
  shows "\<exists>s'. MS_thread_SetTime s = Inr s' \<and> hist s' = RtcSetTime (my_time s') # hist s \<and>
    my_time s' ! 1 = min 59 (t ! 1) \<and>
    my_time s' ! 2 = (if t ! 2 \<le> 23 \<and> 59 < t ! 0 then 59 else t ! 2) \<and>
    my_time s' ! 0 = (if 23 < t ! 2 then 23 else t ! 0)"
proof -
  have len: "length t = 7" using assms by (simp add: time_of_row_def)
  show ?thesis
    unfolding MS_thread_SetTime_def body_def
    by (simp add: do_set_def do_when_def len flip: assms(2))
      (auto simp: set_time_def on_hist_def len min_def)
qed

theorem clock_limits_swapped_witness:
  "\<exists>s'. MS_thread_SetTime ((sys_boot empty_volume)
       \<lparr>zf_list8 := [9, 102, 109, 7, 101, 105, 8, 103, 100, 9]\<rparr>) = Inr s' \<and>
     my_time s' ! 2 = 29 \<and> my_time s' ! 0 = 23"
  using clock_limits_swapped [OF _ refl, of "(sys_boot empty_volume)
       \<lparr>zf_list8 := [9, 102, 109, 7, 101, 105, 8, 103, 100, 9]\<rparr>"]
  by (auto simp: time_of_row_def sys_boot_def)

text \<open>
  C40: For the meter kind with eight digits the cursor of the reading does not turn back behind its
  sixth place: a digit there moves it on, and the next digit is written outside the array.
\<close>

theorem reading_entry_overflows:
  assumes "chosen s = 1" and "choose_number s = 15" and "button_number s < 10"
    and "thread_time s mod 10 \<noteq> 0" and "length (zf_list7 s) = 7"
  shows "\<exists>s'. MS_thread_SettingMs w s = Inr s' \<and> choose_number s' = 16 \<and>
    (\<forall>b n. b < 10 \<longrightarrow> n mod 10 \<noteq> 0 \<longrightarrow>
       MS_thread_SettingMs w (s'\<lparr>button_number := b, thread_time := n\<rparr>) = Inl OutOfBounds)"
proof -
  have key: "b \<noteq> 16" "b \<noteq> 10" "b \<noteq> 11" "b \<noteq> 12" "b \<noteq> 13" "b \<noteq> 14" "b \<noteq> 15" if "b < 10" for b :: u8
    using that by auto
  let ?s = "s\<lparr>zf_list7 := (zf_list7 s)[6 := button_number s + 100], choose_number := 16, reverse := 0, thread_time := 9\<rparr>"
  have "MS_thread_SettingMs w s = Inr ?s"
    unfolding MS_thread_SettingMs_def setting_keys_def move_cursor_def body_def
    using assms key [OF assms(3)]
    by (simp add: do_set_def do_when_def do_call_def put_digit_def arr_set_def after_digit_def buttons)
  moreover have "MS_thread_SettingMs w (?s\<lparr>button_number := b, thread_time := n\<rparr>) = Inl OutOfBounds"
    if "b < 10" "n mod 10 \<noteq> 0" for b n
    unfolding MS_thread_SettingMs_def setting_keys_def move_cursor_def body_def
    using that assms key [OF that(1)]
    by (simp add: do_set_def do_when_def do_call_def put_digit_def arr_set_def)
  ultimately show ?thesis by auto
qed

theorem reading_entry_overflows_witness:
  "\<exists>w s'. MS_thread_SettingMs w ((sys_boot empty_volume)
       \<lparr>chosen := 1, choose_number := 15, button_number := 7, thread_time := 5\<rparr>) = Inr s' \<and>
     choose_number s' = 16 \<and>
     MS_thread_SettingMs w (s'\<lparr>button_number := 3, thread_time := 5\<rparr>) = Inl OutOfBounds"
proof -
  let ?s = "(sys_boot empty_volume)\<lparr>chosen := 1, choose_number := 15, button_number := 7, thread_time := 5\<rparr>"
  have l: "length (zf_list7 ?s) = 7" by (simp add: sys_boot_def)
  have k: "(3 :: u8) < 10" "(5 :: u8) mod 10 \<noteq> 0" by simp_all
  let ?w = "\<lparr>board = bench, meanwhile = (\<lambda>_. []), patience = 1, spi_patience = 1\<rparr>"
  from reading_entry_overflows [of ?s ?w] l obtain s' where
    "MS_thread_SettingMs ?w ?s = Inr s'" "choose_number s' = 16"
    "\<forall>b n. b < 10 \<longrightarrow> n mod 10 \<noteq> 0 \<longrightarrow>
       MS_thread_SettingMs ?w (s'\<lparr>button_number := b, thread_time := n\<rparr>) = Inl OutOfBounds" by auto
  with k show ?thesis by blast
qed

end
