(* ===== verification/Tester_Run.thy ===== *)
theory Tester_Run
  imports Tester_Ui
begin

text \<open>
  The test itself (\<^verbatim>\<open>applications/main.c\<close>): \<^verbatim>\<open>MS_thread_test0\<close> for the running meter without a valve,
  \<^verbatim>\<open>MS_thread_test1\<close> for the two kinds with one, and \<^verbatim>\<open>MS_thread_test\<close>, which runs one of them,
  records the result and lights the lamps.
\<close>

section \<open>Steps of a test\<close>

text \<open>The verdict \<^verbatim>\<open>MS = 4; MS_error = ...; return;\<close>\<close>

definition fail_test :: "u8 \<Rightarrow> sys action list" where
  "fail_test code = [do_set (set_MS 4), do_set (\<lambda>s. s\<lparr>MS_error := code\<rparr>), do_return]"

text \<open>The wait for the answer to the request just sent; anything but a good answer fails the test.\<close>

definition answered :: "world \<Rightarrow> u8 \<Rightarrow> sys action" where
  "answered w code =
     do_with (get_uart_flag w) (\<lambda>f. if f \<noteq> UART_READ_OK then fail_test code else [])"

definition set_meter :: "nat \<Rightarrow> (sys \<Rightarrow> u8 list result) \<Rightarrow> nat \<Rightarrow> sys action" where
  "set_meter flag row len = do_with (value_of row)
     (\<lambda>zf. [do_call (on_meter (my_uart_SetData flag zf len))])"

definition ask_meter :: "nat \<Rightarrow> sys action" where
  "ask_meter flag = do_with (value_of (\<lambda>s. Inr (unat (chosen s))))
     (\<lambda>k. [do_call (on_meter (my_uart_GetData flag k))])"

text \<open>The writes at the start of a test, with the pause between them.\<close>

definition write_settings :: "world \<Rightarrow> nat \<Rightarrow> nat \<Rightarrow> sys action list" where
  "write_settings w len pause =
     [set_meter 0 row_of_choice len, answered w WRITE_ERROR, delay w pause,
      set_meter 1 (\<lambda>s. Inr (zf_list7 s)) 6, answered w WRITE_ERROR, delay w pause,
      set_meter 2 (\<lambda>s. Inr (zf_list8 s)) 6, answered w WRITE_ERROR]"

definition check_number :: "world \<Rightarrow> nat \<Rightarrow> sys action list" where
  "check_number w len =
     [ask_meter 0, answered w READ_ERROR,
      do_with take_reading (\<lambda>uart_data.
        [do_with (value_of (\<lambda>s. bind_r (row_of_choice s) (\<lambda>row. row_number row len))) (\<lambda>number.
           if number \<noteq> uart_data then fail_test MSID_ERROR else [])])]"

definition check_reading :: "world \<Rightarrow> u32 \<Rightarrow> sys action list" where
  "check_reading w expected =
     [ask_meter 1, answered w READ_ERROR,
      do_with take_reading (\<lambda>uart_data.
        if uart_data \<noteq> expected
        then do_set (\<lambda>s. s\<lparr>msv_error := ucast (uart_data mod 10)\<rparr>) # fail_test MSV_ERROR
        else [])]"

text \<open>The status flags, in the order they are looked at: the first bad one is the verdict.\<close>

definition status_verdict0 :: "u32 \<Rightarrow> u8" where
  "status_verdict0 d =
     (if d AND 0x02 \<noteq> 0 then MSV_INTERFERENCE else if d AND 0x01 \<noteq> 0 then LOW_POWER else 0)"

definition status_verdict1 :: "u32 \<Rightarrow> u8" where
  "status_verdict1 d =
     (if d AND 0x02 \<noteq> 0 then TAMPER
      else if d AND 0x01 \<noteq> 0 then LOW_POWER
      else if d AND 0x04 \<noteq> 0 then CRITICAL_LOW_BATTERY
      else if d AND 0x40 = 0 then VALVE_STATUS_ERROR
      else if d AND 0x20 = 0 then CRITICAL_ESCAPE
      else if d AND 0x10 \<noteq> 0 then MINOR_ESCAPE_ERROR
      else if d AND 0x08 \<noteq> 0 then INSPECT_ERROR
      else if d AND 0x80 \<noteq> 0 then VALVE_CONNECTION_ERROR
      else if d AND 0x100 \<noteq> 0 then VALVE_ERROR_ALARM
      else if d AND 0x200 \<noteq> 0 then VALVE_TIGHTNESS_ERROR
      else 0)"

definition check_status :: "world \<Rightarrow> (u32 \<Rightarrow> u8) \<Rightarrow> sys action list" where
  "check_status w verdict =
     [ask_meter 2, answered w READ_ERROR,
      do_with take_reading (\<lambda>uart_data.
        if verdict uart_data \<noteq> 0 then fail_test (verdict uart_data) else [])]"

definition test_passed :: "sys action list" where
  "test_passed =
     [do_set (set_MS 5), show_fixed 6 0 zf_list11 (\<lambda>_. 0), do_set (\<lambda>s. s\<lparr>thread_time := 0\<rparr>)]"

section \<open>The running meter\<close>

definition MS_thread_test0 :: "world \<Rightarrow> sys \<Rightarrow> sys result" where
  "MS_thread_test0 w = body
     (write_settings w 6 200 @
      [show_fixed 2 0 zf_list9 (\<lambda>_. 0), show_fixed 4 0 zf_list10 (\<lambda>_. 0), show_text 4 80 ''  '',
       do_set (on_motor low_speed), do_call (wait_pwm_finish w),
       show_fixed 4 0 zf_list10 (\<lambda>_. 0), show_fixed 6 0 zf_list11 (\<lambda>_. 0), show_text 6 80 ''  '',
       delay w 800] @ check_number w 6 @
      [delay w 800] @ check_reading w 3 @
      [delay w 200] @ check_status w status_verdict0 @
      [delay w 200, set_meter 1 (\<lambda>s. Inr (zf_list7 s)) 6, answered w WRITE_ERROR1] @
      test_passed)"

section \<open>The meters with a valve\<close>

text \<open>
  The light barrier at the valve: the lamp is lit for a moment and the receiver read. In the two
  nested retries the lamp is switched off only where the light came through.
\<close>

definition look_at_valve :: "world \<Rightarrow> nat \<Rightarrow> sys action list \<Rightarrow> sys action list" where
  "look_at_valve w ms blocked =
     [write_pin IR_DET True, delay w ms,
      do_with (read_pin w IR_LED) (\<lambda>level. if \<not> level then write_pin IR_DET False # blocked else [])]"

definition open_valve :: "world \<Rightarrow> u8 \<Rightarrow> sys action list" where
  "open_valve w code = [do_call (on_meter (ms_open_valve (board w))), answered w code]"

definition prepare_valve :: "world \<Rightarrow> sys action list" where
  "prepare_valve w =
     look_at_valve w 150
       (open_valve w WRITE_ERROR2 @ look_at_valve w 100
         (open_valve w WRITE_ERROR2 @ look_at_valve w 100 (fail_test VALVE_ERROR)))"

text \<open>Four seconds at most for the valve to close, and the last look at it.\<close>

primrec await_valve :: "world \<Rightarrow> nat \<Rightarrow> sys action list" where
  "await_valve w 0 = []"
| "await_valve w (Suc n) =
     [delay w 1000,
      do_with (read_pin w IR_LED) (\<lambda>level. if \<not> level then [] else await_valve w n)]"

definition valve_closed :: "world \<Rightarrow> sys action list" where
  "valve_closed w =
     [write_pin IR_DET True, delay w 100] @ await_valve w 4 @
     [do_with (read_pin w IR_LED) (\<lambda>level.
        write_pin IR_DET False # (if level then fail_test VALVE_ERROR else []))]"

definition reopen_valve :: "world \<Rightarrow> sys action list" where
  "reopen_valve w =
     open_valve w WRITE_ERROR1 @ look_at_valve w 100
       (open_valve w WRITE_ERROR1 @ look_at_valve w 100 (fail_test VALVE_ERROR1))"

definition MS_thread_test1 :: "world \<Rightarrow> sys \<Rightarrow> sys result" where
  "MS_thread_test1 w s = body
     (let len = number_length (chosen s) in
      write_settings w len 100 @
      [show_fixed 2 0 zf_list9 (\<lambda>_. 0), show_fixed 4 0 zf_list10 (\<lambda>_. 0), show_text 4 80 ''  ''] @
      prepare_valve w @
      [write_pin IR_DET False, do_set (on_motor high_speed), do_call (wait_pwm_finish w)] @
      valve_closed w @
      [show_fixed 4 0 zf_list10 (\<lambda>_. 0), show_fixed 6 0 zf_list11 (\<lambda>_. 0), show_text 6 80 ''  '',
       delay w 1000] @ check_number w len @
      [delay w 600] @ check_reading w 7 @
      [delay w 200] @ check_status w status_verdict1 @
      [delay w 200, set_meter 1 (\<lambda>s. Inr (zf_list7 s)) 6, answered w WRITE_ERROR1, delay w 200] @
      reopen_valve w @ test_passed) s"

section \<open>The test and its record\<close>

definition record_result :: "sys action list" where
  "record_result =
     [do_with (value_of row_of_choice) (\<lambda>row.
        [do_call (\<lambda>s. on_recs_r (set_record (chosen s) row (MS_error s) (my_time s)) s)]),
      do_set (\<lambda>s. on_recs (\<lambda>r.
        set_Record_txt (get_recordled_data r + 1) (get_ax5045len_data r) (get_version r) r) s)]"

definition MS_thread_test :: "world \<Rightarrow> sys \<Rightarrow> sys result" where
  "MS_thread_test w = body
     ([write_pin BUZZ True, delay w 200, write_pin BUZZ False,
       do_with (rt_tick_get w) (\<lambda>t. [do_set (\<lambda>s. s\<lparr>MS_thread_tick := t\<rparr>)]),
       do_set (on_hist MS_LED_off), do_set (\<lambda>s. s\<lparr>MS_error := 0\<rparr>),
       do_if (\<lambda>s. chosen s = 0) [do_call (MS_thread_test0 w)] [do_call (MS_thread_test1 w)],
       do_with (rt_tick_get w) (\<lambda>t. [do_set (\<lambda>s. s\<lparr>MS_thread_tick := t - MS_thread_tick s\<rparr>)]),
       do_set (get_time w)] @ record_result @
      [do_if (\<lambda>s. MS_error s \<noteq> 0)
         [do_set (on_hist MS_LED_error)] [do_set (on_hist MS_LED_ok)]])"

section \<open>A test that passes has checked everything\<close>

text \<open>The steps of a test as rules for blocks.\<close>

lemma nonzero_codes:
  "WRITE_ERROR \<noteq> 0" "MSID_ERROR \<noteq> 0" "MSV_ERROR \<noteq> 0" "VALVE_ERROR \<noteq> 0" "READ_ERROR \<noteq> 0"
  "WRITE_ERROR1 \<noteq> 0" "WRITE_ERROR2 \<noteq> 0" "VALVE_ERROR1 \<noteq> 0"
  by (simp_all add: error_codes)

lemma runs_fail: "R ((set_MS 4 v)\<lparr>MS_error := code\<rparr>) \<Longrightarrow> runs (fail_test code @ as) Q R v"
  unfolding fail_test_def by (simp, (rule runs_set, simp)+, rule runs_return, simp)

lemma runs_split:
  "(c \<Longrightarrow> runs (as @ cs) Q R v) \<Longrightarrow> (\<not> c \<Longrightarrow> runs (bs @ cs) Q R v) \<Longrightarrow>
     runs ((if c then as else bs) @ cs) Q R v"
  by simp

lemma runs_answered:
  assumes "MS v \<noteq> 11" and "R ((set_MS 4 v)\<lparr>MS_error := code\<rparr>)" and "runs as Q R v"
  shows "runs (answered w code # as) Q R v"
  unfolding answered_def using assms by (intro runs_waiting(3) runs_split runs_fail) simp_all

lemma runs_set_meter:
  assumes "\<And>s. row (view s) = row s" and "runs as Q R v"
  shows "runs (set_meter flag row n # as) Q R v"
  unfolding set_meter_def using assms by (intro runs_value) (auto intro: runs_meter)

lemma runs_ask_meter: "runs as Q R v \<Longrightarrow> runs (ask_meter flag # as) Q R v"
  unfolding ask_meter_def by (intro runs_value) (auto intro: runs_meter)

lemma row_of_choice_view [simp]: "row_of_choice (view s) = row_of_choice s"
  by (simp add: row_of_choice_def)

lemma row_of_choice_readings [simp]: "row_of_choice (v\<lparr>readings := x\<rparr>) = row_of_choice v"
  by (simp add: row_of_choice_def)

lemma runs_write_settings:
  assumes "MS v \<noteq> 11" and "R ((set_MS 4 v)\<lparr>MS_error := WRITE_ERROR\<rparr>)" and "runs as Q R v"
  shows "runs (write_settings w len pause @ as) Q R v"
  unfolding write_settings_def append.simps
  using assms by (intro runs_set_meter runs_answered runs_waiting(1)) simp_all

lemma runs_check_number:
  assumes "MS v \<noteq> 11"
    and "\<And>c x. c \<noteq> 0 \<Longrightarrow> R ((set_MS 4 (v\<lparr>readings := x\<rparr>))\<lparr>MS_error := c\<rparr>)"
    and "\<And>row number. row_of_choice v = Inr row \<Longrightarrow> row_number row len = Inr number \<Longrightarrow>
      runs as Q R (v\<lparr>readings := number # readings v\<rparr>)"
  shows "runs (check_number w len @ as) Q R v"
proof -
  have R: "c \<noteq> 0 \<Longrightarrow> R ((set_MS 4 v)\<lparr>MS_error := c\<rparr>)" for c
    using assms(2) [where x = "readings v"] by simp
  show ?thesis
    unfolding check_number_def append.simps
    by (intro runs_ask_meter runs_answered assms(1) R runs_reading nonzero_codes)
      (auto simp: bind_r_eq_Inr intro!: runs_value runs_fail assms(2,3) nonzero_codes)
qed

lemma runs_check_reading:
  assumes "MS v \<noteq> 11"
    and "\<And>c x e. c \<noteq> 0 \<Longrightarrow> R ((set_MS 4 (v\<lparr>readings := x, msv_error := e\<rparr>))\<lparr>MS_error := c\<rparr>)"
    and "runs as Q R (v\<lparr>readings := expected # readings v\<rparr>)"
  shows "runs (check_reading w expected @ as) Q R v"
proof -
  have R: "c \<noteq> 0 \<Longrightarrow> R ((set_MS 4 v)\<lparr>MS_error := c\<rparr>)" for c
    using assms(2) [where x = "readings v" and e = "msv_error v"] by simp
  show ?thesis
    unfolding check_reading_def append.simps
    by (intro runs_ask_meter runs_answered assms(1) R runs_reading nonzero_codes)
      (auto intro!: runs_set runs_fail assms(2,3) nonzero_codes)
qed

lemma runs_check_status:
  assumes "MS v \<noteq> 11"
    and "\<And>c x. c \<noteq> 0 \<Longrightarrow> R ((set_MS 4 (v\<lparr>readings := x\<rparr>))\<lparr>MS_error := c\<rparr>)"
    and "\<And>d. verdict d = 0 \<Longrightarrow> runs as Q R (v\<lparr>readings := d # readings v\<rparr>)"
  shows "runs (check_status w verdict @ as) Q R v"
proof -
  have R: "c \<noteq> 0 \<Longrightarrow> R ((set_MS 4 v)\<lparr>MS_error := c\<rparr>)" for c
    using assms(2) [where x = "readings v"] by simp
  show ?thesis
    unfolding check_status_def append.simps
    by (intro runs_ask_meter runs_answered assms(1) R runs_reading nonzero_codes)
      (auto intro!: runs_fail assms(2,3))
qed

lemma runs_test_passed:
  assumes "Q ((set_MS 5 v)\<lparr>thread_time := 0\<rparr>)"
  shows "runs test_passed Q R v"
  unfolding test_passed_def
  by (intro runs_set runs_show(2) runs_nil) (simp_all add: assms)

lemma and_exp_zero: "d AND 2 ^ n = 0 \<longleftrightarrow> \<not> bit d n" if "n < 32" for d :: u32
proof -
  have "d AND 2 ^ n = (if bit d n then 2 ^ n else 0)"
    by (rule bit_word_eqI) (auto simp: bit_simps)
  with that show ?thesis by simp
qed

lemma status_masks:
  "d AND 0x01 = 0 \<longleftrightarrow> \<not> bit d 0" "d AND 0x02 = 0 \<longleftrightarrow> \<not> bit d 1" "d AND 0x04 = 0 \<longleftrightarrow> \<not> bit d 2"
  "d AND 0x08 = 0 \<longleftrightarrow> \<not> bit d 3" "d AND 0x10 = 0 \<longleftrightarrow> \<not> bit d 4" "d AND 0x20 = 0 \<longleftrightarrow> \<not> bit d 5"
  "d AND 0x40 = 0 \<longleftrightarrow> \<not> bit d 6" "d AND 0x80 = 0 \<longleftrightarrow> \<not> bit d 7" "d AND 0x100 = 0 \<longleftrightarrow> \<not> bit d 8"
  "d AND 0x200 = 0 \<longleftrightarrow> \<not> bit d 9" for d :: u32
  using and_exp_zero [of 0 d] and_exp_zero [of 1 d] and_exp_zero [of 2 d] and_exp_zero [of 3 d]
    and_exp_zero [of 4 d] and_exp_zero [of 5 d] and_exp_zero [of 6 d] and_exp_zero [of 7 d]
    and_exp_zero [of 8 d] and_exp_zero [of 9 d] by simp_all

lemma less_10:
  "(n::nat) < 10 \<longleftrightarrow> n = 0 \<or> n = 1 \<or> n = 2 \<or> n = 3 \<or> n = 4 \<or> n = 5 \<or> n = 6 \<or> n = 7 \<or> n = 8 \<or> n = 9"
  by presburger

lemma all_less_10:
  "(\<forall>n<10. P (n::nat)) \<longleftrightarrow> P 0 \<and> P 1 \<and> P 2 \<and> P 3 \<and> P 4 \<and> P 5 \<and> P 6 \<and> P 7 \<and> P 8 \<and> P 9"
  by (simp only: less_10 imp_disjL all_conj_distrib) simp

lemma bits_of_0x60: "n < 10 \<Longrightarrow> bit (0x60 :: u32) n \<longleftrightarrow> n = 5 \<or> n = 6"
  unfolding less_10 by auto

lemma low_bits_eq:
  fixes c d :: u32
  assumes "k < 32" and "take_bit k c = c"
  shows "take_bit k d = c \<longleftrightarrow> (\<forall>n<k. bit d n = bit c n)"
proof
  assume "take_bit k d = c"
  then show "\<forall>n<k. bit d n = bit c n" by (auto simp: bit_take_bit_iff)
next
  assume *: "\<forall>n<k. bit d n = bit c n"
  have "take_bit k d = take_bit k c"
    using * by (intro bit_word_eqI) (auto simp: bit_take_bit_iff)
  with assms(2) show "take_bit k d = c" by simp
qed

lemma first_bad: "k \<noteq> 0 \<Longrightarrow> (if c then k else r) = 0 \<longleftrightarrow> \<not> c \<and> r = 0" for k :: u8
  by simp

lemma status_verdict0_bits: "status_verdict0 d = 0 \<longleftrightarrow> d AND 0x03 = 0"
proof -
  have "d AND 0x03 = take_bit 2 d" by (simp add: take_bit_eq_mask mask_eq_exp_minus_1)
  moreover have "take_bit 2 d = 0 \<longleftrightarrow> (\<forall>n<2. bit d n = bit (0 :: u32) n)"
    by (rule low_bits_eq) simp_all
  moreover have "(\<forall>n<2. bit d n = bit (0 :: u32) n) \<longleftrightarrow> \<not> bit d 0 \<and> \<not> bit d 1"
    by (auto simp: less_2_cases_iff)
  moreover have "status_verdict0 d = 0 \<longleftrightarrow> \<not> bit d 0 \<and> \<not> bit d 1"
    by (simp add: status_verdict0_def error_codes status_masks)
  ultimately show ?thesis by simp
qed

lemma status_verdict1_bits: "status_verdict1 d = 0 \<longleftrightarrow> d AND 0x3FF = 0x60"
proof -
  have "d AND 0x3FF = take_bit 10 d" by (simp add: take_bit_eq_mask mask_eq_exp_minus_1)
  moreover have "take_bit 10 d = 0x60 \<longleftrightarrow> (\<forall>n<10. bit d n = bit (0x60 :: u32) n)"
    by (rule low_bits_eq) simp_all
  moreover have "(\<forall>n<10. bit d n = bit (0x60 :: u32) n) \<longleftrightarrow> (\<forall>n<10. bit d n = (n = 5 \<or> n = 6))"
    using bits_of_0x60 by blast
  moreover have "(\<forall>n<10. bit d n = (n = 5 \<or> n = 6)) \<longleftrightarrow>
      \<not> bit d 0 \<and> \<not> bit d 1 \<and> \<not> bit d 2 \<and> \<not> bit d 3 \<and> \<not> bit d 4 \<and> bit d 5 \<and> bit d 6 \<and>
      \<not> bit d 7 \<and> \<not> bit d 8 \<and> \<not> bit d 9"
    by (simp add: all_less_10)
  moreover have "status_verdict1 d = 0 \<longleftrightarrow>
      \<not> bit d 0 \<and> \<not> bit d 1 \<and> \<not> bit d 2 \<and> \<not> bit d 3 \<and> \<not> bit d 4 \<and> bit d 5 \<and> bit d 6 \<and>
      \<not> bit d 7 \<and> \<not> bit d 8 \<and> \<not> bit d 9"
    by (simp add: status_verdict1_def first_bad error_codes status_masks conj_ac split del: if_split)
  ultimately show ?thesis by simp
qed

text \<open>
  C5: The running meter passes the test only if it gave back the number it was set to, a reading
  of 3 after the measured gas, and a status without interference and low power; an ended test is
  either passed on screen 5 or failed on screen 4.
\<close>

theorem running_meter_checked:
  assumes "MS_thread_test0 w s = Inr s'" and "MS s = 3"
  shows "MS s' = 4 \<and> MS_error s' \<noteq> 0 \<or> MS s' = 5 \<and> MS_error s' = MS_error s \<and>
    (\<exists>row number status. row_of_choice s = Inr row \<and> row_number row 6 = Inr number \<and>
       readings s' = status # 3 # number # readings s \<and> status AND 0x03 = 0)"
proof -
  let ?Q = "\<lambda>s'. MS s' = 4 \<and> MS_error s' \<noteq> 0 \<or> MS s' = 5 \<and> MS_error s' = MS_error s \<and>
    (\<exists>row number status. row_of_choice s = Inr row \<and> row_number row 6 = Inr number \<and>
       readings s' = status # 3 # number # readings s \<and> status AND 0x03 = 0)"
  have "runs (write_settings w 6 200 @
      [show_fixed 2 0 zf_list9 (\<lambda>_. 0), show_fixed 4 0 zf_list10 (\<lambda>_. 0), show_text 4 80 ''  '',
       do_set (on_motor low_speed), do_call (wait_pwm_finish w),
       show_fixed 4 0 zf_list10 (\<lambda>_. 0), show_fixed 6 0 zf_list11 (\<lambda>_. 0), show_text 6 80 ''  '',
       delay w 800] @ check_number w 6 @
      [delay w 800] @ check_reading w 3 @
      [delay w 200] @ check_status w status_verdict0 @
      [delay w 200, set_meter 1 (\<lambda>s. Inr (zf_list7 s)) 6, answered w WRITE_ERROR1] @
      test_passed) ?Q ?Q (view s)"
    unfolding append.simps
    using assms(2)
    by (intro runs_write_settings runs_check_number runs_check_reading runs_check_status
        run_rules runs_set_meter runs_answered runs_test_passed)
      (auto simp: status_verdict0_bits nonzero_codes)
  then have "?Q (view s')"
    using assms(1) unfolding MS_thread_test0_def by (rule runs_body)
  then show ?thesis by simp
qed

text \<open>The valve steps: each either goes on or fails the test.\<close>

lemma runs_assoc: "runs (as @ bs @ cs) Q R v \<Longrightarrow> runs ((as @ bs) @ cs) Q R v"
  by simp

lemma runs_look:
  assumes "MS v \<noteq> 11" and "runs (blocked @ as) Q R v" and "runs as Q R v"
  shows "runs (look_at_valve w ms blocked @ as) Q R v"
  unfolding look_at_valve_def append.simps using assms
  by (intro runs_quiet runs_waiting(1) runs_read_pin runs_split) (simp_all add: runs_quiet)

lemma runs_open_valve:
  assumes "MS v \<noteq> 11" and "R ((set_MS 4 v)\<lparr>MS_error := code\<rparr>)" and "runs as Q R v"
  shows "runs (open_valve w code @ as) Q R v"
  unfolding open_valve_def append.simps using assms by (intro runs_meter runs_answered)

lemma runs_await:
  assumes "MS v \<noteq> 11" and "runs as Q R v"
  shows "runs (await_valve w n @ as) Q R v"
proof (induction n)
  case 0
  with assms show ?case by simp
next
  case (Suc n)
  with assms show ?case
    by (simp only: await_valve.simps append.simps)
      (intro runs_waiting(1) runs_read_pin runs_split, simp_all)
qed

lemma runs_prepare:
  assumes "MS v \<noteq> 11" and "\<And>c. c \<noteq> 0 \<Longrightarrow> R ((set_MS 4 v)\<lparr>MS_error := c\<rparr>)" and "runs as Q R v"
  shows "runs (prepare_valve w @ as) Q R v"
  unfolding prepare_valve_def using assms
  by (intro runs_look runs_assoc runs_open_valve runs_fail) (simp_all add: nonzero_codes)

lemma runs_closed:
  assumes "MS v \<noteq> 11" and "\<And>c. c \<noteq> 0 \<Longrightarrow> R ((set_MS 4 v)\<lparr>MS_error := c\<rparr>)" and "runs as Q R v"
  shows "runs (valve_closed w @ as) Q R v"
  unfolding valve_closed_def append_assoc append.simps using assms
  by (intro runs_quiet runs_waiting(1) runs_await runs_read_pin) (simp_all add: runs_quiet runs_fail nonzero_codes)

lemma runs_reopen:
  assumes "MS v \<noteq> 11" and "\<And>c. c \<noteq> 0 \<Longrightarrow> R ((set_MS 4 v)\<lparr>MS_error := c\<rparr>)" and "runs as Q R v"
  shows "runs (reopen_valve w @ as) Q R v"
  unfolding reopen_valve_def using assms
  by (intro runs_look runs_assoc runs_open_valve runs_fail) (simp_all add: nonzero_codes)

text \<open>
  C4: A meter with a valve passes the test only if it gave back the number it was set to, a
  reading of 7 after the measured gas, and exactly the good status: battery and valve in order,
  valve open, no tampering, no leak. An ended test is either passed on screen 5 or failed on
  screen 4.
\<close>

theorem valve_meter_checked:
  assumes "MS_thread_test1 w s = Inr s'" and "MS s = 3"
  shows "MS s' = 4 \<and> MS_error s' \<noteq> 0 \<or> MS s' = 5 \<and> MS_error s' = MS_error s \<and>
    (\<exists>row number status. row_of_choice s = Inr row \<and>
       row_number row (number_length (chosen s)) = Inr number \<and>
       readings s' = status # 7 # number # readings s \<and> status AND 0x3FF = 0x60)"
proof -
  let ?Q = "\<lambda>s'. MS s' = 4 \<and> MS_error s' \<noteq> 0 \<or> MS s' = 5 \<and> MS_error s' = MS_error s \<and>
    (\<exists>row number status. row_of_choice s = Inr row \<and>
       row_number row (number_length (chosen s)) = Inr number \<and>
       readings s' = status # 7 # number # readings s \<and> status AND 0x3FF = 0x60)"
  let ?n = "number_length (chosen s)"
  have "runs (write_settings w ?n 100 @
      [show_fixed 2 0 zf_list9 (\<lambda>_. 0), show_fixed 4 0 zf_list10 (\<lambda>_. 0), show_text 4 80 ''  ''] @
      prepare_valve w @
      [write_pin IR_DET False, do_set (on_motor high_speed), do_call (wait_pwm_finish w)] @
      valve_closed w @
      [show_fixed 4 0 zf_list10 (\<lambda>_. 0), show_fixed 6 0 zf_list11 (\<lambda>_. 0), show_text 6 80 ''  '',
       delay w 1000] @ check_number w ?n @
      [delay w 600] @ check_reading w 7 @
      [delay w 200] @ check_status w status_verdict1 @
      [delay w 200, set_meter 1 (\<lambda>s. Inr (zf_list7 s)) 6, answered w WRITE_ERROR1, delay w 200] @
      reopen_valve w @ test_passed) ?Q ?Q (view s)"
    unfolding append.simps
    using assms(2)
    by (intro runs_write_settings runs_prepare runs_closed runs_check_number runs_check_reading
        runs_check_status runs_reopen run_rules runs_set_meter runs_answered runs_test_passed)
      (auto simp: status_verdict1_bits nonzero_codes)
  then have "?Q (view s')"
    using assms(1) unfolding MS_thread_test1_def Let_def by (rule runs_body)
  then show ?thesis by simp
qed

end
