(* ===== verification/Tester_Ax.thy ===== *)
theory Tester_Ax
  imports Tester_Run "HOL-Library.Signed_Division"
begin

text \<open>
  The receiving screen (\<^verbatim>\<open>applications/main.c\<close>): the clock with its editing, a received frame shown
  and recorded, the recorded frames browsed; the dispatcher of the screens and the main loop.
\<close>

section \<open>Showing the clock and a frame\<close>

definition digit_pair :: "u8 \<Rightarrow> u8 list" where
  "digit_pair x = [x div 10 + byte CHR ''0'', x mod 10 + byte CHR ''0'']"

definition clock_text :: "u8 list \<Rightarrow> u8 list" where
  "clock_text t =
     bytes ''20'' @ digit_pair (t ! 6) @ [byte CHR ''-''] @ digit_pair (t ! 5) @ [byte CHR ''-''] @
     digit_pair (t ! 4) @ [byte CHR '' ''] @ digit_pair (t ! 2) @ [byte CHR '':''] @
     digit_pair (t ! 1) @ [byte CHR '':''] @ digit_pair (t ! 0)"

definition ax_time_show :: "sys \<Rightarrow> sys result" where
  "ax_time_show s =
     (let zz = clock_text (my_time s)
      in if time_number s < 20 \<and> reverse s = 1
         then on_hist_r (lcd_show_zf_time 0 0 zz (time_number s)) s
         else on_hist_r (lcd_show_zf6_8 0 0 zz) s)"

text \<open>A number drawn digit by digit to the left, and one of five digits to the right.\<close>

primrec show_digits :: "nat \<Rightarrow> u8 \<Rightarrow> u8 \<Rightarrow> u32 \<Rightarrow> history \<Rightarrow> history result" where
  "show_digits 0 y l x h = Inr h"
| "show_digits (Suc n) y l x h =
     bind_r (lcd_show6_8 y l (ucast (x mod 10)) 0 h) (show_digits n y (l - 6) (x div 10))"

definition show_address :: "u8 \<Rightarrow> u16 \<Rightarrow> history \<Rightarrow> history result" where
  "show_address l a =
     fold_r (\<lambda>(c, d). lcd_show6_8 7 c (ucast (a div d mod 10)) 0)
       [(l, 10000), (l + 6, 1000), (l + 12, 100), (l + 18, 10), (l + 24, 1)]"

definition show_msid :: "u32 \<Rightarrow> u8 \<Rightarrow> history \<Rightarrow> history result" where
  "show_msid number v h =
     (if v = 0 then show_digits 8 2 78 number h
      else bind_r (show_digits 6 2 66 number h)
             (fold_r (\<lambda>c. lcd_show6_8 2 c 10 0) [72, 78]))"

text \<open>The signal strength: the digits of an \<^verbatim>\<open>int\<close>, whose remainders have the sign of the number.\<close>

definition show_strength :: "int \<Rightarrow> history \<Rightarrow> history result" where
  "show_strength rssi =
     fold_r (\<lambda>(c, d). lcd_show16_32 4 c (word_of_int d))
       [(176, rssi smod 10), (160, rssi smod 100 sdiv 10), (144, rssi smod 1000 sdiv 100)]"

definition flag_cells :: "(u8 \<times> u8) list" where
  "flag_cells =
     [(4, 66), (5, 66), (6, 66), (7, 66), (1, 108), (2, 108), (3, 108), (4, 108), (5, 108), (6, 108)]"

definition show_ax_data ::
    "u32 \<Rightarrow> u32 \<Rightarrow> u8 \<Rightarrow> u8 list \<Rightarrow> int \<Rightarrow> u16 \<Rightarrow> sys \<Rightarrow> sys result" where
  "show_ax_data number reading v flags rssi addr = body
     [do_call (on_hist_r (show_strength rssi)),
      do_call (on_hist_r (fold_r (\<lambda>(c, d). lcd_show6_8 1 c d 0) [(60, v div 2), (66, v mod 2)])),
      do_call (on_hist_r (show_msid number v)),
      do_call (on_hist_r (show_digits 6 3 66 reading)),
      do_call (on_hist_r (fold_r (\<lambda>((y, l), d). lcd_show6_8 y l d 0) (zip flag_cells flags))),
      do_call (on_hist_r (show_address 78 addr)),
      do_call (on_hist_r (lcd_show6_8 7 108 35 0)),
      do_with (value_of (\<lambda>s. stat_sample (recs s))) (\<lambda>n.
        [do_call (on_hist_r (show_address 114 (n - 1)))])]"

definition show_ax_labels :: "sys action list" where
  "show_ax_labels =
     [show_small 1 0 ''VERSION:  00   DL:0'',
      show_small 2 0 ''MSID:          XL:0'',
      show_small 3 0 ''MSV:  950703   AJ:0'',
      show_small 4 0 ''TAMPER:    0 V-DK:0'',
      show_small 5 0 ''BATTERY:   0 V-DL:0'',
      show_small 6 0 ''B-LOW:     0 V-QM:0'',
      show_small 7 0 ''VALVE:     0'',
      do_call (on_hist_r (fold_r (\<lambda>(y, l, k). lcd_show16_32 y l k)
        [(0, 128, 11), (0, 144, 12), (0, 160, 12), (0, 176, 13), (4, 128, 10)]))]"

section \<open>A received frame\<close>

definition get_thread_MS :: "sys \<Rightarrow> u8" where "get_thread_MS s = MS s"

definition set_thread_MS :: "sys \<Rightarrow> sys" where "set_thread_MS = set_MS 12"

text \<open>What of the decoder the refresh reads, each time anew.\<close>

definition record_frame :: "u8 list \<Rightarrow> sys \<Rightarrow> sys result" where
  "record_frame flags s =
     (let d = dec (rf s)
      in on_recs_r (set_ax_record (get_ax_v d) flags (get_ax_msid d) (get_ax_msv d)
           (my_time s) (word_of_int (- get_ax_rssi d))) s)"

definition show_frame :: "u8 list \<Rightarrow> sys \<Rightarrow> sys result" where
  "show_frame flags s =
     (let d = dec (rf s); addr = get_ax5045len_data (recs s);
          addr = (if addr = 0 then AX5043_MAX else addr)
      in show_ax_data (get_ax_msid d) (get_ax_msv d) (get_ax_v d) flags
           (- get_ax_rssi d) (addr - 1) s)"

definition MS_thread_ax_refresh :: "world \<Rightarrow> sys \<Rightarrow> sys result" where
  "MS_thread_ax_refresh w = body
     [do_when (\<lambda>s. get_ax5045len_data (recs s) = 0) show_ax_labels,
      do_with (\<lambda>s. Inr (get_ax_flag (dec (rf s)), s)) (\<lambda>flags.
        [do_call (record_frame flags),
         do_set (\<lambda>s. on_recs (\<lambda>r.
           set_Record_txt (get_recordled_data r) (get_ax5045len_data r + 1) (get_version r) r) s),
         do_call (show_frame flags),
         do_set (get_date w),
         do_set (\<lambda>s. s\<lparr>show_ax_addr := get_ax5045len_data (recs s)\<rparr>),
         write_pin BUZZ True, delay w 150, write_pin BUZZ False,
         do_set (set_MS 11)])]"

section \<open>Browsing the recorded frames\<close>

text \<open>The decimal digits of the record buffer, as the source reads them back.\<close>

definition buffer_number :: "nat \<Rightarrow> nat \<Rightarrow> store \<Rightarrow> u32 result" where
  "buffer_number at n r =
     fold_r (\<lambda>i acc. bind_r (get_ax_data (of_nat (at + i)) r) (\<lambda>b.
         let acc = acc + (ucast b - 48) in Inr (if i + 1 < n then acc * 10 else acc))) [0..<n] 0"

definition buffer_flags :: "store \<Rightarrow> u8 list result" where
  "buffer_flags r =
     fold_r (\<lambda>i acc. map_r (\<lambda>b. acc @ [b - byte CHR ''0'']) (get_ax_data (of_nat (18 + i * 2)) r))
       [0..<10] []"

definition buffer_strength :: "store \<Rightarrow> u16 result" where
  "buffer_strength r =
     bind_r (get_ax_data 56 r) (\<lambda>a. bind_r (get_ax_data 57 r) (\<lambda>b. bind_r (get_ax_data 58 r) (\<lambda>c.
       Inr ((ucast a - 48) * 100 + (ucast b - 48) * 10 + (ucast c - 48)))))"

definition show_ax_record :: "u16 \<Rightarrow> sys \<Rightarrow> sys result" where
  "show_ax_record addr s =
     (case get_ax_Record addr (recs s) of (_, r) \<Rightarrow>
        bind_r (get_ax_data 0 r) (\<lambda>v.
        bind_r (buffer_number 2 8 r) (\<lambda>number.
        bind_r (buffer_number 11 6 r) (\<lambda>reading.
        bind_r (buffer_flags r) (\<lambda>flags.
        bind_r (buffer_strength r) (\<lambda>rssi.
          show_ax_data number reading (v - byte CHR ''0'') flags (uint rssi) addr (s\<lparr>recs := r\<rparr>)))))))"

definition MS_thread_ax_start :: "world \<Rightarrow> sys \<Rightarrow> sys result" where
  "MS_thread_ax_start w = body
     [clear_screen, do_set (get_date w), do_call ax_time_show,
      do_set (\<lambda>s. s\<lparr>show_ax_addr := get_ax5045len_data (recs s)\<rparr>),
      do_when (\<lambda>s. show_ax_addr s \<noteq> 0)
        (show_ax_labels @ [do_call (\<lambda>s. show_ax_record (show_ax_addr s - 1) s)]),
      do_set (\<lambda>s. s\<lparr>time_number := 20\<rparr>),
      do_set (set_MS 11)]"

text \<open>The record before and after, round the ends of the file.\<close>

definition show_previous :: "world \<Rightarrow> sys action list" where
  "show_previous w =
     [do_if (\<lambda>s. show_ax_addr s \<noteq> 0)
        [do_set (\<lambda>s. s\<lparr>show_ax_addr := show_ax_addr s - 1\<rparr>)]
        [do_with (value_of (\<lambda>s. stat_sample (recs s))) (\<lambda>n.
           [do_set (\<lambda>s. s\<lparr>show_ax_addr := n - 1\<rparr>)])],
      do_call (\<lambda>s. show_ax_record (show_ax_addr s) s), delay w 200]"

definition show_following :: "world \<Rightarrow> sys action list" where
  "show_following w =
     [do_set (\<lambda>s. s\<lparr>show_ax_addr := show_ax_addr s + 1\<rparr>),
      do_with (value_of (\<lambda>s. bind_r (stat_sample (recs s)) (\<lambda>n.
          if n = 0 then Inl DivByZero else Inr (show_ax_addr s mod n)))) (\<lambda>a.
        [do_set (\<lambda>s. s\<lparr>show_ax_addr := a\<rparr>)]),
      do_call (\<lambda>s. show_ax_record (show_ax_addr s) s), delay w 200]"

section \<open>Setting the clock\<close>

definition put_clock_digit :: "sys \<Rightarrow> sys result" where
  "put_clock_digit s =
     (let n = unat (time_number s); at = (if n < 6 then 6 - n div 2 else 5 - n div 2);
          b = button_number s
      in bind_r (arr_get (my_time s) at) (\<lambda>x.
         map_r (\<lambda>t. s\<lparr>my_time := t\<rparr>)
           (arr_set (my_time s) at (if odd n then x div 10 * 10 + b else x mod 10 + b * 10))))"

text \<open>The tests for less than 0 in the source never hold of a \<^verbatim>\<open>uint8_t\<close>.\<close>

definition limit_time :: "u8 list \<Rightarrow> u8 list" where
  "limit_time t =
     (let t = t[2 := min 23 (t ! 2)]; t = t[1 := min 59 (t ! 1)] in t[0 := min 59 (t ! 0)])"

definition set_clock :: "sys action list" where
  "set_clock =
     [do_set (\<lambda>s. s\<lparr>my_time := (my_time s)[5 := min 12 (my_time s ! 5)]\<rparr>),
      do_set (\<lambda>s. s\<lparr>my_time := (my_time s)[4 := min 31 (my_time s ! 4)]\<rparr>),
      do_set (\<lambda>s. set_date [my_time s ! 4, my_time s ! 5, my_time s ! 6] s),
      do_set (\<lambda>s. s\<lparr>my_time := limit_time (my_time s)\<rparr>),
      do_set (\<lambda>s. set_time (my_time s) s)]"

definition MS_thread_ax :: "world \<Rightarrow> sys \<Rightarrow> sys result" where
  "MS_thread_ax w = body
     [do_when (\<lambda>s. thread_time s mod 10 = 0)
        [blink, do_when (\<lambda>s. time_number s = 20) [do_set (get_date w)], do_call ax_time_show],
      do_when (\<lambda>s. button_number s \<noteq> 16)
        [do_when (\<lambda>s. button_number s < 10 \<and> time_number s < 12)
           [do_call put_clock_digit,
            do_set (\<lambda>s. s\<lparr>time_number := (time_number s + 1) mod 12, thread_time := 9, reverse := 1\<rparr>)],
         do_when (\<lambda>s. button_number s = BUTTON_UP \<or> button_number s = BUTTON_LEFT)
           [do_if (\<lambda>s. time_number s = 20)
              [do_when (\<lambda>s. get_ax5045len_data (recs s) \<noteq> 0) (show_previous w)]
              [do_set (\<lambda>s. s\<lparr>time_number := (if time_number s \<noteq> 0 then time_number s - 1 else 11),
                            thread_time := 9, reverse := 1\<rparr>)]],
         do_when (\<lambda>s. button_number s = BUTTON_DOWN \<or> button_number s = BUTTON_RIGHT)
           [do_if (\<lambda>s. time_number s = 20)
              [do_when (\<lambda>s. get_ax5045len_data (recs s) \<noteq> 0) (show_following w)]
              [do_set (\<lambda>s. s\<lparr>time_number := (time_number s + 1) mod 12, thread_time := 9, reverse := 1\<rparr>)]],
         do_when (\<lambda>s. button_number s = BUTTON_OK)
           [do_if (\<lambda>s. time_number s = 20)
              [do_set (\<lambda>s. s\<lparr>time_number := 0, thread_time := 9, reverse := 1\<rparr>)]
              (set_clock @ [do_set (\<lambda>s. s\<lparr>time_number := 20, thread_time := 9, reverse := 1\<rparr>)])],
         do_when (\<lambda>s. button_number s = BUTTON_RETUEN)
           [do_if (\<lambda>s. time_number s < 20)
              [do_set (\<lambda>s. s\<lparr>time_number := 20, thread_time := 9\<rparr>)]
              ([clear_screen] @ show_menu @
               [do_set (set_MS 1), do_set (\<lambda>s. s\<lparr>thread_time := 0, chosen := 0\<rparr>)])]]]"

section \<open>The dispatcher and the main loop\<close>

definition passed_screen :: "world \<Rightarrow> sys \<Rightarrow> sys result" where
  "passed_screen w = body
     [do_if (\<lambda>s. thread_time s < 20) [write_pin BUZZ True] [write_pin BUZZ False],
      do_when (\<lambda>s. 3 * 20 \<le> thread_time s) [do_call (MS_thread_return w)]]"

definition MS_thread :: "world \<Rightarrow> sys \<Rightarrow> sys result" where
  "MS_thread w s =
     (if MS s = 0 then MS_thread_init s
      else if MS s = 1 then MS_thread_SelectMode w s
      else if MS s = 2 then MS_thread_SettingMs w s
      else if MS s = 3 then MS_thread_test w s
      else if MS s = 4 then MS_thread_ERROR w s
      else if MS s = 5 then passed_screen w s
      else if MS s = 10 then MS_thread_ax_start w s
      else if MS s = 11 then MS_thread_ax w s
      else if MS s = 12 then MS_thread_ax_refresh w s
      else Inr s)"

definition read_keys :: "world \<Rightarrow> sys \<Rightarrow> sys" where
  "read_keys w s =
     (case get_button_number (board w) (keys s) (hist s) of
        (b, k, h) \<Rightarrow> on_hist (\<lambda>_. h) (s\<lparr>keys := k, button_number := b\<rparr>))"

definition main_round :: "world \<Rightarrow> sys \<Rightarrow> sys result" where
  "main_round w = body
     [do_set (read_keys w),
      do_call (MS_thread w),
      do_set (\<lambda>s. s\<lparr>thread_time := (thread_time s + 1) mod 100\<rparr>),
      delay w 50]"

definition start_radio :: "world \<Rightarrow> sys \<Rightarrow> sys result" where
  "start_radio w s =
     map_r (\<lambda>(rows, r). s\<lparr>rf_rows := rows, rf := r\<rparr>)
       (rf_4068_Init (patience w) (spi_patience w) (board w) (rf_rows s) (rf s))"

definition main_start :: "world \<Rightarrow> sys \<Rightarrow> sys result" where
  "main_start w = body
     [delay w 500,
      do_set (on_recs my_dfs_init), do_set (on_hist MS_LED_init), do_set (on_hist my_button_init),
      do_set (on_motor pwm_sample), do_set (on_hist Init_lcd), do_call (start_radio w)]"

end
