(* ===== verification/Tester_Sound.thy ===== *)
theory Tester_Sound
  imports Tester_Ax
begin

text \<open>
  Well-formed states of the tester and how the statements of the handlers keep them, under an
  interface for invariants of the main loop's own variables.
\<close>

section \<open>Well-formed states\<close>

definition digit_glyph :: "u8 \<Rightarrow> bool" where
  "digit_glyph z \<longleftrightarrow> 100 \<le> z \<and> z < 110"

text \<open>A tens digit of a byte is at most 25, so what the clock row shows has a glyph.\<close>

definition clock_glyph :: "u8 \<Rightarrow> bool" where
  "clock_glyph z \<longleftrightarrow> 100 \<le> z \<and> z < 126"

definition number_row :: "nat \<Rightarrow> u8 list \<Rightarrow> bool" where
  "number_row n row \<longleftrightarrow>
     length row = 10 \<and> row ! 0 = of_nat n \<and> (\<forall>i<n. digit_glyph (row ! Suc i))"

definition rows_sound :: "u8 list list \<Rightarrow> bool" where
  "rows_sound rows \<longleftrightarrow>
     length rows = 3 \<and> number_row 6 (rows ! 0) \<and> number_row 8 (rows ! 1) \<and> number_row 6 (rows ! 2)"

definition reading_sound :: "u8 list \<Rightarrow> bool" where
  "reading_sound row \<longleftrightarrow> length row = 7 \<and> row ! 0 = 6 \<and> (\<forall>i<6. digit_glyph (row ! Suc i))"

definition clock_places :: "nat list" where
  "clock_places = [1, 2, 4, 5, 7, 8]"

definition clock_sound :: "u8 list \<Rightarrow> bool" where
  "clock_sound row \<longleftrightarrow>
     length row = 10 \<and> row ! 0 = 9 \<and> row ! 3 = 7 \<and> row ! 6 = 8 \<and> row ! 9 = 9 \<and>
     (\<forall>i\<in>set clock_places. clock_glyph (row ! i))"

definition sound :: "sys \<Rightarrow> bool" where
  "sound s \<longleftrightarrow>
     rows_sound (zf_list6 s) \<and> reading_sound (zf_list7 s) \<and> clock_sound (zf_list8 s) \<and>
     length (MSID s) = 20 \<and> (\<forall>x\<in>set (MSID s). x < 10) \<and> length (my_time s) = 7 \<and> length (buffer (recs s)) = 80"

text \<open>
  Where the main loop can be, and with what choice: on the screens of a test a meter kind is
  chosen, so that the row of its number exists.
\<close>

definition screens :: "u8 list" where
  "screens = [0, 1, 2, 3, 4, 5, 10, 11, 12]"

definition tester_ok :: "sys \<Rightarrow> bool" where
  "tester_ok s \<longleftrightarrow>
     sound s \<and> MS s \<in> set screens \<and> chosen s \<le> 3 \<and> (MS s \<in> {2, 3, 4, 5} \<longrightarrow> chosen s \<le> 2)"

lemma sound_updates [simp]:
  "sound (set_MS m s) = sound s"
  "sound (s\<lparr>button_number := b\<rparr>) = sound s" "sound (s\<lparr>thread_time := b\<rparr>) = sound s"
  "sound (s\<lparr>chosen := b\<rparr>) = sound s" "sound (s\<lparr>choose_number := b\<rparr>) = sound s"
  "sound (s\<lparr>reverse := b\<rparr>) = sound s" "sound (s\<lparr>MS_error := b\<rparr>) = sound s"
  "sound (s\<lparr>msv_error := b\<rparr>) = sound s" "sound (s\<lparr>MS_thread_tick := t\<rparr>) = sound s"
  "sound (s\<lparr>show_ax_addr := a\<rparr>) = sound s" "sound (s\<lparr>time_number := b\<rparr>) = sound s"
  "sound (s\<lparr>setting_time := b\<rparr>) = sound s" "sound (s\<lparr>readings := r\<rparr>) = sound s"
  by (simp_all add: sound_def)

lemma sound_view: "sound (view s) = sound s"
  by (simp add: sound_def)

section \<open>Statements under an invariant of the main loop\<close>

text \<open>
  An invariant that speaks of the main loop's own variables only, and that bears the radio moving
  the receiving screen on to its refresh.
\<close>

locale steady =
  fixes P :: "sys \<Rightarrow> bool"
  assumes of_view: "P (view s) = P s"
    and doze: "P s \<Longrightarrow> MS s = 11 \<Longrightarrow> P (set_MS 12 s)"
begin

lemma same_view: "view s' = view s \<Longrightarrow> P s \<Longrightarrow> P s'"
  by (metis of_view)

lemma after_hist_r: "on_hist_r f s = Inr s' \<Longrightarrow> P s \<Longrightarrow> P s'"
  by (blast intro: same_view view_on_hist_r)

lemma after_sleep: "sleep w ms s = Inr s' \<Longrightarrow> P s \<Longrightarrow> P s'"
  using sleep_screen [of w ms s s'] doze [of "view s"]
  by (auto simp: of_view intro: same_view) (metis of_view view_set_MS)

lemma after_wait: "wait_while n w ms c s = Inr s' \<Longrightarrow> P s \<Longrightarrow> P s'"
  by (induction n arbitrary: s) (auto split: if_splits dest: after_sleep)

lemma keep_pin [block_rules]: "keeps P (write_pin p b)" "keeps P clear_screen"
  unfolding write_pin_def clear_screen_def by (auto intro!: keeps_set elim: same_view [rotated])

lemma keep_hist [block_rules]: "keeps P (do_set (on_hist f))" "keeps P (do_call (on_hist_r g))"
  by (auto intro!: keeps_set keeps_call elim: same_view [rotated] dest: view_on_hist_r)

lemma keep_show [block_rules]:
  "keeps P (show_list y l row shade)" "keeps P (show_fixed y l zf shade)"
  "keeps P (show_text y l t)" "keeps P (show_small y l t)"
  unfolding show_fixed_def show_list_def show_text_def show_small_def
  by (auto intro!: keeps_call simp: bind_r_eq_Inr intro: after_hist_r)

lemma keep_delay [block_rules]: "keeps P (delay w ms)" "keeps P (do_call (wait_pwm_finish w))"
  unfolding delay_def wait_pwm_finish_def
  by (auto intro!: keeps_call intro: after_sleep after_wait)

lemma keep_meter [block_rules]: "keeps P (do_call (on_meter f))" "keeps P (do_set (on_motor g))"
  by (auto intro!: keeps_call keeps_set elim: same_view [rotated] dest: view_on_meter)

lemma keep_with:
  assumes "\<And>s x s'. P s \<Longrightarrow> f s = Inr (x, s') \<Longrightarrow> P s'" and "\<And>x. keeps P (block (k x))"
  shows "keeps P (do_with f k)"
  using assms unfolding keeps_def do_with_def by (fastforce split: sum.splits prod.splits)

lemma keep_flag [block_rules]: "(\<And>x. keeps P (block (k x))) \<Longrightarrow> keeps P (do_with (get_uart_flag w) k)"
  by (rule keep_with) (auto simp: get_uart_flag_def map_r_eq_Inr intro: after_wait)

lemma keep_read [block_rules]: "(\<And>x. keeps P (block (k x))) \<Longrightarrow> keeps P (do_with (read_pin w p) k)"
  by (rule keep_with) (auto elim: same_view [rotated] dest: view_read_pin)

lemma keep_value [block_rules]: "(\<And>x. keeps P (block (k x))) \<Longrightarrow> keeps P (do_with (value_of f) k)"
  by (rule keep_with) (auto simp: value_of_def map_r_eq_Inr)

lemma keep_tick [block_rules]: "(\<And>x. keeps P (block (k x))) \<Longrightarrow> keeps P (do_with (rt_tick_get w) k)"
  by (rule keep_with) (auto simp: rt_tick_get_def elim: same_view [rotated])

lemma keep_clock [block_rules]:
  "keeps P (do_set (\<lambda>s. set_time (f s) s))" "keeps P (do_set (\<lambda>s. set_date (f s) s))"
  by (auto intro!: keeps_set elim: same_view [rotated] simp: set_time_def set_date_def)

lemma keep_body_call [block_rules]: "keeps P (block as) \<Longrightarrow> keeps P (do_call (body as))"
  by (auto intro!: keeps_call dest: keeps_body)

end

lemma keeps_do_call: "keeps P (do_call f) \<longleftrightarrow> (\<forall>s s'. P s \<longrightarrow> f s = Inr s' \<longrightarrow> P s')"
  by (auto simp: keeps_def do_call_def map_r_eq_Inr)

lemma keeps_nil [block_rules]: "keeps P (block [])"
  by (simp add: keeps_def)

lemma keeps_cons [block_rules]: "keeps P a \<Longrightarrow> keeps P (block as) \<Longrightarrow> keeps P (block (a # as))"
  unfolding keeps_def by (fastforce split: sum.splits flow.splits)

lemma keeps_append [block_rules]:
  "keeps P (block as) \<Longrightarrow> keeps P (block bs) \<Longrightarrow> keeps P (block (as @ bs))"
  unfolding keeps_def block_append by (fastforce split: sum.splits flow.splits)

lemma keeps_choice [block_rules]:
  "keeps P (block as) \<Longrightarrow> keeps P (block bs) \<Longrightarrow> keeps P (block (if c then as else bs))"
  by simp

section \<open>What the calls do to the well-formed state\<close>

text \<open>The store keeps its buffer.\<close>

lemma buffer_set_Record_txt: "length (buffer (set_Record_txt r a v s)) = 80 \<longleftrightarrow> length (buffer s) = 80"
  by (simp add: set_Record_txt_def Let_def splice_def split: option.split) arith

lemma buffer_splice: "length xs \<le> 80 \<Longrightarrow> length ys = 80 \<Longrightarrow> length (splice 0 xs ys) = 80"
  by simp

lemma buffer_get_MSID:
  assumes "length (buffer r) = 80" and "length d = 20" and "\<forall>x\<in>set d. x < 10"
    and "get_MSID d r = (d', r')"
  shows "length (buffer r') = 80 \<and> length d' = 20 \<and> (\<forall>x\<in>set d'. x < 10)"
proof (cases "open_rw MS_MSID_txt (vol r)")
  case None
  with assms show ?thesis by (simp add: get_MSID_def)
next
  case (Some c)
  have "length (file_read 0 80 c) \<le> 80" by (simp add: file_read_def)
  with assms Some show ?thesis
    by (auto simp: get_MSID_def Let_def split: if_splits option.splits)
qed

lemma buffer_set_MSID:
  assumes "set_MSID a b c r = Inr r'" and "length (buffer r) = 80"
  shows "length (buffer r') = 80"
  using assms
  by (auto simp: set_MSID_def bind_r_eq_Inr Let_def dest!: length_digits_of_row split: option.splits)

lemma buffer_set_record:
  assumes "set_record k row e t r = Inr r'" and "length (buffer r) = 80"
  shows "length (buffer r') = 80"
proof -
  have "length rec \<le> 20" if "ms_record k row e t = Inr rec" for rec
    using that by (auto simp: ms_record_def bind_r_eq_Inr dest!: length_digits_of_row)
  with assms show ?thesis
    by (fastforce simp: set_record_def map_r_eq_Inr split: option.splits)
qed

lemma buffer_set_ax_record:
  "set_ax_record v fs a b t x r = Inr r' \<Longrightarrow> length (buffer r) = 80 \<Longrightarrow> length (buffer r') = 80"
  by (auto simp: set_ax_record_def Let_def split: option.splits if_splits)

lemma buffer_get_ax_Record:
  assumes "get_ax_Record a r = (x, r')" and "length (buffer r) = 80"
  shows "length (buffer r') = 80"
proof -
  have "length (file_read at 60 c) \<le> 80" for at c by (simp add: file_read_def)
  with assms show ?thesis
    by (auto simp: get_ax_Record_def Let_def split: option.splits if_splits)
qed

lemma buffer_my_dfs_init:
  assumes "length (buffer r) = 80"
  shows "length (buffer (my_dfs_init r)) = 80"
proof -
  have "length (file_read 0 5 c) \<le> 80" for c by (simp add: file_read_def)
  with assms show ?thesis
    by (auto simp: my_dfs_init_def get_Record_len_def Let_def buffer_set_Record_txt split: option.splits)
qed

section \<open>Screens under the invariant\<close>

text \<open>Well-formed, with a choice up to \<open>c\<close>, on one of the screens \<open>M\<close> (or the refresh of 11).\<close>

definition placed :: "u8 \<Rightarrow> u8 set \<Rightarrow> sys \<Rightarrow> bool" where
  "placed c M s \<longleftrightarrow> sound s \<and> chosen s \<le> c \<and> (MS s \<in> M \<or> MS s = 12 \<and> 11 \<in> M)"

interpretation place: steady "placed c M" for c M
  by unfold_locales (auto simp: placed_def sound_view)

lemma on_hist_fields [simp]:
  "sound (on_hist f s) = sound s" "MS (on_hist f s) = MS s" "chosen (on_hist f s) = chosen s"
  "my_time (on_hist f s) = my_time s"
  by (simp_all add: sound_def on_hist_def)

lemma sound_time: "sound s \<Longrightarrow> length t = 7 \<Longrightarrow> sound (s\<lparr>my_time := t\<rparr>)"
  by (simp add: sound_def)

lemma sound_length_time: "sound s \<Longrightarrow> length (my_time s) = 7"
  by (simp add: sound_def)

lemma sound_recs: "sound s \<Longrightarrow> length (buffer r) = 80 \<Longrightarrow> sound (s\<lparr>recs := r\<rparr>)"
  by (simp add: sound_def)

lemma clock_glyph_digits: "clock_glyph (x div 10 + 100)" "clock_glyph (x mod 10 + 100)"
proof -
  have "unat (x div 10) < 26" "unat (x mod 10) < 10"
    using unat_u8_less [of x] by (simp_all add: unat_div_distrib unat_mod_distrib)
  moreover from this have "unat (x div 10 + 100) = unat (x div 10) + 100"
    "unat (x mod 10 + 100) = unat (x mod 10) + 100"
    by (simp_all add: unat_word_ariths)
  ultimately show "clock_glyph (x div 10 + 100)" "clock_glyph (x mod 10 + 100)"
    by (simp_all add: clock_glyph_def word_less_nat_alt word_le_nat_alt)
qed

lemma sound_clock: "sound s \<Longrightarrow> sound (s\<lparr>zf_list8 := clock_row t (zf_list8 s)\<rparr>)"
  by (simp add: sound_def clock_sound_def clock_row_def clock_places_def clock_glyph_digits)

lemma keep_GetTime [block_rules]: "keeps (placed c M) (do_call (MS_thread_GetTime w))"
  unfolding MS_thread_GetTime_def
  by (intro place.keep_body_call keeps_cons keeps_nil keeps_set)
    (auto simp: placed_def get_time_def sound_clock intro!: sound_time simp: sound_length_time)

lemma keep_get_date [block_rules]:
  "keeps (placed c M) (do_set (get_date w))" "keeps (placed c M) (do_set (get_time w))"
  by (auto intro!: keeps_set sound_time simp: placed_def get_date_def get_time_def simp: sound_length_time)

lemma keep_SetTime [block_rules]: "keeps (placed c M) (do_call MS_thread_SetTime)"
  unfolding MS_thread_SetTime_def
  by (intro place.keep_body_call keeps_cons keeps_nil keeps_set keeps_when)
    (auto simp: placed_def set_time_def time_of_row_def intro!: sound_time simp: sound_length_time)

lemma keep_fields [block_rules]:
  "keeps (placed c M) blink"
  "keeps (placed c M) (do_set (\<lambda>s. s\<lparr>choose_number := fn s\<rparr>))"
  "keeps (placed c M) (do_set (\<lambda>s. s\<lparr>reverse := fn s, thread_time := gn s\<rparr>))"
  "keeps (placed c M) (do_set (\<lambda>s. s\<lparr>MS_error := fn s\<rparr>))"
  "keeps (placed c M) (do_set (\<lambda>s. s\<lparr>msv_error := fn s\<rparr>))"
  "keeps (placed c M) (do_set (\<lambda>s. s\<lparr>MS_thread_tick := tn s\<rparr>))"
  "keeps (placed c M) (do_set (\<lambda>s. s\<lparr>thread_time := fn s\<rparr>))"
  "keeps (placed c M) (do_set (\<lambda>s. s\<lparr>setting_time := fn s\<rparr>))"
  "keeps (placed c M) (do_set (\<lambda>s. s\<lparr>time_number := fn s\<rparr>))"
  "keeps (placed c M) (do_set (\<lambda>s. s\<lparr>show_ax_addr := an s\<rparr>))"
  "keeps (placed c M) (do_set (\<lambda>s. s\<lparr>thread_time := fn s, reverse := gn s, choose_number := hn s\<rparr>))"
  "keeps (placed c M) (do_set (\<lambda>s. s\<lparr>choose_number := fn s, reverse := gn s, thread_time := hn s\<rparr>))"
  "keeps (placed c M) (do_set (\<lambda>s. s\<lparr>time_number := fn s, thread_time := gn s, reverse := hn s\<rparr>))"
  "keeps (placed c M) (do_set (\<lambda>s. s\<lparr>time_number := fn s, thread_time := gn s\<rparr>))"
  "keeps (placed c M) (do_set (\<lambda>s. s\<lparr>choose_number := fn s, reverse := gn s, thread_time := hn s, setting_time := kn s\<rparr>))"
  "keeps (placed c M) (do_set (\<lambda>s. s\<lparr>thread_time := fn s, chosen := 0\<rparr>))"
  by (auto intro!: keeps_set simp: placed_def blink_def)

lemma keep_set_MS: "m \<in> M \<Longrightarrow> keeps (placed c M) (do_set (set_MS m))"
  by (auto intro!: keeps_set simp: placed_def)

lemma keep_reading [block_rules]:
  "(\<And>x. keeps (placed c M) (block (k x))) \<Longrightarrow> keeps (placed c M) (do_with take_reading k)"
  by (rule place.keep_with) (auto simp: take_reading_def Let_def placed_def)

lemma keep_menu [block_rules]:
  "keeps (placed c M) (block show_menu)" "keeps (placed c M) (show_choice shade)"
  "keeps (placed c M) show_heading" "keeps (placed c M) (block (show_settings w shade))"
  unfolding show_menu_def show_choice_def show_heading_def show_settings_def
  by (intro keeps_cons keeps_nil keeps_if keeps_when place.keep_show keep_GetTime)+

text \<open>The steps of a test.\<close>

lemma keep_fail: "4 \<in> M \<Longrightarrow> keeps (placed c M) (block (fail_test code))"
  unfolding fail_test_def
  by (intro keeps_cons keeps_nil keeps_return keep_set_MS keep_fields)

lemma keep_steps:
  assumes "4 \<in> M"
  shows "keeps (placed c M) (answered w code)" "keeps (placed c M) (set_meter flag row n)"
    "keeps (placed c M) (ask_meter flag)" "keeps (placed c M) (block (open_valve w code))"
  unfolding answered_def set_meter_def ask_meter_def open_valve_def using assms
  by (intro block_rules place.keep_flag place.keep_value place.keep_meter keep_fail; simp)+

lemma keep_look:
  "keeps (placed c M) (block bl) \<Longrightarrow> keeps (placed c M) (block (look_at_valve w ms bl))"
  unfolding look_at_valve_def by (intro block_rules)

lemma keep_await: "keeps (placed c M) (block (await_valve w n))"
proof (induction n)
  case 0
  show ?case unfolding await_valve.simps by (rule keeps_nil)
next
  case (Suc n)
  then show ?case unfolding await_valve.simps by (intro block_rules)
qed

lemma keep_test_parts:
  assumes "4 \<in> M"
  shows "keeps (placed c M) (block (write_settings w n p))"
    "keeps (placed c M) (block (check_number w n))" "keeps (placed c M) (block (check_reading w x))"
    "keeps (placed c M) (block (check_status w vd))" "keeps (placed c M) (block (prepare_valve w))"
    "keeps (placed c M) (block (valve_closed w))" "keeps (placed c M) (block (reopen_valve w))"
  unfolding write_settings_def check_number_def check_reading_def check_status_def prepare_valve_def
    valve_closed_def reopen_valve_def
  by (intro block_rules keep_steps keep_fail keep_look keep_await assms)+

lemma keep_test_passed: "5 \<in> M \<Longrightarrow> keeps (placed c M) (block test_passed)"
  unfolding test_passed_def by (intro block_rules keep_set_MS)

lemma keep_recs:
  assumes "\<And>s r. length (buffer (recs s)) = 80 \<Longrightarrow> f s (recs s) = Inr r \<Longrightarrow> length (buffer r) = 80"
  shows "keeps (placed c M) (do_call (\<lambda>s. on_recs_r (f s) s))"
  using assms
  by (auto intro!: keeps_call sound_recs simp: placed_def on_recs_r_def map_r_eq_Inr)
    (auto simp: sound_def)

lemma keep_recs_set:
  assumes "\<And>s. length (buffer (recs s)) = 80 \<Longrightarrow> length (buffer (f s (recs s))) = 80"
  shows "keeps (placed c M) (do_set (\<lambda>s. on_recs (f s) s))"
  using assms by (auto intro!: keeps_set sound_recs simp: placed_def on_recs_def) (auto simp: sound_def)

lemma keep_save [block_rules]: "keeps (placed c M) (do_call save_numbers)"
  unfolding save_numbers_def by (rule keep_recs) (rule buffer_set_MSID)

lemma keep_record [block_rules]: "keeps (placed c M) (block record_result)"
  unfolding record_result_def
  by (intro block_rules keep_recs keep_recs_set) (simp_all add: buffer_set_record buffer_set_Record_txt)

text \<open>The digits entered and the next number.\<close>

lemma number_row_update:
  assumes "number_row n row" and "arr_set row (Suc i) b = Inr row'" and "digit_glyph b"
  shows "number_row n row'"
  using assms by (auto simp: number_row_def arr_set_def nth_list_update split: if_splits)

lemma number_row_store:
  "store_digits k x row = Inr row' \<Longrightarrow> number_row n row \<Longrightarrow> number_row n row'"
proof (induction k arbitrary: x row)
  case 0
  then show ?case by simp
next
  case (Suc k)
  then obtain r where r: "arr_set row (Suc k) (ucast (x mod 10) + 100) = Inr r"
    and rest: "store_digits k (x div 10) r = Inr row'" by auto
  have "unat (x mod 10) < 10" by (simp add: unat_mod_distrib)
  then have "unat (ucast (x mod 10) + 100 :: u8) = unat (x mod 10) + 100"
    by (simp add: unat_word_ariths unsigned_ucast_eq take_bit_nat_eq_self)
  with \<open>unat (x mod 10) < 10\<close> have "digit_glyph (ucast (x mod 10) + 100)"
    by (simp add: digit_glyph_def word_less_nat_alt word_le_nat_alt)
  from Suc.IH [OF rest number_row_update [OF Suc.prems(2) r this]] show ?case .
qed

lemma rows_sound_update:
  assumes "rows_sound rows" and "\<And>n. number_row n (rows ! k) \<Longrightarrow> number_row n row"
  shows "rows_sound (rows[k := row])"
proof -
  consider "k = 0" | "k = 1" | "k = 2" | "3 \<le> k" by linarith
  then show ?thesis
    using assms by cases (auto simp: rows_sound_def list_update_beyond)
qed

lemma row_of_choice_eq: "row_of_choice s = Inr row \<Longrightarrow> row = zf_list6 s ! unat (chosen s)"
  by (auto simp: row_of_choice_def arr_get_def split: if_splits)

lemma keep_next_number [block_rules]: "keeps (placed c M) (do_call next_number)"
proof (rule keeps_call)
  fix s s'
  assume "placed c M s" and "next_number s = Inr s'"
  then show "placed c M s'"
    by (auto simp: next_number_def Let_def bind_r_eq_Inr map_r_eq_Inr placed_def sound_def
        dest!: row_of_choice_eq intro!: rows_sound_update intro: number_row_store)
qed

lemma digit_button: "b < 10 \<Longrightarrow> digit_glyph (b + 100)"
proof -
  assume "b < 10"
  then have "unat b < 10" by (simp add: word_less_nat_alt)
  then have "unat (b + 100) = unat b + 100" by (simp add: unat_word_ariths)
  with \<open>unat b < 10\<close> show ?thesis by (simp add: digit_glyph_def word_less_nat_alt word_le_nat_alt)
qed

lemma clock_place:
  "p + 1 + p div 2 < 10 \<Longrightarrow> p + 1 + p div 2 \<in> set clock_places" for p :: nat
proof -
  assume "p + 1 + p div 2 < 10"
  then have "p < 8" by linarith
  with \<open>p + 1 + p div 2 < 10\<close> show ?thesis unfolding less_8 by (auto simp: clock_places_def)
qed

lemma sound_put_digit:
  assumes "sound s" and "button_number s < 10" and "put_digit s = Inr s'"
  shows "sound s' \<and> chosen s' = chosen s \<and> MS s' = MS s"
proof -
  note digit = digit_button [OF assms(2)]
  then have clock: "clock_glyph (button_number s + 100)"
    by (auto simp: digit_glyph_def clock_glyph_def intro: less_trans)
  from assms(1) have rows: "rows_sound (zf_list6 s)" and reading: "reading_sound (zf_list7 s)"
    and time: "clock_sound (zf_list8 s)" by (simp_all add: sound_def)
  have 1: "rows_sound ((zf_list6 s)[unat (chosen s) := row'])"
    if "row_of_choice s = Inr row" "arr_set row (Suc i) (button_number s + 100) = Inr row'" for row row' i
    using that row_of_choice_eq [OF that(1)]
    by (intro rows_sound_update [OF rows]) (auto intro: number_row_update [OF _ that(2) digit])
  have 2: "reading_sound row'" if "arr_set (zf_list7 s) (Suc i) (button_number s + 100) = Inr row'" for row' i
    using that reading digit
    by (auto simp: reading_sound_def arr_set_def nth_list_update split: if_splits)
  have 3: "clock_sound row'"
    if "arr_set (zf_list8 s) (p + 1 + p div 2) (button_number s + 100) = Inr row'" for row' p
  proof -
    from that time have "p + 1 + p div 2 < 10"
      and row': "row' = (zf_list8 s)[p + 1 + p div 2 := button_number s + 100]"
      by (auto simp: arr_set_def clock_sound_def split: if_splits)
    from clock_place [OF this(1)] time clock show ?thesis
      by (auto simp: row' clock_sound_def clock_places_def nth_list_update)
  qed
  show ?thesis
    using assms(1,3) 1 2 3
    by (auto simp: put_digit_def Let_def bind_r_eq_Inr map_r_eq_Inr sound_def split: if_splits)
qed

end
