(* ===== verification/Tester_Bench.thy ===== *)
theory Tester_Bench
  imports Tester_Run
begin

text \<open>
  Whole tests on a bench without a meter at the line; theory \<open>Tester_Meter\<close> has one that answers.
  Here the question is not only what a test ends with if it ends, but that it ends.
\<close>

section \<open>Blocks that end\<close>

text \<open>\<open>ends as Q s\<close>: the block gets through without a fault and ends, returned or not, with \<open>Q\<close>.\<close>

definition ends :: "sys action list \<Rightarrow> (sys \<Rightarrow> bool) \<Rightarrow> sys \<Rightarrow> bool" where
  "ends as Q s \<longleftrightarrow> (\<exists>f. block as s = Inr f \<and> Q (state_of f))"

lemma ends_body: "ends as Q s \<Longrightarrow> \<exists>s'. body as s = Inr s' \<and> Q s'"
  by (auto simp: ends_def body_def)

lemma ends_nil: "ends [] Q s = Q s"
  by (simp add: ends_def)

lemma ends_set: "ends (do_set f # as) Q s = ends as Q (f s)"
  by (simp add: ends_def do_set_def)

lemma ends_call: "ends (do_call f # as) Q s \<longleftrightarrow> (\<exists>s'. f s = Inr s' \<and> ends as Q s')"
  by (cases "f s") (simp_all add: ends_def do_call_def)

lemma ends_return: "ends (do_return # as) Q s = Q s"
  by (simp add: ends_def do_return_def)

lemma ends_with:
  "ends (do_with f k # as) Q s \<longleftrightarrow> (\<exists>x s'. f s = Inr (x, s') \<and> ends (k x @ as) Q s')"
  by (cases "f s")
    (auto simp: ends_def do_with_def block_append split: prod.split sum.split flow.split)

lemma ends_fail: "ends (fail_test code @ as) Q s = Q ((set_MS 4 s)\<lparr>MS_error := code\<rparr>)"
  by (simp add: fail_test_def ends_set ends_return)

lemmas ends_rules = ends_nil ends_set ends_call ends_return ends_with ends_fail append.simps

section \<open>Requests that can be sent\<close>

lemma fold_r_total:
  assumes "\<And>x s. x \<in> set xs \<Longrightarrow> \<exists>s'. f x s = Inr s'"
  shows "\<exists>s'. fold_r f xs s = Inr s'"
  using assms
proof (induction xs arbitrary: s)
  case Nil
  then show ?case by simp
next
  case (Cons x xs)
  then obtain s1 where "f x s = Inr s1" by (metis list.set_intros(1))
  moreover from Cons have "\<exists>s'. fold_r f xs s1 = Inr s'" by simp
  ultimately show ?case by simp
qed

lemma row_number_total: "n < length row \<Longrightarrow> \<exists>x. row_number row n = Inr x"
  unfolding row_number_def by (rule fold_r_total) (auto simp: Let_def)

lemma SetData_total:
  assumes "n < length row" and "flag < 2" and "n \<le> 8" and "length (fs_data u) = 40"
  shows "\<exists>u' h'. my_uart_SetData flag row n (u, h) = Inr (u', h') \<and> length (fs_data u') = 40"
proof -
  from row_number_total [OF assms(1)] obtain x where x: "row_number row n = Inr x" by blast
  from assms(2) have "\<exists>cmd. arr_get MS_Set_Command flag = Inr cmd"
    by (simp add: MS_Set_Command_def)
  then obtain cmd where cmd: "arr_get MS_Set_Command flag = Inr cmd" ..
  show ?thesis
    using assms
    by (simp add: my_uart_SetData_def x cmd fs_fill_def Let_def request_frame_def)
qed

section \<open>A line without a meter\<close>

text \<open>Nothing but the periods of the timeout thread happens, at least one in each sleep.\<close>

definition silent :: "world \<Rightarrow> bool" where
  "silent w \<longleftrightarrow>
     40 \<le> patience w \<and> (\<forall>h. meanwhile w h \<noteq> [] \<and> set (meanwhile w h) \<subseteq> {TimeoutPeriod})"

text \<open>A wait is under way, or it was given up.\<close>

definition waiting :: "uart \<Rightarrow> bool" where
  "waiting u \<longleftrightarrow> uart_flag u = (if uart_timeot u = 0 then UART_ERROR_TIMEOUT else UART_WAIT)"

lemma waiting_step:
  assumes "waiting u"
  shows "waiting (data_timeout_parsing u)"
    and "unat (uart_timeot (data_timeout_parsing u)) = unat (uart_timeot u) - 1"
proof -
  show "waiting (data_timeout_parsing u)"
    using assms by (auto simp: waiting_def data_timeout_parsing_def uart_flags Let_def)
  have "uart_timeot u \<noteq> 0 \<Longrightarrow> unat (uart_timeot u - 1) = unat (uart_timeot u) - 1"
    by (simp add: unat_minus_one)
  then show "unat (uart_timeot (data_timeout_parsing u)) = unat (uart_timeot u) - 1"
    by (auto simp: data_timeout_parsing_def Let_def)
qed

lemma silent_periods:
  assumes "waiting (meter s)" and "set bs \<subseteq> {TimeoutPeriod}"
  shows "\<exists>u. fold_r (background_step w) bs s = Inr (s\<lparr>meter := u\<rparr>) \<and> waiting u \<and>
    unat (uart_timeot u) = unat (uart_timeot (meter s)) - length bs"
  using assms
proof (induction bs arbitrary: s)
  case Nil
  then show ?case by (intro exI [of _ "meter s"]) simp
next
  case (Cons b bs)
  let ?s = "s\<lparr>meter := data_timeout_parsing (meter s)\<rparr>"
  from Cons.prems have b: "background_step w b s = Inr ?s" by (simp add: background_step_def)
  from Cons.IH [of ?s] Cons.prems waiting_step [OF Cons.prems(1)] b show ?case by auto
qed

lemma silent_sleep:
  assumes "silent w" and "waiting (meter s)"
  shows "\<exists>u h. sleep w ms s = Inr (on_hist (\<lambda>_. h) (s\<lparr>meter := u\<rparr>)) \<and> waiting u \<and>
    (uart_timeot (meter s) \<noteq> 0 \<longrightarrow> unat (uart_timeot u) < unat (uart_timeot (meter s)))"
proof -
  let ?s = "on_hist (rt_thread_mdelay ms) s"
  have m: "meter ?s = meter s" by (simp add: on_hist_def)
  have "set (meanwhile w (hist ?s)) \<subseteq> {TimeoutPeriod}" "meanwhile w (hist ?s) \<noteq> []"
    using assms(1) by (simp_all add: silent_def)
  with silent_periods [of ?s "meanwhile w (hist ?s)" w] assms(2) m obtain u where
    "sleep w ms s = Inr (?s\<lparr>meter := u\<rparr>)" and "waiting u"
    and "unat (uart_timeot u) = unat (uart_timeot (meter s)) - length (meanwhile w (hist ?s))"
    by (auto simp: sleep_def Let_def)
  moreover have "?s\<lparr>meter := u\<rparr> = on_hist (\<lambda>_. hist ?s) (s\<lparr>meter := u\<rparr>)" by (simp add: on_hist_def)
  ultimately show ?thesis
    using \<open>meanwhile w (hist ?s) \<noteq> []\<close>
    by (intro exI [of _ u] exI [of _ "hist ?s"]) (auto simp: word_less_nat_alt unat_gt_0 diff_less)
qed

lemma silent_wait:
  assumes "silent w" and "waiting (meter s)" and "unat (uart_timeot (meter s)) \<le> n"
  shows "\<exists>u h. wait_while n w ms (\<lambda>s. uart_timeot (meter s) \<noteq> 0) s =
      Inr (on_hist (\<lambda>_. h) (s\<lparr>meter := u\<rparr>)) \<and> waiting u \<and> uart_timeot u = 0"
  using assms(2,3)
proof (induction n arbitrary: s)
  case 0
  then have "uart_timeot (meter s) = 0" by (simp add: unat_eq_0)
  with 0 show ?case
    by (intro exI [of _ "meter s"] exI [of _ "hist s"]) (simp add: on_hist_def)
next
  case (Suc n)
  show ?case
  proof (cases "uart_timeot (meter s) = 0")
    case True
    with Suc show ?thesis
      by (intro exI [of _ "meter s"] exI [of _ "hist s"]) (simp add: on_hist_def)
  next
    case False
    with silent_sleep [OF assms(1) Suc.prems(1), of ms] obtain u h where
      sl: "sleep w ms s = Inr (on_hist (\<lambda>_. h) (s\<lparr>meter := u\<rparr>))" and u: "waiting u"
      and less: "unat (uart_timeot u) < unat (uart_timeot (meter s))" by blast
    let ?s = "on_hist (\<lambda>_. h) (s\<lparr>meter := u\<rparr>)"
    have "meter ?s = u" by (simp add: on_hist_def)
    with Suc.IH [of ?s] u less Suc.prems(2) obtain u' h' where
      "wait_while n w ms (\<lambda>s. uart_timeot (meter s) \<noteq> 0) ?s = Inr (on_hist (\<lambda>_. h') (?s\<lparr>meter := u'\<rparr>))"
      and "waiting u' \<and> uart_timeot u' = 0" by auto
    moreover have "on_hist (\<lambda>_. h') (?s\<lparr>meter := u'\<rparr>) = on_hist (\<lambda>_. h') (s\<lparr>meter := u'\<rparr>)"
      by (simp add: on_hist_def)
    ultimately show ?thesis using False sl by auto
  qed
qed

text \<open>The first write to an absent meter: sent, waited for, given up; the test fails.\<close>

lemma silent_write:
  assumes "silent w" and "row_of_choice s = Inr row" and "n < length row" and "n \<le> 8"
    and "length (fs_data (meter s)) = 40"
  shows "ends (write_settings w n pause @ as)
    (\<lambda>s'. MS s' = 4 \<and> MS_error s' = WRITE_ERROR \<and> mot s' = mot s) s"
proof -
  from SetData_total [OF assms(3), of 0 "meter s" "hist s"] assms(4,5) obtain u h where
    sent: "my_uart_SetData 0 row n (meter s, hist s) = Inr (u, h)" by auto
  let ?s = "s\<lparr>meter := u, rf := (rf s)\<lparr>trace := h\<rparr>\<rparr>"
  from SetData_state [OF sent] have st: "waiting (meter ?s)" "unat (uart_timeot (meter ?s)) \<le> 40"
    by (simp_all add: waiting_def)
  have "40 \<le> patience w" using assms(1) by (simp add: silent_def)
  with st(2) have "unat (uart_timeot (meter ?s)) \<le> patience w" by linarith
  from silent_wait [OF assms(1) st(1) this, of 100] obtain u' h' where
    "wait_while (patience w) w 100 (\<lambda>s. uart_timeot (meter s) \<noteq> 0) ?s =
      Inr (on_hist (\<lambda>_. h') (?s\<lparr>meter := u'\<rparr>))" and "waiting u'" and "uart_timeot u' = 0"
    by blast
  then have "get_uart_flag w ?s = Inr (UART_ERROR_TIMEOUT, on_hist (\<lambda>_. h') (?s\<lparr>meter := u'\<rparr>))"
    by (simp add: get_uart_flag_def waiting_def on_hist_def)
  then show ?thesis
    by (simp add: write_settings_def set_meter_def answered_def ends_rules value_of_def assms(2)
        on_meter_def sent uart_flags) (simp add: on_hist_def)
qed

lemma silent_test1:
  assumes "silent w" and "row_of_choice s = Inr row" and "number_length (chosen s) < length row"
    and "length (fs_data (meter s)) = 40"
  shows "\<exists>s'. MS_thread_test1 w s = Inr s' \<and> MS s' = 4 \<and> MS_error s' = WRITE_ERROR \<and> mot s' = mot s"
proof -
  have len: "number_length (chosen s) \<le> 8" by (simp add: number_length_def)
  show ?thesis
    unfolding MS_thread_test1_def Let_def
    by (intro ends_body silent_write [OF assms(1,2) assms(3) len assms(4)])
qed

text \<open>
  C27: Without a meter at the line, a test of any kind ends, with a write error on the error
  screen, and the motor was never started.
\<close>

theorem absent_meter_fails:
  assumes "silent w" and "row_of_choice s = Inr row" and "number_length (chosen s) < length row"
    and "length (fs_data (meter s)) = 40"
  shows "(chosen s = 0 \<longrightarrow> (\<exists>s'. MS_thread_test0 w s = Inr s' \<and>
      MS s' = 4 \<and> MS_error s' = WRITE_ERROR \<and> mot s' = mot s)) \<and>
    (chosen s \<noteq> 0 \<longrightarrow> (\<exists>s'. MS_thread_test1 w s = Inr s' \<and>
      MS s' = 4 \<and> MS_error s' = WRITE_ERROR \<and> mot s' = mot s))"
proof -
  have "\<exists>s'. MS_thread_test0 w s = Inr s' \<and> MS s' = 4 \<and> MS_error s' = WRITE_ERROR \<and> mot s' = mot s"
    if "chosen s = 0"
    using that assms(3) unfolding MS_thread_test0_def
    by (intro ends_body silent_write [OF assms(1,2) _ _ assms(4)]) (simp_all add: number_length_def)
  then show ?thesis using silent_test1 [OF assms] by blast
qed

text \<open>A world in which only time passes, and the tester just asked to test a meter of a kind.\<close>

definition silent_world :: world where
  "silent_world =
     \<lparr>board = bench, meanwhile = (\<lambda>_. [TimeoutPeriod, TimeoutPeriod]), patience = 40, spi_patience = 1\<rparr>"

definition test_start :: "u8 \<Rightarrow> sys" where
  "test_start k = (set_MS 3 (sys_boot empty_volume))\<lparr>chosen := k\<rparr>"

lemma silent_silent_world: "silent silent_world"
  by (simp add: silent_def silent_world_def)

lemma test_start_simps [simp]:
  "MS (test_start k) = 3" "chosen (test_start k) = k" "MS_error (test_start k) = 0"
  "readings (test_start k) = []" "length (fs_data (meter (test_start k))) = 40"
  "row_of_choice (test_start 0) = Inr [6, 101, 102, 103, 104, 105, 106, 100, 100, 100]"
  "row_of_choice (test_start 1) = Inr [8, 109, 108, 107, 106, 105, 104, 103, 102, 100]"
  by (simp_all add: test_start_def set_MS_def sys_boot_def row_of_choice_def uart_boot_def)

theorem absent_meter_fails_witness:
  "\<exists>s'. MS_thread_test1 silent_world (test_start 1) = Inr s' \<and> MS s' = 4 \<and> MS_error s' = WRITE_ERROR"
  using absent_meter_fails [OF silent_silent_world, of "test_start 1"]
  by (auto simp: number_length_def)

theorem valve_meter_checked_witness:
  "\<exists>s'. MS_thread_test1 silent_world (test_start 1) = Inr s' \<and> MS s' = 4 \<and> MS_error s' \<noteq> 0"
proof -
  from silent_test1 [OF silent_silent_world, of "test_start 1"] obtain s' where
    run: "MS_thread_test1 silent_world (test_start 1) = Inr s'" and "MS s' = 4"
    by (auto simp: number_length_def)
  with valve_meter_checked [OF run] show ?thesis by auto
qed

end
