(* ===== verification/Tester_Loop.thy ===== *)
theory Tester_Loop
  imports Tester_Sound Tester_Bench
begin

text \<open>
  The state of the main loop stays well-formed, whatever keys are pressed and whatever the other
  threads and the radio do: an invariant over whole runs of \<^verbatim>\<open>main\<close>, screen by screen.
\<close>

section \<open>The screens, one by one\<close>

lemma number_row_load:
  assumes "number_row n row" and "length ds = n" and "\<forall>x\<in>set ds. x < 10" and "n \<le> 9"
  shows "number_row n (splice (Suc 0) (map (\<lambda>x. x + 100) ds) row)"
proof -
  obtain a r where row: "row = a # r" "length r = 9"
    using assms(1) by (cases row) (auto simp: number_row_def)
  then have eq: "splice (Suc 0) (map (\<lambda>x. x + 100) ds) row = a # map (\<lambda>x. x + 100) ds @ drop n r"
    using assms(2) by (simp add: splice_def)
  have "digit_glyph (ds ! i + 100)" if "i < n" for i
    using that assms(2,3) by (intro digit_button) auto
  with assms(1,2,4) row show ?thesis
    unfolding eq by (auto simp: number_row_def nth_append)
qed

lemma rows_sound_load:
  assumes "rows_sound rows" and "length d = 20" and "\<forall>x\<in>set d. x < 10"
  shows "rows_sound (load_numbers d rows)"
proof -
  from assms(1) obtain a b c where rows: "rows = [a, b, c]"
    by (auto simp: rows_sound_def length_Suc_conv numeral_3_eq_3)
  have *: "\<forall>x\<in>set (take n (drop k d)). x < 10" for n k
    using assms(3) by (meson in_set_dropD in_set_takeD)
  have "number_row 6 a" "number_row 8 b" "number_row 6 c" using assms(1) by (simp_all add: rows rows_sound_def)
  then have "number_row 6 (splice (Suc 0) (map (\<lambda>x. x + 100) (take 6 d)) a)"
    "number_row 8 (splice (Suc 0) (map (\<lambda>x. x + 100) (take 8 (drop 6 d))) b)"
    "number_row 6 (splice (Suc 0) (map (\<lambda>x. x + 100) (drop 14 d)) c)"
    using assms(2) * [of 6 0] * [of 8 6] * [of 6 14] by (simp_all add: number_row_load)
  then show ?thesis
    using assms(2) unfolding rows by (simp add: load_numbers_def menu_rows_def rows_sound_def)
qed

lemma keep_load:
  "keeps (placed c M) (do_set (\<lambda>s. case get_MSID (MSID s) (recs s) of (d, r) \<Rightarrow> s\<lparr>MSID := d, recs := r\<rparr>))"
  "keeps (placed c M) (do_set (\<lambda>s. s\<lparr>zf_list6 := load_numbers (MSID s) (zf_list6 s)\<rparr>))"
proof -
  show "keeps (placed c M) (do_set (\<lambda>s. case get_MSID (MSID s) (recs s) of (d, r) \<Rightarrow> s\<lparr>MSID := d, recs := r\<rparr>))"
  proof (rule keeps_set)
    fix s
    assume s: "placed c M s"
    obtain d r where dr: "get_MSID (MSID s) (recs s) = (d, r)" by fastforce
    have "length (buffer r) = 80 \<and> length d = 20 \<and> (\<forall>x\<in>set d. x < 10)"
      by (rule buffer_get_MSID [OF _ _ _ dr]) (use s in \<open>simp_all add: placed_def sound_def\<close>)
    with s show "placed c M (case get_MSID (MSID s) (recs s) of (d, r) \<Rightarrow> s\<lparr>MSID := d, recs := r\<rparr>)"
      by (simp add: dr placed_def sound_def)
  qed
  show "keeps (placed c M) (do_set (\<lambda>s. s\<lparr>zf_list6 := load_numbers (MSID s) (zf_list6 s)\<rparr>))"
    by (rule keeps_set) (simp add: placed_def sound_def rows_sound_load)
qed

lemma placed_body: "placed c M s \<Longrightarrow> body as s = Inr s' \<Longrightarrow> keeps (placed c M) (block as) \<Longrightarrow> placed c M s'"
  by (rule keeps_body [where P = "placed c M"])

lemma keep_init: "keeps (placed 3 {0, 1}) (do_call MS_thread_init)"
  unfolding MS_thread_init_def by (intro block_rules keep_set_MS keep_load; simp)

lemma keep_digits [block_rules]:
  assumes "keeps (placed c M) (block as)"
  shows "keeps (placed c M)
    (do_when (\<lambda>s. button_number s < 10 \<and> choose_number s < 30) (do_call put_digit # as))"
  unfolding keeps_def
proof (intro allI impI)
  fix s f
  assume s: "placed c M s"
    and run: "do_when (\<lambda>s. button_number s < 10 \<and> choose_number s < 30) (do_call put_digit # as) s = Inr f"
  show "placed c M (state_of f)"
  proof (cases "button_number s < 10 \<and> choose_number s < 30")
    case True
    with run obtain s1 where s1: "put_digit s = Inr s1" and rest: "block as s1 = Inr f"
      by (auto simp: do_when_def do_call_def map_r_def bind_r_def split: sum.splits)
    from s True s1 have "placed c M s1" by (auto simp: placed_def dest: sound_put_digit)
    with assms rest show ?thesis by (simp add: keeps_def)
  next
    case False
    with s run show ?thesis by (auto simp: do_when_def)
  qed
qed

lemma keep_SettingMs: "keeps (placed 2 {1, 2, 3}) (do_call (MS_thread_SettingMs w))"
  unfolding MS_thread_SettingMs_def blink_lines_def setting_keys_def move_cursor_def store_time_def
    start_test_def
  by (intro block_rules keep_set_MS; simp)

lemma keep_test01:
  "keeps (placed 2 {3, 4, 5}) (do_call (MS_thread_test0 w))"
  "keeps (placed 2 {3, 4, 5}) (do_call (MS_thread_test1 w))"
proof -
  show "keeps (placed 2 {3, 4, 5}) (do_call (MS_thread_test0 w))"
    unfolding MS_thread_test0_def
    by (intro block_rules keep_test_parts keep_steps keep_test_passed; simp)
  show "keeps (placed 2 {3, 4, 5}) (do_call (MS_thread_test1 w))"
  proof (rule keeps_call)
    fix s s'
    assume s: "placed 2 {3, 4, 5} s" and run: "MS_thread_test1 w s = Inr s'"
    show "placed 2 {3, 4, 5} s'"
      by (rule placed_body [OF s run [unfolded MS_thread_test1_def Let_def]])
        (intro block_rules keep_test_parts keep_steps keep_test_passed; simp)
  qed
qed

lemma keep_test: "keeps (placed 2 {3, 4, 5}) (do_call (MS_thread_test w))"
  unfolding MS_thread_test_def
  by (intro block_rules keep_test01; simp)

lemma keep_shown_error [block_rules]: "keeps (placed c M) (do_call show_error)"
proof (rule keeps_call)
  fix s s'
  assume s: "placed c M s" and run: "show_error s = Inr s'"
  show "placed c M s'"
    by (rule placed_body [OF s run [unfolded show_error_def]])
      (auto split: option.split intro!: block_rules)
qed

lemma keep_back: "2 \<in> M \<Longrightarrow> keeps (placed c M) (block (back_to_settings w))"
  unfolding back_to_settings_def by (intro block_rules keep_set_MS)

lemma keep_ERROR: "keeps (placed 2 {2, 4}) (do_call (MS_thread_ERROR w))"
  unfolding MS_thread_ERROR_def beep3_def by (intro block_rules keep_back; simp)

lemma keep_passed: "keeps (placed 2 {2, 5}) (do_call (passed_screen w))"
  unfolding passed_screen_def MS_thread_return_def by (intro block_rules keep_back; simp)

text \<open>The receiving screen.\<close>

lemma keep_ax_labels [block_rules]: "keeps (placed c M) (block show_ax_labels)"
  unfolding show_ax_labels_def by (intro block_rules)

lemma keep_ax_data: "show_ax_data n r v fs x a s = Inr s' \<Longrightarrow> placed c M s \<Longrightarrow> placed c M s'"
  unfolding show_ax_data_def by (erule placed_body [rotated]) (intro block_rules)

lemma keep_time_show [block_rules]: "keeps (placed c M) (do_call ax_time_show)"
  by (auto intro!: keeps_call simp: ax_time_show_def Let_def intro: place.after_hist_r split: if_splits)

lemma keep_ax_record [block_rules]: "keeps (placed c M) (do_call (\<lambda>s. show_ax_record (a s) s))"
proof (rule keeps_call)
  fix s s'
  assume s: "placed c M s" and run: "show_ax_record (a s) s = Inr s'"
  obtain x r where r: "get_ax_Record (a s) (recs s) = (x, r)" by fastforce
  from s have "length (buffer (recs s)) = 80" by (simp add: placed_def sound_def)
  from buffer_get_ax_Record [OF r this] s have "placed c M (s\<lparr>recs := r\<rparr>)"
    by (simp add: placed_def sound_recs)
  with run show "placed c M s'"
    by (auto simp: show_ax_record_def r bind_r_eq_Inr intro: keep_ax_data)
qed

lemma keep_frame:
  "keeps (placed c M) (do_call (record_frame fs))" "keeps (placed c M) (do_call (show_frame fs))"
proof -
  show "keeps (placed c M) (do_call (record_frame fs))"
    unfolding record_frame_def Let_def by (rule keep_recs) (rule buffer_set_ax_record)
  show "keeps (placed c M) (do_call (show_frame fs))"
    by (auto intro!: keeps_call simp: show_frame_def Let_def intro: keep_ax_data)
qed

lemma keep_ax_start: "keeps (placed 3 {10, 11}) (do_call (MS_thread_ax_start w))"
  unfolding MS_thread_ax_start_def by (intro block_rules keep_set_MS; simp)

lemma keep_ax_refresh: "keeps (placed 3 {11}) (do_call (MS_thread_ax_refresh w))"
  unfolding MS_thread_ax_refresh_def
  by (intro block_rules keep_set_MS keep_frame place.keep_with keep_recs_set; simp add: buffer_set_Record_txt)

lemma keep_clock_digit [block_rules]: "keeps (placed c M) (do_call put_clock_digit)"
  by (rule keeps_call)
    (auto simp: put_clock_digit_def Let_def bind_r_eq_Inr map_r_eq_Inr arr_set_def placed_def
      sound_length_time intro!: sound_time split: if_splits)

lemma keep_set_clock [block_rules]: "keeps (placed c M) (block set_clock)"
  unfolding set_clock_def
  by (intro block_rules keeps_set) (simp_all add: placed_def sound_length_time sound_time set_date_def set_time_def limit_time_def Let_def)

lemma keep_ax: "keeps (placed 3 {1, 11}) (do_call (MS_thread_ax w))"
  unfolding MS_thread_ax_def show_previous_def show_following_def
  by (intro block_rules keep_set_MS; simp)

text \<open>The menu is left for the settings with the choice of a meter, or for the receiving screen.\<close>

lemma runs_choice: "runs as Q R v \<Longrightarrow> runs (show_choice shade # as) Q R v"
  "runs as Q R v \<Longrightarrow> runs (show_heading # as) Q R v"
  unfolding show_choice_def show_heading_def
  by (auto intro!: runs_if runs_when runs_show)

lemma runs_GetTime:
  assumes "\<And>t r. runs as Q R (v\<lparr>my_time := t, zf_list8 := r\<rparr>)"
  shows "runs (do_call (MS_thread_GetTime w) # as) Q R v"
  unfolding MS_thread_GetTime_def
  by (intro runs_body_call runs_clock(1) runs_set runs_nil) (simp_all add: assms)

lemma runs_settings:
  assumes "\<And>v'. MS v' = MS v \<Longrightarrow> chosen v' = chosen v \<Longrightarrow> runs as Q R v'"
  shows "runs (show_settings w shade @ as) Q R v"
  unfolding show_settings_def append.simps
  by (intro runs_show runs_GetTime assms) simp_all

lemma runs_flat:
  "runs (a # as @ bs) Q R v \<Longrightarrow> runs ((a # as) @ bs) Q R v" "runs bs Q R v \<Longrightarrow> runs ([] @ bs) Q R v"
  by simp_all

lemma select_choice:
  assumes "MS_thread_SelectMode w s = Inr s'" and "MS s = 1"
  shows "MS s' = 2 \<longrightarrow> chosen s' \<noteq> 3"
proof -
  let ?Q = "\<lambda>v. MS v = 2 \<longrightarrow> chosen v \<noteq> 3"
  have "runs [do_when (\<lambda>s. thread_time s mod 10 = 0) [blink, show_choice reverse],
      do_when (\<lambda>s. button_number s \<noteq> 16)
        [do_when (\<lambda>s. button_number s = BUTTON_UP)
           [do_when (\<lambda>s. reverse s \<noteq> 0) [show_choice (\<lambda>_. 0)],
            do_set (\<lambda>s. s\<lparr>chosen := (if chosen s \<noteq> 0 then chosen s - 1 else 3)\<rparr>),
            do_set (\<lambda>s. s\<lparr>reverse := 0, thread_time := 9\<rparr>)],
         do_when (\<lambda>s. button_number s = BUTTON_DOWN)
           [do_when (\<lambda>s. reverse s \<noteq> 0) [show_choice (\<lambda>_. 0)],
            do_set (\<lambda>s. s\<lparr>chosen := (chosen s + 1) mod 4\<rparr>),
            do_set (\<lambda>s. s\<lparr>reverse := 0, thread_time := 9\<rparr>)],
         do_when (\<lambda>s. button_number s = BUTTON_OK)
           [do_set (set_MS 2), clear_screen,
            do_set (\<lambda>s. s\<lparr>thread_time := 0, reverse := 0, choose_number := 0\<rparr>),
            show_heading,
            do_when (\<lambda>s. chosen s \<noteq> 3) (show_settings w reverse),
            do_when (\<lambda>s. chosen s = 3) [do_set (set_MS 10)]]]] ?Q ?Q (view s)"
    using assms(2) unfolding blink_def
    by (intro runs_when runs_flat runs_set runs_quiet runs_choice runs_settings runs_nil)
      (simp_all add: buttons)
  from runs_body [OF this assms(1) [unfolded MS_thread_SelectMode_def]] show ?thesis by simp
qed

lemma keep_menu_keys [block_rules]:
  "keeps (placed 3 M) (do_set (\<lambda>s. s\<lparr>chosen := (if chosen s \<noteq> 0 then chosen s - 1 else 3)\<rparr>))"
  "keeps (placed 3 M) (do_set (\<lambda>s. s\<lparr>chosen := (chosen s + 1) mod 4\<rparr>))"
proof -
  have "x - 1 \<le> 3" if "x \<le> 3" "x \<noteq> 0" for x :: u8
  proof -
    from that have "x - 1 \<le> x" by (simp add: word_le_nat_alt unat_minus_one)
    with that show ?thesis by (blast intro: order_trans)
  qed
  then show "keeps (placed 3 M) (do_set (\<lambda>s. s\<lparr>chosen := (if chosen s \<noteq> 0 then chosen s - 1 else 3)\<rparr>))"
    by (auto intro!: keeps_set simp: placed_def sound_def)
  have "x mod 4 \<le> 3" for x :: u8
    by (simp add: word_le_nat_alt unat_mod_distrib)
  then show "keeps (placed 3 M) (do_set (\<lambda>s. s\<lparr>chosen := (chosen s + 1) mod 4\<rparr>))"
    by (auto intro!: keeps_set simp: placed_def sound_def)
qed

lemma keep_SelectMode: "keeps (placed 3 {1, 2, 10}) (do_call (MS_thread_SelectMode w))"
  unfolding MS_thread_SelectMode_def by (intro block_rules keep_set_MS; simp)

section \<open>The loop\<close>

lemma tester_okI:
  assumes "placed c M s" and "c \<le> 3" and "\<And>m. m \<in> M \<Longrightarrow> m \<in> set screens"
    and "MS s \<in> {2, 3, 4, 5} \<Longrightarrow> chosen s \<le> 2"
  shows "tester_ok s"
proof -
  have "12 \<in> set screens" by (simp add: screens_def)
  with assms show ?thesis by (auto simp: tester_ok_def placed_def intro: order_trans)
qed

lemma MS_thread_ok:
  assumes run: "MS_thread w s = Inr s'" and ok: "tester_ok s"
  shows "tester_ok s'"
proof -
  note kept = keeps_do_call [THEN iffD1, rule_format]
  have 2: "tester_ok s'" if "keeps (placed 2 M) (do_call f)" "placed 2 M s" "f s = Inr s'"
      "\<And>m. m \<in> M \<Longrightarrow> m \<in> set screens" for f M
    using kept [OF that(1-3)] that(4) by (intro tester_okI [of 2 M]) (auto simp: placed_def)
  have 3: "tester_ok s'" if "keeps (placed 3 M) (do_call f)" "placed 3 M s" "f s = Inr s'"
      "\<And>m. m \<in> M \<Longrightarrow> m \<in> set screens \<and> m \<notin> {2, 3, 4, 5}" for f M
    using kept [OF that(1-3)] that(4) by (intro tester_okI [of 3 M]) (auto simp: placed_def)
  from ok have s: "sound s" "chosen s \<le> 3" "MS s \<in> set screens" "MS s \<in> {2, 3, 4, 5} \<Longrightarrow> chosen s \<le> 2"
    by (simp_all add: tester_ok_def)
  from s(3) consider "MS s = 0" | "MS s = 1" | "MS s = 2" | "MS s = 3" | "MS s = 4" | "MS s = 5"
    | "MS s = 10" | "MS s = 11" | "MS s = 12" by (auto simp: screens_def)
  then show ?thesis
  proof cases
    assume "MS s = 1"
    with run have run: "MS_thread_SelectMode w s = Inr s'" by (simp add: MS_thread_def)
    have "placed 3 {1, 2, 10} s'"
      by (rule kept [OF keep_SelectMode _ run]) (use s \<open>MS s = 1\<close> in \<open>simp add: placed_def\<close>)
    moreover have "x \<le> 2" if "x \<le> 3" "x \<noteq> 3" for x :: u8
    proof -
      from that have "x < 3" by simp
      then show ?thesis by (simp add: word_less_nat_alt word_le_nat_alt)
    qed
    ultimately show ?thesis
      using select_choice [OF run \<open>MS s = 1\<close>]
      by (intro tester_okI [of 3 "{1, 2, 10}"]) (auto simp: placed_def screens_def)
  qed (use s run in \<open>auto simp: MS_thread_def placed_def screens_def intro: 2 3 keep_init keep_SettingMs
     keep_test keep_ERROR keep_passed keep_ax_start keep_ax keep_ax_refresh\<close>)
qed

lemma set_phase_screen [simp]: "thread_MS (set_phase p r) = thread_MS r"
  by (simp add: set_phase_def)

lemma on_dev_screen [simp]: "thread_MS (on_dev f r) = thread_MS r"
  by (simp add: on_dev_def split: prod.split)

lemma wait_phase_screen:
  "wait_phase n k e p r = Inr r' \<Longrightarrow> thread_MS r \<noteq> 11 \<Longrightarrow> thread_MS r' = thread_MS r"
proof (induction n arbitrary: r)
  case 0
  then show ?case by simp
next
  case (Suc n)
  then obtain r1 where sl: "radio_sleep k e 10 r = Inr r1"
    and rest: "(if ubRFState (dev r1) = p then wait_phase n k e p r1 else Inr r1) = Inr r'"
    by (auto simp: bind_r_eq_Inr)
  have "thread_MS r1 = thread_MS r"
    using sl Suc.prems(2) by (auto simp: radio_sleep_def Let_def split: if_splits dest!: irq_screen)
  with Suc.IH [of r1] Suc.prems(2) rest show ?case by (auto split: if_splits)
qed

lemma startup_screen:
  assumes "rf_startup n k e r = Inr (x, r')" and "thread_MS r \<noteq> 11"
  shows "thread_MS r' = thread_MS r"
  using assms
  by (auto simp: rf_startup_def RadioXtalON_def Let_def case_prod_beta bind_r_eq_Inr map_r_eq_Inr dest!: wait_phase_screen split: if_splits)

lemma start_radio_view:
  assumes "start_radio w s = Inr s'" and "MS s \<noteq> 11"
  shows "view s' = view s"
proof -
  from assms(1) obtain rows r where s': "s' = s\<lparr>rf_rows := rows, rf := r\<rparr>"
    and run: "rf_4068_Init (patience w) (spi_patience w) (board w) (rf_rows s) (rf s) = Inr (rows, r)"
    by (auto simp: start_radio_def map_r_eq_Inr)
  from run assms(2) have "thread_MS r = MS s"
    by (auto simp: rf_4068_Init_def Let_def bind_r_eq_Inr dest!: startup_screen)
  then show ?thesis by (simp add: s' view_def)
qed

lemma keep_start: "keeps (placed 3 {0}) (do_call (main_start w))"
proof -
  have "keeps (placed 3 {0}) (do_call (start_radio w))"
    by (auto intro!: keeps_call intro: place.same_view [OF start_radio_view] simp: placed_def)
  moreover have "keeps (placed 3 {0}) (do_set (on_recs my_dfs_init))"
    by (rule keep_recs_set) (rule buffer_my_dfs_init)
  ultimately show ?thesis
    unfolding main_start_def by (intro block_rules)
qed

lemma sys_boot_placed: "placed 3 {0} (sys_boot v)"
proof -
  have "rows_sound [[6, 101, 102, 103, 104, 105, 106, 100, 100, 100],
      [8, 109, 108, 107, 106, 105, 104, 103, 102, 100],
      [6, 101, 102, 103, 104, 105, 106, 100, 100, 100]]"
    "reading_sound [6, 100, 100, 100, 100, 100, 100]" "clock_sound [9, 100, 100, 7, 100, 100, 8, 100, 100, 9]"
    by code_simp+
  then have "rows_sound (zf_list6 (sys_boot v))" "reading_sound (zf_list7 (sys_boot v))"
    "clock_sound (zf_list8 (sys_boot v))" by (simp_all add: sys_boot_def)
  then show ?thesis
    by (simp add: placed_def sound_def) (simp add: sys_boot_def store_boot_def)
qed

text \<open>A run of the tester: the start-up, then the rounds of the loop, each in a world of its own.\<close>

definition started :: "sys \<Rightarrow> bool" where
  "started s \<longleftrightarrow> (\<exists>v w. main_start w (sys_boot v) = Inr s)"

interpretation ok: steady tester_ok
proof
  fix s
  show "tester_ok (view s) = tester_ok s" by (simp add: tester_ok_def sound_view)
next
  fix s
  assume "tester_ok s" and "MS s = 11"
  then show "tester_ok (set_MS 12 s)" by (simp add: tester_ok_def screens_def)
qed

lemma sound_keys: "sound (s\<lparr>keys := k\<rparr>) = sound s"
  by (simp add: sound_def)

lemma round_ok:
  assumes "tester_ok s" and "main_round w s = Inr s'"
  shows "tester_ok s'"
proof -
  have keys: "keeps tester_ok (do_set (read_keys w))"
    by (rule keeps_set) (simp add: read_keys_def tester_ok_def sound_keys split: prod.split)
  have handler: "keeps tester_ok (do_call (MS_thread w))"
    by (rule keeps_call) (rule MS_thread_ok)
  have tick: "keeps tester_ok (do_set (\<lambda>s. s\<lparr>thread_time := (thread_time s + 1) mod 100\<rparr>))"
    by (rule keeps_set) (simp add: tester_ok_def)
  from assms(2) show ?thesis
    unfolding main_round_def
    by (rule keeps_body [where P = tester_ok, OF _ assms(1), rotated]) (intro keys handler tick ok.keep_delay keeps_cons keeps_nil)
qed

interpretation main: step_invariant started main_round tester_ok
proof
  fix s
  assume "started s"
  then obtain v w where "main_start w (sys_boot v) = Inr s" by (auto simp: started_def)
  then have s: "placed 3 {0} s" using keep_start sys_boot_placed by (auto simp: keeps_do_call)
  then have "MS s = 0" by (simp add: placed_def)
  with s show "tester_ok s" by (intro tester_okI [of 3 "{0}"]) (simp_all add: placed_def screens_def)
next
  fix s w s'
  assume "tester_ok s" and "main_round w s = Inr s'"
  then show "tester_ok s'" by (rule round_ok)
qed

text \<open>The rounds up to the first that faults.\<close>

lemma first_fault:
  "fold_r f xs s = Inl e \<Longrightarrow> \<exists>k s'. k < length xs \<and> fold_r f (take k xs) s = Inr s' \<and> f (xs ! k) s' = Inl e"
proof (induction xs arbitrary: s)
  case (Cons x xs)
  show ?case
  proof (cases "f x s")
    case (Inl e')
    with Cons.prems have "0 < length (x # xs) \<and> fold_r f (take 0 (x # xs)) s = Inr s \<and> f ((x # xs) ! 0) s = Inl e"
      by simp
    then show ?thesis by blast
  next
    case (Inr s1)
    with Cons.prems have "fold_r f xs s1 = Inl e" by simp
    from Cons.IH [OF this] obtain k s' where
      "k < length xs" "fold_r f (take k xs) s1 = Inr s'" "f (xs ! k) s' = Inl e" by blast
    with Inr have "Suc k < length (x # xs) \<and> fold_r f (take (Suc k) (x # xs)) s = Inr s' \<and> f ((x # xs) ! Suc k) s' = Inl e"
      by simp
    then show ?thesis by blast
  qed
qed simp

text \<open>
  C2: The tester never loses its shape: after any number of rounds of the main loop, whatever keys
  were pressed and whatever the meter, the radio and the threads did in between, up to the first round
  in which a fault is met (a place outside an array, as \<open>MS_thread_SettingMs\<close> meets it when the reading of
  the eight-digit kind is entered, another statement whose effect C leaves open, or a wait longer than
  the patience of the world), the screen number is one of those the dispatcher knows, a test or its result is never open without a
  meter kind whose number row exists, and every row of digits has its length and only glyphs of digits.
\<close>

theorem main_loop_well_formed:
  assumes "main_start w (sys_boot v) = Inr s0"
  shows "case fold_r main_round ws s0 of
      Inr s \<Rightarrow> tester_ok s
    | Inl fault \<Rightarrow> \<exists>k s. k < length ws \<and> fold_r main_round (take k ws) s0 = Inr s \<and> tester_ok s \<and>
        main_round (ws ! k) s = Inl fault"
proof -
  have ok: "tester_ok s" if "fold_r main_round ws' s0 = Inr s" for ws' s
    using assms by (intro main.inv_reachable [OF _ that]) (auto simp: started_def)
  show ?thesis
  proof (cases "fold_r main_round ws s0")
    case (Inl fault)
    from first_fault [OF this] ok show ?thesis unfolding Inl sum.case by blast
  qed (use ok in simp)
qed

text \<open>A board whose radio answers every question with 0x55 and keeps its interrupt line raised.\<close>

definition lively :: world where
  "lively =
     \<lparr>board = bench\<lparr>spi_reply := \<lambda>_ _ _. 0x55, radio_irq := \<lambda>_. True\<rparr>, meanwhile = (\<lambda>_. []),
      patience = 1, spi_patience = 1\<rparr>"

lemma lively_simps [simp]: "patience lively = Suc 0" "spi_patience lively = Suc 0" "meanwhile lively h = []"
  "radio_irq (board lively) h" "spi_reply (board lively) h a n = 0x55"
  by (simp_all add: lively_def)

lemma lively_read: "\<exists>h'. SpiReadSingleAddressRegister (board lively) a h = (0x55, h')"
  by (simp add: SpiReadSingleAddressRegister_def spi_transfer_def Let_def)

lemma lively_poll: "ok 0x55 \<Longrightarrow> \<exists>h'. poll_until (Suc 0) (r1 (board lively) a) ok h = Inr h'"
  using lively_read [of a h] by auto

lemma lively_wait:
  "ubRFState (dev r) = p \<Longrightarrow> p = trxstate_wait_xtal \<or> p = trxstate_pll_ranging \<Longrightarrow>
    \<exists>r'. wait_phase (Suc 0) (Suc 0) (board lively) p r = Inr r'"
  by (auto simp: radio_sleep_def Let_def rf_4068_task_callback_def set_phase_def on_bus_def)

lemma set_phase_phase: "ubRFState (dev (set_phase p r)) = p" "ubRFState (dev (on_bus f r)) = ubRFState (dev r)"
  by (simp_all add: set_phase_def on_bus_def)

lemma lively_startup: "\<exists>x r'. rf_startup (Suc 0) (Suc 0) (board lively) r = Inr (x, r')"
proof -
  have reset: "\<exists>h'. Ax5043_Reset (Suc 0) (board lively) h = Inr h'" for h
    using lively_poll [of "\<lambda>v. v = 0x55" REG_SCRATCH] unfolding Ax5043_Reset_def
    by (metis bind_r_simps(2))
  have crystal: "\<exists>r'. RadioXtalON (Suc 0) (Suc 0) (board lively) r = Inr r'" for r
    unfolding RadioXtalON_def Let_def case_prod_beta
    by (rule lively_wait) (simp_all add: set_phase_phase(1))
  have ranging: "\<exists>r'. wait_phase (Suc 0) (Suc 0) (board lively) trxstate_pll_ranging
      (on_bus f (set_phase trxstate_pll_ranging r)) = Inr r'" for f r
    by (rule lively_wait) (simp_all add: set_phase_phase)
  have "\<exists>y. rf_startup (Suc 0) (Suc 0) (board lively) r = Inr y"
    unfolding rf_startup_def Let_def case_prod_beta
    by (intro bind_r_total reset crystal ranging) simp_all
  then show ?thesis by auto
qed

definition ranging_seen :: "ranging \<Rightarrow> bool" where
  "ranging_seen s \<longleftrightarrow> length (range_table s) = 10 \<and> length (range_tableold s) = 10 \<and>
     (range_num s = 0 \<and> range_oldnum s = 0 \<or> range_num s = 1 \<and> range_oldnum s = 5)"

lemma note_range_seen: "ranging_seen s \<Longrightarrow> \<exists>s'. note_range i 5 s = Inr s' \<and> ranging_seen s'"
  by (auto simp: ranging_seen_def note_range_def arr_set_def arr_get_def)

lemma lively_ranging_round:
  assumes "ranging_seen (fst x)"
  shows "\<exists>y. ranging_round (Suc 0) (board lively) i x = Inr y \<and> ranging_seen (fst y)"
proof -
  obtain s h where x: "x = (s, h)" by fastforce
  define h1 where "h1 = w1 REG_PLLRANGINGA 0x18 (snd (r1 (board lively) REG_IRQREQUEST1
    (bus [w1 REG_IRQMASK1 0x00, w2 REG_PLLVCOI i, w1 REG_IRQMASK1 0x10] h)))"
  obtain h2 where h2: "range_wait (Suc 0) (board lively) h1 = Inr h2"
    using lively_poll [of "\<lambda>v. v AND 0x10 \<noteq> 0"] by (auto simp: range_wait_def)
  obtain h3 where h3: "r1 (board lively) REG_PLLRANGINGA (w1 REG_IRQMASK1 0x00 h2) = (0x55, h3)"
    using lively_read by blast
  from assms x note_range_seen obtain s' where "note_range i 5 s = Inr s'" "ranging_seen s'" by auto
  then show ?thesis
    unfolding x ranging_round_def Let_def prod.case h1_def [symmetric] h2 bind_r_simps h3 by simp
qed

lemma lively_ranging:
  "ranging_seen (fst x) \<Longrightarrow> \<exists>y. fold_r (ranging_round (Suc 0) (board lively)) is x = Inr y"
proof (induction "is" arbitrary: x)
  case Nil
  then show ?case by simp
next
  case (Cons i "is")
  from lively_ranging_round [OF Cons.prems] obtain y where
    "ranging_round (Suc 0) (board lively) i x = Inr y" and "ranging_seen (fst y)" by blast
  with Cons.IH show ?case by simp
qed

lemma lively_autorange: "\<exists>v h'. simple_autorange_pll (Suc 0) (board lively) h = Inr (v, h')"
proof -
  have wait: "\<exists>h'. range_wait (Suc 0) (board lively) h = Inr h'" for h
    unfolding range_wait_def by (rule lively_poll) simp
  have crystal: "\<exists>h'. PLLRang_wait_for_xtal (Suc 0) (board lively) h = Inr h'" for h
    unfolding PLLRang_wait_for_xtal_def Let_def case_prod_beta map_r_def
    by (intro bind_r_total lively_poll) simp_all
  have "\<exists>y. simple_autorange_pll (Suc 0) (board lively) h = Inr y"
    unfolding simple_autorange_pll_def Let_def case_prod_beta
    by (intro bind_r_total wait crystal lively_ranging) (simp_all add: ranging_seen_def)
  then show ?thesis by auto
qed

lemma lively_radio: "\<exists>s'. start_radio lively s = Inr s'"
proof -
  have "\<exists>y. rf_4068_Init (Suc 0) (Suc 0) (board lively) rows r = Inr y" for rows r
    unfolding rf_4068_Init_def Let_def case_prod_beta
    by (intro bind_r_total) (use lively_startup lively_autorange in auto)
  then show ?thesis unfolding start_radio_def map_r_def by (intro bind_r_total) auto
qed

lemma lively_start: "\<exists>s. main_start lively (sys_boot v) = Inr s"
proof -
  have "ends [delay lively 500,
      do_set (on_recs my_dfs_init), do_set (on_hist MS_LED_init), do_set (on_hist my_button_init),
      do_set (on_motor pwm_sample), do_set (on_hist Init_lcd), do_call (start_radio lively)] (\<lambda>_. True) s" for s
    using lively_radio by (simp add: delay_def ends_rules sleep_def Let_def)
  then show ?thesis unfolding main_start_def using ends_body by blast
qed

lemma ends_fixed:
  assumes "line_ok zf (zf ! 0)" and "\<And>h. ends as Q (on_hist (\<lambda>_. h) s)"
  shows "ends (show_fixed y l zf shade # as) Q s"
proof -
  from assms(1) have get: "arr_get zf 0 = Inr (zf ! 0)"
    by (intro arr_get_in) (auto simp: line_ok_def)
  obtain h' where h': "lcd_show y l zf (zf ! 0) (shade s) (hist s) = Inr h'"
    using lcd_show_total [OF assms(1)] by blast
  have "on_hist_r (lcd_show y l zf (zf ! 0) (shade s)) s = Inr (on_hist (\<lambda>_. h') s)"
    by (simp add: on_hist_r_def h' on_hist_def)
  then show ?thesis
    using assms(2) by (simp add: show_fixed_def show_list_def ends_call get)
qed

lemma menu_lines: "line_ok zf_list1 (zf_list1 ! 0)" "line_ok zf_list2 (zf_list2 ! 0)"
  "line_ok zf_list12 (zf_list12 ! 0)" "line_ok zf_list13 (zf_list13 ! 0)"
  by code_simp+

lemma first_round:
  assumes "MS s = 0"
  shows "\<exists>s'. main_round lively s = Inr s' \<and> MS s' = 1"
proof -
  have init: "\<exists>s'. MS_thread lively s = Inr s' \<and> MS s' = 1" if "MS s = 0" for s
  proof -
    have "ends ([clear_screen] @ show_menu @
        [do_set (set_MS 1),
         do_set (\<lambda>s. s\<lparr>thread_time := 0, chosen := 0\<rparr>),
         do_set (\<lambda>s. case get_MSID (MSID s) (recs s) of (d, r) \<Rightarrow> s\<lparr>MSID := d, recs := r\<rparr>),
         do_set (\<lambda>s. s\<lparr>zf_list6 := load_numbers (MSID s) (zf_list6 s)\<rparr>)]) (\<lambda>s. MS s = 1) s"
      unfolding show_menu_def append.simps clear_screen_def ends_set
      by (intro ends_fixed menu_lines) (simp add: ends_set ends_nil split: prod.split)
    from ends_body [OF this] that show ?thesis
      by (simp only: MS_thread_def MS_thread_init_def refl if_True)
  qed
  have "MS (read_keys lively s) = 0" using assms by (simp add: read_keys_def split: prod.split)
  from init [OF this] obtain s1 where "MS_thread lively (read_keys lively s) = Inr s1" "MS s1 = 1" by blast
  then have "ends [do_set (read_keys lively), do_call (MS_thread lively),
      do_set (\<lambda>s. s\<lparr>thread_time := (thread_time s + 1) mod 100\<rparr>), delay lively 50] (\<lambda>s. MS s = 1) s"
    by (simp add: ends_rules delay_def sleep_def Let_def)
  then show ?thesis unfolding main_round_def by (rule ends_body)
qed

theorem main_loop_well_formed_witness:
  "\<exists>s0 s. main_start lively (sys_boot empty_volume) = Inr s0 \<and> main_round lively s0 = Inr s \<and>
     tester_ok s \<and> MS s = 1"
proof -
  obtain s0 where s0: "main_start lively (sys_boot empty_volume) = Inr s0" using lively_start by blast
  with keep_start sys_boot_placed [of empty_volume] have "placed 3 {0} s0" unfolding keeps_do_call by blast
  then have "MS s0 = 0" by (simp add: placed_def)
  from first_round [OF this] obtain s where s: "main_round lively s0 = Inr s" "MS s = 1" by blast
  then have "fold_r main_round [lively] s0 = Inr s" by (simp only: fold_r.simps bind_r_simps)
  with main_loop_well_formed [OF s0, of "[lively]"] have "tester_ok s" by (simp only: sum.case)
  with s0 s show ?thesis by blast
qed

end
