(* ===== verification/Tester_Records.thy ===== *)
theory Tester_Records
  imports Tester_Ax
begin

text \<open>
  The recorded frames as the receiving screen shows them (\<^verbatim>\<open>show_ax_record\<close>, \<^verbatim>\<open>show_ax_data\<close>): the
  digits of a record read back, and the drawing of a browsed frame compared with the drawing of the
  frame when it came in.
\<close>

section \<open>Decimal digits of a record\<close>

lemma ucast_mod_10: "ucast (x mod 10) = (of_nat (unat x mod 10) :: u8)" for x :: u32
proof -
  have "(of_nat (unat (x mod 10)) :: u8) = ucast (x mod 10)" by (rule of_nat_unat)
  then show ?thesis by (simp add: unat_mod_distrib)
qed

lemma nth_dec_digits:
  "k < n \<Longrightarrow> dec_digits n x ! k = of_nat (unat x div 10 ^ (n - Suc k) mod 10) + 48"
proof (induction n arbitrary: x)
  case 0
  then show ?case by simp
next
  case (Suc n)
  show ?case
  proof (cases "k < n")
    case True
    then have "n - k = Suc (n - Suc k)" by simp
    with True Suc.IH [of "x div 10"] show ?thesis
      by (simp add: nth_append unat_div_distrib div_mult2_eq)
  next
    case False
    with Suc.prems have "k = n" by simp
    then show ?thesis by (simp add: nth_append ucast_mod_10)
  qed
qed

lemma digit_read:
  assumes "d < 10"
  shows "ucast (of_nat d + 48 :: u8) - 48 = (of_nat d :: u32)"
    and "ucast (of_nat d + 48 :: u8) - 48 = (of_nat d :: u16)"
  using assms unfolding less_10 by (elim disjE; simp)+

text \<open>Reading the digits in front of a number back, each time multiplied up for the next.\<close>

lemma decimal_step:
  "(y div 10 ^ Suc m mod 10 ^ k) * 10 + y div 10 ^ m mod 10 = y div 10 ^ m mod 10 ^ Suc k" for y :: nat
proof -
  let ?z = "y div 10 ^ m"
  have "y div 10 ^ Suc m = ?z div 10" by (simp add: div_mult2_eq mult.commute [of 10])
  moreover have "?z mod (10 * 10 ^ k) = 10 * (?z div 10 mod 10 ^ k) + ?z mod 10"
    by (rule mod_mult2_eq)
  ultimately show ?thesis by simp
qed

lemma buffer_number_prefix:
  assumes "\<And>i. i < n \<Longrightarrow> get_ax_data (of_nat (at + i)) r = Inr (dec_digits n x ! i)" and "k \<le> n"
    and f: "f = (\<lambda>i (acc :: u32). bind_r (get_ax_data (of_nat (at + i)) r) (\<lambda>b.
      let acc = acc + (ucast b - 48) in Inr (if i + 1 < n then acc * 10 else acc)))"
  shows "fold_r f [0..<k] 0 =
    Inr (if k < n then of_nat (unat x div 10 ^ (n - k) mod 10 ^ k * 10) else of_nat (unat x mod 10 ^ n))"
  using assms(2)
proof (induction k)
  case 0
  then show ?case by (cases n) simp_all
next
  case (Suc k)
  then have "k < n" and n: "n - k = Suc (n - Suc k)" by simp_all
  let ?d = "unat x div 10 ^ (n - Suc k) mod 10"
  let ?acc = "unat x div 10 ^ (n - k) mod 10 ^ k * 10"
  have b: "get_ax_data (of_nat (at + k)) r = Inr (of_nat ?d + 48)"
    using assms(1) [OF \<open>k < n\<close>] nth_dec_digits [OF \<open>k < n\<close>] by simp
  have d: "ucast (of_nat ?d + 48 :: u8) - 48 = (of_nat ?d :: u32)" by (rule digit_read) simp
  have "of_nat ?acc + (of_nat ?d :: u32) = of_nat (unat x div 10 ^ (n - Suc k) mod 10 ^ Suc k)"
    using decimal_step [of "unat x" "n - Suc k" k] unfolding n by (metis of_nat_add)
  then have "f k (of_nat ?acc) = Inr (if Suc k < n
      then of_nat (unat x div 10 ^ (n - Suc k) mod 10 ^ Suc k) * 10
      else of_nat (unat x div 10 ^ (n - Suc k) mod 10 ^ Suc k))"
    by (simp only: f b bind_r_simps Let_def d Suc_eq_plus1 [symmetric])
  moreover have "fold_r f [0..<k] 0 = Inr (of_nat ?acc)" using Suc.IH \<open>k < n\<close> by simp
  moreover have "n - Suc k = 0" "Suc k = n" if "\<not> Suc k < n" using that \<open>k < n\<close> by simp_all
  ultimately show ?case by (auto simp: fold_r_append)
qed

lemma buffer_number_read:
  assumes "\<And>i. i < n \<Longrightarrow> get_ax_data (of_nat (at + i)) r = Inr (dec_digits n x ! i)" and "n \<le> 9"
  shows "buffer_number at n r = Inr (x mod 10 ^ n)"
proof -
  have "(10::nat) ^ n \<le> 10 ^ 9" using assms(2) by (rule power_increasing) simp
  then have "(10::nat) ^ n < 2 ^ 32" by simp
  moreover have "unat (of_nat (10 ^ n) :: u32) = 10 ^ n mod 2 ^ 32" by (simp add: unat_of_nat take_bit_eq_mod del: of_nat_power)
  ultimately have p: "unat ((10 :: u32) ^ n) = 10 ^ n" by simp
  have "of_nat (unat x mod 10 ^ n) = x mod 10 ^ n"
  proof -
    have "of_nat (unat (x mod 10 ^ n)) = x mod 10 ^ n" by simp
    then show ?thesis by (simp only: unat_mod_distrib p)
  qed
  with buffer_number_prefix [OF assms(1) le_refl refl] show ?thesis
    by (simp add: buffer_number_def del: upt_Suc)
qed

section \<open>The record and the buffer\<close>

lemma upt_10: "[0..<10] = [0, 1, 2, 3, 4, 5, 6, 7, 8, 9 :: nat]"
  by code_simp

text \<open>The places of a record the browser reads.\<close>

lemma ax_record_places:
  assumes "R = ax_record ver zf number reading t x"
  shows "R ! 0 = ver + 48"
    and "i < 8 \<Longrightarrow> R ! (2 + i) = dec_digits 8 number ! i"
    and "i < 6 \<Longrightarrow> R ! (11 + i) = dec_digits 6 reading ! i"
    and "i < 10 \<Longrightarrow> R ! (18 + i * 2) = zf ! i + 48"
    and "R ! 56 = ucast (x div 100 mod 10) + 48" and "R ! 57 = ucast (x div 10 mod 10) + 48"
    and "R ! 58 = ucast (x mod 10) + 48"
proof -
  let ?fl = "concat (map (\<lambda>i. [zf ! i + byte CHR ''0'', byte CHR '' '']) [0..<10])"
  have R: "R = [ver + byte CHR ''0'', byte CHR '' ''] @ dec_digits 8 number @ [byte CHR '' ''] @
      dec_digits 6 reading @ [byte CHR '' ''] @ ?fl @ drop 38 R"
    by (simp add: assms ax_record_def upt_10)
  show "R ! 0 = ver + 48" by (subst R) simp
  show "R ! (2 + i) = dec_digits 8 number ! i" if "i < 8" using that by (subst R) (simp add: nth_append)
  show "R ! (11 + i) = dec_digits 6 reading ! i" if "i < 6" using that by (subst R) (simp add: nth_append)
  show "R ! (18 + i * 2) = zf ! i + 48" if "i < 10"
    using that unfolding less_10 by (subst R) (auto simp: nth_append upt_10)
  show "R ! 56 = ucast (x div 100 mod 10) + 48" "R ! 57 = ucast (x div 10 mod 10) + 48"
    "R ! 58 = ucast (x mod 10) + 48"
    by (simp_all add: assms ax_record_def upt_10 nth_append two_digits_def)
qed

lemma record_byte:
  assumes "take 60 (buffer r) = R" and "length R = 60" and "k < 60"
  shows "get_ax_data (of_nat k) r = Inr (R ! k)"
proof -
  from assms(1,2) have "60 \<le> length (buffer r)" by (metis length_take min.absorb_iff2 min.commute)
  moreover have "unat (of_nat k :: u8) = k" using assms(3) by (simp add: unat_of_nat take_bit_eq_mod)
  ultimately show ?thesis
    using assms by (auto simp: get_ax_data_def arr_get_def)
qed

lemma strength_value:
  fixes x :: u16
  shows "(ucast (ucast (x div 100 mod 10) + 48 :: u8) - 48) * 100 +
    (ucast (ucast (x div 10 mod 10) + 48 :: u8) - 48) * 10 +
    (ucast (ucast (x mod 10) + 48 :: u8) - 48) = x mod 1000"
proof -
  have digit: "ucast (ucast (y mod 10) + 48 :: u8) - 48 = (of_nat (unat y mod 10) :: u16)" for y :: u16
  proof -
    have y: "unat y mod 10 = unat (y mod 10)" by (simp add: unat_mod_distrib)
    have "ucast (y mod 10) = (of_nat (unat y mod 10) :: u8)" unfolding y by (simp only: of_nat_unat)
    then show ?thesis using digit_read(2) [of "unat y mod 10"] by simp
  qed
  let ?x = "unat x"
  have "?x mod 1000 = ?x div 100 mod 10 * 100 + (?x div 10 mod 10 * 10 + ?x mod 10)"
    using decimal_step [of ?x 0 2] decimal_step [of ?x 1 1] by (simp add: div_mult2_eq [symmetric])
  then have "of_nat (?x div 100 mod 10) * 100 + of_nat (?x div 10 mod 10) * 10 + of_nat (?x mod 10) =
      (of_nat (?x mod 1000) :: u16)"
    by (simp only: of_nat_add of_nat_mult of_nat_numeral add.assoc)
  moreover have "of_nat (?x mod 1000) = x mod 1000"
  proof -
    have "?x mod 1000 = unat (x mod 1000)" by (simp add: unat_mod_distrib)
    then show ?thesis by simp
  qed
  moreover have "unat (x div 100) = ?x div 100" "unat (x div 10) = ?x div 10"
    by (simp_all add: unat_div_distrib)
  ultimately show ?thesis by (simp only: digit)
qed

lemma buffer_read:
  assumes "take 60 (buffer r) = ax_record ver zf number reading t x" and "length zf = 10"
  shows "get_ax_data 0 r = Inr (ver + 48)"
    and "buffer_number 2 8 r = Inr (number mod 10 ^ 8)" and "buffer_number 11 6 r = Inr (reading mod 10 ^ 6)"
    and "buffer_flags r = Inr zf" and "buffer_strength r = Inr (x mod 1000)"
proof -
  note byte = record_byte [OF assms(1) length_ax_record]
  note place = ax_record_places [OF refl, where ver = ver and zf = zf and number = number and reading = reading
    and t = t and x = x]
  show "get_ax_data 0 r = Inr (ver + 48)" using byte [of 0] place(1) by simp
  have "get_ax_data (of_nat (2 + i)) r = Inr (dec_digits 8 number ! i)" if "i < 8" for i
    unfolding place(2) [OF that, symmetric] by (rule byte) (use that in simp)
  then show "buffer_number 2 8 r = Inr (number mod 10 ^ 8)" by (rule buffer_number_read) simp_all
  have "get_ax_data (of_nat (11 + i)) r = Inr (dec_digits 6 reading ! i)" if "i < 6" for i
    unfolding place(3) [OF that, symmetric] by (rule byte) (use that in simp)
  then show "buffer_number 11 6 r = Inr (reading mod 10 ^ 6)" by (rule buffer_number_read) simp_all
  have "get_ax_data (of_nat (18 + i * 2)) r = Inr (zf ! i + 48)" if "i < 10" for i
    unfolding place(4) [OF that, symmetric]
    by (rule byte) (use that in simp)
  then have "fold_r (\<lambda>i acc. map_r (\<lambda>b. acc @ [b - byte CHR ''0'']) (get_ax_data (of_nat (18 + i * 2)) r))
      [0..<k] [] = Inr (take k zf)" if "k \<le> 10" for k
    using that
  proof (induction k)
    case 0
    then show ?case by simp
  next
    case (Suc k)
    then show ?case using assms(2) by (simp add: fold_r_append take_Suc_conv_app_nth)
  qed
  from this [of 10] show "buffer_flags r = Inr zf" using assms(2) by (simp add: buffer_flags_def)
  show "buffer_strength r = Inr (x mod 1000)"
    using byte [of 56] byte [of 57] byte [of 58] place(5-7) strength_value [of x]
    by (simp add: buffer_strength_def)
qed

section \<open>What is drawn\<close>

lemma mod_power_10:
  fixes x :: u32
  assumes "0 < m" and "m \<le> 9"
  shows "x mod 10 ^ m mod 10 = x mod 10" and "x mod 10 ^ m div 10 = x div 10 mod 10 ^ (m - 1)"
proof -
  have u: "unat ((10 :: u32) ^ k) = 10 ^ k" if "k \<le> 9" for k
  proof -
    have "(10::nat) ^ k \<le> 10 ^ 9" using that by (rule power_increasing) simp
    then have "(10::nat) ^ k < 2 ^ 32" by simp
    moreover have "unat (of_nat (10 ^ k) :: u32) = 10 ^ k mod 2 ^ 32"
      by (simp add: unat_of_nat take_bit_eq_mod del: of_nat_power)
    ultimately show ?thesis by simp
  qed
  have m: "(10::nat) ^ m = 10 * 10 ^ (m - 1)" using assms(1) by (cases m) simp_all
  have "unat x mod 10 ^ m mod 10 = unat x mod 10" unfolding m by (simp add: mod_mod_cancel)
  then show "x mod 10 ^ m mod 10 = x mod 10"
    by (simp add: word_unat_eq_iff unat_mod_distrib u [OF assms(2)])
  have "unat x mod 10 ^ m div 10 = unat x div 10 mod 10 ^ (m - 1)"
    unfolding m by (simp add: mod_mult2_eq)
  then show "x mod 10 ^ m div 10 = x div 10 mod 10 ^ (m - 1)"
    using assms(2) by (simp add: word_unat_eq_iff unat_mod_distrib unat_div_distrib u)
qed

lemma show_digits_mod:
  "n \<le> m \<Longrightarrow> m \<le> 9 \<Longrightarrow> show_digits n y l (x mod 10 ^ m) h = show_digits n y l x h"
proof (induction n arbitrary: l x m h)
  case 0
  then show ?case by simp
next
  case (Suc n)
  then have "0 < m" by simp
  have "show_digits n y (l - 6) (x div 10 mod 10 ^ (m - 1)) = show_digits n y (l - 6) (x div 10)"
    by (rule ext, rule Suc.IH) (use Suc.prems in simp_all)
  with mod_power_10 [OF \<open>0 < m\<close> Suc.prems(2), of x] show ?case by simp
qed

definition draw_ax ::
    "u32 \<Rightarrow> u32 \<Rightarrow> u8 \<Rightarrow> u8 list \<Rightarrow> int \<Rightarrow> u16 \<Rightarrow> u16 result \<Rightarrow> history \<Rightarrow> history result" where
  "draw_ax number reading v flags rssi addr cnt h =
     bind_r (show_strength rssi h) (\<lambda>h.
     bind_r (fold_r (\<lambda>(c, d). lcd_show6_8 1 c d 0) [(60, v div 2), (66, v mod 2)] h) (\<lambda>h.
     bind_r (show_msid number v h) (\<lambda>h.
     bind_r (show_digits 6 3 66 reading h) (\<lambda>h.
     bind_r (fold_r (\<lambda>((y, l), d). lcd_show6_8 y l d 0) (zip flag_cells flags) h) (\<lambda>h.
     bind_r (show_address 78 addr h) (\<lambda>h.
     bind_r (lcd_show6_8 7 108 35 0 h) (\<lambda>h.
     bind_r cnt (\<lambda>n. show_address 114 (n - 1) h))))))))"

lemma hist_call:
  "block (do_call (on_hist_r f) # as) s = bind_r (f (hist s)) (\<lambda>h. block as (on_hist (\<lambda>_. h) s))"
  by (cases "f (hist s)") (simp_all add: do_call_def on_hist_r_def on_hist_def)

lemma on_hist_on_hist: "on_hist (\<lambda>_. h) (on_hist f s) = on_hist (\<lambda>_. h) s"
  by (simp add: on_hist_def)

lemma hist_on_hist: "hist (on_hist (\<lambda>_. h) s) = h" "recs (on_hist f s) = recs s"
  by (simp_all add: on_hist_def)

lemma map_r_bind: "map_r f (bind_r m g) = bind_r m (\<lambda>x. map_r f (g x))"
  by (cases m) simp_all

lemma show_ax_data_draws:
  "map_r hist (show_ax_data number reading v flags rssi addr s) =
     draw_ax number reading v flags rssi addr (stat_sample (recs s)) (hist s)"
proof -
  have one: "map_r hist (map_r state_of (block [do_call (on_hist_r g)] s)) = g (hist s)" for g s
    unfolding hist_call by (cases "g (hist s)") (simp_all add: hist_on_hist)
  have last: "map_r hist (map_r state_of (block [do_with (value_of (\<lambda>s. stat_sample (recs s))) (\<lambda>n.
      [do_call (on_hist_r (show_address 114 (n - 1)))])] s)) =
    bind_r (stat_sample (recs s)) (\<lambda>n. show_address 114 (n - 1) (hist s))" for s
  proof (cases "stat_sample (recs s)")
    case (Inr n)
    then have "block [do_with (value_of (\<lambda>s. stat_sample (recs s))) (\<lambda>n.
        [do_call (on_hist_r (show_address 114 (n - 1)))])] s =
      block [do_call (on_hist_r (show_address 114 (n - 1)))] s"
      by (simp add: do_with_def value_of_def split: sum.split flow.split)
    with Inr one [of "show_address 114 (n - 1)" s] show ?thesis by simp
  qed (simp add: do_with_def value_of_def)
  show ?thesis
    unfolding show_ax_data_def body_def draw_ax_def hist_call
    by (simp only: map_r_bind last hist_on_hist on_hist_on_hist)
qed

section \<open>A recorded frame shown again\<close>

text \<open>The record in slot \<open>a\<close>, below the number of frames.\<close>

definition kept :: "u16 \<Rightarrow> u8 list \<Rightarrow> store \<Rightarrow> bool" where
  "kept a R q \<longleftrightarrow> mounted (vol q) \<and> a < ax5043_len q \<and> ax5043_len q \<le> AX5043_MAX \<and> length R = 60 \<and>
     (\<exists>C. open_rw AX_record_txt (vol q) = Some C \<and> file_read (unat a * 60) 60 C = R)"

definition frame_recorded :: "u8 \<Rightarrow> u8 list \<Rightarrow> u32 \<Rightarrow> u32 \<Rightarrow> u8 list \<Rightarrow> u16 \<Rightarrow> store \<Rightarrow> store result" where
  "frame_recorded ver zf number reading t x q =
     map_r (\<lambda>r. set_Record_txt (get_recordled_data r) (get_ax5045len_data r + 1) (get_version r) r)
       (set_ax_record ver zf number reading t x q)"

lemma len_step:
  assumes "a < AX5043_MAX"
  shows "a mod AX5043_MAX = a" and "(a + 1) mod (AX5043_MAX + 1) = a + 1" and "unat (a + 1) = unat a + 1"
    and "a < a + 1" and "a + 1 \<le> AX5043_MAX"
proof -
  have bound: "unat a < 50000" using assms by (simp add: AX5043_MAX_def word_less_nat_alt)
  then show next_len: "unat (a + 1) = unat a + 1" by (simp add: unat_word_ariths)
  show "a mod AX5043_MAX = a" "(a + 1) mod (AX5043_MAX + 1) = a + 1"
    using bound next_len by (simp_all add: word_unat_eq_iff unat_mod_distrib AX5043_MAX_def)
  show "a < a + 1" "a + 1 \<le> AX5043_MAX"
    using bound next_len by (simp_all add: word_less_nat_alt word_le_nat_alt AX5043_MAX_def)
qed

lemma frame_recorded_file:
  assumes "frame_recorded ver zf number reading t x q = Inr q2" and "mounted (vol q)" and "ax5043_len q < AX5043_MAX"
  shows "\<exists>c. open_rw AX_record_txt (vol q) = Some c \<and> mounted (vol q2) \<and> ax5043_len q2 = ax5043_len q + 1 \<and>
    open_rw AX_record_txt (vol q2) =
      Some (file_write (hole (vol q)) (unat (ax5043_len q) * 60) (ax_record ver zf number reading t x) c)"
proof -
  obtain q1 where q1: "set_ax_record ver zf number reading t x q = Inr q1"
    and q2: "q2 = set_Record_txt (get_recordled_data q1) (get_ax5045len_data q1 + 1) (get_version q1) q1"
    using assms(1) by (auto simp: frame_recorded_def map_r_eq_Inr)
  obtain c where c: "open_rw AX_record_txt (vol q) = Some c" using open_rw_mounted [OF assms(2)] by blast
  let ?C = "file_write (hole (vol q)) (unat (ax5043_len q) * 60) (ax_record ver zf number reading t x) c"
  note len = len_step [OF assms(3)]
  have "open_rw AX_record_txt (vol q1) = Some ?C" using set_ax_record_file [OF c q1] by (simp add: len(1))
  moreover have m: "mounted (vol q1)" and l: "ax5043_len q1 = ax5043_len q"
    and f: "files (vol q1) AX_record_txt = Some ?C"
    using assms(2) q1 c len(1) by (auto simp: set_ax_record_def Let_def split: if_splits)
  moreover have "open_rw AX_record_txt (vol q2) = Some ?C" "mounted (vol q2)"
    using m f by (simp_all add: q2 open_rw_def)
  moreover have "ax5043_len q2 = ax5043_len q + 1" using m l len(2) by (simp add: q2 get_ax5045len_data_def)
  ultimately show ?thesis using c by blast
qed

lemma kept_new:
  assumes "frame_recorded ver zf number reading t x q = Inr q2" and "mounted (vol q)" and "ax5043_len q < AX5043_MAX"
  shows "kept (ax5043_len q) (ax_record ver zf number reading t x) q2"
  using frame_recorded_file [OF assms] len_step(4,5) [OF assms(3)] by (auto simp: kept_def file_read_written)

lemma kept_other:
  assumes "kept a R q" and "frame_recorded ver zf number reading t x q = Inr q2" and "ax5043_len q < AX5043_MAX"
  shows "kept a R q2"
proof -
  have m: "mounted (vol q)" and a: "a < ax5043_len q" and R: "length R = 60" using assms(1) by (simp_all add: kept_def)
  from frame_recorded_file [OF assms(2) m assms(3)] assms(1) obtain c where
    c: "mounted (vol q2)" "ax5043_len q2 = ax5043_len q + 1" "file_read (unat a * 60) 60 c = R"
    "open_rw AX_record_txt (vol q2) =
      Some (file_write (hole (vol q)) (unat (ax5043_len q) * 60) (ax_record ver zf number reading t x) c)"
    by (auto simp: kept_def)
  have "unat a \<noteq> unat (ax5043_len q)" using a by (simp add: word_less_nat_alt)
  then have "file_read (unat a * 60) 60
      (file_write (hole (vol q)) (unat (ax5043_len q) * 60) (ax_record ver zf number reading t x) c) = R"
    using content.slot_apart [of _ 60 c "ax_record ver zf number reading t x" "unat (ax5043_len q)" "hole (vol q)"] c(3) R
    by simp
  moreover have "a < ax5043_len q + 1" "ax5043_len q + 1 \<le> AX5043_MAX"
    using a len_step(4,5) [OF assms(3)] by (simp_all add: less_trans)
  ultimately show ?thesis using c R by (simp add: kept_def)
qed

lemma kept_browsed:
  assumes "kept a R q"
  shows "kept a R (snd (get_ax_Record b q))"
proof -
  obtain C where C: "mounted (vol q)" "open_rw AX_record_txt (vol q) = Some C" "file_read (unat a * 60) 60 C = R"
    using assms by (auto simp: kept_def)
  have long: "unat a * 60 + 60 \<le> length C"
    using assms C length_file_read [of "unat a * 60" 60 C] by (simp add: kept_def)
  then have "file_read (unat a * 60) 60 (file_seek (hole (vol q)) (unat b * 60) C) = R"
    using C(3) by (simp add: file_read_def file_seek_def)
  moreover have "a < ax5043_len q" "ax5043_len q \<le> AX5043_MAX" "length R = 60" using assms by (simp_all add: kept_def)
  ultimately show ?thesis using C(1,2) by (simp add: kept_def get_ax_Record_def Let_def)
qed

lemma kept_read:
  assumes "kept a R q"
  shows "\<exists>q'. get_ax_Record a q = (1, q') \<and> take 60 (buffer q') = R \<and> stat_sample q' = stat_sample q"
proof -
  obtain C where C: "mounted (vol q)" "open_rw AX_record_txt (vol q) = Some C" "file_read (unat a * 60) 60 C = R"
    "length R = 60" using assms by (auto simp: kept_def)
  have long: "unat a * 60 + 60 \<le> length C" using C(3,4) length_file_read [of "unat a * 60" 60 C] by simp
  then have "file_seek (hole (vol q)) (unat a * 60) C = C" by (simp add: file_seek_def)
  moreover have "files (vol q) AX_record_txt = Some C"
  proof (cases "files (vol q) AX_record_txt")
    case None
    with C(1,2) have "C = []" by (simp add: open_rw_def)
    with long show ?thesis by simp
  qed (use C(1,2) in \<open>simp add: open_rw_def\<close>)
  ultimately show ?thesis
    using C by (simp add: get_ax_Record_def Let_def take_splice_n stat_sample_def)
qed

lemma small_strength: "0 \<le> x \<Longrightarrow> x < 1000 \<Longrightarrow> uint ((word_of_int x :: u16) mod 1000) = x"
  by (simp add: uint_mod_distrib uint_word_of_int take_bit_eq_mod)

text \<open>
  What happens on the receiving screens: a frame comes in, with what the decoder took from it and the time
  it came, and is recorded; or a record is browsed.
\<close>

datatype receiving = Arrives "u8 list" decoder "u8 list" | Browses u16

primrec receiving_step :: "receiving \<Rightarrow> sys \<Rightarrow> sys result" where
  "receiving_step (Arrives flags d time) s =
     map_r (on_recs (\<lambda>r. set_Record_txt (get_recordled_data r) (get_ax5045len_data r + 1) (get_version r) r))
       (record_frame flags (s\<lparr>my_time := time, rf := (rf s)\<lparr>dec := d\<rparr>\<rparr>))"
| "receiving_step (Browses addr) s = show_ax_record addr s"

primrec arrives :: "receiving \<Rightarrow> bool" where
  "arrives (Arrives flags d time) = True"
| "arrives (Browses addr) = False"

lemma arrives_recorded:
  assumes "receiving_step (Arrives flags d time) s = Inr s'"
  shows "frame_recorded (get_ax_v d) flags (get_ax_msid d) (get_ax_msv d) time (word_of_int (- get_ax_rssi d))
    (recs s) = Inr (recs s')"
  using assms
  by (auto simp: record_frame_def Let_def on_recs_r_def on_recs_def frame_recorded_def map_r_eq_Inr)

lemma show_ax_data_recs: "show_ax_data number reading v flags rssi addr s = Inr s' \<Longrightarrow> recs s' = recs s"
proof -
  have one: "recs s' = recs s" if "map_r state_of (block [do_with (value_of (\<lambda>s. stat_sample (recs s))) (\<lambda>n.
      [do_call (on_hist_r (show_address 114 (n - 1)))])] s) = Inr s'" for s s'
    using that
    by (auto simp: do_with_def value_of_def do_call_def on_hist_r_def map_r_eq_Inr bind_r_eq_Inr
        split: sum.splits prod.splits flow.splits)
  show "show_ax_data number reading v flags rssi addr s = Inr s' \<Longrightarrow> recs s' = recs s"
    unfolding show_ax_data_def body_def hist_call map_r_bind bind_r_eq_Inr
    by (elim exE conjE) (drule one, simp only: hist_on_hist)
qed

lemma browses_recs:
  assumes "receiving_step (Browses addr) s = Inr s'"
  shows "recs s' = snd (get_ax_Record addr (recs s))"
  using assms
  by (auto simp: show_ax_record_def bind_r_eq_Inr split: prod.splits dest!: show_ax_data_recs)

lemma kept_later:
  assumes "kept a R (recs s)" and "fold_r receiving_step later s = Inr t"
    and "unat (ax5043_len (recs s)) + length (filter arrives later) \<le> unat AX5043_MAX"
  shows "kept a R (recs t)"
  using assms
proof (induction later arbitrary: s)
  case (Cons ev later)
  from Cons.prems(2) obtain s1 where s1: "receiving_step ev s = Inr s1" "fold_r receiving_step later s1 = Inr t"
    by (auto simp: bind_r_eq_Inr)
  have "kept a R (recs s1) \<and> unat (ax5043_len (recs s1)) + length (filter arrives later) \<le> unat AX5043_MAX"
  proof (cases ev)
    case (Arrives flags d time)
    then have less: "ax5043_len (recs s) < AX5043_MAX" using Cons.prems(3) by (simp add: word_less_nat_alt)
    note rec = arrives_recorded [OF s1(1) [unfolded Arrives]]
    have "mounted (vol (recs s))" using Cons.prems(1) by (simp add: kept_def)
    with frame_recorded_file [OF rec _ less] have "ax5043_len (recs s1) = ax5043_len (recs s) + 1" by auto
    with kept_other [OF Cons.prems(1) rec less] len_step(3) [OF less] Cons.prems(3) Arrives show ?thesis by simp
  next
    case (Browses addr)
    note recs = browses_recs [OF s1(1) [unfolded Browses]]
    have "ax5043_len (snd (get_ax_Record addr q)) = ax5043_len q" for q
      by (simp add: get_ax_Record_def Let_def split: option.split)
    with kept_browsed [OF Cons.prems(1), of addr] recs Cons.prems(3) Browses show ?thesis by simp
  qed
  with Cons.IH [OF _ s1(2)] show ?case by blast
qed simp

text \<open>
  C6: A frame looks the same whenever it is browsed as when it came in. The refresh draws it with the
  values the decoder took from it; after any further frames and any browsing, reading its record back
  draws, on whatever is then on the screen, exactly what the same call with the same values draws there:
  only the total number of records, which is drawn too, is the current one. This holds for every meter
  number and reading, on a mounted volume, for a signal strength of at most three digits behind the
  minus sign, until the file of 50000 slots is full.
\<close>

theorem browsed_frame_drawn_alike:
  assumes "receiving_step (Arrives flags d time) s = Inr s2" and "a = ax5043_len (recs s)"
    and "fold_r receiving_step later s2 = Inr t" and "recs t' = recs t"
    and "mounted (vol (recs s))" and "length flags = 10"
    and "unat a + length (filter arrives later) < unat AX5043_MAX"
    and "0 \<le> - get_ax_rssi d" and "- get_ax_rssi d < 1000"
  shows "show_frame flags s2 =
      show_ax_data (get_ax_msid d) (get_ax_msv d) (get_ax_v d) flags (- get_ax_rssi d) a s2 \<and>
    map_r hist (show_ax_record a t') =
      map_r hist (show_ax_data (get_ax_msid d) (get_ax_msv d) (get_ax_v d) flags (- get_ax_rssi d) a t')"
proof -
  let ?R = "ax_record (get_ax_v d) flags (get_ax_msid d) (get_ax_msv d) time (word_of_int (- get_ax_rssi d))"
  note rec = arrives_recorded [OF assms(1)]
  have less: "ax5043_len (recs s) < AX5043_MAX" using assms(2,7) by (simp add: word_less_nat_alt)
  from frame_recorded_file [OF rec assms(5) less] have len: "ax5043_len (recs s2) = a + 1" by (auto simp: assms(2))
  have next_len: "unat (a + 1) = unat a + 1" using len_step(3) [OF less] by (simp add: assms(2))
  from kept_new [OF rec assms(5) less] have "kept a ?R (recs s2)" by (simp add: assms(2))
  from kept_later [OF this assms(3)] assms(7) have "kept a ?R (recs t')" by (simp add: len next_len assms(4))
  from kept_read [OF this] obtain q where q: "get_ax_Record a (recs t') = (1, q)" "take 60 (buffer q) = ?R"
    "stat_sample q = stat_sample (recs t')" by blast
  have "map_r hist (show_ax_record a t') = draw_ax (get_ax_msid d mod 10 ^ 8) (get_ax_msv d mod 10 ^ 6)
      (get_ax_v d) flags (- get_ax_rssi d) a (stat_sample (recs t')) (hist t')"
    using q buffer_read [OF q(2) assms(6)] small_strength [OF assms(8,9)]
    by (simp add: show_ax_record_def show_ax_data_draws)
  also have "\<dots> = draw_ax (get_ax_msid d) (get_ax_msv d)
      (get_ax_v d) flags (- get_ax_rssi d) a (stat_sample (recs t')) (hist t')"
    by (simp only: draw_ax_def show_msid_def show_digits_mod le_refl numeral_le_iff semiring_norm)
  finally have "map_r hist (show_ax_record a t') =
      map_r hist (show_ax_data (get_ax_msid d) (get_ax_msv d) (get_ax_v d) flags (- get_ax_rssi d) a t')"
    by (simp only: show_ax_data_draws)
  moreover have "dec (rf s2) = d"
    using assms(1) by (auto simp: record_frame_def Let_def on_recs_r_def on_recs_def map_r_eq_Inr)
  moreover have "a + 1 \<noteq> 0" using next_len by (metis add_is_0 one_neq_zero unat_0)
  ultimately show ?thesis by (simp add: show_frame_def Let_def get_ax5045len_data_def len)
qed

theorem browsed_frame_drawn_alike_witness:
  "\<exists>s2 t. receiving_step (Arrives (replicate 10 1) decoder_boot (replicate 7 0)) (sys_boot empty_volume) = Inr s2 \<and>
     receiving_step (Arrives (replicate 10 0) (decoder_boot\<lparr>msid := 7\<rparr>) (replicate 7 1)) s2 = Inr t \<and>
     map_r hist (show_ax_record 0 t) =
       map_r hist (show_ax_data (msid decoder_boot) (msv decoder_boot) (get_ax_v decoder_boot) (replicate 10 1) 0 0 t)"
proof -
  let ?s = "sys_boot empty_volume"
  have total: "\<exists>s'. receiving_step (Arrives flags d time) s = Inr s'" if "length flags = 10" "length time = 7" for flags d time s
    using set_ax_record_total [of flags time] that
    by (auto simp: record_frame_def Let_def on_recs_r_def map_r_eq_Inr)
  obtain s2 where s2: "receiving_step (Arrives (replicate 10 1) decoder_boot (replicate 7 0)) ?s = Inr s2"
    using total by (metis length_replicate)
  obtain t where t: "receiving_step (Arrives (replicate 10 0) (decoder_boot\<lparr>msid := 7\<rparr>) (replicate 7 1)) s2 = Inr t"
    using total by (metis length_replicate)
  have r: "recs ?s = store_boot empty_volume" by (simp add: sys_boot_def)
  have run: "fold_r receiving_step [Arrives (replicate 10 0) (decoder_boot\<lparr>msid := 7\<rparr>) (replicate 7 1)] s2 = Inr t"
    by (simp only: fold_r.simps t bind_r_simps)
  have d: "get_ax_rssi decoder_boot = 0" "get_ax_msid decoder_boot = msid decoder_boot"
    "get_ax_msv decoder_boot = msv decoder_boot"
    by (simp_all add: decoder_boot_def get_ax_rssi_def get_ax_msid_def get_ax_msv_def)
  have m: "mounted (vol (recs ?s))" unfolding r by (simp add: empty_volume_def)
  have len: "0 = ax5043_len (recs ?s)" by (simp add: r)
  from browsed_frame_drawn_alike [OF s2 len run refl m] s2 t show ?thesis by (auto simp: d AX5043_MAX_def)
qed

end
