(* ===== verification/Tester_Calls.thy ===== *)
theory Tester_Calls
  imports Tester_State
begin

text \<open>
  What the parts of the program add to the history: the display driver only pin writes and busy
  loops, the radio's interrupt task and send timer only transfers on their bus. So neither comes
  between the requests on the meter's line and the sleeps of the main loop.
\<close>

section \<open>Histories that grow by some events\<close>

definition grows :: "(event \<Rightarrow> bool) \<Rightarrow> history \<Rightarrow> history \<Rightarrow> bool" where
  "grows P h h' \<longleftrightarrow> (\<exists>new. h' = new @ h \<and> list_all P new)"

lemma grows_refl: "grows P h h"
  by (simp add: grows_def)

lemma grows_cons: "grows P h h' \<Longrightarrow> P ev \<Longrightarrow> grows P h (ev # h')"
  unfolding grows_def by (metis append_Cons list.pred_inject(2))

lemma grows_if: "(c \<Longrightarrow> grows P h a) \<Longrightarrow> (\<not> c \<Longrightarrow> grows P h b) \<Longrightarrow> grows P h (if c then a else b)"
  by simp

lemma grows_fold:
  assumes "\<And>x h'. x \<in> set xs \<Longrightarrow> grows P h h' \<Longrightarrow> grows P h (f x h')" and "grows P h h'"
  shows "grows P h (fold f xs h')"
  using assms by (induction xs arbitrary: h') simp_all

lemma grows_fold_r:
  assumes "\<And>x h' h''. x \<in> set xs \<Longrightarrow> f x h' = Inr h'' \<Longrightarrow> grows P h h' \<Longrightarrow> grows P h h''"
    and "fold_r f xs h' = Inr h''" and "grows P h h'"
  shows "grows P h h''"
  using assms
proof (induction xs arbitrary: h')
  case (Cons x xs)
  from Cons.prems(2) obtain h1 where h1: "f x h' = Inr h1" "fold_r f xs h1 = Inr h''"
    by (auto simp: bind_r_eq_Inr)
  have "grows P h h1" using Cons.prems(1) [OF _ h1(1) Cons.prems(3)] by simp
  show ?case by (rule Cons.IH [OF Cons.prems(1) h1(2) \<open>grows P h h1\<close>]) simp_all
qed simp

section \<open>The display\<close>

fun on_pins :: "event \<Rightarrow> bool" where
  "on_pins (PinWrite p v) = True"
| "on_pins (Spin n) = True"
| "on_pins _ = False"

named_theorems pins

lemma pins_write [pins]: "grows on_pins h0 h \<Longrightarrow> grows on_pins h0 (rt_pin_write p v h)"
  by (simp add: rt_pin_write_def grows_cons)

lemma pins_spin [pins]: "grows on_pins h0 h \<Longrightarrow> grows on_pins h0 (spin n h)"
  by (simp add: spin_def grows_cons)

lemma pins_shift: "grows on_pins h0 h \<Longrightarrow> grows on_pins h0 (shift_out n d h)"
  by (induction n arbitrary: d h) (simp_all add: write_bit_def Let_def pins)

lemma pins_data [pins]: "grows on_pins h0 h \<Longrightarrow> grows on_pins h0 (WriteData d c h)"
  by (simp add: WriteData_def Let_def pins pins_shift)

lemma pins_page:
  assumes "glyph_page font w page l s k invert h = Inr h'" and "grows on_pins h0 h"
  shows "grows on_pins h0 h'"
proof (rule grows_fold_r [OF _ assms(1) [unfolded glyph_page_def Let_def]])
  fix j a b
  assume "grows on_pins h0 a" and "bind_r (arr_get font (unat k)) (\<lambda>glyph.
    map_r (\<lambda>b. WriteData (if invert then NOT b else b) 1 a) (arr_get glyph (j + s - 1))) = Inr b"
  then show "grows on_pins h0 b" by (auto simp: bind_r_eq_Inr map_r_eq_Inr pins)
qed (simp add: assms(2) pins)

lemma pins_cells:
  "lcd_number y l k rv h = Inr h' \<Longrightarrow> grows on_pins h0 h \<Longrightarrow> grows on_pins h0 h'"
  "lcd_chinese y l k rv h = Inr h' \<Longrightarrow> grows on_pins h0 h \<Longrightarrow> grows on_pins h0 h'"
  by (auto simp: lcd_number_def lcd_chinese_def Let_def bind_r_eq_Inr dest!: pins_page)

lemma pins_show_loop:
  "show_loop y l list rv is c h = Inr h' \<Longrightarrow> grows on_pins h0 h \<Longrightarrow> grows on_pins h0 h'"
  by (induction "is" arbitrary: c h)
    (auto simp: bind_r_eq_Inr Let_def dest: pins_cells split: if_splits)

lemma pins_lcd_show: "lcd_show y l list len rv h = Inr h' \<Longrightarrow> grows on_pins h h'"
  by (auto simp: lcd_show_def bind_r_eq_Inr dest!: pins_show_loop [OF _ grows_refl])

lemma pins_text:
  assumes "text_loop put width cs i c h = Inr h'" and "grows on_pins h0 h"
    and "\<And>i c b h h'. put i c b h = Inr h' \<Longrightarrow> grows on_pins h0 h \<Longrightarrow> grows on_pins h0 h'"
  shows "grows on_pins h0 h'"
  using assms(1,2)
  by (induction cs arbitrary: i c h) (auto simp: bind_r_eq_Inr dest: assms(3))

lemma pins_lcd_show_zf: "lcd_show_zf y l text h = Inr h' \<Longrightarrow> grows on_pins h h'"
  unfolding lcd_show_zf_def by (erule pins_text [OF _ grows_refl]) (rule pins_cells(1))

section \<open>The radio\<close>

fun on_spi :: "event \<Rightarrow> bool" where
  "on_spi (SpiSend bs) = True"
| "on_spi (SpiRecv bs cs) = True"
| "on_spi TimerStop = True"
| "on_spi _ = False"

abbreviation spi :: "history \<Rightarrow> history \<Rightarrow> bool" where
  "spi \<equiv> grows on_spi"

named_theorems spi_intros

lemmas [spi_intros] = grows_refl grows_if

lemma spi_access [spi_intros]:
  "spi h0 h \<Longrightarrow> spi h0 (w1 a v h)"
  "spi h0 h \<Longrightarrow> spi h0 (w2 b v h)"
  "spi h0 h \<Longrightarrow> spi h0 (snd (r1 e a h))"
  "spi h0 h \<Longrightarrow> spi h0 (snd (r2 e b h))"
  "spi h0 h \<Longrightarrow> spi h0 (Ax5043_Spi_Reset h)"
  "spi h0 h \<Longrightarrow> spi h0 (TimerStop # h)"
  by (auto simp: SpiWriteSingleAddressRegister_def SpiWriteLongAddressRegister_def Ax5043_Spi_Reset_def
      SpiReadSingleAddressRegister_def SpiReadLongAddressRegister_def spi_transfer_def Let_def intro!: grows_cons)

lemma spi_rows [spi_intros]: "spi h0 h \<Longrightarrow> spi h0 (fold (write_row rows) is h)"
  by (rule grows_fold) (simp_all add: write_row_def spi_intros)

lemma spi_fifo [spi_intros]: "spi h0 h \<Longrightarrow> spi h0 (write_fifo bs h)"
  unfolding write_fifo_def by (rule grows_fold) (simp_all add: spi_intros)

lemma spi_drop [spi_intros]: "spi h0 h \<Longrightarrow> spi h0 (drop_bytes e n h)"
  by (induction n arbitrary: h) (simp_all add: spi_intros)

lemma spi_registers [spi_intros]:
  "spi h0 h \<Longrightarrow> spi h0 (InitAx5043REG e d h)"
  "spi h0 h \<Longrightarrow> spi h0 (snd (ax5043_init_registers_common e d h))"
  "spi h0 h \<Longrightarrow> spi h0 (write_freq d h)"
  by (auto simp: InitAx5043REG_def ax5043_init_registers_common_def write_freq_def Let_def case_prod_beta
      axradio_get_pllvcoi_def intro!: spi_intros)

lemma spi_setup [spi_intros]:
  "spi h0 h \<Longrightarrow> spi h0 (snd (Ax5043SetRegisters_RX e d h))"
  "spi h0 h \<Longrightarrow> spi h0 (snd (Ax5043Receiver_Continuous e (d, h)))"
  "spi h0 h \<Longrightarrow> spi h0 (snd (rf_restart e (d, h)))"
  by (auto simp: Ax5043SetRegisters_RX_def Ax5043Receiver_Continuous_def rf_restart_def Ax5043_OFF_def Let_def
      case_prod_beta intro!: spi_intros)

lemma spi_data:
  "SpiReadData e buf n h = Inr (buf', h') \<Longrightarrow> spi h0 h \<Longrightarrow> spi h0 h'"
  "SpiWriteData buf n h = Inr h' \<Longrightarrow> spi h0 h \<Longrightarrow> spi h0 h'"
  by (auto simp: SpiReadData_def SpiWriteData_def spi_transfer_def Let_def grows_cons split: if_splits)

lemma spi_chunk:
  assumes "receive_chunk e (d, h) = Inr (d', h')" and "spi h0 h"
  shows "spi h0 h'"
proof -
  have read: "spi h0 b" if "SpiReadData e buf n a = Inr (buf', b)" "spi h0 a" for buf n a buf' b
    using spi_data(1) that .
  show ?thesis
    using assms
    by (auto simp: receive_chunk_def Let_def case_prod_beta bind_r_eq_Inr split: if_splits
        intro!: spi_intros) (erule read; intro spi_intros; assumption)+
qed

lemma spi_receive_loop: "receive_loop k e (d, h) = Inr (d', h') \<Longrightarrow> spi h0 h \<Longrightarrow> spi h0 h'"
proof (induction k arbitrary: d h)
  case (Suc k)
  show ?case
  proof (cases "fst (r1 e REG_IRQREQUEST0 h) AND 0x01 = 0")
    case True
    with Suc.prems show ?thesis by (auto simp: Let_def case_prod_beta intro: spi_intros)
  next
    case False
    with Suc.prems(1) obtain d1 h1 where "receive_chunk e (d, snd (r1 e REG_IRQREQUEST0 h)) = Inr (d1, h1)"
      "receive_loop k e (d1, h1) = Inr (d', h')" by (auto simp: Let_def case_prod_beta bind_r_eq_Inr)
    with Suc.IH spi_chunk Suc.prems(2) spi_access(3) show ?thesis by metis
  qed
qed simp

lemma spi_ReceiveData: "ReceiveData k e (d, h) = Inr (d', h') \<Longrightarrow> spi h0 h \<Longrightarrow> spi h0 h'"
  by (auto simp: ReceiveData_def Let_def intro!: spi_intros dest!: spi_receive_loop)

lemma spi_tx_sync: "tx_sync (d, h) = Inr (d', h') \<Longrightarrow> spi h0 h \<Longrightarrow> spi h0 h'"
  by (auto simp: tx_sync_def Let_def split: if_splits intro!: spi_intros)

lemma spi_tx_rest [spi_intros]: "spi h0 h \<Longrightarrow> spi h0 (snd (snd (tx_preamble_rest e free (d, h))))"
  by (auto simp: tx_preamble_rest_def Let_def case_prod_beta intro!: spi_intros)

lemma tx_rest_end: "tx_preamble_rest e free (d, h) = (n, d', h') \<Longrightarrow> spi h0 h \<Longrightarrow> spi h0 h'"
  using spi_tx_rest [of h0 h e free d] by simp

lemma spi_tx_short:
  assumes "tx_shortpreamble e free (d, h) = Inr (n, d', h')" and "spi h0 h"
  shows "spi h0 h'"
proof -
  have sync: "spi h0 b" if "tx_sync (d1, a) = Inr (d2, b)" "spi h0 a" for d1 a d2 b
    using spi_tx_sync that .
  have rest: "spi h0 b" if "tx_preamble_rest e free (d1, a) = (n1, d2, b)" "spi h0 a" for d1 a n1 d2 b
    using tx_rest_end that .
  show ?thesis
    using assms
    by (auto simp: tx_shortpreamble_def Let_def case_prod_beta map_r_eq_Inr split: if_splits
        intro!: spi_intros) ((erule sync rest; intro spi_intros; assumption) | (erule sync rest; auto intro!: spi_intros))+
qed

lemma spi_tx_long: "tx_longpreamble e free (d, h) = Inr (n, d', h') \<Longrightarrow> spi h0 h \<Longrightarrow> spi h0 h'"
  by (auto simp: tx_longpreamble_def Let_def split: if_splits intro!: spi_intros dest: spi_tx_short)

lemma spi_tx_packet: "tx_packet (d, h) = Inr (n, d', h') \<Longrightarrow> spi h0 h \<Longrightarrow> spi h0 h'"
  by (auto simp: tx_packet_def map_r_eq_Inr split: if_splits) (erule spi_data(2), simp add: spi_fifo)

lemma spi_tx_pass:
  assumes "tx_pass e (d, h) = Inr (n, d', h')" and "spi h0 h"
  shows "spi h0 h'"
proof -
  let ?h = "snd (r1 e REG_FIFOFREE1 (snd (r1 e REG_FIFOFREE0 h)))"
  have "spi h0 ?h" using assms(2) by (intro spi_intros)
  let ?f = "if fst (r1 e REG_FIFOFREE1 (snd (r1 e REG_FIFOFREE0 h))) \<noteq> 0 then 0xff
    else fst (r1 e REG_FIFOFREE0 h)"
  have run: "(case ubRFState d of
      trxstate_tx_longpreamble \<Rightarrow> tx_longpreamble e ?f (d, ?h)
    | trxstate_tx_shortpreamble \<Rightarrow> tx_shortpreamble e ?f (d, ?h)
    | trxstate_tx_packet \<Rightarrow> tx_packet (d, ?h)
    | _ \<Rightarrow> Inr (TxReturn, d, ?h)) = Inr (n, d', h')"
    using assms(1) by (simp only: tx_pass_def Let_def case_prod_beta prod.sel)
  show ?thesis
  proof (cases "ubRFState d")
    case trxstate_tx_longpreamble
    with run have "tx_longpreamble e ?f (d, ?h) = Inr (n, d', h')" by simp
    then show ?thesis using spi_tx_long \<open>spi h0 ?h\<close> by blast
  next
    case trxstate_tx_shortpreamble
    with run have "tx_shortpreamble e ?f (d, ?h) = Inr (n, d', h')" by simp
    then show ?thesis using spi_tx_short \<open>spi h0 ?h\<close> by blast
  next
    case trxstate_tx_packet
    with run have "tx_packet (d, ?h) = Inr (n, d', h')" by simp
    then show ?thesis using spi_tx_packet \<open>spi h0 ?h\<close> by blast
  qed (use run \<open>spi h0 ?h\<close> in auto)
qed

lemma spi_tx_end [spi_intros]:
  "spi h0 h \<Longrightarrow> spi h0 (snd (tx_pktend (d, h)))"
  "spi h0 h \<Longrightarrow> spi h0 (snd (tx_fifocommit (d, h)))"
  by (simp_all add: tx_pktend_def tx_fifocommit_def Let_def spi_intros)

lemma spi_TransmitData: "TransmitData k e (d, h) = Inr (d', h') \<Longrightarrow> spi h0 h \<Longrightarrow> spi h0 h'"
proof (induction k arbitrary: d h)
  case (Suc k)
  from Suc.prems(1) obtain n d1 h1 where pass: "tx_pass e (d, h) = Inr (n, d1, h1)"
    and rest: "(case n of TxAgain \<Rightarrow> TransmitData k e (d1, h1) | TxCommit \<Rightarrow> Inr (tx_fifocommit (d1, h1))
      | TxEnd \<Rightarrow> Inr (tx_pktend (d1, h1)) | TxReturn \<Rightarrow> Inr (d1, h1)) = Inr (d', h')"
    by (auto simp: bind_r_eq_Inr)
  have h1: "spi h0 h1" using spi_tx_pass [OF pass Suc.prems(2)] .
  show ?case
  proof (cases n)
    case TxAgain
    with rest Suc.IH h1 show ?thesis by simp
  next
    case TxCommit
    with rest spi_tx_end(2) [OF h1, of d1] show ?thesis by simp
  next
    case TxEnd
    with rest spi_tx_end(1) [OF h1, of d1] show ?thesis by simp
  next
    case TxReturn
    with rest h1 show ?thesis by simp
  qed
qed simp

lemma spi_dev_r:
  assumes "on_dev_r f r = Inr r'" and "\<And>d' h'. f (dev r, trace r) = Inr (d', h') \<Longrightarrow> spi h0 h'"
  shows "spi h0 (trace r')"
  using assms by (auto simp: on_dev_r_def map_r_eq_Inr split: prod.splits)

lemma trace_simps:
  "trace (on_dev f r) = snd (f (dev r, trace r))"
  "trace (on_bus g r) = g (trace r)" "dev (on_bus g r) = dev r"
  "trace (set_phase p r) = trace r" "trace (rx_report r) = trace r"
  by (simp_all add: on_dev_def on_bus_def set_phase_def rx_report_def split: prod.split)

lemma spi_callback:
  assumes "rf_4068_task_callback k e r = Inr r'"
  shows "spi (trace r) (trace r')"
proof -
  have send: "spi h0 (trace r2)" if "on_dev_r (TransmitData k e) r1 = Inr r2" "spi h0 (trace r1)" for h0 r1 r2
    by (rule spi_dev_r [OF that(1)]) (use spi_TransmitData that(2) in blast)
  have rx: "spi (trace r) (trace r')" if "irq_rx k e r = Inr r'"
  proof -
    from that obtain r1 where r1: "on_dev_r (ReceiveData k e) r = Inr r1"
      and r': "r' = rx_report (on_dev (Ax5043Receiver_Continuous e)
        (on_bus (\<lambda>h. snd (Ax5043SetRegisters_RX e (dev r1) h)) r1))"
      by (auto simp: irq_rx_def map_r_eq_Inr Let_def)
    have "spi (trace r) (trace r1)"
      by (rule spi_dev_r [OF r1]) (use spi_ReceiveData grows_refl in blast)
    then show ?thesis by (simp add: r' trace_simps spi_intros)
  qed
  have xtal: "spi (trace r) (trace r')" if "irq_tx_xtalwait k e r = Inr r'"
    using that unfolding irq_tx_xtalwait_def Let_def case_prod_beta map_r_eq_Inr
    by (elim exE conjE, simp only: trace_simps, intro spi_access(1), elim send)
      (auto simp: trace_simps intro!: spi_intros)
  have ready: "spi (trace r) (trace (irq_tx_waitdone e r))"
    by (auto simp: irq_tx_waitdone_def Let_def case_prod_beta trace_simps intro!: spi_intros)
  show ?thesis
    using assms rx xtal ready send [OF _ grows_refl]
    by (cases "ubRFState (dev r)") (auto simp: rf_4068_task_callback_def trace_simps intro!: spi_intros)
qed

lemma spi_timer: "spi (trace r) (trace (rf_4068_send_timer_callback e r))"
  by (simp add: rf_4068_send_timer_callback_def trace_simps spi_intros)

end
