(* ===== verification/Tester_Meter.thy ===== *)
theory Tester_Meter
  imports Tester_Bench Tester_Calls Meter_Lag
begin

text \<open>
  A whole test of the running meter on a bench with a meter at the line that answers: whenever and
  in whatever pieces its answers come, as long as no timeout strikes, and whatever the radio, the
  ramp and the pulses of the motor do meanwhile.
\<close>

section \<open>What the meter owes\<close>

text \<open>
  A meter without a valve: it accepts every setting, and gives a number, a reading and a status
  digit when asked.
\<close>

definition answer :: "u32 \<Rightarrow> u32 \<Rightarrow> u8 \<Rightarrow> u8 list \<Rightarrow> u8 list" where
  "answer number reading status bs =
     (let c = bs ! 3 in
      if c = byte CHR ''B'' then reply_frame ([byte CHR ''A'', c] @ hex_digits 6 number)
      else if c = byte CHR ''F'' then reply_frame ([byte CHR ''A'', c] @ hex_digits 6 reading)
      else if c = byte CHR ''I'' then reply_frame [byte CHR ''A'', c, byte CHR ''0'', number_hex status]
      else reply_frame [byte CHR ''A'', c, byte CHR ''0''])"

text \<open>
  \<open>serve b (cs, n)\<close>: the characters \<open>cs\<close> are still owed and the timeout has \<open>n\<close> periods left. A
  character is the next that is owed and gives ten new periods; while something is owed no period
  is the last one. Everything else is free.
\<close>

definition serve :: "background \<Rightarrow> u8 list \<times> nat \<Rightarrow> (u8 list \<times> nat) option" where
  "serve b p =
     (case b of
        MeterChar c \<Rightarrow> (case fst p of [] \<Rightarrow> None | d # ds \<Rightarrow> if c = d then Some (ds, 10) else None)
      | TimeoutPeriod \<Rightarrow>
          if fst p \<noteq> [] \<and> snd p \<le> 1 then None else Some (fst p, snd p - 1)
      | MotorStep ev \<Rightarrow> Some p
      | RadioTask \<Rightarrow> Some p
      | RadioTimer \<Rightarrow> Some p)"

primrec serve_all :: "background list \<Rightarrow> u8 list \<times> nat \<Rightarrow> (u8 list \<times> nat) option" where
  "serve_all [] p = Some p"
| "serve_all (b # bs) p = (case serve b p of None \<Rightarrow> None | Some q \<Rightarrow> serve_all bs q)"

text \<open>
  What is owed after a history: the answer \<open>a bs\<close> to a request, less what came in the sleeps since.
  A request waits at least 40 periods.
\<close>

fun debt :: "(u8 list \<Rightarrow> u8 list) \<Rightarrow> world \<Rightarrow> history \<Rightarrow> u8 list \<times> nat" where
  "debt a w [] = ([], 0)"
| "debt a w (SerialWrite bs # h) = (a bs, 40)"
| "debt a w (Delay ms # h) =
     (case serve_all (meanwhile w (Delay ms # h)) (debt a w h) of None \<Rightarrow> ([], 0) | Some p \<Rightarrow> p)"
| "debt a w (_ # h) = debt a w h"

text \<open>
  A world with a meter that answers \<open>a\<close>: it delivers what it owes, in order, each character before
  the timeout; a sleep of 100 ms holds a period of the timeout thread, and a sleep of 20 ms a pulse
  if the timer is on. The waiting loops may go round as often as a run of the motor has pulses.
\<close>

definition answering :: "(u8 list \<Rightarrow> u8 list) \<Rightarrow> world \<Rightarrow> bool" where
  "answering a w \<longleftrightarrow> 192000 \<le> patience w \<and>
     (\<forall>ms h. let bs = meanwhile w (Delay ms # h) in
        serve_all bs (debt a w h) \<noteq> None \<and>
        (ms = 100 \<longrightarrow> TimeoutPeriod \<in> set bs) \<and>
        (ms = 20 \<and> pwm_on h \<longrightarrow> MotorStep PwmPulse \<in> set bs) \<and>
        count_list bs (MotorStep PwmPulse) < 2 ^ 31)"

text \<open>
  The radio gets by: the states \<open>J\<close>, in which its interrupt task and its timer do not fault, are
  not left by them, and depend neither on the history nor on the screen.
\<close>

definition radio_safe :: "world \<Rightarrow> (rf_state \<Rightarrow> bool) \<Rightarrow> bool" where
  "radio_safe w J \<longleftrightarrow>
     (\<forall>r. J r \<longrightarrow>
        (\<exists>r'. rf_4068_task_callback (spi_patience w) (board w) r = Inr r' \<and> J r') \<and>
        J (rf_4068_send_timer_callback (board w) r) \<and> (\<forall>h m. J (r\<lparr>trace := h, thread_MS := m\<rparr>)))"

lemma radio_safe_update:
  assumes "radio_safe w J" and "J r"
  shows "J (r\<lparr>trace := h\<rparr>)" and "J (r\<lparr>thread_MS := m\<rparr>)"
proof -
  have "J (r\<lparr>trace := h, thread_MS := thread_MS r\<rparr>)" "J (r\<lparr>trace := trace r, thread_MS := m\<rparr>)"
    using assms unfolding radio_safe_def by blast+
  then show "J (r\<lparr>trace := h\<rparr>)" "J (r\<lparr>thread_MS := m\<rparr>)" by simp_all
qed

section \<open>Histories without calls\<close>

fun quiet :: "event \<Rightarrow> bool" where
  "quiet (Delay ms) = False"
| "quiet (SerialWrite bs) = False"
| "quiet _ = True"

lemma debt_quiet: "quiet ev \<Longrightarrow> debt a w (ev # h) = debt a w h"
  by (cases ev) simp_all

lemma debt_grows:
  assumes "grows quiet h h'"
  shows "debt a w h' = debt a w h"
proof -
  have "debt a w (new @ h) = debt a w h" if "list_all quiet new" for new
    using that by (induction new) (simp_all add: debt_quiet)
  with assms show ?thesis by (auto simp: grows_def)
qed

lemma grows_mono: "grows P h h' \<Longrightarrow> (\<And>ev. P ev \<Longrightarrow> Q ev) \<Longrightarrow> grows Q h h'"
  unfolding grows_def by (metis list.pred_mono_strong)

lemma quiet_pins: "on_pins ev \<Longrightarrow> quiet ev"
  by (cases ev) simp_all

lemma quiet_spi: "on_spi ev \<Longrightarrow> quiet ev"
  by (cases ev) simp_all

lemma debt_pins: "grows on_pins h h' \<Longrightarrow> debt a w h' = debt a w h"
  by (rule debt_grows) (erule grows_mono, rule quiet_pins)

lemma debt_spi: "spi h h' \<Longrightarrow> debt a w h' = debt a w h"
  by (rule debt_grows) (erule grows_mono, rule quiet_spi)

lemma spi_keeps:
  assumes "spi h h'"
  shows "pwm_on h' = pwm_on h" and "driven h' p = driven h p"
proof -
  have "pwm_on (new @ h) = pwm_on h \<and> driven (new @ h) p = driven h p" if "list_all on_spi new" for new
    using that
  proof (induction new)
    case (Cons ev new)
    then show ?case by (cases ev) simp_all
  qed simp
  with assms show "pwm_on h' = pwm_on h" "driven h' p = driven h p" by (auto simp: grows_def)
qed

lemma turning_spi: "turning all n (m, h) \<Longrightarrow> spi h h' \<Longrightarrow> turning all n (m, h')"
  by (simp add: turning_def spi_keeps)

lemma debt_motor: "debt a w (snd (motor_step ev (m, h))) = debt a w h"
  by (cases ev) (auto simp: motor_step_def HAL_TIM_PWM_PulseFinishedCallback_def pwm_thread_def Let_def
      rt_pin_write_def rt_pwm_disable_def rt_pwm_set_def split: option.split)

lemma debt_low: "debt a w (snd (low_speed (m, h))) = debt a w h"
  by (simp add: low_speed_def Let_def rt_pin_write_def rt_pwm_set_def rt_pwm_enable_def)

section \<open>Sleeping next to the meter\<close>

text \<open>
  What a client of the line keeps while it sleeps: a predicate on what is owed and the parser's
  state that owed characters and periods of the timeout thread preserve.
\<close>

locale meter_contract =
  fixes keeps_up :: "u8 list \<times> nat \<Rightarrow> uart \<Rightarrow> bool"
  assumes char: "keeps_up (c # cs, n) u \<Longrightarrow> \<exists>u'. data_parsing c u = Inr u' \<and> keeps_up (cs, 10) u'"
    and period: "keeps_up (cs, n) u \<Longrightarrow> cs = [] \<or> 1 < n \<Longrightarrow> keeps_up (cs, n - 1) (data_timeout_parsing u)"
begin

lemma background:
  assumes "radio_safe w J" and "J (rf s)" and "serve b p = Some q" and "keeps_up p (meter s)"
  shows "\<exists>s'. background_step w b s = Inr s' \<and> keeps_up q (meter s') \<and> J (rf s') \<and>
    debt a w (hist s') = debt a w (hist s) \<and>
    (\<forall>all n. turning all n (mot s, hist s) \<longrightarrow> n + 1 < 2 ^ 32 \<longrightarrow>
       turning all (n + (if b = MotorStep PwmPulse then 1 else 0)) (mot s', hist s'))"
proof (cases b)
  case (MeterChar c)
  with assms(3) obtain cs n where p: "p = (c # cs, n)" and q: "q = (cs, 10)"
    by (cases p) (auto simp: serve_def split: list.splits if_splits)
  from char [of c cs n "meter s"] assms(4) p obtain u' where "data_parsing c (meter s) = Inr u'" "keeps_up (cs, 10) u'"
    by blast
  with MeterChar assms(2) q show ?thesis by (simp add: background_step_def)
next
  case TimeoutPeriod
  obtain cs n where p: "p = (cs, n)" by (cases p)
  with assms(3) TimeoutPeriod have "cs = [] \<or> 1 < n" "q = (cs, n - 1)"
    by (auto simp: serve_def split: if_splits)
  with period assms(4) p TimeoutPeriod assms(2) show ?thesis by (simp add: background_step_def)
next
  case (MotorStep ev)
  obtain m h where step: "motor_step ev (mot s, hist s) = (m, h)" by (cases "motor_step ev (mot s, hist s)")
  have "J ((rf s)\<lparr>trace := h\<rparr>)" by (rule radio_safe_update [OF assms(1,2)])
  moreover have "debt a w h = debt a w (hist s)" using debt_motor [of a w ev "mot s" "hist s"] by (simp add: step)
  moreover have "turning all (n + (if ev = PwmPulse then 1 else 0)) (m, h)"
    if "turning all n (mot s, hist s)" "n + 1 < 2 ^ 32" for all n
    using that turning_pulse [of all n "(mot s, hist s)"] turning_ramp [of all n "(mot s, hist s)"] step
    by (cases ev) auto
  ultimately show ?thesis
    using MotorStep assms(3,4) by (simp add: background_step_def on_motor_def step serve_def)
next
  case RadioTask
  from assms(1,2) obtain r where r: "rf_4068_task_callback (spi_patience w) (board w) (rf s) = Inr r" "J r"
    unfolding radio_safe_def by blast
  from spi_callback [OF r(1)] have "spi (hist s) (trace r)" .
  with r RadioTask assms(3,4) show ?thesis
    by (auto simp: background_step_def serve_def debt_spi turning_spi)
next
  case RadioTimer
  let ?r = "rf_4068_send_timer_callback (board w) (rf s)"
  have "J ?r" using assms(1,2) by (simp add: radio_safe_def)
  with spi_timer [of "rf s" "board w"] RadioTimer assms(3,4) show ?thesis
    by (auto simp: background_step_def serve_def debt_spi turning_spi)
qed

lemma backgrounds:
  assumes "radio_safe w J" and "J (rf s)" and "serve_all bs p = Some q" and "keeps_up p (meter s)"
  shows "\<exists>s'. fold_r (background_step w) bs s = Inr s' \<and> keeps_up q (meter s') \<and> J (rf s') \<and>
    debt a w (hist s') = debt a w (hist s) \<and>
    (\<forall>all n. turning all n (mot s, hist s) \<longrightarrow> n + count_list bs (MotorStep PwmPulse) + 1 < 2 ^ 32 \<longrightarrow>
       turning all (n + count_list bs (MotorStep PwmPulse)) (mot s', hist s'))"
  using assms(2-4)
proof (induction bs arbitrary: s p)
  case Nil
  then show ?case by simp
next
  case (Cons b bs)
  from Cons.prems(2) obtain p1 where p1: "serve b p = Some p1" "serve_all bs p1 = Some q"
    by (auto split: option.splits)
  from background [OF assms(1) Cons.prems(1) p1(1) Cons.prems(3), of a] obtain s1 where s1:
    "background_step w b s = Inr s1" "keeps_up p1 (meter s1)" "J (rf s1)"
    "debt a w (hist s1) = debt a w (hist s)"
    "\<And>all n. turning all n (mot s, hist s) \<Longrightarrow> n + 1 < 2 ^ 32 \<Longrightarrow>
       turning all (n + (if b = MotorStep PwmPulse then 1 else 0)) (mot s1, hist s1)" by blast
  from Cons.IH [OF s1(3) p1(2) s1(2)] obtain s2 where s2:
    "fold_r (background_step w) bs s1 = Inr s2" "keeps_up q (meter s2)" "J (rf s2)"
    "debt a w (hist s2) = debt a w (hist s1)"
    "\<And>all n. turning all n (mot s1, hist s1) \<Longrightarrow> n + count_list bs (MotorStep PwmPulse) + 1 < 2 ^ 32 \<Longrightarrow>
       turning all (n + count_list bs (MotorStep PwmPulse)) (mot s2, hist s2)" by blast
  have "turning all (n + count_list (b # bs) (MotorStep PwmPulse)) (mot s2, hist s2)"
    if "turning all n (mot s, hist s)" "n + count_list (b # bs) (MotorStep PwmPulse) + 1 < 2 ^ 32" for all n
    using s1(5) [OF that(1)] s2(5) [of all "n + (if b = MotorStep PwmPulse then 1 else 0)"] that(2)
    by (auto split: if_splits)
  with s1(1,4) s2(1-4) show ?case by simp
qed

lemma sleeping:
  assumes "answering a w" and "radio_safe w J" and "J (rf s)" and "keeps_up (debt a w (hist s)) (meter s)"
    and "MS s \<noteq> 11"
  shows "\<exists>s' q. sleep w ms s = Inr s' \<and> keeps_up q (meter s') \<and> J (rf s') \<and> view s' = view s \<and>
    debt a w (hist s') = q \<and> serve_all (meanwhile w (Delay ms # hist s)) (debt a w (hist s)) = Some q \<and>
    (\<forall>all n. turning all n (mot s, hist s) \<longrightarrow> n < 2 ^ 31 \<longrightarrow>
       turning all (n + count_list (meanwhile w (Delay ms # hist s)) (MotorStep PwmPulse)) (mot s', hist s'))"
proof -
  let ?s = "on_hist (rt_thread_mdelay ms) s"
  let ?bs = "meanwhile w (Delay ms # hist s)"
  have s: "meter ?s = meter s" "mot ?s = mot s" "hist ?s = Delay ms # hist s" "rf ?s = (rf s)\<lparr>trace := Delay ms # hist s\<rparr>"
    by (simp_all add: on_hist_def rt_thread_mdelay_def)
  from assms(1) obtain q where q: "serve_all ?bs (debt a w (hist s)) = Some q"
    and few: "count_list ?bs (MotorStep PwmPulse) < 2 ^ 31"
    by (fastforce simp: answering_def Let_def)
  have "J (rf ?s)" by (simp add: s radio_safe_update [OF assms(2,3)])
  from backgrounds [OF assms(2) this q, of a] assms(4) s obtain s' where s':
    "fold_r (background_step w) ?bs ?s = Inr s'" "keeps_up q (meter s')" "J (rf s')"
    "debt a w (hist s') = debt a w (Delay ms # hist s)"
    "\<And>all n. turning all n (mot s, Delay ms # hist s) \<Longrightarrow> n + count_list ?bs (MotorStep PwmPulse) + 1 < 2 ^ 32 \<Longrightarrow>
       turning all (n + count_list ?bs (MotorStep PwmPulse)) (mot s', hist s')" by auto
  have run: "sleep w ms s = Inr s'" using s'(1) by (simp add: sleep_def Let_def s)
  have "debt a w (hist s') = q" by (simp add: s'(4) q)
  moreover have "turning all (n + count_list ?bs (MotorStep PwmPulse)) (mot s', hist s')"
    if "turning all n (mot s, hist s)" "n < 2 ^ 31" for all n
    by (rule s'(5)) (use that few in \<open>simp_all add: turning_def\<close>)
  ultimately show ?thesis
    using run s'(2,3) q view_sleep [OF run assms(5)] by blast
qed

end

text \<open>Nothing is owed: periods do not touch the arrays.\<close>

definition idle :: "u8 list \<times> nat \<Rightarrow> uart \<Rightarrow> bool" where
  "idle p u \<longleftrightarrow> fst p = [] \<and> length (data u) = 100 \<and> length (fs_data u) = 40"

interpretation idle: meter_contract idle
  by unfold_locales (auto simp: idle_def data_timeout_parsing_def Let_def)

text \<open>An answer is on its way: what is left of it completes the frame that is being collected.\<close>

definition collects :: "u8 list \<Rightarrow> uart \<Rightarrow> bool" where
  "collects cs v \<longleftrightarrow> length (data v) = 100 \<and> unat (data_len v) + length cs = unat (data_end v) \<and>
     unat (data_end v) \<le> 100 \<and>
     (\<exists>pre tail. length pre = unat (data_len v) \<and>
        pre @ cs = [byte CHR ''@'', byte CHR ''A'', uart_commend v] @ tail)"

lemma collects_takes:
  assumes "collects (c # cs) v"
  shows "(data_len v = 0 \<and> c = byte CHR ''@'') \<or> (data_len v = 1 \<and> c = byte CHR ''A'') \<or>
    3 \<le> data_len v \<or> (data_len v = 2 \<and> c = uart_commend v)"
proof -
  from assms obtain pre tail where pre: "length pre = unat (data_len v)"
    "pre @ c # cs = [byte CHR ''@'', byte CHR ''A'', uart_commend v] @ tail" by (auto simp: collects_def)
  then have c: "c = ([byte CHR ''@'', byte CHR ''A'', uart_commend v] @ tail) ! unat (data_len v)"
    by (metis nth_append_length)
  consider "unat (data_len v) = 0" | "unat (data_len v) = 1" | "unat (data_len v) = 2" | "3 \<le> unat (data_len v)"
    by linarith
  then show ?thesis
  proof cases
    case 1
    then show ?thesis using c by (simp add: unat_eq_0)
  next
    case 2
    then have "data_len v = 1" by (simp add: word_unat_eq_iff)
    then show ?thesis using c by simp
  next
    case 3
    then have "data_len v = 2" by (simp add: word_unat_eq_iff)
    then show ?thesis using c by simp
  qed (simp add: word_le_nat_alt)
qed

lemma collects_char:
  assumes "collects (c # cs) v" and "cs \<noteq> []" and "lags u v"
  shows "\<exists>v'. data_parsing c u = Inr v' \<and> data_parsing c v = Inr v' \<and> collects cs v' \<and> uart_timeot v' = 10"
proof -
  let ?v = "v\<lparr>data := (data v)[unat (data_len v) := c], data_len := data_len v + 1, uart_timeot := 10\<rparr>"
  from assms(1) obtain pre tail where len: "length (data v) = 100"
    "unat (data_len v) + Suc (length cs) = unat (data_end v)" "unat (data_end v) \<le> 100"
    and pre: "length pre = unat (data_len v)" "pre @ c # cs = [byte CHR ''@'', byte CHR ''A'', uart_commend v] @ tail"
    by (auto simp: collects_def)
  have suc: "unat (data_len v + 1) = Suc (unat (data_len v))"
    using len by (simp add: unat_word_ariths)
  have more: "data_len v + 1 \<noteq> data_end v"
    using suc len(2) assms(2) by (cases cs) (auto simp: word_unat_eq_iff)
  have "data_end v \<noteq> 0" using len(2) by auto
  then have dv: "data_parsing c v = Inr ?v"
    using collects_takes [OF assms(1)] len more by (simp add: data_parsing_def)
  from assms(3) obtain x where x: "u = v\<lparr>uart_timeot := x\<rparr>" by (auto simp: lags_def)
  have "data_parsing c u = data_parsing c v"
    using collects_takes [OF assms(1)] \<open>data_end v \<noteq> 0\<close> by (simp add: x data_parsing_def)
  moreover have "collects cs ?v"
  proof -
    have "(pre @ [c]) @ cs = [byte CHR ''@'', byte CHR ''A'', uart_commend ?v] @ tail" using pre(2) by simp
    moreover have "length (pre @ [c]) = unat (data_len ?v)" using pre(1) suc by simp
    ultimately have "\<exists>pre tail. length pre = unat (data_len ?v) \<and>
        pre @ cs = [byte CHR ''@'', byte CHR ''A'', uart_commend ?v] @ tail" by blast
    then show ?thesis using len suc by (simp add: collects_def)
  qed
  ultimately show ?thesis using dv by (intro exI [of _ ?v]) simp
qed

text \<open>\<open>w\<close> is the state the whole answer leads to; it is not waiting any more.\<close>

definition awaits :: "uart \<Rightarrow> u8 list \<times> nat \<Rightarrow> uart \<Rightarrow> bool" where
  "awaits uf p u \<longleftrightarrow> uart_flag uf \<noteq> UART_WAIT \<and>
     (if fst p = [] then lags u uf
      else 1 \<le> snd p \<and> snd p \<le> unat (uart_timeot u) \<and>
        (\<exists>v. lags u v \<and> collects (fst p) v \<and> fold_r data_parsing (fst p) v = Inr uf))"

interpretation awaits: meter_contract "awaits uf" for uf
proof
  fix c cs n u
  assume a: "awaits uf (c # cs, n) u"
  then obtain v where v: "lags u v" "collects (c # cs) v" "fold_r data_parsing (c # cs) v = Inr uf"
    "uart_flag uf \<noteq> UART_WAIT" by (auto simp: awaits_def)
  show "\<exists>u'. data_parsing c u = Inr u' \<and> awaits uf (cs, 10) u'"
  proof (cases "cs = []")
    case True
    with v(3) have "data_parsing c v = Inr uf" by (cases "data_parsing c v") simp_all
    from lags_char [OF v(1) this] True v(4) show ?thesis by (auto simp: awaits_def)
  next
    case False
    from collects_char [OF v(2) False v(1)] obtain v' where v': "data_parsing c u = Inr v'"
      "data_parsing c v = Inr v'" "collects cs v'" "uart_timeot v' = 10" by blast
    with v(3,4) False show ?thesis by (auto simp: awaits_def intro!: exI [of _ v'] exI [of _ v'])
  qed
next
  fix cs n u
  assume a: "awaits uf (cs, n) u" and one: "cs = [] \<or> 1 < n"
  show "awaits uf (cs, n - 1) (data_timeout_parsing u)"
  proof (cases "cs = []")
    case True
    with a have "lags u uf" "uart_flag uf \<noteq> UART_WAIT" by (simp_all add: awaits_def)
    with True lags_period [of u uf] lags_same [of u uf] show ?thesis by (simp add: awaits_def)
  next
    case False
    with a one have n: "1 < n" "n \<le> unat (uart_timeot u)" by (simp_all add: awaits_def)
    then have "1 < uart_timeot u" by (simp add: word_less_nat_alt)
    moreover have "n - 1 \<le> unat (uart_timeot (data_timeout_parsing u))"
      using n by (auto simp: data_timeout_parsing_def Let_def unat_minus_one)
    ultimately show ?thesis using a False n lags_period by (auto simp: awaits_def)
  qed
qed

section \<open>A request and its answer\<close>

text \<open>Periods and characters that are still possible, a bound for the rounds of the waiting loop.\<close>

definition left_over :: "u8 list \<times> nat \<Rightarrow> nat" where
  "left_over p = (if fst p = [] then 0 else snd p + 10 * length (fst p))"

lemma serve_less:
  assumes "serve b p = Some q" and "fst p \<noteq> [] \<longrightarrow> 1 \<le> snd p"
  shows "left_over q \<le> left_over p \<and> (b = TimeoutPeriod \<and> fst p \<noteq> [] \<longrightarrow> left_over q < left_over p) \<and>
    (fst q \<noteq> [] \<longrightarrow> 1 \<le> snd q)"
  using assms by (cases p; cases b) (auto simp: serve_def left_over_def split: list.splits if_splits)

lemma serve_all_less:
  assumes "serve_all bs p = Some q" and "fst p \<noteq> [] \<longrightarrow> 1 \<le> snd p"
  shows "left_over q \<le> left_over p \<and> (TimeoutPeriod \<in> set bs \<and> fst p \<noteq> [] \<longrightarrow> left_over q < left_over p)"
  using assms
proof (induction bs arbitrary: p)
  case (Cons b bs)
  from Cons.prems(1) obtain p1 where p1: "serve b p = Some p1" "serve_all bs p1 = Some q"
    by (auto split: option.splits)
  note less = serve_less [OF p1(1) Cons.prems(2)]
  have "left_over p = 0" if "fst p = []" using that by (simp add: left_over_def)
  moreover have "left_over p1 = 0" if "fst p1 = []" using that by (simp add: left_over_def)
  moreover have "0 < left_over p" if "fst p \<noteq> []" using that by (simp add: left_over_def)
  ultimately show ?case using Cons.IH [OF p1(2)] less by fastforce
qed simp

lemma answer_awaited:
  assumes "answering a w" and "radio_safe w J" and "J (rf s)" and "MS s \<noteq> 11"
    and "awaits uf (debt a w (hist s)) (meter s)" and "uart_timeot uf = 0"
    and "left_over (debt a w (hist s)) \<le> k"
  shows "\<exists>s'. wait_while k w 100 (\<lambda>s. uart_timeot (meter s) \<noteq> 0) s = Inr s' \<and> lags (meter s') uf \<and>
    J (rf s') \<and> view s' = view s \<and> fst (debt a w (hist s')) = []"
  using assms(3-5,7)
proof (induction k arbitrary: s)
  case 0
  then have "fst (debt a w (hist s)) = []" by (auto simp: left_over_def split: if_splits)
  with 0 assms(6) lags_same [of "meter s" uf] show ?case by (simp add: awaits_def)
next
  case (Suc k)
  show ?case
  proof (cases "fst (debt a w (hist s)) = []")
    case True
    with Suc.prems assms(6) lags_same [of "meter s" uf] show ?thesis by (simp add: awaits_def)
  next
    case False
    with Suc.prems(3) have one: "1 \<le> snd (debt a w (hist s))" and t: "uart_timeot (meter s) \<noteq> 0"
      by (auto simp: awaits_def)
    from awaits.sleeping [OF assms(1,2) Suc.prems(1,3,2), of 100] obtain s1 q where s1:
      "sleep w 100 s = Inr s1" "awaits uf q (meter s1)" "J (rf s1)" "view s1 = view s" "debt a w (hist s1) = q"
      "serve_all (meanwhile w (Delay 100 # hist s)) (debt a w (hist s)) = Some q" by blast
    have "TimeoutPeriod \<in> set (meanwhile w (Delay 100 # hist s))"
      using assms(1) by (simp add: answering_def Let_def)
    with serve_all_less [OF s1(6)] one False Suc.prems(4) have "left_over q \<le> k" by fastforce
    moreover have "MS s1 \<noteq> 11" using s1(4) Suc.prems(2) by (metis view_fields(2))
    ultimately obtain s2 where "wait_while k w 100 (\<lambda>s. uart_timeot (meter s) \<noteq> 0) s1 = Inr s2"
      "lags (meter s2) uf" "J (rf s2)" "view s2 = view s1" "fst (debt a w (hist s2)) = []"
      using Suc.IH [of s1] s1(2,3,5) by auto
    with s1(1,4) t show ?thesis by simp
  qed
qed

text \<open>Between the statements of a test: nothing is owed, the arrays and the radio are in order.\<close>

definition at_rest :: "(u8 list \<Rightarrow> u8 list) \<Rightarrow> world \<Rightarrow> (rf_state \<Rightarrow> bool) \<Rightarrow> sys \<Rightarrow> bool" where
  "at_rest a w J s \<longleftrightarrow> idle (debt a w (hist s)) (meter s) \<and> J (rf s)"

lemma at_rest_sent: "at_rest a w J s \<Longrightarrow> length (data (meter s)) = 100 \<and> length (fs_data (meter s)) = 40"
  by (simp add: at_rest_def idle_def)

lemma exchange:
  assumes "answering a w" and "radio_safe w J" and "at_rest a w J s" and "MS s \<noteq> 11"
    and "f (meter s, hist s) = Inr (u, SerialWrite bs # h)" and "40 \<le> unat (uart_timeot u)"
    and "a bs = [byte CHR ''@'', byte CHR ''A'', uart_commend u] @ tail" and "data_len u = 0"
    and "length (a bs) = unat (data_end u)" and "unat (data_end u) \<le> 100" and "length (data u) = 100"
    and "fold_r data_parsing (a bs) u = Inr uf" and "uart_flag uf \<noteq> UART_WAIT" and "uart_timeot uf = 0"
    and "length (data uf) = 100" and "length (fs_data uf) = 40"
  shows "\<exists>s1 s2. on_meter f s = Inr s1 \<and> get_uart_flag w s1 = Inr (uart_flag uf, s2) \<and>
    get_UartData (meter s2) = get_UartData uf \<and> at_rest a w J s2 \<and> view s2 = view s"
proof -
  let ?s1 = "s\<lparr>meter := u, rf := (rf s)\<lparr>trace := SerialWrite bs # h\<rparr>\<rparr>"
  have s1: "on_meter f s = Inr ?s1" by (simp add: on_meter_def assms(5))
  have "J (rf s)" using assms(3) by (simp add: at_rest_def)
  then have J: "J (rf ?s1)" using radio_safe_update [OF assms(2)] by simp
  have "collects (a bs) u"
    using assms(7-11) unfolding collects_def by (intro conjI exI [of _ "[]"] exI [of _ tail]) simp_all
  then have aw: "awaits uf (debt a w (hist ?s1)) (meter ?s1)"
    using assms(6,7,12,13) by (auto simp: awaits_def intro!: exI [of _ u])
  have "left_over (debt a w (hist ?s1)) \<le> 40 + 10 * 100"
    using assms(9,10) by (simp add: left_over_def)
  also have "\<dots> \<le> patience w" using assms(1) by (simp add: answering_def)
  finally have "left_over (debt a w (hist ?s1)) \<le> patience w" .
  from answer_awaited [OF assms(1,2) J _ aw assms(14) this] assms(4) obtain s2 where s2:
    "wait_while (patience w) w 100 (\<lambda>s. uart_timeot (meter s) \<noteq> 0) ?s1 = Inr s2" "lags (meter s2) uf"
    "J (rf s2)" "view s2 = view ?s1" "fst (debt a w (hist s2)) = []" by auto
  have "view ?s1 = view s" by (simp add: view_def)
  moreover have "at_rest a w J s2"
    using s2(3,5) lags_same [OF s2(2)] assms(15,16) by (simp add: at_rest_def idle_def)
  ultimately show ?thesis
    using s1 s2(1,4) lags_same [OF s2(2)] by (simp add: get_uart_flag_def)
qed

lemma SetData_written:
  assumes "my_uart_SetData flag row n (u, h) = Inr (u', h')"
  shows "\<exists>bs. h' = SerialWrite bs # h \<and> bs ! 3 = uart_commend u' \<and>
    (length (fs_data u) = 40 \<longrightarrow> length (fs_data u') = 40)"
  using assms
  by (auto simp: my_uart_SetData_def bind_r_eq_Inr map_r_eq_Inr fs_fill_def Let_def request_frame_def
      split: if_splits)

lemma GetData_written:
  assumes "my_uart_GetData flag kind (u, h) = Inr (u', h')"
  shows "\<exists>bs. h' = SerialWrite bs # h \<and> bs ! 3 = uart_commend u' \<and>
    (length (fs_data u) = 40 \<longrightarrow> length (fs_data u') = 40)"
  using assms
  by (auto simp: my_uart_GetData_def bind_r_eq_Inr map_r_eq_Inr fs_fill_def Let_def request_frame_def
      split: if_splits)

lemma GetData_total:
  assumes "flag < 3" and "length (fs_data u) = 40"
  shows "\<exists>u' h'. my_uart_GetData flag kind (u, h) = Inr (u', h')"
proof -
  from assms(1) have "\<exists>cmd. arr_get MS_Get_Command flag = Inr cmd"
    by (simp add: MS_Get_Command_def)
  then obtain cmd where "arr_get MS_Get_Command flag = Inr cmd" ..
  with assms(2) show ?thesis
    by (simp add: my_uart_GetData_def fs_fill_def Let_def request_frame_def)
qed

text \<open>A setting is accepted.\<close>

lemma setting_exchange:
  assumes "answering (answer x y z) w" and "radio_safe w J" and "at_rest (answer x y z) w J s" and "MS s \<noteq> 11"
    and "\<exists>u' h'. my_uart_SetData flag row n (meter s, hist s) = Inr (u', h')"
  shows "\<exists>s1 s2. on_meter (my_uart_SetData flag row n) s = Inr s1 \<and>
    get_uart_flag w s1 = Inr (UART_READ_OK, s2) \<and> at_rest (answer x y z) w J s2 \<and> view s2 = view s"
proof -
  from assms(5) obtain u h' where sent: "my_uart_SetData flag row n (meter s, hist s) = Inr (u, h')"
    by blast
  note arrays = at_rest_sent [OF assms(3)]
  from SetData_written [OF sent] arrays obtain bs where h': "h' = SerialWrite bs # hist s"
    and bs: "bs ! 3 = uart_commend u" and fs: "length (fs_data u) = 40" by auto
  note st = SetData_state [OF sent]
  then have c: "uart_commend u \<in> {byte CHR ''A'', byte CHR ''E'', byte CHR ''G''}"
    by (auto simp: MS_Set_Command_def less_Suc_eq numeral_3_eq_3)
  then have ans: "answer x y z bs = reply_frame [byte CHR ''A'', uart_commend u, byte CHR ''0'']"
    by (auto simp: answer_def bs Let_def)
  from setting_reply [OF sent, of "[]" "byte CHR ''0''"] arrays obtain uf where
    uf: "fold_r data_parsing (answer x y z bs) u = Inr uf" "uart_timeot uf = 0"
      "uart_flag uf = UART_READ_OK" "length (data uf) = 100" "fs_data uf = fs_data u"
    by (auto simp: ans)
  have frame: "answer x y z bs = [byte CHR ''@'', byte CHR ''A'', uart_commend u] @
      drop 3 (answer x y z bs)" "length (answer x y z bs) = 7"
    by (simp_all add: ans reply_frame_def)
  from exchange [OF assms(1-4), of "my_uart_SetData flag row n" u bs "hist s", OF _ _ frame(1) _ _ _ _ uf(1)]
  show ?thesis
    using frame(2) sent h' st uf fs arrays by (simp add: uart_flags) blast
qed

text \<open>A question is answered with the number of the meter.\<close>

definition answers :: "nat \<Rightarrow> u32 \<Rightarrow> u32 \<Rightarrow> u8 \<Rightarrow> u32" where
  "answers flag x y z =
     (if flag = 0 then x else if flag = 1 then y else flag_bits z [(0x01, 0x01), (0x02, 0x02)])"

lemma question_exchange:
  assumes "answering (answer x y z) w" and "radio_safe w J" and "at_rest (answer x y z) w J s" and "MS s \<noteq> 11"
    and "flag < 3" and "drop_bit 24 x = 0" and "drop_bit 24 y = 0" and "z < 16"
  shows "\<exists>s1 s2. on_meter (my_uart_GetData flag 0) s = Inr s1 \<and>
    get_uart_flag w s1 = Inr (UART_READ_OK, s2) \<and>
    get_UartData (meter s2) = answers flag x y z \<and> at_rest (answer x y z) w J s2 \<and> view s2 = view s"
proof -
  note arrays = at_rest_sent [OF assms(3)]
  from GetData_total [OF assms(5), of "meter s" 0 "hist s"] arrays obtain u h' where
    sent: "my_uart_GetData flag 0 (meter s, hist s) = Inr (u, h')" by auto
  from GetData_written [OF sent] arrays obtain bs where h': "h' = SerialWrite bs # hist s"
    and bs: "bs ! 3 = uart_commend u" and fs: "length (fs_data u) = 40" by auto
  note st = GetData_state [OF sent]
  have len: "length (data (meter s)) = 100" using arrays by simp
  have "\<exists>uf. fold_r data_parsing (answer x y z bs) u = Inr uf \<and> uart_timeot uf = 0 \<and>
      uart_flag uf = UART_READ_OK \<and> get_UartData uf = answers flag x y z \<and>
      length (data uf) = 100 \<and> fs_data uf = fs_data u \<and>
      answer x y z bs = [byte CHR ''@'', byte CHR ''A'', uart_commend u] @ drop 3 (answer x y z bs) \<and>
      length (answer x y z bs) = unat (data_end u) \<and> unat (data_end u) \<le> 100"
  proof (cases "flag = 2")
    case True
    with st have c: "uart_commend u = byte CHR ''I''" and e: "data_end u = 8"
      by (simp_all add: MS_Get_Command_def get_reply_length_def)
    then have ans: "answer x y z bs = reply_frame [byte CHR ''A'', byte CHR ''I'', byte CHR ''0'', number_hex z]"
      by (simp add: answer_def bs)
    with status_reply [OF sent [unfolded True] len, of "[]" z "byte CHR ''0''"] assms(8) True c e
    show ?thesis by (auto simp: answers_def) (simp_all add: reply_frame_def)
  next
    case False
    with assms(5) have f: "flag < 2" by simp
    with st have n: "6 = unat (data_end u) - 6" and e: "data_end u = 12"
      by (auto simp: get_reply_length_def less_2_cases_iff)
    from f have "flag = 0 \<or> flag = 1" by auto
    with st have ans: "answer x y z bs =
        reply_frame ([byte CHR ''A'', uart_commend u] @ hex_digits 6 (answers flag x y z))"
      by (auto simp: answer_def bs MS_Get_Command_def answers_def)
    moreover have "drop_bit (4 * 6) (answers flag x y z) = 0"
      using f assms(6,7) by (auto simp: answers_def less_2_cases_iff)
    moreover have "answer x y z bs = [byte CHR ''@'', byte CHR ''A'', uart_commend u] @ drop 3 (answer x y z bs)"
      "length (answer x y z bs) = 12" by (simp_all add: ans reply_frame_def)
    ultimately show ?thesis
      using reading_reply [OF sent f len _ n, of "[]"] e by auto
  qed
  then obtain uf where uf: "fold_r data_parsing (answer x y z bs) u = Inr uf" "uart_timeot uf = 0"
    "uart_flag uf = UART_READ_OK" "get_UartData uf = answers flag x y z"
    "length (data uf) = 100" "fs_data uf = fs_data u"
    "answer x y z bs = [byte CHR ''@'', byte CHR ''A'', uart_commend u] @ drop 3 (answer x y z bs)"
    "length (answer x y z bs) = unat (data_end u)" "unat (data_end u) \<le> 100" by blast
  from exchange [OF assms(1-4), of "my_uart_GetData flag 0" u bs "hist s", OF _ _ uf(7) _ uf(8,9) _ uf(1)]
  show ?thesis
    using sent h' st uf fs len by (simp add: uart_flags)
qed

section \<open>The statements of a test\<close>

text \<open>A bench with a meter of a number, a reading and a status, and with a radio that gets by.\<close>

definition bench_ok :: "u32 \<Rightarrow> u32 \<Rightarrow> u8 \<Rightarrow> world \<Rightarrow> (rf_state \<Rightarrow> bool) \<Rightarrow> bool" where
  "bench_ok x y z w J \<longleftrightarrow> answering (answer x y z) w \<and> radio_safe w J \<and>
     drop_bit 24 x = 0 \<and> drop_bit 24 y = 0 \<and> z < 16"

text \<open>\<open>passes ok as Q v\<close>: from every state in order that shows \<open>v\<close> the block ends, showing \<open>Q\<close>.\<close>

definition passes :: "(sys \<Rightarrow> bool) \<Rightarrow> sys action list \<Rightarrow> (sys \<Rightarrow> bool) \<Rightarrow> sys \<Rightarrow> bool" where
  "passes ok as Q v \<longleftrightarrow> (\<forall>s. ok s \<longrightarrow> view s = v \<longrightarrow> ends as (\<lambda>s'. Q (view s')) s)"

lemma passes_body:
  "passes ok as Q (view s) \<Longrightarrow> ok s \<Longrightarrow> \<exists>s'. body as s = Inr s' \<and> Q (view s')"
  unfolding passes_def by (metis (mono_tags, lifting) ends_body)

lemma passes_nil: "Q v \<Longrightarrow> passes ok [] Q v"
  by (simp add: passes_def ends_nil)

lemma passes_fail: "Q ((set_MS 4 v)\<lparr>MS_error := code\<rparr>) \<Longrightarrow> passes ok (fail_test code @ as) Q v"
  by (simp add: passes_def ends_fail)

lemma passes_call:
  assumes "\<And>s. ok s \<Longrightarrow> view s = v \<Longrightarrow> \<exists>s'. f s = Inr s' \<and> ok s' \<and> view s' = v'"
    and "passes ok as Q v'"
  shows "passes ok (do_call f # as) Q v"
  using assms unfolding passes_def ends_call by metis

lemma passes_set:
  assumes "\<And>s. view (f s) = f (view s)" and "\<And>s. meter (f s) = meter s" and "\<And>s. rf (f s) = rf s"
    and "passes (at_rest a w J) as Q (f v)"
  shows "passes (at_rest a w J) (do_set f # as) Q v"
  using assms by (simp add: passes_def ends_set at_rest_def)

lemma at_rest_drawn:
  assumes "radio_safe w J" and "at_rest a w J s" and "grows on_pins (hist s) h"
  shows "at_rest a w J (s\<lparr>rf := (rf s)\<lparr>trace := h\<rparr>\<rparr>)"
  using assms radio_safe_update(1) [OF assms(1), of "rf s" h] by (simp add: at_rest_def debt_pins)

lemma drawn:
  assumes "radio_safe w J" and "at_rest a w J s" and "f (hist s) = Inr h" and "grows on_pins (hist s) h"
  shows "\<exists>s'. on_hist_r f s = Inr s' \<and> at_rest a w J s' \<and> view s' = view s"
  using at_rest_drawn [OF assms(1,2,4)] assms(3) by (simp add: on_hist_r_def view_def)

lemma passes_fixed:
  assumes "radio_safe w J" and "line_ok zf (zf ! 0)" and "passes (at_rest a w J) as Q v"
  shows "passes (at_rest a w J) (show_fixed y l zf shade # as) Q v"
  unfolding show_fixed_def show_list_def
proof (rule passes_call [OF _ assms(3)])
  fix s
  assume ok: "at_rest a w J s" "view s = v"
  from assms(2) have get: "arr_get zf 0 = Inr (zf ! 0)"
    by (intro arr_get_in) (auto simp: line_ok_def)
  obtain h where h: "lcd_show y l zf (zf ! 0) (shade s) (hist s) = Inr h"
    using lcd_show_total [OF assms(2)] by blast
  from drawn [where f = "lcd_show y l zf (zf ! 0) (shade s)", OF assms(1) ok(1) h pins_lcd_show [OF h]] ok(2)
  show "\<exists>s'. bind_r (Inr zf) (\<lambda>zf. bind_r (arr_get zf 0) (\<lambda>len.
      on_hist_r (lcd_show y l zf len (shade s)) s)) = Inr s' \<and> at_rest a w J s' \<and> view s' = v"
    by (simp add: get)
qed

lemma passes_text:
  assumes "radio_safe w J" and "passes (at_rest a w J) as Q v"
  shows "passes (at_rest a w J) (show_text y l t # as) Q v"
  unfolding show_text_def
proof (rule passes_call [OF _ assms(2)])
  fix s
  assume ok: "at_rest a w J s" "view s = v"
  obtain h where h: "lcd_show_zf y l (bytes t) (hist s) = Inr h"
    using lcd_show_zf_total by blast
  from drawn [where f = "lcd_show_zf y l (bytes t)", OF assms(1) ok(1) h pins_lcd_show_zf [OF h]] ok(2)
  show "\<exists>s'. on_hist_r (lcd_show_zf y l (bytes t)) s = Inr s' \<and> at_rest a w J s' \<and> view s' = v" by simp
qed

lemma rest_sleep:
  assumes "answering a w" and "radio_safe w J" and "at_rest a w J s" and "MS s \<noteq> 11"
  shows "\<exists>s'. sleep w ms s = Inr s' \<and> at_rest a w J s' \<and> view s' = view s \<and>
    (\<forall>all n. turning all n (mot s, hist s) \<longrightarrow> n < 2 ^ 31 \<longrightarrow>
       turning all (n + count_list (meanwhile w (Delay ms # hist s)) (MotorStep PwmPulse)) (mot s', hist s'))"
proof -
  have "J (rf s)" "idle (debt a w (hist s)) (meter s)" using assms(3) by (simp_all add: at_rest_def)
  from idle.sleeping [OF assms(1,2) this assms(4), of ms] show ?thesis
    by (auto simp: at_rest_def)
qed

lemma passes_delay:
  assumes "answering a w" and "radio_safe w J" and "MS v \<noteq> 11" and "passes (at_rest a w J) as Q v"
  shows "passes (at_rest a w J) (delay w ms # as) Q v"
  unfolding delay_def
proof (rule passes_call [OF _ assms(4)])
  fix s
  assume "at_rest a w J s" and v: "view s = v"
  moreover from v assms(3) have "MS s \<noteq> 11" by (metis view_fields(2))
  ultimately show "\<exists>s'. sleep w ms s = Inr s' \<and> at_rest a w J s' \<and> view s' = v"
    using rest_sleep [OF assms(1,2)] by blast
qed

text \<open>The motor's run: started, driven pulse by pulse, waited for.\<close>

lemma motor_awaited:
  assumes "answering a w" and "radio_safe w J" and "at_rest a w J s" and "MS s \<noteq> 11"
    and "turning MS1_SPEED_ALL n (mot s, hist s)" and "192000 \<le> n + k" and "n < 2 ^ 31 + 192000"
  shows "\<exists>s'. wait_while k w 20 (\<lambda>s. stepper_number (mot s) < speed_all (mot s)) s = Inr s' \<and>
    at_rest a w J s' \<and> view s' = view s"
  using assms(3-7)
proof (induction k arbitrary: s n)
  case 0
  then have "\<not> stepper_number (mot s) < speed_all (mot s)"
    by (simp add: turning_def word_less_nat_alt speeds)
  with 0 show ?case by auto
next
  case (Suc k)
  show ?case
  proof (cases "stepper_number (mot s) < speed_all (mot s)")
    case False
    with Suc.prems show ?thesis by auto
  next
    case True
    with Suc.prems(3) have n: "n < 192000" by (simp add: turning_def word_less_nat_alt speeds)
    let ?m = "count_list (meanwhile w (Delay 20 # hist s)) (MotorStep PwmPulse)"
    from rest_sleep [OF assms(1,2) Suc.prems(1,2), of 20] obtain s1 where s1:
      "sleep w 20 s = Inr s1" "at_rest a w J s1" "view s1 = view s"
      "\<forall>all n. turning all n (mot s, hist s) \<longrightarrow> n < 2 ^ 31 \<longrightarrow> turning all (n + ?m) (mot s1, hist s1)" by blast
    have t: "turning MS1_SPEED_ALL (n + ?m) (mot s1, hist s1)" using s1(4) Suc.prems(3) n by simp
    have "pwm_on (hist s)" using Suc.prems(3) n by (simp add: turning_def speeds)
    then have m: "?m \<noteq> 0" "?m < 2 ^ 31"
      using assms(1) by (simp_all add: answering_def Let_def count_list_0_iff)
    have "MS s1 \<noteq> 11" using s1(3) Suc.prems(2) by (metis view_fields(2))
    with Suc.IH [OF s1(2) _ t] m n Suc.prems(4) obtain s2 where
      "wait_while k w 20 (\<lambda>s. stepper_number (mot s) < speed_all (mot s)) s1 = Inr s2"
      "at_rest a w J s2" "view s2 = view s1" by auto
    with s1(1,3) True show ?thesis by simp
  qed
qed

lemma passes_motor:
  assumes "answering a w" and "radio_safe w J" and "MS v \<noteq> 11" and "passes (at_rest a w J) as Q v"
  shows "passes (at_rest a w J) (do_set (on_motor low_speed) # do_call (wait_pwm_finish w) # as) Q v"
  unfolding passes_def ends_set
proof (intro allI impI)
  fix s
  assume ok: "at_rest a w J s" "view s = v"
  obtain m h where run: "low_speed (mot s, hist s) = (m, h)" by (cases "low_speed (mot s, hist s)")
  let ?s = "s\<lparr>mot := m, rf := (rf s)\<lparr>trace := h\<rparr>\<rparr>"
  have s1: "on_motor low_speed s = ?s" by (simp add: on_motor_def run)
  have t0: "turning MS1_SPEED_ALL 0 (mot ?s, hist ?s)"
    using turning_low [of "(mot s, hist s)"] by (simp add: run)
  have "debt a w h = debt a w (hist s)" using debt_low [of a w "mot s" "hist s"] by (simp add: run)
  then have rest: "at_rest a w J ?s"
    using ok(1) radio_safe_update(1) [OF assms(2)] by (simp add: at_rest_def)
  have "view ?s = v" using ok(2) by (simp add: view_def)
  then have "MS ?s \<noteq> 11" using assms(3) by (metis view_fields(2))
  moreover have "192000 \<le> 0 + patience w" using assms(1) by (simp add: answering_def)
  ultimately obtain s2 where "wait_pwm_finish w ?s = Inr s2" "at_rest a w J s2" "view s2 = view ?s"
    using motor_awaited [OF assms(1,2) rest _ t0] by (auto simp: wait_pwm_finish_def)
  with assms(4) \<open>view ?s = v\<close>
  show "ends (do_call (wait_pwm_finish w) # as) (\<lambda>s'. Q (view s')) (on_motor low_speed s)"
    by (auto simp: s1 ends_call passes_def)
qed

lemma passes_setting:
  assumes "bench_ok x y z w J" and "MS v \<noteq> 11"
    and "\<And>s. length (fs_data (meter s)) = 40 \<Longrightarrow> view s = v \<Longrightarrow>
      \<exists>zf u' h'. row s = Inr zf \<and> my_uart_SetData flag zf n (meter s, hist s) = Inr (u', h')"
    and "passes (at_rest (answer x y z) w J) as Q v"
  shows "passes (at_rest (answer x y z) w J) (set_meter flag row n # answered w code # as) Q v"
  unfolding passes_def
proof (intro allI impI)
  fix s
  assume ok: "at_rest (answer x y z) w J s" "view s = v"
  from assms(3) [OF _ ok(2)] at_rest_sent [OF ok(1)] obtain zf where zf: "row s = Inr zf"
    and sent: "\<exists>u' h'. my_uart_SetData flag zf n (meter s, hist s) = Inr (u', h')" by blast
  have "MS s \<noteq> 11" using ok(2) assms(2) by (metis view_fields(2))
  with setting_exchange [OF _ _ ok(1) _ sent] assms(1) obtain s1 s2 where
    "on_meter (my_uart_SetData flag zf n) s = Inr s1" "get_uart_flag w s1 = Inr (UART_READ_OK, s2)"
    "at_rest (answer x y z) w J s2" "view s2 = v" using ok(2) by (auto simp: bench_ok_def)
  with assms(4) zf
  show "ends (set_meter flag row n # answered w code # as) (\<lambda>s'. Q (view s')) s"
    by (simp add: set_meter_def answered_def ends_rules value_of_def passes_def)
qed

lemma passes_question:
  assumes "bench_ok x y z w J" and "MS v \<noteq> 11" and "chosen v = 0" and "flag < 3"
    and "passes (at_rest (answer x y z) w J) (k (answers flag x y z) @ as) Q
      (v\<lparr>readings := answers flag x y z # readings v\<rparr>)"
  shows "passes (at_rest (answer x y z) w J) (ask_meter flag # answered w code # do_with take_reading k # as) Q v"
  unfolding passes_def
proof (intro allI impI)
  fix s
  assume ok: "at_rest (answer x y z) w J s" "view s = v"
  have "MS s \<noteq> 11" using ok(2) assms(2) by (metis view_fields(2))
  with question_exchange [OF _ _ ok(1) _ assms(4)] assms(1) obtain s1 s2 where ex:
    "on_meter (my_uart_GetData flag 0) s = Inr s1" "get_uart_flag w s1 = Inr (UART_READ_OK, s2)"
    "get_UartData (meter s2) = answers flag x y z" "at_rest (answer x y z) w J s2" "view s2 = v"
    using ok(2) by (auto simp: bench_ok_def)
  have c: "chosen s = 0" using ok(2) assms(3) by auto
  let ?s = "s2\<lparr>readings := answers flag x y z # readings s2\<rparr>"
  have "at_rest (answer x y z) w J ?s" using ex(4) by (simp add: at_rest_def)
  moreover have "view ?s = v\<lparr>readings := answers flag x y z # readings v\<rparr>" using ex(5) by auto
  ultimately have "ends (k (answers flag x y z) @ as) (\<lambda>s'. Q (view s')) ?s"
    using assms(5) unfolding passes_def by blast
  then show "ends (ask_meter flag # answered w code # do_with take_reading k # as) (\<lambda>s'. Q (view s')) s"
    by (simp add: ask_meter_def answered_def ends_rules value_of_def c ex take_reading_def Let_def)
qed

text \<open>The verdict the tester should come to about a meter that answers.\<close>

definition meter_verdict :: "u32 \<Rightarrow> u32 \<Rightarrow> u32 \<Rightarrow> u8 \<Rightarrow> u8" where
  "meter_verdict entered number reading status =
     (if entered \<noteq> number then MSID_ERROR
      else if reading \<noteq> 3 then MSV_ERROR
      else if status AND 0x02 \<noteq> 0 then MSV_INTERFERENCE
      else if status AND 0x01 \<noteq> 0 then LOW_POWER
      else 0)"

lemma status_of_digit:
  "status_verdict0 (answers 2 x y z) =
     (if z AND 0x02 \<noteq> 0 then MSV_INTERFERENCE else if z AND 0x01 \<noteq> 0 then LOW_POWER else 0)"
  by (auto simp: answers_def flag_bits_def status_verdict0_def)

lemma SetTime_total:
  assumes "length row = 10" and "length (fs_data u) = 40"
  shows "\<exists>u' h'. my_uart_SetData 2 row 6 (u, h) = Inr (u', h')"
  using assms
  by (simp add: my_uart_SetData_def clock_number_def Let_def MS_Set_Command_def fs_fill_def request_frame_def)

lemma passes_settings:
  assumes "bench_ok x y z w J" and "MS v \<noteq> 11"
    and "\<exists>row. row_of_choice v = Inr row \<and> 6 < length row" and "length (zf_list7 v) = 7"
    and "length (zf_list8 v) = 10" and "passes (at_rest (answer x y z) w J) as Q v"
  shows "passes (at_rest (answer x y z) w J) (write_settings w 6 200 @ as) Q v"
proof -
  have row: "\<exists>zf u' h'. row_of_choice s = Inr zf \<and> my_uart_SetData 0 zf 6 (meter s, hist s) = Inr (u', h')"
    if "length (fs_data (meter s)) = 40" "view s = v" for s
  proof -
    from assms(3) that obtain zf where "row_of_choice s = Inr zf" "6 < length zf" by auto
    with that SetData_total [of 6 zf 0 "meter s" "hist s"] show ?thesis by auto
  qed
  have reading: "\<exists>zf u' h'. Inr (zf_list7 s) = (Inr zf :: u8 list result) \<and>
      my_uart_SetData 1 zf 6 (meter s, hist s) = Inr (u', h')"
    if "length (fs_data (meter s)) = 40" "view s = v" for s
    using that assms(4) SetData_total [of 6 "zf_list7 s" 1 "meter s" "hist s"] by auto
  have clock: "\<exists>zf u' h'. Inr (zf_list8 s) = (Inr zf :: u8 list result) \<and>
      my_uart_SetData 2 zf 6 (meter s, hist s) = Inr (u', h')"
    if "length (fs_data (meter s)) = 40" "view s = v" for s
    using that assms(5) SetTime_total [of "zf_list8 s" "meter s" "hist s"] by auto
  have w: "answering (answer x y z) w" "radio_safe w J" using assms(1) by (simp_all add: bench_ok_def)
  show ?thesis
    unfolding write_settings_def append.simps
    by (intro passes_setting [OF assms(1,2)] row reading clock passes_delay [OF w assms(2)] assms(6)) simp_all
qed

lemma passes_value:
  assumes "\<And>s. f (view s) = f s" and "f v = Inr x" and "passes ok (k x @ as) Q v"
  shows "passes ok (do_with (value_of f) k # as) Q v"
  unfolding passes_def
proof (intro allI impI)
  fix s
  assume ok: "ok s" "view s = v"
  from assms(1) [of s] ok(2) assms(2) have "f s = Inr x" by simp
  with ok assms(3) show "ends (do_with (value_of f) k # as) (\<lambda>s'. Q (view s')) s"
    by (simp add: ends_with value_of_def passes_def)
qed

lemma passes_split:
  "(c \<Longrightarrow> passes ok (as @ cs) Q v) \<Longrightarrow> (\<not> c \<Longrightarrow> passes ok (bs @ cs) Q v) \<Longrightarrow>
     passes ok ((if c then as else bs) @ cs) Q v"
  by simp

text \<open>Setting the screen number writes into the record that also holds the history.\<close>

lemma at_rest_screen: "radio_safe w J \<Longrightarrow> at_rest a w J s \<Longrightarrow> at_rest a w J (set_MS m s)"
  using radio_safe_update(2) [of w J "rf s" m] by (simp add: at_rest_def set_MS_def)

lemma passes_screen:
  assumes "radio_safe w J" and "passes (at_rest a w J) as Q (set_MS m v)"
  shows "passes (at_rest a w J) (do_set (set_MS m) # as) Q v"
  using assms(2) at_rest_screen [OF assms(1)] by (simp add: passes_def ends_set)

lemma fixed_lines:
  "line_ok zf_list9 (zf_list9 ! 0)" "line_ok zf_list10 (zf_list10 ! 0)" "line_ok zf_list11 (zf_list11 ! 0)"
  by code_simp+

lemma passes_passed:
  assumes "radio_safe w J" and "Q ((set_MS 5 v)\<lparr>thread_time := 0\<rparr>)"
  shows "passes (at_rest a w J) test_passed Q v"
  unfolding test_passed_def
  by (intro passes_screen passes_set passes_fixed passes_nil assms) (simp_all add: fixed_lines assms)

text \<open>The three questions of a test, each with its two outcomes.\<close>

lemma passes_check_number:
  assumes "bench_ok x y z w J" and "MS v \<noteq> 11" and "chosen v = 0"
    and "row_of_choice v = Inr row" and "row_number row 6 = Inr n"
    and "n \<noteq> x \<Longrightarrow> Q ((set_MS 4 (v\<lparr>readings := x # readings v\<rparr>))\<lparr>MS_error := MSID_ERROR\<rparr>)"
    and "n = x \<Longrightarrow> passes (at_rest (answer x y z) w J) as Q (v\<lparr>readings := x # readings v\<rparr>)"
  shows "passes (at_rest (answer x y z) w J) (check_number w 6 @ as) Q v"
  unfolding check_number_def append.simps
  using assms
  by (intro passes_question [OF assms(1,2), of 0]) (auto simp: answers_def intro!: passes_value passes_fail)

lemma passes_check_reading:
  assumes "bench_ok x y z w J" and "MS v \<noteq> 11" and "chosen v = 0"
    and "y \<noteq> 3 \<Longrightarrow> Q ((set_MS 4 (v\<lparr>readings := y # readings v, msv_error := ucast (y mod 10)\<rparr>))
      \<lparr>MS_error := MSV_ERROR\<rparr>)"
    and "y = 3 \<Longrightarrow> passes (at_rest (answer x y z) w J) as Q (v\<lparr>readings := y # readings v\<rparr>)"
  shows "passes (at_rest (answer x y z) w J) (check_reading w 3 @ as) Q v"
  unfolding check_reading_def append.simps
  using assms
  by (intro passes_question [OF assms(1,2), of 1]) (auto simp: answers_def intro!: passes_set passes_fail)

lemma passes_check_status:
  assumes "bench_ok x y z w J" and "MS v \<noteq> 11" and "chosen v = 0" and "d = answers 2 x y z"
    and "status_verdict0 d \<noteq> 0 \<Longrightarrow>
      Q ((set_MS 4 (v\<lparr>readings := d # readings v\<rparr>))\<lparr>MS_error := status_verdict0 d\<rparr>)"
    and "status_verdict0 d = 0 \<Longrightarrow> passes (at_rest (answer x y z) w J) as Q (v\<lparr>readings := d # readings v\<rparr>)"
  shows "passes (at_rest (answer x y z) w J) (check_status w status_verdict0 @ as) Q v"
  unfolding check_status_def append.simps
  using assms
  by (intro passes_question [OF assms(1,2), of 2]) (auto intro!: passes_fail)

lemma passes_rewrite:
  assumes "bench_ok x y z w J" and "MS v \<noteq> 11" and "length (zf_list7 v) = 7"
    and "passes (at_rest (answer x y z) w J) as Q v"
  shows "passes (at_rest (answer x y z) w J) (set_meter 1 (\<lambda>s. Inr (zf_list7 s)) 6 # answered w code # as) Q v"
proof (rule passes_setting [OF assms(1,2) _ assms(4)])
  fix s
  assume "length (fs_data (meter s)) = 40" "view s = v"
  moreover from this assms(3) have "length (zf_list7 s) = 7" by auto
  ultimately show "\<exists>zf u' h'. Inr (zf_list7 s) = (Inr zf :: u8 list result) \<and>
      my_uart_SetData 1 zf 6 (meter s, hist s) = Inr (u', h')"
    using SetData_total [of 6 "zf_list7 s" 1 "meter s" "hist s"] by auto
qed

lemma answering_meter_run:
  assumes "bench_ok number reading status w J" and "at_rest (answer number reading status) w J s"
    and "MS s \<noteq> 11" and "chosen s = 0"
    and "row_of_choice s = Inr row" and "6 < length row" and "row_number row 6 = Inr entered"
    and "length (zf_list7 s) = 7" and "length (zf_list8 s) = 10"
    and "verdict = meter_verdict entered number reading status"
  shows "\<exists>s'. MS_thread_test0 w s = Inr s' \<and>
    (if verdict = 0 then MS s' = 5 \<and> MS_error s' = MS_error s
     else MS s' = 4 \<and> MS_error s' = verdict)"
proof -
  let ?Q = "\<lambda>s'. if verdict = 0 then MS s' = 5 \<and> MS_error s' = MS_error s
     else MS s' = 4 \<and> MS_error s' = verdict"
  note ok = assms(1)
  have w: "answering (answer number reading status) w" "radio_safe w J"
    using ok by (simp_all add: bench_ok_def)
  note verdict = assms(10) [unfolded meter_verdict_def]
  have "passes (at_rest (answer number reading status) w J) (write_settings w 6 200 @
      [show_fixed 2 0 zf_list9 (\<lambda>_. 0), show_fixed 4 0 zf_list10 (\<lambda>_. 0), show_text 4 80 ''  '',
       do_set (on_motor low_speed), do_call (wait_pwm_finish w),
       show_fixed 4 0 zf_list10 (\<lambda>_. 0), show_fixed 6 0 zf_list11 (\<lambda>_. 0), show_text 6 80 ''  '',
       delay w 800] @ check_number w 6 @
      [delay w 800] @ check_reading w 3 @
      [delay w 200] @ check_status w status_verdict0 @
      [delay w 200, set_meter 1 (\<lambda>s. Inr (zf_list7 s)) 6, answered w WRITE_ERROR1] @
      test_passed) ?Q (view s)"
    unfolding append.simps
    using assms(3-9) verdict
    by (intro passes_settings [OF ok] passes_check_number [OF ok] passes_check_reading [OF ok]
        passes_check_status [OF ok _ _ refl] passes_fixed [OF w(2)] passes_text [OF w(2)]
        passes_motor [OF w] passes_delay [OF w] passes_rewrite [OF ok] passes_passed [OF w(2)] fixed_lines)
      (auto simp: status_of_digit error_codes split: if_splits)
  from passes_body [OF this assms(2)] show ?thesis
    unfolding MS_thread_test0_def by (simp only: view_fields)
qed


section \<open>A slow meter\<close>

text \<open>
  One character in each sleep, one pulse, a round of the ramp, and the radio called each time; the
  timeout thread always gets in first.
\<close>

fun pieces_left :: "(u8 list \<Rightarrow> u8 list) \<Rightarrow> history \<Rightarrow> u8 list" where
  "pieces_left a [] = []"
| "pieces_left a (SerialWrite bs # h) = a bs"
| "pieces_left a (Delay ms # h) = tl (pieces_left a h)"
| "pieces_left a (_ # h) = pieces_left a h"

definition slow_sleep :: "u8 list \<Rightarrow> background list" where
  "slow_sleep cs = [TimeoutPeriod] @ map MeterChar (take 1 cs) @
     [MotorStep PwmPulse, MotorStep RampRun, RadioTask, RadioTimer]"

definition slow_world :: "(u8 list \<Rightarrow> u8 list) \<Rightarrow> world" where
  "slow_world a =
     \<lparr>board = bench, meanwhile = (\<lambda>h. slow_sleep (pieces_left a (tl h))), patience = 192000,
      spi_patience = 1\<rparr>"

lemma slow_meanwhile: "meanwhile (slow_world a) (ev # h) = slow_sleep (pieces_left a h)"
  by (simp add: slow_world_def)

lemma serve_slow:
  assumes "cs \<noteq> [] \<longrightarrow> 1 < n"
  shows "serve_all (slow_sleep cs) (cs, n) = Some (tl cs, if cs = [] then n - 1 else 10)"
  using assms by (cases cs) (simp_all add: slow_sleep_def serve_def)

lemma debt_slow:
  "fst (debt a (slow_world a) h) = pieces_left a h \<and>
     (pieces_left a h \<noteq> [] \<longrightarrow> 1 < snd (debt a (slow_world a) h))"
proof (induction h)
  case (Cons ev h)
  show ?case
  proof (cases ev)
    case (Delay ms)
    obtain cs n where p: "debt a (slow_world a) h = (cs, n)" by (cases "debt a (slow_world a) h")
    with Cons have cs: "pieces_left a h = cs" "cs \<noteq> [] \<longrightarrow> 1 < n" by auto
    then have "debt a (slow_world a) (ev # h) = (tl cs, if cs = [] then n - 1 else 10)"
      using serve_slow [OF cs(2)] by (simp add: Delay p slow_meanwhile)
    with cs(1) Delay show ?thesis by auto
  qed (use Cons in simp_all)
qed simp

lemma answering_slow: "answering a (slow_world a)"
proof -
  have "serve_all (slow_sleep (pieces_left a h)) (debt a (slow_world a) h) \<noteq> None" for h
    using serve_slow [of "pieces_left a h" "snd (debt a (slow_world a) h)"] debt_slow [of a h]
    by (cases "debt a (slow_world a) h") auto
  moreover have "count_list (slow_sleep cs) (MotorStep PwmPulse) = 1" for cs
    by (cases cs) (simp_all add: slow_sleep_def)
  moreover have "TimeoutPeriod \<in> set (slow_sleep cs)" "MotorStep PwmPulse \<in> set (slow_sleep cs)" for cs
    by (simp_all add: slow_sleep_def)
  ultimately show ?thesis by (simp add: answering_def Let_def slow_meanwhile) (simp add: slow_world_def)
qed

text \<open>On a bench where every register reads 0 the radio waits for ever, before its start or after.\<close>

definition radio_waits :: "rf_state \<Rightarrow> bool" where
  "radio_waits r \<longleftrightarrow> ubRFState (dev r) \<in> {trxstate_off, trxstate_rx}"

lemma bench_registers: "r1 bench a h = (0, SpiRecv [a AND 0x7F] [0] # h)"
  by (simp add: SpiReadSingleAddressRegister_def spi_transfer_def bench_def Let_def)

lemma bench_irq: "\<exists>r'. irq_rx 1 bench r = Inr r' \<and> ubRFState (dev r') = trxstate_rx"
  by (simp add: irq_rx_def ReceiveData_def on_dev_r_def Let_def bench_registers One_nat_def on_dev_eq
      Continuous_phase)

lemma bench_radio: "radio_safe (slow_world a) radio_waits"
proof -
  have "\<exists>r'. rf_4068_task_callback 1 bench r = Inr r' \<and> radio_waits r'" if "radio_waits r" for r
    using that bench_irq [of r] by (auto simp: radio_waits_def rf_4068_task_callback_def)
  moreover have "radio_waits (rf_4068_send_timer_callback bench r)" if "radio_waits r" for r
    using that by (auto simp: radio_waits_def rf_4068_send_timer_callback_def on_dev_eq rf_restart_phase)
  moreover have "radio_waits (r\<lparr>trace := h, thread_MS := m\<rparr>)" if "radio_waits r" for r h m
    using that by (simp add: radio_waits_def)
  ultimately show ?thesis by (simp add: radio_safe_def slow_world_def)
qed

lemma good_start:
  "at_rest a (slow_world a) radio_waits (test_start 0)"
  "length (zf_list7 (test_start 0)) = 7" "length (zf_list8 (test_start 0)) = 10"
  "row_number [6, 101, 102, 103, 104, 105, 106, 100, 100, 100] 6 = Inr 123456"
proof -
  show "row_number [6, 101, 102, 103, 104, 105, 106, 100, 100, 100] 6 = Inr 123456" by code_simp
qed (simp_all add: at_rest_def idle_def radio_waits_def test_start_def sys_boot_def uart_boot_def set_MS_def
    radio_boot_def)

definition slow_meter :: "u32 \<Rightarrow> u32 \<Rightarrow> u8 \<Rightarrow> world" where
  "slow_meter number reading status = slow_world (answer number reading status)"

lemma slow_bench: "bench_ok 123456 3 0 (slow_meter 123456 3 0) radio_waits"
  by (simp add: bench_ok_def slow_meter_def answering_slow bench_radio)

lemma slow_start: "at_rest (answer 123456 3 0) (slow_meter 123456 3 0) radio_waits (test_start 0)"
  by (simp add: slow_meter_def good_start(1))


theorem running_meter_checked_witness:
  "\<exists>s' number status. MS_thread_test0 (slow_meter 123456 3 0) (test_start 0) = Inr s' \<and>
     readings s' = [status, 3, number] \<and> status AND 0x03 = 0"
proof -
  from answering_meter_run [OF slow_bench slow_start _ _ _ _ good_start(4,2,3), of 0] obtain s' where
    "MS_thread_test0 (slow_meter 123456 3 0) (test_start 0) = Inr s'" and "MS s' = 5"
    by (auto simp: meter_verdict_def)
  with running_meter_checked [OF this(1)] show ?thesis by auto
qed

end
