(* ===== verification/Rtt_Ffs.thy ===== *)
theory Rtt_Ffs
  imports Tester_Prelude
begin

text \<open>
  The search for the lowest set bit with which the scheduler finds the most urgent priority: the
  instruction sequence of \<^verbatim>\<open>rt-thread/libcpu/arm/cortex-m4/cpuport.c\<close> (bits reversed, leading zeros
  counted) and the table of \<^verbatim>\<open>rt-thread/src/kservice.c\<close> for processors without it.
\<close>

section \<open>By instructions\<close>

definition rbit :: "u32 \<Rightarrow> u32" where
  "rbit v = horner_sum of_bool 2 (map (\<lambda>i. bit v (31 - i)) [0..<32])"

definition clz :: "u32 \<Rightarrow> nat" where
  "clz v = length (takeWhile (\<lambda>i. \<not> bit v (31 - i)) [0..<32])"

definition rt_ffs :: "u32 \<Rightarrow> nat" where
  "rt_ffs v = (if v = 0 then 0 else clz (rbit v) + 1)"

section \<open>By table\<close>

definition lowest_bit_bitmap :: "nat list" where
  "lowest_bit_bitmap = [
    0, 0, 1, 0, 2, 0, 1, 0, 3, 0, 1, 0, 2, 0, 1, 0,
    4, 0, 1, 0, 2, 0, 1, 0, 3, 0, 1, 0, 2, 0, 1, 0,
    5, 0, 1, 0, 2, 0, 1, 0, 3, 0, 1, 0, 2, 0, 1, 0,
    4, 0, 1, 0, 2, 0, 1, 0, 3, 0, 1, 0, 2, 0, 1, 0,
    6, 0, 1, 0, 2, 0, 1, 0, 3, 0, 1, 0, 2, 0, 1, 0,
    4, 0, 1, 0, 2, 0, 1, 0, 3, 0, 1, 0, 2, 0, 1, 0,
    5, 0, 1, 0, 2, 0, 1, 0, 3, 0, 1, 0, 2, 0, 1, 0,
    4, 0, 1, 0, 2, 0, 1, 0, 3, 0, 1, 0, 2, 0, 1, 0,
    7, 0, 1, 0, 2, 0, 1, 0, 3, 0, 1, 0, 2, 0, 1, 0,
    4, 0, 1, 0, 2, 0, 1, 0, 3, 0, 1, 0, 2, 0, 1, 0,
    5, 0, 1, 0, 2, 0, 1, 0, 3, 0, 1, 0, 2, 0, 1, 0,
    4, 0, 1, 0, 2, 0, 1, 0, 3, 0, 1, 0, 2, 0, 1, 0,
    6, 0, 1, 0, 2, 0, 1, 0, 3, 0, 1, 0, 2, 0, 1, 0,
    4, 0, 1, 0, 2, 0, 1, 0, 3, 0, 1, 0, 2, 0, 1, 0,
    5, 0, 1, 0, 2, 0, 1, 0, 3, 0, 1, 0, 2, 0, 1, 0,
    4, 0, 1, 0, 2, 0, 1, 0, 3, 0, 1, 0, 2, 0, 1, 0]"

definition table_ffs :: "u32 \<Rightarrow> nat result" where
  "table_ffs v =
     (if v = 0 then Inr 0
      else if v AND 0xff \<noteq> 0 then map_r (\<lambda>b. b + 1) (arr_get lowest_bit_bitmap (unat (v AND 0xff)))
      else if v AND 0xff00 \<noteq> 0
      then map_r (\<lambda>b. b + 9) (arr_get lowest_bit_bitmap (unat (drop_bit 8 (v AND 0xff00))))
      else if v AND 0xff0000 \<noteq> 0
      then map_r (\<lambda>b. b + 17) (arr_get lowest_bit_bitmap (unat (drop_bit 16 (v AND 0xff0000))))
      else map_r (\<lambda>b. b + 25) (arr_get lowest_bit_bitmap (unat (drop_bit 24 (v AND 0xff000000)))))"

section \<open>Both find the lowest set bit\<close>

definition lowest_bit :: "u32 \<Rightarrow> nat \<Rightarrow> bool" where
  "lowest_bit v p \<longleftrightarrow> bit v p \<and> (\<forall>q < p. \<not> bit v q)"

lemma lowest_bit_unique: "lowest_bit v p \<Longrightarrow> lowest_bit v q \<Longrightarrow> p = q"
  by (metis lowest_bit_def linorder_neqE_nat)

lemma lowest_bit_exists: "v \<noteq> 0 \<Longrightarrow> \<exists>p < 32. lowest_bit v p"
proof -
  assume "v \<noteq> 0"
  then obtain n where "bit v n" by (auto simp: bit_eq_iff)
  then have "lowest_bit v (LEAST n. bit v n)"
    by (auto simp: lowest_bit_def intro: LeastI dest: not_less_Least)
  moreover from this have "(LEAST n. bit v n) < 32"
    using bit_imp_le_length [of v] by (auto simp: lowest_bit_def)
  ultimately show ?thesis by blast
qed

lemma bit_rbit: "i < 32 \<Longrightarrow> bit (rbit v) i = bit v (31 - i)"
  by (simp add: rbit_def bit_horner_sum_bit_iff)

lemma rt_ffs_lowest: "lowest_bit v p \<Longrightarrow> rt_ffs v = Suc p"
proof -
  assume low: "lowest_bit v p"
  then have p: "p < 32" using bit_imp_le_length [of v p] by (auto simp: lowest_bit_def)
  have rev: "takeWhile (\<lambda>i. \<not> bit (rbit v) (31 - i)) [0..<32] = takeWhile (\<lambda>i. \<not> bit v i) [0..<32]"
    by (intro takeWhile_cong refl) (auto simp: bit_rbit)
  have split: "[0..<32] = [0..<p] @ p # [Suc p..<32]"
    using p by (simp add: upt_conv_Cons [symmetric]) (metis le_add_diff_inverse less_imp_le upt_add_eq_append zero_le)
  have "takeWhile (\<lambda>i. \<not> bit v i) [0..<32] = [0..<p]"
    unfolding split using low by (subst takeWhile_append2) (auto simp: lowest_bit_def)
  then have "clz (rbit v) = p" by (simp only: clz_def rev length_upt)
  moreover have "v \<noteq> 0" using low by (auto simp: lowest_bit_def)
  ultimately show ?thesis by (simp add: rt_ffs_def)
qed

lemma rt_ffs_zero: "rt_ffs 0 = 0"
  by (simp add: rt_ffs_def)

lemma bitmap_all:
  "list_all (\<lambda>(i :: int, b). odd (i div 2 ^ b) \<and> 2 ^ b dvd i) (zip [1..255] (tl lowest_bit_bitmap))"
  by code_simp

lemma bitmap_nth:
  assumes "0 < n" and "n < 256"
  shows "bit n (lowest_bit_bitmap ! n) \<and> (\<forall>q < lowest_bit_bitmap ! n. \<not> bit n q)"
proof -
  let ?b = "lowest_bit_bitmap ! n"
  have len: "length lowest_bit_bitmap = 256" by (simp add: lowest_bit_bitmap_def)
  have "(int n, ?b) = zip [1..255] (tl lowest_bit_bitmap) ! (n - 1)"
    using assms len by (simp add: nth_tl)
  also have "\<dots> \<in> set (zip [1..255] (tl lowest_bit_bitmap))"
    using assms len by (intro nth_mem) simp
  finally have "odd (int n div 2 ^ ?b)" "2 ^ ?b dvd int n"
    using bitmap_all by (auto simp: list_all_iff)
  then have bit: "bit (int n) ?b" and "take_bit ?b (int n) = 0"
    by (simp_all add: bit_iff_odd take_bit_eq_mod)
  then have "\<not> bit (int n) q" if "q < ?b" for q
    using that by (metis bit_0_eq bit_take_bit_iff bot_apply bot_bool_def)
  with bit show ?thesis by (simp add: bit_of_nat_iff_bit)
qed

lemma byte_lowest:
  assumes "\<And>q. bit n q \<longleftrightarrow> q < 8 \<and> bit v (k + q)" and "lowest_bit v p" and "k \<le> p" and "p < k + 8"
  shows "arr_get lowest_bit_bitmap n = Inr (p - k)"
proof -
  have "take_bit 8 n = n" by (rule bit_eqI) (auto simp: bit_take_bit_iff assms(1))
  then have "n < 2 ^ 8" by (metis take_bit_nat_less_exp)
  then have "n < 256" by simp
  have at: "bit n (p - k)" using assms by (auto simp: lowest_bit_def)
  then have "0 < n" by (intro gr0I) auto
  with \<open>n < 256\<close> have b: "bit n (lowest_bit_bitmap ! n)" "\<forall>q < lowest_bit_bitmap ! n. \<not> bit n q"
    using bitmap_nth by blast+
  have "\<not> bit n q" if "q < p - k" for q
    using assms(2) that by (auto simp: assms(1) lowest_bit_def)
  with b at have "lowest_bit_bitmap ! n = p - k" by (metis linorder_neqE_nat)
  with \<open>n < 256\<close> show ?thesis by (simp add: lowest_bit_bitmap_def)
qed

lemma byte_masks:
  "(0xff :: u32) = mask 8" "(0xff00 :: u32) = push_bit 8 (mask 8)"
  "(0xff0000 :: u32) = push_bit 16 (mask 8)" "(0xff000000 :: u32) = push_bit 24 (mask 8)"
  by (simp_all add: mask_eq_exp_minus_1 push_bit_eq_mult)

lemma bit_masked: "k + 8 \<le> 32 \<Longrightarrow> bit (v AND push_bit k (mask 8)) q \<longleftrightarrow> k \<le> q \<and> q < k + 8 \<and> bit v q" for v :: u32
  by (auto simp: bit_simps)
lemma bit_masked0: "bit (v AND mask 8) q \<longleftrightarrow> q < 8 \<and> bit v q" for v :: u32
  by (auto simp: bit_simps)

lemma masked_zero:
  "v AND mask 8 = 0 \<longleftrightarrow> (\<forall>q < 8. \<not> bit v q)"
  "k + 8 \<le> 32 \<Longrightarrow> v AND push_bit k (mask 8) = 0 \<longleftrightarrow> (\<forall>q < k + 8. k \<le> q \<longrightarrow> \<not> bit v q)" for v :: u32
  by (auto simp: bit_eq_iff bit_masked bit_masked0)

text \<open>The table at one of the four bytes, once the lowest bit is known to be in it.\<close>

lemma table_byte:
  assumes "lowest_bit v p" and "k \<le> p" and "p < k + 8" and "k + 8 \<le> 32"
  shows "arr_get lowest_bit_bitmap (unat (drop_bit k (v AND push_bit k (mask 8)))) = Inr (p - k)"
  using assms(1-3)
  by (rule byte_lowest [rotated]) (use assms(4) in \<open>auto simp: bit_simps\<close>)

text \<open>
  The table of \<^verbatim>\<open>kservice.c\<close> and the instructions of \<^verbatim>\<open>cpuport.c\<close> find the same bit of every
  word: the number of the lowest one that is set, counted from 1, and 0 for none.
\<close>

theorem ffs_agree:
  "table_ffs v = Inr (rt_ffs v) \<and> (rt_ffs v = 0 \<longleftrightarrow> v = 0) \<and>
   (\<forall>p. rt_ffs v = Suc p \<longleftrightarrow> lowest_bit v p)"
proof (cases "v = 0")
  case True
  then show ?thesis by (simp add: table_ffs_def rt_ffs_zero lowest_bit_def)
next
  case False
  then obtain p where p: "p < 32" "lowest_bit v p" using lowest_bit_exists by blast
  note ffs = rt_ffs_lowest [OF p(2)]
  have at: "bit v p" "\<And>q. q < p \<Longrightarrow> \<not> bit v q" using p(2) by (auto simp: lowest_bit_def)
  consider "p < 8" | "8 \<le> p" "p < 16" | "16 \<le> p" "p < 24" | "24 \<le> p" by linarith
  then have "table_ffs v = Inr (Suc p)"
  proof cases
    case 1
    with at False table_byte [OF p(2), of 0] show ?thesis
      by (auto simp: table_ffs_def byte_masks masked_zero)
  next
    case 2
    with at False table_byte [OF p(2), of 8] show ?thesis
      by (auto simp: table_ffs_def byte_masks masked_zero)
  next
    case 3
    with at False table_byte [OF p(2), of 16] show ?thesis
      by (auto simp: table_ffs_def byte_masks masked_zero)
  next
    case 4
    with at False p(1) table_byte [OF p(2), of 24] show ?thesis
      by (auto simp: table_ffs_def byte_masks masked_zero)
  qed
  with ffs False p(2) show ?thesis by (auto dest: rt_ffs_lowest)
qed

end
