(* ===== verification/Rtt_Timer.thy ===== *)
theory Rtt_Timer
  imports Tester_Prelude
begin

text \<open>
  The timers of RT-Thread (\<^verbatim>\<open>rt-thread/src/timer.c\<close>, with the one row of
  \<^verbatim>\<open>RT_TIMER_SKIP_LIST_LEVEL\<close> 1): a list ordered by the tick at which a timer is due. Ticks are 32 bit
  and wrap around after 49 days; all comparisons are differences.
\<close>

section \<open>Timers and their lists\<close>

definition RT_TICK_MAX :: u32 where "RT_TICK_MAX = 0xFFFFFFFF"

text \<open>Half of it, rounded down as the code does: the longest time and the horizon of comparisons.\<close>

abbreviation tick_half :: u32 where "tick_half \<equiv> 0x7FFFFFFF"

lemma tick_half: "RT_TICK_MAX div 2 = tick_half"
  by (simp add: RT_TICK_MAX_def)

record timer =
  init_tick :: u32
  timeout_tick :: u32
  activated :: bool
  periodic :: bool
  soft_timer :: bool

definition rt_timer_init :: "u32 \<Rightarrow> bool \<Rightarrow> bool \<Rightarrow> timer" where
  "rt_timer_init time per soft =
     \<lparr>init_tick = time, timeout_tick = 0, activated = False, periodic = per, soft_timer = soft\<rparr>"

text \<open>The two lists and the system tick of \<^verbatim>\<open>clock.c\<close>; a timer is known by its number.\<close>

record clock =
  rt_tick :: u32
  timers :: "nat \<Rightarrow> timer"
  rt_timer_list :: "nat list"
  rt_soft_timer_list :: "nat list"

definition set_timer :: "nat \<Rightarrow> (timer \<Rightarrow> timer) \<Rightarrow> clock \<Rightarrow> clock" where
  "set_timer i f c = c\<lparr>timers := (timers c)(i := f (timers c i))\<rparr>"

definition timer_remove :: "nat \<Rightarrow> clock \<Rightarrow> clock" where
  "timer_remove i c = c\<lparr>rt_timer_list := removeAll i (rt_timer_list c),
     rt_soft_timer_list := removeAll i (rt_soft_timer_list c)\<rparr>"

text \<open>\<^verbatim>\<open>rt_timer_list_next_timeout\<close> says \<^verbatim>\<open>RT_TICK_MAX\<close> for an empty list.\<close>

definition next_timeout :: "nat list \<Rightarrow> clock \<Rightarrow> u32" where
  "next_timeout ts c = (case ts of [] \<Rightarrow> RT_TICK_MAX | t # _ \<Rightarrow> timeout_tick (timers c t))"

text \<open>The place of a timer: behind all that are due before it or at the same tick.\<close>

primrec timer_insert :: "(nat \<Rightarrow> timer) \<Rightarrow> nat \<Rightarrow> nat list \<Rightarrow> nat list" where
  "timer_insert tm i [] = [i]"
| "timer_insert tm i (t # ts) =
     (let d = timeout_tick (tm t) - timeout_tick (tm i)
      in if d \<noteq> 0 \<and> d < RT_TICK_MAX div 2 then i # t # ts else t # timer_insert tm i ts)"

definition rt_timer_start :: "nat \<Rightarrow> clock \<Rightarrow> clock result" where
  "rt_timer_start i c =
     (let c = set_timer i (activated_update (\<lambda>_. False)) (timer_remove i c)
      in if \<not> init_tick (timers c i) < RT_TICK_MAX div 2 then Inl AssertFailed
         else
           let c = set_timer i (\<lambda>t. t\<lparr>timeout_tick := rt_tick c + init_tick t\<rparr>) c;
               c = (if soft_timer (timers c i)
                    then c\<lparr>rt_soft_timer_list := timer_insert (timers c) i (rt_soft_timer_list c)\<rparr>
                    else c\<lparr>rt_timer_list := timer_insert (timers c) i (rt_timer_list c)\<rparr>)
           in Inr (set_timer i (activated_update (\<lambda>_. True)) c))"

text \<open>\<^verbatim>\<open>rt_timer_stop\<close> does nothing for a timer that is not active.\<close>

definition rt_timer_stop :: "nat \<Rightarrow> clock \<Rightarrow> clock" where
  "rt_timer_stop i c =
     (if \<not> activated (timers c i) then c
      else set_timer i (activated_update (\<lambda>_. False)) (timer_remove i c))"

text \<open>\<^verbatim>\<open>rt_timer_control\<close> with \<^verbatim>\<open>RT_TIMER_CTRL_SET_TIME\<close>.\<close>

definition timer_set_time :: "nat \<Rightarrow> u32 \<Rightarrow> clock \<Rightarrow> clock" where
  "timer_set_time i time = set_timer i (init_tick_update (\<lambda>_. time))"

text \<open>The timer the check of the tick interrupt finds due.\<close>

definition due_timer :: "nat list \<Rightarrow> clock \<Rightarrow> nat option" where
  "due_timer ts c =
     (case ts of [] \<Rightarrow> None
      | t # _ \<Rightarrow> if rt_tick c - timeout_tick (timers c t) < RT_TICK_MAX div 2 then Some t else None)"

section \<open>The list is ordered by the time that is left\<close>

text \<open>Ticks until a timer is due; negative for one that should have been handled.\<close>

definition left :: "clock \<Rightarrow> nat \<Rightarrow> int" where
  "left c i = sint (timeout_tick (timers c i) - rt_tick c)"

text \<open>
  \<open>clock_ok low c\<close>: the hard timers are active, each once, ordered, with at least \<open>low\<close> ticks left and at
  most as many as the assertion of \<^verbatim>\<open>rt_timer_start\<close> allows.
\<close>

definition clock_ok :: "int \<Rightarrow> clock \<Rightarrow> bool" where
  "clock_ok low c \<longleftrightarrow> distinct (rt_timer_list c) \<and>
     sorted_wrt (\<lambda>i j. left c i \<le> left c j) (rt_timer_list c) \<and>
     (\<forall>i \<in> set (rt_timer_list c). activated (timers c i) \<and> \<not> soft_timer (timers c i) \<and>
        \<not> periodic (timers c i) \<and> low \<le> left c i \<and> left c i < 2 ^ 31 - 1)"

lemma clock_left: "clock_ok low c \<Longrightarrow> i \<in> set (rt_timer_list c) \<Longrightarrow> low \<le> left c i \<and> left c i < 2 ^ 31 - 1"
  by (simp add: clock_ok_def)

lemma sint_u32: "- (2 ^ 31) \<le> sint w \<and> sint w < 2 ^ 31" for w :: u32
  using sint_greater_eq [of w] sint_less [of w] by simp

lemma sint_diff:
  fixes a b :: u32
  assumes "- (2 ^ 31) \<le> sint a - sint b" and "sint a - sint b < 2 ^ 31"
  shows "sint (a - b) = sint a - sint b"
  using assms by (simp add: sint_word_diff signed_take_bit_int_eq_self)

text \<open>The comparison of \<^verbatim>\<open>rt_timer_start\<close>, for times that are not more than the horizon apart.\<close>

lemma less_half: "w < tick_half \<longleftrightarrow> 0 \<le> sint w \<and> sint w < 2 ^ 31 - 1" for w :: u32
proof (cases "bit w 31")
  case True
  then have "sint w < 0" by (simp add: sint_uint signed_take_bit_negative_iff bit_uint_iff)
  moreover have "\<not> w < tick_half"
  proof
    assume "w < tick_half"
    then have "uint w < 2 ^ 31" by (simp add: word_less_def)
    then have "take_bit 31 (uint w) = uint w" by (simp add: take_bit_int_eq_self)
    then have "\<not> bit (uint w) 31" by (metis bit_take_bit_iff less_irrefl)
    with True show False by (simp add: bit_uint_iff)
  qed
  ultimately show ?thesis by simp
next
  case False
  have "n < 31" if "n < 32" "bit w n" for n
    using that False by (cases "n = 31") auto
  then have "take_bit 31 (uint w) = uint w"
    by (intro bit_eqI) (auto simp: bit_take_bit_iff bit_uint_iff)
  with False have "sint w = uint w"
    by (simp add: sint_uint signed_take_bit_eq_if_positive bit_uint_iff)
  then show ?thesis by (simp add: word_less_def)
qed

lemma sint_small: "w < tick_half \<Longrightarrow> sint w = uint w" for w :: u32
proof -
  assume "w < tick_half"
  then have "uint w < 2 ^ 31" by (simp add: word_less_def)
  moreover have "- (2 ^ 31) \<le> uint w" by (rule order_trans [OF _ uint_ge_0]) simp
  ultimately show ?thesis by (simp add: sint_uint signed_take_bit_int_eq_self)
qed

lemma left_zero: "w \<noteq> 0 \<and> w < tick_half \<longleftrightarrow> 0 < sint w \<and> sint w < 2 ^ 31 - 1" for w :: u32
proof -
  have "sint w = 0 \<longleftrightarrow> w = 0" by (rule signed_eq_0_iff)
  with less_half [of w] show ?thesis by auto
qed

text \<open>The comparison of \<^verbatim>\<open>rt_timer_start\<close> is the one of the times left.\<close>

lemma timeout_diff:
  "timeout_tick (timers c i) - timeout_tick (timers c j) =
     (timeout_tick (timers c i) - rt_tick c) - (timeout_tick (timers c j) - rt_tick c)"
  by simp

lemma later_iff:
  assumes "- 1 \<le> left c i" "left c i < 2 ^ 31 - 1" "0 \<le> left c j" "left c j < 2 ^ 31 - 1"
  shows "(timeout_tick (timers c i) - timeout_tick (timers c j) \<noteq> 0 \<and>
      timeout_tick (timers c i) - timeout_tick (timers c j) < tick_half) \<longleftrightarrow> left c j < left c i"
proof -
  have "sint (timeout_tick (timers c i) - timeout_tick (timers c j)) = left c i - left c j"
    using assms by (simp only: timeout_diff left_def) (subst sint_diff; simp)
  then show ?thesis using assms by (simp only: left_zero) auto
qed

lemma due_iff:
  assumes "- 1 \<le> left c i"
  shows "rt_tick c - timeout_tick (timers c i) < tick_half \<longleftrightarrow> left c i \<le> 0"
proof -
  have "rt_tick c - timeout_tick (timers c i) = 0 - (timeout_tick (timers c i) - rt_tick c)" by simp
  then have "sint (rt_tick c - timeout_tick (timers c i)) = - left c i"
    using assms sint_u32 [of "timeout_tick (timers c i) - rt_tick c"]
    by (simp only: left_def) (subst sint_diff; simp)
  then show ?thesis using assms by (simp only: less_half) auto
qed

text \<open>What the operations leave alone.\<close>

lemma timer_simps [simp]:
  "rt_tick (set_timer i f c) = rt_tick c"
  "rt_timer_list (set_timer i f c) = rt_timer_list c"
  "rt_soft_timer_list (set_timer i f c) = rt_soft_timer_list c"
  "timers (set_timer i f c) = (timers c)(i := f (timers c i))"
  "rt_tick (timer_remove i c) = rt_tick c"
  "timers (timer_remove i c) = timers c"
  "rt_timer_list (timer_remove i c) = removeAll i (rt_timer_list c)"
  by (simp_all add: set_timer_def timer_remove_def)

lemma timer_stop_simps [simp]:
  "rt_tick (rt_timer_stop i c) = rt_tick c"
  "timeout_tick (timers (rt_timer_stop i c) j) = timeout_tick (timers c j)"
  "soft_timer (timers (rt_timer_stop i c) j) = soft_timer (timers c j)"
  "periodic (timers (rt_timer_stop i c) j) = periodic (timers c j)"
  "rt_tick (timer_set_time i n c) = rt_tick c"
  "rt_timer_list (timer_set_time i n c) = rt_timer_list c"
  "timeout_tick (timers (timer_set_time i n c) j) = timeout_tick (timers c j)"
  "soft_timer (timers (timer_set_time i n c) j) = soft_timer (timers c j)"
  "periodic (timers (timer_set_time i n c) j) = periodic (timers c j)"
  "activated (timers (timer_set_time i n c) j) = activated (timers c j)"
  by (simp_all add: rt_timer_stop_def timer_set_time_def)

lemma left_cong: "timeout_tick (timers c' i) = timeout_tick (timers c i) \<Longrightarrow> rt_tick c' = rt_tick c \<Longrightarrow> left c' i = left c i"
  by (simp add: left_def)

lemma left_simps [simp]:
  "left (timer_remove i c) j = left c j" "left (rt_timer_stop i c) j = left c j"
  "left (timer_set_time i n c) j = left c j"
  by (simp_all add: left_def)

lemma stopped_list:
  assumes "clock_ok low c"
  shows "rt_timer_list (rt_timer_stop i c) = removeAll i (rt_timer_list c)"
    and "j \<noteq> i \<Longrightarrow> timers (rt_timer_stop i c) j = timers c j"
  using assms by (auto simp: rt_timer_stop_def clock_ok_def)

lemma clock_ok_removeAll:
  assumes "clock_ok low c" and "rt_timer_list c' = removeAll i (rt_timer_list c)" and "rt_tick c' = rt_tick c"
    and "\<And>j. j \<noteq> i \<Longrightarrow> timers c' j = timers c j"
  shows "clock_ok low c'"
proof -
  have same: "left c' j = left c j" "timers c' j = timers c j" if "j \<in> set (removeAll i (rt_timer_list c))" for j
    using that assms(3,4) by (simp_all add: left_def)
  have sorted: "sorted_wrt (\<lambda>i j. left c i \<le> left c j) (removeAll i (rt_timer_list c))"
    using assms(1) by (simp add: clock_ok_def removeAll_filter_not_eq sorted_wrt_filter)
  have "sorted_wrt (\<lambda>i j. left c' i \<le> left c' j) (removeAll i (rt_timer_list c))"
    by (rule sorted_wrt_mono_rel [OF _ sorted]) (simp only: same)
  moreover have "distinct (removeAll i (rt_timer_list c))"
    using assms(1) by (simp add: clock_ok_def distinct_removeAll)
  moreover have "activated (timers c' j) \<and> \<not> soft_timer (timers c' j) \<and> \<not> periodic (timers c' j) \<and>
      low \<le> left c' j \<and> left c' j < 2 ^ 31 - 1" if "j \<in> set (removeAll i (rt_timer_list c))" for j
    unfolding same [OF that] using that assms(1) by (simp add: clock_ok_def)
  ultimately show ?thesis unfolding clock_ok_def assms(2) by blast
qed

lemma clock_ok_stop: "clock_ok low c \<Longrightarrow> clock_ok low (rt_timer_stop i c)"
  by (rule clock_ok_removeAll [where i = i]) (simp_all add: stopped_list)

lemma clock_ok_remove: "clock_ok low c \<Longrightarrow> clock_ok low (timer_remove i c)"
  by (rule clock_ok_removeAll [where i = i]) simp_all

text \<open>Starting a timer puts it in its place.\<close>

lemma set_timer_insert [simp]: "set (timer_insert tm i ts) = insert i (set ts)"
  by (induction ts) (auto simp: Let_def)

lemma distinct_timer_insert: "i \<notin> set ts \<Longrightarrow> distinct (timer_insert tm i ts) = distinct ts"
  by (induction ts) (auto simp: Let_def)

lemma sorted_timer_insert:
  assumes "sorted_wrt (\<lambda>i j. left c i \<le> left c j) ts"
    and "\<forall>j \<in> set ts. - 1 \<le> left c j \<and> left c j < 2 ^ 31 - 1" and "0 \<le> left c i" "left c i < 2 ^ 31 - 1"
  shows "sorted_wrt (\<lambda>i j. left c i \<le> left c j) (timer_insert (timers c) i ts)"
  using assms(1,2)
proof (induction ts)
  case (Cons t ts)
  then have "(timeout_tick (timers c t) - timeout_tick (timers c i) \<noteq> 0 \<and>
      timeout_tick (timers c t) - timeout_tick (timers c i) < tick_half) \<longleftrightarrow> left c i < left c t"
    using assms(3,4) by (intro later_iff) auto
  with Cons show ?case by (force simp: Let_def tick_half)
qed simp

lemma start_timer:
  assumes "clock_ok low c" and "low \<le> 0" "- 1 \<le> low" and "\<not> soft_timer (timers c i)" "\<not> periodic (timers c i)"
    and "init_tick (timers c i) < tick_half"
  shows "\<exists>c'. rt_timer_start i c = Inr c' \<and> clock_ok low c' \<and> rt_tick c' = rt_tick c \<and>
    set (rt_timer_list c') = insert i (set (rt_timer_list c)) \<and>
    rt_soft_timer_list c' = removeAll i (rt_soft_timer_list c) \<and>
    (\<forall>j. j \<noteq> i \<longrightarrow> timers c' j = timers c j) \<and>
    timers c' i = (timers c i)\<lparr>timeout_tick := rt_tick c + init_tick (timers c i), activated := True\<rparr> \<and>
    left c' i = uint (init_tick (timers c i))"
proof -
  let ?n = "init_tick (timers c i)"
  define tm where "tm = (timers c)(i := (timers c i)\<lparr>activated := False, timeout_tick := rt_tick c + ?n\<rparr>)"
  define c1 where "c1 = (timer_remove i c)\<lparr>timers := tm\<rparr>"
  define c2 where "c2 = c1\<lparr>rt_timer_list := timer_insert tm i (rt_timer_list c1),
    timers := tm(i := (timers c i)\<lparr>timeout_tick := rt_tick c + ?n, activated := True\<rparr>)\<rparr>"
  have f1: "rt_tick c1 = rt_tick c" "rt_timer_list c1 = removeAll i (rt_timer_list c)" "timers c1 = tm"
    "rt_soft_timer_list c1 = removeAll i (rt_soft_timer_list c)"
    by (simp_all add: c1_def timer_remove_def)
  have f2: "rt_tick c2 = rt_tick c" "rt_timer_list c2 = timer_insert tm i (rt_timer_list c1)"
    "rt_soft_timer_list c2 = removeAll i (rt_soft_timer_list c)"
    "timers c2 = tm(i := (timers c i)\<lparr>timeout_tick := rt_tick c + ?n, activated := True\<rparr>)"
    by (simp_all add: c2_def f1)
  have start: "rt_timer_start i c = Inr c2"
    using assms(4,6)
    by (simp add: rt_timer_start_def Let_def tick_half set_timer_def timer_remove_def c2_def c1_def tm_def)
  have n: "sint ?n = uint ?n" "0 \<le> sint ?n \<and> sint ?n < 2 ^ 31 - 1"
    using assms(6) by (rule sint_small, unfold less_half)
  have c1: "clock_ok low c1" by (rule clock_ok_removeAll [OF assms(1), of _ i]) (simp_all add: f1 tm_def)
  have same: "left c2 = left c1" by (auto simp: left_def fun_eq_iff f1 f2 tm_def)
  have at: "left c1 i = uint ?n" using n by (simp add: left_def f1 tm_def)
  have "sorted_wrt (\<lambda>i j. left c1 i \<le> left c1 j) (timer_insert (timers c1) i (rt_timer_list c1))"
    using clock_left [OF c1] c1 n at assms(3)
    by (intro sorted_timer_insert) (auto simp: clock_ok_def intro: order_trans)
  moreover have "low \<le> left c1 i" "left c1 i < 2 ^ 31 - 1"
    using n order_trans [OF assms(2) uint_ge_0] by (simp_all only: at)
  ultimately have "clock_ok low c2"
    using c1 assms(4,5) by (auto simp: clock_ok_def same f2 distinct_timer_insert f1 tm_def)
  then show ?thesis
    using start at by (intro exI [of _ c2]) (auto simp: same f1 f2 tm_def)
qed

text \<open>A tick passes; then the check takes the due timers off the front.\<close>

lemma left_tick:
  assumes "- (2 ^ 31) < left c i"
  shows "left (c\<lparr>rt_tick := rt_tick c + 1\<rparr>) i = left c i - 1"
proof -
  let ?d = "timeout_tick (timers c i) - rt_tick c"
  have "sint (?d - 1) = sint ?d - sint (1 :: u32)"
    by (rule sint_diff) (use assms sint_u32 [of ?d] in \<open>simp_all add: left_def\<close>)
  then show ?thesis by (simp add: left_def diff_diff_add)
qed

lemma clock_ok_tick:
  assumes "clock_ok 0 c"
  shows "clock_ok (- 1) (c\<lparr>rt_tick := rt_tick c + 1\<rparr>)"
proof -
  let ?c = "c\<lparr>rt_tick := rt_tick c + 1\<rparr>"
  have left: "left ?c i = left c i - 1" if "i \<in> set (rt_timer_list c)" for i
    using clock_left [OF assms that] by (intro left_tick) simp
  have "sorted_wrt (\<lambda>i j. left c i \<le> left c j) (rt_timer_list c)" using assms by (simp add: clock_ok_def)
  then have "sorted_wrt (\<lambda>i j. left ?c i \<le> left ?c j) (rt_timer_list c)"
    by (rule sorted_wrt_mono_rel [rotated]) (simp add: left)
  with assms show ?thesis by (auto simp: clock_ok_def left)
qed

lemma clock_ok_weaken: "clock_ok l c \<Longrightarrow> l' \<le> l \<Longrightarrow> clock_ok l' c"
  by (auto simp: clock_ok_def)

lemma due_timer_Some:
  assumes "clock_ok (- 1) c" and "due_timer (rt_timer_list c) c = Some i"
  shows "i \<in> set (rt_timer_list c)" and "left c i \<le> 0"
proof -
  from assms(2) show i: "i \<in> set (rt_timer_list c)"
    by (auto simp: due_timer_def split: list.splits if_splits)
  with assms show "left c i \<le> 0"
    using due_iff [of c i] clock_left [OF assms(1) i]
    by (auto simp: due_timer_def tick_half split: list.splits if_splits)
qed

lemma due_timer_None:
  assumes "clock_ok (- 1) c" and "due_timer (rt_timer_list c) c = None"
  shows "clock_ok 1 c"
proof (cases "rt_timer_list c")
  case Nil
  then show ?thesis by (simp add: clock_ok_def)
next
  case (Cons t ts)
  then have "- 1 \<le> left c t" using assms(1) by (simp add: clock_ok_def)
  with assms(2) Cons have "1 \<le> left c t"
    using due_iff [of c t] by (auto simp: due_timer_def tick_half split: if_splits)
  with assms(1) Cons show ?thesis by (auto simp: clock_ok_def)
qed

end
