(* ===== verification/Rtt_Kernel.thy ===== *)
theory Rtt_Kernel
  imports Rtt_Ffs Rtt_Timer Rtt_Sem
begin

text \<open>
  Threads and their scheduling (\<^verbatim>\<open>rt-thread/src/scheduler.c\<close>, \<^verbatim>\<open>thread.c\<close>, \<^verbatim>\<open>clock.c\<close> and the
  semaphores of \<^verbatim>\<open>ipc.c\<close>, for one processor and 32 priorities as configured). A thread, its timer and a
  semaphore are numbers; the list node of a thread is in at most one list, the row of its priority
  or the waiting list of a semaphore, and \<^verbatim>\<open>rt_list_remove\<close> takes it out of whichever that is.
\<close>

section \<open>Threads\<close>

datatype status = Init | Ready | Suspend | Running | Close

text \<open>\<^verbatim>\<open>stat\<close> is kept as the status and the flag \<^verbatim>\<open>RT_THREAD_STAT_YIELD\<close>; signals are configured out.\<close>

record tcb =
  stat :: status
  stat_yield :: bool
  current_priority :: u8
  init_priority :: u8
  number_mask :: u32
  slice_tick :: u32
  remaining_tick :: u32
  error :: int

definition RT_THREAD_PRIORITY_MAX :: u8 where "RT_THREAD_PRIORITY_MAX = 32"

definition RT_EOK :: int where "RT_EOK = 0"
definition RT_ERROR :: int where "RT_ERROR = 1"
definition RT_ETIMEOUT :: int where "RT_ETIMEOUT = 2"

definition rt_thread_init :: "u8 \<Rightarrow> u32 \<Rightarrow> tcb result" where
  "rt_thread_init prio tick =
     (if \<not> prio < RT_THREAD_PRIORITY_MAX then Inl AssertFailed
      else Inr \<lparr>stat = Init, stat_yield = False, current_priority = prio, init_priority = prio,
        number_mask = 0, slice_tick = tick, remaining_tick = tick, error = RT_EOK\<rparr>)"

record kernel =
  threads :: "nat \<Rightarrow> tcb"
  semas :: "nat \<Rightarrow> semaphore"
  ticker :: clock
  priority_table :: "nat \<Rightarrow> nat list"
  ready_group :: u32
  current_thread :: "nat option"
  lock_nest :: u16

definition on_thread :: "nat \<Rightarrow> (tcb \<Rightarrow> tcb) \<Rightarrow> kernel \<Rightarrow> kernel" where
  "on_thread t f k = k\<lparr>threads := (threads k)(t := f (threads k t))\<rparr>"

definition on_ticker :: "(clock \<Rightarrow> clock) \<Rightarrow> kernel \<Rightarrow> kernel" where
  "on_ticker f k = k\<lparr>ticker := f (ticker k)\<rparr>"

definition on_ticker_r :: "(clock \<Rightarrow> clock result) \<Rightarrow> kernel \<Rightarrow> kernel result" where
  "on_ticker_r f k = map_r (\<lambda>c. k\<lparr>ticker := c\<rparr>) (f (ticker k))"

definition on_sema :: "nat \<Rightarrow> (semaphore \<Rightarrow> semaphore) \<Rightarrow> kernel \<Rightarrow> kernel" where
  "on_sema s f k = k\<lparr>semas := (semas k)(s := f (semas k s))\<rparr>"

abbreviation stat_of :: "kernel \<Rightarrow> nat \<Rightarrow> status" where "stat_of k t \<equiv> stat (threads k t)"
abbreviation prio_of :: "kernel \<Rightarrow> nat \<Rightarrow> nat" where "prio_of k t \<equiv> unat (current_priority (threads k t))"

section \<open>Ready lists\<close>

definition rt_list_remove :: "nat \<Rightarrow> kernel \<Rightarrow> kernel" where
  "rt_list_remove t k =
     k\<lparr>priority_table := (\<lambda>p. removeAll t (priority_table k p)),
       semas := (\<lambda>s. (semas k s)\<lparr>suspend_thread := removeAll t (suspend_thread (semas k s))\<rparr>)\<rparr>"

definition rt_schedule_insert_thread :: "nat \<Rightarrow> kernel \<Rightarrow> kernel" where
  "rt_schedule_insert_thread t k =
     (if current_thread k = Some t then on_thread t (stat_update (\<lambda>_. Running)) k
      else
        let k = on_thread t (stat_update (\<lambda>_. Ready)) k; p = prio_of k t
        in k\<lparr>priority_table := (priority_table k)(p := priority_table k p @ [t]),
             ready_group := ready_group k OR number_mask (threads k t)\<rparr>)"

definition rt_schedule_remove_thread :: "nat \<Rightarrow> kernel \<Rightarrow> kernel" where
  "rt_schedule_remove_thread t k =
     (let k = rt_list_remove t k
      in if priority_table k (prio_of k t) = []
         then k\<lparr>ready_group := ready_group k AND NOT (number_mask (threads k t))\<rparr> else k)"

text \<open>
  \<^verbatim>\<open>rt_schedule\<close>. With no thread ready the current one goes on; a row that is empty although its bit is
  set, or no current thread, is an access through a pointer that points to no thread.
\<close>

definition switch_to :: "nat \<Rightarrow> nat \<Rightarrow> bool \<Rightarrow> kernel \<Rightarrow> kernel" where
  "switch_to from to need_insert k =
     (let k = k\<lparr>current_thread := Some to\<rparr>;
          k = (if need_insert then rt_schedule_insert_thread from k else k);
          k = rt_schedule_remove_thread to k
      in on_thread to (stat_update (\<lambda>_. Running)) k)"

definition rt_schedule :: "kernel \<Rightarrow> kernel result" where
  "rt_schedule k =
     (if lock_nest k \<noteq> 0 \<or> ready_group k = 0 then Inr k
      else
        let highest = rt_ffs (ready_group k) - 1
        in case (current_thread k, priority_table k highest) of
             (None, _) \<Rightarrow> Inl OutOfBounds
           | (_, []) \<Rightarrow> Inl OutOfBounds
           | (Some cur, to # _) \<Rightarrow>
               if stat_of k cur = Running \<and>
                  (prio_of k cur < highest \<or> prio_of k cur = highest \<and> \<not> stat_yield (threads k cur))
               then Inr (on_thread cur (stat_update (\<lambda>_. Running)) (rt_schedule_remove_thread cur k))
               else
                 let k = (if stat_of k cur = Running
                          then on_thread cur (stat_yield_update (\<lambda>_. False)) k else k)
                 in if to \<noteq> cur then Inr (switch_to cur to (stat_of k cur = Running) k)
                    else Inr (on_thread cur (stat_update (\<lambda>_. Running)) (rt_schedule_remove_thread cur k)))"

section \<open>Suspending, resuming, sleeping\<close>

definition rt_thread_suspend :: "nat \<Rightarrow> kernel \<Rightarrow> kernel result" where
  "rt_thread_suspend t k =
     (if stat_of k t \<noteq> Ready \<and> stat_of k t \<noteq> Running then Inr k
      else if stat_of k t = Running \<and> current_thread k \<noteq> Some t then Inl AssertFailed
      else Inr (on_ticker (rt_timer_stop t)
                 (on_thread t (stat_update (\<lambda>_. Suspend)) (rt_schedule_remove_thread t k))))"

definition rt_thread_resume :: "nat \<Rightarrow> kernel \<Rightarrow> kernel" where
  "rt_thread_resume t k =
     (if stat_of k t \<noteq> Suspend then k
      else rt_schedule_insert_thread t (on_ticker (rt_timer_stop t) (rt_list_remove t k)))"

definition rt_thread_startup :: "nat \<Rightarrow> kernel \<Rightarrow> kernel result" where
  "rt_thread_startup t k =
     (if stat_of k t \<noteq> Init then Inl AssertFailed
      else
        let k = on_thread t (\<lambda>th. th\<lparr>current_priority := init_priority th,
              number_mask := push_bit (unat (init_priority th)) 1, stat := Suspend, stat_yield := False\<rparr>) k;
            k = rt_thread_resume t k
        in if current_thread k \<noteq> None then rt_schedule k else Inr k)"

text \<open>
  The part of a blocking call up to the switch to another thread. What follows it runs when the
  thread is chosen again: \<^verbatim>\<open>rt_thread_sleep\<close> then only clears the error number.
\<close>

definition start_thread_timer :: "nat \<Rightarrow> u32 \<Rightarrow> kernel \<Rightarrow> kernel result" where
  "start_thread_timer t tick k = on_ticker_r (rt_timer_start t) (on_ticker (timer_set_time t tick) k)"

definition rt_thread_sleep :: "u32 \<Rightarrow> kernel \<Rightarrow> kernel result" where
  "rt_thread_sleep tick k =
     (case current_thread k of
        None \<Rightarrow> Inl AssertFailed
      | Some t \<Rightarrow>
          bind_r (rt_thread_suspend t k) (\<lambda>k.
          bind_r (start_thread_timer t tick k) rt_schedule))"

text \<open>
  \<^verbatim>\<open>rt_thread_delay_until\<close> with the tick of the last wakeup: it waits the same way, for a time it
  computes; afterwards it stores the tick at which it woke up.
\<close>

definition rt_thread_delay_until :: "u32 \<Rightarrow> u32 \<Rightarrow> kernel \<Rightarrow> kernel result" where
  "rt_thread_delay_until woken inc k =
     (if current_thread k = None then Inl AssertFailed
      else if rt_tick (ticker k) - woken < inc then rt_thread_sleep (rt_tick (ticker k) - woken + inc) k
      else Inr k)"

definition RT_TICK_PER_SECOND :: u32 where "RT_TICK_PER_SECOND = 1000"

definition rt_tick_from_millisecond :: "u32 \<Rightarrow> u32" where
  "rt_tick_from_millisecond ms =
     (if sint ms < 0 then - 1
      else RT_TICK_PER_SECOND * (ms div 1000) + (RT_TICK_PER_SECOND * (ms mod 1000) + 999) div 1000)"

definition thread_mdelay :: "u32 \<Rightarrow> kernel \<Rightarrow> kernel result" where
  "thread_mdelay ms = rt_thread_sleep (rt_tick_from_millisecond ms)"

text \<open>What a thread timer does when it is due.\<close>

definition rt_thread_timeout :: "nat \<Rightarrow> kernel \<Rightarrow> kernel result" where
  "rt_thread_timeout t k =
     (if stat_of k t \<noteq> Suspend then Inl AssertFailed
      else rt_schedule (rt_schedule_insert_thread t
             (rt_list_remove t (on_thread t (error_update (\<lambda>_. - RT_ETIMEOUT)) k))))"

section \<open>The tick\<close>

text \<open>The timers of the first list belong to the threads. The loop ends when none is due.\<close>

primrec rt_timer_check :: "nat \<Rightarrow> kernel \<Rightarrow> kernel result" where
  "rt_timer_check 0 k = Inl OutOfFuel"
| "rt_timer_check (Suc n) k =
     (case due_timer (rt_timer_list (ticker k)) (ticker k) of
        None \<Rightarrow> Inr k
      | Some i \<Rightarrow>
          bind_r (rt_thread_timeout i (on_ticker (timer_remove i) k)) (\<lambda>k.
            let tm = timers (ticker k) i;
                k = on_ticker (set_timer i (activated_update (\<lambda>_. False))) k
            in if periodic tm \<and> activated tm
               then bind_r (on_ticker_r (rt_timer_start i) k) (rt_timer_check n)
               else rt_timer_check n k))"

definition rt_tick_increase :: "nat \<Rightarrow> kernel \<Rightarrow> kernel result" where
  "rt_tick_increase fuel k =
     (let k = on_ticker (\<lambda>c. c\<lparr>rt_tick := rt_tick c + 1\<rparr>) k
      in case current_thread k of
           None \<Rightarrow> Inl OutOfBounds
         | Some t \<Rightarrow>
             let k = on_thread t (\<lambda>th. th\<lparr>remaining_tick := remaining_tick th - 1\<rparr>) k
             in bind_r
                  (if remaining_tick (threads k t) = 0
                   then rt_schedule (on_thread t (\<lambda>th. th\<lparr>remaining_tick := slice_tick th, stat_yield := True\<rparr>) k)
                   else Inr k)
                  (rt_timer_check fuel))"

section \<open>Semaphores\<close>

text \<open>\<^verbatim>\<open>rt_sem_take\<close> by the running thread, up to the switch to another one; a negative time is no limit.\<close>

definition take_semaphore :: "nat \<Rightarrow> u32 \<Rightarrow> kernel \<Rightarrow> kernel result" where
  "take_semaphore s time k =
     (case current_thread k of
        None \<Rightarrow> Inl AssertFailed
      | Some t \<Rightarrow>
          (case rt_sem_take t (time \<noteq> 0) (semas k s) of
             (Suspended, _) \<Rightarrow>
               bind_r (rt_thread_suspend t (on_thread t (error_update (\<lambda>_. RT_EOK)) k)) (\<lambda>k.
                 let k = on_sema s (\<lambda>sm. snd (rt_sem_take t True sm)) k
                 in bind_r (if 0 < sint time then start_thread_timer t time k else Inr k) rt_schedule)
           | (_, sm) \<Rightarrow> Inr (on_sema s (\<lambda>_. sm) k)))"

definition release_semaphore :: "nat \<Rightarrow> kernel \<Rightarrow> kernel result" where
  "release_semaphore s k =
     (let (ts, sm) = rt_sem_release (semas k s);
          k = fold rt_thread_resume ts (on_sema s (\<lambda>_. sm) k)
      in if ts \<noteq> [] then rt_schedule k else Inr k)"

definition reset_semaphore :: "nat \<Rightarrow> u16 \<Rightarrow> kernel \<Rightarrow> kernel result" where
  "reset_semaphore s v k =
     (let (ts, sm) = rt_sem_reset v (semas k s);
          k = on_sema s (\<lambda>_. sm) k
      in rt_schedule
           (fold (\<lambda>t k. rt_thread_resume t (on_thread t (error_update (\<lambda>_. - RT_ERROR)) k)) ts k))"

section \<open>Locking the scheduler\<close>

definition rt_enter_critical :: "kernel \<Rightarrow> kernel" where
  "rt_enter_critical k = k\<lparr>lock_nest := lock_nest k + 1\<rparr>"

definition rt_exit_critical :: "kernel \<Rightarrow> kernel result" where
  "rt_exit_critical k =
     (let k = k\<lparr>lock_nest := lock_nest k - 1\<rparr>
      in if sint (lock_nest k) \<le> 0
         then let k = k\<lparr>lock_nest := 0\<rparr>
              in if current_thread k \<noteq> None then rt_schedule k else Inr k
         else Inr k)"

section \<open>The program's threads and what they do\<close>

abbreviation (input) MAIN :: nat where "MAIN \<equiv> 0"
abbreviation (input) TIMER :: nat where "TIMER \<equiv> 1"
abbreviation (input) IDLE :: nat where "IDLE \<equiv> 2"
abbreviation (input) SERIAL :: nat where "SERIAL \<equiv> 3"
abbreviation (input) TIMEOUT_UART :: nat where "TIMEOUT_UART \<equiv> 4"
abbreviation (input) PWM :: nat where "PWM \<equiv> 5"
abbreviation (input) RF_4068 :: nat where "RF_4068 \<equiv> 6"
abbreviation (input) TSHELL :: nat where "TSHELL \<equiv> 7"

text \<open>Priorities and time slices, in the order of the numbers; the timers are those of the threads.\<close>

definition thread_table :: "(u8 \<times> u32) list" where
  "thread_table = [(10, 20), (4, 10), (31, 32), (11, 10), (12, 10), (5, 10), (8, 10), (20, 10)]"

definition no_thread :: tcb where
  "no_thread = \<lparr>stat = Close, stat_yield = False, current_priority = 0, init_priority = 0,
     number_mask = 0, slice_tick = 0, remaining_tick = 0, error = RT_EOK\<rparr>"

definition created :: "u8 \<times> u32 \<Rightarrow> tcb" where
  "created pt = (case rt_thread_init (fst pt) (snd pt) of Inl _ \<Rightarrow> no_thread | Inr th \<Rightarrow> th)"

definition kernel_cold :: kernel where
  "kernel_cold =
     \<lparr>threads = (\<lambda>t. if t < length thread_table then created (thread_table ! t) else no_thread),
      semas = (\<lambda>_. rt_sem_init 0),
      ticker = \<lparr>rt_tick = 0, timers = (\<lambda>_. rt_timer_init 0 False False), rt_timer_list = [],
        rt_soft_timer_list = []\<rparr>,
      priority_table = (\<lambda>_. []), ready_group = 0, current_thread = None, lock_nest = 0\<rparr>"

definition rt_system_scheduler_start :: "kernel \<Rightarrow> kernel result" where
  "rt_system_scheduler_start k =
     (case priority_table k (rt_ffs (ready_group k) - 1) of
        [] \<Rightarrow> Inl OutOfBounds
      | to # _ \<Rightarrow>
          Inr (on_thread to (\<lambda>th. th\<lparr>stat := Running, stat_yield := False\<rparr>)
                 (rt_schedule_remove_thread to (k\<lparr>current_thread := Some to\<rparr>))))"

text \<open>\<^verbatim>\<open>rtthread_startup\<close>: the main thread, the timer thread, the idle thread, then the scheduler.\<close>

definition rtthread_startup :: "kernel result" where
  "rtthread_startup =
     bind_r (rt_thread_startup MAIN kernel_cold) (\<lambda>k.
     bind_r (rt_thread_startup TIMER k) (\<lambda>k.
     bind_r (rt_thread_startup IDLE k) rt_system_scheduler_start))"

datatype kernel_event =
    Tick | Sleep u32 | DelayUntil u32 u32 | Yield | TakeSem nat u32 | ReleaseSem nat | ResetSem nat u16
  | Startup nat | SuspendSelf | ResumeThread nat | StartSoftTimer | EnterCritical | ExitCritical

text \<open>
  The end of \<^verbatim>\<open>rt_timer_start\<close> for a soft timer: the timer thread, if it waits, is resumed to look at its
  list (which is the subject of \<^verbatim>\<open>Rtt_Soft\<close>).
\<close>

definition wake_timer_thread :: "kernel \<Rightarrow> kernel result" where
  "wake_timer_thread k =
     (if stat_of k TIMER = Suspend then rt_schedule (rt_thread_resume TIMER k) else Inr k)"

text \<open>The threads an event may resume by name.\<close>

definition resumed :: "kernel_event \<Rightarrow> nat set" where
  "resumed ev = (case ev of ResumeThread t \<Rightarrow> {t} | StartSoftTimer \<Rightarrow> {TIMER} | _ \<Rightarrow> {})"

lemma resumed_simps [simp]:
  "resumed (ResumeThread t) = {t}" "resumed StartSoftTimer = {TIMER}" "resumed Tick = {}" "resumed (Sleep n) = {}"
  "resumed (DelayUntil u n) = {}" "resumed Yield = {}" "resumed (TakeSem s n) = {}" "resumed (ReleaseSem s) = {}"
  "resumed (ResetSem s v) = {}" "resumed (Startup t) = {}" "resumed SuspendSelf = {}"
  "resumed EnterCritical = {}" "resumed ExitCritical = {}"
  by (simp_all add: resumed_def)

text \<open>
  The rules a caller keeps: the idle thread and a thread that has locked the scheduler do not wait, a time
  is below the limit the kernel asserts, a thread is started once, the lock is nested less deeply than
  its counter holds.
\<close>

definition can_wait :: "kernel \<Rightarrow> bool" where
  "can_wait k \<longleftrightarrow> lock_nest k = 0 \<and> current_thread k \<noteq> Some IDLE"

primrec enabled :: "kernel_event \<Rightarrow> kernel \<Rightarrow> bool" where
  "enabled Tick k = True"
| "enabled (Sleep n) k = (can_wait k \<and> n < RT_TICK_MAX div 2)"
| "enabled (DelayUntil woken inc) k = (can_wait k \<and> rt_tick (ticker k) - woken + inc < RT_TICK_MAX div 2)"
| "enabled Yield k = True"
| "enabled (TakeSem s time) k =
     ((can_wait k \<or> time = 0) \<and> (time < RT_TICK_MAX div 2 \<or> sint time < 0))"
| "enabled (ReleaseSem s) k = True"
| "enabled (ResetSem s v) k = True"
| "enabled (Startup t) k = (stat_of k t = Init)"
| "enabled SuspendSelf k = can_wait k"
| "enabled (ResumeThread t) k = True"
| "enabled StartSoftTimer k = True"
| "enabled EnterCritical k = (lock_nest k < 0x7FFF)"
| "enabled ExitCritical k = True"

text \<open>The fuel of the check: the list is shorter than that, and each round takes a timer off.\<close>

definition check_fuel :: "kernel \<Rightarrow> nat" where
  "check_fuel k = length (rt_timer_list (ticker k)) + 1"

definition kernel_call :: "kernel_event \<Rightarrow> kernel \<Rightarrow> kernel result" where
  "kernel_call ev k =
     (case ev of
          Tick \<Rightarrow> rt_tick_increase (check_fuel k) k
        | Sleep n \<Rightarrow> rt_thread_sleep n k
        | DelayUntil woken inc \<Rightarrow> rt_thread_delay_until woken inc k
        | Yield \<Rightarrow> rt_schedule k
        | TakeSem s time \<Rightarrow> take_semaphore s time k
        | ReleaseSem s \<Rightarrow> release_semaphore s k
        | ResetSem s v \<Rightarrow> reset_semaphore s v k
        | Startup t \<Rightarrow> rt_thread_startup t k
        | SuspendSelf \<Rightarrow>
            (case current_thread k of
               None \<Rightarrow> Inl OutOfBounds
             | Some t \<Rightarrow> bind_r (rt_thread_suspend t k) rt_schedule)
        | ResumeThread t \<Rightarrow> rt_schedule (rt_thread_resume t k)
        | StartSoftTimer \<Rightarrow> wake_timer_thread k
        | EnterCritical \<Rightarrow> Inr (rt_enter_critical k)
        | ExitCritical \<Rightarrow> rt_exit_critical k)"

text \<open>A step of callers that keep the rules: a call that would break one is not made.\<close>

definition kernel_step :: "kernel_event \<Rightarrow> kernel \<Rightarrow> kernel result" where
  "kernel_step ev k = (if \<not> enabled ev k then Inr k else kernel_call ev k)"

end
