(* ===== verification/Kernel_Sound.thy ===== *)
theory Kernel_Sound
  imports Rtt_Kernel
begin

text \<open>
  What every call of the kernel keeps: the ready lists, their bit map, the waiting lists and the
  timers fit the states of the threads, and the most urgent thread runs.
\<close>

section \<open>The parts of the invariant\<close>

text \<open>A thread stands in the row of its priority exactly when it is ready.\<close>

definition rows_ok :: "(nat \<Rightarrow> tcb) \<Rightarrow> (nat \<Rightarrow> nat list) \<Rightarrow> bool" where
  "rows_ok th tab \<longleftrightarrow> (\<forall>p. distinct (tab p) \<and>
     (\<forall>t. t \<in> set (tab p) \<longleftrightarrow> stat (th t) = Ready \<and> unat (current_priority (th t)) = p))"

text \<open>The bit map says which rows are not empty.\<close>

definition group_ok :: "u32 \<Rightarrow> (nat \<Rightarrow> nat list) \<Rightarrow> bool" where
  "group_ok g tab \<longleftrightarrow> (\<forall>p < 32. bit g p \<longleftrightarrow> tab p \<noteq> [])"

definition masks_ok :: "(nat \<Rightarrow> tcb) \<Rightarrow> bool" where
  "masks_ok th \<longleftrightarrow> (\<forall>t. init_priority (th t) < 32 \<and>
     (stat (th t) \<noteq> Init \<and> stat (th t) \<noteq> Close \<longrightarrow>
        unat (current_priority (th t)) < 32 \<and>
        number_mask (th t) = push_bit (unat (current_priority (th t))) 1))"

definition run_ok :: "(nat \<Rightarrow> tcb) \<Rightarrow> nat option \<Rightarrow> bool" where
  "run_ok th cur \<longleftrightarrow> (\<forall>t. stat (th t) = Running \<longrightarrow> cur = Some t) \<and>
     (\<forall>t. cur = Some t \<longrightarrow> stat (th t) = Running \<or> stat (th t) = Suspend)"

text \<open>Who waits at a semaphore or for a timer is suspended, and waits at one semaphore only.\<close>

definition semas_ok :: "(nat \<Rightarrow> tcb) \<Rightarrow> (nat \<Rightarrow> semaphore) \<Rightarrow> bool" where
  "semas_ok th sm \<longleftrightarrow>
     (\<forall>s. sem_ok (sm s) \<and> distinct (suspend_thread (sm s)) \<and>
        (\<forall>t \<in> set (suspend_thread (sm s)). stat (th t) = Suspend)) \<and>
     (\<forall>s s' t. t \<in> set (suspend_thread (sm s)) \<longrightarrow> t \<in> set (suspend_thread (sm s')) \<longrightarrow> s = s')"

definition alarms_ok :: "(nat \<Rightarrow> tcb) \<Rightarrow> clock \<Rightarrow> bool" where
  "alarms_ok th c \<longleftrightarrow> (\<forall>i \<in> set (rt_timer_list c). stat (th i) = Suspend) \<and>
     (\<forall>i. \<not> soft_timer (timers c i) \<and> \<not> periodic (timers c i))"

definition idle_ok :: "(nat \<Rightarrow> tcb) \<Rightarrow> bool" where
  "idle_ok th \<longleftrightarrow> stat (th IDLE) = Ready \<or> stat (th IDLE) = Running"

definition core :: "int \<Rightarrow> kernel \<Rightarrow> bool" where
  "core low k \<longleftrightarrow> rows_ok (threads k) (priority_table k) \<and> group_ok (ready_group k) (priority_table k) \<and>
     masks_ok (threads k) \<and> run_ok (threads k) (current_thread k) \<and> semas_ok (threads k) (semas k) \<and>
     alarms_ok (threads k) (ticker k) \<and> clock_ok low (ticker k)"

text \<open>The rows.\<close>

lemma rows_mem: "rows_ok th tab \<Longrightarrow> t \<in> set (tab p) \<longleftrightarrow> stat (th t) = Ready \<and> unat (current_priority (th t)) = p"
  by (simp add: rows_ok_def)

lemma rows_remove: "rows_ok th tab \<Longrightarrow> stat x \<noteq> Ready \<Longrightarrow> rows_ok (th(t := x)) (\<lambda>p. removeAll t (tab p))"
  by (auto simp: rows_ok_def distinct_removeAll)

lemma rows_insert:
  "rows_ok th tab \<Longrightarrow> stat (th t) \<noteq> Ready \<Longrightarrow> stat x = Ready \<Longrightarrow> unat (current_priority x) = p \<Longrightarrow>
     rows_ok (th(t := x)) (tab(p := tab p @ [t]))"
  by (auto simp: rows_ok_def)

lemma rows_same: "rows_ok th tab \<Longrightarrow> stat (th t) \<noteq> Ready \<Longrightarrow> stat x \<noteq> Ready \<Longrightarrow> rows_ok (th(t := x)) tab"
  by (auto simp: rows_ok_def)

lemma rows_keep:
  "rows_ok th tab \<Longrightarrow> stat x = stat (th t) \<Longrightarrow> current_priority x = current_priority (th t) \<Longrightarrow>
     rows_ok (th(t := x)) tab"
  by (auto simp: rows_ok_def)

lemma row_removeAll: "rows_ok th tab \<Longrightarrow> stat (th t) \<noteq> Ready \<Longrightarrow> removeAll t (tab p) = tab p"
  by (simp add: rows_ok_def)

text \<open>The bit map.\<close>

lemma bit_mask_word: "p < 32 \<Longrightarrow> bit (2 ^ p :: u32) q \<longleftrightarrow> q = p"
  by (auto simp: bit_exp_iff possible_bit_def)

lemma group_insert: "group_ok g tab \<Longrightarrow> p < 32 \<Longrightarrow> group_ok (g OR 2 ^ p) (tab(p := tab p @ [t]))"
  by (auto simp: group_ok_def bit_or_iff bit_mask_word)

lemma group_remove:
  assumes "group_ok g tab" and "rows_ok th tab" and "unat (current_priority (th t)) = p" and "p < 32"
  shows "group_ok (if removeAll t (tab p) = [] then g AND NOT (push_bit p 1) else g) (\<lambda>p. removeAll t (tab p))"
proof -
  let ?g = "if removeAll t (tab p) = [] then g AND NOT (push_bit p 1) else g"
  have "bit ?g q \<longleftrightarrow> removeAll t (tab q) \<noteq> []" if "q < 32" for q
  proof (cases "q = p")
    case True
    show ?thesis
    proof (cases "removeAll t (tab p) = []")
      case empty: True
      with True assms(4) show ?thesis by (simp add: bit_and_iff bit_not_iff bit_mask_word)
    next
      case False
      then have "tab p \<noteq> []" by auto
      with False True that assms(1) show ?thesis by (simp add: group_ok_def)
    qed
  next
    case False
    then have "t \<notin> set (tab q)" using assms(2,3) by (simp add: rows_mem)
    then have "removeAll t (tab q) = tab q" by simp
    moreover have "bit ?g q = bit g q"
      using False that assms(4) by (simp add: bit_and_iff bit_not_iff bit_mask_word)
    ultimately show ?thesis using that assms(1) by (simp add: group_ok_def)
  qed
  then show ?thesis unfolding group_ok_def by blast
qed

lemma group_highest:
  assumes "group_ok g tab" and "rows_ok th tab" and "masks_ok th" and "g \<noteq> 0"
  shows "\<exists>p < 32. rt_ffs g - 1 = p \<and> tab p \<noteq> [] \<and> (\<forall>t. stat (th t) = Ready \<longrightarrow> p \<le> unat (current_priority (th t)))"
proof -
  obtain p where p: "p < 32" "lowest_bit g p" using lowest_bit_exists [OF assms(4)] by blast
  then have "tab p \<noteq> []" using assms(1) by (auto simp: group_ok_def lowest_bit_def)
  moreover have "p \<le> unat (current_priority (th t))" if "stat (th t) = Ready" for t
  proof (rule ccontr)
    assume less: "\<not> p \<le> unat (current_priority (th t))"
    then have "tab (unat (current_priority (th t))) = []"
      using p assms(1) by (auto simp: group_ok_def lowest_bit_def)
    moreover have "t \<in> set (tab (unat (current_priority (th t))))" using that assms(2) by (simp add: rows_mem)
    ultimately show False by simp
  qed
  ultimately show ?thesis using p rt_ffs_lowest [OF p(2)] by auto
qed

lemma group_zero:
  assumes "group_ok 0 tab" and "rows_ok th tab" and "masks_ok th"
  shows "stat (th t) \<noteq> Ready"
proof
  assume ready: "stat (th t) = Ready"
  then have "unat (current_priority (th t)) < 32" using assms(3) by (simp add: masks_ok_def)
  then have "tab (unat (current_priority (th t))) = []" using assms(1) by (simp add: group_ok_def)
  with ready show False using rows_mem [OF assms(2), of t "unat (current_priority (th t))"] by simp
qed

text \<open>The threads, the waiting lists and the timers.\<close>

lemma masks_keep:
  "masks_ok th \<Longrightarrow> stat (th t) \<noteq> Init \<Longrightarrow> stat (th t) \<noteq> Close \<Longrightarrow> current_priority x = current_priority (th t) \<Longrightarrow>
     init_priority x = init_priority (th t) \<Longrightarrow> number_mask x = number_mask (th t) \<Longrightarrow> masks_ok (th(t := x))"
  by (simp add: masks_ok_def)

lemma removeAll_nonempty: "removeAll t xs \<noteq> [] \<Longrightarrow> xs \<noteq> []"
  by auto

lemma semas_remove:
  "semas_ok th sm \<Longrightarrow>
     semas_ok (th(t := x)) (\<lambda>s. (sm s)\<lparr>suspend_thread := removeAll t (suspend_thread (sm s))\<rparr>)"
  by (auto simp: semas_ok_def sem_ok_def distinct_removeAll dest: removeAll_nonempty)

lemma semas_removeAll:
  assumes "semas_ok th sm" and "stat (th t) \<noteq> Suspend"
  shows "(\<lambda>s. (sm s)\<lparr>suspend_thread := removeAll t (suspend_thread (sm s))\<rparr>) = sm"
proof
  fix s
  have "t \<notin> set (suspend_thread (sm s))" using assms by (auto simp: semas_ok_def)
  then show "(sm s)\<lparr>suspend_thread := removeAll t (suspend_thread (sm s))\<rparr> = sm s" by simp
qed

lemma alarms_stop: "alarms_ok th c \<Longrightarrow> alarms_ok th (rt_timer_stop t c)"
  by (auto simp: alarms_ok_def rt_timer_stop_def)

lemma alarms_thread: "alarms_ok th c \<Longrightarrow> t \<notin> set (rt_timer_list c) \<or> stat x = Suspend \<Longrightarrow> alarms_ok (th(t := x)) c"
  by (auto simp: alarms_ok_def)

lemma alarms_suspended: "alarms_ok th c \<Longrightarrow> stat (th t) \<noteq> Suspend \<Longrightarrow> t \<notin> set (rt_timer_list c)"
  by (auto simp: alarms_ok_def)

section \<open>The primitives\<close>

lemma on_simps [simp]:
  "threads (on_thread t f k) = (threads k)(t := f (threads k t))" "semas (on_thread t f k) = semas k"
  "ticker (on_thread t f k) = ticker k" "priority_table (on_thread t f k) = priority_table k"
  "ready_group (on_thread t f k) = ready_group k" "current_thread (on_thread t f k) = current_thread k"
  "lock_nest (on_thread t f k) = lock_nest k"
  "threads (on_ticker g k) = threads k" "semas (on_ticker g k) = semas k"
  "ticker (on_ticker g k) = g (ticker k)" "priority_table (on_ticker g k) = priority_table k"
  "ready_group (on_ticker g k) = ready_group k" "current_thread (on_ticker g k) = current_thread k"
  "lock_nest (on_ticker g k) = lock_nest k"
  "threads (on_sema s h k) = threads k" "semas (on_sema s h k) = (semas k)(s := h (semas k s))"
  "ticker (on_sema s h k) = ticker k" "priority_table (on_sema s h k) = priority_table k"
  "ready_group (on_sema s h k) = ready_group k" "current_thread (on_sema s h k) = current_thread k"
  "lock_nest (on_sema s h k) = lock_nest k"
  by (simp_all add: on_thread_def on_ticker_def on_sema_def)

lemma remove_simps [simp]:
  "threads (rt_list_remove t k) = threads k" "ticker (rt_list_remove t k) = ticker k"
  "priority_table (rt_list_remove t k) = (\<lambda>p. removeAll t (priority_table k p))"
  "semas (rt_list_remove t k) =
     (\<lambda>s. (semas k s)\<lparr>suspend_thread := removeAll t (suspend_thread (semas k s))\<rparr>)"
  "ready_group (rt_list_remove t k) = ready_group k" "current_thread (rt_list_remove t k) = current_thread k"
  "lock_nest (rt_list_remove t k) = lock_nest k"
  "threads (rt_schedule_remove_thread t k) = threads k" "ticker (rt_schedule_remove_thread t k) = ticker k"
  "priority_table (rt_schedule_remove_thread t k) = (\<lambda>p. removeAll t (priority_table k p))"
  "semas (rt_schedule_remove_thread t k) =
     (\<lambda>s. (semas k s)\<lparr>suspend_thread := removeAll t (suspend_thread (semas k s))\<rparr>)"
  "ready_group (rt_schedule_remove_thread t k) =
     (if removeAll t (priority_table k (prio_of k t)) = []
      then ready_group k AND NOT (number_mask (threads k t)) else ready_group k)"
  "current_thread (rt_schedule_remove_thread t k) = current_thread k"
  "lock_nest (rt_schedule_remove_thread t k) = lock_nest k"
  by (simp_all add: rt_list_remove_def rt_schedule_remove_thread_def Let_def)

lemma insert_simps [simp]:
  "threads (rt_schedule_insert_thread t k) =
     (threads k)(t := (threads k t)\<lparr>stat := if current_thread k = Some t then Running else Ready\<rparr>)"
  "ticker (rt_schedule_insert_thread t k) = ticker k" "semas (rt_schedule_insert_thread t k) = semas k"
  "current_thread (rt_schedule_insert_thread t k) = current_thread k"
  "lock_nest (rt_schedule_insert_thread t k) = lock_nest k"
  "priority_table (rt_schedule_insert_thread t k) =
     (if current_thread k = Some t then priority_table k
      else (priority_table k)(prio_of k t := priority_table k (prio_of k t) @ [t]))"
  "ready_group (rt_schedule_insert_thread t k) =
     (if current_thread k = Some t then ready_group k else ready_group k OR number_mask (threads k t))"
  by (simp_all add: rt_schedule_insert_thread_def Let_def)

text \<open>A ready or running thread is suspended.\<close>

lemma core_suspend:
  assumes "core low k" and "stat_of k t = Ready \<or> stat_of k t = Running"
  shows "core low (on_ticker (rt_timer_stop t) (on_thread t (stat_update (\<lambda>_. Suspend)) (rt_schedule_remove_thread t k)))"
proof -
  note c = assms(1) [unfolded core_def]
  from c assms(2) have m: "prio_of k t < 32" "number_mask (threads k t) = push_bit (prio_of k t) 1"
    by (auto simp: masks_ok_def)
  have "group_ok (if removeAll t (priority_table k (prio_of k t)) = []
      then ready_group k AND NOT (number_mask (threads k t)) else ready_group k)
      (\<lambda>p. removeAll t (priority_table k p))"
    unfolding m(2) using c m(1) by (intro group_remove) auto
  moreover have "run_ok ((threads k)(t := (threads k t)\<lparr>stat := Suspend\<rparr>)) (current_thread k)"
    using c by (auto simp: run_ok_def)
  ultimately show ?thesis
    using c assms(2)
    by (auto simp: core_def rows_remove semas_remove alarms_stop alarms_thread clock_ok_stop intro!: masks_keep)
qed

text \<open>A suspended thread without a running timer becomes ready.\<close>

lemma core_wake:
  assumes "core low k" and "stat_of k t = Suspend" and "t \<notin> set (rt_timer_list (ticker k))"
  shows "core low (rt_schedule_insert_thread t (rt_list_remove t k))"
proof -
  note c = assms(1) [unfolded core_def]
  from c assms(2) have m: "prio_of k t < 32" "number_mask (threads k t) = push_bit (prio_of k t) 1"
    by (auto simp: masks_ok_def)
  have rows: "removeAll t (priority_table k p) = priority_table k p" for p
    using c assms(2) by (intro row_removeAll [of "threads k"]) auto
  show ?thesis
  proof (cases "current_thread k = Some t")
    case True
    have "run_ok ((threads k)(t := (threads k t)\<lparr>stat := Running\<rparr>)) (current_thread k)"
      using c True by (auto simp: run_ok_def)
    with c True assms(2,3) show ?thesis
      by (auto simp: core_def rows rows_same semas_remove alarms_thread intro!: masks_keep)
  next
    case False
    have "run_ok ((threads k)(t := (threads k t)\<lparr>stat := Ready\<rparr>)) (current_thread k)"
      using c False by (auto simp: run_ok_def)
    with c False assms(2,3) m show ?thesis
      by (auto simp: core_def rows rows_insert group_insert semas_remove alarms_thread intro!: masks_keep)
  qed
qed

text \<open>Fields the invariant does not mention.\<close>

lemma core_keep:
  assumes "core low k" and "stat (f (threads k t)) = stat_of k t"
    and "current_priority (f (threads k t)) = current_priority (threads k t)"
    and "init_priority (f (threads k t)) = init_priority (threads k t)"
    and "number_mask (f (threads k t)) = number_mask (threads k t)"
  shows "core low (on_thread t f k)"
proof -
  note c = assms(1) [unfolded core_def]
  have "masks_ok ((threads k)(t := f (threads k t)))" using c assms(2-) by (auto simp: masks_ok_def)
  moreover have "run_ok ((threads k)(t := f (threads k t))) (current_thread k)"
    using c assms(2) by (auto simp: run_ok_def)
  moreover have "semas_ok ((threads k)(t := f (threads k t))) (semas k)"
    using c assms(2) by (auto simp: semas_ok_def)
  moreover have "alarms_ok ((threads k)(t := f (threads k t))) (ticker k)"
    using c assms(2) by (auto simp: alarms_ok_def)
  moreover have "rows_ok ((threads k)(t := f (threads k t))) (priority_table k)"
    using c assms(2,3) by (intro rows_keep) auto
  ultimately show ?thesis using c by (simp add: core_def)
qed

lemma core_ticker:
  assumes "core low k" and "clock_ok low' (g (ticker k))" and "alarms_ok (threads k) (g (ticker k))"
  shows "core low' (on_ticker g k)"
  using assms by (simp add: core_def)

lemma run_switch: "(\<And>t. stat (th t) \<noteq> Running) \<Longrightarrow> stat x = Running \<Longrightarrow> run_ok (th(t := x)) (Some t)"
  by (auto simp: run_ok_def)

lemma core_switch:
  assumes "core low k" and "current_thread k = Some c" and "stat_of k to = Ready"
  shows "core low (switch_to c to (stat_of k c = Running) k)"
proof -
  note k = assms(1) [unfolded core_def]
  from k have run: "run_ok (threads k) (Some c)" by (simp only: assms(2))
  then have c: "stat_of k c = Running \<or> stat_of k c = Suspend" unfolding run_ok_def by blast
  have only: "t = c" if "stat_of k t = Running" for t
    using run that unfolding run_ok_def by blast
  from c assms(3) have "to \<noteq> c" by auto
  let ?th = "if stat_of k c = Running then (threads k)(c := (threads k c)\<lparr>stat := Ready\<rparr>) else threads k"
  let ?tab = "if stat_of k c = Running
    then (priority_table k)(prio_of k c := priority_table k (prio_of k c) @ [c]) else priority_table k"
  let ?g = "if stat_of k c = Running then ready_group k OR number_mask (threads k c) else ready_group k"
  have m: "prio_of k c < 32" "number_mask (threads k c) = push_bit (prio_of k c) 1"
    "prio_of k to < 32" "number_mask (threads k to) = push_bit (prio_of k to) 1"
    using k c assms(3) by (auto simp: masks_ok_def)
  have rows: "rows_ok ?th ?tab" using k by (simp add: rows_insert)
  have group: "group_ok ?g ?tab" using k m(1,2) by (simp add: group_insert)
  have masks: "masks_ok ?th" using k by (simp add: masks_keep)
  have semas: "semas_ok ?th (semas k)" using k by (auto simp: semas_ok_def)
  have alarms: "alarms_ok ?th (ticker k)" using k by (auto simp: alarms_ok_def)
  have to: "stat (?th to) = Ready" "current_priority (?th to) = current_priority (threads k to)"
    "number_mask (?th to) = number_mask (threads k to)" using \<open>to \<noteq> c\<close> assms(3) by simp_all
  let ?th' = "?th(to := (?th to)\<lparr>stat := Running\<rparr>)"
  have "rows_ok ?th' (\<lambda>p. removeAll to (?tab p))" using rows by (intro rows_remove) auto
  moreover have "group_ok (if removeAll to (?tab (prio_of k to)) = [] then ?g AND NOT (push_bit (prio_of k to) 1)
      else ?g) (\<lambda>p. removeAll to (?tab p))"
    using m(3) by (intro group_remove [OF group rows]) (simp_all only: to(2))
  moreover have "masks_ok ?th'" using masks to by (intro masks_keep) auto
  moreover have "stat (?th t) \<noteq> Running" for t
    by (cases "t = c") (auto dest: only)
  then have "run_ok ?th' (Some to)" by (intro run_switch) simp_all
  moreover have "semas_ok ?th' (\<lambda>s. (semas k s)\<lparr>suspend_thread := removeAll to (suspend_thread (semas k s))\<rparr>)"
    using semas by (rule semas_remove)
  moreover have "alarms_ok ?th' (ticker k)"
    using alarms to(1) by (intro alarms_thread disjI1 alarms_suspended [OF alarms]) auto
  moreover have "clock_ok low (ticker k)" using k by blast
  ultimately show ?thesis
    using \<open>to \<noteq> c\<close> m(4) by (simp add: core_def switch_to_def Let_def split: if_splits) auto
qed

section \<open>Scheduling\<close>

definition awake :: "status \<Rightarrow> bool" where
  "awake st \<longleftrightarrow> st = Ready \<or> st = Running"

text \<open>The most urgent of the threads that can run does so.\<close>

definition settled :: "kernel \<Rightarrow> bool" where
  "settled k \<longleftrightarrow> (\<exists>c. current_thread k = Some c \<and> stat_of k c = Running \<and>
     (lock_nest k = 0 \<longrightarrow> (\<forall>t. stat_of k t = Ready \<longrightarrow> prio_of k c \<le> prio_of k t)))"

text \<open>Scheduling changes no more than which of the threads that can run does.\<close>

definition resched :: "kernel \<Rightarrow> kernel \<Rightarrow> bool" where
  "resched k k' \<longleftrightarrow> ticker k' = ticker k \<and> semas k' = semas k \<and> lock_nest k' = lock_nest k \<and>
     (\<forall>t. current_priority (threads k' t) = current_priority (threads k t) \<and>
        (if awake (stat_of k t) then awake (stat_of k' t) else stat_of k' t = stat_of k t))"

lemma resched_refl: "resched k k"
  by (simp add: resched_def)

lemma schedule_stays:
  assumes "core low k" and "current_thread k = Some c" and "stat_of k c = Running"
  shows "core low (on_thread c (stat_update (\<lambda>_. Running)) (rt_schedule_remove_thread c k))"
    and "resched k (on_thread c (stat_update (\<lambda>_. Running)) (rt_schedule_remove_thread c k))"
    and "threads (on_thread c (stat_update (\<lambda>_. Running)) (rt_schedule_remove_thread c k)) = threads k"
proof -
  note k = assms(1) [unfolded core_def]
  have same: "(threads k)(c := (threads k c)\<lparr>stat := Running\<rparr>) = threads k"
    using assms(3) by (intro ext) simp
  then show "threads (on_thread c (stat_update (\<lambda>_. Running)) (rt_schedule_remove_thread c k)) = threads k" by simp
  have rows: "removeAll c (priority_table k p) = priority_table k p" for p
    using k assms(3) by (intro row_removeAll [of "threads k"]) simp_all
  have semas: "(\<lambda>s. (semas k s)\<lparr>suspend_thread := removeAll c (suspend_thread (semas k s))\<rparr>) = semas k"
    using k assms(3) by (intro semas_removeAll [of "threads k"]) simp_all
  have "masks_ok (threads k)" using k by blast
  then have m: "prio_of k c < 32" "number_mask (threads k c) = push_bit (prio_of k c) 1"
    using assms(3) by (simp_all add: masks_ok_def)
  have "group_ok (if removeAll c (priority_table k (prio_of k c)) = []
      then ready_group k AND NOT (number_mask (threads k c)) else ready_group k)
      (\<lambda>p. removeAll c (priority_table k p))"
    unfolding m(2) using k m(1) by (intro group_remove [of _ _ "threads k"]) simp_all
  then show "core low (on_thread c (stat_update (\<lambda>_. Running)) (rt_schedule_remove_thread c k))"
    using k by (simp add: core_def same semas rows)
  show "resched k (on_thread c (stat_update (\<lambda>_. Running)) (rt_schedule_remove_thread c k))"
    by (simp add: resched_def same semas)
qed

lemma switch_threads:
  assumes "to \<noteq> c"
  shows "threads (switch_to c to b k) =
      (\<lambda>t. if t = to then (threads k to)\<lparr>stat := Running\<rparr>
        else if t = c \<and> b then (threads k c)\<lparr>stat := Ready\<rparr> else threads k t)"
    and "ticker (switch_to c to b k) = ticker k" and "lock_nest (switch_to c to b k) = lock_nest k"
    and "current_thread (switch_to c to b k) = Some to"
    and "semas (switch_to c to b k) =
      (\<lambda>s. (semas k s)\<lparr>suspend_thread := removeAll to (suspend_thread (semas k s))\<rparr>)"
  using assms by (auto simp: switch_to_def Let_def)

lemma schedule_switches:
  assumes "core low k" and "current_thread k = Some c" and "stat_of k to = Ready"
  shows "resched k (switch_to c to (stat_of k c = Running) k)"
proof -
  note k = assms(1) [unfolded core_def]
  have "run_ok (threads k) (Some c)" using k by (simp only: assms(2))
  then have "stat_of k c = Running \<or> stat_of k c = Suspend" unfolding run_ok_def by blast
  with assms(3) have "to \<noteq> c" by auto
  moreover have "(\<lambda>s. (semas k s)\<lparr>suspend_thread := removeAll to (suspend_thread (semas k s))\<rparr>) = semas k"
    using k assms(3) by (intro semas_removeAll [of "threads k"]) simp_all
  ultimately show ?thesis using assms(3) by (simp add: resched_def switch_threads awake_def)
qed

lemma resched_trans: "resched k k' \<Longrightarrow> resched k' k'' \<Longrightarrow> resched k k''"
  by (auto simp: resched_def split: if_splits)

lemma resched_awake: "resched k k' \<Longrightarrow> awake (stat_of k' t) \<longleftrightarrow> awake (stat_of k t)"
  unfolding resched_def by metis

lemma resched_yield: "resched k (on_thread c (stat_yield_update f) k)"
  by (simp add: resched_def)

lemma schedule_ok:
  assumes "core low k" and "idle_ok (threads k)" and "current_thread k = Some c"
    and "lock_nest k = 0 \<or> stat_of k c = Running"
  shows "\<exists>k'. rt_schedule k = Inr k' \<and> core low k' \<and> settled k' \<and> resched k k'"
proof (cases "lock_nest k \<noteq> 0")
  case True
  with assms have "rt_schedule k = Inr k \<and> settled k" by (simp add: rt_schedule_def settled_def)
  with assms(1) resched_refl show ?thesis by blast
next
  case unlocked: False
  have rows: "rows_ok (threads k) (priority_table k)" and group: "group_ok (ready_group k) (priority_table k)"
    and masks: "masks_ok (threads k)" and run: "run_ok (threads k) (Some c)"
    using assms(1) by (simp_all only: core_def assms(3))
  have cur: "stat_of k c = Running \<or> stat_of k c = Suspend" using run unfolding run_ok_def by blast
  show ?thesis
  proof (cases "ready_group k = 0")
    case True
    then have none: "stat_of k t \<noteq> Ready" for t using group rows masks by (simp add: group_zero)
    with assms(2) run have "stat_of k c = Running" unfolding idle_ok_def run_ok_def by blast
    with none True assms(3) have "rt_schedule k = Inr k \<and> settled k"
      by (simp add: rt_schedule_def settled_def)
    with assms(1) resched_refl show ?thesis by blast
  next
    case False
    then obtain p where p: "p < 32" "rt_ffs (ready_group k) - 1 = p" "priority_table k p \<noteq> []"
      "\<And>t. stat_of k t = Ready \<Longrightarrow> p \<le> prio_of k t"
      using group_highest [OF group rows masks] by blast
    then obtain to rest where to: "priority_table k p = to # rest" by (cases "priority_table k p") auto
    then have ready: "stat_of k to = Ready" "prio_of k to = p"
      using rows_mem [OF rows, of to p] by simp_all
    with cur have "to \<noteq> c" by auto
    let ?stay = "stat_of k c = Running \<and> (prio_of k c < p \<or> prio_of k c = p \<and> \<not> stat_yield (threads k c))"
    let ?k1 = "if stat_of k c = Running then on_thread c (stat_yield_update (\<lambda>_. False)) k else k"
    show ?thesis
    proof (cases ?stay)
      case True
      let ?k' = "on_thread c (stat_update (\<lambda>_. Running)) (rt_schedule_remove_thread c k)"
      have "rt_schedule k = Inr ?k'"
        using unlocked False True p(2) to assms(3) by (simp add: rt_schedule_def Let_def)
      moreover have "settled ?k'"
        using True p(4) assms(3) by (force simp: settled_def)
      ultimately show ?thesis using schedule_stays [OF assms(1,3)] True by blast
    next
      case switch: False
      obtain k1 where k1_def: "k1 = ?k1" by blast
      have k1: "core low k1" "resched k k1" "current_thread k1 = Some c"
        using assms(1,3) by (auto simp: k1_def core_keep resched_yield resched_refl)
      have same: "stat_of k1 t = stat_of k t" "prio_of k1 t = prio_of k t" for t
        by (simp_all add: k1_def)
      let ?k' = "switch_to c to (stat_of k c = Running) k1"
      have "rt_schedule k = Inr ?k'"
        using unlocked False switch p(2) to assms(3) \<open>to \<noteq> c\<close>
        by (simp add: rt_schedule_def Let_def k1_def) auto
      moreover have "core low ?k'"
        using core_switch [OF k1(1,3), of to] ready(1) by (simp add: same)
      moreover have "resched k ?k'"
        using resched_trans [OF k1(2)] schedule_switches [OF k1(1,3), of to] ready(1) by (simp add: same)
      moreover have "settled ?k'"
        using p(4) ready \<open>to \<noteq> c\<close> switch by (auto simp: settled_def switch_threads same)
      ultimately show ?thesis by blast
    qed
  qed
qed

section \<open>Sleeping threads\<close>

text \<open>Thread \<open>t\<close> sleeps for \<open>d\<close> more ticks and nothing but its timer can wake it.\<close>

definition asleep :: "kernel \<Rightarrow> nat \<Rightarrow> int \<Rightarrow> bool" where
  "asleep k t d \<longleftrightarrow> stat_of k t = Suspend \<and> t \<in> set (rt_timer_list (ticker k)) \<and>
     left (ticker k) t = d \<and> (\<forall>s. t \<notin> set (suspend_thread (semas k s)))"

text \<open>Between \<open>k\<close> and \<open>k'\<close> no sleep outside \<open>A\<close> is disturbed.\<close>

definition quiet :: "nat set \<Rightarrow> kernel \<Rightarrow> kernel \<Rightarrow> bool" where
  "quiet A k k' \<longleftrightarrow> (\<forall>t d. t \<notin> A \<longrightarrow> asleep k t d \<longrightarrow> asleep k' t d)"

lemma quiet_refl: "quiet A k k"
  by (simp add: quiet_def)

lemma quiet_trans: "quiet A k k' \<Longrightarrow> quiet A k' k'' \<Longrightarrow> quiet A k k''"
  by (simp add: quiet_def)

lemma quiet_mono: "quiet A k k' \<Longrightarrow> A \<subseteq> B \<Longrightarrow> quiet B k k'"
  by (auto simp: quiet_def)

lemma quiet_resched: "resched k k' \<Longrightarrow> quiet A k k'"
  by (simp add: quiet_def asleep_def resched_def awake_def)

lemma timer_stop_mem: "t \<noteq> c \<Longrightarrow> t \<in> set (rt_timer_list (rt_timer_stop c k)) \<longleftrightarrow> t \<in> set (rt_timer_list k)"
  by (simp add: rt_timer_stop_def)

lemma quiet_suspend:
  "quiet {t} k (on_ticker (rt_timer_stop t) (on_thread t (stat_update (\<lambda>_. Suspend)) (rt_schedule_remove_thread t k)))"
  by (auto simp: quiet_def asleep_def timer_stop_mem)

lemma quiet_thread: "quiet {t} k (on_thread t f k)"
  by (simp add: quiet_def asleep_def)

lemma quiet_awake: "stat_of k t \<noteq> Suspend \<Longrightarrow> quiet {t} k k' \<Longrightarrow> quiet A k k'"
  by (auto simp: quiet_def asleep_def)

section \<open>The calls\<close>

definition kernel_ok :: "kernel \<Rightarrow> bool" where
  "kernel_ok k \<longleftrightarrow> core 0 k \<and> idle_ok (threads k) \<and> settled k"

text \<open>Waking a suspended thread, by its semaphore or by a call.\<close>

lemma on_ticker_remove: "on_ticker g (rt_list_remove t k) = rt_list_remove t (on_ticker g k)"
  by (simp add: on_ticker_def rt_list_remove_def)

lemma resume_ok:
  assumes "core low k"
  shows "core low (rt_thread_resume t k)" and "current_thread (rt_thread_resume t k) = current_thread k"
    and "lock_nest (rt_thread_resume t k) = lock_nest k"
    and "u \<noteq> t \<Longrightarrow> threads (rt_thread_resume t k) u = threads k u"
    and "awake (stat_of k t) \<Longrightarrow> rt_thread_resume t k = k"
proof -
  show "core low (rt_thread_resume t k)"
  proof (cases "stat_of k t = Suspend")
    case True
    have c: "clock_ok low (ticker k)" "alarms_ok (threads k) (ticker k)" using assms by (simp_all add: core_def)
    have "core low (on_ticker (rt_timer_stop t) k)"
      by (rule core_ticker [OF assms]) (simp_all add: c clock_ok_stop alarms_stop)
    then have "core low (rt_schedule_insert_thread t (rt_list_remove t (on_ticker (rt_timer_stop t) k)))"
      by (rule core_wake) (simp_all add: True stopped_list [OF c(1)])
    then show ?thesis by (simp add: rt_thread_resume_def True on_ticker_remove)
  qed (simp add: rt_thread_resume_def assms)
  show "awake (stat_of k t) \<Longrightarrow> rt_thread_resume t k = k" by (auto simp: rt_thread_resume_def awake_def)
qed (simp_all add: rt_thread_resume_def)

lemma quiet_resume: "quiet {t} k (rt_thread_resume t k)"
  by (simp add: rt_thread_resume_def quiet_def asleep_def timer_stop_mem)

lemma resume_idle: "core low k \<Longrightarrow> idle_ok (threads k) \<Longrightarrow> idle_ok (threads (rt_thread_resume t k))"
  using resume_ok(4) [of low k IDLE t] resume_ok(5) [of low k t]
  by (cases "t = IDLE") (auto simp: idle_ok_def awake_def)

text \<open>Starting the timer of a suspended thread.\<close>

lemma clock_ok_set_time: "clock_ok low c \<Longrightarrow> clock_ok low (timer_set_time t n c)"
  by (simp add: clock_ok_def)

lemma thread_timer_ok:
  assumes "core 0 k" and "stat_of k t = Suspend" and "n < tick_half"
  shows "\<exists>k'. start_thread_timer t n k = Inr k' \<and> core 0 k' \<and> threads k' = threads k \<and> semas k' = semas k \<and>
    current_thread k' = current_thread k \<and> lock_nest k' = lock_nest k \<and> quiet {t} k k' \<and>
    t \<in> set (rt_timer_list (ticker k')) \<and> left (ticker k') t = uint n"
proof -
  let ?c = "timer_set_time t n (ticker k)"
  have c: "clock_ok 0 (ticker k)" and a: "alarms_ok (threads k) (ticker k)" using assms(1) by (simp_all add: core_def)
  have "init_tick (timers ?c t) = n" by (simp add: timer_set_time_def)
  then obtain c' where c': "rt_timer_start t ?c = Inr c'" "clock_ok 0 c'" "rt_tick c' = rt_tick ?c"
    "set (rt_timer_list c') = insert t (set (rt_timer_list ?c))"
    "\<forall>j. j \<noteq> t \<longrightarrow> timers c' j = timers ?c j"
    "timers c' t = (timers ?c t)\<lparr>timeout_tick := rt_tick ?c + n, activated := True\<rparr>" "left c' t = uint n"
    using start_timer [OF clock_ok_set_time [OF c], of t n t] a assms(3)
    by (auto simp: alarms_ok_def)
  have "soft_timer (timers c' i) = soft_timer (timers (ticker k) i) \<and> periodic (timers c' i) = periodic (timers (ticker k) i)" for i
    using c'(5,6) by (cases "i = t") auto
  then have "alarms_ok (threads k) c'" using a assms(2) c'(4) by (simp add: alarms_ok_def)
  then have "core 0 (k\<lparr>ticker := c'\<rparr>)" using assms(1) c'(2) by (simp add: core_def)
  moreover have "left c' j = left (ticker k) j" if "j \<noteq> t" for j
    using c'(3,5) that by (simp add: left_def timer_set_time_def)
  then have "quiet {t} k (k\<lparr>ticker := c'\<rparr>)" using c'(4) by (simp add: quiet_def asleep_def)
  ultimately show ?thesis using c' by (simp add: start_thread_timer_def on_ticker_r_def on_ticker_def)
qed

text \<open>The end of every call: the scheduler is called with a current thread it may take.\<close>

lemma end_schedule:
  assumes "core 0 k" and "idle_ok (threads k)" and "current_thread k = Some c"
    and "lock_nest k = 0 \<or> stat_of k c = Running" and "quiet A k0 k"
  shows "\<exists>k'. rt_schedule k = Inr k' \<and> kernel_ok k' \<and> quiet A k0 k' \<and>
    (\<forall>t. awake (stat_of k t) \<longrightarrow> awake (stat_of k' t)) \<and> resched k k'"
proof -
  from schedule_ok [OF assms(1-4)] obtain k' where k': "rt_schedule k = Inr k'" "core 0 k'" "settled k'" "resched k k'"
    by blast
  have "awake (stat_of k' t) \<longleftrightarrow> awake (stat_of k t)" for t
    using k'(4) by (rule resched_awake)
  moreover from this have "idle_ok (threads k')" using assms(2) by (simp add: idle_ok_def awake_def)
  moreover have "quiet A k0 k'" using assms(5) quiet_resched [OF k'(4)] by (rule quiet_trans)
  ultimately show ?thesis using k' by (simp add: kernel_ok_def)
qed

lemma kernel_okD:
  assumes "kernel_ok k"
  obtains c where "core 0 k" "idle_ok (threads k)" "current_thread k = Some c" "stat_of k c = Running"
    "\<And>t. lock_nest k = 0 \<Longrightarrow> stat_of k t = Ready \<Longrightarrow> prio_of k c \<le> prio_of k t"
  using assms by (auto simp: kernel_ok_def settled_def)

text \<open>The running thread gives up the processor: common to all calls that wait.\<close>

lemma suspend_current:
  assumes "core 0 k" "idle_ok (threads k)" "current_thread k = Some c" "stat_of k c = Running" "c \<noteq> IDLE"
  shows "\<exists>k'. rt_thread_suspend c k = Inr k' \<and> core 0 k' \<and> idle_ok (threads k') \<and> current_thread k' = Some c \<and>
    lock_nest k' = lock_nest k \<and> stat_of k' c = Suspend \<and> quiet {c} k k' \<and>
    (\<forall>s. c \<notin> set (suspend_thread (semas k' s))) \<and> semas k' = semas k"
proof -
  let ?k' = "on_ticker (rt_timer_stop c) (on_thread c (stat_update (\<lambda>_. Suspend)) (rt_schedule_remove_thread c k))"
  have "rt_thread_suspend c k = Inr ?k'" using assms(3,4) by (simp add: rt_thread_suspend_def)
  moreover have "core 0 ?k'" using assms(1,4) by (intro core_suspend) simp_all
  moreover have "idle_ok (threads ?k')" using assms(2,5) by (simp add: idle_ok_def)
  moreover have "semas ?k' = semas k"
    using assms(1,4) by (simp add: core_def semas_removeAll [of "threads k"])
  moreover have "c \<notin> set (suspend_thread (semas ?k' s))" for s by simp
  ultimately show ?thesis using assms(3) quiet_suspend [of c k] by (intro exI [of _ ?k']) simp
qed

lemma sleep_ok:
  assumes "kernel_ok k" and "enabled (Sleep n) k" and "current_thread k = Some c"
  shows "\<exists>k'. rt_thread_sleep n k = Inr k' \<and> kernel_ok k' \<and> quiet {} k k' \<and> asleep k' c (uint n)"
proof -
  from assms(1) obtain c' where k: "core 0 k" "idle_ok (threads k)" "current_thread k = Some c'" "stat_of k c' = Running"
    by (rule kernel_okD) blast
  with assms(3) have c: "c' = c" by simp
  from assms(2,3) have en: "lock_nest k = 0" "c \<noteq> IDLE" "n < tick_half" by (simp_all add: can_wait_def tick_half)
  from suspend_current [OF k] en c obtain k1 where k1: "rt_thread_suspend c k = Inr k1" "core 0 k1"
    "idle_ok (threads k1)" "current_thread k1 = Some c" "lock_nest k1 = 0" "stat_of k1 c = Suspend" "quiet {c} k k1"
    "\<And>s. c \<notin> set (suspend_thread (semas k1 s))" by auto
  from thread_timer_ok [OF k1(2,6) en(3)] obtain k2 where k2: "start_thread_timer c n k1 = Inr k2" "core 0 k2"
    "threads k2 = threads k1" "semas k2 = semas k1" "current_thread k2 = current_thread k1" "lock_nest k2 = lock_nest k1"
    "quiet {c} k1 k2" "c \<in> set (rt_timer_list (ticker k2))" "left (ticker k2) c = uint n" by blast
  have q2: "quiet {c} k k2" using k1(7) k2(7) by (rule quiet_trans)
  have idle2: "idle_ok (threads k2)" and cur2: "current_thread k2 = Some c" and lock2: "lock_nest k2 = 0"
    using k1(3-5) k2(3,5,6) by simp_all
  from end_schedule [OF k2(2) idle2 cur2 disjI1 [OF lock2] q2] obtain k3 where k3: "rt_schedule k2 = Inr k3"
    "kernel_ok k3" "quiet {c} k k3" "resched k2 k3" by blast
  have "asleep k2 c (uint n)" using k1(6,8) k2(3,4,8,9) by (simp add: asleep_def)
  with quiet_resched [OF k3(4), of "{}"] have "asleep k3 c (uint n)" by (simp add: quiet_def)
  moreover have "quiet {} k k3" by (rule quiet_awake [OF _ k3(3)]) (use k(4) c in simp)
  ultimately show ?thesis using k1(1) k2(1) k3 assms(3) by (intro exI [of _ k3]) (simp add: rt_thread_sleep_def)
qed

lemma delay_until_ok:
  assumes "kernel_ok k" and "enabled (DelayUntil woken inc) k" and "current_thread k = Some c"
  shows "\<exists>k'. rt_thread_delay_until woken inc k = Inr k' \<and> kernel_ok k' \<and> quiet {} k k'"
proof -
  have "enabled (Sleep (rt_tick (ticker k) - woken + inc)) k" using assms(2) by simp
  from sleep_ok [OF assms(1) this assms(3)] assms(1,3) quiet_refl [of "{}" k] show ?thesis
    by (auto simp: rt_thread_delay_until_def)
qed

lemma yield_ok:
  assumes "kernel_ok k"
  shows "\<exists>k'. rt_schedule k = Inr k' \<and> kernel_ok k' \<and> quiet {} k k'"
proof -
  from assms obtain c where "core 0 k" "idle_ok (threads k)" "current_thread k = Some c" "stat_of k c = Running"
    by (rule kernel_okD) blast
  with end_schedule [of k c "{}" k] quiet_refl show ?thesis by blast
qed

text \<open>The semaphores; their value and waiting list change under \<open>semas_ok\<close>.\<close>

lemma core_sema:
  assumes "core low k" and "semas_ok (threads k) ((semas k)(s := f (semas k s)))"
  shows "core low (on_sema s f k)"
  using assms by (simp add: core_def)

lemma quiet_sema:
  "set (suspend_thread (f (semas k s))) \<subseteq> insert t (set (suspend_thread (semas k s))) \<Longrightarrow> quiet {t} k (on_sema s f k)"
  by (auto simp: quiet_def asleep_def)

lemma quiet_sema0:
  "set (suspend_thread (f (semas k s))) \<subseteq> set (suspend_thread (semas k s)) \<Longrightarrow> quiet A k (on_sema s f k)"
  by (auto simp: quiet_def asleep_def)

lemma semas_update:
  assumes "semas_ok th sm" and "sem_ok x" and "distinct (suspend_thread x)"
    and "\<And>t. t \<in> set (suspend_thread x) \<Longrightarrow>
      t \<in> set (suspend_thread (sm s)) \<or> stat (th t) = Suspend \<and> (\<forall>s. t \<notin> set (suspend_thread (sm s)))"
  shows "semas_ok th (sm(s := x))"
  using assms unfolding semas_ok_def by (simp, metis)

lemma take_ok:
  assumes "kernel_ok k" and "enabled (TakeSem s time) k"
  shows "\<exists>k'. take_semaphore s time k = Inr k' \<and> kernel_ok k' \<and> quiet {} k k'"
proof -
  from assms(1) obtain c where k: "core 0 k" "idle_ok (threads k)" "current_thread k = Some c" "stat_of k c = Running"
    "\<And>t. lock_nest k = 0 \<Longrightarrow> stat_of k t = Ready \<Longrightarrow> prio_of k c \<le> prio_of k t" by (rule kernel_okD) blast
  have sm: "semas_ok (threads k) (semas k)" using k(1) by (simp add: core_def)
  show ?thesis
  proof (cases "0 < sem_value (semas k s) \<or> time = 0")
    case True
    let ?x = "snd (rt_sem_take c (time \<noteq> 0) (semas k s))"
    have list: "suspend_thread ?x = suspend_thread (semas k s)" using True by (auto simp: rt_sem_take_def)
    have take: "take_semaphore s time k = Inr (on_sema s (\<lambda>_. ?x) k)"
      using True k(3) by (auto simp: take_semaphore_def rt_sem_take_def)
    have "sem_ok ?x" using sm True by (auto simp: semas_ok_def sem_ok_def rt_sem_take_def word_gt_0)
    then have "semas_ok (threads k) ((semas k)(s := ?x))"
      using sm by (intro semas_update) (auto simp: list semas_ok_def)
    then have "core 0 (on_sema s (\<lambda>_. ?x) k)" using k(1) by (intro core_sema)
    moreover have "quiet {} k (on_sema s (\<lambda>_. ?x) k)" by (rule quiet_sema0) (simp add: list)
    ultimately show ?thesis using take k by (auto simp: kernel_ok_def settled_def)
  next
    case False
    then have en: "lock_nest k = 0" "c \<noteq> IDLE" "time < tick_half \<or> sint time < 0"
      using assms(2) k(3) by (auto simp: can_wait_def tick_half)
    let ?k0 = "on_thread c (error_update (\<lambda>_. RT_EOK)) k"
    have k0: "core 0 ?k0" "idle_ok (threads ?k0)" "current_thread ?k0 = Some c" "stat_of ?k0 c = Running"
      "lock_nest ?k0 = 0" "semas ?k0 = semas k"
      using k(1-4) en(1) by (simp_all add: core_keep idle_ok_def)
    from suspend_current [OF k0(1-4) en(2)] obtain k1 where k1: "rt_thread_suspend c ?k0 = Inr k1" "core 0 k1"
      "idle_ok (threads k1)" "current_thread k1 = Some c" "lock_nest k1 = 0" "stat_of k1 c = Suspend"
      "quiet {c} ?k0 k1" "\<And>s. c \<notin> set (suspend_thread (semas k1 s))" "semas k1 = semas k"
      using k0(5,6) by auto
    let ?k2 = "on_sema s (\<lambda>sm. snd (rt_sem_take c True sm)) k1"
    have x: "snd (rt_sem_take c True (semas k1 s)) = (semas k1 s)\<lparr>suspend_thread := suspend_thread (semas k1 s) @ [c]\<rparr>"
      using False k1(9) by (simp add: rt_sem_take_def)
    have sm1: "semas_ok (threads k1) (semas k1)" using k1(2) by (simp add: core_def)
    have "sem_value (semas k1 s) = 0" using False k1(9) by (simp add: word_gt_0)
    then have "semas_ok (threads k1) ((semas k1)(s := snd (rt_sem_take c True (semas k1 s))))"
      unfolding x using sm1 k1(6,8) by (intro semas_update) (auto simp: sem_ok_def semas_ok_def)
    then have k2: "core 0 ?k2" using k1(2) by (intro core_sema) simp_all
    have "quiet {c} k1 ?k2" by (rule quiet_sema) (simp add: x)
    with k1(7) quiet_thread [of c k] have q2: "quiet {c} k ?k2" by (blast intro: quiet_trans)
    have "\<exists>k3. (if 0 < sint time then start_thread_timer c time ?k2 else Inr ?k2) = Inr k3 \<and> core 0 k3 \<and>
        threads k3 = threads k1 \<and> current_thread k3 = Some c \<and> lock_nest k3 = 0 \<and> quiet {c} k k3"
    proof (cases "0 < sint time")
      case True
      with en(3) have "time < tick_half" by auto
      from thread_timer_ok [OF k2 _ this, of c] k1(4-6) obtain k3 where k3: "start_thread_timer c time ?k2 = Inr k3"
        "core 0 k3" "threads k3 = threads k1" "current_thread k3 = Some c" "lock_nest k3 = 0" "quiet {c} ?k2 k3"
        by auto
      then show ?thesis using True quiet_trans [OF q2 k3(6)] by simp
    next
      case False
      then show ?thesis using k2 q2 k1(4,5) by simp
    qed
    then obtain k3 where k3: "(if 0 < sint time then start_thread_timer c time ?k2 else Inr ?k2) = Inr k3" "core 0 k3"
      "threads k3 = threads k1" "current_thread k3 = Some c" "lock_nest k3 = 0" "quiet {c} k k3" by blast
    have "idle_ok (threads k3)" using k1(3) k3(3) by simp
    from end_schedule [OF k3(2) this k3(4) disjI1 [OF k3(5)] k3(6)] obtain k4 where k4: "rt_schedule k3 = Inr k4"
      "kernel_ok k4" "quiet {c} k k4" by blast
    obtain x where "rt_sem_take c (time \<noteq> 0) (semas k s) = (Suspended, x)"
      using False by (simp add: rt_sem_take_def)
    then have "take_semaphore s time k = Inr k4"
      using k(3) k1(1) k3(1) k4(1) by (simp add: take_semaphore_def Let_def)
    moreover have "quiet {} k k4" by (rule quiet_awake [OF _ k4(3)]) (simp add: k(4))
    ultimately show ?thesis using k4(2) by blast
  qed
qed

text \<open>Resuming threads that wait.\<close>

definition runs_on :: "nat \<Rightarrow> kernel \<Rightarrow> bool" where
  "runs_on c k \<longleftrightarrow> core 0 k \<and> idle_ok (threads k) \<and> current_thread k = Some c \<and> stat_of k c = Running"

lemma runs_on_resume:
  assumes "runs_on c k"
  shows "runs_on c (rt_thread_resume t k)"
proof -
  from assms have k: "core 0 k" "idle_ok (threads k)" "current_thread k = Some c" "stat_of k c = Running"
    by (simp_all add: runs_on_def)
  note r = resume_ok [OF k(1), where t = t]
  have "stat_of (rt_thread_resume t k) c = Running"
    using r(4) [of c] r(5) k(4) by (cases "t = c") (simp_all add: awake_def)
  with r(1,2) k(3) resume_idle [OF k(1,2)] show ?thesis by (simp add: runs_on_def)
qed

lemma runs_on_schedule:
  assumes "runs_on c k" and "quiet A k0 k"
  shows "\<exists>k'. rt_schedule k = Inr k' \<and> kernel_ok k' \<and> quiet A k0 k'"
  using end_schedule [of k c A k0] assms unfolding runs_on_def by blast

lemma kernel_runs_on: "kernel_ok k \<Longrightarrow> \<exists>c. runs_on c k"
  by (auto simp: runs_on_def elim: kernel_okD)

lemma resume_step:
  assumes "kernel_ok k"
  shows "\<exists>k'. rt_schedule (rt_thread_resume t k) = Inr k' \<and> kernel_ok k' \<and> quiet {t} k k'"
proof -
  obtain c where c: "runs_on c k" using kernel_runs_on [OF assms] by blast
  from runs_on_schedule [OF runs_on_resume [OF c] quiet_resume] show ?thesis by blast
qed

text \<open>The threads a semaphore lets go do not sleep: they wait at it.\<close>

lemma quiet_waiters:
  assumes "\<And>t. t \<in> A \<Longrightarrow> \<exists>s. t \<in> set (suspend_thread (semas k s))" and "quiet A k k'"
  shows "quiet {} k k'"
  using assms by (auto simp: quiet_def asleep_def)

lemma semas_released:
  assumes "semas_ok th sm" and "sm s = x" and "suspend_thread x = t # ts"
  shows "semas_ok th (sm(s := x\<lparr>suspend_thread := ts\<rparr>))"
proof (rule semas_update [OF assms(1)])
  have "sem_ok x \<and> distinct (suspend_thread x)" using assms(1,2) unfolding semas_ok_def by blast
  then show "sem_ok (x\<lparr>suspend_thread := ts\<rparr>)" "distinct (suspend_thread (x\<lparr>suspend_thread := ts\<rparr>))"
    using assms(3) by (auto simp: sem_ok_def)
qed (use assms in simp)

lemma release_ok:
  assumes "kernel_ok k"
  shows "\<exists>k'. release_semaphore s k = Inr k' \<and> kernel_ok k' \<and> quiet {} k k'"
proof -
  obtain c where c: "runs_on c k" using kernel_runs_on [OF assms] by blast
  then have sm: "semas_ok (threads k) (semas k)" by (simp add: runs_on_def core_def)
  show ?thesis
  proof (cases "suspend_thread (semas k s)")
    case Nil
    let ?k1 = "on_sema s (\<lambda>sm. sm\<lparr>sem_value := sem_value sm + 1\<rparr>) k"
    have "semas_ok (threads k) ((semas k)(s := (semas k s)\<lparr>sem_value := sem_value (semas k s) + 1\<rparr>))"
      using sm Nil by (intro semas_update) (auto simp: sem_ok_def)
    then have "runs_on c ?k1" using c by (simp add: runs_on_def core_sema)
    then have "kernel_ok ?k1" using assms by (auto simp: kernel_ok_def settled_def runs_on_def)
    moreover have "release_semaphore s k = Inr ?k1"
      by (simp add: release_semaphore_def rt_sem_release_def Nil on_sema_def)
    moreover have "quiet {} k ?k1" by (rule quiet_sema0) simp
    ultimately show ?thesis by blast
  next
    case (Cons t ts)
    let ?k1 = "on_sema s (\<lambda>sm. sm\<lparr>suspend_thread := ts\<rparr>) k"
    let ?k2 = "rt_thread_resume t ?k1"
    have "semas_ok (threads k) ((semas k)(s := (semas k s)\<lparr>suspend_thread := ts\<rparr>))"
      using semas_released [OF sm refl Cons] .
    then have k1: "runs_on c ?k1" using c by (simp add: runs_on_def core_sema)
    have "quiet {t} k ?k1" by (rule quiet_sema0) (use Cons in auto)
    moreover have "quiet {t} ?k1 ?k2" by (rule quiet_resume)
    ultimately have "quiet {t} k ?k2" by (rule quiet_trans)
    then have "quiet {} k ?k2" by (rule quiet_waiters [rotated]) (use Cons in \<open>auto intro: exI [of _ s]\<close>)
    with runs_on_schedule [OF runs_on_resume [OF k1]] obtain k3 where
      "rt_schedule ?k2 = Inr k3" "kernel_ok k3" "quiet {} k k3" by blast
    moreover have "release_semaphore s k = rt_schedule ?k2"
      by (simp add: release_semaphore_def rt_sem_release_def Cons on_sema_def)
    ultimately show ?thesis by auto
  qed
qed

lemma runs_on_error: "runs_on c k \<Longrightarrow> runs_on c (on_thread t (error_update f) k)"
  by (auto simp: runs_on_def core_keep idle_ok_def)

lemma reset_fold:
  assumes "runs_on c k"
  shows "runs_on c (fold (\<lambda>t k. rt_thread_resume t (on_thread t (error_update (\<lambda>_. e)) k)) ts k) \<and>
    quiet (set ts) k (fold (\<lambda>t k. rt_thread_resume t (on_thread t (error_update (\<lambda>_. e)) k)) ts k)"
  using assms
proof (induction ts arbitrary: k)
  case (Cons t ts)
  let ?k1 = "on_thread t (error_update (\<lambda>_. e)) k" and ?f = "\<lambda>t k. rt_thread_resume t (on_thread t (error_update (\<lambda>_. e)) k)"
  have k1: "runs_on c ?k1" using Cons.prems by (rule runs_on_error)
  have "quiet {t} ?k1 (?f t k)" by (rule quiet_resume)
  then have "quiet {t} k (?f t k)" using quiet_thread quiet_trans by blast
  with Cons.IH [OF runs_on_resume [OF k1, of t]] show ?case
    by (auto intro: quiet_trans quiet_mono)
qed (simp add: quiet_refl)

lemma reset_ok:
  assumes "kernel_ok k"
  shows "\<exists>k'. reset_semaphore s v k = Inr k' \<and> kernel_ok k' \<and> quiet {} k k'"
proof -
  obtain c where c: "runs_on c k" using kernel_runs_on [OF assms] by blast
  then have sm: "semas_ok (threads k) (semas k)" by (simp add: runs_on_def core_def)
  let ?ts = "suspend_thread (semas k s)" and ?x = "\<lparr>sem_value = v, suspend_thread = []\<rparr>"
  let ?k1 = "on_sema s (\<lambda>_. ?x) k" and ?f = "\<lambda>t k. rt_thread_resume t (on_thread t (error_update (\<lambda>_. - RT_ERROR)) k)"
  have "semas_ok (threads k) ((semas k)(s := ?x))" using sm by (intro semas_update) (auto simp: sem_ok_def)
  then have k1: "runs_on c ?k1" using c by (simp add: runs_on_def core_sema)
  have "quiet (set ?ts) k ?k1" by (rule quiet_sema0) simp
  moreover note reset_fold [OF k1, of "- RT_ERROR" ?ts]
  ultimately have "quiet (set ?ts) k (fold ?f ?ts ?k1)" and "runs_on c (fold ?f ?ts ?k1)"
    by (auto intro: quiet_trans)
  moreover from this(1) have "quiet {} k (fold ?f ?ts ?k1)" by (rule quiet_waiters [rotated]) blast
  moreover have "reset_semaphore s v k = rt_schedule (fold ?f ?ts ?k1)"
    by (simp add: reset_semaphore_def rt_sem_reset_def Let_def)
  ultimately show ?thesis using runs_on_schedule by auto
qed

text \<open>Starting a thread.\<close>

lemma core_start:
  assumes "core 0 k" and "stat_of k t = Init"
  shows "core 0 (on_thread t (\<lambda>th. th\<lparr>current_priority := init_priority th,
    number_mask := push_bit (unat (init_priority th)) 1, stat := Suspend, stat_yield := False\<rparr>) k)"
proof -
  let ?x = "(threads k t)\<lparr>current_priority := init_priority (threads k t),
    number_mask := push_bit (unat (init_priority (threads k t))) 1, stat := Suspend, stat_yield := False\<rparr>"
  note k = assms(1) [unfolded core_def]
  have "rows_ok ((threads k)(t := ?x)) (priority_table k)" using k assms(2) by (simp add: rows_same)
  moreover have "masks_ok ((threads k)(t := ?x))"
    using k by (simp add: masks_ok_def word_less_nat_alt)
  moreover have "run_ok ((threads k)(t := ?x)) (current_thread k)"
    using k assms(2) by (auto simp: run_ok_def)
  moreover have "semas_ok ((threads k)(t := ?x)) (semas k)" using k by (auto simp: semas_ok_def)
  moreover have "alarms_ok ((threads k)(t := ?x)) (ticker k)" using k by (auto simp: alarms_ok_def)
  ultimately show ?thesis using k by (simp add: core_def)
qed

lemma startup_ok:
  assumes "kernel_ok k" and "enabled (Startup t) k"
  shows "\<exists>k'. rt_thread_startup t k = Inr k' \<and> kernel_ok k' \<and> quiet {} k k'"
proof -
  obtain c where c: "runs_on c k" using kernel_runs_on [OF assms(1)] by blast
  from assms(2) have init: "stat_of k t = Init" by simp
  with c have neq: "t \<noteq> c" "t \<noteq> IDLE" by (auto simp: runs_on_def idle_ok_def)
  let ?f = "\<lambda>th. th\<lparr>current_priority := init_priority th,
    number_mask := push_bit (unat (init_priority th)) 1, stat := Suspend, stat_yield := False\<rparr>"
  let ?k1 = "on_thread t ?f k"
  have k1: "runs_on c ?k1" using c init neq core_start [of k t] by (simp add: runs_on_def idle_ok_def)
  have "quiet {t} k ?k1" by (rule quiet_thread)
  then have "quiet {t} k (rt_thread_resume t ?k1)" using quiet_resume quiet_trans by blast
  then have "quiet {} k (rt_thread_resume t ?k1)" by (rule quiet_awake [rotated]) (simp add: init)
  from runs_on_schedule [OF runs_on_resume [OF k1] this] obtain k2 where
    "rt_schedule (rt_thread_resume t ?k1) = Inr k2" "kernel_ok k2" "quiet {} k k2" by blast
  moreover have "current_thread (rt_thread_resume t ?k1) \<noteq> None"
    using runs_on_resume [OF k1] by (simp add: runs_on_def)
  ultimately show ?thesis using init by (simp add: rt_thread_startup_def Let_def)
qed

text \<open>A thread that suspends itself, and the lock.\<close>

lemma suspend_self_ok:
  assumes "kernel_ok k" and "enabled SuspendSelf k" and "current_thread k = Some c"
  shows "\<exists>k'. bind_r (rt_thread_suspend c k) rt_schedule = Inr k' \<and> kernel_ok k' \<and> quiet {} k k'"
proof -
  from assms(1) obtain c' where k: "core 0 k" "idle_ok (threads k)" "current_thread k = Some c'" "stat_of k c' = Running"
    by (rule kernel_okD) blast
  with assms have c: "c' = c" and en: "c' \<noteq> IDLE" "lock_nest k = 0" by (simp_all add: can_wait_def)
  from suspend_current [OF k en(1)] en(2) obtain k1 where k1: "rt_thread_suspend c' k = Inr k1" "core 0 k1"
    "idle_ok (threads k1)" "current_thread k1 = Some c'" "lock_nest k1 = 0" "quiet {c'} k k1" by auto
  have "quiet {} k k1" by (rule quiet_awake [OF _ k1(6)]) (simp add: k(4))
  from end_schedule [OF k1(2-4) disjI1 [OF k1(5)] this] k1(1) c show ?thesis by auto
qed

lemma exit_ok:
  assumes "kernel_ok k"
  shows "\<exists>k'. rt_exit_critical k = Inr k' \<and> kernel_ok k' \<and> quiet {} k k'"
proof -
  obtain c where c: "runs_on c k" using kernel_runs_on [OF assms] by blast
  have same: "runs_on c (k\<lparr>lock_nest := n\<rparr>)" "quiet {} k (k\<lparr>lock_nest := n\<rparr>)" for n
    using c by (auto simp: runs_on_def core_def quiet_def asleep_def)
  show ?thesis
  proof (cases "sint (lock_nest k - 1) \<le> 0")
    case True
    with runs_on_schedule [OF same, of 0] c show ?thesis
      by (auto simp: rt_exit_critical_def Let_def runs_on_def)
  next
    case False
    then have "lock_nest k - 1 \<noteq> 0" by auto
    then have "kernel_ok (k\<lparr>lock_nest := lock_nest k - 1\<rparr>)"
      using same(1) [of "lock_nest k - 1"] by (simp add: kernel_ok_def settled_def runs_on_def)
    with False same(2) show ?thesis by (simp add: rt_exit_critical_def Let_def)
  qed
qed

lemma enter_ok:
  assumes "kernel_ok k" and "enabled EnterCritical k"
  shows "kernel_ok (rt_enter_critical k) \<and> quiet {} k (rt_enter_critical k)"
proof -
  obtain c where c: "runs_on c k" using kernel_runs_on [OF assms(1)] by blast
  have "unat (lock_nest k) < 0x7FFF" using assms(2) by (simp add: word_less_nat_alt)
  then have "unat (lock_nest k + 1) \<noteq> 0" by (simp add: unat_word_ariths)
  then have "lock_nest k + 1 \<noteq> 0" by auto
  with c show ?thesis
    by (auto simp: rt_enter_critical_def kernel_ok_def settled_def runs_on_def core_def quiet_def asleep_def)
qed

section \<open>The tick\<close>

text \<open>Who could run before can run after.\<close>

definition stays_awake :: "kernel \<Rightarrow> kernel \<Rightarrow> bool" where
  "stays_awake k k' \<longleftrightarrow> (\<forall>t. awake (stat_of k t) \<longrightarrow> awake (stat_of k' t))"

lemma timeout_ok:
  assumes "core low k" and "idle_ok (threads k)" and "current_thread k = Some c" and "stat_of k c = Running"
    and "stat_of k t = Suspend" and "t \<notin> set (rt_timer_list (ticker k))"
  shows "\<exists>k'. rt_thread_timeout t k = Inr k' \<and> core low k' \<and> idle_ok (threads k') \<and> settled k' \<and>
    ticker k' = ticker k \<and> stays_awake k k' \<and> awake (stat_of k' t) \<and> quiet {t} k k'"
proof -
  let ?k1 = "on_thread t (error_update (\<lambda>_. - RT_ETIMEOUT)) k"
  let ?k2 = "rt_schedule_insert_thread t (rt_list_remove t ?k1)"
  have "c \<noteq> t" "t \<noteq> IDLE" using assms(2,4,5) by (auto simp: idle_ok_def)
  have "core low ?k1" using assms(1) by (simp add: core_keep)
  then have "core low ?k2" using assms(5,6) by (intro core_wake) simp_all
  moreover have "idle_ok (threads ?k2)" using assms(2) \<open>t \<noteq> IDLE\<close> by (simp add: idle_ok_def)
  moreover have "current_thread ?k2 = Some c" "stat_of ?k2 c = Running"
    using assms(3,4) \<open>c \<noteq> t\<close> by simp_all
  ultimately obtain k3 where k3: "rt_schedule ?k2 = Inr k3" "core low k3" "settled k3" "resched ?k2 k3"
    using schedule_ok [of low ?k2 c] by blast
  note awake = resched_awake [OF k3(4)]
  have "idle_ok (threads k3)"
    using \<open>idle_ok (threads ?k2)\<close> awake [of IDLE] by (simp add: idle_ok_def awake_def)
  moreover have "ticker k3 = ticker k" using k3(4) by (simp add: resched_def)
  moreover have "stays_awake k k3" "awake (stat_of k3 t)" by (simp_all add: stays_awake_def awake) (simp_all add: awake_def)
  moreover have "quiet {t} k ?k2" by (simp add: quiet_def asleep_def)
  then have "quiet {t} k k3" using quiet_resched [OF k3(4)] quiet_trans by blast
  ultimately show ?thesis using k3 assms(5) by (simp add: rt_thread_timeout_def)
qed

text \<open>The check wakes exactly the sleepers whose time has come.\<close>

lemma stays_awake_trans: "stays_awake k k' \<Longrightarrow> stays_awake k' k'' \<Longrightarrow> stays_awake k k''"
  by (simp add: stays_awake_def)

lemma check_ok:
  assumes "core (- 1) k" and "idle_ok (threads k)" and "settled k"
    and "length (rt_timer_list (ticker k)) < fuel"
  shows "\<exists>k'. rt_timer_check fuel k = Inr k' \<and> core 1 k' \<and> idle_ok (threads k') \<and> settled k' \<and> stays_awake k k' \<and>
    (\<forall>t d. asleep k t d \<longrightarrow> (if 0 < d then asleep k' t d else awake (stat_of k' t)))"
  using assms
proof (induction fuel arbitrary: k)
  case (Suc fuel)
  have clock: "clock_ok (- 1) (ticker k)" and alarms: "alarms_ok (threads k) (ticker k)"
    using Suc.prems(1) by (simp_all add: core_def)
  show ?case
  proof (cases "due_timer (rt_timer_list (ticker k)) (ticker k)")
    case None
    from due_timer_None [OF clock None] have one: "clock_ok 1 (ticker k)" .
    then have "core 1 k" using Suc.prems(1) by (simp add: core_def)
    moreover have "0 < d" if "asleep k t d" for t d
      using that clock_left [OF one, of t] by (auto simp: asleep_def)
    ultimately show ?thesis using Suc.prems(2,3) None by (auto simp: stays_awake_def)
  next
    case (Some i)
    note i = due_timer_Some [OF clock Some]
    have sleeping: "stat_of k i = Suspend" using alarms i(1) by (simp add: alarms_ok_def)
    obtain c where c: "current_thread k = Some c" "stat_of k c = Running"
      using Suc.prems(3) by (auto simp: settled_def)
    let ?k1 = "on_ticker (timer_remove i) k"
    have "core (- 1) ?k1"
      using Suc.prems(1) clock_ok_remove [OF clock] alarms by (intro core_ticker) (auto simp: alarms_ok_def)
    from timeout_ok [OF this, of c i] Suc.prems(2) c sleeping obtain k2 where k2: "rt_thread_timeout i ?k1 = Inr k2"
      "core (- 1) k2" "idle_ok (threads k2)" "settled k2" "ticker k2 = timer_remove i (ticker k)"
      "stays_awake ?k1 k2" "awake (stat_of k2 i)" "quiet {i} ?k1 k2" by auto
    let ?k3 = "on_ticker (set_timer i (activated_update (\<lambda>_. False))) k2"
    have tick3: "ticker ?k3 = set_timer i (activated_update (\<lambda>_. False)) (timer_remove i (ticker k))"
      using k2(5) by simp
    have "clock_ok (- 1) (ticker ?k3)"
      unfolding tick3 by (rule clock_ok_removeAll [OF clock, of _ i]) simp_all
    moreover have "alarms_ok (threads ?k3) (ticker ?k3)"
      using k2(2) tick3 k2(5) by (auto simp: core_def alarms_ok_def)
    ultimately have k3: "core (- 1) ?k3" "idle_ok (threads ?k3)" "settled ?k3"
      using k2(2-4) by (auto simp: settled_def intro: core_ticker)
    have "length (removeAll i (rt_timer_list (ticker k))) < length (rt_timer_list (ticker k))"
      using i(1) by (rule length_removeAll_less)
    then have "length (rt_timer_list (ticker ?k3)) < fuel" using Suc.prems(4) tick3 by simp
    from Suc.IH [OF k3 this] obtain k4 where k4: "rt_timer_check fuel ?k3 = Inr k4" "core 1 k4"
      "idle_ok (threads k4)" "settled k4" "stays_awake ?k3 k4"
      "\<And>t d. asleep ?k3 t d \<Longrightarrow> if 0 < d then asleep k4 t d else awake (stat_of k4 t)" by blast
    have "\<not> periodic (timers (ticker k2) i)" using k2(2) by (simp add: core_def alarms_ok_def)
    then have "rt_timer_check (Suc fuel) k = Inr k4" using Some k2(1) k4(1) by (simp add: Let_def)
    moreover have "stays_awake k k4"
      using k2(6) k4(5) by (auto simp: stays_awake_def)
    moreover have "if 0 < d then asleep k4 t d else awake (stat_of k4 t)" if t: "asleep k t d" for t d
    proof (cases "t = i")
      case True
      with t i(2) have "\<not> 0 < d" by (simp add: asleep_def)
      moreover have "awake (stat_of k4 i)" using k2(7) k4(5) by (simp add: stays_awake_def)
      ultimately show ?thesis using True by simp
    next
      case False
      with t have "asleep ?k1 t d" by (simp add: asleep_def)
      with k2(8) False have "asleep k2 t d" by (simp add: quiet_def)
      with False have "asleep ?k3 t d" by (simp add: asleep_def left_def)
      then show ?thesis by (rule k4(6))
    qed
    ultimately show ?thesis using k4(2-4) by blast
  qed
qed simp

lemma core_weaken: "core l k \<Longrightarrow> l' \<le> l \<Longrightarrow> core l' k"
  by (auto simp: core_def intro: clock_ok_weaken)

lemma tick_ok:
  assumes "kernel_ok k"
  shows "\<exists>k'. rt_tick_increase (check_fuel k) k = Inr k' \<and> kernel_ok k' \<and>
    (\<forall>t d. asleep k t d \<longrightarrow> (if 1 < d then asleep k' t (d - 1) else awake (stat_of k' t)))"
proof -
  from assms obtain c where k: "core 0 k" "idle_ok (threads k)" "current_thread k = Some c" "stat_of k c = Running"
    "\<And>t. lock_nest k = 0 \<Longrightarrow> stat_of k t = Ready \<Longrightarrow> prio_of k c \<le> prio_of k t" by (rule kernel_okD) blast
  have clock: "clock_ok 0 (ticker k)" and alarms: "alarms_ok (threads k) (ticker k)"
    using k(1) by (simp_all add: core_def)
  let ?k1 = "on_ticker (\<lambda>c. c\<lparr>rt_tick := rt_tick c + 1\<rparr>) k"
  let ?k2 = "on_thread c (\<lambda>th. th\<lparr>remaining_tick := remaining_tick th - 1\<rparr>) ?k1"
  let ?k3 = "on_thread c (\<lambda>th. th\<lparr>remaining_tick := slice_tick th, stat_yield := True\<rparr>) ?k2"
  have "core (- 1) ?k1"
    using k(1) clock_ok_tick [OF clock] alarms by (intro core_ticker) (auto simp: alarms_ok_def)
  then have k2: "core (- 1) ?k2" "core (- 1) ?k3" by (simp_all add: core_keep)
  have idle: "idle_ok (threads ?k2)" "idle_ok (threads ?k3)" using k(2) by (auto simp: idle_ok_def)
  have "\<exists>k4. (if remaining_tick (threads ?k2 c) = 0 then rt_schedule ?k3 else Inr ?k2) = Inr k4 \<and> core (- 1) k4 \<and>
      idle_ok (threads k4) \<and> settled k4 \<and> resched ?k1 k4"
  proof (cases "remaining_tick (threads ?k2 c) = 0")
    case True
    from schedule_ok [OF k2(2) idle(2), of c] k(3,4) obtain k4 where k4: "rt_schedule ?k3 = Inr k4"
      "core (- 1) k4" "settled k4" "resched ?k3 k4" by auto
    have "resched ?k1 ?k3" by (simp add: resched_def)
    then have "resched ?k1 k4" using k4(4) by (rule resched_trans)
    moreover have "idle_ok (threads k4)"
      using idle(2) resched_awake [OF k4(4), of IDLE] by (simp add: idle_ok_def awake_def)
    ultimately show ?thesis using True k4 by simp
  next
    case False
    have "settled ?k2" using k(3-5) by (auto simp: settled_def)
    moreover have "resched ?k1 ?k2" by (simp add: resched_def)
    ultimately show ?thesis using False k2(1) idle(1) by simp
  qed
  then obtain k4 where k4: "(if remaining_tick (threads ?k2 c) = 0 then rt_schedule ?k3 else Inr ?k2) = Inr k4"
    "core (- 1) k4" "idle_ok (threads k4)" "settled k4" "resched ?k1 k4" by blast
  have "ticker k4 = ticker ?k1" using k4(5) by (simp add: resched_def)
  then have "length (rt_timer_list (ticker k4)) < check_fuel k" by (simp add: check_fuel_def)
  from check_ok [OF k4(2-4) this] obtain k5 where k5: "rt_timer_check (check_fuel k) k4 = Inr k5" "core 1 k5"
    "idle_ok (threads k5)" "settled k5"
    "\<And>t d. asleep k4 t d \<Longrightarrow> if 0 < d then asleep k5 t d else awake (stat_of k5 t)" by blast
  have "rt_tick_increase (check_fuel k) k = Inr k5"
    using k(3) k4(1) k5(1) by (simp add: rt_tick_increase_def Let_def)
  moreover have "kernel_ok k5" using core_weaken [OF k5(2), of 0] k5(3,4) by (simp add: kernel_ok_def)
  moreover have "if 1 < d then asleep k5 t (d - 1) else awake (stat_of k5 t)" if t: "asleep k t d" for t d
  proof -
    from t have "0 \<le> d" using clock_left [OF clock, of t] by (auto simp: asleep_def)
    with t have "asleep ?k1 t (d - 1)" using left_tick [of "ticker k" t] by (simp add: asleep_def)
    then have "asleep k4 t (d - 1)" using quiet_resched [OF k4(5), of "{}"] by (simp add: quiet_def)
    from k5(5) [OF this] show ?thesis by simp
  qed
  ultimately show ?thesis by blast
qed

section \<open>Every call keeps the kernel well-formed\<close>

lemma wake_timer_ok:
  assumes "kernel_ok k"
  shows "\<exists>k'. wake_timer_thread k = Inr k' \<and> kernel_ok k' \<and> quiet {TIMER} k k'"
  using resume_step [OF assms, of TIMER] assms quiet_refl by (auto simp: wake_timer_thread_def)

text \<open>A call that keeps the rules of \<open>enabled\<close> gets through.\<close>

lemma kernel_call_ok:
  assumes "kernel_ok k" and "enabled ev k"
  shows "\<exists>k'. kernel_call ev k = Inr k' \<and> kernel_ok k' \<and> (ev \<noteq> Tick \<longrightarrow> quiet (resumed ev) k k')"
proof -
  note True = assms(2)
  obtain c where c: "current_thread k = Some c" using assms by (auto simp: kernel_ok_def settled_def)
  show ?thesis
  proof (cases ev)
    case Tick
    with True tick_ok [OF assms(1)] show ?thesis by (auto simp: kernel_call_def)
  next
    case (Sleep n)
    with True sleep_ok [OF assms(1) _ c, of n] show ?thesis by (auto simp: kernel_call_def)
  next
    case (DelayUntil woken inc)
    with True delay_until_ok [OF assms(1) _ c, of woken inc] show ?thesis by (auto simp: kernel_call_def)
  next
    case Yield
    with True yield_ok [OF assms(1)] show ?thesis by (auto simp: kernel_call_def)
  next
    case (TakeSem s time)
    with True take_ok [OF assms(1), of s time] show ?thesis by (auto simp: kernel_call_def)
  next
    case (ReleaseSem s)
    with True release_ok [OF assms(1), of s] show ?thesis by (auto simp: kernel_call_def)
  next
    case (ResetSem s v)
    with True reset_ok [OF assms(1), of s v] show ?thesis by (auto simp: kernel_call_def)
  next
    case (Startup t)
    with True startup_ok [OF assms(1), of t] show ?thesis by (auto simp: kernel_call_def)
  next
    case SuspendSelf
    with True suspend_self_ok [OF assms(1) _ c] c show ?thesis by (auto simp: kernel_call_def)
  next
    case (ResumeThread t)
    with True resume_step [OF assms(1), of t] show ?thesis by (auto simp: kernel_call_def)
  next
    case StartSoftTimer
    with wake_timer_ok [OF assms(1)] show ?thesis by (auto simp: kernel_call_def)
  next
    case EnterCritical
    with True enter_ok [OF assms(1)] show ?thesis by (auto simp: kernel_call_def)
  next
    case ExitCritical
    with True exit_ok [OF assms(1)] show ?thesis by (auto simp: kernel_call_def)
  qed
qed

lemma kernel_step_ok:
  assumes "kernel_ok k"
  shows "\<exists>k'. kernel_step ev k = Inr k' \<and> kernel_ok k' \<and> (ev \<noteq> Tick \<longrightarrow> quiet (resumed ev) k k')"
  using kernel_call_ok [OF assms, of ev] assms quiet_refl by (simp add: kernel_step_def)

end
