(* ===== verification/Kernel_Run.thy ===== *)
theory Kernel_Run
  imports Kernel_Sound
begin

text \<open>
  Runs of the kernel from its start: they never fail, the most urgent thread that can run does, and
  a thread sleeps exactly as long as it asked to.
\<close>

section \<open>The start\<close>

lemma created_cases:
  "created pt = no_thread \<or> stat (created pt) = Init \<and> init_priority (created pt) < 32"
  by (simp add: created_def rt_thread_init_def RT_THREAD_PRIORITY_MAX_def)

lemma cold_cases:
  "stat_of kernel_cold t = Init \<or> stat_of kernel_cold t = Close" "init_priority (threads kernel_cold t) < 32"
  using created_cases [of "thread_table ! t"] by (auto simp: kernel_cold_def no_thread_def)

lemma cold_ok: "core 0 kernel_cold"
proof -
  have stat: "stat_of kernel_cold t \<notin> {Ready, Running, Suspend}" for t
    using cold_cases(1) [of t] by auto
  have "masks_ok (threads kernel_cold)" using cold_cases unfolding masks_ok_def by blast
  moreover have "rows_ok (threads kernel_cold) (priority_table kernel_cold)"
    using stat unfolding rows_ok_def by (simp add: kernel_cold_def)
  moreover have "run_ok (threads kernel_cold) None"
    using stat unfolding run_ok_def by blast
  moreover have "current_thread kernel_cold = None" by (simp add: kernel_cold_def)
  ultimately show ?thesis
    by (simp add: core_def) (simp add: kernel_cold_def group_ok_def semas_ok_def sem_ok_def rt_sem_init_def
        alarms_ok_def clock_ok_def rt_timer_init_def)
qed

text \<open>Before the scheduler starts, a started thread waits in its row.\<close>

lemma boot_startup:
  assumes "core 0 k" and "current_thread k = None" and "stat_of k t = Init"
  shows "\<exists>k'. rt_thread_startup t k = Inr k' \<and> core 0 k' \<and> current_thread k' = None \<and>
    threads k' = (threads k)(t := threads k' t) \<and> stat_of k' t = Ready"
proof -
  let ?f = "\<lambda>th. th\<lparr>current_priority := init_priority th,
    number_mask := push_bit (unat (init_priority th)) 1, stat := Suspend, stat_yield := False\<rparr>"
  let ?k = "rt_thread_resume t (on_thread t ?f k)"
  from core_start [OF assms(1,3)] have "core 0 ?k" by (rule resume_ok(1))
  moreover have "current_thread ?k = None" "threads ?k = (threads k)(t := threads ?k t)" "stat_of ?k t = Ready"
    using assms(2) by (simp_all add: rt_thread_resume_def)
  ultimately show ?thesis using assms(3) by (intro exI [of _ ?k]) (simp add: rt_thread_startup_def Let_def)
qed

lemma core_first:
  assumes "core 0 k" and "current_thread k = None" and "stat_of k to = Ready"
  shows "core 0 (on_thread to (\<lambda>th. th\<lparr>stat := Running, stat_yield := False\<rparr>)
    (rt_schedule_remove_thread to (k\<lparr>current_thread := Some to\<rparr>)))"
proof -
  note k = assms(1) [unfolded core_def]
  let ?x = "(threads k to)\<lparr>stat := Running, stat_yield := False\<rparr>"
  from k assms(3) have m: "prio_of k to < 32" "number_mask (threads k to) = push_bit (prio_of k to) 1"
    by (auto simp: masks_ok_def)
  have "stat_of k t \<noteq> Running" for t
    using k assms(2) unfolding run_ok_def by auto
  then have "run_ok ((threads k)(to := ?x)) (Some to)" by (intro run_switch) simp_all
  moreover have "rows_ok ((threads k)(to := ?x)) (\<lambda>p. removeAll to (priority_table k p))"
    using k by (intro rows_remove) simp_all
  moreover have "group_ok (if removeAll to (priority_table k (prio_of k to)) = []
      then ready_group k AND NOT (push_bit (prio_of k to) 1) else ready_group k)
      (\<lambda>p. removeAll to (priority_table k p))"
    using k m(1) by (intro group_remove [of _ _ "threads k"]) simp_all
  moreover have "masks_ok ((threads k)(to := ?x))" using k assms(3) by (intro masks_keep) simp_all
  moreover have "semas_ok ((threads k)(to := ?x))
      (\<lambda>s. (semas k s)\<lparr>suspend_thread := removeAll to (suspend_thread (semas k s))\<rparr>)"
    using k by (intro semas_remove) simp_all
  moreover have "alarms_ok ((threads k)(to := ?x)) (ticker k)"
    using k assms(3) by (intro alarms_thread disjI1 alarms_suspended [of "threads k"]) simp_all
  ultimately show ?thesis using k m(2) by (simp add: core_def split: if_splits)
qed

lemma scheduler_start_ok:
  assumes "core 0 k" and "current_thread k = None" and "stat_of k IDLE = Ready"
  shows "\<exists>k'. rt_system_scheduler_start k = Inr k' \<and> kernel_ok k'"
proof -
  have k: "group_ok (ready_group k) (priority_table k)" "rows_ok (threads k) (priority_table k)"
    "masks_ok (threads k)" using assms(1) by (simp_all add: core_def)
  have "ready_group k \<noteq> 0" using group_zero [of "priority_table k" "threads k" IDLE] k assms(3) by auto
  from group_highest [OF k this] obtain p where p: "rt_ffs (ready_group k) - 1 = p" "priority_table k p \<noteq> []"
    "\<And>t. stat_of k t = Ready \<Longrightarrow> p \<le> prio_of k t" by blast
  then obtain to rest where to: "priority_table k p = to # rest" by (cases "priority_table k p") auto
  then have ready: "stat_of k to = Ready" "prio_of k to = p" using rows_mem [OF k(2), of to p] by simp_all
  let ?k = "on_thread to (\<lambda>th. th\<lparr>stat := Running, stat_yield := False\<rparr>)
    (rt_schedule_remove_thread to (k\<lparr>current_thread := Some to\<rparr>))"
  have "rt_system_scheduler_start k = Inr ?k" using p(1) to by (simp add: rt_system_scheduler_start_def)
  moreover have "core 0 ?k" using assms(1,2) ready(1) by (rule core_first)
  moreover have "idle_ok (threads ?k)" "settled ?k"
    using assms(3) p(3) ready by (auto simp: idle_ok_def settled_def)
  ultimately show ?thesis by (auto simp: kernel_ok_def)
qed

lemma boot_ok: "\<exists>k. rtthread_startup = Inr k \<and> kernel_ok k"
proof -
  have init: "stat_of kernel_cold t = Init" if "t < 8" for t
    using that created_cases [of "thread_table ! t"]
    by (auto simp: less_8 kernel_cold_def thread_table_def created_def rt_thread_init_def RT_THREAD_PRIORITY_MAX_def)
  have none: "current_thread kernel_cold = None" by (simp add: kernel_cold_def)
  from boot_startup [OF cold_ok none init [of MAIN]] obtain k1 where k1: "rt_thread_startup MAIN kernel_cold = Inr k1"
    "core 0 k1" "current_thread k1 = None" "threads k1 = (threads kernel_cold)(MAIN := threads k1 MAIN)" by auto
  from k1(4) init [of TIMER] have "stat_of k1 TIMER = Init" by (metis One_nat_def fun_upd_other zero_neq_one one_less_numeral_iff semiring_norm(76))
  from boot_startup [OF k1(2,3) this] obtain k2 where k2: "rt_thread_startup TIMER k1 = Inr k2"
    "core 0 k2" "current_thread k2 = None" "threads k2 = (threads k1)(TIMER := threads k2 TIMER)" by auto
  have "stat_of k2 IDLE = Init" by (subst k2(4), subst k1(4)) (simp add: init)
  from boot_startup [OF k2(2,3) this] obtain k3 where k3: "rt_thread_startup IDLE k2 = Inr k3"
    "core 0 k3" "current_thread k3 = None" "stat_of k3 IDLE = Ready" by auto
  from scheduler_start_ok [OF k3(2-4)] show ?thesis
    using k1(1) k2(1) k3(1) by (auto simp: rtthread_startup_def)
qed

interpretation kernel: safe_component "\<lambda>k. rtthread_startup = Inr k" kernel_step kernel_ok
proof
  show "kernel_ok k" if "rtthread_startup = Inr k" for k using that boot_ok by (metis sum.inject(2))
  show "kernel_ok k'" if "kernel_ok k" "kernel_step ev k = Inr k'" for k ev k'
    using kernel_step_ok [OF that(1), of ev] that(2) by auto
  show "\<exists>k'. kernel_step ev k = Inr k'" if "kernel_ok k" for k ev
    using kernel_step_ok [OF that] by blast
qed

text \<open>Calls made one after the other as they are, until the first that breaks a rule.\<close>

lemma calls_until_broken:
  assumes "kernel_ok k0"
  shows "(\<exists>k. fold_r kernel_call evs k0 = Inr k \<and> kernel_ok k) \<or>
    (\<exists>before ev after k. evs = before @ ev # after \<and> fold_r kernel_call before k0 = Inr k \<and>
       kernel_ok k \<and> \<not> enabled ev k)"
  using assms
proof (induction evs arbitrary: k0)
  case Nil
  then show ?case by simp
next
  case (Cons ev evs)
  show ?case
  proof (cases "enabled ev k0")
    case False
    with Cons.prems show ?thesis by (metis append_Nil fold_r.simps(1))
  next
    case True
    with kernel_call_ok [OF Cons.prems] obtain k1 where k1: "kernel_call ev k0 = Inr k1" "kernel_ok k1" by blast
    from Cons.IH [OF k1(2)] show ?thesis
    proof
      assume "\<exists>before ev' after k. evs = before @ ev' # after \<and> fold_r kernel_call before k1 = Inr k \<and>
        kernel_ok k \<and> \<not> enabled ev' k"
      then obtain before ev' after k where "ev # evs = (ev # before) @ ev' # after"
        "fold_r kernel_call (ev # before) k0 = Inr k" "kernel_ok k" "\<not> enabled ev' k" using k1(1) by auto
      then show ?thesis by blast
    qed (use k1(1) in simp)
  qed
qed

lemma timer_too_long: "\<not> n < RT_TICK_MAX div 2 \<Longrightarrow> start_thread_timer t n k = Inl AssertFailed"
  by (simp add: start_thread_timer_def on_ticker_r_def rt_timer_start_def timer_set_time_def timer_remove_def
      set_timer_def Let_def)

lemma sleep_too_long:
  assumes "kernel_ok k" and "\<not> n < RT_TICK_MAX div 2"
  shows "kernel_call (Sleep n) k = Inl AssertFailed"
proof -
  obtain c where "current_thread k = Some c" "stat_of k c = Running" using kernel_okD [OF assms(1)] by metis
  with assms(2) show ?thesis
    by (simp add: kernel_call_def rt_thread_sleep_def rt_thread_suspend_def timer_too_long)
qed

text \<open>
  C10: From its start, the kernel gets through every sequence of ticks and calls, up to the first call that
  breaks one of the rules of \<open>enabled\<close>: no assertion fails, no empty row is read, the check of the timers
  ends. After each, the ready lists hold exactly the ready threads, each in the row of its priority, the
  bit map says which rows are not empty, the waiting lists and the timers hold suspended threads only,
  and at most one thread runs. Of the rules, those on times and on starting a thread are the kernel's own
  assertions: a sleep of half the range of the tick counter or more, and the start of a thread that is
  not newly made, fail one.
\<close>

theorem kernel_well_formed:
  "\<exists>k0. rtthread_startup = Inr k0 \<and>
     (\<forall>evs. (\<exists>k. fold_r kernel_call evs k0 = Inr k \<and> kernel_ok k) \<or>
       (\<exists>before ev after k. evs = before @ ev # after \<and> fold_r kernel_call before k0 = Inr k \<and>
          kernel_ok k \<and> \<not> enabled ev k)) \<and>
     (\<forall>k n. kernel_ok k \<longrightarrow> RT_TICK_MAX div 2 \<le> n \<longrightarrow> kernel_call (Sleep n) k = Inl AssertFailed) \<and>
     (\<forall>k t. stat_of k t \<noteq> Init \<longrightarrow> kernel_call (Startup t) k = Inl AssertFailed)"
proof -
  obtain k0 where k0: "rtthread_startup = Inr k0" "kernel_ok k0" using boot_ok by blast
  have "kernel_call (Sleep n) k = Inl AssertFailed" if "kernel_ok k" "RT_TICK_MAX div 2 \<le> n" for k n
    using that by (intro sleep_too_long) (simp_all add: not_less)
  moreover have "kernel_call (Startup t) k = Inl AssertFailed" if "stat_of k t \<noteq> Init" for k t
    using that by (simp add: kernel_call_def rt_thread_startup_def)
  ultimately show ?thesis using k0 calls_until_broken [OF k0(2)] by blast
qed

section \<open>Priorities never change\<close>

definition as_created :: "kernel \<Rightarrow> bool" where
  "as_created k \<longleftrightarrow> (\<forall>t. init_priority (threads k t) = init_priority (threads kernel_cold t) \<and>
     current_priority (threads k t) = init_priority (threads kernel_cold t))"

lemma as_created_cong: "as_created k \<Longrightarrow> threads k' = threads k \<Longrightarrow> as_created k'"
  by (simp add: as_created_def)

lemma as_created_thread:
  "as_created k \<Longrightarrow> init_priority (f (threads k t)) = init_priority (threads k t) \<Longrightarrow>
     current_priority (f (threads k t)) = init_priority (threads k t) \<Longrightarrow> as_created (on_thread t f k)"
  by (simp add: as_created_def)

lemma as_created_current: "as_created k \<Longrightarrow> current_priority (threads k t) = init_priority (threads k t)"
  by (simp add: as_created_def)

lemma as_created_simps [simp]:
  "as_created (on_ticker f k) = as_created k" "as_created (on_sema s g k) = as_created k"
  "as_created (rt_list_remove t k) = as_created k" "as_created (rt_schedule_remove_thread t k) = as_created k"
  "as_created (k\<lparr>current_thread := c\<rparr>) = as_created k" "as_created (k\<lparr>lock_nest := n\<rparr>) = as_created k"
  "as_created (on_thread t (stat_update h) k) = as_created k"
  "as_created (on_thread t (stat_yield_update y) k) = as_created k"
  "as_created (on_thread t (error_update e) k) = as_created k"
  "as_created (rt_schedule_insert_thread t k) = as_created k"
  by (simp_all add: as_created_def) metis+

lemma as_created_switch [simp]: "as_created (switch_to c t b k) = as_created k"
  by (simp add: switch_to_def Let_def)

lemma as_created_resume [simp]: "as_created (rt_thread_resume t k) = as_created k"
  by (simp add: rt_thread_resume_def)

lemma as_created_schedule: "rt_schedule k = Inr k' \<Longrightarrow> as_created k' = as_created k"
  by (auto simp: rt_schedule_def Let_def split: if_splits option.splits list.splits)

lemma as_created_suspend: "rt_thread_suspend t k = Inr k' \<Longrightarrow> as_created k' = as_created k"
  by (auto simp: rt_thread_suspend_def split: if_splits)

lemma as_created_timer: "start_thread_timer t n k = Inr k' \<Longrightarrow> as_created k' = as_created k"
  by (auto simp: start_thread_timer_def on_ticker_r_def map_r_eq_Inr as_created_def)

lemma as_created_timeout: "rt_thread_timeout t k = Inr k' \<Longrightarrow> as_created k' = as_created k"
  by (auto simp: rt_thread_timeout_def dest!: as_created_schedule split: if_splits)

lemma as_created_ticker_r: "on_ticker_r f k = Inr k' \<Longrightarrow> as_created k' = as_created k"
  by (auto simp: on_ticker_r_def map_r_eq_Inr as_created_def)

lemma as_created_check: "rt_timer_check n k = Inr k' \<Longrightarrow> as_created k' = as_created k"
proof (induction n arbitrary: k)
  case (Suc n)
  then show ?case
    by (fastforce simp: Let_def bind_r_eq_Inr dest!: as_created_timeout as_created_ticker_r
        split: option.splits if_splits)
qed simp

lemma as_created_tick:
  assumes "rt_tick_increase n k = Inr k'" and "as_created k"
  shows "as_created k'"
proof -
  from assms(1) obtain t k1 where k: "current_thread k = Some t" "rt_timer_check n k1 = Inr k'"
    "(let k2 = on_thread t (\<lambda>th. th\<lparr>remaining_tick := remaining_tick th - 1\<rparr>)
          (on_ticker (\<lambda>c. c\<lparr>rt_tick := rt_tick c + 1\<rparr>) k)
      in if remaining_tick (threads k2 t) = 0
         then rt_schedule (on_thread t (\<lambda>th. th\<lparr>remaining_tick := slice_tick th, stat_yield := True\<rparr>) k2)
         else Inr k2) = Inr k1"
    by (auto simp: rt_tick_increase_def Let_def bind_r_eq_Inr split: option.splits)
  from k(3) assms(2) have "as_created k1"
    by (auto simp: Let_def dest!: as_created_schedule split: if_splits)
      (auto intro!: as_created_thread simp: as_created_current)
  with as_created_check [OF k(2)] show ?thesis by simp
qed

lemma as_created_step:
  assumes "kernel_step ev k = Inr k'" and "as_created k"
  shows "as_created k'"
proof -
  have resets: "as_created (fold (\<lambda>t k. rt_thread_resume t (on_thread t (error_update (\<lambda>_. - RT_ERROR)) k)) ts k) =
      as_created k" for ts k by (induction ts arbitrary: k) simp_all
  have resumes: "as_created (fold rt_thread_resume ts k) = as_created k" for ts k
    by (induction ts arbitrary: k) simp_all
  note drops = as_created_schedule as_created_suspend as_created_timer
  show ?thesis
  proof (cases ev)
    case Tick
    with assms show ?thesis by (auto simp: kernel_step_def kernel_call_def intro: as_created_tick)
  next
    case (Startup t)
    with assms show ?thesis
      by (auto simp: kernel_step_def kernel_call_def rt_thread_startup_def Let_def dest!: drops split: if_splits
          intro!: as_created_thread)
  qed (use assms in \<open>auto simp: kernel_step_def kernel_call_def rt_thread_sleep_def rt_thread_delay_until_def take_semaphore_def release_semaphore_def
      reset_semaphore_def wake_timer_thread_def rt_enter_critical_def rt_exit_critical_def Let_def bind_r_eq_Inr resets resumes
      split: if_splits option.splits prod.splits take_outcome.splits dest!: drops\<close>)
qed

lemma as_created_run: "fold_r kernel_step evs k = Inr k' \<Longrightarrow> as_created k \<Longrightarrow> as_created k'"
  by (induction evs arbitrary: k) (auto simp: bind_r_eq_Inr dest: as_created_step)

lemma as_created_startup: "rt_thread_startup t k = Inr k' \<Longrightarrow> as_created k \<Longrightarrow> as_created k'"
  by (auto simp: rt_thread_startup_def Let_def dest!: as_created_schedule split: if_splits intro!: as_created_thread)

lemma as_created_boot: "rtthread_startup = Inr k \<Longrightarrow> as_created k"
proof -
  assume boot: "rtthread_startup = Inr k"
  have "current_priority (created pt) = init_priority (created pt)" for pt
    by (simp add: created_def rt_thread_init_def no_thread_def)
  then have "as_created kernel_cold" by (simp add: as_created_def kernel_cold_def no_thread_def)
  moreover have "as_created k'" if "rt_system_scheduler_start k = Inr k'" "as_created k" for k k'
    using that by (auto simp: rt_system_scheduler_start_def split: list.splits
        intro!: as_created_thread as_created_current)
  ultimately show ?thesis
    using boot by (auto simp: rtthread_startup_def bind_r_eq_Inr dest!: as_created_startup)
qed

lemma priorities:
  assumes "rtthread_startup = Inr k0" and "fold_r kernel_step evs k0 = Inr k" and "t < 8"
  shows "prio_of k t = [10, 4, 31, 11, 12, 5, 8, 20] ! t"
proof -
  have "as_created k" using as_created_run [OF assms(2)] as_created_boot [OF assms(1)] by blast
  then have "prio_of k t = unat (init_priority (threads kernel_cold t))" by (simp add: as_created_def)
  with assms(3) show ?thesis
    by (auto simp: less_8 kernel_cold_def thread_table_def created_def rt_thread_init_def RT_THREAD_PRIORITY_MAX_def)
qed

section \<open>Who runs\<close>

lemma reached_ok: "rtthread_startup = Inr k0 \<Longrightarrow> fold_r kernel_step evs k0 = Inr k \<Longrightarrow> kernel_ok k"
  by (rule kernel.inv_reachable)

lemma most_urgent:
  assumes "rtthread_startup = Inr k0" and "fold_r kernel_step evs k0 = Inr k"
  shows "\<exists>c. current_thread k = Some c \<and> stat_of k c = Running \<and>
    (\<forall>t. stat_of k t = Running \<longrightarrow> t = c) \<and>
    (lock_nest k = 0 \<longrightarrow> (\<forall>t. stat_of k t = Ready \<longrightarrow> prio_of k c \<le> prio_of k t))"
proof -
  note ok = reached_ok [OF assms]
  from kernel_okD [OF ok] obtain c where c: "current_thread k = Some c" "stat_of k c = Running"
    "\<And>t. lock_nest k = 0 \<Longrightarrow> stat_of k t = Ready \<Longrightarrow> prio_of k c \<le> prio_of k t" by metis
  have "run_ok (threads k) (current_thread k)" using ok by (simp add: kernel_ok_def core_def)
  then have "t = c" if "stat_of k t = Running" for t
    using that c(1) unfolding run_ok_def by (metis option.inject)
  with c show ?thesis by blast
qed

text \<open>
  C7: Whatever ticks came and whatever calls were made since the start, one thread runs, and unless it
  has locked the scheduler no ready thread is more urgent.
\<close>

theorem most_urgent_runs:
  assumes "rtthread_startup = Inr k0" and "fold_r kernel_step evs k0 = Inr k"
  shows "\<exists>c. current_thread k = Some c \<and> stat_of k c = Running \<and>
    (\<forall>t. stat_of k t = Running \<longrightarrow> t = c) \<and>
    (lock_nest k = 0 \<longrightarrow> (\<forall>t. stat_of k t = Ready \<longrightarrow> prio_of k c \<le> prio_of k t))"
  using assms by (rule most_urgent)

text \<open>
  C9: While the scheduler is not locked, the threads that take the characters off the serial line and
  time out its replies, the shell and the idle thread run only when the main thread waits: it is
  preempted by none of them, so what they do happens in its delays.
\<close>

theorem main_not_preempted:
  assumes "rtthread_startup = Inr k0" and "fold_r kernel_step evs k0 = Inr k" and "lock_nest k = 0"
    and "current_thread k = Some c" and "c = SERIAL \<or> c = TIMEOUT_UART \<or> c = TSHELL \<or> c = IDLE"
  shows "stat_of k MAIN \<noteq> Ready \<and> stat_of k MAIN \<noteq> Running"
proof -
  have "prio_of k MAIN < prio_of k c"
    using assms(5) by (auto simp: priorities [OF assms(1,2)])
  moreover obtain c' where "current_thread k = Some c'" "\<And>t. stat_of k t = Running \<Longrightarrow> t = c'"
    "\<And>t. stat_of k t = Ready \<Longrightarrow> prio_of k c' \<le> prio_of k t"
    using most_urgent [OF assms(1,2)] assms(3) by blast
  ultimately show ?thesis using assms(4) by (metis leD less_irrefl option.inject)
qed

section \<open>How long a thread sleeps\<close>

lemma asleep_events:
  assumes "kernel_ok k" and "asleep k c d" and "fold_r kernel_step evs k = Inr k'"
    and "\<forall>ev \<in> set evs. c \<notin> resumed ev" and "int (count_list evs Tick) < max 1 d"
  shows "kernel_ok k' \<and> asleep k' c (d - int (count_list evs Tick))"
  using assms
proof (induction evs arbitrary: k d)
  case (Cons ev evs)
  from kernel_step_ok [OF Cons.prems(1), of ev] obtain k1 where k1: "kernel_step ev k = Inr k1" "kernel_ok k1"
    "ev \<noteq> Tick \<Longrightarrow> quiet (resumed ev) k k1" by blast
  with Cons.prems(3) have run: "fold_r kernel_step evs k1 = Inr k'" by simp
  show ?case
  proof (cases "ev = Tick")
    case True
    with Cons.prems(5) have d: "1 < d" by (simp add: max_def split: if_splits)
    from tick_ok [OF Cons.prems(1)] k1(1) True Cons.prems(2) d have "asleep k1 c (d - 1)"
      by (auto simp: kernel_step_def kernel_call_def)
    from Cons.IH [OF k1(2) this run] Cons.prems(4,5) True d show ?thesis by (simp add: diff_diff_add add.commute)
  next
    case False
    with k1(3) Cons.prems(2,4) have "asleep k1 c d" by (auto simp: quiet_def)
    from Cons.IH [OF k1(2) this run] Cons.prems(4,5) False show ?thesis by simp
  qed
qed simp

text \<open>
  C8: A thread that sleeps for n ticks and is not resumed by name in the meantime (the timer thread is
  whenever a soft timer is started) stays suspended until n ticks have come, one for n = 0, whatever
  other ticks and calls there are, and can run again right after the last of them, also when the tick
  counter wraps around meanwhile.
\<close>

theorem sleep_exact:
  assumes "rtthread_startup = Inr k0" and "fold_r kernel_step evs k0 = Inr k" and "can_wait k"
    and "n < RT_TICK_MAX div 2" and "current_thread k = Some c"
    and "fold_r kernel_step (Sleep n # later) k = Inr k'" and "\<forall>ev \<in> set later. c \<notin> resumed ev"
  shows "(count_list later Tick < max 1 (unat n) \<longrightarrow> stat_of k' c = Suspend) \<and>
    (count_list later Tick + 1 = max 1 (unat n) \<longrightarrow>
       (\<exists>k''. kernel_step Tick k' = Inr k'' \<and> (stat_of k'' c = Ready \<or> stat_of k'' c = Running)))"
proof -
  have en: "enabled (Sleep n) k" using assms(3,4) by simp
  from sleep_ok [OF reached_ok [OF assms(1,2)] en assms(5)] obtain k1 where k1: "rt_thread_sleep n k = Inr k1"
    "kernel_ok k1" "asleep k1 c (uint n)" by blast
  then have run: "fold_r kernel_step later k1 = Inr k'" using assms(6) en by (simp add: kernel_step_def kernel_call_def)
  have n: "int (unat n) = uint n" by simp
  have max: "max 1 (uint n) = int (max 1 (unat n))" by (simp only: of_nat_max of_nat_1 n)
  note slept = asleep_events [OF k1(2,3) run assms(7), unfolded max]
  have "stat_of k' c = Suspend" if "count_list later Tick < max 1 (unat n)"
    using conjunct2 [OF slept, unfolded of_nat_less_iff, OF that] by (simp only: asleep_def)
  moreover have "\<exists>k''. kernel_step Tick k' = Inr k'' \<and> awake (stat_of k'' c)"
    if "count_list later Tick + 1 = max 1 (unat n)"
  proof -
    have less: "int (count_list later Tick) < int (max 1 (unat n))" using that by linarith
    note now = slept [OF less]
    have "\<not> 1 < uint n - int (count_list later Tick)" using that unfolding n [symmetric] by linarith
    moreover have "kernel_ok k'" "asleep k' c (uint n - int (count_list later Tick))" using now by simp_all
    ultimately have "\<exists>k''. rt_tick_increase (check_fuel k') k' = Inr k'' \<and> awake (stat_of k'' c)"
      using tick_ok [of k'] by metis
    then show ?thesis by (simp add: kernel_step_def kernel_call_def)
  qed
  ultimately show ?thesis unfolding awake_def by blast
qed

text \<open>
  A thread that asks, e > 0 ticks after its last wakeup, to be delayed until inc ticks after that
  wakeup is still suspended when they have passed: it sleeps inc + e ticks instead of inc - e.
\<close>

theorem delay_until_oversleeps:
  assumes "rtthread_startup = Inr k0" and "fold_r kernel_step evs k0 = Inr k"
    and "can_wait k" and "current_thread k = Some c"
    and "e = uint (rt_tick (ticker k) - woken)" and "0 < e" and "e < uint inc" and "e + uint inc < 2 ^ 31 - 1"
    and "fold_r kernel_step (DelayUntil woken inc # later) k = Inr k'" and "\<forall>ev \<in> set later. c \<notin> resumed ev"
    and "int (count_list later Tick) < uint inc + e"
  shows "stat_of k' c = Suspend"
proof -
  let ?e = "rt_tick (ticker k) - woken"
  have less: "?e < inc" using assms(5,7) by (simp add: word_less_def)
  have sum: "uint (?e + inc) = e + uint inc"
    using assms(5,8) by (subst uint_plus_simple) (simp_all add: no_olen_add)
  then have half: "?e + inc < tick_half" using assms(8) by (simp add: word_less_def)
  then have "enabled (Sleep (?e + inc)) k" using assms(3) by (simp add: tick_half)
  from sleep_ok [OF reached_ok [OF assms(1,2)] this assms(4)] obtain k1 where k1: "rt_thread_sleep (?e + inc) k = Inr k1"
    "kernel_ok k1" "asleep k1 c (uint (?e + inc))" by blast
  have "fold_r kernel_step later k1 = Inr k'"
    using assms(3,4,9) less half k1(1) by (simp add: kernel_step_def kernel_call_def rt_thread_delay_until_def tick_half)
  note slept = asleep_events [OF k1(2,3) this assms(10), unfolded sum]
  have "int (count_list later Tick) < max 1 (e + uint inc)" using assms(11) by linarith
  from slept [OF this] show ?thesis by (simp add: asleep_def)
qed

section \<open>Concrete runs\<close>

definition run_from_start :: "kernel_event list \<Rightarrow> (kernel \<Rightarrow> bool) \<Rightarrow> bool" where
  "run_from_start evs P = (case bind_r rtthread_startup (fold_r kernel_step evs) of Inl _ \<Rightarrow> False | Inr k \<Rightarrow> P k)"

lemma run_from_startD:
  "run_from_start evs P \<Longrightarrow> \<exists>k0 k. rtthread_startup = Inr k0 \<and> fold_r kernel_step evs k0 = Inr k \<and> P k"
  by (auto simp: run_from_start_def bind_r_eq_Inr split: sum.splits)

theorem kernel_well_formed_witness:
  "\<exists>k0 k. rtthread_startup = Inr k0 \<and> fold_r kernel_call [StartSoftTimer, Yield, Tick] k0 = Inr k \<and> kernel_ok k \<and>
     kernel_call (Startup MAIN) k0 = Inl AssertFailed \<and> kernel_call (Sleep 0x80000000) k = Inl AssertFailed"
proof -
  have "run_from_start [] (\<lambda>k. stat_of k MAIN \<noteq> Init)" by code_simp
  then obtain k where k: "rtthread_startup = Inr k" "stat_of k MAIN \<noteq> Init" by (auto dest!: run_from_startD)
  from kernel_well_formed obtain k0 where k0: "rtthread_startup = Inr k0" and
    all: "\<And>evs. (\<exists>k. fold_r kernel_call evs k0 = Inr k \<and> kernel_ok k) \<or>
       (\<exists>before ev after k. evs = before @ ev # after \<and> fold_r kernel_call before k0 = Inr k \<and>
          kernel_ok k \<and> \<not> enabled ev k)" and
    sleep: "\<And>k n. kernel_ok k \<Longrightarrow> RT_TICK_MAX div 2 \<le> n \<Longrightarrow> kernel_call (Sleep n) k = Inl AssertFailed" and
    start: "\<And>k t. stat_of k t \<noteq> Init \<Longrightarrow> kernel_call (Startup t) k = Inl AssertFailed"
    by (elim exE conjE) (rule that; blast)
  have "enabled ev k" if "[StartSoftTimer, Yield, Tick] = before @ ev # after" for before ev after k
  proof -
    have "ev \<in> set [StartSoftTimer, Yield, Tick]" unfolding that by simp
    then show ?thesis by auto
  qed
  with all [of "[StartSoftTimer, Yield, Tick]"] obtain k' where
    k': "fold_r kernel_call [StartSoftTimer, Yield, Tick] k0 = Inr k'" "kernel_ok k'" by blast
  have "RT_TICK_MAX div 2 \<le> (0x80000000 :: u32)" by (simp add: RT_TICK_MAX_def)
  then have "kernel_call (Sleep 0x80000000) k' = Inl AssertFailed" by (rule sleep [OF k'(2)])
  moreover have "k = k0" using k(1) k0 by (metis sum.inject(2))
  with k(2) have "stat_of k0 MAIN \<noteq> Init" by blast
  then have "kernel_call (Startup MAIN) k0 = Inl AssertFailed" by (rule start)
  ultimately show ?thesis using k0 k' by blast
qed

theorem most_urgent_runs_witness:
  "\<exists>k0 k c. rtthread_startup = Inr k0 \<and> fold_r kernel_step [SuspendSelf, Startup SERIAL] k0 = Inr k \<and>
     lock_nest k = 0 \<and> stat_of k SERIAL = Ready \<and> current_thread k = Some c \<and> stat_of k c = Running \<and>
     prio_of k c \<le> prio_of k SERIAL"
proof -
  have "run_from_start [SuspendSelf, Startup SERIAL] (\<lambda>k. lock_nest k = 0 \<and> stat_of k SERIAL = Ready)"
    by code_simp
  then obtain k0 k where k: "rtthread_startup = Inr k0" "fold_r kernel_step [SuspendSelf, Startup SERIAL] k0 = Inr k"
    "lock_nest k = 0 \<and> stat_of k SERIAL = Ready" by (blast dest: run_from_startD)
  from most_urgent_runs [OF k(1,2)] k show ?thesis by blast
qed

theorem main_not_preempted_witness:
  "\<exists>k0 k. rtthread_startup = Inr k0 \<and> fold_r kernel_step [SuspendSelf, Startup SERIAL, Sleep 5] k0 = Inr k \<and>
     current_thread k = Some SERIAL \<and> stat_of k MAIN \<noteq> Ready \<and> stat_of k MAIN \<noteq> Running"
proof -
  have "run_from_start [SuspendSelf, Startup SERIAL, Sleep 5]
      (\<lambda>k. lock_nest k = 0 \<and> current_thread k = Some SERIAL)" by code_simp
  then obtain k0 k where k: "rtthread_startup = Inr k0"
    "fold_r kernel_step [SuspendSelf, Startup SERIAL, Sleep 5] k0 = Inr k"
    "lock_nest k = 0 \<and> current_thread k = Some SERIAL" by (blast dest: run_from_startD)
  from main_not_preempted [OF k(1,2)] k show ?thesis by blast
qed

theorem sleep_exact_witness:
  "\<exists>k0 k k' k''. rtthread_startup = Inr k0 \<and> fold_r kernel_step [SuspendSelf, Startup SERIAL] k0 = Inr k \<and>
     fold_r kernel_step [Sleep 3, Tick, Yield, Tick] k = Inr k' \<and> stat_of k' MAIN = Suspend \<and>
     kernel_step Tick k' = Inr k'' \<and> (stat_of k'' MAIN = Ready \<or> stat_of k'' MAIN = Running)"
proof -
  have "run_from_start [SuspendSelf, Startup SERIAL] (\<lambda>k. can_wait k \<and> current_thread k = Some MAIN)"
    by code_simp
  then obtain k0 k where k: "rtthread_startup = Inr k0" "fold_r kernel_step [SuspendSelf, Startup SERIAL] k0 = Inr k"
    "can_wait k" "current_thread k = Some MAIN" by (blast dest: run_from_startD)
  from kernel.run_total [OF reached_ok [OF k(1,2)], of "[Sleep 3, Tick, Yield, Tick]"] obtain k'
    where k': "fold_r kernel_step [Sleep 3, Tick, Yield, Tick] k = Inr k'" by blast
  have "(3 :: u32) < RT_TICK_MAX div 2" by (simp add: tick_half)
  from sleep_exact [OF k(1-3) this k(4) k'] have "stat_of k' MAIN = Suspend \<and>
      (\<exists>k''. kernel_step Tick k' = Inr k'' \<and> (stat_of k'' MAIN = Ready \<or> stat_of k'' MAIN = Running))" by simp
  with k k' show ?thesis by blast
qed

theorem delay_until_oversleeps_witness:
  "\<exists>k0 k k'. rtthread_startup = Inr k0 \<and> fold_r kernel_step [SuspendSelf, Tick, Tick, Tick] k0 = Inr k \<and>
     fold_r kernel_step [DelayUntil 0 5, Tick, Tick, Tick, Tick, Tick] k = Inr k' \<and> stat_of k' MAIN = Suspend"
proof -
  have "run_from_start [SuspendSelf, Tick, Tick, Tick]
      (\<lambda>k. can_wait k \<and> current_thread k = Some MAIN \<and> rt_tick (ticker k) = 3)" by code_simp
  then obtain k0 k where k: "rtthread_startup = Inr k0" "fold_r kernel_step [SuspendSelf, Tick, Tick, Tick] k0 = Inr k"
    "can_wait k" "current_thread k = Some MAIN" "rt_tick (ticker k) = 3" by (blast dest: run_from_startD)
  from kernel.run_total [OF reached_ok [OF k(1,2)], of "[DelayUntil 0 5, Tick, Tick, Tick, Tick, Tick]"] obtain k'
    where k': "fold_r kernel_step [DelayUntil 0 5, Tick, Tick, Tick, Tick, Tick] k = Inr k'" by blast
  from delay_until_oversleeps [OF k(1-4) refl _ _ _ k'] k(5) have "stat_of k' MAIN = Suspend" by simp
  with k k' show ?thesis by blast
qed

end
