(* ===== verification/Rtt_Soft.thy ===== *)
theory Rtt_Soft
  imports Rtt_Timer
begin

text \<open>
  Soft timers: the timer thread of \<^verbatim>\<open>rt-thread/src/timer.c\<close>, which waits for the first of its list and
  calls the functions of the timers that are due. The program has one, the timeout of a
  transmission. The thread is more urgent than those that start timers, so it gets as far as its
  next wait before they go on. What a timer calls is a parameter; the calls are recorded.
\<close>

section \<open>The check\<close>

text \<open>
  \<^verbatim>\<open>n->next\<close> for the node of a timer: the node behind it, none at the end of the list; a node that is
  in no list points to itself.
\<close>

definition node_next :: "nat list \<Rightarrow> nat \<Rightarrow> nat option" where
  "node_next ts n =
     (if n \<notin> set ts then Some n
      else case tl (dropWhile (\<lambda>t. t \<noteq> n) ts) of [] \<Rightarrow> None | t # _ \<Rightarrow> Some t)"

primrec soft_timer_loop ::
  "(nat \<Rightarrow> clock \<Rightarrow> clock result) \<Rightarrow> nat \<Rightarrow> nat option \<Rightarrow> clock \<Rightarrow> (nat list \<times> clock) result" where
  "soft_timer_loop call 0 n c = Inl OutOfFuel"
| "soft_timer_loop call (Suc fuel) n c =
     (case n of None \<Rightarrow> Inr ([], c)
      | Some t \<Rightarrow>
          if \<not> rt_tick c - timeout_tick (timers c t) < RT_TICK_MAX div 2 then Inr ([], c)
          else
            let n = node_next (rt_soft_timer_list c) t
            in bind_r (call t (timer_remove t c)) (\<lambda>c.
                 let again = periodic (timers c t) \<and> activated (timers c t);
                     c = set_timer t (activated_update (\<lambda>_. False)) c
                 in bind_r (if again then rt_timer_start t c else Inr c) (\<lambda>c.
                    map_r (\<lambda>(called, c). (t # called, c)) (soft_timer_loop call fuel n c))))"

definition rt_soft_timer_check ::
  "(nat \<Rightarrow> clock \<Rightarrow> clock result) \<Rightarrow> nat \<Rightarrow> clock \<Rightarrow> (nat list \<times> clock) result" where
  "rt_soft_timer_check call fuel c =
     soft_timer_loop call fuel (case rt_soft_timer_list c of [] \<Rightarrow> None | t # _ \<Rightarrow> Some t) c"

section \<open>The thread\<close>

text \<open>What the thread does until its next check: nothing at all, a delay, or nothing to wait for.\<close>

datatype timer_wait = Parked | Napping u32 | Going

definition timer_thread_wait :: "clock \<Rightarrow> timer_wait" where
  "timer_thread_wait c =
     (let next = next_timeout (rt_soft_timer_list c) c
      in if next = RT_TICK_MAX then Parked
         else if next - rt_tick c < RT_TICK_MAX div 2 then Napping (next - rt_tick c)
         else Going)"

text \<open>From the end of one wait to the next.\<close>

primrec timer_round ::
  "(nat \<Rightarrow> clock \<Rightarrow> clock result) \<Rightarrow> nat \<Rightarrow> clock \<Rightarrow> (nat list \<times> timer_wait \<times> clock) result" where
  "timer_round call 0 c = Inl OutOfFuel"
| "timer_round call (Suc fuel) c =
     bind_r (rt_soft_timer_check call fuel c) (\<lambda>(called, c).
       if timer_thread_wait c = Going
       then map_r (\<lambda>(more, w, c). (called @ more, w, c)) (timer_round call fuel c)
       else Inr (called, timer_thread_wait c, c))"

datatype soft_event = SoftTick | StartTimer nat | StopTimer nat

text \<open>
  A tick ends a delay that has run down; \<^verbatim>\<open>rt_timer_start\<close> wakes the thread if it waits, which is
  whenever another thread runs.
\<close>

definition soft_step ::
  "(nat \<Rightarrow> clock \<Rightarrow> clock result) \<Rightarrow> nat \<Rightarrow> soft_event \<Rightarrow> timer_wait \<times> clock \<Rightarrow>
     (nat list \<times> timer_wait \<times> clock) result" where
  "soft_step call fuel ev wc = (case wc of (w, c) \<Rightarrow>
     (case ev of
        SoftTick \<Rightarrow>
          (let c = c\<lparr>rt_tick := rt_tick c + 1\<rparr>
           in case w of
                Napping n \<Rightarrow> if n \<le> 1 then timer_round call fuel c else Inr ([], Napping (n - 1), c)
              | _ \<Rightarrow> Inr ([], w, c))
      | StartTimer i \<Rightarrow>
          bind_r (rt_timer_start i c) (\<lambda>c.
            if soft_timer (timers c i) then timer_round call fuel c else Inr ([], w, c))
      | StopTimer i \<Rightarrow> Inr ([], w, rt_timer_stop i c)))"

primrec soft_run ::
  "(nat \<Rightarrow> clock \<Rightarrow> clock result) \<Rightarrow> nat \<Rightarrow> soft_event list \<Rightarrow> timer_wait \<times> clock \<Rightarrow>
     (nat list \<times> timer_wait \<times> clock) result" where
  "soft_run call fuel [] wc = Inr ([], wc)"
| "soft_run call fuel (ev # evs) wc =
     bind_r (soft_step call fuel ev wc) (\<lambda>(called, wc).
     map_r (\<lambda>(more, wc). (called @ more, wc)) (soft_run call fuel evs wc))"

section \<open>The due timers are called, in their order\<close>

text \<open>One-shot timers whose functions start and stop none.\<close>

definition plain_calls :: "(nat \<Rightarrow> clock \<Rightarrow> clock result) \<Rightarrow> bool" where
  "plain_calls call \<longleftrightarrow> (\<forall>i c. call i c = Inr c)"

definition due :: "clock \<Rightarrow> nat \<Rightarrow> bool" where
  "due c i \<longleftrightarrow> rt_tick c - timeout_tick (timers c i) < tick_half"

text \<open>The kind and the time of a timer do not change.\<close>

definition alike :: "clock \<Rightarrow> clock \<Rightarrow> bool" where
  "alike c c' \<longleftrightarrow> (\<forall>j. soft_timer (timers c' j) = soft_timer (timers c j) \<and> init_tick (timers c' j) = init_tick (timers c j))"

lemma alike_trans: "alike c c' \<Longrightarrow> alike c' c'' \<Longrightarrow> alike c c''"
  by (simp add: alike_def)

lemma alike_start: "rt_timer_start j c = Inr c' \<Longrightarrow> alike c c'"
  by (auto simp: alike_def rt_timer_start_def Let_def timer_remove_def set_timer_def split: if_splits)

lemma node_next_head: "node_next (t # ts) t = (case ts of [] \<Rightarrow> None | u # _ \<Rightarrow> Some u)"
  by (simp add: node_next_def)

lemma check_calls_due:
  assumes "plain_calls call" and "distinct (rt_soft_timer_list c)"
    and "\<forall>i \<in> set (rt_soft_timer_list c). \<not> periodic (timers c i)" and "length (rt_soft_timer_list c) < fuel"
  shows "\<exists>c'. rt_soft_timer_check call fuel c = Inr (takeWhile (due c) (rt_soft_timer_list c), c') \<and>
    rt_soft_timer_list c' = dropWhile (due c) (rt_soft_timer_list c) \<and> rt_tick c' = rt_tick c \<and>
    alike c c'"
proof -
  have "\<exists>c'. soft_timer_loop call fuel (case ts of [] \<Rightarrow> None | t # _ \<Rightarrow> Some t) c = Inr (takeWhile (due c) ts, c') \<and>
      rt_soft_timer_list c' = dropWhile (due c) ts \<and> rt_tick c' = rt_tick c \<and>
      alike c c'"
    if "rt_soft_timer_list c = ts" "distinct ts" "\<forall>i \<in> set ts. \<not> periodic (timers c i)" "length ts < fuel" for ts
    using that
  proof (induction ts arbitrary: c fuel)
    case Nil
    then show ?case by (cases fuel) (auto simp: alike_def)
  next
    case (Cons t ts)
    then obtain n where n: "fuel = Suc n" by (cases fuel) auto
    show ?case
    proof (cases "due c t")
      case False
      with Cons.prems(1) n show ?thesis by (auto simp: due_def tick_half alike_def)
    next
      case True
      let ?c = "set_timer t (activated_update (\<lambda>_. False)) (timer_remove t c)"
      have same: "due ?c = due c" by (auto simp: due_def fun_eq_iff)
      have "rt_soft_timer_list ?c = ts" using Cons.prems(1,2) by (simp add: timer_remove_def)
      moreover have "distinct ts" "length ts < n" using Cons.prems(2,4) n by simp_all
      moreover have "\<forall>i \<in> set ts. \<not> periodic (timers ?c i)" using Cons.prems(3) by simp
      ultimately have "\<exists>c'. soft_timer_loop call n (case ts of [] \<Rightarrow> None | t # _ \<Rightarrow> Some t) ?c = Inr (takeWhile (due ?c) ts, c') \<and>
          rt_soft_timer_list c' = dropWhile (due ?c) ts \<and> rt_tick c' = rt_tick ?c \<and> alike ?c c'"
        by (intro Cons.IH)
      then obtain c' where c':
        "soft_timer_loop call n (case ts of [] \<Rightarrow> None | t # _ \<Rightarrow> Some t) ?c = Inr (takeWhile (due c) ts, c')"
        "rt_soft_timer_list c' = dropWhile (due c) ts" "rt_tick c' = rt_tick c" "alike ?c c'"
        unfolding same by auto
      have "alike c c'" using c'(4) by (simp add: alike_def)
      have "soft_timer_loop call fuel (Some t) c = Inr (t # takeWhile (due c) ts, c')"
        using True c'(1) n assms(1) Cons.prems(1,3)
        by (simp add: due_def tick_half plain_calls_def node_next_head Let_def)
      with c' \<open>alike c c'\<close> True show ?thesis by (intro exI [of _ c']) simp
    qed
  qed
  with assms show ?thesis by (simp add: rt_soft_timer_check_def)
qed

section \<open>One timer\<close>

text \<open>The thread waits for timer \<open>i\<close>, the only one, with \<open>d\<close> ticks left.\<close>

definition awaiting :: "nat \<Rightarrow> u32 \<Rightarrow> timer_wait \<times> clock \<Rightarrow> bool" where
  "awaiting i d wc \<longleftrightarrow> fst wc = Napping d \<and> rt_soft_timer_list (snd wc) = [i] \<and> \<not> periodic (timers (snd wc) i) \<and>
     timeout_tick (timers (snd wc) i) = rt_tick (snd wc) + d \<and> timeout_tick (timers (snd wc) i) \<noteq> RT_TICK_MAX \<and>
     0 < d \<and> d < tick_half"

lemma not_due:
  assumes "timeout_tick (timers c i) = rt_tick c + d" and "0 < d" and "d < tick_half"
  shows "\<not> due c i"
proof -
  have "left c i = uint d" using assms by (simp add: left_def sint_small)
  moreover have "0 < uint d" using assms(2) by (simp add: word_less_def)
  ultimately show ?thesis unfolding due_def by (subst due_iff) simp_all
qed

lemma check_none: "rt_soft_timer_list c = [] \<Longrightarrow> rt_soft_timer_check call (Suc fuel) c = Inr ([], c)"
  by (simp add: rt_soft_timer_check_def)

lemma check_early:
  "rt_soft_timer_list c = [i] \<Longrightarrow> \<not> due c i \<Longrightarrow> rt_soft_timer_check call (Suc fuel) c = Inr ([], c)"
  by (simp add: rt_soft_timer_check_def due_def tick_half)

lemma wait_none: "rt_soft_timer_list c = [] \<Longrightarrow> timer_thread_wait c = Parked"
  by (simp add: timer_thread_wait_def next_timeout_def)

lemma started:
  assumes "rt_soft_timer_list c = []" and "soft_timer (timers c i)" and "\<not> periodic (timers c i)"
    and "0 < init_tick (timers c i)" and "init_tick (timers c i) < tick_half"
  shows "\<exists>c'. rt_timer_start i c = Inr c' \<and> rt_soft_timer_list c' = [i] \<and> \<not> periodic (timers c' i) \<and>
    soft_timer (timers c' i) \<and> rt_tick c' = rt_tick c \<and> activated (timers c' i) \<and>
    timeout_tick (timers c' i) = rt_tick c + init_tick (timers c i) \<and>
    (\<forall>call fuel. rt_soft_timer_check call (Suc fuel) c' = Inr ([], c'))"
proof -
  obtain c' where c': "rt_timer_start i c = Inr c'" "rt_soft_timer_list c' = [i]" "\<not> periodic (timers c' i)"
    "soft_timer (timers c' i)" "rt_tick c' = rt_tick c" "activated (timers c' i)"
    "timeout_tick (timers c' i) = rt_tick c + init_tick (timers c i)"
    using assms by (simp add: rt_timer_start_def Let_def tick_half timer_remove_def set_timer_def)
  then have "\<not> due c' i" using assms(4,5) by (intro not_due [of _ _ "init_tick (timers c i)"]) simp_all
  with c' check_early [of c' i] show ?thesis by blast
qed

lemma start_awaiting:
  assumes "rt_soft_timer_list c = []" and "soft_timer (timers c i)" and "\<not> periodic (timers c i)"
    and "0 < init_tick (timers c i)" and "init_tick (timers c i) < tick_half"
    and "rt_tick c + init_tick (timers c i) \<noteq> RT_TICK_MAX"
  shows "\<exists>wc. soft_step call (Suc (Suc fuel)) (StartTimer i) (w, c) = Inr ([], wc) \<and> awaiting i (init_tick (timers c i)) wc \<and>
    alike c (snd wc)"
proof -
  from started [OF assms(1-5)] obtain c' where c': "rt_timer_start i c = Inr c'" "rt_soft_timer_list c' = [i]"
    "\<not> periodic (timers c' i)" "soft_timer (timers c' i)" "rt_tick c' = rt_tick c"
    "timeout_tick (timers c' i) = rt_tick c + init_tick (timers c i)"
    "rt_soft_timer_check call (Suc fuel) c' = Inr ([], c')" by blast
  then have "timer_thread_wait c' = Napping (init_tick (timers c i))"
    using assms(5,6) by (simp add: timer_thread_wait_def next_timeout_def tick_half)
  with c' assms(4-6) alike_start [OF c'(1)] show ?thesis by (simp add: soft_step_def awaiting_def)
qed

lemma tick_awaiting:
  assumes "awaiting i d wc" and "1 < d"
  shows "\<exists>wc'. soft_step call fuel SoftTick wc = Inr ([], wc') \<and> awaiting i (d - 1) wc'"
proof -
  have "0 < d - 1" "d - 1 < tick_half"
    using assms by (auto simp: awaiting_def word_less_nat_alt unat_sub word_le_nat_alt)
  moreover have "\<not> d \<le> 1" using assms(2) by simp
  ultimately show ?thesis using assms(1) by (cases wc) (auto simp: soft_step_def awaiting_def Let_def)
qed

lemma tick_calls:
  assumes "awaiting i 1 wc" and "plain_calls call"
  shows "\<exists>c. soft_step call (Suc (Suc (Suc fuel))) SoftTick wc = Inr ([i], Parked, c) \<and> rt_soft_timer_list c = [] \<and>
    alike (snd wc) c"
proof -
  obtain w c where wc: "wc = (w, c)" by (cases wc)
  let ?c = "c\<lparr>rt_tick := rt_tick c + 1\<rparr>"
  have list: "rt_soft_timer_list ?c = [i]" and at: "timeout_tick (timers ?c i) = rt_tick ?c"
    and one: "\<forall>j \<in> set (rt_soft_timer_list ?c). \<not> periodic (timers ?c j)" and w: "w = Napping 1"
    using assms(1) by (simp_all add: awaiting_def wc)
  have "due ?c i" using at by (simp add: due_def)
  with check_calls_due [OF assms(2) _ one, of "Suc (Suc fuel)"] list obtain c' where
    "rt_soft_timer_check call (Suc (Suc fuel)) ?c = Inr ([i], c')" "rt_soft_timer_list c' = []" "alike ?c c'" by auto
  moreover from this(3) have "alike c c'" by (simp add: alike_def)
  ultimately show ?thesis using wait_none [of c'] w wc by (simp add: soft_step_def Let_def)
qed

text \<open>
  What may happen beside it: ticks, other soft timers left alone, hard timers started and stopped.
\<close>

definition aside :: "nat \<Rightarrow> clock \<Rightarrow> soft_event \<Rightarrow> bool" where
  "aside i c ev \<longleftrightarrow>
     (case ev of SoftTick \<Rightarrow> True
      | StartTimer j \<Rightarrow> j \<noteq> i \<and> \<not> soft_timer (timers c j) \<and> init_tick (timers c j) < RT_TICK_MAX div 2
      | StopTimer j \<Rightarrow> j \<noteq> i)"

lemma alike_aside: "alike c c' \<Longrightarrow> aside i c' ev = aside i c ev"
  by (simp add: alike_def aside_def split: soft_event.split)

lemma aside_step:
  assumes "aside i c ev" and "ev \<noteq> SoftTick" and "rt_soft_timer_list c = ts" and "set ts \<subseteq> {i}"
  shows "\<exists>c'. soft_step call fuel ev (w, c) = Inr ([], w, c') \<and> rt_soft_timer_list c' = ts \<and> rt_tick c' = rt_tick c \<and>
    timers c' i = timers c i \<and> alike c c'"
proof -
  have keep: "removeAll j ts = ts" if "j \<noteq> i" for j using assms(4) that by (intro removeAll_id) auto
  show ?thesis
  proof (cases ev)
    case (StartTimer j)
    with assms(1) obtain c' where c': "rt_timer_start j c = Inr c'"
      by (auto simp: aside_def rt_timer_start_def Let_def timer_remove_def set_timer_def)
    then have "rt_soft_timer_list c' = ts" "rt_tick c' = rt_tick c" "timers c' i = timers c i"
      "\<not> soft_timer (timers c' j)"
      using assms(1,3) StartTimer keep [of j]
      by (auto simp: aside_def rt_timer_start_def Let_def timer_remove_def set_timer_def split: if_splits)
    with c' alike_start [OF c'] StartTimer show ?thesis by (simp add: soft_step_def)
  next
    case (StopTimer j)
    with assms keep [of j] show ?thesis
      by (auto simp: aside_def soft_step_def rt_timer_stop_def timer_remove_def set_timer_def alike_def)
  qed (use assms(2) in simp)
qed

lemma alike_tick: "soft_step call fuel SoftTick (Napping d, c) = Inr ([], w, c') \<Longrightarrow> 1 < d \<Longrightarrow> alike c c'"
  by (auto simp: soft_step_def Let_def alike_def split: if_splits)

lemma after_call:
  assumes "rt_soft_timer_list c = []" and "\<forall>ev \<in> set evs. aside i c ev"
  shows "\<exists>c'. soft_run call fuel evs (Parked, c) = Inr ([], Parked, c') \<and> rt_soft_timer_list c' = []"
  using assms
proof (induction evs arbitrary: c)
  case (Cons ev evs)
  have "\<exists>c'. soft_step call fuel ev (Parked, c) = Inr ([], Parked, c') \<and> rt_soft_timer_list c' = [] \<and> alike c c'"
  proof (cases "ev = SoftTick")
    case True
    with Cons.prems(1) show ?thesis by (simp add: soft_step_def Let_def alike_def)
  next
    case False
    with aside_step [of i c ev "[]" call fuel Parked] Cons.prems show ?thesis by auto
  qed
  then obtain c1 where c1: "soft_step call fuel ev (Parked, c) = Inr ([], Parked, c1)" "rt_soft_timer_list c1 = []"
    "alike c c1" by blast
  have "\<forall>ev \<in> set evs. aside i c1 ev" using Cons.prems(2) by (simp add: alike_aside [OF c1(3)])
  from Cons.IH [OF c1(2) this] c1(1) show ?case by auto
qed simp

lemma awaited_run:
  assumes "awaiting i d (w, c)" and "plain_calls call" and "\<forall>ev \<in> set evs. aside i c ev"
  shows "\<exists>w' c'. soft_run call (Suc (Suc (Suc fuel))) evs (w, c) =
      Inr (if count_list evs SoftTick < unat d then [] else [i], w', c') \<and>
    rt_soft_timer_list c' = (if count_list evs SoftTick < unat d then [i] else [])"
  using assms(1,3)
proof (induction evs arbitrary: d w c)
  case Nil
  then show ?case by (simp add: awaiting_def word_less_nat_alt)
next
  case (Cons ev evs)
  let ?fuel = "Suc (Suc (Suc fuel))"
  have w: "w = Napping d" and list: "rt_soft_timer_list c = [i]" and pos: "0 < d" using Cons.prems(1) by (simp_all add: awaiting_def)
  consider "ev \<noteq> SoftTick" | "ev = SoftTick" "1 < d" | "ev = SoftTick" "d = 1"
    using pos by (metis antisym_conv3 word_gt_0 word_less_1)
  then show ?case
  proof cases
    case 1
    from aside_step [OF _ 1 list, of i call ?fuel w] Cons.prems(2) obtain c1 where
      c1: "soft_step call ?fuel ev (w, c) = Inr ([], w, c1)" "rt_soft_timer_list c1 = [i]" "rt_tick c1 = rt_tick c"
        "timers c1 i = timers c i" "alike c c1" by auto
    then have "awaiting i d (w, c1)" using Cons.prems(1) by (auto simp: awaiting_def)
    moreover have "\<forall>ev \<in> set evs. aside i c1 ev" using Cons.prems(2) by (simp add: alike_aside [OF c1(5)])
    ultimately obtain w' c' where r: "soft_run call ?fuel evs (w, c1) =
        Inr (if count_list evs SoftTick < unat d then [] else [i], w', c')"
      "rt_soft_timer_list c' = (if count_list evs SoftTick < unat d then [i] else [])"
      using Cons.IH by blast
    then show ?thesis using 1 c1(1) by (auto simp del: append_Nil2)
  next
    case 2
    from tick_awaiting [OF Cons.prems(1) 2(2), of call ?fuel] obtain w1 c1 where
      c1: "soft_step call ?fuel SoftTick (w, c) = Inr ([], w1, c1)" "awaiting i (d - 1) (w1, c1)" by auto
    have "alike c c1" using alike_tick [OF c1(1) [unfolded w] 2(2)] .
    then have "\<forall>ev \<in> set evs. aside i c1 ev" using Cons.prems(2) by (simp add: alike_aside)
    from Cons.IH [OF c1(2) this] obtain w' c' where r: "soft_run call ?fuel evs (w1, c1) =
        Inr (if count_list evs SoftTick < unat (d - 1) then [] else [i], w', c')"
      "rt_soft_timer_list c' = (if count_list evs SoftTick < unat (d - 1) then [i] else [])" by blast
    have "unat (d - 1) = unat d - 1" using pos by (simp add: unat_minus_one word_gt_0)
    then have "count_list evs SoftTick < unat (d - 1) \<longleftrightarrow> count_list (ev # evs) SoftTick < unat d" using 2(1) by auto
    with r c1(1) 2(1) show ?thesis by (auto simp del: append_Nil2)
  next
    case 3
    from tick_calls [of i "(w, c)" call fuel] Cons.prems(1) 3(2) assms(2) obtain c1 where
      c1: "soft_step call ?fuel SoftTick (w, c) = Inr ([i], Parked, c1)" "rt_soft_timer_list c1 = []" "alike c c1" by auto
    have "\<forall>ev \<in> set evs. aside i c1 ev" using Cons.prems(2) by (simp add: alike_aside [OF c1(3)])
    from after_call [OF c1(2) this, of call ?fuel] c1(1) 3 show ?thesis by auto
  qed
qed

text \<open>
  C20: A one-shot soft timer started for n ticks is called exactly once, at the n-th tick, not before and not
  again, while hard timers are started and stopped around it, provided that it is the only soft timer (the
  program has one), that its function starts and stops no timer, and that it is not due at tick
  0xFFFFFFFF, the number that stands for an empty list.
\<close>

theorem soft_timer_fires:
  assumes "plain_calls call" and "rt_soft_timer_list c = []" and "soft_timer (timers c i)" and "\<not> periodic (timers c i)"
    and "init_tick (timers c i) = n" and "0 < n" and "n < RT_TICK_MAX div 2" and "rt_tick c + n \<noteq> RT_TICK_MAX"
    and "\<forall>ev \<in> set evs. aside i c ev"
  shows "\<exists>w' c'. soft_run call (Suc (Suc (Suc fuel))) (StartTimer i # evs) (w, c) =
      Inr (if count_list evs SoftTick < unat n then [] else [i], w', c') \<and>
    rt_soft_timer_list c' = (if count_list evs SoftTick < unat n then [i] else [])"
proof -
  let ?fuel = "Suc (Suc (Suc fuel))"
  have "0 < init_tick (timers c i)" "init_tick (timers c i) < tick_half" "rt_tick c + init_tick (timers c i) \<noteq> RT_TICK_MAX"
    using assms(5-8) by (simp_all add: tick_half)
  from start_awaiting [OF assms(2-4) this, of call "Suc fuel" w] obtain w1 c1 where wc:
    "soft_step call ?fuel (StartTimer i) (w, c) = Inr ([], w1, c1)" "awaiting i n (w1, c1)" and "alike c c1"
    unfolding assms(5) by auto
  then have "\<forall>ev \<in> set evs. aside i c1 ev" using assms(9) by (simp add: alike_aside)
  from awaited_run [OF wc(2) assms(1) this, of fuel] wc(1) show ?thesis by auto
qed

text \<open>
  A timer that is due at tick 0xFFFFFFFF is not called, however many ticks come: that number stands
  for an empty list, so the thread waits for the start of another timer.
\<close>

theorem timer_missed_at_tick_max:
  assumes "rt_soft_timer_list c = []" and "soft_timer (timers c i)" and "\<not> periodic (timers c i)"
    and "init_tick (timers c i) = n" and "0 < n" and "n < RT_TICK_MAX div 2" and "rt_tick c + n = RT_TICK_MAX"
  shows "\<exists>c'. soft_run call (Suc (Suc fuel)) (StartTimer i # replicate k SoftTick) (w, c) = Inr ([], Parked, c') \<and>
    rt_soft_timer_list c' = [i] \<and> activated (timers c' i) \<and> rt_tick c' = rt_tick c + of_nat k"
proof -
  let ?fuel = "Suc (Suc fuel)"
  have parked: "soft_run call ?fuel (replicate k SoftTick) (Parked, c) =
      Inr ([], Parked, c\<lparr>rt_tick := rt_tick c + of_nat k\<rparr>)" for c
    by (induction k arbitrary: c) (simp_all add: soft_step_def Let_def add.assoc)
  from started [OF assms(1-3)] assms(4-6) obtain c' where c': "rt_timer_start i c = Inr c'" "rt_soft_timer_list c' = [i]"
    "soft_timer (timers c' i)" "rt_tick c' = rt_tick c" "activated (timers c' i)" "timeout_tick (timers c' i) = rt_tick c + n"
    "rt_soft_timer_check call (Suc fuel) c' = Inr ([], c')" by (auto simp: tick_half)
  then have "timer_thread_wait c' = Parked"
    using assms(7) by (simp add: timer_thread_wait_def next_timeout_def)
  with c' have "soft_step call ?fuel (StartTimer i) (w, c) = Inr ([], Parked, c')" by (simp add: soft_step_def)
  with parked [of c'] c' show ?thesis by auto
qed

section \<open>A timer stopped by another\<close>

definition stops :: "nat \<Rightarrow> nat \<Rightarrow> nat \<Rightarrow> clock \<Rightarrow> clock result" where
  "stops i j k c = Inr (if k = i then rt_timer_stop j c else c)"

lemma unlinked_loop:
  assumes "\<And>c. call j c = Inr c" and "j \<notin> set (rt_soft_timer_list c)" and "due c j" and "\<not> periodic (timers c j)"
  shows "soft_timer_loop call fuel (Some j) c = Inl OutOfFuel"
  using assms(2-4)
proof (induction fuel arbitrary: c)
  case (Suc fuel)
  let ?c = "set_timer j (activated_update (\<lambda>_. False)) (timer_remove j c)"
  have "j \<notin> set (rt_soft_timer_list ?c)" "due ?c j" "\<not> periodic (timers ?c j)"
    using Suc.prems by (simp_all add: timer_remove_def due_def)
  from Suc.IH [OF this] have "soft_timer_loop call fuel (Some j) ?c = Inl OutOfFuel" .
  with Suc.prems show ?case by (simp add: node_next_def due_def tick_half assms(1) Let_def)
qed simp

text \<open>
  When the function of a due timer stops the next one, which is due as well, the check calls the
  stopped timer, over and over, and does not end: it goes on from the node it remembered, which has
  been taken out of the list and points to itself.
\<close>

theorem stopped_timer_loops:
  assumes "rt_soft_timer_list c = i # j # ts" and "distinct (i # j # ts)" and "due c i" and "due c j"
    and "\<not> periodic (timers c i)" and "\<not> periodic (timers c j)" and "activated (timers c j)"
  shows "rt_soft_timer_check (stops i j) fuel c = Inl OutOfFuel"
proof (cases fuel)
  case (Suc n)
  let ?c = "set_timer i (activated_update (\<lambda>_. False)) (rt_timer_stop j (timer_remove i c))"
  have "j \<notin> set (rt_soft_timer_list ?c)" "due ?c j" "\<not> periodic (timers ?c j)"
    using assms by (auto simp: rt_timer_stop_def timer_remove_def due_def)
  moreover have "stops i j j d = Inr d" for d using assms(2) by (simp add: stops_def)
  ultimately have "soft_timer_loop (stops i j) n (Some j) ?c = Inl OutOfFuel" by (intro unlinked_loop)
  with assms Suc show ?thesis
    by (simp add: rt_soft_timer_check_def due_def tick_half stops_def node_next_head Let_def)
qed (simp add: rt_soft_timer_check_def)

section \<open>Concrete timers\<close>

text \<open>The timeout of a transmission, 1000 ticks, and two timers that are due.\<close>

definition send_timer_clock :: "u32 \<Rightarrow> clock" where
  "send_timer_clock now = \<lparr>rt_tick = now, timers = (\<lambda>_. rt_timer_init 1000 False True), rt_timer_list = [],
     rt_soft_timer_list = []\<rparr>"

definition two_due :: clock where
  "two_due = \<lparr>rt_tick = 5, timers = (\<lambda>_. (rt_timer_init 3 False True)\<lparr>timeout_tick := 4, activated := True\<rparr>),
     rt_timer_list = [], rt_soft_timer_list = [1, 2]\<rparr>"

theorem soft_timer_fires_witness:
  "(\<exists>w c. soft_run (\<lambda>_ c. Inr c) 3 (StartTimer 0 # replicate 999 SoftTick) (Parked, send_timer_clock 7) = Inr ([], w, c)) \<and>
   (\<exists>w c. soft_run (\<lambda>_ c. Inr c) 3 (StartTimer 0 # StopTimer 5 # replicate 3000 SoftTick) (Parked, send_timer_clock 7) =
     Inr ([0], w, c))"
proof -
  have n: "count_list (replicate k SoftTick) SoftTick = k" for k by (induction k) simp_all
  have e: "\<exists>w' c'. soft_run (\<lambda>_ c. Inr c) 3 (StartTimer 0 # evs) (Parked, send_timer_clock 7) =
      Inr (if count_list evs SoftTick < 1000 then [] else [0], w', c')"
    if "\<forall>ev \<in> set evs. aside 0 (send_timer_clock 7) ev" for evs
  proof -
    let ?c = "send_timer_clock 7"
    have c: "rt_soft_timer_list ?c = []" "soft_timer (timers ?c 0)" "\<not> periodic (timers ?c 0)"
      "init_tick (timers ?c 0) = 1000" "rt_tick ?c + 1000 \<noteq> RT_TICK_MAX"
      by (simp_all add: send_timer_clock_def rt_timer_init_def RT_TICK_MAX_def)
    have "plain_calls (\<lambda>_ c. Inr c)" "(0 :: u32) < 1000" "(1000 :: u32) < RT_TICK_MAX div 2" "unat (1000 :: u32) = 1000"
      by (simp_all add: plain_calls_def tick_half)
    with soft_timer_fires [of "\<lambda>_ c. Inr c" ?c 0 1000 evs 0 Parked, OF _ c(1-4) _ _ c(5) that] show ?thesis
      unfolding numeral_3_eq_3 by metis
  qed
  from e [of "replicate 999 SoftTick"] e [of "StopTimer 5 # replicate 3000 SoftTick"] show ?thesis
    by (simp add: n aside_def del: soft_run.simps replicate.simps)
qed

theorem timer_missed_at_tick_max_witness:
  "\<exists>c'. soft_run (\<lambda>_ c. Inr c) 3 (StartTimer 0 # replicate 100000 SoftTick) (Parked, send_timer_clock 0xFFFFFC17) =
     Inr ([], Parked, c') \<and> activated (timers c' 0)"
  using timer_missed_at_tick_max [of "send_timer_clock 0xFFFFFC17" 0 1000 "\<lambda>_ c. Inr c" 1 100000 Parked]
  by (auto simp: send_timer_clock_def rt_timer_init_def tick_half RT_TICK_MAX_def numeral_3_eq_3)

theorem stopped_timer_loops_witness: "rt_soft_timer_check (stops 1 2) 1000 two_due = Inl OutOfFuel"
  by (rule stopped_timer_loops [where ts = "[]"]) (simp_all add: two_due_def rt_timer_init_def due_def)

end
