(* ===== verification/Pwm_Timer.thy ===== *)
theory Pwm_Timer
  imports Tester_Prelude
begin

text \<open>
  Timer 3 and the part of the hardware library that drives it
  (\<^verbatim>\<open>STM32F4xx_HAL_Driver/Src/stm32f4xx_hal_tim.c\<close>): its registers, the handle of the library, the
  set-up of the time base and of the four output channels, starting and stopping a channel with its
  interrupt, and the interrupt handler. Conditions on the instance are those of timer 3: it has no
  repetition counter, no break input and no complementary outputs; it counts up.
\<close>

section \<open>Registers\<close>

text \<open>
  Counter, prescaler, reload and compare registers hold 16 bits; what is written is cut to them.
  \<open>clock_on\<close> and \<open>irq_on\<close> are the bits of the clock control and of the interrupt controller for
  this timer.
\<close>

record tim =
  CR1 :: u32
  CR2 :: u32
  SMCR :: u32
  DIER :: u32
  SR :: u32
  CCMR1 :: u32
  CCMR2 :: u32
  CCER :: u32
  CNT :: u16
  PSC :: u16
  ARR :: u16
  CCR1 :: u16
  CCR2 :: u16
  CCR3 :: u16
  CCR4 :: u16
  clock_on :: bool
  irq_on :: bool

definition TIM_CR1_CEN :: u32 where "TIM_CR1_CEN = 0x1"
definition TIM_CR1_UDIS :: u32 where "TIM_CR1_UDIS = 0x2"
definition TIM_CR1_URS :: u32 where "TIM_CR1_URS = 0x4"
definition TIM_CR1_DIR :: u32 where "TIM_CR1_DIR = 0x10"
definition TIM_CR1_CMS :: u32 where "TIM_CR1_CMS = 0x60"
definition TIM_CR1_ARPE :: u32 where "TIM_CR1_ARPE = 0x80"
definition TIM_CR1_CKD :: u32 where "TIM_CR1_CKD = 0x300"
definition TIM_CR2_MMS :: u32 where "TIM_CR2_MMS = 0x70"
definition TIM_SMCR_SMS :: u32 where "TIM_SMCR_SMS = 0x7"
definition TIM_SMCR_TS :: u32 where "TIM_SMCR_TS = 0x70"
definition TIM_SMCR_MSM :: u32 where "TIM_SMCR_MSM = 0x80"
definition TIM_SMCR_ETF :: u32 where "TIM_SMCR_ETF = 0xF00"
definition TIM_SMCR_ETPS :: u32 where "TIM_SMCR_ETPS = 0x3000"
definition TIM_SMCR_ECE :: u32 where "TIM_SMCR_ECE = 0x4000"
definition TIM_SMCR_ETP :: u32 where "TIM_SMCR_ETP = 0x8000"
definition TIM_SLAVEMODE_TRIGGER :: u32 where "TIM_SLAVEMODE_TRIGGER = 0x6"

text \<open>An interrupt has the same bit in the flags \<^verbatim>\<open>SR\<close> and in the enables \<^verbatim>\<open>DIER\<close>.\<close>

definition TIM_IT_UPDATE :: u32 where "TIM_IT_UPDATE = 0x1"
definition TIM_IT_CC1 :: u32 where "TIM_IT_CC1 = 0x2"
definition TIM_IT_CC2 :: u32 where "TIM_IT_CC2 = 0x4"
definition TIM_IT_CC3 :: u32 where "TIM_IT_CC3 = 0x8"
definition TIM_IT_CC4 :: u32 where "TIM_IT_CC4 = 0x10"
definition TIM_IT_COM :: u32 where "TIM_IT_COM = 0x20"
definition TIM_IT_TRIGGER :: u32 where "TIM_IT_TRIGGER = 0x40"
definition TIM_IT_BREAK :: u32 where "TIM_IT_BREAK = 0x80"

definition TIM_CCMR1_CC1S :: u32 where "TIM_CCMR1_CC1S = 0x3"
definition TIM_CCMR1_OC1FE :: u32 where "TIM_CCMR1_OC1FE = 0x4"
definition TIM_CCMR1_OC1PE :: u32 where "TIM_CCMR1_OC1PE = 0x8"
definition TIM_CCMR1_OC1M :: u32 where "TIM_CCMR1_OC1M = 0x70"
definition TIM_CCMR1_CC2S :: u32 where "TIM_CCMR1_CC2S = 0x300"
definition TIM_CCMR1_OC2FE :: u32 where "TIM_CCMR1_OC2FE = 0x400"
definition TIM_CCMR1_OC2PE :: u32 where "TIM_CCMR1_OC2PE = 0x800"
definition TIM_CCMR1_OC2M :: u32 where "TIM_CCMR1_OC2M = 0x7000"
definition TIM_CCMR2_CC3S :: u32 where "TIM_CCMR2_CC3S = 0x3"
definition TIM_CCMR2_OC3FE :: u32 where "TIM_CCMR2_OC3FE = 0x4"
definition TIM_CCMR2_OC3PE :: u32 where "TIM_CCMR2_OC3PE = 0x8"
definition TIM_CCMR2_OC3M :: u32 where "TIM_CCMR2_OC3M = 0x70"
definition TIM_CCMR2_CC4S :: u32 where "TIM_CCMR2_CC4S = 0x300"
definition TIM_CCMR2_OC4FE :: u32 where "TIM_CCMR2_OC4FE = 0x400"
definition TIM_CCMR2_OC4PE :: u32 where "TIM_CCMR2_OC4PE = 0x800"
definition TIM_CCMR2_OC4M :: u32 where "TIM_CCMR2_OC4M = 0x7000"

definition TIM_CCER_CC1E :: u32 where "TIM_CCER_CC1E = 0x1"
definition TIM_CCER_CC1P :: u32 where "TIM_CCER_CC1P = 0x2"
definition TIM_CCER_CC2E :: u32 where "TIM_CCER_CC2E = 0x10"
definition TIM_CCER_CC2P :: u32 where "TIM_CCER_CC2P = 0x20"
definition TIM_CCER_CC3E :: u32 where "TIM_CCER_CC3E = 0x100"
definition TIM_CCER_CC3P :: u32 where "TIM_CCER_CC3P = 0x200"
definition TIM_CCER_CC4E :: u32 where "TIM_CCER_CC4E = 0x1000"
definition TIM_CCER_CC4P :: u32 where "TIM_CCER_CC4P = 0x2000"
definition TIM_CCER_CCxE_MASK :: u32 where "TIM_CCER_CCxE_MASK = 0x1111"
definition TIM_CCER_CCxNE_MASK :: u32 where "TIM_CCER_CCxNE_MASK = 0x444"

definition TIM_CHANNEL_1 :: u32 where "TIM_CHANNEL_1 = 0x0"
definition TIM_CHANNEL_2 :: u32 where "TIM_CHANNEL_2 = 0x4"
definition TIM_CHANNEL_3 :: u32 where "TIM_CHANNEL_3 = 0x8"
definition TIM_CHANNEL_4 :: u32 where "TIM_CHANNEL_4 = 0xC"
definition TIM_CCx_ENABLE :: u32 where "TIM_CCx_ENABLE = 1"
definition TIM_CCx_DISABLE :: u32 where "TIM_CCx_DISABLE = 0"

lemmas tim_control_bits = TIM_CR1_CEN_def TIM_CR1_UDIS_def TIM_CR1_URS_def TIM_CR1_DIR_def TIM_CR1_CMS_def
  TIM_CR1_ARPE_def TIM_CR1_CKD_def TIM_CR2_MMS_def TIM_SMCR_SMS_def TIM_SMCR_TS_def TIM_SMCR_MSM_def
  TIM_SMCR_ETF_def TIM_SMCR_ETPS_def TIM_SMCR_ECE_def TIM_SMCR_ETP_def TIM_SLAVEMODE_TRIGGER_def

lemmas tim_its = TIM_IT_UPDATE_def TIM_IT_CC1_def TIM_IT_CC2_def TIM_IT_CC3_def TIM_IT_CC4_def
  TIM_IT_COM_def TIM_IT_TRIGGER_def TIM_IT_BREAK_def

lemmas tim_modes = TIM_CCMR1_CC1S_def TIM_CCMR1_OC1FE_def TIM_CCMR1_OC1PE_def TIM_CCMR1_OC1M_def
  TIM_CCMR1_CC2S_def TIM_CCMR1_OC2FE_def TIM_CCMR1_OC2PE_def TIM_CCMR1_OC2M_def
  TIM_CCMR2_CC3S_def TIM_CCMR2_OC3FE_def TIM_CCMR2_OC3PE_def TIM_CCMR2_OC3M_def
  TIM_CCMR2_CC4S_def TIM_CCMR2_OC4FE_def TIM_CCMR2_OC4PE_def TIM_CCMR2_OC4M_def

lemmas tim_channels = TIM_CCER_CC1E_def TIM_CCER_CC1P_def TIM_CCER_CC2E_def TIM_CCER_CC2P_def
  TIM_CCER_CC3E_def TIM_CCER_CC3P_def TIM_CCER_CC4E_def TIM_CCER_CC4P_def TIM_CCER_CCxE_MASK_def
  TIM_CCER_CCxNE_MASK_def TIM_CHANNEL_1_def TIM_CHANNEL_2_def TIM_CHANNEL_3_def TIM_CHANNEL_4_def
  TIM_CCx_ENABLE_def TIM_CCx_DISABLE_def

lemmas tim_bits = tim_control_bits tim_its tim_modes tim_channels

text \<open>
  The two registers that are more than memory. A write to the flags clears those written as zero and
  sets none. A write of the update bit to the event register restarts the counter and raises the
  update flag, unless \<^verbatim>\<open>URS\<close> or \<^verbatim>\<open>UDIS\<close> forbid it.
\<close>

definition write_SR :: "u32 \<Rightarrow> tim \<Rightarrow> tim" where
  "write_SR v t = t\<lparr>SR := SR t AND v\<rparr>"

definition write_EGR_UG :: "tim \<Rightarrow> tim" where
  "write_EGR_UG t =
     t\<lparr>CNT := 0, SR := (if CR1 t AND (TIM_CR1_URS OR TIM_CR1_UDIS) = 0 then SR t OR TIM_IT_UPDATE else SR t)\<rparr>"

section \<open>The handle\<close>

datatype hal_status = HAL_OK | HAL_ERROR | HAL_BUSY

datatype tim_state = TIM_STATE_RESET | TIM_STATE_READY | TIM_STATE_BUSY

datatype active_channel =
  ACTIVE_CHANNEL_1 | ACTIVE_CHANNEL_2 | ACTIVE_CHANNEL_3 | ACTIVE_CHANNEL_4 | ACTIVE_CHANNEL_CLEARED

record tim_base_init =
  Prescaler :: u32
  CounterMode :: u32
  Period :: u32
  ClockDivision :: u32
  AutoReloadPreload :: u32

record tim_handle =
  Init :: tim_base_init
  Channel :: active_channel
  Lock :: bool
  State :: tim_state

record oc_init =
  OCMode :: u32
  Pulse :: u32
  OCPolarity :: u32
  OCFastMode :: u32

text \<open>
  Most calls begin by taking the lock of the handle, answer \<^verbatim>\<open>HAL_BUSY\<close> when it is taken, and end by
  giving it back.
\<close>

definition locked_call ::
    "(tim_handle \<times> tim \<Rightarrow> tim_handle \<times> tim) \<Rightarrow> tim_handle \<times> tim \<Rightarrow> hal_status \<times> tim_handle \<times> tim" where
  "locked_call f = (\<lambda>(h, t).
     if Lock h then (HAL_BUSY, h, t)
     else
       let (h, t) = f (h\<lparr>Lock := True, State := TIM_STATE_BUSY\<rparr>, t)
       in (HAL_OK, h\<lparr>State := TIM_STATE_READY, Lock := False\<rparr>, t))"

section \<open>Set-up\<close>

definition HAL_TIM_PWM_MspInit :: "tim \<Rightarrow> tim" where
  "HAL_TIM_PWM_MspInit t = t\<lparr>clock_on := True, irq_on := True\<rparr>"

definition TIM_Base_SetConfig :: "tim_base_init \<Rightarrow> tim \<Rightarrow> tim" where
  "TIM_Base_SetConfig s t =
     (let tmpcr1 = CR1 t;
          tmpcr1 = (tmpcr1 AND NOT (TIM_CR1_DIR OR TIM_CR1_CMS)) OR CounterMode s;
          tmpcr1 = (tmpcr1 AND NOT TIM_CR1_CKD) OR ClockDivision s;
          tmpcr1 = (tmpcr1 AND NOT TIM_CR1_ARPE) OR AutoReloadPreload s;
          t = t\<lparr>CR1 := tmpcr1, ARR := ucast (Period s), PSC := ucast (Prescaler s)\<rparr>
      in write_EGR_UG t)"

definition HAL_TIM_PWM_Init :: "tim_handle \<times> tim \<Rightarrow> hal_status \<times> tim_handle \<times> tim" where
  "HAL_TIM_PWM_Init = (\<lambda>(h, t).
     let (h, t) = (if State h = TIM_STATE_RESET then (h\<lparr>Lock := False\<rparr>, HAL_TIM_PWM_MspInit t) else (h, t));
         h = h\<lparr>State := TIM_STATE_BUSY\<rparr>;
         t = TIM_Base_SetConfig (Init h) t
     in (HAL_OK, h\<lparr>State := TIM_STATE_READY\<rparr>, t))"

text \<open>With the internal clock as its source, the only one the program asks for.\<close>

definition HAL_TIM_ConfigClockSource :: "tim_handle \<times> tim \<Rightarrow> hal_status \<times> tim_handle \<times> tim" where
  "HAL_TIM_ConfigClockSource = locked_call (\<lambda>(h, t).
     let tmpsmcr = SMCR t;
         tmpsmcr = tmpsmcr AND NOT (TIM_SMCR_SMS OR TIM_SMCR_TS);
         tmpsmcr = tmpsmcr AND NOT (TIM_SMCR_ETF OR TIM_SMCR_ETPS OR TIM_SMCR_ECE OR TIM_SMCR_ETP)
     in (h, t\<lparr>SMCR := tmpsmcr\<rparr>))"

definition HAL_TIMEx_MasterConfigSynchronization ::
    "u32 \<Rightarrow> u32 \<Rightarrow> tim_handle \<times> tim \<Rightarrow> hal_status \<times> tim_handle \<times> tim" where
  "HAL_TIMEx_MasterConfigSynchronization trigger mode = locked_call (\<lambda>(h, t).
     let tmpcr2 = CR2 t; tmpsmcr = SMCR t;
         tmpcr2 = (tmpcr2 AND NOT TIM_CR2_MMS) OR trigger;
         tmpsmcr = (tmpsmcr AND NOT TIM_SMCR_MSM) OR mode
     in (h, t\<lparr>CR2 := tmpcr2, SMCR := tmpsmcr\<rparr>))"

definition TIM_OC1_SetConfig :: "oc_init \<Rightarrow> tim \<Rightarrow> tim" where
  "TIM_OC1_SetConfig c t =
     (let t = t\<lparr>CCER := CCER t AND NOT TIM_CCER_CC1E\<rparr>;
          tmpccer = CCER t; tmpcr2 = CR2 t; tmpccmrx = CCMR1 t;
          tmpccmrx = tmpccmrx AND NOT TIM_CCMR1_OC1M;
          tmpccmrx = tmpccmrx AND NOT TIM_CCMR1_CC1S;
          tmpccmrx = tmpccmrx OR OCMode c;
          tmpccer = tmpccer AND NOT TIM_CCER_CC1P;
          tmpccer = tmpccer OR OCPolarity c
      in t\<lparr>CR2 := tmpcr2, CCMR1 := tmpccmrx, CCR1 := ucast (Pulse c), CCER := tmpccer\<rparr>)"

definition TIM_OC2_SetConfig :: "oc_init \<Rightarrow> tim \<Rightarrow> tim" where
  "TIM_OC2_SetConfig c t =
     (let t = t\<lparr>CCER := CCER t AND NOT TIM_CCER_CC2E\<rparr>;
          tmpccer = CCER t; tmpcr2 = CR2 t; tmpccmrx = CCMR1 t;
          tmpccmrx = tmpccmrx AND NOT TIM_CCMR1_OC2M;
          tmpccmrx = tmpccmrx AND NOT TIM_CCMR1_CC2S;
          tmpccmrx = tmpccmrx OR push_bit 8 (OCMode c);
          tmpccer = tmpccer AND NOT TIM_CCER_CC2P;
          tmpccer = tmpccer OR push_bit 4 (OCPolarity c)
      in t\<lparr>CR2 := tmpcr2, CCMR1 := tmpccmrx, CCR2 := ucast (Pulse c), CCER := tmpccer\<rparr>)"

definition TIM_OC3_SetConfig :: "oc_init \<Rightarrow> tim \<Rightarrow> tim" where
  "TIM_OC3_SetConfig c t =
     (let t = t\<lparr>CCER := CCER t AND NOT TIM_CCER_CC3E\<rparr>;
          tmpccer = CCER t; tmpcr2 = CR2 t; tmpccmrx = CCMR2 t;
          tmpccmrx = tmpccmrx AND NOT TIM_CCMR2_OC3M;
          tmpccmrx = tmpccmrx AND NOT TIM_CCMR2_CC3S;
          tmpccmrx = tmpccmrx OR OCMode c;
          tmpccer = tmpccer AND NOT TIM_CCER_CC3P;
          tmpccer = tmpccer OR push_bit 8 (OCPolarity c)
      in t\<lparr>CR2 := tmpcr2, CCMR2 := tmpccmrx, CCR3 := ucast (Pulse c), CCER := tmpccer\<rparr>)"

definition TIM_OC4_SetConfig :: "oc_init \<Rightarrow> tim \<Rightarrow> tim" where
  "TIM_OC4_SetConfig c t =
     (let t = t\<lparr>CCER := CCER t AND NOT TIM_CCER_CC4E\<rparr>;
          tmpccer = CCER t; tmpcr2 = CR2 t; tmpccmrx = CCMR2 t;
          tmpccmrx = tmpccmrx AND NOT TIM_CCMR2_OC4M;
          tmpccmrx = tmpccmrx AND NOT TIM_CCMR2_CC4S;
          tmpccmrx = tmpccmrx OR push_bit 8 (OCMode c);
          tmpccer = tmpccer AND NOT TIM_CCER_CC4P;
          tmpccer = tmpccer OR push_bit 12 (OCPolarity c)
      in t\<lparr>CR2 := tmpcr2, CCMR2 := tmpccmrx, CCR4 := ucast (Pulse c), CCER := tmpccer\<rparr>)"

definition HAL_TIM_PWM_ConfigChannel ::
    "oc_init \<Rightarrow> u32 \<Rightarrow> tim_handle \<times> tim \<Rightarrow> hal_status \<times> tim_handle \<times> tim" where
  "HAL_TIM_PWM_ConfigChannel c channel = locked_call (\<lambda>(h, t).
     if channel = TIM_CHANNEL_1 then
       let t = TIM_OC1_SetConfig c t;
           t = t\<lparr>CCMR1 := CCMR1 t OR TIM_CCMR1_OC1PE\<rparr>;
           t = t\<lparr>CCMR1 := CCMR1 t AND NOT TIM_CCMR1_OC1FE\<rparr>
       in (h, t\<lparr>CCMR1 := CCMR1 t OR OCFastMode c\<rparr>)
     else if channel = TIM_CHANNEL_2 then
       let t = TIM_OC2_SetConfig c t;
           t = t\<lparr>CCMR1 := CCMR1 t OR TIM_CCMR1_OC2PE\<rparr>;
           t = t\<lparr>CCMR1 := CCMR1 t AND NOT TIM_CCMR1_OC2FE\<rparr>
       in (h, t\<lparr>CCMR1 := CCMR1 t OR push_bit 8 (OCFastMode c)\<rparr>)
     else if channel = TIM_CHANNEL_3 then
       let t = TIM_OC3_SetConfig c t;
           t = t\<lparr>CCMR2 := CCMR2 t OR TIM_CCMR2_OC3PE\<rparr>;
           t = t\<lparr>CCMR2 := CCMR2 t AND NOT TIM_CCMR2_OC3FE\<rparr>
       in (h, t\<lparr>CCMR2 := CCMR2 t OR OCFastMode c\<rparr>)
     else if channel = TIM_CHANNEL_4 then
       let t = TIM_OC4_SetConfig c t;
           t = t\<lparr>CCMR2 := CCMR2 t OR TIM_CCMR2_OC4PE\<rparr>;
           t = t\<lparr>CCMR2 := CCMR2 t AND NOT TIM_CCMR2_OC4FE\<rparr>
       in (h, t\<lparr>CCMR2 := CCMR2 t OR push_bit 8 (OCFastMode c)\<rparr>)
     else (h, t))"

text \<open>With the update event, the only one the program generates.\<close>

definition HAL_TIM_GenerateEvent :: "tim_handle \<times> tim \<Rightarrow> hal_status \<times> tim_handle \<times> tim" where
  "HAL_TIM_GenerateEvent = locked_call (\<lambda>(h, t). (h, write_EGR_UG t))"

section \<open>Starting and stopping a channel\<close>

definition channel_it :: "u32 \<Rightarrow> u32" where
  "channel_it channel =
     (if channel = TIM_CHANNEL_1 then TIM_IT_CC1 else if channel = TIM_CHANNEL_2 then TIM_IT_CC2
      else if channel = TIM_CHANNEL_3 then TIM_IT_CC3 else if channel = TIM_CHANNEL_4 then TIM_IT_CC4 else 0)"

definition TIM_CCxChannelCmd :: "u32 \<Rightarrow> u32 \<Rightarrow> tim \<Rightarrow> tim" where
  "TIM_CCxChannelCmd channel state t =
     (let shift = unat (channel AND 0x1F);
          t = t\<lparr>CCER := CCER t AND NOT (push_bit shift TIM_CCER_CC1E)\<rparr>
      in t\<lparr>CCER := CCER t OR push_bit shift state\<rparr>)"

text \<open>The macro \<^verbatim>\<open>__HAL_TIM_DISABLE\<close>: the counter goes on while any output is enabled.\<close>

definition HAL_TIM_DISABLE :: "tim \<Rightarrow> tim" where
  "HAL_TIM_DISABLE t =
     (if CCER t AND TIM_CCER_CCxE_MASK = 0 \<and> CCER t AND TIM_CCER_CCxNE_MASK = 0
      then t\<lparr>CR1 := CR1 t AND NOT TIM_CR1_CEN\<rparr> else t)"

definition HAL_TIM_PWM_Start_IT :: "u32 \<Rightarrow> tim \<Rightarrow> tim" where
  "HAL_TIM_PWM_Start_IT channel t =
     (let t = t\<lparr>DIER := DIER t OR channel_it channel\<rparr>;
          t = TIM_CCxChannelCmd channel TIM_CCx_ENABLE t;
          tmpsmcr = SMCR t AND TIM_SMCR_SMS
      in if tmpsmcr \<noteq> TIM_SLAVEMODE_TRIGGER then t\<lparr>CR1 := CR1 t OR TIM_CR1_CEN\<rparr> else t)"

definition HAL_TIM_PWM_Stop_IT :: "u32 \<Rightarrow> tim \<Rightarrow> tim" where
  "HAL_TIM_PWM_Stop_IT channel t =
     (let t = t\<lparr>DIER := DIER t AND NOT (channel_it channel)\<rparr>;
          t = TIM_CCxChannelCmd channel TIM_CCx_DISABLE t
      in HAL_TIM_DISABLE t)"

section \<open>The interrupt handler\<close>

text \<open>
  The handler runs on a handle, the timer and the state of whoever provides the callback for a finished
  pulse; the other callbacks are the empty ones of the library.
\<close>

type_synonym 'm timed = "tim_handle \<times> tim \<times> 'm"

definition weak_callback :: "'m timed \<Rightarrow> 'm timed" where
  "weak_callback s = s"

definition it_pending :: "u32 \<Rightarrow> tim \<Rightarrow> bool" where
  "it_pending it t \<longleftrightarrow> SR t AND it = it \<and> DIER t AND it = it"

definition compare_event ::
    "u32 \<Rightarrow> active_channel \<Rightarrow> (tim \<Rightarrow> bool) \<Rightarrow> ('m timed \<Rightarrow> 'm timed) \<Rightarrow> 'm timed \<Rightarrow> 'm timed" where
  "compare_event it ch captures pulse = (\<lambda>(h, t, m).
     if it_pending it t then
       let t = write_SR (NOT it) t;
           h = h\<lparr>Channel := ch\<rparr>;
           (h, t, m) = (if captures t then weak_callback (h, t, m) else pulse (weak_callback (h, t, m)))
       in (h\<lparr>Channel := ACTIVE_CHANNEL_CLEARED\<rparr>, t, m)
     else (h, t, m))"

definition other_event :: "u32 \<Rightarrow> 'm timed \<Rightarrow> 'm timed" where
  "other_event it = (\<lambda>(h, t, m).
     if it_pending it t then weak_callback (h, write_SR (NOT it) t, m) else (h, t, m))"

definition HAL_TIM_IRQHandler :: "('m timed \<Rightarrow> 'm timed) \<Rightarrow> 'm timed \<Rightarrow> 'm timed" where
  "HAL_TIM_IRQHandler pulse s =
     (let s = compare_event TIM_IT_CC1 ACTIVE_CHANNEL_1 (\<lambda>t. CCMR1 t AND TIM_CCMR1_CC1S \<noteq> 0) pulse s;
          s = compare_event TIM_IT_CC2 ACTIVE_CHANNEL_2 (\<lambda>t. CCMR1 t AND TIM_CCMR1_CC2S \<noteq> 0) pulse s;
          s = compare_event TIM_IT_CC3 ACTIVE_CHANNEL_3 (\<lambda>t. CCMR2 t AND TIM_CCMR2_CC3S \<noteq> 0) pulse s;
          s = compare_event TIM_IT_CC4 ACTIVE_CHANNEL_4 (\<lambda>t. CCMR2 t AND TIM_CCMR2_CC4S \<noteq> 0) pulse s;
          s = other_event TIM_IT_UPDATE s;
          s = other_event TIM_IT_BREAK s;
          s = other_event TIM_IT_TRIGGER s
      in other_event TIM_IT_COM s)"

section \<open>A timer that runs channel 4 alone\<close>

text \<open>
  The state the program keeps timer 3 in: channel 4 an output in PWM mode with a buffered compare value,
  no other output or interrupt, and the counter, the output and its interrupt all on or all off.
\<close>

definition timer_ready :: "bool \<Rightarrow> tim \<Rightarrow> bool" where
  "timer_ready on t \<longleftrightarrow>
     CR1 t = (if on then 0x5 else 0x4) \<and> DIER t = (if on then 0x10 else 0) \<and>
     CCER t = (if on then 0x1000 else 0) \<and> CCMR2 t = 0x6800 \<and> SMCR t = 0 \<and> irq_on t"

lemma start_ready: "timer_ready on t \<Longrightarrow> timer_ready True (HAL_TIM_PWM_Start_IT TIM_CHANNEL_4 t)"
  by (cases on) (simp_all add: timer_ready_def HAL_TIM_PWM_Start_IT_def TIM_CCxChannelCmd_def channel_it_def Let_def tim_bits)

lemma stop_ready: "timer_ready on t \<Longrightarrow> timer_ready False (HAL_TIM_PWM_Stop_IT TIM_CHANNEL_4 t)"
  by (cases on)
    (simp_all add: timer_ready_def HAL_TIM_PWM_Stop_IT_def TIM_CCxChannelCmd_def channel_it_def HAL_TIM_DISABLE_def
      Let_def tim_bits)

lemma start_flags [simp]: "SR (HAL_TIM_PWM_Start_IT c t) = SR t"
  by (simp add: HAL_TIM_PWM_Start_IT_def TIM_CCxChannelCmd_def Let_def)

lemma stop_flags [simp]: "SR (HAL_TIM_PWM_Stop_IT c t) = SR t"
  by (simp add: HAL_TIM_PWM_Stop_IT_def TIM_CCxChannelCmd_def HAL_TIM_DISABLE_def Let_def)

text \<open>The handler of such a timer serves channel 4 and nothing else.\<close>

lemma handler_of_ready:
  assumes "timer_ready on t"
  shows "HAL_TIM_IRQHandler pulse (h, t, m) =
    (let s = compare_event TIM_IT_CC4 ACTIVE_CHANNEL_4 (\<lambda>t. CCMR2 t AND TIM_CCMR2_CC4S \<noteq> 0) pulse (h, t, m)
     in other_event TIM_IT_COM (other_event TIM_IT_TRIGGER (other_event TIM_IT_BREAK (other_event TIM_IT_UPDATE s))))"
  using assms by (cases on)
    (simp_all add: HAL_TIM_IRQHandler_def compare_event_def it_pending_def timer_ready_def tim_its Let_def)

lemma other_event_ready:
  assumes "timer_ready on t" and "it \<in> {TIM_IT_UPDATE, TIM_IT_BREAK, TIM_IT_TRIGGER, TIM_IT_COM}"
  shows "other_event it (h, t, m) = (h, t, m)"
  using assms by (cases on) (auto simp: other_event_def it_pending_def timer_ready_def tim_its)

end
