(* ===== verification/Pwm_Driver.thy ===== *)
theory Pwm_Driver
  imports Motor Pwm_Timer
begin

text \<open>
  The driver below the PWM calls of the motor (\<^verbatim>\<open>drivers/drv_pwm.c\<close>, for timer 3 of the STM32F411) and
  the device on top of it (\<^verbatim>\<open>components/drivers/misc/rt_drv_pwm.c\<close>): it turns a period and a pulse in
  nanoseconds into prescaler, reload and compare values, and back, and starts and stops a channel.
  \<^verbatim>\<open>HAL_RCC_GetPCLK1Freq\<close> is a parameter, in hertz.
\<close>

type_synonym u64 = "64 word"

definition MAX_PERIOD :: u32 where "MAX_PERIOD = 65535"
definition MIN_PERIOD :: u32 where "MIN_PERIOD = 3"
definition MIN_PULSE :: u32 where "MIN_PULSE = 2"

definition PWM_CMD_ENABLE :: int where "PWM_CMD_ENABLE = 128 + 0"
definition PWM_CMD_DISABLE :: int where "PWM_CMD_DISABLE = 128 + 1"
definition PWM_CMD_SET :: int where "PWM_CMD_SET = 128 + 2"
definition PWM_CMD_GET :: int where "PWM_CMD_GET = 128 + 3"

lemmas pwm_cmds = PWM_CMD_ENABLE_def PWM_CMD_DISABLE_def PWM_CMD_SET_def PWM_CMD_GET_def

record pwm_configuration =
  cfg_channel :: u32
  cfg_period :: u32
  cfg_pulse :: u32

text \<open>The return codes \<^verbatim>\<open>RT_EOK\<close>, \<^verbatim>\<open>-RT_ERROR\<close>, \<^verbatim>\<open>-RT_EIO\<close> and \<^verbatim>\<open>RT_EINVAL\<close>.\<close>

type_synonym rt_err = int

section \<open>The driver\<close>

text \<open>Every function below gets the handle of the driver and the timer.\<close>

type_synonym timer3 = "tim_handle \<times> tim"

definition hal_channel :: "pwm_configuration \<Rightarrow> u32" where
  "hal_channel c = 0x04 * (cfg_channel c - 1)"

definition HAL_TIM_SET_COMPARE :: "u32 \<Rightarrow> u32 \<Rightarrow> tim \<Rightarrow> tim" where
  "HAL_TIM_SET_COMPARE channel v t =
     (if channel = TIM_CHANNEL_1 then t\<lparr>CCR1 := ucast v\<rparr> else if channel = TIM_CHANNEL_2 then t\<lparr>CCR2 := ucast v\<rparr>
      else if channel = TIM_CHANNEL_3 then t\<lparr>CCR3 := ucast v\<rparr> else t\<lparr>CCR4 := ucast v\<rparr>)"

definition HAL_TIM_GET_COMPARE :: "u32 \<Rightarrow> tim \<Rightarrow> u16" where
  "HAL_TIM_GET_COMPARE channel t =
     (if channel = TIM_CHANNEL_1 then CCR1 t else if channel = TIM_CHANNEL_2 then CCR2 t
      else if channel = TIM_CHANNEL_3 then CCR3 t else CCR4 t)"

definition HAL_TIM_SET_AUTORELOAD :: "u32 \<Rightarrow> timer3 \<Rightarrow> timer3" where
  "HAL_TIM_SET_AUTORELOAD v = (\<lambda>(h, t). (h\<lparr>Init := (Init h)\<lparr>Period := v\<rparr>\<rparr>, t\<lparr>ARR := ucast v\<rparr>))"

definition drv_pwm_enable :: "pwm_configuration \<Rightarrow> bool \<Rightarrow> timer3 \<Rightarrow> rt_err \<times> timer3" where
  "drv_pwm_enable c enable = (\<lambda>(h, t).
     let channel = hal_channel c
     in (0, h, if \<not> enable then HAL_TIM_PWM_Stop_IT channel t else HAL_TIM_PWM_Start_IT channel t))"

definition timer_clock :: "u32 \<Rightarrow> u64" where
  "timer_clock pclk1 = ucast (pclk1 * 2)"

definition drv_pwm_set :: "u32 \<Rightarrow> pwm_configuration \<Rightarrow> timer3 \<Rightarrow> rt_err \<times> timer3" where
  "drv_pwm_set pclk1 c = (\<lambda>(h, t).
     let channel = hal_channel c;
         tim_clock = timer_clock pclk1 div 1000000;
         period = ucast ((ucast (cfg_period c) :: u64) * tim_clock div 1000) :: u32;
         psc = ucast (period div MAX_PERIOD + 1) :: u64;
         period = ucast (ucast period div psc) :: u32;
         t = t\<lparr>PSC := ucast (psc - 1)\<rparr>;
         period = (if period < MIN_PERIOD then MIN_PERIOD else period);
         (h, t) = HAL_TIM_SET_AUTORELOAD (period - 1) (h, t);
         pulse = ucast ((ucast (cfg_pulse c) :: u64) * tim_clock div psc div 1000) :: u32;
         pulse = (if pulse < MIN_PULSE then MIN_PULSE else if period < pulse then period else pulse);
         t = HAL_TIM_SET_COMPARE channel (pulse - 1) t;
         t = t\<lparr>CNT := 0\<rparr>
     in (0, snd (HAL_TIM_GenerateEvent (h, t))))"

text \<open>The product is computed in 32 bits: \<^verbatim>\<open>unsigned long\<close> has no more on this processor.\<close>

definition drv_pwm_get :: "u32 \<Rightarrow> pwm_configuration \<Rightarrow> tim \<Rightarrow> pwm_configuration result" where
  "drv_pwm_get pclk1 c t =
     (let channel = hal_channel c;
          tim_clock = timer_clock pclk1;
          tim_clock = (if CR1 t AND TIM_CR1_CKD = 0x100 then tim_clock div 2
            else if CR1 t AND TIM_CR1_CKD = 0x200 then tim_clock div 4 else tim_clock);
          tim_clock = tim_clock div 1000000;
          ns = (\<lambda>r :: u16. ucast (ucast ((ucast r + 1) * (ucast (PSC t) + 1) * 1000 :: u32) div tim_clock :: u64) :: u32)
      in if tim_clock = 0 then Inl DivByZero
         else Inr (c\<lparr>cfg_period := ns (ARR t), cfg_pulse := ns (HAL_TIM_GET_COMPARE channel t)\<rparr>))"

text \<open>An unknown command is answered with \<^verbatim>\<open>RT_EINVAL\<close>, which is positive.\<close>

definition drv_pwm_control ::
    "u32 \<Rightarrow> int \<Rightarrow> pwm_configuration \<Rightarrow> timer3 \<Rightarrow> (rt_err \<times> pwm_configuration \<times> timer3) result" where
  "drv_pwm_control pclk1 cmd c s =
     (if cmd = PWM_CMD_ENABLE then Inr (map_prod id (Pair c) (drv_pwm_enable c True s))
      else if cmd = PWM_CMD_DISABLE then Inr (map_prod id (Pair c) (drv_pwm_enable c False s))
      else if cmd = PWM_CMD_SET then Inr (map_prod id (Pair c) (drv_pwm_set pclk1 c s))
      else if cmd = PWM_CMD_GET then map_r (\<lambda>c. (0, c, s)) (drv_pwm_get pclk1 c (snd s))
      else Inr (10, c, s))"

text \<open>
  The set-up of the driver. \<open>channels\<close> is the mask of the channels the board configuration names: none,
  for timer 3. Each step of the library may refuse because the handle is locked.
\<close>

definition next_step :: "(timer3 \<Rightarrow> hal_status \<times> timer3) \<Rightarrow> bool \<times> timer3 \<Rightarrow> bool \<times> timer3" where
  "next_step f = (\<lambda>(ok, s). if ok then map_prod (\<lambda>r. r = HAL_OK) id (f s) else (ok, s))"

definition stm32_hw_pwm_init :: "u8 \<Rightarrow> timer3 \<Rightarrow> rt_err \<times> timer3" where
  "stm32_hw_pwm_init channels = (\<lambda>(h, t).
     let h = h\<lparr>Init := (Init h)\<lparr>Prescaler := 0, CounterMode := 0, Period := 0, ClockDivision := 0\<rparr>\<rparr>;
         oc_config = \<lparr>OCMode = 0x60, Pulse = 0, OCPolarity = 0, OCFastMode = 0\<rparr>;
         channel = (\<lambda>m number. if channels AND m \<noteq> 0 then next_step (HAL_TIM_PWM_ConfigChannel oc_config number) else id);
         r = next_step HAL_TIM_PWM_Init (True, h, t);
         r = next_step HAL_TIM_ConfigClockSource r;
         r = next_step (HAL_TIMEx_MasterConfigSynchronization 0 0) r;
         r = channel 0x01 TIM_CHANNEL_1 r;
         r = channel 0x02 TIM_CHANNEL_2 r;
         r = channel 0x04 TIM_CHANNEL_3 r;
         (ok, h, t) = channel 0x08 TIM_CHANNEL_4 r
     in if ok then (0, h, t\<lparr>CR1 := CR1 t OR TIM_CR1_URS\<rparr>) else (- 1, h, t))"

text \<open>
  The set-up of the application, with a handle of its own for the same timer. \<open>None\<close>: it hangs in
  \<^verbatim>\<open>Error_Handler\<close>, which does not return.
\<close>

definition MX_TIM3_Init :: "timer3 \<Rightarrow> timer3 option" where
  "MX_TIM3_Init = (\<lambda>(h, t).
     let h = h\<lparr>Init := \<lparr>Prescaler = 0, CounterMode = 0, Period = 65535, ClockDivision = 0, AutoReloadPreload = 0\<rparr>\<rparr>;
         r = next_step HAL_TIM_PWM_Init (True, h, t);
         r = next_step (HAL_TIMEx_MasterConfigSynchronization 0 0) r;
         sConfigOC = \<lparr>OCMode = 0x60, Pulse = 0, OCPolarity = 0, OCFastMode = 0\<rparr>;
         (ok, s) = next_step (HAL_TIM_PWM_ConfigChannel sConfigOC TIM_CHANNEL_4) r
     in if ok then Some s else None)"

section \<open>The device\<close>

text \<open>
  \<open>found\<close> says whether the caller has a device at all: the pointer it passes may be null. The control
  function of the device is the one of the driver above.
\<close>

definition pwm_control where
  "pwm_control = drv_pwm_control"

definition pwm_read :: "u32 \<Rightarrow> u32 \<Rightarrow> u32 \<Rightarrow> timer3 \<Rightarrow> (u32 \<times> u32 option) result" where
  "pwm_read pclk1 pos len s =
     map_r (\<lambda>(result, c, _). if result \<noteq> 0 then (0, None) else (len, Some (cfg_pulse c)))
       (drv_pwm_control pclk1 PWM_CMD_GET \<lparr>cfg_channel = pos, cfg_period = 0, cfg_pulse = 0\<rparr> s)"

definition pwm_write :: "u32 \<Rightarrow> u32 \<Rightarrow> u32 \<Rightarrow> u32 \<Rightarrow> timer3 \<Rightarrow> (u32 \<times> timer3) result" where
  "pwm_write pclk1 pos pulse len s =
     bind_r (drv_pwm_control pclk1 PWM_CMD_GET \<lparr>cfg_channel = pos, cfg_period = 0, cfg_pulse = 0\<rparr> s)
       (\<lambda>(result, c, s). if result \<noteq> 0 then Inr (0, s)
         else map_r (\<lambda>(result, c, s). (if result \<noteq> 0 then 0 else len, s))
           (drv_pwm_control pclk1 PWM_CMD_SET (c\<lparr>cfg_pulse := pulse\<rparr>) s))"

definition device_pwm_enable :: "u32 \<Rightarrow> bool \<Rightarrow> u32 \<Rightarrow> timer3 \<Rightarrow> (rt_err \<times> timer3) result" where
  "device_pwm_enable pclk1 found channel s =
     (if \<not> found then Inr (- 8, s)
      else map_r (\<lambda>(result, c, s). (result, s))
        (pwm_control pclk1 PWM_CMD_ENABLE \<lparr>cfg_channel = channel, cfg_period = 0, cfg_pulse = 0\<rparr> s))"

definition device_pwm_disable :: "u32 \<Rightarrow> bool \<Rightarrow> u32 \<Rightarrow> timer3 \<Rightarrow> (rt_err \<times> timer3) result" where
  "device_pwm_disable pclk1 found channel s =
     (if \<not> found then Inr (- 8, s)
      else map_r (\<lambda>(result, c, s). (result, s))
        (pwm_control pclk1 PWM_CMD_DISABLE \<lparr>cfg_channel = channel, cfg_period = 0, cfg_pulse = 0\<rparr> s))"

definition device_pwm_set :: "u32 \<Rightarrow> bool \<Rightarrow> u32 \<Rightarrow> u32 \<Rightarrow> u32 \<Rightarrow> timer3 \<Rightarrow> (rt_err \<times> timer3) result" where
  "device_pwm_set pclk1 found channel period pulse s =
     (if \<not> found then Inr (- 8, s)
      else map_r (\<lambda>(result, c, s). (result, s))
        (pwm_control pclk1 PWM_CMD_SET \<lparr>cfg_channel = channel, cfg_period = period, cfg_pulse = pulse\<rparr> s))"

section \<open>The registers as numbers\<close>

text \<open>The clock in megahertz and the period in its cycles.\<close>

definition mhz :: "u32 \<Rightarrow> nat" where
  "mhz pclk1 = unat (pclk1 * 2) div 1000000"

definition cycles :: "u32 \<Rightarrow> u32 \<Rightarrow> nat" where
  "cycles pclk1 ns = unat ns * mhz pclk1 div 1000"

lemma unat_u32_less: "unat (w :: u32) < 4294967296"
  by (rule order_less_le_trans [OF unsigned_less]) simp

lemma unat_up: "unat (ucast (w :: u32) :: u64) = unat w"
  using unat_u32_less [of w] by (simp add: unsigned_ucast_eq take_bit_nat_eq_self)

lemma unat_down: "unat (w :: u64) < 4294967296 \<Longrightarrow> unat (ucast w :: u32) = unat w"
  by (simp add: unsigned_ucast_eq take_bit_nat_eq_self)

lemma unat_u16: "unat (w :: u32) < 65536 \<Longrightarrow> unat (ucast w :: u16) = unat w"
  by (simp add: unsigned_ucast_eq take_bit_nat_eq_self)

lemma mhz_less: "mhz pclk1 < 4295"
  unfolding mhz_def using unat_u32_less [of "pclk1 * 2"] by (intro less_mult_imp_div_less) simp

lemma unat_timer_clock: "unat (timer_clock pclk1 div 1000000) = mhz pclk1"
  by (simp add: timer_clock_def mhz_def unat_div_distrib unat_up)

lemma unat_mhz: "unat (timer_clock pclk1) div 1000000 = mhz pclk1"
  by (simp add: timer_clock_def mhz_def unat_up)

lemma product_small: "unat (ns :: u32) * mhz pclk1 < 2 ^ 64"
proof -
  have "unat ns * mhz pclk1 \<le> 4294967296 * 4295"
    using unat_u32_less [of ns] mhz_less [of pclk1] by (intro mult_mono) simp_all
  then show ?thesis by simp
qed

lemma unat_product: "unat ((ucast (ns :: u32) :: u64) * (timer_clock pclk1 div 1000000)) = unat ns * mhz pclk1"
  using product_small [of ns pclk1] unat_mult_lem [of "ucast ns :: u64" "timer_clock pclk1 div 1000000"]
  by (simp add: unat_timer_clock unat_up)

lemma unat_cycles:
  assumes "cycles pclk1 ns < 4294967296"
  shows "unat (ucast ((ucast ns :: u64) * (timer_clock pclk1 div 1000000) div 1000) :: u32) = cycles pclk1 ns"
proof -
  have "unat ((ucast ns :: u64) * (timer_clock pclk1 div 1000000) div 1000) = cycles pclk1 ns"
    by (simp add: unat_div_distrib unat_product cycles_def)
  with assms show ?thesis by (simp add: unat_down)
qed

text \<open>Prescaler and reload of a period of \<open>n\<close> cycles.\<close>

definition divider :: "nat \<Rightarrow> nat" where
  "divider n = n div 65535 + 1"

lemma divider_quotient: "n div divider n < 65536"
proof -
  have "n < 65535 * divider n" unfolding divider_def by (simp add: dividend_less_div_times)
  then have "n div divider n < 65535" by (intro less_mult_imp_div_less)
  then show ?thesis by simp
qed

lemma divider_sandwich: "divider n * (n div divider n) \<le> n" "n < divider n * (n div divider n) + divider n"
proof -
  have "0 < divider n" by (simp add: divider_def)
  then show "n < divider n * (n div divider n) + divider n"
    by (metis add.commute dividend_less_times_div mult.commute mult_Suc_right)
qed simp

lemma divider_large:
  assumes "3 \<le> n"
  shows "3 \<le> n div divider n"
proof (cases "n < 65535")
  case True
  with assms show ?thesis by (simp add: divider_def)
next
  case False
  obtain q where q: "n div 65535 = q" by simp
  have "65535 * q \<le> n" unfolding q [symmetric] by simp
  moreover have "1 \<le> q" unfolding q [symmetric] using False by (simp add: Suc_leI div_greater_zero_iff)
  then have "3 * (q + 1) \<le> 6 * q" "6 * q \<le> 65535 * q" by simp_all
  ultimately have "3 * divider n \<le> n" unfolding divider_def q by (blast intro: order_trans)
  then show ?thesis by (simp add: less_eq_div_iff_mult_less_eq divider_def)
qed

text \<open>What the calls leave of the registers.\<close>

lemma generate_event_fields [simp]:
  "PSC (snd (snd (HAL_TIM_GenerateEvent s))) = PSC (snd s)"
  "ARR (snd (snd (HAL_TIM_GenerateEvent s))) = ARR (snd s)"
  "HAL_TIM_GET_COMPARE channel (snd (snd (HAL_TIM_GenerateEvent s))) = HAL_TIM_GET_COMPARE channel (snd s)"
  "CR1 (snd (snd (HAL_TIM_GenerateEvent s))) = CR1 (snd s)"
  "CCMR2 (snd (snd (HAL_TIM_GenerateEvent s))) = CCMR2 (snd s)"
  "DIER (snd (snd (HAL_TIM_GenerateEvent s))) = DIER (snd s)"
  "CCER (snd (snd (HAL_TIM_GenerateEvent s))) = CCER (snd s)"
  "SMCR (snd (snd (HAL_TIM_GenerateEvent s))) = SMCR (snd s)"
  "irq_on (snd (snd (HAL_TIM_GenerateEvent s))) = irq_on (snd s)"
  by (cases s; simp add: HAL_TIM_GenerateEvent_def locked_call_def write_EGR_UG_def HAL_TIM_GET_COMPARE_def)+

lemma set_compare_fields [simp]:
  "PSC (HAL_TIM_SET_COMPARE channel v t) = PSC t"
  "ARR (HAL_TIM_SET_COMPARE channel v t) = ARR t"
  "CR1 (HAL_TIM_SET_COMPARE channel v t) = CR1 t"
  "CCMR2 (HAL_TIM_SET_COMPARE channel v t) = CCMR2 t"
  "DIER (HAL_TIM_SET_COMPARE channel v t) = DIER t"
  "CCER (HAL_TIM_SET_COMPARE channel v t) = CCER t"
  "SMCR (HAL_TIM_SET_COMPARE channel v t) = SMCR t"
  "SR (HAL_TIM_SET_COMPARE channel v t) = SR t"
  "irq_on (HAL_TIM_SET_COMPARE channel v t) = irq_on t"
  "HAL_TIM_GET_COMPARE channel (HAL_TIM_SET_COMPARE channel v t) = ucast v"
  by (simp_all add: HAL_TIM_SET_COMPARE_def HAL_TIM_GET_COMPARE_def)

lemma set_compare_count [simp]:
  "HAL_TIM_GET_COMPARE channel (t\<lparr>CNT := v\<rparr>) = HAL_TIM_GET_COMPARE channel t"
  by (simp add: HAL_TIM_GET_COMPARE_def)

lemma set_registers:
  assumes "cycles pclk1 (cfg_period c) = n" and "3 \<le> n" and "n < 4294967296" and "divider n \<le> 65536"
    and "(r, h', t') = drv_pwm_set pclk1 c (h, t)"
  shows "unat (PSC t') + 1 = divider n" and "unat (ARR t') + 1 = n div divider n"
    and "unat (HAL_TIM_GET_COMPARE (hal_channel c) t') + 1 \<le> n div divider n"
    and "unat (cfg_pulse c) * mhz pclk1 div divider n div 1000 < 4294967296 \<Longrightarrow>
      unat (HAL_TIM_GET_COMPARE (hal_channel c) t') + 1 =
        max 2 (min (n div divider n) (unat (cfg_pulse c) * mhz pclk1 div divider n div 1000))"
proof -
  define period where "period = (ucast ((ucast (cfg_period c) :: u64) * (timer_clock pclk1 div 1000000) div 1000) :: u32)"
  define psc where "psc = (ucast (period div MAX_PERIOD + 1) :: u64)"
  define rel where "rel = (ucast (ucast period div psc) :: u32)"
  define width where "width = (ucast ((ucast (cfg_pulse c) :: u64) * (timer_clock pclk1 div 1000000) div psc div 1000) :: u32)"
  have period: "unat period = n" unfolding period_def using assms(1,3) by (subst unat_cycles) simp_all
  have psc32: "unat (period div MAX_PERIOD + 1) = divider n"
    using assms(4) by (simp add: unat_word_ariths unat_div_distrib period MAX_PERIOD_def divider_def)
  then have psc: "unat psc = divider n" by (simp add: psc_def unat_up)
  have "unat (ucast period div psc) = n div divider n" by (simp add: unat_div_distrib unat_up period psc)
  then have rel: "unat rel = n div divider n" unfolding rel_def
    using divider_quotient [of n] by (simp add: unat_down)
  have rel3: "\<not> rel < MIN_PERIOD" "3 \<le> unat rel" using divider_large [OF assms(2)] rel by (simp_all add: MIN_PERIOD_def word_less_nat_alt)
  define duty where "duty = (if width < MIN_PULSE then MIN_PULSE else if rel < width then rel else width)"
  let ?h = "h\<lparr>Init := (Init h)\<lparr>Period := rel - 1\<rparr>\<rparr>"
  let ?t = "(HAL_TIM_SET_COMPARE (hal_channel c) (duty - 1) (t\<lparr>PSC := ucast (psc - 1), ARR := ucast (rel - 1)\<rparr>))\<lparr>CNT := 0\<rparr>"
  have "(h', t') = snd (HAL_TIM_GenerateEvent (?h, ?t))"
    using assms(5) unfolding drv_pwm_set_def Let_def HAL_TIM_SET_AUTORELOAD_def
    by (simp only: prod.case prod.inject period_def [symmetric] psc_def [symmetric] rel_def [symmetric] width_def [symmetric]
        rel3 if_False duty_def)
  then have "t' = snd (snd (HAL_TIM_GenerateEvent (?h, ?t)))" by (metis snd_conv)
  then have t': "PSC t' = ucast (psc - 1)" "ARR t' = ucast (rel - 1)"
    "HAL_TIM_GET_COMPARE (hal_channel c) t' = ucast (duty - 1)" by simp_all
  show "unat (PSC t') + 1 = divider n"
  proof -
    have "0 < unat psc" using psc by (simp add: divider_def)
    then have "unat (psc - 1) = divider n - 1" using psc by (simp add: unat_sub word_le_nat_alt)
    with assms(4) show ?thesis by (simp add: t' unsigned_ucast_eq take_bit_nat_eq_self divider_def)
  qed
  have one: "unat (ucast (w - 1) :: u16) + 1 = unat w" if "0 < unat w" "unat w < 65536" for w :: u32
    using that by (simp add: unat_sub word_le_nat_alt unsigned_ucast_eq take_bit_nat_eq_self)
  show "unat (ARR t') + 1 = n div divider n"
    using one [of rel] rel rel3(2) divider_quotient [of n] by (simp add: t')
  have duty: "unat duty = max 2 (min (unat rel) (unat width))"
    using rel3(2) by (auto simp: duty_def MIN_PULSE_def word_less_nat_alt)
  then have "unat (HAL_TIM_GET_COMPARE (hal_channel c) t') + 1 = unat duty"
    using one [of duty] rel3(2) rel divider_quotient [of n] by (simp add: t')
  then have compare: "unat (HAL_TIM_GET_COMPARE (hal_channel c) t') + 1 = max 2 (min (n div divider n) (unat width))"
    by (simp only: duty rel)
  then show "unat (HAL_TIM_GET_COMPARE (hal_channel c) t') + 1 \<le> n div divider n" using rel3(2) rel by simp
  show "unat (HAL_TIM_GET_COMPARE (hal_channel c) t') + 1 =
      max 2 (min (n div divider n) (unat (cfg_pulse c) * mhz pclk1 div divider n div 1000))"
    if "unat (cfg_pulse c) * mhz pclk1 div divider n div 1000 < 4294967296"
  proof -
    have "unat width = unat (cfg_pulse c) * mhz pclk1 div divider n div 1000"
      using that by (simp add: width_def unat_down unat_div_distrib unat_product psc)
    then show ?thesis by (simp only: compare)
  qed
qed

section \<open>Periods\<close>

text \<open>
  C23: A period of n timer cycles, from the driver's minimum of 3 up to 65535 * 65536 - 1, is programmed
  with prescaler n div 65535 (another one may come closer) as a period that is not longer and less than
  one prescaled cycle shorter; the pulse is never longer than the period, and all values fit the 16-bit
  registers.
\<close>

theorem pwm_period_close:
  assumes "n = cycles pclk1 (cfg_period c)" and "3 \<le> n" and "n < 65535 * 65536"
    and "(r, h', t') = drv_pwm_set pclk1 c (h, t)"
  shows "(unat (PSC t') + 1) * (unat (ARR t') + 1) \<le> n \<and>
    n < (unat (PSC t') + 1) * (unat (ARR t') + 1) + (unat (PSC t') + 1) \<and>
    unat (PSC t') = n div 65535 \<and> HAL_TIM_GET_COMPARE (hal_channel c) t' \<le> ARR t'"
proof -
  have "n div 65535 < 65536" using assms(3) by (intro less_mult_imp_div_less) simp
  then have "divider n \<le> 65536" by (simp add: divider_def)
  with assms have r: "unat (PSC t') + 1 = divider n" "unat (ARR t') + 1 = n div divider n"
    "unat (HAL_TIM_GET_COMPARE (hal_channel c) t') + 1 \<le> n div divider n"
    using set_registers(1-3) [of pclk1 c n r h' t' h t] by simp_all
  from r(1) have "unat (PSC t') = n div 65535" by (simp add: divider_def)
  moreover from r(2,3) have "HAL_TIM_GET_COMPARE (hal_channel c) t' \<le> ARR t'" by (simp add: word_le_nat_alt)
  ultimately show ?thesis unfolding r(1,2) using divider_sandwich [of n] by blast
qed

text \<open>
  A period of whole cycles that needs no prescaler is read back as it was set.
\<close>

lemma set_control:
  "CR1 (snd (snd (drv_pwm_set pclk1 c (h, t)))) = CR1 t"
  by (simp add: drv_pwm_set_def Let_def HAL_TIM_SET_AUTORELOAD_def)

theorem pwm_period_read_back:
  assumes "unat (cfg_period c) * mhz pclk1 = 1000 * n" and "3 \<le> n" and "n < 65535" and "CR1 t AND TIM_CR1_CKD = 0"
    and "(r, h', t') = drv_pwm_set pclk1 c (h, t)"
  shows "\<exists>c'. drv_pwm_get pclk1 c t' = Inr c' \<and> cfg_period c' = cfg_period c"
proof -
  have n: "cycles pclk1 (cfg_period c) = n" "divider n = 1" using assms(1-3) by (simp_all add: cycles_def divider_def)
  with assms(2,3) have "unat (PSC t') + 1 = 1" "unat (ARR t') + 1 = n"
    using set_registers(1,2) [of pclk1 c n r h' t' h t] assms(5) by simp_all
  then have t: "PSC t' = 0" "unat (ARR t') = n - 1" using assms(2) by (simp_all add: unsigned_eq_0_iff)
  have f: "0 < mhz pclk1" using assms(1,2) by (cases "mhz pclk1 = 0") auto
  have wide: "unat (ucast (ARR t') :: u32) = n - 1"
    using t(2) assms(3) by (simp add: unsigned_ucast_eq take_bit_nat_eq_self)
  have "unat ((ucast (ARR t') + 1) * 1000 :: u32) = n * 1000"
    using assms(2,3) by (simp add: unat_word_ariths wide)
  then have "unat (ucast ((ucast (ARR t') + 1) * 1000 :: u32) div (timer_clock pclk1 div 1000000)) = unat (cfg_period c)"
  proof -
    have "n * 1000 div mhz pclk1 = unat (cfg_period c)" using f by (simp only: mult.commute [of n] assms(1) [symmetric]) simp
    with \<open>unat ((ucast (ARR t') + 1) * 1000 :: u32) = n * 1000\<close> show ?thesis
      by (simp only: unat_div_distrib unat_up) (simp only: unat_div_distrib [symmetric] unat_timer_clock)
  qed
  then have "ucast (ucast ((ucast (ARR t') + 1) * 1000 :: u32) div (timer_clock pclk1 div 1000000)) = cfg_period c"
    using unat_u32_less [of "cfg_period c"] by (simp only: word_unat_eq_iff unat_down)
  moreover have "timer_clock pclk1 div 1000000 \<noteq> 0" using f unat_timer_clock [of pclk1] by auto
  moreover have "CR1 t' AND TIM_CR1_CKD = 0" using assms(4,5) set_control [of pclk1 c h t] by (metis snd_conv)
  ultimately show ?thesis by (simp add: drv_pwm_get_def Let_def t(1))
qed

text \<open>
  Whatever the registers hold, the period read back is below 2^32 / f nanoseconds, 86 ms for the 50 MHz
  of this board: the product is cut to 32 bits, so longer periods are read back wrong.
\<close>

theorem pwm_read_back_wraps:
  assumes "drv_pwm_get pclk1 c t = Inr c'" and "CR1 t AND TIM_CR1_CKD = 0"
  shows "unat (cfg_period c') \<le> 4294967295 div mhz pclk1"
proof -
  from assms obtain x :: u32 where x: "cfg_period c' = ucast (ucast x div (timer_clock pclk1 div 1000000) :: u64)"
    by (auto simp: drv_pwm_get_def Let_def split: if_splits)
  have div: "unat (ucast x div (timer_clock pclk1 div 1000000) :: u64) = unat x div mhz pclk1"
    by (simp add: unat_div_distrib unat_up unat_mhz)
  have "unat x div mhz pclk1 \<le> unat x" by simp
  then have "unat (ucast x div (timer_clock pclk1 div 1000000) :: u64) < 4294967296"
    using unat_u32_less [of x] unfolding div by linarith
  from unat_down [OF this] have "unat (cfg_period c') = unat x div mhz pclk1" by (simp only: x div)
  moreover have "unat x div mhz pclk1 \<le> 4294967295 div mhz pclk1"
    using unat_u32_less [of x] by (intro div_le_mono) simp
  ultimately show ?thesis by simp
qed

section \<open>The set-up and the periods of the motor\<close>

text \<open>\<^verbatim>\<open>system_clock_config\<close> divides the 100 MHz of the core by four for the first peripheral bus.\<close>

definition board_pclk1 :: u32 where "board_pclk1 = 25000000"

text \<open>The timer out of reset, and a handle nobody has used.\<close>

definition tim_reset :: tim where
  "tim_reset = \<lparr>CR1 = 0, CR2 = 0, SMCR = 0, DIER = 0, SR = 0, CCMR1 = 0, CCMR2 = 0, CCER = 0, CNT = 0, PSC = 0,
     ARR = 65535, CCR1 = 0, CCR2 = 0, CCR3 = 0, CCR4 = 0, clock_on = False, irq_on = False\<rparr>"

definition new_handle :: tim_handle where
  "new_handle = \<lparr>Init = \<lparr>Prescaler = 0, CounterMode = 0, Period = 0, ClockDivision = 0, AutoReloadPreload = 0\<rparr>,
     Channel = ACTIVE_CHANNEL_1, Lock = False, State = TIM_STATE_RESET\<rparr>"

text \<open>
  The driver sets the timer up at start-up without its channel; the application then sets it up again with
  channel 4. Both succeed and leave channel 4 ready and off, with no compare flag raised.
\<close>

definition timer_booted :: "(timer3 \<times> timer3) option" where
  "timer_booted =
     (let (r, dev, t) = stm32_hw_pwm_init 0 (new_handle, tim_reset)
      in if r = 0 then map_option (\<lambda>s. (s, dev, snd s)) (MX_TIM3_Init (new_handle, t)) else None)"

lemma boot_ready:
  "\<exists>own dev t. timer_booted = Some ((own, t), dev, t) \<and> timer_ready False t \<and> SR t AND TIM_IT_CC4 = 0 \<and>
     \<not> Lock own \<and> \<not> Lock dev"
  by (simp add: timer_booted_def stm32_hw_pwm_init_def MX_TIM3_Init_def next_step_def HAL_TIM_PWM_Init_def
      HAL_TIM_ConfigClockSource_def HAL_TIMEx_MasterConfigSynchronization_def HAL_TIM_PWM_ConfigChannel_def
      locked_call_def TIM_OC4_SetConfig_def TIM_Base_SetConfig_def HAL_TIM_PWM_MspInit_def write_EGR_UG_def
      new_handle_def tim_reset_def timer_ready_def Let_def tim_bits)

lemma board_mhz: "mhz board_pclk1 = 50"
  by (simp add: mhz_def board_pclk1_def)

abbreviation long_period :: pwm_configuration where
  "long_period \<equiv> \<lparr>cfg_channel = 4, cfg_period = 100000000, cfg_pulse = 50000000\<rparr>"

theorem pwm_period_close_witness:
  "\<exists>r h' t'. drv_pwm_set board_pclk1 long_period (new_handle, tim_reset) = (r, h', t') \<and>
     unat (PSC t') = 76 \<and> HAL_TIM_GET_COMPARE TIM_CHANNEL_4 t' \<le> ARR t'"
proof -
  obtain r h' t' where d: "drv_pwm_set board_pclk1 long_period (new_handle, tim_reset) = (r, h', t')"
    by (metis prod_cases3)
  have "5000000 = cycles board_pclk1 (cfg_period long_period)" by (simp add: cycles_def board_mhz)
  from pwm_period_close [OF this _ _ d [symmetric]] d show ?thesis by (auto simp: hal_channel_def TIM_CHANNEL_4_def)
qed

theorem pwm_period_read_back_witness:
  "\<exists>r h' t' c'. drv_pwm_set board_pclk1 \<lparr>cfg_channel = 4, cfg_period = PWM_SPEED_LOW, cfg_pulse = PWM_SPEED_LOW div 20\<rparr>
       (new_handle, tim_reset) = (r, h', t') \<and>
     drv_pwm_get board_pclk1 \<lparr>cfg_channel = 4, cfg_period = PWM_SPEED_LOW, cfg_pulse = PWM_SPEED_LOW div 20\<rparr> t' = Inr c' \<and>
     cfg_period c' = PWM_SPEED_LOW"
proof -
  let ?c = "\<lparr>cfg_channel = 4, cfg_period = PWM_SPEED_LOW, cfg_pulse = PWM_SPEED_LOW div 20\<rparr>"
  obtain r h' t' where d: "drv_pwm_set board_pclk1 ?c (new_handle, tim_reset) = (r, h', t')" by (metis prod_cases3)
  have "\<exists>c'. drv_pwm_get board_pclk1 ?c t' = Inr c' \<and> cfg_period c' = cfg_period ?c"
    by (rule pwm_period_read_back [where n = 6250, OF _ _ _ _ d [symmetric]])
      (simp_all add: board_mhz PWM_SPEED_LOW_def tim_reset_def)
  with d show ?thesis by auto
qed

theorem pwm_read_back_wraps_witness:
  "\<exists>r h' t' c'. drv_pwm_set board_pclk1 long_period (new_handle, tim_reset) = (r, h', t') \<and>
     drv_pwm_get board_pclk1 long_period t' = Inr c' \<and> unat (cfg_period c') \<le> 85899345"
proof -
  obtain r h' t' where d: "drv_pwm_set board_pclk1 long_period (new_handle, tim_reset) = (r, h', t')"
    by (metis prod_cases3)
  have ckd: "CR1 t' AND TIM_CR1_CKD = 0"
    using set_control [of board_pclk1 long_period new_handle tim_reset] d by (simp add: tim_reset_def)
  moreover have "timer_clock board_pclk1 div 1000000 \<noteq> 0" by (simp add: timer_clock_def board_pclk1_def)
  ultimately obtain c' where "drv_pwm_get board_pclk1 long_period t' = Inr c'"
    by (simp add: drv_pwm_get_def Let_def)
  with pwm_read_back_wraps [OF this ckd] d show ?thesis by (auto simp: board_mhz)
qed

text \<open>
  The four periods of the motor need no prescaler; their pulse is the twentieth part.
\<close>

lemma motor_periods:
  "map (\<lambda>p. let (r, h, t) = drv_pwm_set board_pclk1 \<lparr>cfg_channel = 4, cfg_period = p, cfg_pulse = p div 20\<rparr> (new_handle, tim_reset)
     in (PSC t, ARR t, CCR4 t)) [PWM_SPEED_HIGH, PWM_SPEED_LOW, 105000, 62500] =
   [(0, 31249, 1561), (0, 6249, 311), (0, 5249, 261), (0, 3124, 155)]"
  by code_simp

end
