(* ===== verification/Pwm_Motor.thy ===== *)
theory Pwm_Motor
  imports Pwm_Driver
begin

text \<open>
  The motor on its timer: the commands of \<^verbatim>\<open>applications/BJ_pwm.c\<close> carried down through the PWM device
  and its driver to the registers of timer 3, and the interrupt of the timer carried up through the
  handler of the library to the pulse count. What the registers do is compared with the history of
  commands, and what the motor moves with the count that stops it.
\<close>

definition PWM_DEV_CHANNEL :: u32 where "PWM_DEV_CHANNEL = 4"

text \<open>
  \<open>own\<close> and \<open>dev\<close> are the two handles for the timer, of the application (\<^verbatim>\<open>htim3\<close>) and of the driver.
  \<open>pulses\<close> counts the pulses at the output, \<open>overruns\<close> those that came while the flag of an earlier one
  was still up.
\<close>

record motor_board =
  app :: "motor \<times> history"
  own :: tim_handle
  dev :: tim_handle
  tim3 :: tim
  pulses :: nat
  overruns :: nat

section \<open>From the commands to the registers\<close>

definition after_call :: "timer3 \<Rightarrow> (rt_err \<times> timer3) result \<Rightarrow> timer3" where
  "after_call s r = (case r of Inl _ \<Rightarrow> s | Inr (_, s') \<Rightarrow> s')"

fun play :: "u32 \<Rightarrow> event \<Rightarrow> timer3 \<Rightarrow> timer3" where
  "play pclk1 (PwmSet p w) s = after_call s (device_pwm_set pclk1 True PWM_DEV_CHANNEL p w s)"
| "play pclk1 PwmEnable s = after_call s (device_pwm_enable pclk1 True PWM_DEV_CHANNEL s)"
| "play pclk1 PwmDisable s = after_call s (device_pwm_disable pclk1 True PWM_DEV_CHANNEL s)"
| "play pclk1 _ s = s"

text \<open>An operation of the motor, with the calls it made carried out on the timer in their order.\<close>

definition on_timer :: "u32 \<Rightarrow> (motor \<times> history \<Rightarrow> motor \<times> history) \<Rightarrow> motor_board \<Rightarrow> motor_board" where
  "on_timer pclk1 f b =
     (let a = f (app b);
          calls = rev (take (length (snd a) - length (snd (app b))) (snd a));
          (d, t) = fold (play pclk1) calls (dev b, tim3 b)
      in b\<lparr>app := a, dev := d, tim3 := t\<rparr>)"

text \<open>The interrupt of the timer, on the handle of the application.\<close>

definition pulse_callback :: "u32 \<Rightarrow> motor_board timed \<Rightarrow> motor_board timed" where
  "pulse_callback pclk1 = (\<lambda>(h, t, b).
     let b = on_timer pclk1 HAL_TIM_PWM_PulseFinishedCallback (b\<lparr>own := h, tim3 := t\<rparr>)
     in (own b, tim3 b, b))"

definition TIM3_IRQHandler :: "u32 \<Rightarrow> motor_board \<Rightarrow> motor_board" where
  "TIM3_IRQHandler pclk1 b =
     (let (h, t, b) = HAL_TIM_IRQHandler (pulse_callback pclk1) (own b, tim3 b, b)
      in b\<lparr>own := h, tim3 := t\<rparr>)"

text \<open>
  What the timer does by itself: at the end of a pulse it raises the flag of channel 4, as long as it
  counts; the pulse is seen at the pin when the output is enabled. The interrupt controller calls the
  handler when it has the interrupt enabled and an enabled flag is up.
\<close>

definition compare_match :: "motor_board \<Rightarrow> motor_board" where
  "compare_match b =
     (let t = tim3 b
      in if CR1 t AND TIM_CR1_CEN = 0 then b
         else b\<lparr>tim3 := t\<lparr>SR := SR t OR TIM_IT_CC4\<rparr>,
                pulses := pulses b + (if CCER t AND TIM_CCER_CC4E = 0 then 0 else 1),
                overruns := overruns b + (if SR t AND TIM_IT_CC4 = 0 then 0 else 1)\<rparr>)"

datatype board_event = LowSpeed | HighSpeed | StopTurning | Match | Interrupt | RampStep

fun board_step :: "u32 \<Rightarrow> board_event \<Rightarrow> motor_board \<Rightarrow> motor_board" where
  "board_step pclk1 LowSpeed b = on_timer pclk1 low_speed b"
| "board_step pclk1 HighSpeed b = on_timer pclk1 high_speed b"
| "board_step pclk1 StopTurning b = on_timer pclk1 stop_turning b"
| "board_step pclk1 RampStep b = on_timer pclk1 pwm_thread b"
| "board_step pclk1 Match b = compare_match b"
| "board_step pclk1 Interrupt b =
     (if irq_on (tim3 b) \<and> SR (tim3 b) AND DIER (tim3 b) \<noteq> 0 then TIM3_IRQHandler pclk1 b else b)"

definition board_run :: "u32 \<Rightarrow> board_event list \<Rightarrow> motor_board \<Rightarrow> motor_board" where
  "board_run pclk1 = fold (board_step pclk1)"

lemma board_run_simps [simp]:
  "board_run pclk1 [] b = b"
  "board_run pclk1 (ev # evs) b = board_run pclk1 evs (board_step pclk1 ev b)"
  "board_run pclk1 (evs @ evs') b = board_run pclk1 evs' (board_run pclk1 evs b)"
  by (simp_all add: board_run_def)

section \<open>The registers follow the commands\<close>

text \<open>One call keeps the timer in the state its history says, and raises or clears no compare flag.\<close>

definition follows :: "history \<Rightarrow> tim \<Rightarrow> bool" where
  "follows h t \<longleftrightarrow> timer_ready (pwm_on h) t"

lemma generate_event_flags:
  "CR1 t AND (TIM_CR1_URS OR TIM_CR1_UDIS) \<noteq> 0 \<Longrightarrow> SR (snd (snd (HAL_TIM_GenerateEvent (h, t)))) = SR t"
  by (simp add: HAL_TIM_GenerateEvent_def locked_call_def write_EGR_UG_def)

lemma urs_set: "timer_ready on t \<Longrightarrow> CR1 t AND (TIM_CR1_URS OR TIM_CR1_UDIS) \<noteq> 0"
  by (cases on) (simp_all add: timer_ready_def tim_control_bits)

lemma set_ready:
  assumes "timer_ready on t"
  shows "timer_ready on (snd (snd (drv_pwm_set pclk1 c (h, t))))"
    and "SR (snd (snd (drv_pwm_set pclk1 c (h, t)))) = SR t"
  using assms urs_set [OF assms]
  by (simp_all add: drv_pwm_set_def Let_def HAL_TIM_SET_AUTORELOAD_def generate_event_flags timer_ready_def)

lemma dev_channel: "hal_channel \<lparr>cfg_channel = PWM_DEV_CHANNEL, cfg_period = p, cfg_pulse = w\<rparr> = TIM_CHANNEL_4"
  by (simp add: hal_channel_def PWM_DEV_CHANNEL_def TIM_CHANNEL_4_def)

lemma play_pwm:
  "play pclk1 (PwmSet p w) s =
     snd (drv_pwm_set pclk1 \<lparr>cfg_channel = PWM_DEV_CHANNEL, cfg_period = p, cfg_pulse = w\<rparr> s)"
  "play pclk1 PwmEnable s = (fst s, HAL_TIM_PWM_Start_IT TIM_CHANNEL_4 (snd s))"
  "play pclk1 PwmDisable s = (fst s, HAL_TIM_PWM_Stop_IT TIM_CHANNEL_4 (snd s))"
proof -
  show "play pclk1 (PwmSet p w) s =
      snd (drv_pwm_set pclk1 \<lparr>cfg_channel = PWM_DEV_CHANNEL, cfg_period = p, cfg_pulse = w\<rparr> s)"
    by (cases "drv_pwm_set pclk1 \<lparr>cfg_channel = PWM_DEV_CHANNEL, cfg_period = p, cfg_pulse = w\<rparr> s")
      (simp add: after_call_def device_pwm_set_def pwm_control_def drv_pwm_control_def pwm_cmds)
qed (cases s, simp add: after_call_def device_pwm_enable_def device_pwm_disable_def pwm_control_def
      drv_pwm_control_def pwm_cmds drv_pwm_enable_def dev_channel Let_def)+

lemma play_follows:
  assumes "follows h (snd s)"
  shows "follows (ev # h) (snd (play pclk1 ev s)) \<and> SR (snd (play pclk1 ev s)) = SR (snd s)"
proof (cases ev)
  case (PwmSet p w)
  then show ?thesis using assms set_ready [of "pwm_on h" "snd s" pclk1 _ "fst s"]
    by (simp add: follows_def play_pwm del: play.simps)
next
  case PwmEnable
  then show ?thesis using assms start_ready by (simp add: follows_def play_pwm del: play.simps)
next
  case PwmDisable
  then show ?thesis using assms stop_ready by (simp add: follows_def play_pwm del: play.simps)
qed (use assms in \<open>simp_all add: follows_def\<close>)

lemma plays_follow:
  "follows h (snd s) \<Longrightarrow>
     follows (rev calls @ h) (snd (fold (play pclk1) calls s)) \<and> SR (snd (fold (play pclk1) calls s)) = SR (snd s)"
proof (induction calls arbitrary: h s)
  case (Cons ev calls)
  from play_follows [OF Cons.prems, of ev pclk1] Cons.IH [of "ev # h" "play pclk1 ev s"] show ?case by simp
qed simp

text \<open>An operation that only adds to the history keeps the timer in step with it.\<close>

definition extends :: "(motor \<times> history \<Rightarrow> motor \<times> history) \<Rightarrow> bool" where
  "extends f \<longleftrightarrow> (\<forall>a. \<exists>new. snd (f a) = new @ snd a)"

lemma extends_motor:
  "extends low_speed" "extends high_speed" "extends stop_turning" "extends pwm_thread"
  "extends HAL_TIM_PWM_PulseFinishedCallback"
  by (auto simp: extends_def low_speed_def high_speed_def stop_turning_def pwm_thread_def Let_def
      HAL_TIM_PWM_PulseFinishedCallback_def rt_pwm_set_def rt_pwm_enable_def rt_pwm_disable_def rt_pin_write_def
      split: option.split)

lemma on_timer_follows:
  assumes "follows (snd (app b)) (tim3 b)" and "extends f"
  shows "follows (snd (f (app b))) (tim3 (on_timer pclk1 f b)) \<and>
    SR (tim3 (on_timer pclk1 f b)) = SR (tim3 b) \<and> app (on_timer pclk1 f b) = f (app b) \<and>
    pulses (on_timer pclk1 f b) = pulses b \<and> overruns (on_timer pclk1 f b) = overruns b"
proof -
  from assms(2) obtain new where new: "snd (f (app b)) = new @ snd (app b)"
    unfolding extends_def by blast
  from plays_follow [of _ "(dev b, tim3 b)" "rev new" pclk1] assms(1)
  have "follows (new @ snd (app b)) (snd (fold (play pclk1) (rev new) (dev b, tim3 b))) \<and>
    SR (snd (fold (play pclk1) (rev new) (dev b, tim3 b))) = SR (tim3 b)" by simp
  then show ?thesis by (cases "fold (play pclk1) (rev new) (dev b, tim3 b)") (simp add: on_timer_def Let_def new)
qed

section \<open>The interrupt\<close>

definition flag_up :: "motor_board \<Rightarrow> bool" where
  "flag_up b \<longleftrightarrow> SR (tim3 b) AND TIM_IT_CC4 \<noteq> 0"

definition in_step :: "motor_board \<Rightarrow> bool" where
  "in_step b \<longleftrightarrow> follows (snd (app b)) (tim3 b)"

lemma bit_cc4: "bit TIM_IT_CC4 n \<longleftrightarrow> n = 4"
proof -
  have "TIM_IT_CC4 = push_bit 4 1" by (simp add: TIM_IT_CC4_def)
  then have "bit TIM_IT_CC4 n = bit (push_bit 4 (1 :: u32)) n" by (rule arg_cong)
  also have "\<dots> \<longleftrightarrow> n = 4" by (subst bit_push_bit_iff) (auto simp: bit_1_iff)
  finally show ?thesis .
qed

lemma cc4_bit: "w AND TIM_IT_CC4 = (if bit w 4 then TIM_IT_CC4 else 0)"
  by (rule bit_word_eqI) (cases "bit w 4"; simp only: bit_and_iff bit_cc4 if_True if_False bit_0_eq, auto)

lemma flag_up_bit: "flag_up b \<longleftrightarrow> bit (SR (tim3 b)) 4"
  by (simp add: flag_up_def cc4_bit) (simp add: TIM_IT_CC4_def)

lemma ready_frame:
  "timer_ready on (t\<lparr>SR := v\<rparr>) = timer_ready on t" "follows h (t\<lparr>SR := v\<rparr>) = follows h t"
  by (simp_all add: timer_ready_def follows_def)

text \<open>
  The handler runs the callback once, with the flag cleared, and changes nothing else the model sees.
\<close>

lemma handler_on_board:
  assumes "in_step b" and "pwm_on (snd (app b))" and "flag_up b"
  shows "app (TIM3_IRQHandler pclk1 b) = HAL_TIM_PWM_PulseFinishedCallback (app b) \<and>
    in_step (TIM3_IRQHandler pclk1 b) \<and> \<not> flag_up (TIM3_IRQHandler pclk1 b) \<and>
    pulses (TIM3_IRQHandler pclk1 b) = pulses b \<and> overruns (TIM3_IRQHandler pclk1 b) = overruns b"
proof -
  have on: "timer_ready True (tim3 b)" using assms(1,2) by (simp add: in_step_def follows_def)
  let ?t = "write_SR (NOT TIM_IT_CC4) (tim3 b)"
  let ?start = "b\<lparr>own := (own b)\<lparr>Channel := ACTIVE_CHANNEL_4\<rparr>, tim3 := ?t\<rparr>"
  let ?b = "on_timer pclk1 HAL_TIM_PWM_PulseFinishedCallback ?start"
  have start: "follows (snd (app ?start)) (tim3 ?start)" using assms(1) by (simp add: in_step_def write_SR_def ready_frame)
  have b: "follows (snd (app ?b)) (tim3 ?b)" "SR (tim3 ?b) = SR ?t"
    "app ?b = HAL_TIM_PWM_PulseFinishedCallback (app b)" "pulses ?b = pulses b" "overruns ?b = overruns b"
    using on_timer_follows [OF start extends_motor(5), of pclk1] by simp_all
  have clear: "\<not> bit (SR (tim3 ?b)) 4"
    using b by (simp add: write_SR_def bit_simps TIM_IT_CC4_def bit_and_iff bit_not_iff)
  have pending: "it_pending TIM_IT_CC4 (tim3 b)"
    using on assms(3) by (simp add: it_pending_def flag_up_bit cc4_bit [of "SR _"]) (simp add: timer_ready_def TIM_IT_CC4_def)
  have no_capture: "CCMR2 ?t AND TIM_CCMR2_CC4S = 0" using on by (simp add: write_SR_def timer_ready_def TIM_CCMR2_CC4S_def)
  have "compare_event TIM_IT_CC4 ACTIVE_CHANNEL_4 (\<lambda>t. CCMR2 t AND TIM_CCMR2_CC4S \<noteq> 0) (pulse_callback pclk1)
      (own b, tim3 b, b) = ((own ?b)\<lparr>Channel := ACTIVE_CHANNEL_CLEARED\<rparr>, tim3 ?b, ?b)"
    using pending no_capture by (simp add: compare_event_def Let_def weak_callback_def pulse_callback_def)
  moreover have "timer_ready (pwm_on (snd (app ?b))) (tim3 ?b)" using b by (simp add: follows_def)
  then have "other_event it (h, tim3 ?b, m) = (h, tim3 ?b, m)"
    if "it \<in> {TIM_IT_UPDATE, TIM_IT_BREAK, TIM_IT_TRIGGER, TIM_IT_COM}" for it h and m :: motor_board
    using that by (rule other_event_ready)
  ultimately have "TIM3_IRQHandler pclk1 b = ?b\<lparr>own := (own ?b)\<lparr>Channel := ACTIVE_CHANNEL_CLEARED\<rparr>, tim3 := tim3 ?b\<rparr>"
    by (simp add: TIM3_IRQHandler_def handler_of_ready [OF on] Let_def)
  with b clear show ?thesis by (simp add: in_step_def flag_up_bit)
qed

lemma interrupt_off:
  assumes "in_step b" and "\<not> pwm_on (snd (app b)) \<or> \<not> flag_up b"
  shows "board_step pclk1 Interrupt b = b"
proof -
  have "SR (tim3 b) AND DIER (tim3 b) = 0"
  proof (cases "pwm_on (snd (app b))")
    case True
    with assms show ?thesis by (simp add: in_step_def follows_def timer_ready_def flag_up_def TIM_IT_CC4_def)
  next
    case False
    with assms(1) show ?thesis by (simp add: in_step_def follows_def timer_ready_def)
  qed
  then show ?thesis by simp
qed

lemma interrupt_on:
  assumes "in_step b" and "pwm_on (snd (app b))" and "flag_up b"
  shows "board_step pclk1 Interrupt b = TIM3_IRQHandler pclk1 b"
  using assms by (simp add: in_step_def follows_def timer_ready_def flag_up_def TIM_IT_CC4_def)

lemma match_off:
  assumes "in_step b" and "\<not> pwm_on (snd (app b))"
  shows "compare_match b = b"
  using assms by (simp add: compare_match_def in_step_def follows_def timer_ready_def TIM_CR1_CEN_def Let_def)

lemma match_on:
  assumes "in_step b" and "pwm_on (snd (app b))"
  shows "in_step (compare_match b)" and "flag_up (compare_match b)" and "app (compare_match b) = app b"
    and "pulses (compare_match b) = pulses b + 1"
    and "overruns (compare_match b) = overruns b + (if flag_up b then 1 else 0)"
proof -
  have m: "compare_match b = b\<lparr>tim3 := (tim3 b)\<lparr>SR := SR (tim3 b) OR TIM_IT_CC4\<rparr>, pulses := pulses b + 1,
      overruns := overruns b + (if flag_up b then 1 else 0)\<rparr>"
    using assms by (simp add: compare_match_def in_step_def follows_def timer_ready_def Let_def flag_up_def
        TIM_CR1_CEN_def TIM_CCER_CC4E_def)
  show "in_step (compare_match b)" using assms(1) by (simp add: m in_step_def ready_frame)
  show "flag_up (compare_match b)" by (simp add: m flag_up_bit bit_simps TIM_IT_CC4_def bit_or_iff)
qed (use assms in \<open>simp_all add: compare_match_def in_step_def follows_def timer_ready_def Let_def flag_up_def
        TIM_CR1_CEN_def TIM_CCER_CC4E_def\<close>)

lemma step_in_step: "in_step b \<Longrightarrow> in_step (board_step pclk1 ev b)"
proof (cases ev)
  case Match
  then show "in_step b \<Longrightarrow> ?thesis"
    using match_on(1) [of b] match_off [of b] by (cases "pwm_on (snd (app b))") simp_all
next
  case Interrupt
  then show "in_step b \<Longrightarrow> ?thesis"
    using handler_on_board [of b pclk1] interrupt_on [of b pclk1] interrupt_off [of b pclk1]
    by (cases "pwm_on (snd (app b)) \<and> flag_up b") (auto simp del: board_step.simps)
qed (use on_timer_follows [OF _ extends_motor(1), of b pclk1] on_timer_follows [OF _ extends_motor(2), of b pclk1]
    on_timer_follows [OF _ extends_motor(3), of b pclk1] on_timer_follows [OF _ extends_motor(4), of b pclk1]
    in \<open>simp_all add: in_step_def\<close>)

lemma run_in_step: "in_step b \<Longrightarrow> in_step (board_run pclk1 evs b)"
  by (induction evs arbitrary: b) (auto simp: step_in_step simp del: board_step.simps)

text \<open>
  The board after start-up. \<^verbatim>\<open>pwm_sample\<close> sets the timer up a second time and then calls the interrupt
  handler itself.
\<close>

definition board_booted :: "u32 \<Rightarrow> motor_board option" where
  "board_booted pclk1 =
     map_option (\<lambda>((own, t), dev, _). TIM3_IRQHandler pclk1
       \<lparr>app = pwm_sample (motor_boot, []), own = own, dev = dev, tim3 = t, pulses = 0, overruns = 0\<rparr>) timer_booted"

lemma idle_handler:
  assumes "timer_ready False (tim3 b)"
  shows "TIM3_IRQHandler pclk1 b = b"
proof -
  have off: "\<not> it_pending TIM_IT_CC4 (tim3 b)" using assms by (simp add: it_pending_def timer_ready_def TIM_IT_CC4_def)
  have other: "other_event it (h, tim3 b, m) = (h, tim3 b, m)"
    if "it \<in> {TIM_IT_UPDATE, TIM_IT_BREAK, TIM_IT_TRIGGER, TIM_IT_COM}" for it h and m :: motor_board
    by (rule other_event_ready [OF assms that])
  show ?thesis
    by (simp add: TIM3_IRQHandler_def handler_of_ready [OF assms] compare_event_def off Let_def other)
qed

lemma booted_in_step:
  assumes "board_booted pclk1 = Some b"
  shows "in_step b" and "\<not> flag_up b" and "pulses b = 0" and "overruns b = 0"
proof -
  obtain own dev t where boot: "timer_booted = Some ((own, t), dev, t)" "timer_ready False t" "SR t AND TIM_IT_CC4 = 0"
    using boot_ready by blast
  let ?b = "\<lparr>app = pwm_sample (motor_boot, []), own = own, dev = dev, tim3 = t, pulses = 0, overruns = 0\<rparr>"
  have "b = TIM3_IRQHandler pclk1 ?b" using assms by (simp add: board_booted_def boot(1))
  also have "\<dots> = ?b" by (rule idle_handler) (simp add: boot(2))
  finally have b: "b = ?b" .
  have "\<not> pwm_on (snd (pwm_sample (motor_boot, [])))" by (simp add: pwm_sample_def Let_def rt_pin_mode_def)
  then show "in_step b" "\<not> flag_up b" "pulses b = 0" "overruns b = 0"
    using boot(2,3) by (simp_all add: b in_step_def follows_def flag_up_def)
qed

lemma board_boots: "\<exists>b. board_booted pclk1 = Some b"
  using boot_ready by (auto simp: board_booted_def)

section \<open>What a run moves\<close>

text \<open>
  During a run \<open>k\<close> pulses have been counted; every pulse at the output has been counted, waits as the
  raised flag, or was lost to a flag that was still up. When the count is complete the timer is off and
  no flag is up.
\<close>

definition flag_waiting :: "motor_board \<Rightarrow> nat" where
  "flag_waiting b = (if flag_up b then 1 else 0)"

definition counted :: "motor_board \<Rightarrow> nat" where
  "counted b = unat (stepper_number (fst (app b)))"

definition run_state :: "u32 \<Rightarrow> motor_board \<Rightarrow> motor_board \<Rightarrow> bool" where
  "run_state all b1 b \<longleftrightarrow>
     in_step b \<and> turning all (counted b) (app b) \<and> counted b \<le> unat all \<and> (counted b = unat all \<longrightarrow> \<not> flag_up b) \<and>
     pulses b + overruns b1 + flag_waiting b1 = pulses b1 + counted b + overruns b + flag_waiting b"

lemma turning_counted: "turning all n (app b) \<Longrightarrow> counted b = n"
  by (simp add: turning_def counted_def)

lemma turning_on: "turning all n (app b) \<Longrightarrow> pwm_on (snd (app b)) = (n < unat all)"
  by (simp add: turning_def)

lemma run_state_on: "run_state all b1 b \<Longrightarrow> pwm_on (snd (app b)) = (counted b < unat all)"
  by (auto simp: run_state_def dest: turning_on)

lemma run_state_in_step: "run_state all b1 b \<Longrightarrow> in_step b"
  by (simp add: run_state_def)

lemma run_state_ramp:
  assumes "run_state all b1 b"
  shows "run_state all b1 (board_step pclk1 RampStep b)"
proof -
  let ?b = "on_timer pclk1 pwm_thread b"
  have s: "app ?b = pwm_thread (app b)" "SR (tim3 ?b) = SR (tim3 b)" "pulses ?b = pulses b" "overruns ?b = overruns b"
    using on_timer_follows [OF _ extends_motor(4), of b pclk1] assms by (simp_all add: run_state_def in_step_def)
  have "turning all (counted b) (app ?b)"
    using turning_ramp [of all "counted b" "app b"] assms by (simp add: s run_state_def motor_step_def)
  moreover have "counted ?b = counted b" by (rule turning_counted) fact
  moreover have "in_step ?b" using step_in_step [of b pclk1 RampStep] assms by (simp add: run_state_def)
  ultimately show ?thesis using assms by (simp add: run_state_def s flag_waiting_def flag_up_def)
qed

lemma run_state_match:
  assumes "run_state all b1 b"
  shows "run_state all b1 (board_step pclk1 Match b)"
proof (cases "counted b < unat all")
  case True
  with assms have "in_step b" "pwm_on (snd (app b))" by (simp_all add: run_state_in_step run_state_on)
  note m = match_on [OF this]
  have "counted (compare_match b) = counted b" by (simp add: counted_def m)
  with assms m True show ?thesis by (simp add: run_state_def flag_waiting_def)
next
  case False
  with assms have "in_step b" "\<not> pwm_on (snd (app b))" by (simp_all add: run_state_in_step run_state_on)
  from match_off [OF this] assms show ?thesis by simp
qed

lemma run_state_interrupt:
  assumes "run_state all b1 b"
  shows "run_state all b1 (board_step pclk1 Interrupt b)"
proof (cases "counted b < unat all \<and> flag_up b")
  case True
  let ?b = "TIM3_IRQHandler pclk1 b"
  from True assms have on: "in_step b" "pwm_on (snd (app b))" "flag_up b" by (simp_all add: run_state_in_step run_state_on)
  note i = handler_on_board [OF on, of pclk1]
  have "counted b < 2 ^ 32 - 1" using True unat_u32_less [of all] by simp
  then have t: "turning all (Suc (counted b)) (app ?b)"
    using turning_pulse [of all "counted b" "app b"] i assms by (simp add: run_state_def motor_step_def)
  then have "counted ?b = Suc (counted b)" by (rule turning_counted)
  with t i assms True have "run_state all b1 ?b" by (simp add: run_state_def flag_waiting_def)
  then show ?thesis unfolding interrupt_on [OF on] .
next
  case False
  with assms have "in_step b" "\<not> pwm_on (snd (app b)) \<or> \<not> flag_up b"
    by (auto simp: run_state_in_step run_state_on)
  from interrupt_off [OF this] assms show ?thesis by simp
qed

lemma run_state_run:
  assumes "set evs \<subseteq> {Match, Interrupt, RampStep}" and "run_state all b1 b"
  shows "run_state all b1 (board_run pclk1 evs b)"
  using assms
proof (induction evs arbitrary: b)
  case (Cons ev evs)
  then have "run_state all b1 (board_step pclk1 ev b)"
    using run_state_ramp run_state_match run_state_interrupt by (auto simp del: board_step.simps)
  with Cons show ?case by simp
qed simp

lemma run_state_start:
  assumes "in_step b" and "b1 = board_step pclk1 LowSpeed b"
  shows "run_state MS1_SPEED_ALL b1 b1" and "flag_up b1 = flag_up b" and "counted b1 = 0"
proof -
  have s: "app b1 = low_speed (app b)" "in_step b1" "SR (tim3 b1) = SR (tim3 b)"
    using on_timer_follows [OF _ extends_motor(1), of b pclk1] assms by (simp_all add: in_step_def)
  have "turning MS1_SPEED_ALL 0 (app b1)" by (simp add: s turning_low)
  moreover from this show "counted b1 = 0" by (rule turning_counted)
  ultimately show "run_state MS1_SPEED_ALL b1 b1" by (simp add: run_state_def s speeds)
  show "flag_up b1 = flag_up b" by (simp add: flag_up_def s)
qed

lemma counting_on: "run_state all b1 b \<Longrightarrow> CR1 (tim3 b) AND TIM_CR1_CEN \<noteq> 0 \<longleftrightarrow> counted b < unat all"
  using run_state_on [of all b1 b] run_state_in_step [of all b1 b]
  by (simp add: in_step_def follows_def timer_ready_def TIM_CR1_CEN_def)

section \<open>Properties\<close>

text \<open>
  C34: Whatever the commands, the ramp, the timer and its interrupt do after start-up, in whatever order,
  the registers of timer 3 are those the newest command asks for: counter, output of channel 4 and its
  interrupt all on, or all off; nothing else of the timer is ever enabled.
\<close>

theorem registers_follow_commands:
  assumes "board_booted pclk1 = Some b0" and "b = board_run pclk1 evs b0"
  shows "timer_ready (pwm_on (snd (app b))) (tim3 b)"
  using run_in_step [OF booted_in_step(1) [OF assms(1)], of pclk1 evs] assms(2) by (simp add: in_step_def follows_def)

text \<open>
  C33: When a slow run has stopped the timer, the motor has been moved by 192000 pulses, plus one for every
  pulse of the run that came while the interrupt of an earlier one was still waiting, minus one if an
  old interrupt was already waiting when the run began (stopping the timer does not clear its flag). So
  the count never loses a stop, but a late interrupt makes the run longer and a stale one makes it shorter.
\<close>

theorem motor_moves_what_it_counts:
  assumes "board_booted pclk1 = Some b0" and "b1 = board_step pclk1 LowSpeed (board_run pclk1 before b0)"
    and "set evs \<subseteq> {Match, Interrupt, RampStep}" and "b = board_run pclk1 evs b1"
    and "CR1 (tim3 b) AND TIM_CR1_CEN = 0"
  shows "pulses b + overruns b1 + flag_waiting b1 = pulses b1 + 192000 + overruns b \<and>
    stepper_number (fst (app b)) = 192000 \<and> CCER (tim3 b) = 0 \<and> driven (snd (app b)) MOT_EN"
proof -
  have "in_step (board_run pclk1 before b0)" by (rule run_in_step) (rule booted_in_step(1) [OF assms(1)])
  from run_state_run [OF assms(3) run_state_start(1) [OF this assms(2)], of pclk1]
  have r: "run_state MS1_SPEED_ALL b1 b" by (simp add: assms(4))
  moreover have "\<not> counted b < unat MS1_SPEED_ALL" using counting_on [OF r] assms(5) by simp
  ultimately have c: "counted b = 192000" "\<not> flag_up b" by (auto simp: run_state_def speeds)
  then have "stepper_number (fst (app b)) = 192000" by (simp add: counted_def word_unat_eq_iff)
  moreover have "CCER (tim3 b) = 0"
    using run_state_on [OF r] run_state_in_step [OF r] by (simp add: c speeds in_step_def follows_def timer_ready_def)
  moreover have "driven (snd (app b)) MOT_EN" using r by (simp add: run_state_def turning_def c speeds)
  ultimately show ?thesis using r c by (simp add: run_state_def flag_waiting_def)
qed

text \<open>
  When every interrupt is served before the next pulse, a slow run moves the motor by exactly 192000
  pulses, however often the timer would have gone on; the ramp thread may run at any time.
\<close>

definition in_time :: "motor_event \<Rightarrow> board_event list" where
  "in_time ev = (case ev of PwmPulse \<Rightarrow> [Match, Interrupt] | RampRun \<Rightarrow> [RampStep])"

lemma run_state_in_time:
  assumes "run_state all b1 b" and "\<not> flag_up b"
  shows "run_state all b1 (board_run pclk1 (in_time ev) b) \<and> \<not> flag_up (board_run pclk1 (in_time ev) b) \<and>
    overruns (board_run pclk1 (in_time ev) b) = overruns b \<and>
    counted (board_run pclk1 (in_time ev) b) =
      (if ev = PwmPulse then min (unat all) (counted b + 1) else counted b)"
proof (cases ev)
  case RampRun
  have "in_step b" using assms(1) by (rule run_state_in_step)
  then have s: "app (on_timer pclk1 pwm_thread b) = pwm_thread (app b)"
    "SR (tim3 (on_timer pclk1 pwm_thread b)) = SR (tim3 b)" "overruns (on_timer pclk1 pwm_thread b) = overruns b"
    using on_timer_follows [OF _ extends_motor(4), of b pclk1] by (simp_all add: in_step_def)
  then have "turning all (counted b) (app (on_timer pclk1 pwm_thread b))"
    using turning_ramp [of all "counted b" "app b"] assms(1) by (simp add: run_state_def motor_step_def)
  from turning_counted [OF this] show ?thesis
    using run_state_ramp [OF assms(1), of pclk1] assms(2) s RampRun by (simp add: in_time_def flag_up_def)
next
  case PwmPulse
  show ?thesis
  proof (cases "counted b < unat all")
    case True
    then have on: "in_step b" "pwm_on (snd (app b))" using assms(1) by (simp_all add: run_state_in_step run_state_on)
    note m = match_on [OF on]
    have on': "pwm_on (snd (app (compare_match b)))" using m on by simp
    note i = handler_on_board [OF m(1) on' m(2), of pclk1]
    have "counted b < 2 ^ 32 - 1" using True unat_u32_less [of all] by simp
    then have "turning all (Suc (counted b)) (app (TIM3_IRQHandler pclk1 (compare_match b)))"
      using turning_pulse [of all "counted b" "app b"] i m(3) assms(1) by (simp add: run_state_def motor_step_def)
    from turning_counted [OF this] have "counted (TIM3_IRQHandler pclk1 (compare_match b)) = Suc (counted b)" .
    then show ?thesis
      using run_state_interrupt [OF run_state_match [OF assms(1), of pclk1], of pclk1] i m assms(2) PwmPulse True
        interrupt_on [OF m(1) on' m(2), of pclk1] by (simp add: in_time_def del: board_step.simps(6))
  next
    case False
    then have off: "in_step b" "\<not> pwm_on (snd (app b))" using assms(1) by (simp_all add: run_state_in_step run_state_on)
    have "board_run pclk1 (in_time ev) b = b"
      using match_off [OF off] interrupt_off [of b pclk1] off PwmPulse by (simp add: in_time_def del: board_step.simps(6))
    moreover have "counted b = unat all" using False assms(1) by (simp add: run_state_def)
    ultimately show ?thesis using assms PwmPulse by simp
  qed
qed

lemma run_state_in_time_all:
  assumes "run_state all b1 b" and "\<not> flag_up b"
  shows "run_state all b1 (board_run pclk1 (concat (map in_time evs)) b) \<and>
    \<not> flag_up (board_run pclk1 (concat (map in_time evs)) b) \<and>
    overruns (board_run pclk1 (concat (map in_time evs)) b) = overruns b \<and>
    counted (board_run pclk1 (concat (map in_time evs)) b) = min (unat all) (counted b + count_list evs PwmPulse)"
  using assms
proof (induction evs arbitrary: b)
  case Nil
  then show ?case by (simp add: run_state_def)
next
  case (Cons ev evs)
  note s = run_state_in_time [OF Cons.prems, of pclk1 ev]
  with Cons.IH [of "board_run pclk1 (in_time ev) b"] show ?case by auto
qed

theorem prompt_run_exact:
  assumes "board_booted pclk1 = Some b0" and "b1 = board_step pclk1 LowSpeed (board_run pclk1 before b0)"
    and "\<not> flag_up b1" and "b = board_run pclk1 (concat (map in_time evs)) b1"
  shows "pulses b = pulses b1 + min 192000 (count_list evs PwmPulse) \<and>
    (CR1 (tim3 b) AND TIM_CR1_CEN = 0) = (192000 \<le> count_list evs PwmPulse)"
proof -
  have "in_step (board_run pclk1 before b0)" by (rule run_in_step) (rule booted_in_step(1) [OF assms(1)])
  note start = run_state_start(1) [OF this assms(2)]
  have "counted b1 = 0" by (rule run_state_start(3)) fact+
  with run_state_in_time_all [OF start assms(3), of pclk1 evs]
  have r: "run_state MS1_SPEED_ALL b1 b" "\<not> flag_up b" "overruns b = overruns b1"
    "counted b = min 192000 (count_list evs PwmPulse)" by (simp_all add: assms(4) speeds)
  then have "pulses b = pulses b1 + min 192000 (count_list evs PwmPulse)"
    using assms(3) by (simp add: run_state_def flag_waiting_def)
  with counting_on [OF r(1)] show ?thesis by (auto simp: r(4) speeds)
qed

lemma count_of_replicate: "count_list (replicate n x) x = n"
  by (induction n) simp_all

lemma in_time_events: "set (concat (map in_time evs)) \<subseteq> {Match, Interrupt, RampStep}"
  by (auto simp: in_time_def split: motor_event.splits)

theorem registers_follow_commands_witness:
  "\<exists>b0. board_booted board_pclk1 = Some b0 \<and>
     timer_ready (pwm_on (snd (app (board_run board_pclk1 [LowSpeed, Match, RampStep, Interrupt, StopTurning] b0))))
       (tim3 (board_run board_pclk1 [LowSpeed, Match, RampStep, Interrupt, StopTurning] b0))"
proof -
  obtain b0 where b0: "board_booted board_pclk1 = Some b0" using board_boots by blast
  from registers_follow_commands [OF this refl] b0 show ?thesis by blast
qed

theorem motor_moves_what_it_counts_witness:
  "\<exists>b0 b1 b n. board_booted board_pclk1 = Some b0 \<and> b1 = board_step board_pclk1 LowSpeed b0 \<and> n = 192000 \<and>
     b = board_run board_pclk1 (concat (replicate n [Match, Interrupt])) b1 \<and>
     pulses b + overruns b1 + flag_waiting b1 = pulses b1 + 192000 + overruns b"
proof -
  obtain b0 where b0: "board_booted board_pclk1 = Some b0" using board_boots by blast
  define b1 where "b1 = board_step board_pclk1 LowSpeed (board_run board_pclk1 [] b0)"
  define n :: nat where "n = 192000"
  define evs where "evs = concat (map in_time (replicate n PwmPulse))"
  note start = run_state_start [OF booted_in_step(1) [OF b0], of b1 board_pclk1]
  have s: "run_state MS1_SPEED_ALL b1 b1" "\<not> flag_up b1" "counted b1 = 0"
    using start booted_in_step(2) [OF b0] by (simp_all add: b1_def)
  note run = run_state_in_time_all [OF s(1,2), of board_pclk1 "replicate n PwmPulse", folded evs_def, unfolded s(3) count_of_replicate]
  then have "\<not> counted (board_run board_pclk1 evs b1) < unat MS1_SPEED_ALL" by (simp add: n_def speeds)
  then have "CR1 (tim3 (board_run board_pclk1 evs b1)) AND TIM_CR1_CEN = 0"
    using counting_on [of MS1_SPEED_ALL b1 "board_run board_pclk1 evs b1"] run by blast
  from motor_moves_what_it_counts [OF b0 b1_def _ refl this] in_time_events [of "replicate n PwmPulse"]
  have "pulses (board_run board_pclk1 evs b1) + overruns b1 + flag_waiting b1 =
      pulses b1 + 192000 + overruns (board_run board_pclk1 evs b1)" by (simp only: evs_def)
  moreover have "evs = concat (replicate n [Match, Interrupt])" by (simp add: evs_def in_time_def)
  moreover have "b1 = board_step board_pclk1 LowSpeed b0" by (simp only: b1_def board_run_simps)
  ultimately show ?thesis using b0 n_def by blast
qed

theorem prompt_run_exact_witness:
  "\<exists>b0 b1. board_booted board_pclk1 = Some b0 \<and> b1 = board_step board_pclk1 LowSpeed b0 \<and>
     pulses (board_run board_pclk1 (concat (map in_time [PwmPulse, RampRun, PwmPulse])) b1) = 2"
proof -
  obtain b0 where b0: "board_booted board_pclk1 = Some b0" using board_boots by blast
  define b1 where "b1 = board_step board_pclk1 LowSpeed (board_run board_pclk1 [] b0)"
  note start = run_state_start(2) [OF booted_in_step(1) [OF b0], of b1 board_pclk1]
  have up: "\<not> flag_up b1" using start booted_in_step(2) [OF b0] by (simp add: b1_def)
  have "pulses b1 = 0"
    using on_timer_follows [OF _ extends_motor(1), of b0 board_pclk1] booted_in_step [OF b0] by (simp add: b1_def in_step_def)
  with prompt_run_exact [OF b0 b1_def up refl, of "[PwmPulse, RampRun, PwmPulse]"] b0 show ?thesis
    by (auto simp: b1_def)
qed

end
