(* ===== verification/Gpio_Driver.thy ===== *)
theory Gpio_Driver
  imports Board_IO
begin

text \<open>
  The driver below the pin calls (\<^verbatim>\<open>drivers/drv_gpio.c\<close>, with the parts of \<^verbatim>\<open>stm32f4xx_hal_gpio.c\<close> it
  relies on): pin numbers, levels, and the way of an edge at a pin through the sixteen lines of the
  interrupt controller to the function attached to the pin. Functions and their arguments are
  numbers; the calls of a step are its answer.
\<close>

section \<open>Ports, pins and lines\<close>

datatype port = GPIOA | GPIOB | GPIOC | GPIOD | GPIOE

datatype irq = EXTI0 | EXTI1 | EXTI2 | EXTI3 | EXTI4 | EXTI9_5 | EXTI15_10

datatype pad_mode = PadInput | PadOutput | PadOpenDrain | PadRising | PadFalling | PadBoth

datatype pull = NoPull | PullUp | PullDown

text \<open>The table of the STM32F411, which has the ports A to E.\<close>

definition pins :: "(port \<times> u32) list" where
  "pins = concat (map (\<lambda>g. map (\<lambda>i. (g, push_bit i 1)) [0..<16]) [GPIOA, GPIOB, GPIOC, GPIOD, GPIOE])"

text \<open>The number is cut to eight bits.\<close>

definition get_pin :: "int \<Rightarrow> (port \<times> u32) option" where
  "get_pin pin = (let p = nat (pin mod 256) in if p < length pins then Some (pins ! p) else None)"

definition bit2bitno :: "u32 \<Rightarrow> int" where
  "bit2bitno b = (case find (\<lambda>i. push_bit i 1 = b) [0..<32] of None \<Rightarrow> - 1 | Some i \<Rightarrow> int i)"

definition pin_irq_map :: "irq list" where
  "pin_irq_map = [EXTI0, EXTI1, EXTI2, EXTI3, EXTI4, EXTI9_5, EXTI9_5, EXTI9_5, EXTI9_5, EXTI9_5,
     EXTI15_10, EXTI15_10, EXTI15_10, EXTI15_10, EXTI15_10, EXTI15_10]"

section \<open>State\<close>

record irq_hdr =
  hdr_pin :: int
  hdr_mode :: nat
  hdr :: "nat option"
  hdr_args :: nat

text \<open>The statics of the driver, then the registers, by line or by port and line.\<close>

record gpio =
  pin_irq_hdr_tab :: "irq_hdr list"
  pin_irq_enable_mask :: u32
  nvic :: "irq \<Rightarrow> bool"
  pad :: "port \<Rightarrow> nat \<Rightarrow> pad_mode \<times> pull"
  odr :: "port \<Rightarrow> nat \<Rightarrow> bool"
  exticr :: "nat \<Rightarrow> port"
  imr :: "nat \<Rightarrow> bool"
  rtsr :: "nat \<Rightarrow> bool"
  ftsr :: "nat \<Rightarrow> bool"
  exti_pr :: "nat \<Rightarrow> bool"

definition no_hdr :: irq_hdr where
  "no_hdr = \<lparr>hdr_pin = - 1, hdr_mode = 0, hdr = None, hdr_args = 0\<rparr>"

definition gpio_boot :: gpio where
  "gpio_boot = \<lparr>pin_irq_hdr_tab = replicate 16 no_hdr, pin_irq_enable_mask = 0, nvic = (\<lambda>_. False),
     pad = (\<lambda>_ _. (PadInput, NoPull)), odr = (\<lambda>_ _. False), exticr = (\<lambda>_. GPIOA), imr = (\<lambda>_. False),
     rtsr = (\<lambda>_. False), ftsr = (\<lambda>_. False), exti_pr = (\<lambda>_. False)\<rparr>"

definition RT_ENOSYS :: int where "RT_ENOSYS = 6"
definition RT_EBUSY :: int where "RT_EBUSY = 7"

section \<open>The hardware library\<close>

definition edge_mode :: "pad_mode \<Rightarrow> bool" where
  "edge_mode m \<longleftrightarrow> m = PadRising \<or> m = PadFalling \<or> m = PadBoth"

definition init_line :: "port \<Rightarrow> pad_mode \<Rightarrow> pull \<Rightarrow> nat \<Rightarrow> gpio \<Rightarrow> gpio" where
  "init_line p m pl i g =
     (let g = g\<lparr>pad := (pad g)(p := (pad g p)(i := (m, pl)))\<rparr>
      in if edge_mode m
         then g\<lparr>exticr := (exticr g)(i := p), imr := (imr g)(i := True),
           rtsr := (rtsr g)(i := m \<noteq> PadFalling), ftsr := (ftsr g)(i := m \<noteq> PadRising)\<rparr>
         else g)"

definition HAL_GPIO_Init :: "port \<Rightarrow> u32 \<Rightarrow> pad_mode \<Rightarrow> pull \<Rightarrow> gpio \<Rightarrow> gpio" where
  "HAL_GPIO_Init p w m pl = fold (init_line p m pl) (filter (bit w) [0..<16])"

definition deinit_line :: "port \<Rightarrow> nat \<Rightarrow> gpio \<Rightarrow> gpio" where
  "deinit_line p i g =
     (let g = (if exticr g i = p
               then g\<lparr>exticr := (exticr g)(i := GPIOA), imr := (imr g)(i := False),
                 rtsr := (rtsr g)(i := False), ftsr := (ftsr g)(i := False)\<rparr>
               else g)
      in g\<lparr>pad := (pad g)(p := (pad g p)(i := (PadInput, NoPull)))\<rparr>)"

definition HAL_GPIO_DeInit :: "port \<Rightarrow> u32 \<Rightarrow> gpio \<Rightarrow> gpio" where
  "HAL_GPIO_DeInit p w = fold (deinit_line p) (filter (bit w) [0..<16])"

definition HAL_GPIO_WritePin :: "port \<Rightarrow> u32 \<Rightarrow> bool \<Rightarrow> gpio \<Rightarrow> gpio" where
  "HAL_GPIO_WritePin p w v g = g\<lparr>odr := (odr g)(p := (\<lambda>i. if bit w i then v else odr g p i))\<rparr>"

section \<open>Levels and modes\<close>

definition stm32_pin_write :: "int \<Rightarrow> bool \<Rightarrow> gpio \<Rightarrow> gpio" where
  "stm32_pin_write pin v g = (case get_pin pin of None \<Rightarrow> g | Some (p, w) \<Rightarrow> HAL_GPIO_WritePin p w v g)"

text \<open>The levels at the pins come from the board.\<close>

definition stm32_pin_read :: "(port \<Rightarrow> nat \<Rightarrow> bool) \<Rightarrow> int \<Rightarrow> bool" where
  "stm32_pin_read idr pin =
     (case get_pin pin of None \<Rightarrow> False | Some (p, w) \<Rightarrow> \<exists>i \<in> set [0..<16]. bit w i \<and> idr p i)"

definition stm32_pin_mode :: "int \<Rightarrow> nat \<Rightarrow> gpio \<Rightarrow> gpio" where
  "stm32_pin_mode pin mode g =
     (case get_pin pin of None \<Rightarrow> g
      | Some (p, w) \<Rightarrow>
          (case if mode = 0 then (PadOutput, NoPull) else if mode = 1 then (PadInput, NoPull)
                else if mode = 2 then (PadInput, PullUp) else if mode = 3 then (PadInput, PullDown)
                else if mode = 4 then (PadOpenDrain, NoPull) else (PadOutput, NoPull) of
             (m, pl) \<Rightarrow> HAL_GPIO_Init p w m pl g))"

section \<open>Attaching and enabling\<close>

definition stm32_pin_attach_irq :: "int \<Rightarrow> nat \<Rightarrow> nat option \<Rightarrow> nat \<Rightarrow> gpio \<Rightarrow> int \<times> gpio" where
  "stm32_pin_attach_irq pin mode h args g =
     (case get_pin pin of None \<Rightarrow> (RT_ENOSYS, g)
      | Some (p, w) \<Rightarrow>
          (let i = bit2bitno w
           in if i < 0 \<or> 16 \<le> i then (RT_ENOSYS, g)
              else
                let e = pin_irq_hdr_tab g ! nat i
                in if e = \<lparr>hdr_pin = pin, hdr_mode = mode, hdr = h, hdr_args = args\<rparr> then (0, g)
                   else if hdr_pin e \<noteq> - 1 then (RT_EBUSY, g)
                   else (0, g\<lparr>pin_irq_hdr_tab := (pin_irq_hdr_tab g)
                     [nat i := \<lparr>hdr_pin = signed_take_bit 15 pin, hdr_mode = mode mod 65536, hdr = h, hdr_args = args\<rparr>]\<rparr>)))"

definition stm32_pin_dettach_irq :: "int \<Rightarrow> gpio \<Rightarrow> int \<times> gpio" where
  "stm32_pin_dettach_irq pin g =
     (case get_pin pin of None \<Rightarrow> (RT_ENOSYS, g)
      | Some (p, w) \<Rightarrow>
          (let i = bit2bitno w
           in if i < 0 \<or> 16 \<le> i then (RT_ENOSYS, g)
              else if hdr_pin (pin_irq_hdr_tab g ! nat i) = - 1 then (0, g)
              else (0, g\<lparr>pin_irq_hdr_tab := (pin_irq_hdr_tab g)[nat i := no_hdr]\<rparr>)))"

text \<open>For a level mode the pin is set up from a variable that was never written.\<close>

definition irq_pad :: "nat \<Rightarrow> (pad_mode \<times> pull) result" where
  "irq_pad mode = (if mode = 0 then Inr (PadRising, PullDown) else if mode = 1 then Inr (PadFalling, PullUp)
     else if mode = 2 then Inr (PadBoth, NoPull) else Inl Uninitialised)"

definition irq_enable :: "int \<Rightarrow> gpio \<Rightarrow> (int \<times> gpio) result" where
  "irq_enable pin g =
     (case get_pin pin of None \<Rightarrow> Inr (RT_ENOSYS, g)
      | Some (p, w) \<Rightarrow>
          (let i = bit2bitno w
           in if i < 0 \<or> 16 \<le> i then Inr (RT_ENOSYS, g)
              else if hdr_pin (pin_irq_hdr_tab g ! nat i) = - 1 then Inr (RT_ENOSYS, g)
              else map_r (\<lambda>(m, pl).
                  let g = HAL_GPIO_Init p w m pl g
                  in (0, g\<lparr>nvic := (nvic g)(pin_irq_map ! nat i := True),
                    pin_irq_enable_mask := pin_irq_enable_mask g OR push_bit (nat i) 1\<rparr>))
                (irq_pad (hdr_mode (pin_irq_hdr_tab g ! nat i)))))"

definition irq_disable :: "int \<Rightarrow> gpio \<Rightarrow> int \<times> gpio" where
  "irq_disable pin g =
     (case get_pin pin of None \<Rightarrow> (RT_ENOSYS, g)
      | Some (p, w) \<Rightarrow>
          (let i = bit2bitno w
           in if i < 0 \<or> 16 \<le> i then (RT_ENOSYS, g)
              else
                let irq = pin_irq_map ! nat i; pinbit = push_bit (nat i) 1;
                    g = HAL_GPIO_DeInit p w g;
                    g = g\<lparr>pin_irq_enable_mask := pin_irq_enable_mask g AND NOT pinbit\<rparr>;
                    off = g\<lparr>nvic := (nvic g)(irq := False)\<rparr>
                in (0, if 0x20 \<le> pinbit \<and> pinbit \<le> 0x200
                       then if pin_irq_enable_mask g AND 0x3E0 = 0 then off else g
                       else if 0x400 \<le> pinbit \<and> pinbit \<le> 0x8000
                       then if pin_irq_enable_mask g AND 0xFC00 = 0 then off else g
                       else off)))"

text \<open>\<^verbatim>\<open>stm32_pin_irq_enable\<close> with the word it is asked with.\<close>

definition stm32_pin_irq_enable :: "int \<Rightarrow> u32 \<Rightarrow> gpio \<Rightarrow> (int \<times> gpio) result" where
  "stm32_pin_irq_enable pin enabled g =
     (if get_pin pin = None then Inr (RT_ENOSYS, g)
      else if enabled = 1 then irq_enable pin g else if enabled = 0 then Inr (irq_disable pin g)
      else Inr (- RT_ENOSYS, g))"

section \<open>Interrupts\<close>

definition pin_irq_hdr :: "nat \<Rightarrow> gpio \<Rightarrow> (nat \<times> nat) list" where
  "pin_irq_hdr i g = (let e = pin_irq_hdr_tab g ! i in case hdr e of None \<Rightarrow> [] | Some f \<Rightarrow> [(f, hdr_args e)])"

definition HAL_GPIO_EXTI_IRQHandler :: "nat \<Rightarrow> gpio \<Rightarrow> (nat \<times> nat) list \<times> gpio" where
  "HAL_GPIO_EXTI_IRQHandler i g =
     (if exti_pr g i then (pin_irq_hdr i g, g\<lparr>exti_pr := (exti_pr g)(i := False)\<rparr>) else ([], g))"

text \<open>The handlers \<^verbatim>\<open>EXTI0_IRQHandler\<close> to \<^verbatim>\<open>EXTI15_10_IRQHandler\<close> look at their lines in order.\<close>

fun irq_lines :: "irq \<Rightarrow> nat list" where
  "irq_lines EXTI0 = [0]"
| "irq_lines EXTI1 = [1]"
| "irq_lines EXTI2 = [2]"
| "irq_lines EXTI3 = [3]"
| "irq_lines EXTI4 = [4]"
| "irq_lines EXTI9_5 = [5, 6, 7, 8, 9]"
| "irq_lines EXTI15_10 = [10, 11, 12, 13, 14, 15]"

definition EXTI_IRQHandler :: "irq \<Rightarrow> gpio \<Rightarrow> (nat \<times> nat) list \<times> gpio" where
  "EXTI_IRQHandler q g =
     fold (\<lambda>i (calls, g). case HAL_GPIO_EXTI_IRQHandler i g of (new, g) \<Rightarrow> (calls @ new, g)) (irq_lines q) ([], g)"

text \<open>An edge at a pin is noticed by its line if the line looks at that port and for that edge.\<close>

definition edge :: "port \<Rightarrow> nat \<Rightarrow> bool \<Rightarrow> gpio \<Rightarrow> gpio" where
  "edge p i rising g =
     (if exticr g i = p \<and> (if rising then rtsr g i else ftsr g i)
      then g\<lparr>exti_pr := (exti_pr g)(i := True)\<rparr> else g)"

datatype pin_event =
    PinModeSet int nat | PinSet int bool | Attach int nat "nat option" nat | Detach int
  | IrqEnable int u32 | Edge port nat bool | Interrupt irq

definition pin_step :: "pin_event \<Rightarrow> gpio \<Rightarrow> ((nat \<times> nat) list \<times> gpio) result" where
  "pin_step ev g =
     (case ev of
        PinModeSet pin m \<Rightarrow> Inr ([], stm32_pin_mode pin m g)
      | PinSet pin v \<Rightarrow> Inr ([], stm32_pin_write pin v g)
      | Attach pin m h a \<Rightarrow> Inr ([], snd (stm32_pin_attach_irq pin m h a g))
      | Detach pin \<Rightarrow> Inr ([], snd (stm32_pin_dettach_irq pin g))
      | IrqEnable pin e \<Rightarrow> map_r (\<lambda>(_, g). ([], g)) (stm32_pin_irq_enable pin e g)
      | Edge p i r \<Rightarrow> Inr ([], edge p i r g)
      | Interrupt q \<Rightarrow>
          Inr (if nvic g q \<and> (\<exists>i \<in> set (irq_lines q). exti_pr g i \<and> imr g i) then EXTI_IRQHandler q g else ([], g)))"

primrec pin_run :: "pin_event list \<Rightarrow> gpio \<Rightarrow> ((nat \<times> nat) list \<times> gpio) result" where
  "pin_run [] g = Inr ([], g)"
| "pin_run (ev # evs) g =
     bind_r (pin_step ev g) (\<lambda>(calls, g). map_r (\<lambda>(new, g). (calls @ new, g)) (pin_run evs g))"

section \<open>Pin numbers and lines\<close>

lemma pins_table: "map snd pins = map (\<lambda>k. push_bit (k mod 16) 1) [0..<80]"
  by code_simp

lemma line_numbers: "list_all (\<lambda>i. bit2bitno (push_bit i 1) = int i) [0..<16]"
  by code_simp

lemma single_lines: "list_all (\<lambda>i. filter (bit (push_bit i 1 :: u32)) [0..<16] = [i]) [0..<16]"
  by code_simp

lemma line_groups:
  "list_all (\<lambda>i. i \<in> set (irq_lines (pin_irq_map ! i)) \<and>
     ((0x20 \<le> (push_bit i 1 :: u32) \<and> (push_bit i 1 :: u32) \<le> 0x200) = (pin_irq_map ! i = EXTI9_5)) \<and>
     ((0x400 \<le> (push_bit i 1 :: u32) \<and> (push_bit i 1 :: u32) \<le> 0x8000) = (pin_irq_map ! i = EXTI15_10)) \<and>
     list_all (\<lambda>j. pin_irq_map ! j = pin_irq_map ! i \<longrightarrow> j \<in> set (irq_lines (pin_irq_map ! i))) [0..<16] \<and>
     (pin_irq_map ! i \<noteq> EXTI9_5 \<longrightarrow> pin_irq_map ! i \<noteq> EXTI15_10 \<longrightarrow> irq_lines (pin_irq_map ! i) = [i])) [0..<16]"
  by code_simp

lemma get_pinD:
  assumes "get_pin pin = Some (p, w)"
  shows "\<exists>i < 16. bit2bitno w = int i \<and> w = push_bit i 1 \<and> filter (bit w) [0..<16] = [i]"
proof -
  let ?k = "nat (pin mod 256)"
  have "length pins = 80" using pins_table by (metis length_map length_upt minus_nat.diff_0)
  with assms have k: "?k < 80" "pins ! ?k = (p, w)" by (auto simp: get_pin_def Let_def split: if_splits)
  have "map snd pins ! ?k = push_bit (?k mod 16) 1" unfolding pins_table using k(1) by (simp del: push_bit_of_1)
  with k \<open>length pins = 80\<close> have "w = push_bit (?k mod 16) 1" by (simp del: push_bit_of_1)
  moreover from this have "bit2bitno w = int (?k mod 16)" using line_numbers by (simp add: list_all_iff)
  moreover have "filter (bit (push_bit (?k mod 16) 1 :: u32)) [0..<16] = [?k mod 16]"
    using single_lines by (simp add: list_all_iff)
  ultimately show ?thesis by (intro exI [of _ "?k mod 16"]) simp
qed

text \<open>The line of a pin.\<close>

definition pin_line :: "int \<Rightarrow> nat option" where
  "pin_line pin = map_option (\<lambda>(p, w). nat (bit2bitno w)) (get_pin pin)"

lemma pin_cases:
  obtains "get_pin pin = None" "pin_line pin = None"
  | p w i where "get_pin pin = Some (p, w)" "i < 16" "bit2bitno w = int i" "w = push_bit i 1"
      "filter (bit w) [0..<16] = [i]" "pin_line pin = Some i"
proof (cases "get_pin pin")
  case None
  then show ?thesis by (intro that(1)) (simp_all add: pin_line_def)
next
  case (Some pw)
  obtain p w where pw: "pw = (p, w)" by (cases pw)
  from get_pinD [of pin p w] Some pw obtain i where i: "i < 16" "bit2bitno w = int i" "w = push_bit i 1"
    "filter (bit w) [0..<16] = [i]" by blast
  with Some pw show ?thesis by (intro that(2) [of p w i]) (simp_all add: pin_line_def)
qed

text \<open>The masks of the two shared interrupts.\<close>

lemma mask_9_5: "m AND 0x3E0 = 0 \<longleftrightarrow> (\<forall>j. 5 \<le> j \<and> j \<le> 9 \<longrightarrow> \<not> bit m j)" for m :: u32
proof -
  have "(0x3E0 :: u32) = push_bit 5 (mask 5)" by (simp add: mask_eq_exp_minus_1 push_bit_eq_mult)
  then have "bit (0x3E0 :: u32) j \<longleftrightarrow> 5 \<le> j \<and> j \<le> 9" for j
    by (simp only: bit_push_bit_iff bit_mask_iff possible_bit_word) auto
  then show ?thesis by (auto simp: bit_eq_iff bit_and_iff)
qed

lemma mask_15_10: "m AND 0xFC00 = 0 \<longleftrightarrow> (\<forall>j. 10 \<le> j \<and> j \<le> 15 \<longrightarrow> \<not> bit m j)" for m :: u32
proof -
  have "(0xFC00 :: u32) = push_bit 10 (mask 6)" by (simp add: mask_eq_exp_minus_1 push_bit_eq_mult)
  then have "bit (0xFC00 :: u32) j \<longleftrightarrow> 10 \<le> j \<and> j \<le> 15" for j
    by (simp only: bit_push_bit_iff bit_mask_iff possible_bit_word) auto
  then show ?thesis by (auto simp: bit_eq_iff bit_and_iff)
qed

section \<open>What the driver keeps\<close>

text \<open>An enabled line has its interrupt on.\<close>

definition irq_ok :: "gpio \<Rightarrow> bool" where
  "irq_ok g \<longleftrightarrow> length (pin_irq_hdr_tab g) = 16 \<and>
     (\<forall>i < 16. bit (pin_irq_enable_mask g) i \<longrightarrow> nvic g (pin_irq_map ! i))"

text \<open>Line \<open>i\<close> is set up for port \<open>p\<close> and mode \<open>m\<close>, with function \<open>f\<close> and argument \<open>a\<close>.\<close>

definition armed :: "port \<Rightarrow> nat \<Rightarrow> nat \<Rightarrow> nat \<Rightarrow> nat \<Rightarrow> gpio \<Rightarrow> bool" where
  "armed p i m f a g \<longleftrightarrow> hdr (pin_irq_hdr_tab g ! i) = Some f \<and> hdr_args (pin_irq_hdr_tab g ! i) = a \<and>
     bit (pin_irq_enable_mask g) i \<and> exticr g i = p \<and> imr g i \<and> rtsr g i = (m \<noteq> 1) \<and> ftsr g i = (m \<noteq> 0)"

primrec touches :: "nat \<Rightarrow> pin_event \<Rightarrow> bool" where
  "touches i (PinModeSet pin m) = False"
| "touches i (PinSet pin v) = False"
| "touches i (Attach pin m h a) = (pin_line pin = Some i)"
| "touches i (Detach pin) = (pin_line pin = Some i)"
| "touches i (IrqEnable pin e) = (pin_line pin = Some i)"
| "touches i (Edge p j r) = False"
| "touches i (Interrupt q) = False"

lemma init_plain:
  assumes "\<not> edge_mode m"
  shows "pin_irq_hdr_tab (HAL_GPIO_Init p w m pl g) = pin_irq_hdr_tab g"
    "pin_irq_enable_mask (HAL_GPIO_Init p w m pl g) = pin_irq_enable_mask g"
    "nvic (HAL_GPIO_Init p w m pl g) = nvic g" "exticr (HAL_GPIO_Init p w m pl g) = exticr g"
    "imr (HAL_GPIO_Init p w m pl g) = imr g" "rtsr (HAL_GPIO_Init p w m pl g) = rtsr g"
    "ftsr (HAL_GPIO_Init p w m pl g) = ftsr g"
proof -
  have "pin_irq_hdr_tab (fold (init_line p m pl) is g) = pin_irq_hdr_tab g \<and>
      pin_irq_enable_mask (fold (init_line p m pl) is g) = pin_irq_enable_mask g \<and>
      nvic (fold (init_line p m pl) is g) = nvic g \<and> exticr (fold (init_line p m pl) is g) = exticr g \<and>
      imr (fold (init_line p m pl) is g) = imr g \<and> rtsr (fold (init_line p m pl) is g) = rtsr g \<and>
      ftsr (fold (init_line p m pl) is g) = ftsr g" for "is"
    by (induction "is" arbitrary: g) (simp_all add: init_line_def Let_def assms)
  then show "pin_irq_hdr_tab (HAL_GPIO_Init p w m pl g) = pin_irq_hdr_tab g"
    "pin_irq_enable_mask (HAL_GPIO_Init p w m pl g) = pin_irq_enable_mask g"
    "nvic (HAL_GPIO_Init p w m pl g) = nvic g" "exticr (HAL_GPIO_Init p w m pl g) = exticr g"
    "imr (HAL_GPIO_Init p w m pl g) = imr g" "rtsr (HAL_GPIO_Init p w m pl g) = rtsr g"
    "ftsr (HAL_GPIO_Init p w m pl g) = ftsr g" by (simp_all add: HAL_GPIO_Init_def)
qed

lemma mode_keeps: "irq_ok (stm32_pin_mode pin m g) = irq_ok g" "armed p i md f a (stm32_pin_mode pin m g) = armed p i md f a g"
  by (auto simp: stm32_pin_mode_def edge_mode_def init_plain irq_ok_def armed_def split: option.splits prod.splits)

lemma write_keeps: "irq_ok (stm32_pin_write pin v g) = irq_ok g" "armed p i md f a (stm32_pin_write pin v g) = armed p i md f a g"
  by (auto simp: stm32_pin_write_def HAL_GPIO_WritePin_def irq_ok_def armed_def split: option.splits)

lemma attach_keeps:
  assumes "irq_ok g"
  shows "irq_ok (snd (stm32_pin_attach_irq pin m h a g))"
    and "pin_line pin \<noteq> Some i \<Longrightarrow> armed p i md f b g \<Longrightarrow> armed p i md f b (snd (stm32_pin_attach_irq pin m h a g))"
  using assms by (cases pin rule: pin_cases; simp add: stm32_pin_attach_irq_def Let_def irq_ok_def armed_def)+

lemma detach_keeps:
  assumes "irq_ok g"
  shows "irq_ok (snd (stm32_pin_dettach_irq pin g))"
    and "pin_line pin \<noteq> Some i \<Longrightarrow> armed p i md f b g \<Longrightarrow> armed p i md f b (snd (stm32_pin_dettach_irq pin g))"
  using assms by (cases pin rule: pin_cases; simp add: stm32_pin_dettach_irq_def Let_def irq_ok_def armed_def)+

lemma bit_line: "i < 16 \<Longrightarrow> bit (2 ^ i :: u32) j \<longleftrightarrow> j = i"
  by (auto simp: bit_exp_iff possible_bit_def)

lemma enable_at:
  assumes "get_pin pin = Some (p, w)" "i < 16" "bit2bitno w = int i" "filter (bit w) [0..<16] = [i]"
    and "irq_enable pin g = Inr (r, g')"
  shows "g' = g \<or> (\<exists>m pl. irq_pad (hdr_mode (pin_irq_hdr_tab g ! i)) = Inr (m, pl) \<and> r = 0 \<and>
      hdr_pin (pin_irq_hdr_tab g ! i) \<noteq> - 1 \<and>
      g' = (init_line p m pl i g)\<lparr>nvic := (nvic g)(pin_irq_map ! i := True),
        pin_irq_enable_mask := pin_irq_enable_mask g OR push_bit i 1\<rparr>)"
  using assms
  by (auto simp: irq_enable_def Let_def map_r_eq_Inr HAL_GPIO_Init_def init_line_def split: if_splits)

lemma enable_keeps:
  assumes "irq_enable pin g = Inr (r, g')" and "irq_ok g"
  shows "irq_ok g'" and "pin_line pin \<noteq> Some i \<Longrightarrow> armed p i md f b g \<Longrightarrow> armed p i md f b g'"
proof -
  have "irq_ok g' \<and> (pin_line pin \<noteq> Some i \<longrightarrow> armed p i md f b g \<longrightarrow> armed p i md f b g')"
  proof (cases pin rule: pin_cases)
    case 1
    with assms show ?thesis by (auto simp: irq_enable_def)
  next
    case (2 q w j)
    from enable_at [OF 2(1-3,5) assms(1)] consider "g' = g"
      | m pl where "g' = (init_line q m pl j g)\<lparr>nvic := (nvic g)(pin_irq_map ! j := True),
        pin_irq_enable_mask := pin_irq_enable_mask g OR push_bit j 1\<rparr>" by blast
    then show ?thesis
    proof cases
      case (2 m pl)
      have "irq_ok g'"
        using assms(2) by (auto simp: irq_ok_def 2 init_line_def Let_def bit_or_iff bit_line \<open>j < 16\<close>)
      moreover have "armed p i md f b g'" if "pin_line pin \<noteq> Some i" "armed p i md f b g"
        using that \<open>pin_line pin = Some j\<close> by (auto simp: armed_def 2 init_line_def Let_def bit_or_iff)
      ultimately show ?thesis by blast
    qed (use assms(2) in simp)
  qed
  then show "irq_ok g'" "pin_line pin \<noteq> Some i \<Longrightarrow> armed p i md f b g \<Longrightarrow> armed p i md f b g'" by blast+
qed

lemma shared_line:
  assumes "i < 16" and "k < 16" and "pin_irq_map ! k = pin_irq_map ! i"
  shows "k \<in> set (irq_lines (pin_irq_map ! i))"
  using line_groups assms by (simp add: list_all_iff)

lemma own_line: "i < 16 \<Longrightarrow> i \<in> set (irq_lines (pin_irq_map ! i))"
  using shared_line [of i i] by simp

lemma disable_at:
  assumes "get_pin pin = Some (p, w)" "i < 16" "bit2bitno w = int i" "filter (bit w) [0..<16] = [i]"
  shows "\<exists>off. irq_disable pin g = (0, (deinit_line p i g)
      \<lparr>pin_irq_enable_mask := pin_irq_enable_mask g AND NOT (2 ^ i),
       nvic := if off then (nvic g)(pin_irq_map ! i := False) else nvic g\<rparr>) \<and>
    (off \<longrightarrow> (\<forall>k < 16. pin_irq_map ! k = pin_irq_map ! i \<longrightarrow> \<not> bit (pin_irq_enable_mask g AND NOT (2 ^ i)) k))"
proof -
  let ?m = "pin_irq_enable_mask g AND NOT (2 ^ i) :: u32"
  define off where "off = (if pin_irq_map ! i = EXTI9_5 then ?m AND 0x3E0 = 0
    else if pin_irq_map ! i = EXTI15_10 then ?m AND 0xFC00 = 0 else True)"
  have groups: "(0x20 \<le> (2 ^ i :: u32) \<and> (2 ^ i :: u32) \<le> 0x200) = (pin_irq_map ! i = EXTI9_5)"
    "(0x400 \<le> (2 ^ i :: u32) \<and> (2 ^ i :: u32) \<le> 0x8000) = (pin_irq_map ! i = EXTI15_10)"
    "pin_irq_map ! i \<noteq> EXTI9_5 \<Longrightarrow> pin_irq_map ! i \<noteq> EXTI15_10 \<Longrightarrow> irq_lines (pin_irq_map ! i) = [i]"
    using line_groups assms(2) by (simp_all add: list_all_iff)
  have same: "pin_irq_enable_mask (deinit_line p i g) = pin_irq_enable_mask g" "nvic (deinit_line p i g) = nvic g"
    by (simp_all add: deinit_line_def Let_def)
  have "\<not> bit ?m k" if "off" "k < 16" "pin_irq_map ! k = pin_irq_map ! i" for k
  proof (cases "pin_irq_map ! i" rule: irq.exhaust)
    case EXTI9_5
    with shared_line [OF assms(2) that(2,3)] have "5 \<le> k \<and> k \<le> 9" by auto
    with that(1) EXTI9_5 show ?thesis by (simp only: off_def mask_9_5 if_True simp_thms)
  next
    case EXTI15_10
    with shared_line [OF assms(2) that(2,3)] have "10 \<le> k \<and> k \<le> 15" by auto
    with that(1) EXTI15_10 show ?thesis by (simp add: off_def mask_15_10 del: bit_and_iff)
  qed (use shared_line [OF assms(2) that(2,3)] groups(3) assms(2) in \<open>simp_all add: bit_and_iff bit_not_iff bit_line\<close>)
  moreover have "irq_disable pin g = (0, (deinit_line p i g)\<lparr>pin_irq_enable_mask := ?m,
      nvic := if off then (nvic g)(pin_irq_map ! i := False) else nvic g\<rparr>)"
    using assms groups(1,2) same by (simp add: irq_disable_def Let_def HAL_GPIO_DeInit_def off_def)
  ultimately show ?thesis by blast
qed

lemma disable_keeps:
  assumes "irq_ok g"
  shows "irq_ok (snd (irq_disable pin g))"
    and "pin_line pin \<noteq> Some i \<Longrightarrow> i < 16 \<Longrightarrow> armed p i md f b g \<Longrightarrow> armed p i md f b (snd (irq_disable pin g))"
proof -
  have "irq_ok (snd (irq_disable pin g)) \<and>
      (pin_line pin \<noteq> Some i \<longrightarrow> i < 16 \<longrightarrow> armed p i md f b g \<longrightarrow> armed p i md f b (snd (irq_disable pin g)))"
  proof (cases pin rule: pin_cases)
    case 1
    with assms show ?thesis by (simp add: irq_disable_def)
  next
    case (2 q w j)
    from disable_at [OF 2(1-3,5), of g] obtain off where off: "irq_disable pin g = (0, (deinit_line q j g)
        \<lparr>pin_irq_enable_mask := pin_irq_enable_mask g AND NOT (2 ^ j),
         nvic := if off then (nvic g)(pin_irq_map ! j := False) else nvic g\<rparr>)"
      "off \<Longrightarrow> k < 16 \<Longrightarrow> pin_irq_map ! k = pin_irq_map ! j \<Longrightarrow> \<not> bit (pin_irq_enable_mask g AND NOT (2 ^ j)) k" for k
      by blast
    have tab: "pin_irq_hdr_tab (deinit_line q j g) = pin_irq_hdr_tab g" by (simp add: deinit_line_def Let_def)
    have "irq_ok (snd (irq_disable pin g))"
      using assms off(2) by (auto simp: off(1) irq_ok_def tab bit_and_iff)
    moreover have "armed p i md f b (snd (irq_disable pin g))" if "pin_line pin \<noteq> Some i" "i < 16" "armed p i md f b g"
      using that 2(2,6) by (auto simp: off(1) armed_def tab deinit_line_def Let_def bit_and_iff bit_not_iff bit_line)
    ultimately show ?thesis by blast
  qed
  then show "irq_ok (snd (irq_disable pin g))"
    "pin_line pin \<noteq> Some i \<Longrightarrow> i < 16 \<Longrightarrow> armed p i md f b g \<Longrightarrow> armed p i md f b (snd (irq_disable pin g))" by blast+
qed

text \<open>The interrupt handlers call what is attached to the lines that wait, in order, and clear them.\<close>

lemma exti_handler:
  "\<exists>g'. EXTI_IRQHandler q g = (concat (map (\<lambda>i. if exti_pr g i then pin_irq_hdr i g else []) (irq_lines q)), g') \<and>
     g' = g\<lparr>exti_pr := (\<lambda>i. exti_pr g i \<and> i \<notin> set (irq_lines q))\<rparr>"
proof -
  have "fold (\<lambda>i (calls, g). case HAL_GPIO_EXTI_IRQHandler i g of (new, g) \<Rightarrow> (calls @ new, g)) is (calls, g) =
      (calls @ concat (map (\<lambda>i. if exti_pr g i then pin_irq_hdr i g else []) is),
       g\<lparr>exti_pr := (\<lambda>i. exti_pr g i \<and> i \<notin> set is)\<rparr>)" if "distinct is" for "is" calls g
    using that
  proof (induction "is" arbitrary: calls g)
    case (Cons i "is")
    show ?case
    proof (cases "exti_pr g i")
      case True
      let ?g = "g\<lparr>exti_pr := (exti_pr g)(i := False)\<rparr>"
      have maps: "map (\<lambda>j. if exti_pr ?g j then pin_irq_hdr j ?g else []) is =
          map (\<lambda>j. if exti_pr g j then pin_irq_hdr j g else []) is"
        using Cons.prems by (intro map_cong refl) (auto simp: pin_irq_hdr_def)
      have last: "?g\<lparr>exti_pr := (\<lambda>j. exti_pr ?g j \<and> j \<notin> set is)\<rparr> =
          g\<lparr>exti_pr := (\<lambda>j. exti_pr g j \<and> j \<notin> set (i # is))\<rparr>"
        by (auto simp: fun_eq_iff intro!: arg_cong [where f = "\<lambda>x. g\<lparr>exti_pr := x\<rparr>"])
      have "distinct is" using Cons.prems by simp
      note rest = Cons.IH [OF this, of "calls @ pin_irq_hdr i g" ?g, unfolded maps last]
      have "HAL_GPIO_EXTI_IRQHandler i g = (pin_irq_hdr i g, ?g)"
        using True by (simp add: HAL_GPIO_EXTI_IRQHandler_def)
      with rest True show ?thesis by (simp only: fold_simps prod.case list.map concat.simps append_assoc if_True)
    next
      case False
      then have "HAL_GPIO_EXTI_IRQHandler i g = ([], g)" by (simp add: HAL_GPIO_EXTI_IRQHandler_def)
      moreover have "(\<lambda>j. exti_pr g j \<and> j \<notin> set (i # is)) = (\<lambda>j. exti_pr g j \<and> j \<notin> set is)"
        using False by auto
      ultimately show ?thesis using Cons False by simp
    qed
  qed simp
  moreover have "distinct (irq_lines q)" by (cases q) simp_all
  ultimately show ?thesis by (simp add: EXTI_IRQHandler_def)
qed

lemma edge_simps [simp]:
  "pin_irq_hdr_tab (edge p i r g) = pin_irq_hdr_tab g" "pin_irq_enable_mask (edge p i r g) = pin_irq_enable_mask g"
  "nvic (edge p i r g) = nvic g" "exticr (edge p i r g) = exticr g" "imr (edge p i r g) = imr g"
  "rtsr (edge p i r g) = rtsr g" "ftsr (edge p i r g) = ftsr g"
  by (simp_all add: edge_def)

lemma step_keeps:
  assumes "pin_step ev g = Inr (c, g')" and "irq_ok g"
  shows "irq_ok g'" and "\<not> touches i ev \<Longrightarrow> i < 16 \<Longrightarrow> armed p i md f b g \<Longrightarrow> armed p i md f b g'"
proof -
  have "irq_ok g' \<and> (\<not> touches i ev \<longrightarrow> i < 16 \<longrightarrow> armed p i md f b g \<longrightarrow> armed p i md f b g')"
  proof (cases ev)
    case (PinModeSet pin m)
    with assms show ?thesis by (auto simp: pin_step_def mode_keeps)
  next
    case (PinSet pin v)
    with assms show ?thesis by (auto simp: pin_step_def write_keeps)
  next
    case (Attach pin m h a)
    with assms show ?thesis by (auto simp: pin_step_def attach_keeps)
  next
    case (Detach pin)
    with assms show ?thesis by (auto simp: pin_step_def detach_keeps)
  next
    case (IrqEnable pin e)
    with assms disable_keeps [OF assms(2), of pin] show ?thesis
      by (auto simp: pin_step_def map_r_eq_Inr stm32_pin_irq_enable_def split: if_splits dest: enable_keeps)
  next
    case (Edge q j r)
    with assms show ?thesis by (auto simp: pin_step_def irq_ok_def armed_def)
  next
    case (Interrupt q)
    obtain cs where "EXTI_IRQHandler q g = (cs, g\<lparr>exti_pr := (\<lambda>i. exti_pr g i \<and> i \<notin> set (irq_lines q))\<rparr>)"
      using exti_handler [of q g] by blast
    with Interrupt assms show ?thesis by (auto simp: pin_step_def irq_ok_def armed_def split: if_splits)
  qed
  then show "irq_ok g'" "\<not> touches i ev \<Longrightarrow> i < 16 \<Longrightarrow> armed p i md f b g \<Longrightarrow> armed p i md f b g'" by blast+
qed

lemma run_keeps:
  "pin_run evs g = Inr (c, g') \<Longrightarrow> irq_ok g \<Longrightarrow> irq_ok g'"
  by (induction evs arbitrary: g c) (auto simp: bind_r_eq_Inr map_r_eq_Inr dest: step_keeps(1))

lemma run_keeps_armed:
  "pin_run evs g = Inr (c, g') \<Longrightarrow> irq_ok g \<Longrightarrow> \<forall>ev \<in> set evs. \<not> touches i ev \<Longrightarrow> i < 16 \<Longrightarrow> armed p i md f a g \<Longrightarrow>
     irq_ok g' \<and> armed p i md f a g'"
proof (induction evs arbitrary: g c)
  case (Cons ev evs)
  from Cons.prems(1) obtain c1 g1 c2 where g1: "pin_step ev g = Inr (c1, g1)" "pin_run evs g1 = Inr (c2, g')"
    by (auto simp: bind_r_eq_Inr map_r_eq_Inr)
  with Cons.prems show ?case
    using Cons.IH [OF g1(2)] step_keeps [OF g1(1) Cons.prems(2)] by simp
qed simp

lemma boot_irq_ok: "irq_ok gpio_boot"
  by (simp add: irq_ok_def gpio_boot_def)

lemma attached_armed:
  assumes "irq_ok g" and "get_pin pin = Some (p, w)" and "pin_line pin = Some i"
    and "hdr_pin (pin_irq_hdr_tab g ! i) = - 1" and "m < 3" and "0 \<le> pin" "pin < 256"
    and "pin_run [Attach pin m (Some f) a, IrqEnable pin 1] g = Inr (c, g')"
  shows "irq_ok g' \<and> armed p i m f a g'"
proof -
  from get_pinD [OF assms(2)] assms(2,3) have i: "i < 16" "bit2bitno w = int i" "filter (bit w) [0..<16] = [i]"
    by (auto simp: pin_line_def)
  let ?e = "\<lparr>hdr_pin = pin, hdr_mode = m, hdr = Some f, hdr_args = a\<rparr>"
  let ?g = "g\<lparr>pin_irq_hdr_tab := (pin_irq_hdr_tab g)[i := ?e]\<rparr>"
  have "signed_take_bit 15 pin = pin" using assms(6,7) by (intro signed_take_bit_int_eq_self) simp_all
  then have att: "snd (stm32_pin_attach_irq pin m (Some f) a g) = ?g"
    using assms(2,4-7) i by (auto simp: stm32_pin_attach_irq_def Let_def)
  have at: "pin_irq_hdr_tab ?g ! i = ?e" using assms(1) i(1) by (simp add: irq_ok_def)
  have ok: "irq_ok ?g" using assms(1) by (simp add: irq_ok_def)
  from assms(5) obtain pm pl where pad: "irq_pad m = Inr (pm, pl)" "edge_mode pm"
    "(pm \<noteq> PadFalling) = (m \<noteq> 1)" "(pm \<noteq> PadRising) = (m \<noteq> 0)"
    by (auto simp: irq_pad_def edge_mode_def less_Suc_eq numeral_3_eq_3)
  have en: "irq_enable pin ?g = Inr (0, (init_line p pm pl i ?g)\<lparr>nvic := (nvic ?g)(pin_irq_map ! i := True),
      pin_irq_enable_mask := pin_irq_enable_mask ?g OR 2 ^ i\<rparr>)"
    using assms(1,2,6) i pad at
    by (simp add: irq_enable_def Let_def HAL_GPIO_Init_def init_line_def)
  with att assms(2,8) have g': "g' = (init_line p pm pl i ?g)\<lparr>nvic := (nvic ?g)(pin_irq_map ! i := True),
      pin_irq_enable_mask := pin_irq_enable_mask ?g OR 2 ^ i\<rparr>"
    by (simp add: pin_step_def stm32_pin_irq_enable_def)
  have "armed p i m f a g'"
    using at pad i(1) by (simp add: g' armed_def init_line_def Let_def bit_or_iff bit_line)
  moreover have "irq_ok g'" using enable_keeps(1) [OF en ok] by (simp only: g')
  ultimately show ?thesis by blast
qed

section \<open>An edge calls the function attached to the pin\<close>

lemma concat_guard: "concat (map (\<lambda>j. if P j then [x] else []) xs) = map (\<lambda>_. x) (filter P xs)"
  by (induction xs) auto

lemma edge_calls:
  assumes "irq_ok g" and "armed p i m f a g" and "i < 16" and "m = (if rising then 0 else 1) \<or> m = 2"
  shows "\<exists>calls g3. pin_run [Edge p i rising, Interrupt (pin_irq_map ! i)] g = Inr (calls, g3) \<and>
    (f, a) \<in> set calls \<and> \<not> exti_pr g3 i \<and>
    ((\<forall>j \<in> set (irq_lines (pin_irq_map ! i)). exti_pr g j \<longrightarrow> j = i) \<longrightarrow> calls = [(f, a)])"
proof -
  let ?g = "g\<lparr>exti_pr := (exti_pr g)(i := True)\<rparr>" and ?q = "pin_irq_map ! i"
  have "exticr g i = p" "rtsr g i = (m \<noteq> 1)" "ftsr g i = (m \<noteq> 0)" using assms(2) by (simp_all add: armed_def)
  then have cond: "exticr g i = p \<and> (if rising then rtsr g i else ftsr g i)"
    using assms(4) by (cases rising) auto
  have edge: "edge p i rising g = ?g" unfolding edge_def by (rule if_P [OF cond])
  have on: "nvic ?g ?q \<and> (\<exists>j \<in> set (irq_lines ?q). exti_pr ?g j \<and> imr ?g j)"
    using assms(1-3) own_line [OF assms(3)] by (auto simp: irq_ok_def armed_def)
  let ?calls = "concat (map (\<lambda>j. if exti_pr ?g j then pin_irq_hdr j ?g else []) (irq_lines ?q))"
  obtain g3 where g3: "EXTI_IRQHandler ?q ?g = (?calls, g3)"
    "g3 = ?g\<lparr>exti_pr := (\<lambda>j. exti_pr ?g j \<and> j \<notin> set (irq_lines ?q))\<rparr>" using exti_handler [of ?q ?g] by blast
  have run: "pin_run [Edge p i rising, Interrupt ?q] g = Inr (?calls, g3)"
    using on g3(1) by (simp add: pin_step_def edge)
  have own: "pin_irq_hdr i ?g = [(f, a)]" using assms(2) by (simp add: pin_irq_hdr_def armed_def)
  then have "(f, a) \<in> set ?calls" using own_line [OF assms(3)] by force
  moreover have "\<not> exti_pr g3 i" using own_line [OF assms(3)] by (simp add: g3(2))
  moreover have "?calls = [(f, a)]" if "\<forall>j \<in> set (irq_lines ?q). exti_pr g j \<longrightarrow> j = i"
  proof -
    have "?calls = concat (map (\<lambda>j. if j = i then [(f, a)] else []) (irq_lines ?q))"
      using that own by (intro arg_cong [where f = concat] map_cong refl) auto
    also have "\<dots> = map (\<lambda>j. (f, a)) (filter (\<lambda>j. j = i) (irq_lines ?q))"
      by (rule concat_guard)
    also have "filter (\<lambda>j. j = i) (irq_lines ?q) = [i]"
      using own_line [OF assms(3)] by (cases ?q) auto
    finally show ?thesis by simp
  qed
  ultimately show ?thesis using run by blast
qed

text \<open>
  C22: After a function has been attached to a pin and its interrupt enabled, an edge of the chosen kind at
  the pin calls it with its argument, whatever has been done with pins of other lines, with modes and
  levels, edges and interrupts in between; the line waits no longer. No other function is called unless
  another line of the same interrupt waits.
\<close>

theorem attached_function_called:
  assumes "pin_run before gpio_boot = Inr (c0, g0)" and "get_pin pin = Some (p, w)" and "pin_line pin = Some i"
    and "0 \<le> pin" "pin < 256" and "hdr_pin (pin_irq_hdr_tab g0 ! i) = - 1" and "m < 3"
    and "pin_run [Attach pin m (Some f) a, IrqEnable pin 1] g0 = Inr (c1, g1)"
    and "pin_run others g1 = Inr (c2, g2)" and "\<forall>ev \<in> set others. \<not> touches i ev"
    and "m = (if rising then 0 else 1) \<or> m = 2"
  shows "\<exists>calls g3. pin_run [Edge p i rising, Interrupt (pin_irq_map ! i)] g2 = Inr (calls, g3) \<and>
    (f, a) \<in> set calls \<and> \<not> exti_pr g3 i \<and>
    ((\<forall>j \<in> set (irq_lines (pin_irq_map ! i)). exti_pr g2 j \<longrightarrow> j = i) \<longrightarrow> calls = [(f, a)])"
proof -
  have i: "i < 16" using get_pinD [OF assms(2)] assms(2,3) by (auto simp: pin_line_def)
  have "irq_ok g0" using run_keeps [OF assms(1) boot_irq_ok] .
  from attached_armed [OF this assms(2,3,6,7,4,5,8)] have "irq_ok g1" "armed p i m f a g1" by simp_all
  from run_keeps_armed [OF assms(9) this(1) assms(10) i this(2)] have "irq_ok g2" "armed p i m f a g2" by simp_all
  from edge_calls [OF this i assms(11)] show ?thesis .
qed

text \<open>Two pins on line 4: \<^verbatim>\<open>IRQ2\<close> of the radio at port C and number 0x14 at port B.\<close>

lemma line_4:
  "get_pin 0x24 = Some (GPIOC, 0x10)" "get_pin 0x14 = Some (GPIOB, 0x10)" "bit2bitno 0x10 = 4"
  "filter (bit (0x10 :: u32)) [0..<16] = [4]"
  by code_simp+

lemmas pin_ops = pin_step_def stm32_pin_attach_irq_def stm32_pin_irq_enable_def irq_enable_def HAL_GPIO_Init_def
  init_line_def irq_pad_def edge_def EXTI_IRQHandler_def HAL_GPIO_EXTI_IRQHandler_def pin_irq_hdr_def

text \<open>
  Enabling the interrupt of a pin to which nothing was attached succeeds when something is attached to
  the same line of another port, and takes the line away: the function of the other pin is then called for
  edges at this pin and no more for its own.
\<close>

theorem line_taken_over:
  "map_r fst (bind_r (pin_run [Attach 0x24 0 (Some 1) 0, IrqEnable 0x24 1] gpio_boot)
     (\<lambda>(_, g). stm32_pin_irq_enable 0x14 1 g)) = Inr 0 \<and>
   map_r fst (pin_run [Attach 0x24 0 (Some 1) 0, IrqEnable 0x24 1, IrqEnable 0x14 1, Edge GPIOC 4 True, Interrupt EXTI4]
     gpio_boot) = Inr [] \<and>
   map_r fst (pin_run [Attach 0x24 0 (Some 1) 0, IrqEnable 0x24 1, IrqEnable 0x14 1, Edge GPIOB 4 True, Interrupt EXTI4]
     gpio_boot) = Inr [(1, 0)]"
  by (simp add: pin_ops line_4 Let_def gpio_boot_def no_hdr_def pin_irq_map_def RT_ENOSYS_def RT_EBUSY_def edge_mode_def)

theorem attached_function_called_witness:
  "\<exists>c1 g1 calls g3. pin_run [Attach 0x24 0 (Some 1) 0, IrqEnable 0x24 1] gpio_boot = Inr (c1, g1) \<and>
     pin_run [Edge GPIOC 4 True, Interrupt EXTI4] g1 = Inr (calls, g3) \<and> (1, 0) \<in> set calls"
proof -
  obtain c1 g1 where g1: "pin_run [Attach 0x24 0 (Some 1) 0, IrqEnable 0x24 1] gpio_boot = Inr (c1, g1)"
    by (simp add: pin_ops line_4 Let_def gpio_boot_def no_hdr_def pin_irq_map_def RT_ENOSYS_def RT_EBUSY_def edge_mode_def)
  have nil: "pin_run [] g = Inr ([], g)" for g by simp
  have line: "pin_line 0x24 = Some 4" by (simp add: pin_line_def line_4)
  have free: "hdr_pin (pin_irq_hdr_tab gpio_boot ! 4) = - 1" by (simp add: gpio_boot_def no_hdr_def)
  have "pin_irq_map ! 4 = EXTI4" by (simp add: pin_irq_map_def)
  with attached_function_called [OF nil line_4(1) line _ _ free _ g1 nil, of True]
  obtain calls g3 where "pin_run [Edge GPIOC 4 True, Interrupt EXTI4] g1 = Inr (calls, g3)" "(1, 0) \<in> set calls"
    by (auto simp del: pin_run.simps)
  with g1 show ?thesis by blast
qed

end
