(* ===== verification/Radio_Wake.thy ===== *)
theory Radio_Wake
  imports Gpio_Driver Kernel_Run
begin

text \<open>
  From the interrupt line of the radio to its task (\<^verbatim>\<open>radio/Radio_4068.c\<close>): the chip raises the line, the
  pin driver calls the function attached to it, the function releases a semaphore, and the kernel lets
  the task that waits for it run. The parts are the pin driver of \<^verbatim>\<open>Gpio_Driver\<close> and the kernel of
  \<^verbatim>\<open>Rtt_Kernel\<close>.
\<close>

section \<open>The interrupt function\<close>

text \<open>\<open>sem\<close> is the number of the semaphore \<^verbatim>\<open>IRQ2_Sem\<close>.\<close>

definition IRQ2_ISR :: "nat \<Rightarrow> kernel \<Rightarrow> kernel result" where
  "IRQ2_ISR sem k = release_semaphore sem k"

text \<open>The pin driver knows the function by a number; the pin is number 0x24, line 4 of port C.\<close>

definition ISR_NUMBER :: nat where "ISR_NUMBER = 1"

definition bind_IRQ2 :: "pin_event list" where
  "bind_IRQ2 = [PinModeSet 0x24 2, Attach 0x24 0 (Some ISR_NUMBER) 0, IrqEnable 0x24 1]"

definition call_isr :: "nat \<Rightarrow> nat \<times> nat \<Rightarrow> kernel \<Rightarrow> kernel result" where
  "call_isr sem call k = (if fst call = ISR_NUMBER then IRQ2_ISR sem k else Inr k)"

text \<open>The line rises and the processor takes the interrupt.\<close>

definition radio_interrupt :: "nat \<Rightarrow> kernel \<times> gpio \<Rightarrow> (kernel \<times> gpio) result" where
  "radio_interrupt sem = (\<lambda>(k, g).
     bind_r (pin_run [Edge GPIOC 4 True, Interrupt EXTI4] g) (\<lambda>(calls, g).
       map_r (\<lambda>k. (k, g)) (fold_r (call_isr sem) calls k)))"

section \<open>Releasing a semaphore somebody waits for\<close>

lemma waiting_suspended: "kernel_ok k \<Longrightarrow> suspend_thread (semas k s) = t # ts \<Longrightarrow> stat_of k t = Suspend"
  unfolding kernel_ok_def core_def semas_ok_def by (metis list.set_intros(1))

lemma release_wakes:
  assumes "kernel_ok k" and "suspend_thread (semas k s) = t # ts"
  shows "\<exists>k'. release_semaphore s k = Inr k' \<and> kernel_ok k' \<and> lock_nest k' = lock_nest k \<and>
    awake (stat_of k' t) \<and> (\<forall>u. u \<noteq> t \<longrightarrow> awake (stat_of k' u) = awake (stat_of k u)) \<and>
    (\<forall>u. prio_of k' u = prio_of k u)"
proof -
  obtain c where c: "runs_on c k" using kernel_runs_on [OF assms(1)] by blast
  then have sm: "semas_ok (threads k) (semas k)" by (simp add: runs_on_def core_def)
  let ?k1 = "on_sema s (\<lambda>sm. sm\<lparr>suspend_thread := ts\<rparr>) k"
  let ?k2 = "rt_thread_resume t ?k1"
  have "runs_on c ?k1" using semas_released [OF sm refl assms(2)] c by (simp add: runs_on_def core_sema)
  then have k2: "runs_on c ?k2" by (rule runs_on_resume)
  then have "core 0 ?k2" "idle_ok (threads ?k2)" "current_thread ?k2 = Some c" "stat_of ?k2 c = Running"
    by (simp_all add: runs_on_def)
  from schedule_ok [OF this(1-3)] this(4) obtain k3 where k3: "rt_schedule ?k2 = Inr k3" "resched ?k2 k3" by blast
  have release: "release_semaphore s k = rt_schedule ?k2"
    using assms(2) by (simp add: release_semaphore_def rt_sem_release_def on_sema_def)
  have sus: "stat_of ?k1 t = Suspend" using waiting_suspended [OF assms] by simp
  have r: "lock_nest ?k2 = lock_nest k" "stat_of ?k2 t = Ready"
    "\<And>u. u \<noteq> t \<Longrightarrow> stat_of ?k2 u = stat_of k u" "\<And>u. prio_of ?k2 u = prio_of k u"
    using sus c by (auto simp: rt_thread_resume_def runs_on_def)
  have "awake (stat_of k3 u) = awake (stat_of ?k2 u)" for u
    using k3(2) unfolding resched_def by (cases "awake (stat_of ?k2 u)") metis+
  moreover have "kernel_ok k3" using release_ok [OF assms(1), of s] k3(1) release by auto
  moreover have "lock_nest k3 = lock_nest ?k2" "\<And>u. prio_of k3 u = prio_of ?k2 u" using k3(2) by (simp_all add: resched_def)
  ultimately show ?thesis using k3(1) release r by (simp add: awake_def)
qed

text \<open>A thread more urgent than the running one runs as soon as the semaphore it waits for is released.\<close>

lemma release_switches:
  assumes "kernel_ok k" and "lock_nest k = 0" and "suspend_thread (semas k s) = t # ts"
    and "current_thread k = Some c" and "prio_of k t < prio_of k c"
  shows "\<exists>k'. release_semaphore s k = Inr k' \<and> kernel_ok k' \<and> current_thread k' = Some t \<and> stat_of k' t = Running"
proof -
  from release_wakes [OF assms(1,3)] obtain k' where k': "release_semaphore s k = Inr k'" "kernel_ok k'"
    "lock_nest k' = lock_nest k" "awake (stat_of k' t)" "\<And>u. u \<noteq> t \<Longrightarrow> awake (stat_of k' u) = awake (stat_of k u)"
    "\<And>u. prio_of k' u = prio_of k u" by blast
  from kernel_okD [OF k'(2)] obtain d where d: "current_thread k' = Some d" "stat_of k' d = Running"
    "\<And>u. lock_nest k' = 0 \<Longrightarrow> stat_of k' u = Ready \<Longrightarrow> prio_of k' d \<le> prio_of k' u" by metis
  from kernel_okD [OF assms(1)] assms(4) have c: "stat_of k c = Running"
    "\<And>u. stat_of k u = Ready \<Longrightarrow> prio_of k c \<le> prio_of k u" using assms(2) by (metis option.inject)+
  have "d = t"
  proof (rule ccontr)
    assume "d \<noteq> t"
    then have "awake (stat_of k d)" using d(2) k'(5) [of d] by (simp add: awake_def)
    moreover have "u = c" if "stat_of k u = Running" for u
      using that assms(1,4) unfolding kernel_ok_def core_def run_ok_def by (metis option.inject)
    ultimately have "prio_of k c \<le> prio_of k d" using c(2) by (auto simp: awake_def)
    moreover have "stat_of k' t = Ready"
      using k'(4) d(1) \<open>d \<noteq> t\<close> k'(2) unfolding awake_def kernel_ok_def core_def run_ok_def by (metis option.inject)
    then have "prio_of k d \<le> prio_of k t" using d(3) [of t] k'(3,6) assms(2) by simp
    ultimately show False using assms(5) by simp
  qed
  with k' d show ?thesis by blast
qed

section \<open>The interrupt reaches the task\<close>

lemma isr_calls:
  assumes "pin_run before gpio_boot = Inr (c0, g0)" and "hdr_pin (pin_irq_hdr_tab g0 ! 4) = - 1"
    and "pin_run (bind_IRQ2 @ others) g0 = Inr (c1, g)" and "\<forall>ev \<in> set others. \<not> touches 4 ev"
  shows "\<exists>g'. pin_run [Edge GPIOC 4 True, Interrupt EXTI4] g = Inr ([(ISR_NUMBER, 0)], g') \<and> \<not> exti_pr g' 4"
proof -
  let ?g0 = "stm32_pin_mode 0x24 2 g0"
  obtain c2 g1 c3 where run: "pin_run [Attach 0x24 0 (Some ISR_NUMBER) 0, IrqEnable 0x24 1] ?g0 = Inr (c2, g1)"
    "pin_run others g1 = Inr (c3, g)"
    using assms(3) by (auto simp: bind_IRQ2_def pin_step_def bind_r_eq_Inr map_r_eq_Inr)
  have "irq_ok g0" using run_keeps [OF assms(1) boot_irq_ok] .
  moreover have "pin_run [PinModeSet 0x24 2] g0 = Inr ([], ?g0)" by (simp add: pin_step_def)
  ultimately have ok: "irq_ok ?g0" using run_keeps by blast
  have free: "hdr_pin (pin_irq_hdr_tab ?g0 ! 4) = - 1"
    using assms(2) by (simp add: stm32_pin_mode_def Let_def line_4 HAL_GPIO_Init_def init_line_def)
  have line: "pin_line 0x24 = Some 4" by (simp add: pin_line_def line_4)
  from attached_armed [OF ok line_4(1) line free _ _ _ run(1)]
  have "irq_ok g1" "armed GPIOC 4 0 ISR_NUMBER 0 g1" by simp_all
  from run_keeps_armed [OF run(2) this(1) assms(4) _ this(2)]
  have g: "irq_ok g" "armed GPIOC 4 0 ISR_NUMBER 0 g" by simp_all
  have q: "pin_irq_map ! 4 = EXTI4" "irq_lines EXTI4 = [4]" by (simp_all add: pin_irq_map_def)
  from edge_calls [OF g, of True] show ?thesis unfolding q by auto
qed

text \<open>
  C21: Once the radio's line has been bound, a rising edge on it makes the radio task run at once: whatever
  was done with other lines and whatever the kernel did before, when the task waits first in line for the
  semaphore, the scheduler is not locked and the main thread, the serial threads, the shell or the idle
  thread runs, then the interrupt switches to the task and the line waits no longer.
\<close>

theorem radio_task_runs_at_once:
  assumes "pin_run before gpio_boot = Inr (c0, g0)" and "hdr_pin (pin_irq_hdr_tab g0 ! 4) = - 1"
    and "pin_run (bind_IRQ2 @ others) g0 = Inr (c1, g)" and "\<forall>ev \<in> set others. \<not> touches 4 ev"
    and "rtthread_startup = Inr k0" and "fold_r kernel_step evs k0 = Inr k" and "lock_nest k = 0"
    and "suspend_thread (semas k sem) = RF_4068 # ts"
    and "current_thread k = Some c" and "c \<in> {MAIN, SERIAL, TIMEOUT_UART, TSHELL, IDLE}"
  shows "\<exists>k' g'. radio_interrupt sem (k, g) = Inr (k', g') \<and> current_thread k' = Some RF_4068 \<and>
    stat_of k' RF_4068 = Running \<and> \<not> exti_pr g' 4"
proof -
  from isr_calls [OF assms(1-4)] obtain g' where g': "\<not> exti_pr g' 4"
    "pin_run [Edge GPIOC 4 True, Interrupt EXTI4] g = Inr ([(ISR_NUMBER, 0)], g')" by blast
  have "prio_of k RF_4068 < prio_of k c"
    using assms(10) by (auto simp: priorities [OF assms(5,6)])
  from release_switches [OF reached_ok [OF assms(5,6)] assms(7-9) this] obtain k' where
    k': "release_semaphore sem k = Inr k'" "current_thread k' = Some RF_4068" "stat_of k' RF_4068 = Running" by blast
  have "radio_interrupt sem (k, g) = Inr (k', g')"
    unfolding radio_interrupt_def by (simp only: prod.case g'(2) bind_r_simps) (simp add: call_isr_def IRQ2_ISR_def k'(1))
  with k' g' show ?thesis by blast
qed

text \<open>An interrupt that comes while the task is busy is kept: the semaphore counts it.\<close>

theorem radio_interrupt_kept:
  assumes "pin_run before gpio_boot = Inr (c0, g0)" and "hdr_pin (pin_irq_hdr_tab g0 ! 4) = - 1"
    and "pin_run (bind_IRQ2 @ others) g0 = Inr (c1, g)" and "\<forall>ev \<in> set others. \<not> touches 4 ev"
    and "suspend_thread (semas k sem) = []"
  shows "\<exists>k' g'. radio_interrupt sem (k, g) = Inr (k', g') \<and> threads k' = threads k \<and>
    sem_value (semas k' sem) = sem_value (semas k sem) + 1 \<and> \<not> exti_pr g' 4"
proof -
  from isr_calls [OF assms(1-4)] obtain g' where g': "\<not> exti_pr g' 4"
    "pin_run [Edge GPIOC 4 True, Interrupt EXTI4] g = Inr ([(ISR_NUMBER, 0)], g')" by blast
  let ?k = "on_sema sem (\<lambda>sm. sm\<lparr>sem_value := sem_value sm + 1\<rparr>) k"
  have "release_semaphore sem k = Inr ?k"
    using assms(5) by (simp add: release_semaphore_def rt_sem_release_def on_sema_def)
  then have "radio_interrupt sem (k, g) = Inr (?k, g')"
    unfolding radio_interrupt_def by (simp only: prod.case g'(2) bind_r_simps) (simp add: call_isr_def IRQ2_ISR_def)
  with g' show ?thesis by (intro exI [of _ ?k] exI [of _ g']) simp
qed

lemma bound_at_boot: "\<exists>c1 g. pin_run (bind_IRQ2 @ []) gpio_boot = Inr (c1, g)"
  by (simp add: bind_IRQ2_def ISR_NUMBER_def stm32_pin_mode_def pin_ops line_4 Let_def gpio_boot_def no_hdr_def pin_irq_map_def
      RT_ENOSYS_def RT_EBUSY_def edge_mode_def)

theorem radio_interrupt_kept_witness:
  "\<exists>c1 g k' g'. pin_run bind_IRQ2 gpio_boot = Inr (c1, g) \<and> radio_interrupt 3 (kernel_cold, g) = Inr (k', g') \<and>
     sem_value (semas k' 3) = sem_value (semas kernel_cold 3) + 1"
proof -
  from bound_at_boot obtain c1 g where g: "pin_run (bind_IRQ2 @ []) gpio_boot = Inr (c1, g)" by blast
  have nil: "pin_run [] gpio_boot = Inr ([], gpio_boot)" by simp
  have free: "hdr_pin (pin_irq_hdr_tab gpio_boot ! 4) = - 1" by (simp add: gpio_boot_def no_hdr_def)
  have "suspend_thread (semas kernel_cold 3) = []" by (simp add: kernel_cold_def rt_sem_init_def)
  from radio_interrupt_kept [OF nil free g _ this] g show ?thesis by (auto simp del: pin_run.simps)
qed

theorem radio_task_runs_at_once_witness:
  "\<exists>k0 k c1 g k' g'. rtthread_startup = Inr k0 \<and>
     fold_r kernel_step [SuspendSelf, Startup RF_4068, TakeSem 3 (- 1)] k0 = Inr k \<and>
     current_thread k = Some MAIN \<and> pin_run bind_IRQ2 gpio_boot = Inr (c1, g) \<and>
     radio_interrupt 3 (k, g) = Inr (k', g') \<and> current_thread k' = Some RF_4068"
proof -
  have "run_from_start [SuspendSelf, Startup RF_4068, TakeSem 3 (- 1)]
      (\<lambda>k. lock_nest k = 0 \<and> suspend_thread (semas k 3) = [RF_4068] \<and> current_thread k = Some MAIN)" by code_simp
  then obtain k0 k where k: "rtthread_startup = Inr k0"
    "fold_r kernel_step [SuspendSelf, Startup RF_4068, TakeSem 3 (- 1)] k0 = Inr k"
    "lock_nest k = 0 \<and> suspend_thread (semas k 3) = [RF_4068] \<and> current_thread k = Some MAIN"
    by (blast dest: run_from_startD)
  from bound_at_boot obtain c1 g where g: "pin_run (bind_IRQ2 @ []) gpio_boot = Inr (c1, g)" by blast
  have nil: "pin_run [] gpio_boot = Inr ([], gpio_boot)" by simp
  have free: "hdr_pin (pin_irq_hdr_tab gpio_boot ! 4) = - 1" by (simp add: gpio_boot_def no_hdr_def)
  have w: "lock_nest k = 0" "suspend_thread (semas k 3) = RF_4068 # []" "current_thread k = Some MAIN"
    using k(3) by simp_all
  from radio_task_runs_at_once [OF nil free g _ k(1,2) w] obtain k' g' where
    "radio_interrupt 3 (k, g) = Inr (k', g')" "current_thread k' = Some RF_4068" by auto
  with k g show ?thesis by (auto simp del: pin_run.simps)
qed

end
