(* ===== verification/Rtt_Ram.thy ===== *)
theory Rtt_Ram
  imports Tester_Prelude
begin

text \<open>
  The memory of the target as bytes at addresses, the 16 and 32 bit accesses of a little-endian
  machine, and the memory services of \<^verbatim>\<open>rt-thread/src/kservice.c\<close> (\<^verbatim>\<open>rt_memset\<close>, \<^verbatim>\<open>rt_memcpy\<close>,
  \<^verbatim>\<open>rt_memmove\<close>) with the word-wise loops of the build without \<^verbatim>\<open>RT_USING_TINY_SIZE\<close>. An object does
  not wrap around the end of the address space, so the addresses inside one are plain numbers.
\<close>

type_synonym ram = "nat \<Rightarrow> u8"

section \<open>Words in memory\<close>

definition load16 :: "nat \<Rightarrow> ram \<Rightarrow> u16" where
  "load16 a r = ucast (r a) OR push_bit 8 (ucast (r (a + 1)))"

definition store16 :: "nat \<Rightarrow> u16 \<Rightarrow> ram \<Rightarrow> ram" where
  "store16 a w r = r(a := ucast w, a + 1 := ucast (drop_bit 8 w))"

definition load32 :: "nat \<Rightarrow> ram \<Rightarrow> u32" where
  "load32 a r = ucast (r a) OR push_bit 8 (ucast (r (a + 1))) OR
     push_bit 16 (ucast (r (a + 2))) OR push_bit 24 (ucast (r (a + 3)))"

definition store32 :: "nat \<Rightarrow> u32 \<Rightarrow> ram \<Rightarrow> ram" where
  "store32 a w r = r(a := ucast w, a + 1 := ucast (drop_bit 8 w),
     a + 2 := ucast (drop_bit 16 w), a + 3 := ucast (drop_bit 24 w))"

lemma load16_store16 [simp]: "load16 a (store16 a w r) = w"
proof (rule bit_word_eqI)
  fix n
  assume "n < LENGTH(16)"
  then have "n < 8 \<or> 8 \<le> n \<and> n < 16" by auto
  then show "bit (load16 a (store16 a w r)) n = bit w n"
    by (auto simp: load16_def store16_def bit_simps)
qed

lemma load32_store32 [simp]: "load32 a (store32 a w r) = w"
proof (rule bit_word_eqI)
  fix n
  assume "n < LENGTH(32)"
  then have "n < 8 \<or> 8 \<le> n \<and> n < 16 \<or> 16 \<le> n \<and> n < 24 \<or> 24 \<le> n \<and> n < 32" by auto
  then show "bit (load32 a (store32 a w r)) n = bit w n"
    by (auto simp: load32_def store32_def bit_simps)
qed

lemma store16_other [simp]: "x < a \<or> a + 2 \<le> x \<Longrightarrow> store16 a w r x = r x"
  by (auto simp: store16_def)

lemma store32_other [simp]: "x < a \<or> a + 4 \<le> x \<Longrightarrow> store32 a w r x = r x"
  by (auto simp: store32_def)

lemma load16_cong: "(\<And>i. i < 2 \<Longrightarrow> r (a + i) = r' (a + i)) \<Longrightarrow> load16 a r = load16 a r'"
proof -
  assume "\<And>i. i < 2 \<Longrightarrow> r (a + i) = r' (a + i)"
  from this [of 0] this [of 1] show ?thesis by (simp add: load16_def)
qed

lemma load32_cong:
  assumes "\<And>i. i < 4 \<Longrightarrow> r (a + i) = r' (a + i)"
  shows "load32 a r = load32 a r'"
  using assms [of 0] assms [of 1] assms [of 2] assms [of 3] by (simp add: load32_def)

text \<open>The bytes of a loaded word are the bytes in memory.\<close>

lemma ucast_load32 [simp]:
  "ucast (load32 a r) = r a"
  "ucast (drop_bit 8 (load32 a r)) = r (a + 1)"
  "ucast (drop_bit 16 (load32 a r)) = r (a + 2)"
  "ucast (drop_bit 24 (load32 a r)) = r (a + 3)"
  by (rule bit_word_eqI; auto simp: load32_def bit_simps dest: bit_imp_le_length)+

section \<open>The byte loops\<close>

primrec fill_bytes :: "nat \<Rightarrow> u8 \<Rightarrow> nat \<Rightarrow> ram \<Rightarrow> ram" where
  "fill_bytes m d 0 r = r"
| "fill_bytes m d (Suc n) r = fill_bytes (m + 1) d n (r(m := d))"

primrec copy_bytes :: "nat \<Rightarrow> nat \<Rightarrow> nat \<Rightarrow> ram \<Rightarrow> ram" where
  "copy_bytes d s 0 r = r"
| "copy_bytes d s (Suc n) r = copy_bytes (d + 1) (s + 1) n (r(d := r s))"

text \<open>The loop of \<^verbatim>\<open>rt_memmove\<close> that goes downwards from the ends.\<close>

primrec copy_down :: "nat \<Rightarrow> nat \<Rightarrow> nat \<Rightarrow> ram \<Rightarrow> ram" where
  "copy_down d s 0 r = r"
| "copy_down d s (Suc n) r = copy_down d s n (r(d + n := r (s + n)))"

lemma fill_bytes_apply:
  "fill_bytes m d n r x = (if m \<le> x \<and> x < m + n then d else r x)"
  by (induction n arbitrary: m r) auto

lemma copy_bytes_apply:
  "d \<le> s \<or> s + n \<le> d \<Longrightarrow>
     copy_bytes d s n r x = (if d \<le> x \<and> x < d + n then r (s + (x - d)) else r x)"
proof (induction n arbitrary: d s r)
  case 0
  show ?case by auto
next
  case (Suc n)
  have "d + 1 \<le> s + 1 \<or> s + 1 + n \<le> d + 1" using Suc.prems by auto
  from Suc.IH [OF this] show ?case
    using Suc.prems by (auto simp: Suc_diff_Suc not_le less_Suc_eq_le)
qed

lemma copy_down_apply:
  "s \<le> d \<or> d + n \<le> s \<Longrightarrow>
     copy_down d s n r x = (if d \<le> x \<and> x < d + n then r (s + (x - d)) else r x)"
  by (induction n arbitrary: r) (auto simp: less_Suc_eq)

section \<open>rt_memset\<close>

text \<open>The two loops over words: four at a time, then one at a time. They return the place reached and the rest.\<close>

fun set_big :: "nat \<Rightarrow> u32 \<Rightarrow> nat \<Rightarrow> ram \<Rightarrow> nat \<times> nat \<times> ram" where
  "set_big a w n r =
     (if 16 \<le> n
      then set_big (a + 16) w (n - 16)
             (store32 (a + 12) w (store32 (a + 8) w (store32 (a + 4) w (store32 a w r))))
      else (a, n, r))"

fun set_little :: "nat \<Rightarrow> u32 \<Rightarrow> nat \<Rightarrow> ram \<Rightarrow> nat \<times> nat \<times> ram" where
  "set_little a w n r =
     (if 4 \<le> n then set_little (a + 4) w (n - 4) (store32 a w r) else (a, n, r))"

definition rt_memset :: "nat \<Rightarrow> u32 \<Rightarrow> nat \<Rightarrow> ram \<Rightarrow> ram" where
  "rt_memset s c count r =
     (let d = c AND 0xFF;
          (m, count, r) =
            (if \<not> count < 4 \<and> s mod 4 = 0
             then let buffer = push_bit 8 d OR d;
                      buffer = buffer OR push_bit 16 buffer;
                      (a, n, r) = set_big s buffer count r
                  in set_little a buffer n r
             else (s, count, r))
      in fill_bytes m (ucast d) count r)"

section \<open>rt_memcpy and rt_memmove\<close>

fun copy_big :: "nat \<Rightarrow> nat \<Rightarrow> nat \<Rightarrow> ram \<Rightarrow> nat \<times> nat \<times> nat \<times> ram" where
  "copy_big d s n r =
     (if 16 \<le> n
      then let r = store32 d (load32 s r) r;
               r = store32 (d + 4) (load32 (s + 4) r) r;
               r = store32 (d + 8) (load32 (s + 8) r) r;
               r = store32 (d + 12) (load32 (s + 12) r) r
           in copy_big (d + 16) (s + 16) (n - 16) r
      else (d, s, n, r))"

fun copy_little :: "nat \<Rightarrow> nat \<Rightarrow> nat \<Rightarrow> ram \<Rightarrow> nat \<times> nat \<times> nat \<times> ram" where
  "copy_little d s n r =
     (if 4 \<le> n then copy_little (d + 4) (s + 4) (n - 4) (store32 d (load32 s r) r)
      else (d, s, n, r))"

definition rt_memcpy :: "nat \<Rightarrow> nat \<Rightarrow> nat \<Rightarrow> ram \<Rightarrow> ram" where
  "rt_memcpy dst src count r =
     (let (d, s, len, r) =
            (if \<not> count < 16 \<and> src mod 4 = 0 \<and> dst mod 4 = 0
             then let (d, s, n, r) = copy_big dst src count r in copy_little d s n r
             else (dst, src, count, r))
      in copy_bytes d s len r)"

definition rt_memmove :: "nat \<Rightarrow> nat \<Rightarrow> nat \<Rightarrow> ram \<Rightarrow> ram" where
  "rt_memmove dest src n r =
     (if src < dest \<and> dest < src + n then copy_down dest src n r else copy_bytes dest src n r)"

declare set_big.simps [simp del] set_little.simps [simp del]
  copy_big.simps [simp del] copy_little.simps [simp del]

section \<open>They are the byte loops\<close>

text \<open>A word of four equal bytes.\<close>

lemma memset_word:
  fixes d :: u32
  defines "b \<equiv> push_bit 8 (d AND 0xFF) OR (d AND 0xFF)"
  defines "w \<equiv> b OR push_bit 16 b"
  shows "ucast w = (ucast (d AND 0xFF) :: u8)" "ucast (drop_bit 8 w) = (ucast (d AND 0xFF) :: u8)"
    "ucast (drop_bit 16 w) = (ucast (d AND 0xFF) :: u8)" "ucast (drop_bit 24 w) = (ucast (d AND 0xFF) :: u8)"
proof -
  have m: "(0xFF :: u32) = mask 8" by (simp add: mask_eq_exp_minus_1)
  show "ucast w = (ucast (d AND 0xFF) :: u8)" "ucast (drop_bit 8 w) = (ucast (d AND 0xFF) :: u8)"
    "ucast (drop_bit 16 w) = (ucast (d AND 0xFF) :: u8)" "ucast (drop_bit 24 w) = (ucast (d AND 0xFF) :: u8)"
    unfolding w_def b_def m by (rule bit_word_eqI; auto simp: bit_simps)+
qed

lemma fill_word:
  assumes "ucast w = d" "ucast (drop_bit 8 w) = d" "ucast (drop_bit 16 w) = d" "ucast (drop_bit 24 w) = d"
  shows "fill_bytes (a + 4) d n (store32 a w r) = fill_bytes a d (n + 4) r"
  using assms by (auto simp: fill_bytes_apply store32_def fun_eq_iff)

lemma copy_word:
  assumes "s mod 4 = 0" "d mod 4 = 0"
  shows "copy_bytes (d + 4) (s + 4) n (store32 d (load32 s r) r) = copy_bytes d s (n + 4) r"
proof -
  have far: "s = d \<or> s + 4 \<le> d \<or> d + 4 \<le> s" using assms by presburger
  have four: "n + 4 = Suc (Suc (Suc (Suc n)))" by simp
  have "store32 d (load32 s r) r =
      (let r1 = r(d := r s); r2 = r1(d + 1 := r1 (s + 1)); r3 = r2(d + 2 := r2 (s + 2))
       in r3(d + 3 := r3 (s + 3)))"
    using far by (auto simp: store32_def Let_def fun_eq_iff)
  then show ?thesis
    unfolding four by (simp add: Let_def eval_nat_numeral)
qed

text \<open>What the word loops leave for the byte loop is what they had not done.\<close>

definition splats :: "u32 \<Rightarrow> u8 \<Rightarrow> bool" where
  "splats w d \<longleftrightarrow> ucast w = d \<and> ucast (drop_bit 8 w) = d \<and> ucast (drop_bit 16 w) = d \<and>
     ucast (drop_bit 24 w) = d"

lemma set_little_fill:
  "splats w d \<Longrightarrow> set_little a w n r = (a', n', r') \<Longrightarrow> fill_bytes a' d n' r' = fill_bytes a d n r"
proof (induction a w n r rule: set_little.induct)
  case (1 a w n r)
  show ?case
  proof (cases "4 \<le> n")
    case True
    with 1 have "fill_bytes a' d n' r' = fill_bytes (a + 4) d (n - 4) (store32 a w r)"
      by (simp add: set_little.simps [of a w n r])
    with True 1(2) show ?thesis by (simp add: fill_word splats_def)
  next
    case False
    with 1 show ?thesis by (simp add: set_little.simps [of a w n r])
  qed
qed

lemma set_big_fill:
  "splats w d \<Longrightarrow> set_big a w n r = (a', n', r') \<Longrightarrow> fill_bytes a' d n' r' = fill_bytes a d n r"
proof (induction a w n r rule: set_big.induct)
  case (1 a w n r)
  show ?case
  proof (cases "16 \<le> n")
    case True
    define m where "m = n - 16"
    have n: "n = m + 4 + 4 + 4 + 4" using True by (simp add: m_def)
    have s: "fill_bytes (b + 4) d k (store32 b w q) = fill_bytes b d (k + 4) q" for b k q
      using 1(2) by (simp add: fill_word splats_def)
    from 1 True have "fill_bytes a' d n' r' = fill_bytes (a + 16) d m
        (store32 (a + 12) w (store32 (a + 8) w (store32 (a + 4) w (store32 a w r))))"
      by (simp add: set_big.simps [of a w n r] m_def)
    also have "\<dots> = fill_bytes (a + 12) d (m + 4) (store32 (a + 8) w (store32 (a + 4) w (store32 a w r)))"
      using s [of "a + 12" m] by (simp add: add.assoc)
    also have "\<dots> = fill_bytes (a + 8) d (m + 4 + 4) (store32 (a + 4) w (store32 a w r))"
      using s [of "a + 8" "m + 4"] by (simp add: add.assoc)
    also have "\<dots> = fill_bytes (a + 4) d (m + 4 + 4 + 4) (store32 a w r)"
      using s [of "a + 4" "m + 4 + 4"] by (simp add: add.assoc)
    also have "\<dots> = fill_bytes a d n r"
      unfolding n by (rule s)
    finally show ?thesis .
  next
    case False
    with 1 show ?thesis by (simp add: set_big.simps [of a w n r])
  qed
qed

text \<open>\<^verbatim>\<open>rt_memset\<close> with its loops over words writes exactly what a loop over the bytes writes.\<close>

theorem memset_bytewise: "rt_memset s c count r = fill_bytes s (ucast c) count r"
proof -
  have low: "ucast (c AND 0xFF) = (ucast c :: u8)"
  proof -
    have m: "(0xFF :: u32) = mask 8" by (simp add: mask_eq_exp_minus_1)
    show ?thesis unfolding m by (rule bit_word_eqI) (auto simp: bit_simps)
  qed
  define d where "d = c AND 0xFF"
  define w where "w = (push_bit 8 d OR d) OR push_bit 16 (push_bit 8 d OR d)"
  have w: "splats w (ucast c)"
    using memset_word [of c] by (simp add: splats_def w_def d_def low)
  obtain a n q where big: "set_big s w count r = (a, n, q)" by (cases "set_big s w count r")
  obtain a' n' q' where little: "set_little a w n q = (a', n', q')" by (cases "set_little a w n q")
  show ?thesis
    using set_big_fill [OF w big] set_little_fill [OF w little]
    unfolding rt_memset_def Let_def d_def [symmetric] w_def [symmetric] big prod.case little low [folded d_def]
    by (simp split: prod.split)
qed

lemma copy_little_bytes:
  "s mod 4 = 0 \<Longrightarrow> d mod 4 = 0 \<Longrightarrow> copy_little d s n r = (d', s', n', r') \<Longrightarrow>
     copy_bytes d' s' n' r' = copy_bytes d s n r"
proof (induction d s n r rule: copy_little.induct)
  case (1 d s n r)
  show ?case
  proof (cases "4 \<le> n")
    case True
    with 1 have "copy_bytes d' s' n' r' = copy_bytes (d + 4) (s + 4) (n - 4) (store32 d (load32 s r) r)"
      by (simp add: copy_little.simps [of d s n r])
    with True 1 show ?thesis by (simp add: copy_word)
  next
    case False
    with 1 show ?thesis by (simp add: copy_little.simps [of d s n r])
  qed
qed

lemma copy_big_bytes:
  "s mod 4 = 0 \<Longrightarrow> d mod 4 = 0 \<Longrightarrow> copy_big d s n r = (d', s', n', r') \<Longrightarrow>
     copy_bytes d' s' n' r' = copy_bytes d s n r \<and> s' mod 4 = 0 \<and> d' mod 4 = 0"
proof (induction d s n r rule: copy_big.induct)
  case (1 d s n r)
  show ?case
  proof (cases "16 \<le> n")
    case True
    define m where "m = n - 16"
    have n: "n = m + 4 + 4 + 4 + 4" using True by (simp add: m_def)
    define w where "w i q = store32 (d + i) (load32 (s + i) q) q" for i q
    have al: "(s + 16) mod 4 = 0" "(d + 16) mod 4 = 0" using 1 by presburger+
    have cw: "copy_bytes (d + i + 4) (s + i + 4) k (w i q) = copy_bytes (d + i) (s + i) (k + 4) q"
      if "i mod 4 = 0" for i k q
      unfolding w_def using that 1(2,3) by (intro copy_word) presburger+
    have step: "copy_big d s n r = copy_big (d + 16) (s + 16) m (w 12 (w 8 (w 4 (w 0 r))))"
      using True by (simp add: copy_big.simps [of d s n r] w_def m_def Let_def)
    have "copy_bytes d' s' n' r' = copy_bytes (d + 16) (s + 16) m (w 12 (w 8 (w 4 (w 0 r)))) \<and>
        s' mod 4 = 0 \<and> d' mod 4 = 0"
      using 1 True al step by (simp add: w_def m_def Let_def)
    moreover have "copy_bytes (d + 16) (s + 16) m (w 12 (w 8 (w 4 (w 0 r)))) = copy_bytes d s n r"
      using cw [of 12 m] cw [of 8 "m + 4"] cw [of 4 "m + 4 + 4"] cw [of 0 "m + 4 + 4 + 4"]
      by (simp add: n add.assoc)
    ultimately show ?thesis by simp
  next
    case False
    with 1 show ?thesis by (simp add: copy_big.simps [of d s n r])
  qed
qed

text \<open>C18: \<^verbatim>\<open>rt_memcpy\<close> with its loops over words leaves the same memory as the loop over the bytes, also where the two areas overlap.\<close>

theorem memcpy_bytewise: "rt_memcpy dst src count r = copy_bytes dst src count r"
proof (cases "\<not> count < 16 \<and> src mod 4 = 0 \<and> dst mod 4 = 0")
  case True
  obtain d s n q where big: "copy_big dst src count r = (d, s, n, q)" by (cases "copy_big dst src count r")
  obtain d' s' n' q' where little: "copy_little d s n q = (d', s', n', q')" by (cases "copy_little d s n q")
  from True have "src mod 4 = 0" "dst mod 4 = 0" by auto
  from copy_big_bytes [OF this big] copy_little_bytes [OF _ _ little] True show ?thesis
    by (simp add: rt_memcpy_def big little)
next
  case False
  then show ?thesis unfolding rt_memcpy_def if_not_P [OF False] by simp
qed

text \<open>\<^verbatim>\<open>rt_memmove\<close> moves what was there before, whichever way the areas overlap.\<close>

theorem memmove_moves:
  "rt_memmove dest src n r x = (if dest \<le> x \<and> x < dest + n then r (src + (x - dest)) else r x)"
  by (auto simp: rt_memmove_def copy_down_apply copy_bytes_apply)

end
