(* ===== verification/Rtt_Mem.thy ===== *)
theory Rtt_Mem
  imports Rtt_Ram Rtt_Sem
begin

text \<open>
  The heap of RT-Thread (\<^verbatim>\<open>rt-thread/src/mem.c\<close>, \<^verbatim>\<open>RT_USING_SMALL_MEM\<close>) over the bytes of the
  memory: every block begins with a \<^verbatim>\<open>struct heap_mem\<close> of 12 bytes whose \<^verbatim>\<open>next\<close> and \<^verbatim>\<open>prev\<close> are
  offsets into the heap. A pointer is an address, \<^verbatim>\<open>RT_NULL\<close> is 0; \<^verbatim>\<open>rt_size_t\<close> and \<^verbatim>\<open>rt_ubase_t\<close>
  hold 32 bits, and the wrap-around of their sums and differences is written out.
\<close>

section \<open>Sizes and blocks\<close>

definition add32 :: "nat \<Rightarrow> nat \<Rightarrow> nat" where
  "add32 a b = (a + b) mod 2 ^ 32"

definition sub32 :: "nat \<Rightarrow> nat \<Rightarrow> nat" where
  "sub32 a b = (a + (2 ^ 32 - b)) mod 2 ^ 32"

definition mul32 :: "nat \<Rightarrow> nat \<Rightarrow> nat" where
  "mul32 a b = (a * b) mod 2 ^ 32"

text \<open>\<^verbatim>\<open>RT_ALIGN\<close> and \<^verbatim>\<open>RT_ALIGN_DOWN\<close> with \<^verbatim>\<open>RT_ALIGN_SIZE\<close> 4, which clear the two lowest bits.\<close>

definition rt_align :: "nat \<Rightarrow> nat" where
  "rt_align sz = add32 sz 3 div 4 * 4"

definition rt_align_down :: "nat \<Rightarrow> nat" where
  "rt_align_down sz = sz div 4 * 4"

text \<open>A size as the 32 bits of a field.\<close>

definition size32 :: "nat \<Rightarrow> u32" where
  "size32 n = of_nat n"

definition HEAP_MAGIC :: u16 where "HEAP_MAGIC = 0x1ea0"

abbreviation (input) SIZEOF_STRUCT_MEM :: nat where "SIZEOF_STRUCT_MEM \<equiv> 12"

abbreviation (input) MIN_SIZE_ALIGNED :: nat where "MIN_SIZE_ALIGNED \<equiv> 12"

record heap_mem =
  magic :: u16
  used :: u16
  next_item :: u32
  prev_item :: u32

definition load_item :: "nat \<Rightarrow> ram \<Rightarrow> heap_mem" where
  "load_item p r = \<lparr>magic = load16 p r, used = load16 (p + 2) r,
     next_item = load32 (p + 4) r, prev_item = load32 (p + 8) r\<rparr>"

definition store_item :: "nat \<Rightarrow> heap_mem \<Rightarrow> ram \<Rightarrow> ram" where
  "store_item p h r = store32 (p + 8) (prev_item h) (store32 (p + 4) (next_item h)
     (store16 (p + 2) (used h) (store16 p (magic h) r)))"

text \<open>The variables of the file, and the memory.\<close>

record heap =
  mem_ram :: ram
  heap_ptr :: nat
  heap_end :: nat
  lfree :: nat
  heap_sem :: semaphore
  mem_size_aligned :: nat
  used_mem :: nat
  max_mem :: nat

definition item :: "nat \<Rightarrow> heap \<Rightarrow> heap_mem" where
  "item p s = load_item p (mem_ram s)"

definition set_item :: "nat \<Rightarrow> (heap_mem \<Rightarrow> heap_mem) \<Rightarrow> heap \<Rightarrow> heap" where
  "set_item p f s = s\<lparr>mem_ram := store_item p (f (item p s)) (mem_ram s)\<rparr>"

text \<open>\<^verbatim>\<open>&heap_ptr[off]\<close> and back, \<^verbatim>\<open>(rt_uint8_t *)mem - heap_ptr\<close>.\<close>

definition at :: "nat \<Rightarrow> heap \<Rightarrow> nat" where
  "at off s = add32 (heap_ptr s) off"

definition offset_of :: "nat \<Rightarrow> heap \<Rightarrow> nat" where
  "offset_of p s = sub32 p (heap_ptr s)"

abbreviation next_of :: "nat \<Rightarrow> heap \<Rightarrow> nat" where
  "next_of p s \<equiv> unat (next_item (item p s))"

abbreviation prev_of :: "nat \<Rightarrow> heap \<Rightarrow> nat" where
  "prev_of p s \<equiv> unat (prev_item (item p s))"

text \<open>
  The semaphore of the heap, taken by the thread that calls. One that would have to wait for
  itself waits forever, which is the fault \<open>OutOfFuel\<close> of a loop that does not end.
\<close>

definition heap_lock :: "heap \<Rightarrow> heap result" where
  "heap_lock s =
     (case rt_sem_take 0 True (heap_sem s) of
        (Taken, m) \<Rightarrow> Inr (s\<lparr>heap_sem := m\<rparr>)
      | _ \<Rightarrow> Inl OutOfFuel)"

definition heap_unlock :: "heap \<Rightarrow> heap" where
  "heap_unlock s = s\<lparr>heap_sem := snd (rt_sem_release (heap_sem s))\<rparr>"

definition rt_assert :: "bool \<Rightarrow> 'a result \<Rightarrow> 'a result" where
  "rt_assert b m = (if b then m else Inl AssertFailed)"

section \<open>plug_holes\<close>

text \<open>The two halves of the function: the free block behind, then the free block in front.\<close>

definition plug_forward :: "nat \<Rightarrow> heap \<Rightarrow> heap" where
  "plug_forward mem s =
     (let nmem = at (next_of mem s) s
      in if mem \<noteq> nmem \<and> used (item nmem s) = 0 \<and> nmem \<noteq> heap_end s
         then let s = (if lfree s = nmem then s\<lparr>lfree := mem\<rparr> else s);
                  s = set_item mem (next_item_update (\<lambda>_. next_item (item nmem s))) s
              in set_item (at (next_of nmem s) s)
                   (prev_item_update (\<lambda>_. size32 (offset_of mem s))) s
         else s)"

definition plug_backward :: "nat \<Rightarrow> heap \<Rightarrow> heap" where
  "plug_backward mem s =
     (let pmem = at (prev_of mem s) s
      in if pmem \<noteq> mem \<and> used (item pmem s) = 0
         then let s = (if lfree s = mem then s\<lparr>lfree := pmem\<rparr> else s);
                  s = set_item pmem (next_item_update (\<lambda>_. next_item (item mem s))) s
              in set_item (at (next_of mem s) s)
                   (prev_item_update (\<lambda>_. size32 (offset_of pmem s))) s
         else s)"

definition plug_holes :: "nat \<Rightarrow> heap \<Rightarrow> heap result" where
  "plug_holes mem s =
     rt_assert (heap_ptr s \<le> mem)
       (rt_assert (mem < heap_end s)
         (rt_assert (used (item mem s) = 0)
           (Inr (plug_backward mem (plug_forward mem s)))))"

section \<open>rt_system_heap_init\<close>

text \<open>An area too small for two blocks is reported and left alone.\<close>

definition rt_system_heap_init :: "nat \<Rightarrow> nat \<Rightarrow> heap \<Rightarrow> heap" where
  "rt_system_heap_init begin_addr end_addr s =
     (let begin_align = rt_align begin_addr;
          end_align = rt_align_down end_addr
      in if end_align > 2 * SIZEOF_STRUCT_MEM \<and> end_align - 2 * SIZEOF_STRUCT_MEM \<ge> begin_align
         then let s = s\<lparr>mem_size_aligned := end_align - begin_align - 2 * SIZEOF_STRUCT_MEM,
                        heap_ptr := begin_align\<rparr>;
                  last_off = add32 (mem_size_aligned s) SIZEOF_STRUCT_MEM;
                  s = set_item (heap_ptr s) (\<lambda>_. \<lparr>magic = HEAP_MAGIC, used = 0,
                        next_item = size32 last_off, prev_item = 0\<rparr>) s;
                  s = s\<lparr>heap_end := at (next_of (heap_ptr s) s) s\<rparr>;
                  s = set_item (heap_end s) (\<lambda>_. \<lparr>magic = HEAP_MAGIC, used = 1,
                        next_item = size32 last_off, prev_item = size32 last_off\<rparr>) s
              in s\<lparr>heap_sem := rt_sem_init 1, lfree := heap_ptr s\<rparr>
         else s)"

section \<open>rt_malloc\<close>

text \<open>
  The search loop, from offset \<open>ptr\<close> on: the offset of the block that is taken, or \<open>None\<close> when the
  loop condition ends it. The loop that moves \<^verbatim>\<open>lfree\<close> on is the other one.
\<close>

primrec malloc_search :: "nat \<Rightarrow> nat \<Rightarrow> nat \<Rightarrow> heap \<Rightarrow> nat option result" where
  "malloc_search 0 ptr sz s = Inl OutOfFuel"
| "malloc_search (Suc fuel) ptr sz s =
     (if ptr < sub32 (mem_size_aligned s) sz
      then let mem = at ptr s
           in if used (item mem s) = 0 \<and> sz \<le> sub32 (next_of mem s) (add32 ptr SIZEOF_STRUCT_MEM)
              then Inr (Some ptr)
              else malloc_search fuel (next_of mem s) sz s
      else Inr None)"

primrec lfree_advance :: "nat \<Rightarrow> heap \<Rightarrow> heap result" where
  "lfree_advance 0 s = Inl OutOfFuel"
| "lfree_advance (Suc fuel) s =
     (if used (item (lfree s) s) \<noteq> 0 \<and> lfree s \<noteq> heap_end s
      then lfree_advance fuel (s\<lparr>lfree := at (next_of (lfree s) s) s\<rparr>)
      else Inr s)"

definition count_used :: "nat \<Rightarrow> heap \<Rightarrow> heap" where
  "count_used n s =
     (let s = s\<lparr>used_mem := add32 (used_mem s) n\<rparr>
      in if max_mem s < used_mem s then s\<lparr>max_mem := used_mem s\<rparr> else s)"

text \<open>The new block in the rest of a block that is cut at \<open>ptr2\<close>, and its link to the block behind.\<close>

definition split_block :: "nat \<Rightarrow> nat \<Rightarrow> heap \<Rightarrow> heap" where
  "split_block mem ptr2 s =
     (let mem2 = at ptr2 s;
          s = set_item mem2 (\<lambda>_. \<lparr>magic = HEAP_MAGIC, used = 0, next_item = next_item (item mem s),
                prev_item = size32 (offset_of mem s)\<rparr>) s
      in set_item mem (next_item_update (\<lambda>_. size32 ptr2)) s)"

definition link_back :: "nat \<Rightarrow> heap \<Rightarrow> heap" where
  "link_back ptr2 s =
     (let mem2 = at ptr2 s
      in if next_of mem2 s \<noteq> add32 (mem_size_aligned s) SIZEOF_STRUCT_MEM
         then set_item (at (next_of mem2 s) s) (prev_item_update (\<lambda>_. size32 ptr2)) s
         else s)"

text \<open>The body of the loop for the block that is taken.\<close>

definition malloc_take :: "nat \<Rightarrow> nat \<Rightarrow> nat \<Rightarrow> heap \<Rightarrow> (nat \<times> heap) result" where
  "malloc_take fuel ptr sz s =
     (let mem = at ptr s;
          s = (if add32 sz (SIZEOF_STRUCT_MEM + MIN_SIZE_ALIGNED)
                    \<le> sub32 (next_of mem s) (add32 ptr SIZEOF_STRUCT_MEM)
               then let ptr2 = add32 (add32 ptr SIZEOF_STRUCT_MEM) sz;
                        s = split_block mem ptr2 s;
                        s = set_item mem (used_update (\<lambda>_. 1)) s;
                        s = link_back ptr2 s
                    in count_used (add32 sz SIZEOF_STRUCT_MEM) s
               else let s = set_item mem (used_update (\<lambda>_. 1)) s
                    in count_used (sub32 (next_of mem s) (offset_of mem s)) s);
          s = set_item mem (magic_update (\<lambda>_. HEAP_MAGIC)) s
      in bind_r
           (if mem = lfree s
            then bind_r (lfree_advance fuel s) (\<lambda>s.
                   rt_assert (lfree s = heap_end s \<or> used (item (lfree s) s) = 0) (Inr s))
            else Inr s)
           (\<lambda>s. let s = heap_unlock s
                in rt_assert (add32 (add32 mem SIZEOF_STRUCT_MEM) sz \<le> heap_end s)
                     (rt_assert (add32 mem SIZEOF_STRUCT_MEM mod 4 = 0)
                       (rt_assert (mem mod 4 = 0)
                         (Inr (add32 mem SIZEOF_STRUCT_MEM, s))))))"

text \<open>The fuel of both loops: there are at most as many blocks as bytes.\<close>

definition heap_fuel :: "heap \<Rightarrow> nat" where
  "heap_fuel s = Suc (mem_size_aligned s)"

definition rt_malloc :: "nat \<Rightarrow> heap \<Rightarrow> (nat \<times> heap) result" where
  "rt_malloc sz s =
     (if sz = 0 then Inr (0, s)
      else
        let sz = rt_align sz
        in if sz > mem_size_aligned s then Inr (0, s)
           else
             let sz = (if sz < MIN_SIZE_ALIGNED then MIN_SIZE_ALIGNED else sz)
             in bind_r (heap_lock s) (\<lambda>s.
                  bind_r (malloc_search (heap_fuel s) (offset_of (lfree s) s) sz s) (\<lambda>found.
                    case found of
                      None \<Rightarrow> Inr (0, heap_unlock s)
                    | Some ptr \<Rightarrow> malloc_take (heap_fuel s) ptr sz s)))"

section \<open>rt_free\<close>

text \<open>With \<^verbatim>\<open>RT_DEBUG\<close> on, the assertions come before the checks that would return.\<close>

definition rt_free :: "nat \<Rightarrow> heap \<Rightarrow> heap result" where
  "rt_free rmem s =
     (if rmem = 0 then Inr s
      else
        rt_assert (rmem mod 4 = 0)
          (rt_assert (heap_ptr s \<le> rmem \<and> rmem < heap_end s)
            (let mem = sub32 rmem SIZEOF_STRUCT_MEM
             in bind_r (heap_lock s) (\<lambda>s.
                  rt_assert (used (item mem s) \<noteq> 0)
                    (rt_assert (magic (item mem s) = HEAP_MAGIC)
                      (let s = set_item mem (\<lambda>h. h\<lparr>used := 0, magic := HEAP_MAGIC\<rparr>) s;
                           s = (if mem < lfree s then s\<lparr>lfree := mem\<rparr> else s);
                           s = s\<lparr>used_mem := sub32 (used_mem s)
                                   (sub32 (next_of mem s) (offset_of mem s))\<rparr>
                       in map_r heap_unlock (plug_holes mem s)))))))"

section \<open>rt_realloc and rt_calloc\<close>

text \<open>\<^verbatim>\<open>rt_realloc\<close> cuts a block in place, or moves it; the test of the cut uses \<^verbatim>\<open>MIN_SIZE\<close>, also 12.\<close>

definition realloc_shrink :: "nat \<Rightarrow> nat \<Rightarrow> nat \<Rightarrow> heap \<Rightarrow> heap result" where
  "realloc_shrink mem sz newsize s =
     (let s = s\<lparr>used_mem := sub32 (used_mem s) (sub32 sz newsize)\<rparr>;
          ptr2 = add32 (add32 (offset_of mem s) SIZEOF_STRUCT_MEM) newsize;
          s = split_block mem ptr2 s;
          s = link_back ptr2 s
      in map_r heap_unlock (plug_holes (at ptr2 s) s))"

definition realloc_move :: "nat \<Rightarrow> nat \<Rightarrow> nat \<Rightarrow> heap \<Rightarrow> (nat \<times> heap) result" where
  "realloc_move rmem sz newsize s =
     bind_r (rt_malloc newsize s) (\<lambda>(nmem, s).
       if nmem \<noteq> 0
       then let s = s\<lparr>mem_ram := rt_memcpy nmem rmem (if sz < newsize then sz else newsize) (mem_ram s)\<rparr>
            in map_r (\<lambda>s. (nmem, s)) (rt_free rmem s)
       else Inr (nmem, s))"

definition rt_realloc :: "nat \<Rightarrow> nat \<Rightarrow> heap \<Rightarrow> (nat \<times> heap) result" where
  "rt_realloc rmem newsize s =
     (let newsize = rt_align newsize
      in if newsize > mem_size_aligned s then Inr (0, s)
         else if newsize = 0 then map_r (\<lambda>s. (0, s)) (rt_free rmem s)
         else if rmem = 0 then rt_malloc newsize s
         else bind_r (heap_lock s) (\<lambda>s.
           if rmem < heap_ptr s \<or> heap_end s \<le> rmem then Inr (rmem, heap_unlock s)
           else
             let mem = sub32 rmem SIZEOF_STRUCT_MEM;
                 sz = sub32 (sub32 (next_of mem s) (offset_of mem s)) SIZEOF_STRUCT_MEM
             in if sz = newsize then Inr (rmem, heap_unlock s)
                else if add32 newsize (SIZEOF_STRUCT_MEM + 12) < sz
                then map_r (\<lambda>s. (rmem, s)) (realloc_shrink mem sz newsize s)
                else realloc_move rmem sz newsize (heap_unlock s)))"

definition rt_calloc :: "nat \<Rightarrow> nat \<Rightarrow> heap \<Rightarrow> (nat \<times> heap) result" where
  "rt_calloc count sz s =
     bind_r (rt_malloc (mul32 count sz) s) (\<lambda>(p, s).
       Inr (p, if p \<noteq> 0 then s\<lparr>mem_ram := rt_memset p 0 (mul32 count sz) (mem_ram s)\<rparr> else s))"

text \<open>\<^verbatim>\<open>rt_memory_info\<close>, with all three pointers given: total, used, most ever used.\<close>

definition rt_memory_info :: "heap \<Rightarrow> nat \<times> nat \<times> nat" where
  "rt_memory_info s = (mem_size_aligned s, used_mem s, max_mem s)"

section \<open>What the heap holds\<close>

text \<open>The blocks as the \<^verbatim>\<open>next\<close> fields chain them: offset, length with the header, and whether in use.\<close>

primrec walk :: "nat \<Rightarrow> nat \<Rightarrow> heap \<Rightarrow> (nat \<times> nat \<times> bool) list" where
  "walk 0 off s = []"
| "walk (Suc fuel) off s =
     (let p = at off s
      in if p = heap_end s then []
         else (off, next_of p s - off, used (item p s) \<noteq> 0) # walk fuel (next_of p s) s)"

definition heap_blocks :: "heap \<Rightarrow> (nat \<times> nat \<times> bool) list" where
  "heap_blocks s = walk (heap_fuel s) 0 s"

text \<open>
  The heap as its clients see it: a map from the pointers in their hands to the contents of the
  buffers behind them.
\<close>

definition buffer :: "heap \<Rightarrow> nat \<Rightarrow> nat \<Rightarrow> u8 list" where
  "buffer s off g = map (mem_ram s) [heap_ptr s + off + 12..<heap_ptr s + off + g]"

definition live :: "heap \<Rightarrow> (nat \<times> nat \<times> bool) list \<Rightarrow> nat \<rightharpoonup> u8 list" where
  "live s cs = map_of (map (\<lambda>(off, g, u). (heap_ptr s + off + 12, buffer s off g)) (filter (\<lambda>(off, g, u). u) cs))"

definition buffers :: "heap \<Rightarrow> nat \<rightharpoonup> u8 list" where
  "buffers s = live s (heap_blocks s)"

end
