(* ===== verification/Mem_Layout.thy ===== *)
theory Mem_Layout
  imports Rtt_Mem
begin

text \<open>
  The blocks of the heap as a list of lengths and use marks, laid out in memory one behind the other: what
  a write to one header leaves of the rest, and what joining free blocks does to the list.
\<close>

section \<open>Access to items\<close>

lemma add32_eq [simp]: "a + b < 2 ^ 32 \<Longrightarrow> add32 a b = a + b"
  by (simp add: add32_def)

lemma sub32_eq [simp]: "b \<le> a \<Longrightarrow> a < 2 ^ 32 \<Longrightarrow> sub32 a b = a - b"
proof -
  assume "b \<le> a" "a < 2 ^ 32"
  then have "a + (2 ^ 32 - b) = (a - b) + 2 ^ 32" by simp
  then have "sub32 a b = (a - b) mod 2 ^ 32" unfolding sub32_def by (metis mod_add_self2)
  with \<open>a < 2 ^ 32\<close> show ?thesis by simp
qed

lemma unat_size32 [simp]: "n < 2 ^ 32 \<Longrightarrow> unat (size32 n) = n"
  by (simp add: size32_def unat_of_nat)

lemma load_item_cong: "(\<And>x. p \<le> x \<Longrightarrow> x < p + 12 \<Longrightarrow> r x = r' x) \<Longrightarrow> load_item p r = load_item p r'"
  unfolding load_item_def by (auto intro: load16_cong load32_cong)

lemma load_store_item: "load_item p (store_item p h r) = h"
proof -
  have "load16 p (store_item p h r) = magic h"
  proof -
    have "load16 p (store_item p h r) = load16 p (store16 p (magic h) r)"
      by (rule load16_cong) (auto simp: store_item_def)
    then show ?thesis by simp
  qed
  moreover have "load16 (p + 2) (store_item p h r) = used h"
  proof -
    have "load16 (p + 2) (store_item p h r) = load16 (p + 2) (store16 (p + 2) (used h) (store16 p (magic h) r))"
      by (rule load16_cong) (auto simp: store_item_def)
    then show ?thesis by simp
  qed
  moreover have "load32 (p + 4) (store_item p h r) = next_item h"
  proof -
    have "load32 (p + 4) (store_item p h r) = load32 (p + 4) (store32 (p + 4) (next_item h)
        (store16 (p + 2) (used h) (store16 p (magic h) r)))"
      by (rule load32_cong) (auto simp: store_item_def)
    then show ?thesis by simp
  qed
  moreover have "load32 (p + 8) (store_item p h r) = prev_item h"
    by (simp add: store_item_def)
  ultimately show ?thesis by (simp add: load_item_def)
qed

lemma store_item_other: "x < p \<or> p + 12 \<le> x \<Longrightarrow> store_item p h r x = r x"
  by (auto simp: store_item_def)

lemma set_item_same_sel [simp]:
  "heap_ptr (set_item p f s) = heap_ptr s" "heap_end (set_item p f s) = heap_end s"
  "lfree (set_item p f s) = lfree s" "heap_sem (set_item p f s) = heap_sem s"
  "mem_size_aligned (set_item p f s) = mem_size_aligned s"
  "used_mem (set_item p f s) = used_mem s" "max_mem (set_item p f s) = max_mem s"
  by (simp_all add: set_item_def)

lemma item_sel_upd [simp]:
  "item p (s\<lparr>lfree := a\<rparr>) = item p s" "item p (s\<lparr>heap_sem := m\<rparr>) = item p s"
  "item p (s\<lparr>used_mem := b\<rparr>) = item p s" "item p (s\<lparr>max_mem := c\<rparr>) = item p s"
  "item p (s\<lparr>heap_end := d\<rparr>) = item p s" 
  by (simp_all add: item_def)

lemma item_set_same [simp]: "item p (set_item p f s) = f (item p s)"
  by (simp add: item_def set_item_def load_store_item)

lemma item_cong:
  "(\<And>x. p \<le> x \<Longrightarrow> x < p + 12 \<Longrightarrow> mem_ram s' x = mem_ram s x) \<Longrightarrow> item p s' = item p s"
  unfolding item_def by (rule load_item_cong)

lemma ram_set_item [simp]: "x < p \<or> p + 12 \<le> x \<Longrightarrow> mem_ram (set_item p f s) x = mem_ram s x"
  by (simp add: set_item_def store_item_other)

lemma item_set_other [simp]: "q + 12 \<le> p \<or> p + 12 \<le> q \<Longrightarrow> item q (set_item p f s) = item q s"
  by (rule item_cong) auto

lemma at_simps [simp]:
  "at off (set_item p f s) = at off s" "at off (s\<lparr>lfree := a\<rparr>) = at off s"
  "at off (s\<lparr>heap_sem := m\<rparr>) = at off s" "at off (s\<lparr>used_mem := b\<rparr>) = at off s"
  "at off (s\<lparr>max_mem := c\<rparr>) = at off s"
  by (simp_all add: at_def)

lemma offset_of_simps [simp]:
  "offset_of q (set_item p f s) = offset_of q s" "offset_of q (s\<lparr>lfree := a\<rparr>) = offset_of q s"
  "offset_of q (s\<lparr>heap_sem := m\<rparr>) = offset_of q s" "offset_of q (s\<lparr>used_mem := b\<rparr>) = offset_of q s"
  "offset_of q (s\<lparr>max_mem := c\<rparr>) = offset_of q s"
  by (simp_all add: offset_of_def)

section \<open>Lists of blocks\<close>

type_synonym blocks = "(nat \<times> bool) list"

definition total :: "blocks \<Rightarrow> nat" where
  "total bs = sum_list (map fst bs)"

definition used_total :: "blocks \<Rightarrow> nat" where
  "used_total bs = sum_list (map (\<lambda>(g, u). if u then g else 0) bs)"

lemma total_simps [simp]:
  "total [] = 0" "total ((g, u) # bs) = g + total bs" "total (us @ vs) = total us + total vs"
  by (simp_all add: total_def)

lemma used_total_simps [simp]:
  "used_total [] = 0" "used_total ((g, u) # bs) = (if u then g else 0) + used_total bs"
  "used_total (us @ vs) = used_total us + used_total vs"
  by (simp_all add: used_total_def)

lemma used_total_le: "used_total bs \<le> total bs"
  by (induction bs) auto

fun cells :: "nat \<Rightarrow> blocks \<Rightarrow> (nat \<times> nat \<times> bool) list" where
  "cells off [] = []"
| "cells off ((g, u) # bs) = (off, g, u) # cells (off + g) bs"

lemma cells_append [simp]: "cells off (us @ vs) = cells off us @ cells (off + total us) vs"
  by (induction off us rule: cells.induct) (simp_all add: add.assoc)

lemma cells_bounds: "(o1, g, u) \<in> set (cells off bs) \<Longrightarrow> off \<le> o1 \<and> o1 + g \<le> off + total bs \<and> (g, u) \<in> set bs"
  by (induction off bs rule: cells.induct) fastforce+

lemma cells_split:
  "(o1, g, u) \<in> set (cells off bs) \<Longrightarrow> \<exists>us vs. bs = us @ (g, u) # vs \<and> o1 = off + total us"
proof (induction off bs rule: cells.induct)
  case (1 off)
  then show ?case by simp
next
  case (2 off g' u' bs)
  show ?case
  proof (cases "(o1, g, u) = (off, g', u')")
    case True
    then have "(g', u') # bs = [] @ (g, u) # bs \<and> o1 = off + total []" by simp
    then show ?thesis by blast
  next
    case False
    with 2 obtain us vs where "bs = us @ (g, u) # vs" "o1 = off + g' + total us" by auto
    then have "(g', u') # bs = ((g', u') # us) @ (g, u) # vs \<and> o1 = off + total ((g', u') # us)" by simp
    then show ?thesis by blast
  qed
qed

text \<open>The offset of the last block of a list, which the \<^verbatim>\<open>prev\<close> of the next one names.\<close>

fun end_prev :: "nat \<Rightarrow> nat \<Rightarrow> blocks \<Rightarrow> nat" where
  "end_prev pv off [] = pv"
| "end_prev pv off ((g, u) # bs) = end_prev off (off + g) bs"

lemma end_prev_snoc [simp]: "end_prev pv off (us @ [(g, u)]) = off + total us"
  by (induction pv off us rule: end_prev.induct) simp_all

section \<open>The layout in memory\<close>

fun layout :: "heap \<Rightarrow> nat \<Rightarrow> nat \<Rightarrow> blocks \<Rightarrow> bool" where
  "layout s pv off [] = True"
| "layout s pv off ((g, u) # bs) =
     (item (heap_ptr s + off) s = \<lparr>magic = HEAP_MAGIC, used = of_bool u,
        next_item = size32 (off + g), prev_item = size32 pv\<rparr> \<and>
      16 \<le> g \<and> g mod 4 = 0 \<and> layout s off (off + g) bs)"

lemma layout_append [simp]:
  "layout s pv off (us @ vs) \<longleftrightarrow> layout s pv off us \<and> layout s (end_prev pv off us) (off + total us) vs"
  by (induction s pv off us rule: layout.induct) (auto simp: add.assoc)

lemma layout_gaps: "layout s pv off bs \<Longrightarrow> (g, u) \<in> set bs \<Longrightarrow> 16 \<le> g \<and> g mod 4 = 0"
  by (induction s pv off bs rule: layout.induct) auto

lemma layout_total_mod: "layout s pv off bs \<Longrightarrow> total bs mod 4 = 0"
  by (induction s pv off bs rule: layout.induct) (auto simp: mod_add_eq [symmetric])

lemma layout_cong:
  assumes "heap_ptr s' = heap_ptr s"
    and "\<And>x. heap_ptr s + off \<le> x \<Longrightarrow> x < heap_ptr s + off + total bs \<Longrightarrow> mem_ram s' x = mem_ram s x"
  shows "layout s pv off bs \<Longrightarrow> layout s' pv off bs"
  using assms
proof (induction s pv off bs rule: layout.induct)
  case (1 s pv off)
  then show ?case by simp
next
  case (2 s pv off g u bs)
  have "item (heap_ptr s + off) s' = item (heap_ptr s + off) s"
    by (rule item_cong) (use 2 in auto)
  with 2 show ?case by auto
qed

lemma layout_set_other:
  "layout s pv off bs \<Longrightarrow> p + 12 \<le> heap_ptr s + off \<or> heap_ptr s + off + total bs \<le> p \<Longrightarrow>
     layout (set_item p f s) pv off bs"
  by (erule layout_cong [rotated 2]) auto

lemma layout_sel_upd [simp]:
  "layout (s\<lparr>lfree := a\<rparr>) pv off bs = layout s pv off bs"
  "layout (s\<lparr>heap_sem := m\<rparr>) pv off bs = layout s pv off bs"
  "layout (s\<lparr>used_mem := b\<rparr>) pv off bs = layout s pv off bs"
  "layout (s\<lparr>max_mem := c\<rparr>) pv off bs = layout s pv off bs"
  by (induction s pv off bs rule: layout.induct) simp_all

text \<open>The \<^verbatim>\<open>prev\<close> of the first block is written when the block before it changes.\<close>

lemma layout_set_prev:
  "layout s pv off bs \<Longrightarrow> p = heap_ptr s + off \<Longrightarrow>
     layout (set_item p (prev_item_update (\<lambda>_. size32 pv')) s) pv' off bs"
  by (cases bs) (auto simp: layout_set_other)

section \<open>The heap laid out\<close>

definition laid_out :: "heap \<Rightarrow> blocks \<Rightarrow> bool" where
  "laid_out s bs \<longleftrightarrow> heap_ptr s mod 4 = 0 \<and> 0 < heap_ptr s \<and> heap_end s = heap_ptr s + total bs \<and>
     mem_size_aligned s + 12 = total bs \<and> heap_end s + 12 \<le> 2 ^ 32 \<and> 24 \<le> total bs \<and>
     layout s 0 0 bs \<and> magic (item (heap_end s) s) = HEAP_MAGIC \<and> used (item (heap_end s) s) = 1 \<and>
     next_item (item (heap_end s) s) = size32 (total bs)"

lemma laid_outD:
  assumes "laid_out s bs"
  shows "heap_ptr s mod 4 = 0" "heap_end s = heap_ptr s + total bs" "mem_size_aligned s + 12 = total bs"
    "heap_ptr s + total bs + 12 \<le> 2 ^ 32" "24 \<le> total bs" "layout s 0 0 bs" 
    "used (item (heap_ptr s + total bs) s) = 1" "next_item (item (heap_ptr s + total bs) s) = size32 (total bs)"
    "magic (item (heap_ptr s + total bs) s) = HEAP_MAGIC" "0 < heap_ptr s"
  using assms by (auto simp: laid_out_def)

text \<open>What a block in the middle of the list says of the memory, without wrap-around.\<close>

lemma laid_out_block:
  assumes "laid_out s (us @ (g, u) # vs)"
  defines "p \<equiv> heap_ptr s + total us"
  shows "item p s = \<lparr>magic = HEAP_MAGIC, used = of_bool u, next_item = size32 (total us + g),
      prev_item = size32 (end_prev 0 0 us)\<rparr>"
    and "16 \<le> g" "g mod 4 = 0" "p + g \<le> heap_end s" "p + g + total vs + 12 \<le> 2 ^ 32"
    and "at (total us) s = p" "offset_of p s = total us" "next_of p s = total us + g"
    and "at (total us + g) s = p + g" "offset_of (p + g) s = total us + g"
    and "layout s 0 0 us" "layout s (total us) (total us + g) vs"
  using laid_outD [OF assms(1)] by (auto simp: p_def at_def offset_of_def)

lemma laid_out_sel_upd [simp]:
  "laid_out (s\<lparr>lfree := a\<rparr>) bs = laid_out s bs" "laid_out (s\<lparr>heap_sem := m\<rparr>) bs = laid_out s bs"
  "laid_out (s\<lparr>used_mem := b\<rparr>) bs = laid_out s bs" "laid_out (s\<lparr>max_mem := c\<rparr>) bs = laid_out s bs"
  by (simp_all add: laid_out_def)

section \<open>The walk over the blocks\<close>

lemma walk_layout:
  assumes "layout s pv off bs" and "heap_end s = heap_ptr s + off + total bs" and "heap_end s < 2 ^ 32"
  shows "length bs < fuel \<Longrightarrow> walk fuel off s = cells off bs"
  using assms
proof (induction fuel arbitrary: pv off bs)
  case 0
  then show ?case by simp
next
  case (Suc fuel)
  show ?case
  proof (cases bs)
    case Nil
    with Suc show ?thesis by (simp add: at_def)
  next
    case (Cons b cs)
    obtain g u where b: "b = (g, u)" by (cases b)
    from Suc Cons b have "walk fuel (off + g) s = cells (off + g) cs"
      by (intro Suc.IH [of cs off]) auto
    with Suc.prems Cons b show ?thesis by (auto simp: at_def Let_def)
  qed
qed

lemma layout_length: "layout s pv off bs \<Longrightarrow> 16 * length bs \<le> total bs"
  by (induction s pv off bs rule: layout.induct) auto

lemma heap_blocks_cells: "laid_out s bs \<Longrightarrow> heap_blocks s = cells 0 bs"
proof -
  assume *: "laid_out s bs"
  from laid_outD [OF this] layout_length [of s 0 0 bs] have "length bs < heap_fuel s"
    by (simp add: heap_fuel_def)
  with laid_outD [OF *] show ?thesis
    unfolding heap_blocks_def by (intro walk_layout [of s 0]) auto
qed

end
