(* ===== verification/Mem_Plug.thy ===== *)
theory Mem_Plug
  imports Mem_Layout
begin

text \<open>
  What the clients see of the heap while its headers change: the map of buffers, and \<^verbatim>\<open>plug_holes\<close>,
  which joins a free block with free neighbours.
\<close>

section \<open>Buffers\<close>

lemma buffer_cong:
  "heap_ptr s' = heap_ptr s \<Longrightarrow>
     (\<And>x. heap_ptr s + off + 12 \<le> x \<Longrightarrow> x < heap_ptr s + off + g \<Longrightarrow> mem_ram s' x = mem_ram s x) \<Longrightarrow>
     buffer s' off g = buffer s off g"
  by (simp add: buffer_def)

lemma buffer_set_item:
  "p \<le> heap_ptr s + off \<or> heap_ptr s + off + g \<le> p \<Longrightarrow> buffer (set_item p f s) off g = buffer s off g"
  by (rule buffer_cong) auto

lemma buffer_sel_upd [simp]:
  "buffer (s\<lparr>lfree := a\<rparr>) off g = buffer s off g" "buffer (s\<lparr>heap_sem := m\<rparr>) off g = buffer s off g"
  "buffer (s\<lparr>used_mem := b\<rparr>) off g = buffer s off g" "buffer (s\<lparr>max_mem := c\<rparr>) off g = buffer s off g"
  by (simp_all add: buffer_def)

text \<open>The blocks of a list keep their contents.\<close>

definition same_data :: "heap \<Rightarrow> heap \<Rightarrow> nat \<Rightarrow> blocks \<Rightarrow> bool" where
  "same_data s s' off bs \<longleftrightarrow> heap_ptr s' = heap_ptr s \<and>
     (\<forall>(o1, g, u) \<in> set (cells off bs). buffer s' o1 g = buffer s o1 g)"

lemma same_data_refl [simp]: "same_data s s off bs"
  by (auto simp: same_data_def)

lemma same_data_trans: "same_data s s' off bs \<Longrightarrow> same_data s' s'' off bs \<Longrightarrow> same_data s s'' off bs"
  by (fastforce simp: same_data_def)

lemma same_data_append [simp]:
  "same_data s s' off (us @ vs) \<longleftrightarrow> same_data s s' off us \<and> same_data s s' (off + total us) vs"
  by (simp add: same_data_def ball_Un) blast

lemma same_data_Cons [simp]:
  "same_data s s' off ((g, u) # vs) \<longleftrightarrow>
     heap_ptr s' = heap_ptr s \<and> buffer s' off g = buffer s off g \<and> same_data s s' (off + g) vs"
  by (auto simp: same_data_def)

lemma same_data_sel_upd [simp]:
  "same_data s (s'\<lparr>lfree := a\<rparr>) off bs = same_data s s' off bs"
  "same_data s (s'\<lparr>heap_sem := m\<rparr>) off bs = same_data s s' off bs"
  "same_data s (s'\<lparr>used_mem := b\<rparr>) off bs = same_data s s' off bs"
  "same_data s (s'\<lparr>max_mem := c\<rparr>) off bs = same_data s s' off bs"
  by (simp_all add: same_data_def)

text \<open>A header written at the end of a list, or before it, touches none of its buffers.\<close>

lemma same_data_set_item:
  assumes "same_data s s' off bs" and "p \<le> heap_ptr s + off \<or> heap_ptr s + off + total bs \<le> p"
  shows "same_data s (set_item p f s') off bs"
  unfolding same_data_def
proof (intro conjI ballI)
  show "heap_ptr (set_item p f s') = heap_ptr s" using assms(1) by (simp add: same_data_def)
  fix c
  assume c: "c \<in> set (cells off bs)"
  obtain o1 g u where [simp]: "c = (o1, g, u)" by (cases c)
  from c cells_bounds [of o1 g u off bs] have "off \<le> o1" "o1 + g \<le> off + total bs" by auto
  with assms have "buffer (set_item p f s') o1 g = buffer s' o1 g"
    by (intro buffer_set_item) (auto simp: same_data_def)
  with c assms(1) show "case c of (o1, g, u) \<Rightarrow> buffer (set_item p f s') o1 g = buffer s o1 g"
    by (auto simp: same_data_def)
qed

text \<open>The last header of a list may be written: the data begin behind it.\<close>

lemma same_data_set_last:
  assumes "same_data s s' off (us @ [(g, u)])" and "p = heap_ptr s + off + total us"
  shows "same_data s (set_item p f s') off (us @ [(g, u)])"
proof -
  from assms(1) have "same_data s s' off us" "same_data s s' (off + total us) [(g, u)]" by simp_all
  from this [THEN same_data_set_item, of p f] assms(2) show ?thesis by simp
qed

lemma live_append: "live s (cs @ ds) = live s ds ++ live s cs"
  by (simp add: live_def map_of_append)

lemma live_Nil [simp]: "live s [] = Map.empty"
  by (simp add: live_def)

lemma live_Cons [simp]:
  "live s ((off, g, u) # cs) = (if u then (live s cs)(heap_ptr s + off + 12 \<mapsto> buffer s off g) else live s cs)"
  by (simp add: live_def)

lemma live_dom: "live s (cells off bs) p \<noteq> None \<Longrightarrow>
    \<exists>g o1. (o1, g, True) \<in> set (cells off bs) \<and> p = heap_ptr s + o1 + 12"
  unfolding live_def by (auto dest!: map_of_SomeD) blast

lemma live_outside:
  assumes l: "layout s' pv off bs" and p: "p < heap_ptr s + off + 12 \<or> heap_ptr s + off + total bs \<le> p"
  shows "live s (cells off bs) p = None"
proof (rule ccontr)
  assume "live s (cells off bs) p \<noteq> None"
  then obtain g o1 where c: "(o1, g, True) \<in> set (cells off bs)" "p = heap_ptr s + o1 + 12"
    using live_dom by blast
  with cells_bounds [OF c(1)] layout_gaps [OF l, of g True] p show False by auto
qed

lemma live_same_data: "same_data s s' off bs \<Longrightarrow> live s' (cells off bs) = live s (cells off bs)"
  unfolding live_def same_data_def by (rule arg_cong [of _ _ map_of]) (force intro: map_cong)

section \<open>Marks kept apart\<close>

text \<open>No two free blocks are neighbours.\<close>

definition no_holes :: "blocks \<Rightarrow> bool" where
  "no_holes bs \<longleftrightarrow> successively (\<lambda>a b. snd a \<or> snd b) bs"

lemma no_holes_simps [simp]:
  "no_holes []" "no_holes [b]"
  "no_holes (b # c # bs) \<longleftrightarrow> (snd b \<or> snd c) \<and> no_holes (c # bs)"
  by (simp_all add: no_holes_def)

lemma no_holes_append [simp]:
  "no_holes (us @ b # vs) \<longleftrightarrow>
     no_holes us \<and> no_holes (b # vs) \<and> (us = [] \<or> snd (last us) \<or> snd b)"
  by (auto simp: no_holes_def successively_append_iff)

lemma no_holes_ConsD: "no_holes (b # bs) \<Longrightarrow> no_holes bs"
  by (cases bs) simp_all

lemma no_holes_Cons_used: "no_holes bs \<Longrightarrow> no_holes ((g, True) # bs)"
  by (cases bs) simp_all

text \<open>Where \<^verbatim>\<open>lfree\<close> points: at a free block, or at the end.\<close>

definition is_free :: "blocks \<Rightarrow> nat \<Rightarrow> bool" where
  "is_free bs f \<longleftrightarrow> (\<exists>g. (f, g, False) \<in> set (cells 0 bs))"

definition lfree_ok :: "heap \<Rightarrow> blocks \<Rightarrow> bool" where
  "lfree_ok s bs \<longleftrightarrow> (\<exists>f. lfree s = heap_ptr s + f \<and> (f = total bs \<or> is_free bs f))"

text \<open>\<open>lfree_low\<close>: no free block before it, as its comment says.\<close>

definition lfree_low :: "heap \<Rightarrow> blocks \<Rightarrow> bool" where
  "lfree_low s bs \<longleftrightarrow> (\<forall>f. is_free bs f \<longrightarrow> lfree s \<le> heap_ptr s + f)"

lemma is_free_bound: "is_free bs f \<Longrightarrow> f \<le> total bs"
  unfolding is_free_def by (auto dest: cells_bounds)

section \<open>Joining\<close>

text \<open>What a call leaves as it is.\<close>

definition same_fields :: "heap \<Rightarrow> heap \<Rightarrow> bool" where
  "same_fields s s' \<longleftrightarrow> heap_ptr s' = heap_ptr s \<and> heap_end s' = heap_end s \<and> mem_size_aligned s' = mem_size_aligned s \<and>
     heap_sem s' = heap_sem s \<and> used_mem s' = used_mem s \<and> max_mem s' = max_mem s"

lemma same_fields_trans: "same_fields s s' \<Longrightarrow> same_fields s' s'' \<Longrightarrow> same_fields s s''"
  by (simp add: same_fields_def)

lemma join_laid_out:
  assumes lo: "laid_out s (us @ (g, False) # (g', False) # vs)"
  defines "p \<equiv> heap_ptr s + total us" and "q \<equiv> heap_ptr s + total us + g"
  defines "s' \<equiv> set_item (q + g') (prev_item_update (\<lambda>_. size32 (total us)))
      (set_item p (next_item_update (\<lambda>_. next_item (item q s))) s)"
  shows "laid_out s' (us @ (g + g', False) # vs)"
    and "same_data s s' 0 us" and "same_data s s' (total us + g + g') vs" and "same_fields s s'"
proof -
  note b = laid_out_block [OF lo]
  from lo have "laid_out s ((us @ [(g, False)]) @ (g', False) # vs)" by simp
  note c = laid_out_block [OF this, simplified]
  note d = laid_outD [OF lo, simplified]
  have "layout s' 0 0 us"
    unfolding s'_def p_def q_def using b by (intro layout_set_other) auto
  moreover have "item p s' = \<lparr>magic = HEAP_MAGIC, used = of_bool False, next_item = size32 (total us + (g + g')),
      prev_item = size32 (end_prev 0 0 us)\<rparr>"
    using b(1,2) c(1,2) by (simp add: s'_def p_def q_def add.assoc)
  moreover have "layout s' (total us) (total us + (g + g')) vs"
  proof -
    from c have "layout s (total us + g) (total us + (g + g')) vs" by (simp add: add.assoc)
    then have "layout (set_item p (next_item_update (\<lambda>_. next_item (item q s))) s) (total us + g) (total us + (g + g')) vs"
      using b(2) by (intro layout_set_other) (auto simp: p_def)
    then show ?thesis unfolding s'_def by (rule layout_set_prev) (simp add: q_def)
  qed
  ultimately have "layout s' 0 0 (us @ (g + g', False) # vs)"
    using b(2,3) c(2,3) by (simp add: s'_def p_def mod_add_eq [symmetric])
  moreover have "magic (item (heap_end s) s') = HEAP_MAGIC \<and> used (item (heap_end s) s') = 1 \<and>
      next_item (item (heap_end s) s') = size32 (total us + g + g' + total vs)"
  proof (cases "vs = []")
    case True
    with d b(2) c(2) show ?thesis by (simp add: s'_def p_def q_def add.assoc)
  next
    case False
    then have "16 \<le> total vs" using c by (cases vs) auto
    with d b(2) c(2) show ?thesis by (simp add: s'_def p_def q_def add.assoc)
  qed
  ultimately show "laid_out s' (us @ (g + g', False) # vs)"
    using d by (simp add: laid_out_def s'_def add.assoc)
  show "same_data s s' 0 us"
    unfolding s'_def p_def q_def by (intro same_data_set_item) auto
  show "same_data s s' (total us + g + g') vs"
    unfolding s'_def p_def q_def using b(2) by (intro same_data_set_item) auto
  show "same_fields s s'" by (simp add: same_fields_def s'_def)
qed

text \<open>Both halves of \<^verbatim>\<open>plug_holes\<close> join two neighbours: \<open>p\<close> swallows \<open>q\<close>.\<close>

definition join :: "nat \<Rightarrow> nat \<Rightarrow> heap \<Rightarrow> heap" where
  "join p q s =
     (let s = (if lfree s = q then s\<lparr>lfree := p\<rparr> else s);
          s = set_item p (next_item_update (\<lambda>_. next_item (item q s))) s
      in set_item (at (next_of q s) s) (prev_item_update (\<lambda>_. size32 (offset_of p s))) s)"

lemma plug_forward_join:
  "plug_forward mem s =
     (if mem \<noteq> at (next_of mem s) s \<and> used (item (at (next_of mem s) s) s) = 0 \<and> at (next_of mem s) s \<noteq> heap_end s
      then join mem (at (next_of mem s) s) s else s)"
  by (simp add: plug_forward_def join_def Let_def)

lemma plug_backward_join:
  "plug_backward mem s =
     (if at (prev_of mem s) s \<noteq> mem \<and> used (item (at (prev_of mem s) s) s) = 0
      then join (at (prev_of mem s) s) mem s else s)"
  by (simp add: plug_backward_def join_def Let_def)

lemma is_free_join:
  assumes "0 < g" "0 < g'"
  shows "is_free (us @ (g + g', False) # vs) f \<longleftrightarrow>
    is_free (us @ (g, False) # (g', False) # vs) f \<and> f \<noteq> total us + g"
  using assms unfolding is_free_def by (auto simp: add.assoc dest: cells_bounds)

text \<open>What joining, and the whole function, does to a heap that may have holes: the lists before and after.\<close>

definition joined :: "heap \<Rightarrow> blocks \<Rightarrow> heap \<Rightarrow> blocks \<Rightarrow> bool" where
  "joined s bs s' bs' \<longleftrightarrow> laid_out s' bs' \<and> same_fields s s' \<and> live s' (cells 0 bs') = live s (cells 0 bs) \<and>
     used_total bs' = used_total bs \<and> (lfree_ok s bs \<longrightarrow> lfree_ok s' bs') \<and> (lfree_low s bs \<longrightarrow> lfree_low s' bs')"

lemma joined_refl: "laid_out s bs \<Longrightarrow> joined s bs s bs"
  by (simp add: joined_def same_fields_def)

lemma joined_trans: "joined s bs s' bs' \<Longrightarrow> joined s' bs' s'' bs'' \<Longrightarrow> joined s bs s'' bs''"
  by (auto simp: joined_def intro: same_fields_trans)

lemma join_joined:
  assumes lo: "laid_out s (us @ (g, False) # (g', False) # vs)"
  shows "joined s (us @ (g, False) # (g', False) # vs)
    (join (heap_ptr s + total us) (heap_ptr s + total us + g) s) (us @ (g + g', False) # vs)"
    and "used (item (heap_ptr s + total us) (join (heap_ptr s + total us) (heap_ptr s + total us + g) s)) = 0"
    and "used (item (heap_ptr s + total us + g) (join (heap_ptr s + total us) (heap_ptr s + total us + g) s)) = 0"
proof -
  let ?bs = "us @ (g, False) # (g', False) # vs" and ?bs' = "us @ (g + g', False) # vs"
  define p where "p = heap_ptr s + total us"
  define q where "q = heap_ptr s + total us + g"
  define t where "t = (if lfree s = q then s\<lparr>lfree := p\<rparr> else s)"
  define s' where "s' = join p q s"
  note b = laid_out_block [OF lo]
  from lo have "laid_out s ((us @ [(g, False)]) @ (g', False) # vs)" by simp
  note c = laid_out_block [OF this, simplified]
  have lt: "laid_out t ?bs" using lo by (simp add: t_def)
  have t: "heap_ptr t = heap_ptr s" "same_fields s t" by (simp_all add: t_def same_fields_def)
  have items: "item x t = item x s" for x by (simp add: t_def)
  have s': "s' = set_item (q + g') (prev_item_update (\<lambda>_. size32 (total us)))
      (set_item p (next_item_update (\<lambda>_. next_item (item q t))) t)"
    using b(2,6,7) c(2,5,6,7,8,9) t(1)
    by (simp add: s'_def join_def Let_def items p_def q_def add.assoc t_def at_def offset_of_def)
  note j = join_laid_out [OF lt, unfolded t(1), folded p_def q_def, folded s']
  have "same_data t s' 0 us" "same_data t s' (total us + g + g') vs" using j by simp_all
  then have "live s' (cells 0 us) = live s (cells 0 us)"
      "live s' (cells (total us + g + g') vs) = live s (cells (total us + g + g') vs)"
    using t(1) by (auto simp: t_def live_def buffer_def dest!: live_same_data)
  then have live: "live s' (cells 0 ?bs') = live s (cells 0 ?bs)"
    by (simp add: live_append add.assoc)
  have lf: "lfree s' = (if lfree s = q then p else lfree s)" by (simp add: s' t_def)
  have hp: "heap_ptr s' = heap_ptr s" using j(4) t(1) by (simp add: same_fields_def)
  have g: "0 < g" "0 < g'" using b(2) c(2) by simp_all
  have pf: "is_free ?bs' (total us)" unfolding is_free_def by (rule exI [of _ "g + g'"]) simp
  have ok: "lfree_ok s' ?bs'" if "lfree_ok s ?bs"
  proof (cases "lfree s = q")
    case True
    with lf hp pf show ?thesis by (auto simp: lfree_ok_def p_def)
  next
    case False
    with that obtain f where "lfree s = heap_ptr s + f" "f = total ?bs \<or> is_free ?bs f"
      by (auto simp: lfree_ok_def)
    with False is_free_join [OF g, of us vs f] show ?thesis
      by (auto simp: lfree_ok_def lf hp q_def add.assoc)
  qed
  have "lfree_low s' ?bs'" if "lfree_low s ?bs"
    using that g by (auto simp: lfree_low_def lf hp is_free_join p_def q_def)
  with ok live j(1,4) t(2) have "joined s ?bs s' ?bs'"
    by (auto simp: joined_def intro: same_fields_trans)
  then show "joined s ?bs (join (heap_ptr s + total us) (heap_ptr s + total us + g) s) ?bs'"
    unfolding s'_def p_def q_def .
  have "used (item p s') = 0" "used (item q s') = 0"
    using b(1,2) c(1,2) by (simp_all add: s' items p_def q_def add.assoc)
  then show "used (item (heap_ptr s + total us) (join (heap_ptr s + total us) (heap_ptr s + total us + g) s)) = 0"
    and "used (item (heap_ptr s + total us + g) (join (heap_ptr s + total us) (heap_ptr s + total us + g) s)) = 0"
    unfolding s'_def p_def q_def .
qed

lemma plug_forward_spec:
  assumes lo: "laid_out s (us @ (g, False) # vs)" and nh: "no_holes vs"
  shows "\<exists>G vs'. joined s (us @ (g, False) # vs) (plug_forward (heap_ptr s + total us) s) (us @ (G, False) # vs') \<and>
    no_holes ((G, False) # vs') \<and> (\<exists>va. vs = va @ vs' \<and> G = g + total va \<and> (\<forall>c \<in> set va. \<not> snd c)) \<and>
    used (item (heap_ptr s + total us) (plug_forward (heap_ptr s + total us) s)) = 0"
proof (cases vs)
  note b = laid_out_block [OF lo]
  note d = laid_outD [OF lo]
  {
    case Nil
    then have "plug_forward (heap_ptr s + total us) s = s"
      using b d by (simp add: plug_forward_join add.assoc)
    with Nil lo show ?thesis by (intro exI [of _ g] exI [of _ "[]"]) (simp add: joined_refl b(1))
  next
    case (Cons v ws)
    obtain g' u' where v: "v = (g', u')" by (cases v)
    from lo Cons v have "laid_out s ((us @ [(g, False)]) @ (g', u') # ws)" by simp
    note c = laid_out_block [OF this, simplified]
    show ?thesis
    proof (cases u')
      case True
      have "used (item (heap_ptr s + total us + g) s) = 1" using c(1) True by (simp add: add.assoc)
      then have "plug_forward (heap_ptr s + total us) s = s"
        using b by (simp add: plug_forward_join add.assoc)
      with lo nh Cons v True show ?thesis
        by (intro exI [of _ g] exI [of _ vs]) (simp add: joined_refl b(1))
    next
      case False
      have "used (item (heap_ptr s + total us + g) s) = 0" using c(1) False by (simp add: add.assoc)
      then have "plug_forward (heap_ptr s + total us) s = join (heap_ptr s + total us) (heap_ptr s + total us + g) s"
        using b(2,8,9) c(2,4) by (simp add: plug_forward_join add.assoc)
      moreover have "no_holes ((g + g', False) # ws)"
        using nh Cons v False by (cases ws) simp_all
      ultimately show ?thesis
        using join_joined [of s us g g' ws] lo Cons v False
        by (intro exI [of _ "g + g'"] exI [of _ ws]) auto
    qed
  }
qed

lemma plug_backward_spec:
  assumes lo: "laid_out s (us @ (g, False) # vs)" and nh: "no_holes us" and nv: "no_holes ((g, False) # vs)"
  shows "\<exists>us' G. joined s (us @ (g, False) # vs) (plug_backward (heap_ptr s + total us) s) (us' @ (G, False) # vs) \<and>
    no_holes (us' @ (G, False) # vs) \<and> (\<exists>ua. us = us' @ ua \<and> G = total ua + g \<and> (\<forall>c \<in> set ua. \<not> snd c)) \<and>
    used (item (heap_ptr s + total us) (plug_backward (heap_ptr s + total us) s)) = 0"
proof (cases us rule: rev_cases)
  note b = laid_out_block [OF lo]
  {
    case Nil
    then have "plug_backward (heap_ptr s + total us) s = s"
      using b by (simp add: plug_backward_join)
    with Nil lo nv b(1) show ?thesis by (intro exI [of _ "[]"] exI [of _ g]) (simp add: joined_refl)
  next
    case (snoc ws v)
    obtain g0 u0 where v: "v = (g0, u0)" by (cases v)
    from lo snoc v have lo': "laid_out s (ws @ (g0, u0) # (g, False) # vs)" by simp
    note c = laid_out_block [OF lo']
    have pv: "at (prev_of (heap_ptr s + total us) s) s = heap_ptr s + total ws"
      using b(1,4) c(4,6) snoc v laid_outD [OF lo] by simp
    show ?thesis
    proof (cases u0)
      case True
      then have "plug_backward (heap_ptr s + total us) s = s"
        using c(1) by (simp add: plug_backward_join pv)
      with lo nh nv b(1) snoc v True show ?thesis
        by (intro exI [of _ us] exI [of _ g]) (simp add: joined_refl)
    next
      case False
      then have "plug_backward (heap_ptr s + total us) s =
          join (heap_ptr s + total ws) (heap_ptr s + total ws + g0) s"
        unfolding plug_backward_join pv using c(1,2) snoc v by (simp add: add.assoc)
      moreover have "no_holes (ws @ (g0 + g, False) # vs)"
      proof -
        have "no_holes ((g0 + g, False) # vs)" using nv by (cases vs) simp_all
        with nh snoc v False show ?thesis by auto
      qed
      ultimately show ?thesis
        using join_joined [of s ws g0 g vs] lo' snoc v False
        by (intro exI [of _ ws] exI [of _ "g0 + g"]) (auto simp: add.assoc)
    qed
  }
qed

text \<open>\<^verbatim>\<open>plug_holes\<close> on a block that has just become free: no assertion fails, and no two free blocks are left neighbours.\<close>

lemma plug_holes_spec:
  assumes lo: "laid_out s (us @ (g, False) # vs)" and nu: "no_holes us" and nv: "no_holes vs"
  shows "\<exists>s' us' G vs'. plug_holes (heap_ptr s + total us) s = Inr s' \<and>
    joined s (us @ (g, False) # vs) s' (us' @ (G, False) # vs') \<and> no_holes (us' @ (G, False) # vs') \<and>
    (\<exists>ua. us = us' @ ua \<and> (\<forall>c \<in> set ua. \<not> snd c)) \<and> (\<exists>va. vs = va @ vs' \<and> (\<forall>c \<in> set va. \<not> snd c)) \<and>
    used (item (heap_ptr s + total us) s') = 0"
proof -
  let ?p = "heap_ptr s + total us"
  note b = laid_out_block [OF lo]
  from plug_forward_spec [OF lo nv] obtain G vs' va where f:
      "joined s (us @ (g, False) # vs) (plug_forward ?p s) (us @ (G, False) # vs')"
      "no_holes ((G, False) # vs')" "vs = va @ vs'" "\<forall>c \<in> set va. \<not> snd c" by blast
  then have lo': "laid_out (plug_forward ?p s) (us @ (G, False) # vs')"
    and hp: "heap_ptr (plug_forward ?p s) = heap_ptr s" by (auto simp: joined_def same_fields_def)
  from plug_backward_spec [OF lo' nu f(2)] obtain us' G' ua where r:
      "joined (plug_forward ?p s) (us @ (G, False) # vs') (plug_backward ?p (plug_forward ?p s)) (us' @ (G', False) # vs')"
      "no_holes (us' @ (G', False) # vs')" "us = us' @ ua" "\<forall>c \<in> set ua. \<not> snd c"
      "used (item ?p (plug_backward ?p (plug_forward ?p s))) = 0"
    unfolding hp by blast
  have "plug_holes ?p s = Inr (plug_backward ?p (plug_forward ?p s))"
    using b(1,2,4) by (simp add: plug_holes_def rt_assert_def)
  with joined_trans [OF f(1) r(1)] r f show ?thesis by blast
qed

end
