(* ===== verification/Mem_Sound.thy ===== *)
theory Mem_Sound
  imports Mem_Plug
begin

text \<open>
  The heap keeps its invariant and does to the map of buffers what its functions promise: a block that is
  allocated is new, one that is freed goes, and no call touches what another client holds.
\<close>

section \<open>The invariant\<close>

definition heap_inv :: "heap \<Rightarrow> blocks \<Rightarrow> bool" where
  "heap_inv s bs \<longleftrightarrow> laid_out s bs \<and> no_holes bs \<and> lfree_ok s bs \<and> used_mem s = used_total bs \<and>
     used_mem s \<le> max_mem s \<and> max_mem s \<le> total bs \<and> heap_sem s = rt_sem_init 1"

definition block_list :: "heap \<Rightarrow> blocks" where
  "block_list s = map snd (heap_blocks s)"

definition heap_ok :: "heap \<Rightarrow> bool" where
  "heap_ok s \<longleftrightarrow> heap_inv s (block_list s)"

text \<open>The heap as long as nobody has made a block smaller: \<^verbatim>\<open>lfree\<close> is the lowest free block.\<close>

definition heap_low :: "heap \<Rightarrow> bool" where
  "heap_low s \<longleftrightarrow> lfree_low s (block_list s)"

lemma map_snd_cells [simp]: "map snd (cells off bs) = bs"
  by (induction off bs rule: cells.induct) simp_all

lemma block_list_eq: "laid_out s bs \<Longrightarrow> block_list s = bs"
  by (simp add: block_list_def heap_blocks_cells)

lemma heap_okI: "heap_inv s bs \<Longrightarrow> heap_ok s"
  by (auto simp: heap_ok_def block_list_eq heap_inv_def)

lemma heap_invD:
  assumes "heap_inv s bs"
  shows "laid_out s bs" "no_holes bs" "lfree_ok s bs" "used_mem s = used_total bs" "used_mem s \<le> max_mem s"
    "max_mem s \<le> total bs" "heap_sem s = rt_sem_init 1" "buffers s = live s (cells 0 bs)" "block_list s = bs"
  using assms by (auto simp: heap_inv_def buffers_def heap_blocks_cells block_list_eq)

lemma heap_lock_free [simp]: "heap_sem s = rt_sem_init 1 \<Longrightarrow> heap_lock s = Inr (s\<lparr>heap_sem := rt_sem_init 0\<rparr>)"
  by (simp add: heap_lock_def rt_sem_take_def rt_sem_init_def)

lemma heap_unlock_taken: "heap_sem s = rt_sem_init 0 \<Longrightarrow> heap_unlock s = s\<lparr>heap_sem := rt_sem_init 1\<rparr>"
  by (simp add: heap_unlock_def rt_sem_release_def rt_sem_init_def)

lemma heap_unlock_sel [simp]:
  "heap_ptr (heap_unlock s) = heap_ptr s" "heap_end (heap_unlock s) = heap_end s" "lfree (heap_unlock s) = lfree s"
  "mem_size_aligned (heap_unlock s) = mem_size_aligned s" "used_mem (heap_unlock s) = used_mem s"
  "max_mem (heap_unlock s) = max_mem s" "mem_ram (heap_unlock s) = mem_ram s" "item p (heap_unlock s) = item p s"
  by (simp_all add: heap_unlock_def item_def)

lemma lfree_ok_cong: "lfree s' = lfree s \<Longrightarrow> heap_ptr s' = heap_ptr s \<Longrightarrow> lfree_ok s' bs = lfree_ok s bs"
  by (simp add: lfree_ok_def)

lemma lfree_low_cong: "lfree s' = lfree s \<Longrightarrow> heap_ptr s' = heap_ptr s \<Longrightarrow> lfree_low s' bs = lfree_low s bs"
  by (simp add: lfree_low_def)

lemma live_sel_upd [simp]:
  "live (s\<lparr>lfree := a\<rparr>) cs = live s cs" "live (s\<lparr>heap_sem := m\<rparr>) cs = live s cs"
  "live (s\<lparr>used_mem := b\<rparr>) cs = live s cs" "live (s\<lparr>max_mem := c\<rparr>) cs = live s cs"
  by (simp_all add: live_def)

text \<open>A pointer that is live names a block of the list.\<close>

lemma buffers_block:
  assumes "heap_inv s bs" and "buffers s p = Some cs"
  obtains us g vs where "bs = us @ (g, True) # vs" and "p = heap_ptr s + total us + 12"
    and "cs = buffer s (total us) g"
proof -
  from assms have "live s (cells 0 bs) p = Some cs" by (simp add: heap_invD)
  then obtain o1 g where "(o1, g, True) \<in> set (cells 0 bs)" "p = heap_ptr s + o1 + 12" "cs = buffer s o1 g"
    unfolding live_def by (auto dest!: map_of_SomeD)
  with that cells_split [of o1 g True 0 bs] show ?thesis by auto
qed

text \<open>Taking one block out of the list takes its pointer out of the map.\<close>

lemma live_middle:
  assumes "layout t pv 0 us" and "layout t' pv' (total us + g) vs" and "12 \<le> g"
  shows "live s (cells 0 (us @ (g, True) # vs)) =
    (live s (cells (total us + g) vs) ++ live s (cells 0 us))(heap_ptr s + total us + 12 \<mapsto> buffer s (total us) g)"
    and "(live s (cells (total us + g) vs) ++ live s (cells 0 us)) (heap_ptr s + total us + 12) = None"
proof -
  let ?p = "heap_ptr s + total us + 12"
  have u: "live s (cells 0 us) ?p = None" by (rule live_outside [OF assms(1)]) simp
  have "live s (cells (total us + g) vs) ?p = None" using assms(3) by (intro live_outside [OF assms(2)]) simp
  with u show "(live s (cells (total us + g) vs) ++ live s (cells 0 us)) ?p = None"
    by (simp add: map_add_None)
  show "live s (cells 0 (us @ (g, True) # vs)) =
      (live s (cells (total us + g) vs) ++ live s (cells 0 us))(?p \<mapsto> buffer s (total us) g)"
  proof
    fix x
    show "live s (cells 0 (us @ (g, True) # vs)) x =
      ((live s (cells (total us + g) vs) ++ live s (cells 0 us))(?p \<mapsto> buffer s (total us) g)) x"
      using u by (cases "x = ?p") (simp_all add: live_append map_add_def split: option.split)
  qed
qed

section \<open>rt_free\<close>

text \<open>The use mark of one block is written.\<close>

lemma laid_out_mark:
  assumes lo: "laid_out s (us @ (g, u) # vs)"
    and f: "f (item (heap_ptr s + total us) s) = (item (heap_ptr s + total us) s)\<lparr>used := of_bool u'\<rparr>"
  defines "s' \<equiv> set_item (heap_ptr s + total us) f s"
  shows "laid_out s' (us @ (g, u') # vs)" "same_data s s' 0 us" "same_data s s' (total us + g) vs"
    "buffer s' (total us) g = buffer s (total us) g" "same_fields s s'" "lfree s' = lfree s"
proof -
  note b = laid_out_block [OF lo] and d = laid_outD [OF lo, simplified]
  have "layout s' 0 0 us" unfolding s'_def using b by (intro layout_set_other) auto
  moreover have "layout s' (total us) (total us + g) vs"
    unfolding s'_def using b by (intro layout_set_other) auto
  ultimately have "layout s' 0 0 (us @ (g, u') # vs)"
    using b(1-3) f by (simp add: s'_def)
  moreover have "item (heap_ptr s + (total us + (g + total vs))) s' = item (heap_ptr s + (total us + (g + total vs))) s"
    using b(2) by (simp add: s'_def)
  ultimately show "laid_out s' (us @ (g, u') # vs)" using d by (simp add: laid_out_def s'_def)
  show "same_data s s' 0 us" "same_data s s' (total us + g) vs"
    unfolding s'_def using b(2) by (auto intro!: same_data_set_item)
  show "buffer s' (total us) g = buffer s (total us) g"
    unfolding s'_def by (rule buffer_set_item) simp
  show "same_fields s s'" "lfree s' = lfree s" by (simp_all add: s'_def same_fields_def)
qed

lemma is_free_mark:
  "is_free (us @ (g, False) # vs) f \<longleftrightarrow> is_free (us @ (g, True) # vs) f \<or> f = total us"
  by (auto simp: is_free_def)

lemma rt_free_spec:
  assumes inv: "heap_inv s (us @ (g, True) # vs)"
  defines "rmem \<equiv> heap_ptr s + total us + 12"
  shows "\<exists>s' bs'. rt_free rmem s = Inr s' \<and> heap_inv s' bs' \<and> buffers s' = (buffers s)(rmem := None) \<and>
    used_mem s' = used_mem s - g \<and> max_mem s' = max_mem s \<and> heap_ptr s' = heap_ptr s \<and>
    mem_size_aligned s' = mem_size_aligned s \<and> used (item (heap_ptr s + total us) s') = 0 \<and>
    (lfree_low s (us @ (g, True) # vs) \<longrightarrow> lfree_low s' bs')"
proof -
  let ?bs = "us @ (g, True) # vs" and ?hs = "us @ (g, False) # vs"
  define p where "p = heap_ptr s + total us"
  note i = heap_invD [OF inv]
  note b = laid_out_block [OF i(1), folded p_def] and d = laid_outD [OF i(1)]
  define f where "f = (\<lambda>h :: heap_mem. h\<lparr>used := 0, magic := HEAP_MAGIC\<rparr>)"
  define s0 where "s0 = s\<lparr>heap_sem := rt_sem_init 0\<rparr>"
  define t where "t = set_item p f s0"
  define v where "v = (if p < lfree t then t\<lparr>lfree := p\<rparr> else t)\<lparr>used_mem := used_mem s - g\<rparr>"
  have lo0: "laid_out s0 ?bs" using i(1) by (simp add: s0_def)
  have p0: "heap_ptr s0 + total us = p" by (simp add: s0_def p_def)
  have "f (item p s0) = (item p s0)\<lparr>used := of_bool False\<rparr>" using b(1) by (simp add: f_def s0_def)
  note m = laid_out_mark [where f = f and u' = False, OF lo0, unfolded p0, OF this, folded t_def]
  have mm: "laid_out t ?hs" "same_data s t 0 us" "same_data s t (total us + g) vs" "lfree t = lfree s"
      "heap_ptr t = heap_ptr s" "heap_sem t = rt_sem_init 0" "max_mem t = max_mem s"
      "mem_size_aligned t = mem_size_aligned s"
    using m by (simp_all add: same_fields_def s0_def) (simp_all add: same_data_def)
  have lv: "laid_out v ?hs" using mm(1) by (simp add: v_def)
  have vsel: "heap_ptr v = heap_ptr s" "heap_sem v = rt_sem_init 0" "used_mem v = used_mem s - g" "max_mem v = max_mem s"
      "lfree v = min p (lfree s)" "mem_size_aligned v = mem_size_aligned s"
    using mm by (auto simp: v_def)
  have livev: "live v (cells 0 ?hs) = (buffers s)(rmem := None)"
  proof -
    have "live v (cells 0 ?hs) = live s (cells (total us + g) vs) ++ live s (cells 0 us)"
      using mm(2,3) by (simp add: v_def live_append live_same_data)
    then show ?thesis
      using live_middle [of s 0 us s "total us" g vs s] b(2,11,12) i(8)
      by (simp add: rmem_def fun_upd_idem)
  qed
  have lfv: "lfree_ok v ?hs"
  proof (cases "p < lfree s")
    case True
    then show ?thesis
      by (auto simp: lfree_ok_def vsel p_def is_free_mark)
  next
    case False
    from i(3) obtain f where "lfree s = heap_ptr s + f" "f = total ?bs \<or> is_free ?bs f"
      by (auto simp: lfree_ok_def)
    with False show ?thesis by (auto simp: lfree_ok_def vsel is_free_mark)
  qed
  have low: "lfree_low v ?hs" if "lfree_low s ?bs"
    using that by (auto simp: lfree_low_def vsel is_free_mark p_def)
  have "no_holes us" "no_holes vs" using i(2) by (auto dest: no_holes_ConsD)
  from plug_holes_spec [OF lv this] obtain s' us' G vs' where h:
      "plug_holes (heap_ptr s + total us) v = Inr s'" "joined v ?hs s' (us' @ (G, False) # vs')"
      "no_holes (us' @ (G, False) # vs')" "used (item (heap_ptr s + total us) s') = 0" unfolding vsel by blast
  let ?bs' = "us' @ (G, False) # vs'"
  define r where "r = heap_unlock s'"
  have s': "laid_out s' ?bs'" "same_fields v s'" "live s' (cells 0 ?bs') = live v (cells 0 ?hs)" "used_total ?bs' = used_total ?hs"
      "lfree_ok s' ?bs'" "lfree_low v ?hs \<Longrightarrow> lfree_low s' ?bs'"
    using h(2) lfv by (auto simp: joined_def)
  have r: "r = s'\<lparr>heap_sem := rt_sem_init 1\<rparr>"
    using s'(2) vsel by (simp add: r_def heap_unlock_taken same_fields_def)
  have tot: "total ?bs' = total ?hs" using laid_outD(2) [OF s'(1)] laid_outD(2) [OF lv] s'(2) by (simp add: same_fields_def)
  have "heap_inv r ?bs'"
    unfolding heap_inv_def
  proof (intro conjI)
    show "laid_out r ?bs'" "no_holes ?bs'" using s'(1) h(3) by (simp_all add: r)
    show "lfree_ok r ?bs'" using s'(5) by (simp add: r lfree_ok_def)
    show "used_mem r = used_total ?bs'" using s'(2,4) vsel i(4) by (simp add: r same_fields_def)
    show "used_mem r \<le> max_mem r" using s'(2) vsel i(5) by (simp add: r same_fields_def)
    show "max_mem r \<le> total ?bs'" using s'(2) vsel i(6) tot by (simp add: r same_fields_def)
    show "heap_sem r = rt_sem_init 1" by (simp add: r)
  qed
  moreover have "buffers r = (buffers s)(rmem := None)"
    using heap_invD(8) [OF \<open>heap_inv r ?bs'\<close>] s'(3) livev by (simp add: r)
  moreover have "lfree_low r ?bs'" if "lfree_low s ?bs"
    using s'(6) [OF low [OF that]] by (simp add: r lfree_low_def)
  moreover have "rt_free rmem s = Inr r"
  proof -
    have sub: "sub32 rmem 12 = p" using b(2,4) d(2,4) by (simp add: rmem_def p_def)
    have used: "used (item p s0) = 1" "magic (item p s0) = HEAP_MAGIC" using b(1) by (simp_all add: s0_def)
    have nx: "next_of p t = total us + g" "offset_of p t = total us"
      using b(1,4) d(2,4) b(7) by (simp_all add: t_def f_def s0_def offset_of_def p_def)
    have um: "sub32 (used_mem s) g = used_mem s - g"
      using i(4) used_total_le [of ?bs] d(4) by (intro sub32_eq) auto
    have g32: "sub32 (total us + g) (total us) = g" using d(4) by (subst sub32_eq) auto
    define n where "n = sub32 (used_mem t) (sub32 (next_of p t) (offset_of p t))"
    have n: "n = used_mem s - g" using um nx m(5) g32 by (simp add: n_def same_fields_def s0_def)
    have "p < lfree s0 \<longrightarrow> t\<lparr>lfree := p, used_mem := n\<rparr> = v" "\<not> p < lfree s0 \<longrightarrow> t\<lparr>used_mem := n\<rparr> = v"
      by (auto simp: v_def n s0_def mm(4))
    moreover have "rmem \<noteq> 0" "rmem mod 4 = 0" "heap_ptr s \<le> rmem" "rmem < heap_end s"
      using b(2,4) d(1) layout_total_mod [OF b(11)] by (auto simp: rmem_def p_def mod_eq_0_iff_dvd)
    ultimately show ?thesis
      using used i(7) h(1) unfolding rt_free_def Let_def sub
      by (simp add: rt_assert_def f_def [symmetric] s0_def [symmetric] t_def [symmetric] n_def [symmetric] r_def p_def [symmetric])
  qed
  ultimately show ?thesis
    using s'(2) vsel h(4) by (intro exI [of _ r] exI [of _ ?bs']) (simp add: r same_fields_def)
qed

end
