(* ===== verification/Mem_Malloc.thy ===== *)
theory Mem_Malloc
  imports Mem_Sound
begin

text \<open>
  Allocation: the search takes the first block from \<^verbatim>\<open>lfree\<close> on that is long enough, the block is cut
  or taken whole, and \<^verbatim>\<open>lfree\<close> moves on to the next free block.
\<close>

section \<open>The two loops\<close>

text \<open>The search over the list of blocks; \<open>lim\<close> is \<^verbatim>\<open>mem_size_aligned\<close>.\<close>

fun first_fit :: "nat \<Rightarrow> nat \<Rightarrow> nat \<Rightarrow> blocks \<Rightarrow> nat option" where
  "first_fit n lim off [] = None"
| "first_fit n lim off ((g, u) # bs) =
     (if off < lim - n
      then if \<not> u \<and> n + 12 \<le> g then Some off else first_fit n lim (off + g) bs
      else None)"

lemma malloc_search_first_fit:
  assumes "layout s pv off bs" and "heap_ptr s + off + total bs + 12 \<le> 2 ^ 32"
    and "mem_size_aligned s + 12 = off + total bs" and "n \<le> mem_size_aligned s"
  shows "length bs < fuel \<Longrightarrow> malloc_search fuel off n s = Inr (first_fit n (mem_size_aligned s) off bs)"
  using assms
proof (induction fuel arbitrary: pv off bs)
  case 0
  then show ?case by simp
next
  case (Suc fuel)
  have sub: "sub32 (mem_size_aligned s) n = mem_size_aligned s - n" using Suc.prems by (intro sub32_eq) auto
  show ?case
  proof (cases bs)
    case Nil
    with Suc.prems have "\<not> off < mem_size_aligned s - n" by simp
    with Nil show ?thesis by (simp add: sub)
  next
    case (Cons b cs)
    obtain g u where b: "b = (g, u)" by (cases b)
    from Suc.prems Cons b have "malloc_search fuel (off + g) n s = Inr (first_fit n (mem_size_aligned s) (off + g) cs)"
      by (intro Suc.IH [of cs off]) auto
    moreover have "at off s = heap_ptr s + off" using Suc.prems by (simp add: at_def)
    moreover have "sub32 (off + g) (off + 12) = g - 12" "add32 off 12 = off + 12"
      using Suc.prems Cons b by (auto simp: sub32_eq)
    ultimately show ?thesis using Suc.prems Cons b by (auto simp: sub le_diff_conv2)
  qed
qed

lemma first_fit_Some:
  "first_fit n lim off bs = Some o1 \<Longrightarrow> \<exists>us g vs. bs = us @ (g, False) # vs \<and> o1 = off + total us \<and> n + 12 \<le> g \<and>
     (\<forall>(x, h, u) \<in> set (cells off us). \<not> u \<longrightarrow> h < n + 12)"
proof (induction n lim off bs rule: first_fit.induct)
  case (1 n lim off)
  then show ?case by simp
next
  case (2 n lim off g u bs)
  show ?case
  proof (cases "\<not> u \<and> n + 12 \<le> g")
    case True
    with 2(2) have "(g, u) # bs = [] @ (g, False) # bs \<and> o1 = off + total [] \<and> n + 12 \<le> g \<and>
        (\<forall>(x, h, u) \<in> set (cells off []). \<not> u \<longrightarrow> h < n + 12)" by (simp split: if_splits)
    then show ?thesis by blast
  next
    case False
    with 2 obtain us g' vs where "bs = us @ (g', False) # vs \<and> o1 = off + g + total us \<and> n + 12 \<le> g' \<and>
        (\<forall>(x, h, u) \<in> set (cells (off + g) us). \<not> u \<longrightarrow> h < n + 12)" by (auto split: if_splits)
    with False have "(g, u) # bs = ((g, u) # us) @ (g', False) # vs \<and> o1 = off + total ((g, u) # us) \<and> n + 12 \<le> g' \<and>
        (\<forall>(x, h, u) \<in> set (cells off ((g, u) # us)). \<not> u \<longrightarrow> h < n + 12)" by auto
    then show ?thesis by blast
  qed
qed

lemma first_fit_None:
  "first_fit n lim off bs = None \<Longrightarrow> (o1, g, False) \<in> set (cells off bs) \<Longrightarrow> o1 < lim - n \<Longrightarrow> g < n + 12"
proof (induction n lim off bs rule: first_fit.induct)
  case (1 n lim off)
  then show ?case by simp
next
  case (2 n lim off g' u bs)
  from cells_bounds [OF 2(3)] 2(4) have "off < lim - n" by simp
  with 2 show ?case by (auto split: if_splits)
qed

text \<open>The other loop passes over the blocks in use.\<close>

lemma lfree_advance_skips:
  assumes "layout s pv off bs" and "heap_end s = heap_ptr s + off + total bs" and "heap_end s < 2 ^ 32"
    and "lfree s = heap_ptr s + off" 
  shows "length bs < fuel \<Longrightarrow> lfree_advance fuel s = Inr (s\<lparr>lfree := heap_ptr s + off + total (takeWhile snd bs)\<rparr>)"
  using assms
proof (induction fuel arbitrary: pv off bs s)
  case 0
  then show ?case by simp
next
  case (Suc fuel)
  show ?case
  proof (cases bs)
    case Nil
    with Suc.prems show ?thesis by simp
  next
    case (Cons b cs)
    obtain g u where b: "b = (g, u)" by (cases b)
    show ?thesis
    proof (cases u)
      case True
      let ?t = "s\<lparr>lfree := heap_ptr s + (off + g)\<rparr>"
      from Suc.prems Cons b have "lfree_advance fuel ?t =
          Inr (?t\<lparr>lfree := heap_ptr ?t + (off + g) + total (takeWhile snd cs)\<rparr>)"
        by (intro Suc.IH [of cs _ off]) auto
      moreover have "at (off + g) s = heap_ptr s + (off + g)" using Suc.prems Cons b by (simp add: at_def)
      ultimately show ?thesis using Suc.prems Cons b True by (auto simp: add.assoc)
    next
      case False
      with Suc.prems Cons b show ?thesis by simp
    qed
  qed
qed

lemma takeWhile_lowest:
  "(f, g, False) \<in> set (cells off bs) \<Longrightarrow> off + total (takeWhile snd bs) \<le> f"
  by (induction off bs rule: cells.induct) (auto simp: add.assoc [symmetric] dest: cells_bounds)

lemma takeWhile_free:
  "total (takeWhile snd bs) = total bs \<or> (\<exists>g. (off + total (takeWhile snd bs), g, False) \<in> set (cells off bs))"
  by (induction off bs rule: cells.induct) (auto simp: add.assoc)

section \<open>Cutting a block\<close>

lemma set_item_commute:
  assumes "p + 12 \<le> q"
  shows "set_item p f (set_item q f' s) = set_item q f' (set_item p f s)"
proof -
  have ram: "store_item p h (store_item q h' r) = store_item q h' (store_item p h r)" for h h' r
    using assms by (auto simp: store_item_def store32_def store16_def fun_eq_iff)
  have "item p (set_item q f' s) = item p s" "item q (set_item p f s) = item q s"
    using assms by simp_all
  with ram show ?thesis by (simp add: set_item_def)
qed

lemma link_back_commute:
  assumes "p + 12 \<le> at x s" and "p + 12 \<le> at (next_of (at x s) s) s"
  shows "link_back x (set_item p f s) = set_item p f (link_back x s)"
  using assms(1) set_item_commute [OF assms(2)] by (simp add: link_back_def Let_def)

lemma split_laid_out:
  assumes lo: "laid_out s (us @ (g, u) # vs)" and n: "4 \<le> n" "n mod 4 = 0" "n + 28 \<le> g"
  defines "p \<equiv> heap_ptr s + total us" and "x \<equiv> total us + 12 + n"
  defines "s' \<equiv> link_back x (split_block p x s)"
  shows "laid_out s' (us @ (n + 12, u) # (g - n - 12, False) # vs)"
    and "same_data s s' 0 us" and "same_data s s' (total us + g) vs"
    and "buffer s' (total us) (n + 12) = take n (buffer s (total us) g)"
    and "same_fields s s'" and "lfree s' = lfree s"
    and "link_back x (set_item p f (split_block p x s)) = set_item p f s'"
proof -
  note b = laid_out_block [OF lo] and d = laid_outD [OF lo, simplified]
  define h where "h = \<lparr>magic = HEAP_MAGIC, used = 0, next_item = size32 (total us + g), prev_item = size32 (total us)\<rparr>"
  define t where "t = set_item p (next_item_update (\<lambda>_. size32 x)) (set_item (heap_ptr s + x) (\<lambda>_. h) s)"
  have ax: "at x s = heap_ptr s + x" using b(5) n by (simp add: at_def x_def)
  have t: "split_block p x s = t"
    using b(1,7) ax by (simp add: split_block_def Let_def t_def h_def p_def)
  have tx: "item (heap_ptr s + x) t = h" using n by (simp add: t_def p_def x_def)
  have tsel: "heap_ptr t = heap_ptr s" "same_fields s t" "lfree t = lfree s" "mem_size_aligned t = mem_size_aligned s"
    by (simp_all add: t_def same_fields_def)
  have nx: "next_of (heap_ptr s + x) t = total us + g" using tx b(5) by (simp add: h_def)
  have at: "at x t = heap_ptr s + x" "at (total us + g) t = heap_ptr s + (total us + g)"
    using ax b(5) by (simp_all add: at_def tsel)
  have msz: "add32 (mem_size_aligned s) 12 = total us + (g + total vs)" using d(3,4) by simp
  define s1 where "s1 = set_item (heap_ptr s + (total us + g)) (prev_item_update (\<lambda>_. size32 x)) t"
  have vs: "vs = [] \<longleftrightarrow> total vs = 0" using b(12) by (cases vs) auto
  have s': "s' = (if vs = [] then t else s1)"
    using vs by (simp add: s'_def t link_back_def Let_def at nx tsel msz s1_def)
  have it: "item (heap_ptr s + total us) s' = \<lparr>magic = HEAP_MAGIC, used = of_bool u, next_item = size32 x,
      prev_item = size32 (end_prev 0 0 us)\<rparr>" "item (heap_ptr s + x) s' = h"
    using b(1) tx n by (auto simp: s' s1_def t_def p_def x_def)
  have l1: "layout s' 0 0 us"
    unfolding s' s1_def t_def p_def x_def using b(11) by (auto intro!: layout_set_other)
  have l2: "layout t (total us) (total us + g) vs"
    unfolding t_def p_def x_def using b(2,12) n by (auto intro!: layout_set_other)
  then have l3: "layout s1 x (total us + g) vs"
    unfolding s1_def by (rule layout_set_prev) (simp add: tsel)
  have l4: "layout s' x (total us + g) vs" using l2 l3 by (simp add: s')
  have sel: "heap_ptr s' = heap_ptr s" "mem_size_aligned s' = mem_size_aligned s" "heap_end s' = heap_end s"
    by (simp_all add: s' s1_def t_def)
  have m: "(g - n - 12) mod 4 = 0" "(n + 12) mod 4 = 0" using b(3) n by presburger+
  have "layout s' 0 0 (us @ (n + 12, u) # (g - n - 12, False) # vs)"
    using l1 l4 it m n by (simp add: sel x_def h_def add.assoc [symmetric]) (simp add: ac_simps)
  moreover have "item (heap_ptr s + (total us + (g + total vs))) s' = item (heap_ptr s + (total us + (g + total vs))) s"
  proof (cases "vs = []")
    case True
    with n show ?thesis by (simp add: s' t_def p_def x_def)
  next
    case False
    then have "16 \<le> total vs" using b(12) by (cases vs) auto
    with n False show ?thesis by (simp add: s' s1_def t_def p_def x_def)
  qed
  ultimately show "laid_out s' (us @ (n + 12, u) # (g - n - 12, False) # vs)"
    using d n by (simp add: laid_out_def sel)
  show "same_data s s' 0 us"
    unfolding s' s1_def t_def p_def x_def by (auto intro!: same_data_set_item)
  show "same_data s s' (total us + g) vs"
    unfolding s' s1_def t_def p_def x_def using n by (auto intro!: same_data_set_item)
  show "same_fields s s'" "lfree s' = lfree s" by (simp_all add: s' s1_def t_def same_fields_def)
  have "buffer s' (total us) (n + 12) = buffer s (total us) (n + 12)"
    unfolding s' s1_def t_def p_def x_def using n by (auto simp: buffer_set_item)
  also have "\<dots> = take n (buffer s (total us) g)"
    using n by (simp add: buffer_def take_map min_def ac_simps)
  finally show "buffer s' (total us) (n + 12) = take n (buffer s (total us) g)" .
  show "link_back x (set_item p f (split_block p x s)) = set_item p f s'"
    unfolding s'_def t by (rule link_back_commute) (use b(2) n in \<open>simp_all only: at nx, simp_all add: p_def x_def\<close>)
qed

section \<open>Taking a block\<close>

text \<open>What becomes of a free block of length \<open>g\<close> from which \<open>n\<close> bytes are asked.\<close>

definition taken :: "nat \<Rightarrow> nat \<Rightarrow> blocks" where
  "taken n g = (if n + 36 \<le> g then [(n + 12, True), (g - n - 12, False)] else [(g, True)])"

definition taken_len :: "nat \<Rightarrow> nat \<Rightarrow> nat" where
  "taken_len n g = (if n + 36 \<le> g then n + 12 else g)"

lemma total_taken [simp]: "n + 12 \<le> g \<Longrightarrow> total (taken n g) = g"
  by (simp add: taken_def)

lemma used_total_taken [simp]: "used_total (taken n g) = taken_len n g"
  by (simp add: taken_def taken_len_def)

lemma taken_shape: "n + 12 \<le> g \<Longrightarrow> \<exists>rest. taken n g = (taken_len n g, True) # rest \<and>
    (rest = [] \<or> rest = [(g - taken_len n g, False)])"
  by (auto simp: taken_def taken_len_def)

lemma count_used_eq:
  "used_mem s + n < 2 ^ 32 \<Longrightarrow>
     count_used n s = s\<lparr>used_mem := used_mem s + n, max_mem := max (max_mem s) (used_mem s + n)\<rparr>"
  by (cases s) (auto simp: count_used_def Let_def)

text \<open>The two branches up to the use mark.\<close>

definition take_mark :: "nat \<Rightarrow> nat \<Rightarrow> nat \<Rightarrow> heap \<Rightarrow> heap" where
  "take_mark p n g s =
     (if n + 36 \<le> g then link_back (offset_of p s + 12 + n) (set_item p (used_update (\<lambda>_. 1)) (split_block p (offset_of p s + 12 + n) s))
      else set_item p (used_update (\<lambda>_. 1)) s)"

lemma take_mark_laid_out:
  assumes lo: "laid_out s (us @ (g, False) # vs)" and n: "12 \<le> n" "n mod 4 = 0" "n + 12 \<le> g"
  defines "p \<equiv> heap_ptr s + total us"
  defines "s' \<equiv> take_mark p n g s"
  shows "laid_out s' (us @ taken n g @ vs)" "same_data s s' 0 us" "same_data s s' (total us + g) vs" "same_fields s s'"
    "lfree s' = lfree s" "buffer s' (total us) (taken_len n g) = take (taken_len n g - 12) (buffer s (total us) g)"
proof -
  note b = laid_out_block [OF lo, folded p_def]
  have "laid_out s' (us @ taken n g @ vs) \<and> same_data s s' 0 us \<and> same_data s s' (total us + g) vs \<and> same_fields s s' \<and>
    lfree s' = lfree s \<and> buffer s' (total us) (taken_len n g) = take (taken_len n g - 12) (buffer s (total us) g)"
  proof (cases "n + 36 \<le> g")
    case True
    define x where "x = total us + 12 + n"
    define t where "t = link_back x (split_block p x s)"
    have s': "s' = set_item p (used_update (\<lambda>_. 1)) t"
      using True split_laid_out(7) [OF lo, of n "used_update (\<lambda>_. 1)"] n b(7)
      by (simp add: s'_def take_mark_def t_def x_def p_def)
    have sp: "laid_out t (us @ (n + 12, False) # (g - n - 12, False) # vs)" "same_data s t 0 us" "same_data s t (total us + g) vs"
      "buffer t (total us) (n + 12) = take n (buffer s (total us) g)" "same_fields s t" "lfree t = lfree s"
      using split_laid_out(1-6) [OF lo, of n] True n unfolding t_def x_def p_def by simp_all
    have hp: "heap_ptr t + total us = p" using sp(5) by (simp add: same_fields_def p_def)
    have "used_update (\<lambda>_. 1) (item p t) = (item p t)\<lparr>used := of_bool True\<rparr>" by simp
    note m = laid_out_mark [where f = "used_update (\<lambda>_. 1)" and u' = True, OF sp(1), unfolded hp, OF this, folded s']
    have "same_data t s' (total us + g) vs" using m(3) True by (simp add: add.assoc)
    with m sp True show ?thesis
      by (auto simp: taken_def taken_len_def intro: same_data_trans same_fields_trans)
  next
    case False
    then have s': "s' = set_item p (used_update (\<lambda>_. 1)) s" by (simp add: s'_def take_mark_def)
    have "used_update (\<lambda>_. 1) (item p s) = (item p s)\<lparr>used := of_bool True\<rparr>" by simp
    note m = laid_out_mark [where f = "used_update (\<lambda>_. 1)" and u' = True, OF lo, folded p_def, OF this, folded s']
    from m False show ?thesis by (simp add: taken_def taken_len_def buffer_def)
  qed
  then show "laid_out s' (us @ taken n g @ vs)" "same_data s s' 0 us" "same_data s s' (total us + g) vs" "same_fields s s'"
    "lfree s' = lfree s" "buffer s' (total us) (taken_len n g) = take (taken_len n g - 12) (buffer s (total us) g)"
    by simp_all
qed

text \<open>The free blocks afterwards: the one taken is gone, a rest may be new.\<close>

lemma not_free_end: "layout s 0 0 us \<Longrightarrow> (total us, g, False) \<notin> set (cells 0 us)"
  using cells_bounds [of "total us" g False 0 us] by (auto dest: layout_gaps)

lemma is_free_taken:
  assumes "n + 12 \<le> g" and "layout s 0 0 us"
  shows "is_free (us @ taken n g @ vs) f \<longleftrightarrow>
    is_free (us @ (g, False) # vs) f \<and> f \<noteq> total us \<or> n + 36 \<le> g \<and> f = total us + taken_len n g"
  using assms(1) not_free_end [OF assms(2)] unfolding is_free_def
  by (auto simp: taken_def taken_len_def add.assoc dest: cells_bounds)

lemma no_holes_taken:
  assumes "no_holes (us @ (g, False) # vs)"
  shows "no_holes (us @ taken n g @ vs)"
proof (cases vs)
  case Nil
  with assms show ?thesis by (auto simp: taken_def)
next
  case (Cons v ws)
  with assms show ?thesis by (auto simp: taken_def)
qed

text \<open>Moving \<^verbatim>\<open>lfree\<close> on from the block that was taken.\<close>

lemma advance_spec:
  assumes lo: "laid_out s (us @ vs)" and lf: "lfree s = heap_ptr s + total us"
  shows "\<exists>k. lfree_advance (heap_fuel s) s = Inr (s\<lparr>lfree := heap_ptr s + k\<rparr>) \<and>
    (heap_ptr s + k = heap_end s \<or> used (item (heap_ptr s + k) s) = 0) \<and>
    (k = total (us @ vs) \<or> is_free (us @ vs) k) \<and>
    (\<forall>f. is_free (us @ vs) f \<and> total us \<le> f \<longrightarrow> k \<le> f)"
proof -
  note d = laid_outD [OF lo]
  define k where "k = total us + total (takeWhile snd vs)"
  have lv: "layout s (end_prev 0 0 us) (total us) vs" and lu: "layout s 0 0 us" using d(6) by simp_all
  have "length vs < heap_fuel s"
    using layout_length [OF d(6)] d(3,5) by (simp add: heap_fuel_def)
  from lfree_advance_skips [OF lv _ _ _ this] d lf
  have adv: "lfree_advance (heap_fuel s) s = Inr (s\<lparr>lfree := heap_ptr s + k\<rparr>)"
    by (simp add: k_def add.assoc)
  have k: "k = total (us @ vs) \<or> is_free (us @ vs) k"
    using takeWhile_free [of vs "total us"] by (auto simp: k_def is_free_def)
  have "heap_ptr s + k = heap_end s \<or> used (item (heap_ptr s + k) s) = 0"
  proof (cases "k = total (us @ vs)")
    case True
    with d(2) show ?thesis by simp
  next
    case False
    with k obtain g where "(k, g, False) \<in> set (cells 0 (us @ vs))" by (auto simp: is_free_def)
    from cells_split [OF this] obtain as bs where "us @ vs = as @ (g, False) # bs" "k = total as" by auto
    with laid_out_block(1) [of s as g False bs] lo show ?thesis by simp
  qed
  moreover have "k \<le> f" if f: "is_free (us @ vs) f" "total us \<le> f" for f
  proof -
    from f(1) obtain g where "(f, g, False) \<in> set (cells 0 us) \<or> (f, g, False) \<in> set (cells (total us) vs)"
      by (auto simp: is_free_def)
    then show ?thesis
    proof
      assume c: "(f, g, False) \<in> set (cells 0 us)"
      then have "16 \<le> g" using layout_gaps [OF lu] cells_bounds by blast
      with c f(2) show ?thesis by (auto dest: cells_bounds)
    next
      assume "(f, g, False) \<in> set (cells (total us) vs)"
      then show ?thesis unfolding k_def by (rule takeWhile_lowest)
    qed
  qed
  ultimately show ?thesis using adv k by blast
qed

text \<open>All of the loop body: the invariant, the new buffer, the count and \<^verbatim>\<open>lfree\<close>.\<close>

lemma malloc_take_spec:
  assumes lo: "laid_out s (us @ (g, False) # vs)" and nh: "no_holes (us @ (g, False) # vs)"
    and lf: "lfree_ok s (us @ (g, False) # vs)" and um: "used_mem s = used_total (us @ (g, False) # vs)"
    and mm: "used_mem s \<le> max_mem s" "max_mem s \<le> total (us @ (g, False) # vs)"
    and sem: "heap_sem s = rt_sem_init 0"
    and n: "12 \<le> n" "n mod 4 = 0" "n + 12 \<le> g"
  defines "p \<equiv> heap_ptr s + total us" and "k \<equiv> taken_len n g"
  shows "\<exists>s'. malloc_take (heap_fuel s) (total us) n s = Inr (p + 12, s') \<and>
    heap_inv s' (us @ taken n g @ vs) \<and> heap_ptr s' = heap_ptr s \<and> mem_size_aligned s' = mem_size_aligned s \<and>
    live s' (cells 0 (us @ taken n g @ vs)) = (live s (cells 0 (us @ (g, False) # vs)))(p + 12 \<mapsto> take (k - 12) (buffer s (total us) g)) \<and>
    live s (cells 0 (us @ (g, False) # vs)) (p + 12) = None \<and>
    used_mem s' = used_mem s + k \<and> max_mem s' = max (max_mem s) (used_mem s + k) \<and>
    (lfree_low s (us @ (g, False) # vs) \<longrightarrow> lfree_low s' (us @ taken n g @ vs))"
proof -
  let ?bs = "us @ (g, False) # vs" and ?bs' = "us @ taken n g @ vs"
  note b = laid_out_block [OF lo, folded p_def] and d = laid_outD [OF lo]
  define t where "t = take_mark p n g s"
  note m = take_mark_laid_out [OF lo n, folded p_def, folded t_def]
  have tsel: "heap_ptr t = heap_ptr s" "heap_end t = heap_end s" "mem_size_aligned t = mem_size_aligned s"
      "heap_sem t = rt_sem_init 0" "used_mem t = used_mem s" "max_mem t = max_mem s"
    using m(4) sem by (simp_all add: same_fields_def)
  have tot: "total ?bs' = total ?bs" using n by simp
  have ut: "used_total ?bs' = used_mem s + k" using um by (simp add: k_def)
  then have uk: "used_mem s + k \<le> total ?bs" using used_total_le [of ?bs'] tot by simp
  then have u32: "used_mem s + k < 2 ^ 32" using d(4) by simp
  define c where "c = t\<lparr>used_mem := used_mem s + k, max_mem := max (max_mem s) (used_mem s + k)\<rparr>"
  have cnt: "count_used k t = c" using u32 by (simp add: c_def count_used_eq tsel)
  define e where "e = set_item p (magic_update (\<lambda>_. HEAP_MAGIC)) c"
  obtain rest where rest: "taken n g = (k, True) # rest" "rest = [] \<or> rest = [(g - k, False)]"
    using taken_shape [OF n(3)] by (auto simp: k_def)
  have loc: "laid_out c (us @ (k, True) # (rest @ vs))" using m(1) rest by (simp add: c_def)
  note bc = laid_out_block [OF loc]
  have hpc: "heap_ptr c + total us = p" by (simp add: c_def tsel p_def)
  have "magic_update (\<lambda>_. HEAP_MAGIC) (item p c) = (item p c)\<lparr>used := of_bool True\<rparr>"
    using bc(1) by (simp add: hpc)
  note me = laid_out_mark [where f = "magic_update (\<lambda>_. HEAP_MAGIC)" and u' = True, OF loc, unfolded hpc, OF this, folded e_def]
  have esel: "heap_ptr e = heap_ptr s" "heap_end e = heap_end s" "mem_size_aligned e = mem_size_aligned s"
      "heap_sem e = rt_sem_init 0" "used_mem e = used_mem s + k" "max_mem e = max (max_mem s) (used_mem s + k)" "lfree e = lfree s"
    using tsel m(5) by (simp_all add: e_def c_def)
  have loe: "laid_out e ?bs'" using me(1) rest by simp
  \<comment> \<open>where \<^verbatim>\<open>lfree\<close> goes\<close>
  obtain w where w: "(if p = lfree e
        then bind_r (lfree_advance (heap_fuel e) e) (\<lambda>s. rt_assert (lfree s = heap_end s \<or> used (item (lfree s) s) = 0) (Inr s))
        else Inr e) = Inr (e\<lparr>lfree := heap_ptr s + w\<rparr>)"
      "w = total ?bs' \<or> is_free ?bs' w" "lfree_low s ?bs \<Longrightarrow> (\<forall>f. is_free ?bs' f \<longrightarrow> w \<le> f)"
  proof (cases "p = lfree s")
    case True
    have lfe: "lfree e = heap_ptr e + total us" using True esel by (simp add: p_def)
    from advance_spec [of e us "taken n g @ vs", OF loe lfe] obtain w where
      w: "lfree_advance (heap_fuel e) e = Inr (e\<lparr>lfree := heap_ptr e + w\<rparr>)"
        "heap_ptr e + w = heap_end e \<or> used (item (heap_ptr e + w) e) = 0"
        "w = total ?bs' \<or> is_free ?bs' w" "\<forall>f. is_free ?bs' f \<and> total us \<le> f \<longrightarrow> w \<le> f" by blast
    have "w \<le> f" if "lfree_low s ?bs" "is_free ?bs' f" for f
    proof -
      have "total us \<le> f" using that(2) True that(1) is_free_taken [OF n(3) b(11), of vs f]
        by (auto simp: lfree_low_def p_def)
      with w(4) that show ?thesis by blast
    qed
    with w True show ?thesis by (intro that [of w]) (auto simp: rt_assert_def esel)
  next
    case False
    from lf obtain f where f: "lfree s = heap_ptr s + f" "f = total ?bs \<or> is_free ?bs f" by (auto simp: lfree_ok_def)
    have "is_free ?bs (total us)" unfolding is_free_def by (rule exI [of _ g]) simp
    then have "f \<le> h" if "lfree_low s ?bs" "is_free ?bs' h" for h
      using that is_free_taken [OF n(3) b(11), of vs h] f by (force simp: lfree_low_def)
    moreover have "f = total ?bs' \<or> is_free ?bs' f"
      using f False tot is_free_taken [OF n(3) b(11), of vs f] by (auto simp: p_def)
    moreover have "e\<lparr>lfree := heap_ptr s + f\<rparr> = e" using f(1) esel(7) by (cases e) simp
    ultimately show ?thesis using False by (intro that [of f]) (simp_all add: esel)
  qed
  define r where "r = e\<lparr>lfree := heap_ptr s + w, heap_sem := rt_sem_init 1\<rparr>"
  have unl: "heap_unlock (e\<lparr>lfree := heap_ptr s + w\<rparr>) = r" by (simp add: heap_unlock_taken esel r_def)
  have inv: "heap_inv r ?bs'"
    unfolding heap_inv_def
  proof (intro conjI)
    show "laid_out r ?bs'" using loe by (simp add: r_def)
    show "no_holes ?bs'" using nh by (rule no_holes_taken)
    show "lfree_ok r ?bs'" using w(2) by (auto simp: lfree_ok_def r_def esel)
    show "used_mem r = used_total ?bs'" using ut by (simp add: r_def esel)
    show "used_mem r \<le> max_mem r" by (simp add: r_def esel)
    show "max_mem r \<le> total ?bs'" using mm uk tot by (simp add: r_def esel)
    show "heap_sem r = rt_sem_init 1" by (simp add: r_def)
  qed
  \<comment> \<open>the buffers\<close>
  have "same_data c e 0 us" "same_data c e (total us + k) (rest @ vs)" "buffer e (total us) k = buffer c (total us) k"
    using me by simp_all
  moreover have "same_data s c 0 us" "same_data s c (total us + g) vs" "buffer c (total us) k = take (k - 12) (buffer s (total us) g)"
    using m(2,3,6) by (simp_all add: c_def k_def)
  moreover have kg: "k \<le> g" "total us + k + total rest = total us + g" "12 \<le> k"
    using total_taken [OF n(3)] n by (auto simp: rest(1) k_def taken_len_def)
  ultimately have data: "same_data s r 0 us" "same_data s r (total us + g) vs" "buffer r (total us) k = take (k - 12) (buffer s (total us) g)"
    by (auto simp: r_def intro: same_data_trans)
  have hs: "live s (cells 0 ?bs) = live s (cells (total us + g) vs) ++ live s (cells 0 us)"
    by (simp add: live_append)
  have "live r (cells 0 ?bs') = (live r (cells (total us + k) (rest @ vs)) ++ live r (cells 0 us))(p + 12 \<mapsto> buffer r (total us) k)"
    using live_middle(1) [OF bc(11,12) kg(3), of r] by (simp add: rest r_def esel p_def)
  also have "live r (cells (total us + k) (rest @ vs)) = live r (cells (total us + g) vs)"
  proof -
    have "live r (cells (total us + k) rest) = Map.empty" using rest(2) by (elim disjE) simp_all
    then show ?thesis unfolding cells_append kg(2) by (simp add: live_append)
  qed
  also have "live r (cells (total us + g) vs) = live s (cells (total us + g) vs)" using data(2) by (rule live_same_data)
  also have "live r (cells 0 us) = live s (cells 0 us)" using data(1) by (rule live_same_data)
  finally have live: "live r (cells 0 ?bs') = (live s (cells 0 ?bs))(p + 12 \<mapsto> take (k - 12) (buffer s (total us) g))"
    unfolding hs data(3) .
  have none: "live s (cells 0 ?bs) (p + 12) = None"
    using live_middle(2) [OF b(11,12), of s] b(2) unfolding hs p_def by simp
  have low: "lfree_low r ?bs'" if "lfree_low s ?bs"
    using w(3) [OF that] by (simp add: lfree_low_def r_def esel)
  \<comment> \<open>the call\<close>
  have eq: "set_item p (magic_update (\<lambda>_. HEAP_MAGIC))
      (if add32 n (12 + 12) \<le> sub32 (next_of p s) (add32 (total us) 12)
       then count_used (add32 n 12) (link_back (add32 (add32 (total us) 12) n)
              (set_item p (used_update (\<lambda>_. 1)) (split_block p (add32 (add32 (total us) 12) n) s)))
       else count_used (sub32 (next_of p (set_item p (used_update (\<lambda>_. 1)) s)) (offset_of p (set_item p (used_update (\<lambda>_. 1)) s)))
              (set_item p (used_update (\<lambda>_. 1)) s)) = e"
  proof -
    have ar: "sub32 (next_of p s) (add32 (total us) 12) = g - 12" "add32 n (12 + 12) = n + 24" "add32 n 12 = n + 12"
        "add32 (add32 (total us) 12) n = total us + 12 + n"
      using b(2,8) d(4,10) n by auto
    have sg: "sub32 (next_of p (set_item p (used_update (\<lambda>_. 1)) s)) (offset_of p s) = g"
      using b(7,8) d(4) by simp
    have cond: "n + 24 \<le> g - 12 \<longleftrightarrow> n + 36 \<le> g" by auto
    show ?thesis
      unfolding ar cond e_def cnt [symmetric]
      using b(7) sg by (simp add: t_def take_mark_def k_def taken_len_def)
  qed
  have al: "(p + 12) mod 4 = 0" "p mod 4 = 0"
    using d(1) layout_total_mod [OF b(11)] by (auto simp: p_def mod_eq_0_iff_dvd)
  have fuel: "heap_fuel s = heap_fuel e" by (simp add: heap_fuel_def esel)
  have "malloc_take (heap_fuel s) (total us) n s = Inr (p + 12, r)"
    unfolding malloc_take_def Let_def b(6) eq fuel w(1) bind_r_simps unl
    using al b(4) d(2,4) n by (simp add: rt_assert_def r_def esel)
  with inv live none low show ?thesis by (auto simp: r_def esel)
qed

end
