(* ===== verification/Mem_Calls.thy ===== *)
theory Mem_Calls
  imports Mem_Malloc
begin

text \<open>
  The calls a client makes, as changes of the map of buffers: \<^verbatim>\<open>rt_malloc\<close>, \<^verbatim>\<open>rt_calloc\<close>, \<^verbatim>\<open>rt_realloc\<close>
  and \<^verbatim>\<open>rt_free\<close>, and the heap as \<^verbatim>\<open>rt_system_heap_init\<close> leaves it.
\<close>

section \<open>Sizes\<close>

text \<open>The size \<^verbatim>\<open>rt_malloc\<close> looks for: aligned, at least \<^verbatim>\<open>MIN_SIZE_ALIGNED\<close>.\<close>

definition request :: "nat \<Rightarrow> nat" where
  "request n = max 12 (rt_align n)"

lemma rt_align_ge: "n \<le> 0xFFFFFFFC \<Longrightarrow> n \<le> rt_align n"
proof -
  assume "n \<le> 0xFFFFFFFC"
  then have "add32 n 3 = n + 3" by simp
  then show ?thesis by (simp add: rt_align_def)
qed

lemma rt_align_mod [simp]: "rt_align n mod 4 = 0"
  by (simp add: rt_align_def)

lemma rt_align_idem: "n mod 4 = 0 \<Longrightarrow> n \<le> 0xFFFFFFFC \<Longrightarrow> rt_align n = n"
proof -
  assume n: "n mod 4 = 0" "n \<le> 0xFFFFFFFC"
  then have "add32 n 3 = n + 3" by simp
  moreover have "(n + 3) div 4 * 4 = n" using n(1) by presburger
  ultimately show ?thesis by (simp add: rt_align_def)
qed

lemma request_facts [simp]: "12 \<le> request n" "request n mod 4 = 0"
  by (auto simp: request_def max_def)

lemma request_ge: "n \<le> 0xFFFFFFFC \<Longrightarrow> n \<le> request n"
  using rt_align_ge [of n] by (simp add: request_def)

section \<open>rt_malloc\<close>

lemma lfree_split:
  assumes "heap_inv s bs"
  obtains us vs where "bs = us @ vs" and "lfree s = heap_ptr s + total us"
    and "offset_of (lfree s) s = total us"
proof -
  note i = heap_invD [OF assms] and d = laid_outD [OF heap_invD(1) [OF assms]]
  from i(3) obtain f where f: "lfree s = heap_ptr s + f" "f = total bs \<or> is_free bs f" by (auto simp: lfree_ok_def)
  have le: "f \<le> total bs" using f(2) is_free_bound by auto
  have off: "offset_of (lfree s) s = f" using f(1) le d(4) by (simp add: offset_of_def)
  from f(2) show thesis
  proof
    assume "f = total bs"
    with f off show thesis by (intro that [of bs "[]"]) simp_all
  next
    assume "is_free bs f"
    then obtain us g vs where "bs = us @ (g, False) # vs" "f = total us"
      by (auto simp: is_free_def dest: cells_split)
    with f off show thesis by (intro that [of us "(g, False) # vs"]) simp_all
  qed
qed

lemma first_fit_bound: "first_fit n lim off bs = Some o1 \<Longrightarrow> o1 < lim - n"
  by (induction n lim off bs rule: first_fit.induct) (auto split: if_splits)

text \<open>The two outcomes, over the list of blocks.\<close>

lemma rt_malloc_cases:
  assumes inv: "heap_inv s bs" and n: "0 < n"
  defines "r \<equiv> request n"
  obtains
    (none) "rt_malloc n s = Inr (0, s)"
      and "mem_size_aligned s < r \<or>
        (\<forall>x h. (x, h, False) \<in> set (cells 0 bs) \<and> lfree s \<le> heap_ptr s + x \<and> x < mem_size_aligned s - r \<longrightarrow> h < r + 12)"
  | (some) us g vs s' where "bs = us @ (g, False) # vs" and "r + 12 \<le> g"
      and "rt_malloc n s = Inr (heap_ptr s + total us + 12, s')"
      and "heap_inv s' (us @ taken r g @ vs)" and "heap_ptr s' = heap_ptr s" and "mem_size_aligned s' = mem_size_aligned s"
      and "buffers s' = (buffers s)(heap_ptr s + total us + 12 \<mapsto> take (taken_len r g - 12) (buffer s (total us) g))"
      and "buffers s (heap_ptr s + total us + 12) = None"
      and "used_mem s' = used_mem s + taken_len r g" and "max_mem s' = max (max_mem s) (used_mem s + taken_len r g)"
      and "lfree_low s bs \<Longrightarrow> lfree_low s' (us @ taken r g @ vs)"
      and "\<forall>x h. (x, h, False) \<in> set (cells 0 us) \<and> lfree s \<le> heap_ptr s + x \<longrightarrow> h < r + 12"
      and "total us < mem_size_aligned s - r"
proof -
  note i = heap_invD [OF inv] and d = laid_outD [OF heap_invD(1) [OF inv]]
  have m12: "12 \<le> mem_size_aligned s" using d(3,5) by simp
  have big: "mem_size_aligned s < rt_align n \<longleftrightarrow> mem_size_aligned s < r"
    using m12 by (auto simp: r_def request_def)
  have rr: "(if rt_align n < 12 then 12 else rt_align n) = r" by (simp add: r_def request_def)
  define s0 where "s0 = s\<lparr>heap_sem := rt_sem_init 0\<rparr>"
  have s0: "heap_ptr s0 = heap_ptr s" "mem_size_aligned s0 = mem_size_aligned s" "lfree s0 = lfree s"
      "heap_sem s0 = rt_sem_init 0" "used_mem s0 = used_mem s" "max_mem s0 = max_mem s" "heap_fuel s0 = heap_fuel s"
    by (simp_all add: s0_def heap_fuel_def)
  have lo: "laid_out s0 bs" using i(1) by (simp add: s0_def)
  have unl: "heap_unlock s0 = s" using i(7) s0(4) by (cases s) (simp add: heap_unlock_taken s0_def)
  obtain us vs where bs: "bs = us @ vs" "lfree s = heap_ptr s + total us" "offset_of (lfree s) s = total us"
    using lfree_split [OF inv] .
  define found where "found = first_fit r (mem_size_aligned s) (total us) vs"
  show thesis
  proof (cases "mem_size_aligned s < r")
    case True
    then have "rt_malloc n s = Inr (0, s)" using n big by (simp add: rt_malloc_def Let_def)
    with True show thesis by (intro none) auto
  next
    case False
    have "layout s0 (end_prev 0 0 us) (total us) vs" using laid_outD(6) [OF lo] bs(1) by simp
    moreover have "length vs < heap_fuel s"
      using layout_length [OF d(6)] d(3,5) bs(1) by (simp add: heap_fuel_def)
    ultimately have search: "malloc_search (heap_fuel s) (total us) r s0 = Inr found"
      using malloc_search_first_fit [of s0 _ "total us" vs r "heap_fuel s"] False d bs(1)
      by (simp add: found_def s0)
    have off0: "offset_of (lfree s0) s0 = total us" using bs(3) by (simp add: s0_def)
    have call: "rt_malloc n s = (case found of None \<Rightarrow> Inr (0, s)
        | Some ptr \<Rightarrow> malloc_take (heap_fuel s0) ptr r s0)"
      using n False big i(7) search off0 unl
      by (simp add: rt_malloc_def Let_def rr s0_def [symmetric] s0(7) split: option.split)
    show thesis
    proof (cases found)
      case None
      then have "h < r + 12" if "(x, h, False) \<in> set (cells 0 bs)" "lfree s \<le> heap_ptr s + x" "x < mem_size_aligned s - r" for x h
      proof -
        have "(x, h, False) \<notin> set (cells 0 us)"
        proof
          assume "(x, h, False) \<in> set (cells 0 us)"
          moreover from this have "16 \<le> h" using layout_gaps [OF d(6), of h False] bs(1) by (auto dest: cells_bounds)
          ultimately show False using that(2) bs(2) by (auto dest: cells_bounds)
        qed
        with that(1) bs(1) have "(x, h, False) \<in> set (cells (total us) vs)" by simp
        from first_fit_None [OF None [unfolded found_def] this that(3)] show ?thesis .
      qed
      then show thesis using call None by (intro none) auto
    next
      case (Some ptr)
      from first_fit_Some [OF this [unfolded found_def]] obtain as g cs where a:
        "vs = as @ (g, False) # cs" "ptr = total us + total as" "r + 12 \<le> g"
        "\<forall>(x, h, u) \<in> set (cells (total us) as). \<not> u \<longrightarrow> h < r + 12" by blast
      let ?us = "us @ as"
      have bs2: "bs = ?us @ (g, False) # cs" using bs(1) a(1) by simp
      have ptr: "ptr = total ?us" using a(2) by simp
      have pre: "laid_out s0 (?us @ (g, False) # cs)" "no_holes (?us @ (g, False) # cs)"
        "lfree_ok s0 (?us @ (g, False) # cs)" "used_mem s0 = used_total (?us @ (g, False) # cs)"
        "used_mem s0 \<le> max_mem s0" "max_mem s0 \<le> total (?us @ (g, False) # cs)"
        using lo i bs2 by (simp_all only: s0) (simp add: lfree_ok_def s0)
      have "12 \<le> r" "r mod 4 = 0" by (simp_all add: r_def)
      from malloc_take_spec [OF pre s0(4) this a(3)] obtain s' where t:
        "malloc_take (heap_fuel s0) (total ?us) r s0 = Inr (heap_ptr s0 + total ?us + 12, s')"
        "heap_inv s' (?us @ taken r g @ cs)" "heap_ptr s' = heap_ptr s0" "mem_size_aligned s' = mem_size_aligned s0"
        "live s' (cells 0 (?us @ taken r g @ cs)) = (live s0 (cells 0 (?us @ (g, False) # cs)))
           (heap_ptr s0 + total ?us + 12 \<mapsto> take (taken_len r g - 12) (buffer s0 (total ?us) g))"
        "live s0 (cells 0 (?us @ (g, False) # cs)) (heap_ptr s0 + total ?us + 12) = None"
        "used_mem s' = used_mem s0 + taken_len r g" "max_mem s' = max (max_mem s0) (used_mem s0 + taken_len r g)"
        "lfree_low s0 (?us @ (g, False) # cs) \<longrightarrow> lfree_low s' (?us @ taken r g @ cs)" by blast
      have live0: "live s0 (cells 0 (?us @ (g, False) # cs)) = buffers s"
        using i(8) bs2 by (simp add: s0_def)
      have first: "\<forall>x h. (x, h, False) \<in> set (cells 0 ?us) \<and> lfree s \<le> heap_ptr s + x \<longrightarrow> h < r + 12"
      proof (intro allI impI, elim conjE)
        fix x h
        assume x: "(x, h, False) \<in> set (cells 0 ?us)" "lfree s \<le> heap_ptr s + x"
        have "(x, h, False) \<notin> set (cells 0 us)"
        proof
          assume "(x, h, False) \<in> set (cells 0 us)"
          moreover from this have "16 \<le> h" using layout_gaps [OF d(6), of h False] bs(1) by (auto dest: cells_bounds)
          ultimately show False using x(2) bs(2) by (auto dest: cells_bounds)
        qed
        with x(1) have "(x, h, False) \<in> set (cells (total us) as)" by simp
        with a(4) show "h < r + 12" by auto
      qed
      show thesis
      proof (rule some [of ?us g cs s'])
        show "rt_malloc n s = Inr (heap_ptr s + total ?us + 12, s')"
          using call Some ptr t(1) by (simp add: s0(1))
        show "buffers s' = (buffers s)(heap_ptr s + total ?us + 12 \<mapsto> take (taken_len r g - 12) (buffer s (total ?us) g))"
          using t(5) live0 heap_invD(8) [OF t(2)] by (simp add: s0(1)) (simp add: s0_def)
        show "buffers s (heap_ptr s + total ?us + 12) = None" using t(6) live0 by (simp add: s0(1))
        show "lfree_low s bs \<Longrightarrow> lfree_low s' (?us @ taken r g @ cs)"
          using t(9) bs2 by (simp add: lfree_low_def s0)
        show "total ?us < mem_size_aligned s - r"
          using first_fit_bound [OF Some [unfolded found_def]] ptr by simp
      qed (use t s0 bs2 a(3) first in simp_all)
    qed
  qed
qed

section \<open>Blocks and buffers\<close>

lemma buffers_at:
  assumes "heap_inv s (us @ (g, True) # vs)"
  shows "buffers s (heap_ptr s + total us + 12) = Some (buffer s (total us) g)"
proof -
  note i = heap_invD [OF assms] and b = laid_out_block [OF heap_invD(1) [OF assms]]
  show ?thesis
    using live_middle(1) [OF b(11,12), of s] b(2) by (simp add: i(8))
qed

lemma length_buffer [simp]: "length (buffer s off g) = g - 12"
  by (simp add: buffer_def)

lemma buffers_cell:
  assumes inv: "heap_inv s bs"
  shows "(o1, g, True) \<in> set (cells 0 bs) \<longleftrightarrow>
    (\<exists>cs. buffers s (heap_ptr s + o1 + 12) = Some cs \<and> length cs + 12 = g)"
proof
  assume "(o1, g, True) \<in> set (cells 0 bs)"
  from cells_split [OF this] obtain us vs where bs: "bs = us @ (g, True) # vs" "o1 = total us" by auto
  have "16 \<le> g" using laid_out_block(2) [of s us g True vs] heap_invD(1) [OF inv] bs by simp
  with buffers_at [of s us g vs] inv bs show "\<exists>cs. buffers s (heap_ptr s + o1 + 12) = Some cs \<and> length cs + 12 = g"
    by simp
next
  assume "\<exists>cs. buffers s (heap_ptr s + o1 + 12) = Some cs \<and> length cs + 12 = g"
  then obtain cs where cs: "buffers s (heap_ptr s + o1 + 12) = Some cs" "length cs + 12 = g" by blast
  from buffers_block [OF inv cs(1)] obtain us h vs where u: "bs = us @ (h, True) # vs"
      "heap_ptr s + o1 + 12 = heap_ptr s + total us + 12" "cs = buffer s (total us) h" by blast
  have "16 \<le> h" using laid_out_block(2) [of s us h True vs] heap_invD(1) [OF inv] u(1) by simp
  with u cs(2) show "(o1, g, True) \<in> set (cells 0 bs)" by simp
qed

text \<open>Two blocks of a list do not overlap.\<close>

lemma cells_apart:
  "(x, g, u) \<in> set (cells off bs) \<Longrightarrow> (y, h, v) \<in> set (cells off bs) \<Longrightarrow> x < y \<Longrightarrow> x + g \<le> y"
  by (induction off bs rule: cells.induct) (auto dest: cells_bounds)

text \<open>
  Without neighbouring free blocks the list of blocks is fixed by the blocks in use: what is free in between
  can only be one block.
\<close>

lemma free_head_longest:
  assumes used: "\<And>o1 h. (o1, h, True) \<in> set (cells (off + g) bs) \<Longrightarrow> (o1, h, True) \<in> set (cells (off + g') bs')"
    and nh: "no_holes ((g, False) # bs)" and tot: "g' + total bs' = g + total bs"
  shows "g' \<le> g"
proof (cases bs)
  case Nil
  with tot show ?thesis by simp
next
  case (Cons b cs)
  with nh obtain h where "b = (h, True)" by (cases b) auto
  with Cons used [of "off + g" h] have "(off + g, h, True) \<in> set (cells (off + g') bs')" by simp
  then show ?thesis by (auto dest: cells_bounds)
qed

lemma blocks_unique:
  "\<lbrakk>no_holes bs; no_holes bs'; \<forall>b \<in> set bs \<union> set bs'. 0 < fst b; total bs' = total bs;
    \<And>o1 g. (o1, g, True) \<in> set (cells off bs) \<longleftrightarrow> (o1, g, True) \<in> set (cells off bs')\<rbrakk> \<Longrightarrow> bs' = bs"
proof (induction bs arbitrary: off bs')
  case Nil
  then show ?case by (cases bs') auto
next
  case (Cons b cs)
  obtain g u where b: "b = (g, u)" by (cases b)
  have "0 < g" using Cons.prems(3) b by auto
  then have "bs' \<noteq> []" using Cons.prems(4) b by auto
  then obtain g' u' cs' where bs': "bs' = (g', u') # cs'" by (cases bs') auto
  have pos: "0 < g'" using Cons.prems(3) bs' by auto
  have eq: "(o1, h, True) \<in> set (cells off ((g, u) # cs)) \<longleftrightarrow> (o1, h, True) \<in> set (cells off ((g', u') # cs'))" for o1 h
    using Cons.prems(5) b bs' by simp
  have "g' = g \<and> u' = u"
  proof (cases "u \<or> u'")
    case True
    then show ?thesis
    proof
      assume u
      then have "(off, g, True) \<in> set (cells off ((g', u') # cs'))" using eq [of off g] by simp
      with pos \<open>u\<close> show ?thesis by (auto dest: cells_bounds)
    next
      assume u'
      then have "(off, g', True) \<in> set (cells off ((g, u) # cs))" using eq [of off g'] by simp
      with \<open>0 < g\<close> \<open>u'\<close> show ?thesis by (auto dest: cells_bounds)
    qed
  next
    case False
    with eq have used: "(o1, h, True) \<in> set (cells (off + g) cs) \<longleftrightarrow> (o1, h, True) \<in> set (cells (off + g') cs')" for o1 h
      by simp
    have "g' \<le> g" using free_head_longest [of off g cs g' cs'] used Cons.prems(1,4) b bs' False by simp
    moreover have "g \<le> g'" using free_head_longest [of off g' cs' g cs] used Cons.prems(2,4) b bs' False by simp
    ultimately show ?thesis using False by simp
  qed
  moreover have "cs' = cs" if "g' = g" "u' = u"
  proof (rule Cons.IH [of cs' "off + g"])
    show "no_holes cs" "no_holes cs'" using Cons.prems(1,2) bs' by (auto dest: no_holes_ConsD)
    show "\<forall>b \<in> set cs \<union> set cs'. 0 < fst b" using Cons.prems(3) bs' by auto
    show "total cs' = total cs" using Cons.prems(4) b bs' that by simp
    fix o1 h
    have "(off, g, True) \<notin> set (cells (off + g) cs)" "(off, g, True) \<notin> set (cells (off + g) cs')"
      using \<open>0 < g\<close> by (auto dest: cells_bounds)
    with eq [of o1 h] that show "(o1, h, True) \<in> set (cells (off + g) cs) \<longleftrightarrow> (o1, h, True) \<in> set (cells (off + g) cs')"
      by auto
  qed
  ultimately show ?case using b bs' by simp
qed

lemma heap_okE:
  assumes "heap_ok s"
  obtains bs where "heap_inv s bs" and "heap_blocks s = cells 0 bs"
  using assms heap_blocks_cells [of s "block_list s"] by (auto simp: heap_ok_def heap_inv_def)

text \<open>
  Two heaps of the same place and size with the same pointers live, and as long, have the same
  blocks, whatever was allocated and freed before, and in which order.
\<close>

lemma same_buffers_same_blocks:
  assumes "heap_ok s" "heap_ok s'" and "heap_ptr s' = heap_ptr s" and "mem_size_aligned s' = mem_size_aligned s"
    and "\<And>p. map_option length (buffers s' p) = map_option length (buffers s p)"
  shows "heap_blocks s' = heap_blocks s"
proof -
  obtain bs where bs: "heap_inv s bs" "heap_blocks s = cells 0 bs" using heap_okE [OF assms(1)] .
  obtain bs' where bs': "heap_inv s' bs'" "heap_blocks s' = cells 0 bs'" using heap_okE [OF assms(2)] .
  have cs: "(\<exists>cs. buffers s' p = Some cs \<and> length cs + 12 = g) \<longleftrightarrow> (\<exists>cs. buffers s p = Some cs \<and> length cs + 12 = g)" for p g
    using assms(5) [of p] by (cases "buffers s' p"; cases "buffers s p") auto
  have "bs' = bs"
  proof (rule blocks_unique [where off = 0])
    show "no_holes bs" "no_holes bs'" using bs bs' by (simp_all add: heap_invD)
    show "total bs' = total bs"
      using laid_outD(3) [OF heap_invD(1) [OF bs(1)]] laid_outD(3) [OF heap_invD(1) [OF bs'(1)]] assms(4) by simp
    show "\<forall>b \<in> set bs \<union> set bs'. 0 < fst b"
      using layout_gaps [OF laid_outD(6) [OF heap_invD(1) [OF bs(1)]]]
        layout_gaps [OF laid_outD(6) [OF heap_invD(1) [OF bs'(1)]]] by fastforce
    show "(o1, g, True) \<in> set (cells 0 bs) \<longleftrightarrow> (o1, g, True) \<in> set (cells 0 bs')" for o1 g
      unfolding buffers_cell [OF bs(1)] buffers_cell [OF bs'(1)] assms(3) by (rule cs [symmetric])
  qed
  then show ?thesis using bs(2) bs'(2) by simp
qed

section \<open>What the calls do to the buffers\<close>

lemma rt_malloc_ok:
  assumes "heap_ok s" and "0 < n"
  shows "\<exists>p s'. rt_malloc n s = Inr (p, s') \<and> heap_ok s' \<and> heap_ptr s' = heap_ptr s \<and>
    mem_size_aligned s' = mem_size_aligned s \<and> (heap_low s \<longrightarrow> heap_low s') \<and>
    (p = 0 \<and> s' = s \<or>
     0 < p \<and> p mod 4 = 0 \<and> buffers s p = None \<and>
     (\<exists>cs. request n \<le> length cs \<and> buffers s' = (buffers s)(p \<mapsto> cs) \<and> used_mem s' = used_mem s + length cs + 12))"
proof -
  obtain bs where inv: "heap_inv s bs" using heap_okE [OF assms(1)] .
  note d = laid_outD [OF heap_invD(1) [OF inv]]
  from inv assms(2) show ?thesis
  proof (cases rule: rt_malloc_cases)
    case none
    with assms(1) show ?thesis by simp
  next
    case (some us g vs s')
    let ?k = "taken_len (request n) g" and ?p = "heap_ptr s + total us + 12"
    have "layout s 0 0 us" using d(6) some(1) by simp
    then have al: "?p mod 4 = 0" using d(1) layout_total_mod [of s 0 0 us] by (auto simp: mod_eq_0_iff_dvd)
    have "request n + 12 \<le> ?k" "?k \<le> g" using some(2) by (auto simp: taken_len_def)
    moreover from this have "length (take (?k - 12) (buffer s (total us) g)) = ?k - 12" by simp
    moreover have "heap_low s \<longrightarrow> heap_low s'"
      using some(11) heap_invD(9) [OF inv] heap_invD(9) [OF some(4)] by (simp add: heap_low_def)
    ultimately show ?thesis
      using some al heap_okI [OF some(4)]
      by (intro exI [of _ ?p] exI [of _ s'] conjI disjI2 exI [of _ "take (?k - 12) (buffer s (total us) g)"]) auto
  qed
qed

lemma rt_free_ok:
  assumes "heap_ok s" and "buffers s p = Some cs"
  shows "\<exists>s'. rt_free p s = Inr s' \<and> heap_ok s' \<and> buffers s' = (buffers s)(p := None) \<and>
    heap_ptr s' = heap_ptr s \<and> mem_size_aligned s' = mem_size_aligned s \<and> (heap_low s \<longrightarrow> heap_low s') \<and>
    used_mem s' + length cs + 12 = used_mem s \<and> used (item (p - 12) s') = 0"
proof -
  obtain bs where inv: "heap_inv s bs" using heap_okE [OF assms(1)] .
  obtain us g vs where b: "bs = us @ (g, True) # vs" "p = heap_ptr s + total us + 12" "cs = buffer s (total us) g"
    using buffers_block [OF inv assms(2)] .
  from rt_free_spec [OF inv [unfolded b(1)]] obtain s' bs' where s':
      "rt_free p s = Inr s'" "heap_inv s' bs'" "buffers s' = (buffers s)(p := None)" "used_mem s' = used_mem s - g"
      "heap_ptr s' = heap_ptr s" "mem_size_aligned s' = mem_size_aligned s"
      "lfree_low s (us @ (g, True) # vs) \<longrightarrow> lfree_low s' bs'" "used (item (heap_ptr s + total us) s') = 0"
    unfolding b(2) by blast
  have "16 \<le> g" using laid_out_block(2) [of s us g True vs] heap_invD(1) [OF inv] b(1) by simp
  moreover have "g \<le> used_mem s" using heap_invD(4) [OF inv] b(1) by simp
  moreover have "heap_low s \<longrightarrow> heap_low s'"
    using s'(7) heap_invD(9) [OF inv] heap_invD(9) [OF s'(2)] b(1) by (simp add: heap_low_def)
  ultimately show ?thesis using s' heap_okI [OF s'(2)] b(2,3) by auto
qed

text \<open>A client that writes inside its buffer changes that buffer and nothing else.\<close>

lemma write_inv:
  assumes inv: "heap_inv s (us @ (g, True) # vs)"
    and r: "\<And>x. x < heap_ptr s + total us + 12 \<or> heap_ptr s + total us + g \<le> x \<Longrightarrow> r x = mem_ram s x"
  defines "s' \<equiv> s\<lparr>mem_ram := r\<rparr>"
  shows "heap_inv s' (us @ (g, True) # vs)"
    and "buffers s' = (buffers s)(heap_ptr s + total us + 12 \<mapsto> buffer s' (total us) g)"
proof -
  note i = heap_invD [OF inv]
  note b = laid_out_block [OF i(1)] and d = laid_outD [OF i(1)]
  have sel: "heap_ptr s' = heap_ptr s" "heap_end s' = heap_end s" "lfree s' = lfree s" "heap_sem s' = heap_sem s"
      "mem_size_aligned s' = mem_size_aligned s" "used_mem s' = used_mem s" "max_mem s' = max_mem s" "mem_ram s' = r"
    by (simp_all add: s'_def)
  have "layout s' 0 0 us" using b(11) by (rule layout_cong [rotated 2]) (simp_all add: sel r)
  moreover have "layout s' (total us) (total us + g) vs"
    using b(12) by (rule layout_cong [rotated 2]) (simp_all add: sel r)
  moreover have it: "item (heap_ptr s + total us) s' = item (heap_ptr s + total us) s"
    "item (heap_end s) s' = item (heap_end s) s"
    by (rule item_cong; use b(4) in \<open>simp add: sel r\<close>)+
  ultimately have "laid_out s' (us @ (g, True) # vs)"
    using b(1-3) d by (simp add: laid_out_def sel)
  with inv show inv': "heap_inv s' (us @ (g, True) # vs)" by (simp add: heap_inv_def sel lfree_ok_def)
  have "same_data s s' 0 us" "same_data s s' (total us + g) vs"
    using b(2) by (auto simp: same_data_def sel intro!: buffer_cong dest!: cells_bounds) (simp_all add: sel r)
  then show "buffers s' = (buffers s)(heap_ptr s + total us + 12 \<mapsto> buffer s' (total us) g)"
    using live_middle(1) [OF b(11,12), of s] live_middle(1) [OF b(11,12), of s'] b(2)
    by (simp add: heap_invD(8) [OF inv'] i(8) sel live_same_data)
qed

lemma rt_calloc_ok:
  assumes ok: "heap_ok s" and n: "0 < mul32 count n" "mul32 count n \<le> 0xFFFFFFFC"
  shows "\<exists>p s'. rt_calloc count n s = Inr (p, s') \<and> heap_ok s' \<and>
    (p = 0 \<and> s' = s \<or>
     0 < p \<and> buffers s p = None \<and>
     (\<exists>cs. take (mul32 count n) cs = replicate (mul32 count n) 0 \<and> mul32 count n \<le> length cs \<and> buffers s' = (buffers s)(p \<mapsto> cs)))"
proof -
  let ?n = "mul32 count n"
  from rt_malloc_ok [OF ok n(1)] obtain p s1 where s1: "rt_malloc ?n s = Inr (p, s1)" "heap_ok s1" "heap_ptr s1 = heap_ptr s"
      "p = 0 \<and> s1 = s \<or> 0 < p \<and> buffers s p = None \<and> (\<exists>cs. request ?n \<le> length cs \<and> buffers s1 = (buffers s)(p \<mapsto> cs))"
    by blast
  show ?thesis
  proof (cases "p = 0")
    case True
    with s1 ok show ?thesis by (simp add: rt_calloc_def)
  next
    case False
    with s1(4) obtain cs where cs: "0 < p" "buffers s p = None" "request ?n \<le> length cs" "buffers s1 = (buffers s)(p \<mapsto> cs)" by auto
    obtain bs where inv: "heap_inv s1 bs" using heap_okE [OF s1(2)] .
    have "buffers s1 p = Some cs" using cs(4) by simp
    from buffers_block [OF inv this] obtain us g vs where b: "bs = us @ (g, True) # vs" "p = heap_ptr s1 + total us + 12"
        "cs = buffer s1 (total us) g" .
    have len: "?n + 12 \<le> g"
      using cs(3) [unfolded b(3) length_buffer] request_ge [OF n(2)] request_facts(1) [of ?n] by linarith
    define r where "r = rt_memset p 0 ?n (mem_ram s1)"
    have ra: "r x = (if p \<le> x \<and> x < p + ?n then 0 else mem_ram s1 x)" for x
      by (simp add: r_def memset_bytewise fill_bytes_apply)
    have "x < heap_ptr s1 + total us + 12 \<or> heap_ptr s1 + total us + g \<le> x \<Longrightarrow> r x = mem_ram s1 x" for x
      using len b(2) by (auto simp: ra)
    note w = write_inv [OF inv [unfolded b(1)] this]
    define s2 where "s2 = s1\<lparr>mem_ram := r\<rparr>"
    have "take ?n (buffer s2 (total us) g) = map r [p..<p + ?n]"
      using len b(2) by (simp add: buffer_def s2_def take_map min_def)
    also have "\<dots> = replicate ?n 0" by (rule nth_equalityI) (simp_all add: ra)
    finally have z: "take ?n (buffer s2 (total us) g) = replicate ?n 0" .
    have "buffers s2 = (buffers s)(p \<mapsto> buffer s2 (total us) g)"
      using w(2) cs(4) b(2) by (simp add: s2_def)
    moreover have "rt_calloc count n s = Inr (p, s2)" using s1(1) False by (simp add: rt_calloc_def s2_def r_def)
    moreover have "heap_ok s2" using heap_okI [OF w(1)] by (simp add: s2_def)
    ultimately show ?thesis using z len cs(1,2) by (intro exI [of _ p] exI [of _ s2]) auto
  qed
qed

end
