(* ===== verification/Mem_Realloc.thy ===== *)
theory Mem_Realloc
  imports Mem_Calls
begin

text \<open>
  \<^verbatim>\<open>rt_realloc\<close> on a live block: cut in place, left alone, or moved to a new block with its contents copied.
\<close>

section \<open>The three ways\<close>

lemma used_after_free: "is_free (us @ (g, True) # vs) f \<Longrightarrow> total [(m, True), (k, False)] = g \<Longrightarrow>
    is_free (us @ (m, True) # (k, False) # vs) f"
  by (auto simp: is_free_def add.assoc)

lemma realloc_shrink_spec:
  assumes inv: "heap_inv s (us @ (g, True) # vs)"
    and m: "4 \<le> m" "m mod 4 = 0" "m + 36 < g"
  defines "s0 \<equiv> s\<lparr>heap_sem := rt_sem_init 0\<rparr>" and "p \<equiv> heap_ptr s + total us"
  shows "\<exists>s' bs'. realloc_shrink p (g - 12) m s0 = Inr s' \<and> heap_inv s' bs' \<and>
    heap_ptr s' = heap_ptr s \<and> mem_size_aligned s' = mem_size_aligned s \<and>
    buffers s' = (buffers s)(p + 12 \<mapsto> take m (buffer s (total us) g))"
proof -
  let ?bs = "us @ (g, True) # vs" and ?cs = "us @ (m + 12, True) # (g - m - 12, False) # vs"
  note i = heap_invD [OF inv]
  note b = laid_out_block [OF i(1), folded p_def] and d = laid_outD [OF i(1)]
  define t0 where "t0 = s0\<lparr>used_mem := used_mem s - (g - 12 - m)\<rparr>"
  define x where "x = total us + 12 + m"
  define t where "t = link_back x (split_block p x t0)"
  have lo0: "laid_out t0 ?bs" using i(1) by (simp add: t0_def s0_def)
  have hp0: "heap_ptr t0 = heap_ptr s" by (simp add: t0_def s0_def)
  have m28: "m + 28 \<le> g" using m(3) by simp
  note sp = split_laid_out [OF lo0 m(1,2) m28, unfolded hp0, folded p_def x_def, folded t_def]
  have tsel: "heap_ptr t = heap_ptr s" "heap_end t = heap_end s" "mem_size_aligned t = mem_size_aligned s"
      "heap_sem t = rt_sem_init 0" "used_mem t = used_mem s - (g - 12 - m)" "max_mem t = max_mem s" "lfree t = lfree s"
    using sp(5,6) by (simp_all add: same_fields_def t0_def s0_def)
  have px: "heap_ptr t + total (us @ [(m + 12, True)]) = heap_ptr s + x" by (simp add: tsel x_def)
  have "laid_out t ((us @ [(m + 12, True)]) @ (g - m - 12, False) # vs)" using sp(1) by simp
  moreover have "no_holes (us @ [(m + 12, True)])" "no_holes vs" using i(2) by (auto dest: no_holes_ConsD)
  ultimately obtain s1 us' G vs' where h: "plug_holes (heap_ptr s + x) t = Inr s1"
      "joined t ?cs s1 (us' @ (G, False) # vs')" "no_holes (us' @ (G, False) # vs')"
    using plug_holes_spec [of t "us @ [(m + 12, True)]" "g - m - 12" vs] unfolding px by auto
  let ?bs' = "us' @ (G, False) # vs'"
  define r where "r = s1\<lparr>heap_sem := rt_sem_init 1\<rparr>"
  have lf: "lfree_ok t ?cs"
  proof -
    from i(3) obtain f where f: "lfree s = heap_ptr s + f" "f = total ?bs \<or> is_free ?bs f" by (auto simp: lfree_ok_def)
    have "is_free ?bs f \<Longrightarrow> is_free ?cs f" using m28 by (intro used_after_free) simp_all
    moreover have "total ?cs = total ?bs" using m28 by simp
    ultimately show ?thesis using f by (auto simp: lfree_ok_def tsel)
  qed
  have s1: "laid_out s1 ?bs'" "same_fields t s1" "live s1 (cells 0 ?bs') = live t (cells 0 ?cs)" "used_total ?bs' = used_total ?cs" "lfree_ok s1 ?bs'"
    using h(2) lf by (auto simp: joined_def)
  have rsel: "heap_ptr r = heap_ptr s" "mem_size_aligned r = mem_size_aligned s" "used_mem r = used_mem s - (g - 12 - m)" "max_mem r = max_mem s"
    using s1(2) tsel by (simp_all add: r_def same_fields_def)
  have unl: "heap_unlock s1 = r" using s1(2) tsel by (simp add: heap_unlock_taken r_def same_fields_def)
  have tot: "total ?bs' = total ?bs" using laid_outD(3) [OF s1(1)] d(3) s1(2) tsel by (simp add: same_fields_def)
  have inv': "heap_inv r ?bs'"
    unfolding heap_inv_def
  proof (intro conjI)
    show "laid_out r ?bs'" "no_holes ?bs'" using s1(1) h(3) by (simp_all add: r_def)
    show "lfree_ok r ?bs'" using s1(5) by (simp add: r_def lfree_ok_def)
    show "used_mem r = used_total ?bs'" using i(4) s1(4) m28 by (simp add: rsel)
    show "used_mem r \<le> max_mem r" using i(5) by (simp add: rsel)
    show "max_mem r \<le> total ?bs'" using i(6) tot by (simp add: rsel)
    show "heap_sem r = rt_sem_init 1" by (simp add: r_def)
  qed
  have same: "same_data s t 0 us" "same_data s t (total us + g) vs" "buffer t (total us) (m + 12) = take m (buffer s (total us) g)"
  proof -
    have "buffer t0 o1 h = buffer s o1 h" for o1 h by (simp add: t0_def s0_def)
    with sp(2,3,4) show "same_data s t 0 us" "same_data s t (total us + g) vs"
        "buffer t (total us) (m + 12) = take m (buffer s (total us) g)"
      by (simp_all add: same_data_def hp0)
  qed
  have "buffers r = live t (cells 0 ?cs)" using heap_invD(8) [OF inv'] s1(3) by (simp add: r_def)
  also have "\<dots> = (live t (cells (total us + g) vs) ++ live t (cells 0 us))(p + 12 \<mapsto> buffer t (total us) (m + 12))"
  proof -
    have "live t (cells (total us + (m + 12)) ((g - m - 12, False) # vs)) = live t (cells (total us + g) vs)"
      using m28 by simp
    moreover note live_middle(1) [OF laid_out_block(11,12) [OF sp(1)], of t]
    ultimately show ?thesis by (simp add: tsel p_def)
  qed
  also have "\<dots> = (live s (cells (total us + g) vs) ++ live s (cells 0 us))(p + 12 \<mapsto> take m (buffer s (total us) g))"
    using same by (simp add: live_same_data)
  also have "\<dots> = (buffers s)(p + 12 \<mapsto> take m (buffer s (total us) g))"
    using live_middle(1) [OF b(11,12), of s] b(2) i(8) by (simp add: p_def)
  finally have buf: "buffers r = (buffers s)(p + 12 \<mapsto> take m (buffer s (total us) g))" .
  have "realloc_shrink p (g - 12) m s0 = Inr r"
  proof -
    have "sub32 (g - 12) m = g - 12 - m" using m28 b(4) d(2,4) by (intro sub32_eq) auto
    moreover have "g \<le> used_mem s" using i(4) by simp
    then have "sub32 (used_mem s) (g - 12 - m) = used_mem s - (g - 12 - m)"
      using i(4) used_total_le [of ?bs] d(4) by (intro sub32_eq) auto
    moreover have "add32 (add32 (total us) 12) m = x" using d(4) m28 by (auto simp: x_def)
    moreover have "offset_of p s = total us" using b(7) .
    moreover have "at x t = heap_ptr s + x" using d(4) m28 by (simp add: at_def tsel x_def)
    ultimately show ?thesis
      using h(1) unl by (simp add: realloc_shrink_def Let_def s0_def t_def t0_def)
  qed
  with inv' buf show ?thesis by (intro exI [of _ r] exI [of _ ?bs']) (simp add: rsel)
qed

text \<open>The move: a new block, the copy, and the old block freed.\<close>

lemma realloc_move_ok:
  assumes ok: "heap_ok s" and p: "buffers s p = Some cs" and m: "0 < m" "m \<le> 0xFFFFFFFC"
  shows "\<exists>q s'. realloc_move p (length cs) m s = Inr (q, s') \<and> heap_ok s' \<and>
    heap_ptr s' = heap_ptr s \<and> mem_size_aligned s' = mem_size_aligned s \<and>
    (q = 0 \<and> s' = s \<or>
     0 < q \<and> buffers s q = None \<and> (\<exists>ds. m \<le> length ds \<and>
       take (min m (length cs)) ds = take (min m (length cs)) cs \<and>
       buffers s' = (buffers s)(p := None, q \<mapsto> ds)))"
proof -
  from rt_malloc_ok [OF ok m(1)] obtain q s1 where s1: "rt_malloc m s = Inr (q, s1)" "heap_ok s1" "heap_ptr s1 = heap_ptr s"
      "mem_size_aligned s1 = mem_size_aligned s"
      "q = 0 \<and> s1 = s \<or> 0 < q \<and> buffers s q = None \<and> (\<exists>c0. request m \<le> length c0 \<and> buffers s1 = (buffers s)(q \<mapsto> c0))"
    by blast
  show ?thesis
  proof (cases "q = 0")
    case True
    with s1 ok show ?thesis by (simp add: realloc_move_def)
  next
    case False
    with s1(5) obtain c0 where c0: "0 < q" "buffers s q = None" "request m \<le> length c0" "buffers s1 = (buffers s)(q \<mapsto> c0)" by auto
    have qp: "q \<noteq> p" using c0(2) p by auto
    obtain bs where inv: "heap_inv s1 bs" using heap_okE [OF s1(2)] .
    have q1: "buffers s1 q = Some c0" and p1: "buffers s1 p = Some cs" using c0(4) p qp by auto
    from buffers_block [OF inv q1] obtain us g vs where b: "bs = us @ (g, True) # vs" "q = heap_ptr s1 + total us + 12"
        "c0 = buffer s1 (total us) g" .
    from buffers_block [OF inv p1] obtain us2 h vs2 where b2: "bs = us2 @ (h, True) # vs2" "p = heap_ptr s1 + total us2 + 12"
        "cs = buffer s1 (total us2) h" .
    have cin: "(total us, g, True) \<in> set (cells 0 bs)" "(total us2, h, True) \<in> set (cells 0 bs)"
    proof -
      show "(total us, g, True) \<in> set (cells 0 bs)" unfolding b(1) by simp
      show "(total us2, h, True) \<in> set (cells 0 bs)" unfolding b2(1) by simp
    qed
    have ne: "total us \<noteq> total us2" using b(2) b2(2) qp by auto
    have len: "m + 12 \<le> g"
      using c0(3) [unfolded b(3) length_buffer] request_facts(1) [of m] request_ge [OF m(2)] by linarith
    have gh: "total us + g \<le> total us2 \<or> total us2 + h \<le> total us"
      using cells_apart [OF cin] cells_apart [OF cin(2,1)] ne by (auto simp: neq_iff)
    have h16: "16 \<le> h" using laid_out_block(2) [of s1 us2 h True vs2] heap_invD(1) [OF inv] b2(1) by simp
    define cnt where "cnt = min m (length cs)"
    have far: "q \<le> p \<or> p + cnt \<le> q"
      using gh len b(2) b2(2,3) h16 by (auto simp: cnt_def)
    define r where "r = rt_memcpy q p cnt (mem_ram s1)"
    have ra: "r x = (if q \<le> x \<and> x < q + cnt then mem_ram s1 (p + (x - q)) else mem_ram s1 x)" for x
      using far by (simp add: r_def memcpy_bytewise copy_bytes_apply)
    have "x < heap_ptr s1 + total us + 12 \<or> heap_ptr s1 + total us + g \<le> x \<Longrightarrow> r x = mem_ram s1 x" for x
      using len b(2) by (auto simp: ra cnt_def)
    note w = write_inv [OF inv [unfolded b(1)] this]
    define s2 where "s2 = s1\<lparr>mem_ram := r\<rparr>"
    define ds where "ds = buffer s2 (total us) g"
    have "take cnt ds = map r [q..<q + cnt]"
      using len b(2) by (simp add: ds_def buffer_def s2_def take_map min_def cnt_def)
    also have "\<dots> = map (mem_ram s1) [p..<p + cnt]"
      by (rule nth_equalityI) (simp_all add: ra)
    also have "\<dots> = take cnt cs"
      using b2(2,3) h16 by (simp add: buffer_def take_map min_def cnt_def add.assoc)
    finally have copied: "take cnt ds = take cnt cs" .
    have buf2: "buffers s2 = (buffers s1)(q \<mapsto> ds)" using w(2) b(2) by (simp add: s2_def ds_def)
    have ok2: "heap_ok s2" using heap_okI [OF w(1)] by (simp add: s2_def)
    have "buffers s2 p = Some cs" using p1 qp by (simp add: buf2)
    from rt_free_ok [OF ok2 this] obtain s3 where s3: "rt_free p s2 = Inr s3" "heap_ok s3"
        "buffers s3 = (buffers s2)(p := None)" "heap_ptr s3 = heap_ptr s2" "mem_size_aligned s3 = mem_size_aligned s2" by blast
    have "realloc_move p (length cs) m s = Inr (q, s3)"
    proof -
      have "(if length cs < m then length cs else m) = cnt" by (simp add: cnt_def min_def)
      then show ?thesis using s1(1) False s3(1) by (simp add: realloc_move_def Let_def s2_def r_def)
    qed
    moreover have "buffers s3 = (buffers s)(p := None, q \<mapsto> ds)"
      using qp by (simp add: s3(3) buf2 c0(4) fun_upd_twist)
    moreover have "m \<le> length ds" using len by (simp add: ds_def)
    ultimately show ?thesis
      using s3 s1(3,4) c0(1,2) copied by (intro exI [of _ q] exI [of _ s3]) (auto simp: s2_def cnt_def)
  qed
qed

lemma realloc_cases:
  assumes ok: "heap_ok s" and p: "buffers s p = Some cs" and n: "0 < n" "n \<le> 0xFFFFFFFC"
  defines "m \<equiv> rt_align n" and "s0 \<equiv> s\<lparr>heap_sem := rt_sem_init 0\<rparr>"
  obtains us g vs where "heap_inv s (us @ (g, True) # vs)" and "p = heap_ptr s + total us + 12" and "0 < p"
    and "cs = buffer s (total us) g" and "16 \<le> g" and "g \<le> mem_size_aligned s + 12"
    and "n \<le> m" and "m mod 4 = 0" and "m \<le> 0xFFFFFFFC" and "4 \<le> m"
    and "rt_realloc p n s = (if m > mem_size_aligned s then Inr (0, s)
      else if length cs = m then Inr (p, s)
      else if m + 36 < g then map_r (\<lambda>s. (p, s)) (realloc_shrink (heap_ptr s + total us) (g - 12) m s0)
      else realloc_move p (length cs) m s)"
proof -
  have m: "n \<le> m" "m mod 4 = 0" using rt_align_ge [OF n(2)] by (simp_all add: m_def)
  have m32: "m \<le> 0xFFFFFFFC"
  proof -
    have "m \<le> add32 n 3" unfolding m_def rt_align_def by (rule div_times_less_eq_dividend)
    moreover have "add32 n 3 < 2 ^ 32" unfolding add32_def by simp
    ultimately have "m \<le> 4294967295" by simp
    with m(2) show ?thesis by presburger
  qed
  have m4: "4 \<le> m" using m n(1) by presburger
  then have m0: "0 < m" by simp
  obtain bs where inv: "heap_inv s bs" using heap_okE [OF ok] .
  obtain us g vs where b: "bs = us @ (g, True) # vs" "p = heap_ptr s + total us + 12" "cs = buffer s (total us) g"
    using buffers_block [OF inv p] .
  note inv = inv [unfolded b(1)]
  note i = heap_invD [OF inv]
  note lb = laid_out_block [OF i(1)] and d = laid_outD [OF i(1)]
  have unl: "heap_unlock s0 = s" using i(7) by (cases s) (simp add: heap_unlock_taken s0_def)
  have len: "length cs = g - 12" by (simp add: b(3))
  have sub: "sub32 p 12 = heap_ptr s + total us" using b(2) lb(2,4) d(2,4) by simp
  have size: "sub32 (sub32 (next_of (heap_ptr s + total us) s0) (offset_of (heap_ptr s + total us) s0)) 12 = length cs"
    using lb(2,4,7,8) d(2,4) len by (simp add: s0_def)
  have pr: "p \<noteq> 0" "\<not> (p < heap_ptr s0 \<or> heap_end s0 \<le> p)"
    using b(2) lb(2,4) by (auto simp: s0_def)
  have ad: "add32 m (12 + 12) < length cs \<longleftrightarrow> m + 36 < g" if "m \<le> mem_size_aligned s"
    using that len d(3,4,10) lb(2) by (auto simp: add32_eq)
  have call: "rt_realloc p n s = (if m > mem_size_aligned s then Inr (0, s)
      else if length cs = m then Inr (p, s)
      else if m + 36 < g then map_r (\<lambda>s. (p, s)) (realloc_shrink (heap_ptr s + total us) (g - 12) m s0)
      else realloc_move p (length cs) m s)"
    unfolding rt_realloc_def Let_def m_def [symmetric] heap_lock_free [OF i(7)] bind_r_simps s0_def [symmetric] if_not_P [OF pr(2)]
      sub size unl
    using m0 pr(1) ad by (auto simp: len)
  show thesis
    using that [OF inv b(2) _ b(3) lb(2) _ m m32 m4 call] pr(1) d(3) by simp
qed

lemma rt_realloc_ok:
  assumes ok: "heap_ok s" and p: "buffers s p = Some cs" and n: "0 < n" "n \<le> 0xFFFFFFFC"
  shows "\<exists>q s'. rt_realloc p n s = Inr (q, s') \<and> heap_ok s' \<and>
    heap_ptr s' = heap_ptr s \<and> mem_size_aligned s' = mem_size_aligned s \<and>
    (q = 0 \<and> s' = s \<or>
     0 < q \<and> (q = p \<or> buffers s q = None) \<and> (\<exists>ds. n \<le> length ds \<and>
       take (min n (length cs)) ds = take (min n (length cs)) cs \<and>
       buffers s' = (buffers s)(p := None, q \<mapsto> ds)))"
proof -
  define m where "m = rt_align n"
  define s0 where "s0 = s\<lparr>heap_sem := rt_sem_init 0\<rparr>"
  obtain us g vs where inv: "heap_inv s (us @ (g, True) # vs)" and b: "p = heap_ptr s + total us + 12" "0 < p"
      "cs = buffer s (total us) g" and m: "n \<le> m" "m mod 4 = 0" and m32: "m \<le> 0xFFFFFFFC" and m4: "4 \<le> m"
    and call: "rt_realloc p n s = (if m > mem_size_aligned s then Inr (0, s)
      else if length cs = m then Inr (p, s)
      else if m + 36 < g then map_r (\<lambda>s. (p, s)) (realloc_shrink (heap_ptr s + total us) (g - 12) m s0)
      else realloc_move p (length cs) m s)"
    using realloc_cases [OF ok p n] unfolding m_def s0_def by metis
  have len: "length cs = g - 12" by (simp add: b(3))
  have m0: "0 < m" using m4 by simp
  consider "mem_size_aligned s < m" | "\<not> mem_size_aligned s < m" "length cs = m"
    | "\<not> mem_size_aligned s < m" "length cs \<noteq> m" "m + 36 < g"
    | "\<not> mem_size_aligned s < m" "length cs \<noteq> m" "\<not> m + 36 < g" by blast
  then show ?thesis
  proof cases
    case 1
    with ok show ?thesis by (simp add: call)
  next
    case 2
    with ok p m(1) b(2) show ?thesis
      by (intro exI [of _ p] exI [of _ s]) (auto simp: call fun_upd_idem)
  next
    case 3
    from realloc_shrink_spec [OF inv m4 m(2) 3(3)] obtain s' bs' where s':
        "realloc_shrink (heap_ptr s + total us) (g - 12) m s0 = Inr s'" "heap_inv s' bs'" "heap_ptr s' = heap_ptr s"
        "mem_size_aligned s' = mem_size_aligned s" "buffers s' = (buffers s)(p \<mapsto> take m cs)"
      unfolding s0_def b(1,3) by blast
    have "n \<le> length (take m cs) \<and> take (min n (length cs)) (take m cs) = take (min n (length cs)) cs \<and>
        buffers s' = (buffers s)(p := None, p \<mapsto> take m cs)"
      using 3 m(1) len s'(5) by (auto simp: min_def)
    moreover have "rt_realloc p n s = Inr (p, s')" using 3 s'(1) by (simp add: call)
    moreover have "0 < p" by (rule b(2))
    ultimately show ?thesis using s'(3,4) heap_okI [OF s'(2)] by blast
  next
    case 4
    from realloc_move_ok [OF ok p m0 m32] obtain q s' where s':
        "realloc_move p (length cs) m s = Inr (q, s')" "heap_ok s'" "heap_ptr s' = heap_ptr s"
        "mem_size_aligned s' = mem_size_aligned s" "q = 0 \<and> s' = s \<or>
     0 < q \<and> buffers s q = None \<and> (\<exists>ds. m \<le> length ds \<and> take (min m (length cs)) ds = take (min m (length cs)) cs \<and>
       buffers s' = (buffers s)(p := None, q \<mapsto> ds))" by blast
    have "take (min n (length cs)) ds = take (min n (length cs)) cs"
      if "take (min m (length cs)) ds = take (min m (length cs)) cs" for ds
    proof -
      from that have "take (min n (length cs)) (take (min m (length cs)) ds) = take (min n (length cs)) (take (min m (length cs)) cs)"
        by simp
      with m(1) show ?thesis by (simp add: min_def split: if_splits)
    qed
    moreover have "rt_realloc p n s = Inr (q, s')" using 4 s'(1) by (simp add: call)
    ultimately show ?thesis using s'(2-5) m(1) order_trans by blast
  qed
qed

text \<open>Cutting, and what it leaves of \<^verbatim>\<open>lfree\<close> when that stands at the end.\<close>

lemma plug_holes_end: "plug_holes p s = Inr s' \<Longrightarrow> lfree s = heap_end s \<Longrightarrow> lfree s' = heap_end s'"
  by (auto simp: plug_holes_def rt_assert_def plug_forward_def plug_backward_def Let_def split: if_splits)

lemma split_sel [simp]:
  "lfree (link_back x (split_block p x s)) = lfree s" "heap_end (link_back x (split_block p x s)) = heap_end s"
  by (simp_all add: link_back_def split_block_def Let_def)

lemma realloc_shrink_end:
  "realloc_shrink mem sz n s = Inr s' \<Longrightarrow> lfree s = heap_end s \<Longrightarrow> lfree s' = heap_end s'"
  by (auto simp: realloc_shrink_def Let_def map_r_eq_Inr dest!: plug_holes_end)

lemma realloc_cut:
  assumes ok: "heap_ok s" and p: "buffers s p = Some cs" and n: "0 < n" "n \<le> 0xFFFFFFFC"
    and cut: "rt_align n + 24 < length cs"
  shows "\<exists>s'. rt_realloc p n s = Inr (p, s') \<and> heap_ok s' \<and> buffers s' = (buffers s)(p \<mapsto> take (rt_align n) cs) \<and>
    (lfree s = heap_end s \<longrightarrow> lfree s' = heap_end s')"
proof -
  define s0 where "s0 = s\<lparr>heap_sem := rt_sem_init 0\<rparr>"
  obtain us g vs where inv: "heap_inv s (us @ (g, True) # vs)" and b: "p = heap_ptr s + total us + 12"
      "cs = buffer s (total us) g" "g \<le> mem_size_aligned s + 12" and m: "rt_align n mod 4 = 0" "4 \<le> rt_align n"
    and call: "rt_realloc p n s = (if rt_align n > mem_size_aligned s then Inr (0, s)
      else if length cs = rt_align n then Inr (p, s)
      else if rt_align n + 36 < g then map_r (\<lambda>s. (p, s)) (realloc_shrink (heap_ptr s + total us) (g - 12) (rt_align n) s0)
      else realloc_move p (length cs) (rt_align n) s)"
    using realloc_cases [OF ok p n] unfolding s0_def by metis
  have g: "rt_align n + 36 < g" using cut unfolding b(2) length_buffer by linarith
  from realloc_shrink_spec [OF inv m(2,1) g] obtain s' bs' where s':
      "realloc_shrink (heap_ptr s + total us) (g - 12) (rt_align n) s0 = Inr s'" "heap_inv s' bs'"
      "buffers s' = (buffers s)(p \<mapsto> take (rt_align n) cs)"
    unfolding s0_def b(1,2) by blast
  have "rt_realloc p n s = Inr (p, s')" using g b(3) cut s'(1) by (simp add: call)
  moreover have "lfree s = heap_end s \<longrightarrow> lfree s' = heap_end s'"
    using realloc_shrink_end [OF s'(1)] by (simp add: s0_def)
  ultimately show ?thesis using s'(3) heap_okI [OF s'(2)] by blast
qed

section \<open>The heap at the start\<close>

text \<open>An area of at least 42 bytes gives one free block; the counts are 0 as the C start-up leaves them.\<close>

lemma heap_init_blocks:
  assumes "0 < b" and "b + 42 \<le> e" and "e < 2 ^ 32" and "used_mem s = 0" and "max_mem s = 0"
  defines "s' \<equiv> rt_system_heap_init b e s"
  shows "heap_inv s' [(rt_align_down e - rt_align b - 12, False)]" and "heap_ptr s' = rt_align b"
    and "lfree s' = rt_align b"
proof -
  define E where "E = rt_align_down e - rt_align b - 12"
  have al: "rt_align b = (b + 3) div 4 * 4" using assms(2,3) by (simp add: rt_align_def)
  have e: "rt_align_down e \<le> e" "e < rt_align_down e + 4" unfolding rt_align_down_def by presburger+
  have b: "b \<le> rt_align b" "rt_align b < b + 4" unfolding al by presburger+
  have m: "rt_align b mod 4 = 0" "rt_align_down e mod 4 = 0" by (simp_all add: rt_align_down_def)
  have E: "rt_align b + E + 12 = rt_align_down e" "24 \<le> E" using e b assms(2) by (simp_all add: E_def)
  have E32: "rt_align b + E + 12 < 2 ^ 32" using E(1) e(1) assms(3) by simp
  have E4: "E mod 4 = 0" using m E(1) by presburger
  have cond: "2 * 12 < rt_align_down e \<and> rt_align b \<le> rt_align_down e - 2 * 12" using E by auto
  define h0 where "h0 = \<lparr>magic = HEAP_MAGIC, used = 0, next_item = size32 E, prev_item = 0\<rparr>"
  define h1 where "h1 = \<lparr>magic = HEAP_MAGIC, used = 1, next_item = size32 E, prev_item = size32 E\<rparr>"
  define s1 where "s1 = s\<lparr>mem_size_aligned := E - 12, heap_ptr := rt_align b\<rparr>"
  define s2 where "s2 = (set_item (rt_align b) (\<lambda>_. h0) s1)\<lparr>heap_end := rt_align b + E\<rparr>"
  define s3 where "s3 = set_item (rt_align b + E) (\<lambda>_. h1) s2"
  have "rt_align_down e - rt_align b - 2 * 12 = E - 12" by (simp add: E_def)
  moreover have "add32 (E - 12) 12 = E" using E(2) E32 by simp
  moreover have "at E (set_item (rt_align b) (\<lambda>_. h0) s1) = rt_align b + E" using E32 by (simp add: at_def s1_def)
  ultimately have s': "s' = s3\<lparr>heap_sem := rt_sem_init 1, lfree := rt_align b\<rparr>"
    using cond E32 unfolding s'_def rt_system_heap_init_def Let_def
    by (simp add: s1_def [symmetric] h0_def [symmetric] h1_def [symmetric] s3_def s2_def)
      (simp add: s1_def h0_def h1_def)
  have it: "item (rt_align b) s' = h0" "item (rt_align b + E) s' = h1"
    using E(2) by (simp_all add: s' s3_def s2_def)
  have sel: "heap_ptr s' = rt_align b" "heap_end s' = rt_align b + E" "mem_size_aligned s' = E - 12" "lfree s' = rt_align b"
      "heap_sem s' = rt_sem_init 1" "used_mem s' = 0" "max_mem s' = 0"
    using assms(4,5) by (simp_all add: s' s3_def s2_def s1_def)
  have lo: "laid_out s' [(E, False)]"
    using it E E4 E32 m b assms(1) by (simp add: laid_out_def sel h0_def h1_def size32_def)
  show "heap_inv s' [(rt_align_down e - rt_align b - 12, False)]"
    unfolding E_def [symmetric] heap_inv_def
    using lo by (simp add: sel lfree_ok_def is_free_def)
  show "heap_ptr s' = rt_align b" "lfree s' = rt_align b" by (simp_all add: sel)
qed

end
