(* ===== verification/Mem_Heap.thy ===== *)
theory Mem_Heap
  imports Mem_Realloc
begin

text \<open>
  What the heap promises its clients, over the map of buffers (\<open>buffers\<close>), and where it falls short.
\<close>

section \<open>A heap to show it on\<close>

text \<open>The memory of the target above its variables, with the counts 0 as at the start.\<close>

definition fresh_heap :: heap where
  "fresh_heap = rt_system_heap_init 0x20000100 0x20020000
     \<lparr>mem_ram = (\<lambda>_. 0), heap_ptr = 0, heap_end = 0, lfree = 0, heap_sem = rt_sem_init 0,
      mem_size_aligned = 0, used_mem = 0, max_mem = 0\<rparr>"

lemma fresh_heap_inv: "heap_inv fresh_heap [(130804, False)]" and fresh_heap_ptr: "heap_ptr fresh_heap = 0x20000100"
  and fresh_heap_lfree: "lfree fresh_heap = 0x20000100"
proof -
  define z :: heap where "z = \<lparr>mem_ram = (\<lambda>_. 0), heap_ptr = 0, heap_end = 0, lfree = 0, heap_sem = rt_sem_init 0,
      mem_size_aligned = 0, used_mem = 0, max_mem = 0\<rparr>"
  have z: "used_mem z = 0" "max_mem z = 0" by (simp_all add: z_def)
  have al: "rt_align 0x20000100 = 0x20000100" "rt_align_down 0x20020000 = 0x20020000"
    by (simp_all add: rt_align_def rt_align_down_def add32_def)
  from heap_init_blocks [of "0x20000100" "0x20020000" z] z
  show "heap_inv fresh_heap [(130804, False)]" "heap_ptr fresh_heap = 0x20000100" "lfree fresh_heap = 0x20000100"
    by (simp_all add: al fresh_heap_def z_def)
qed

lemma fresh_heap_facts:
  "heap_ok fresh_heap" "mem_size_aligned fresh_heap = 130792" "heap_end fresh_heap = 0x20000100 + 130804"
  "heap_blocks fresh_heap = [(0, 130804, False)]" "buffers fresh_heap = Map.empty" "heap_low fresh_heap"
proof -
  note i = heap_invD [OF fresh_heap_inv] and d = laid_outD [OF heap_invD(1) [OF fresh_heap_inv]]
  show "heap_ok fresh_heap" using fresh_heap_inv by (rule heap_okI)
  show "mem_size_aligned fresh_heap = 130792" "heap_end fresh_heap = 0x20000100 + 130804"
    using d(2,3) by (simp_all add: fresh_heap_ptr)
  show "heap_blocks fresh_heap = [(0, 130804, False)]" using heap_blocks_cells [OF i(1)] by simp
  show "buffers fresh_heap = Map.empty" using i(8) by simp
  show "heap_low fresh_heap" using i(9) by (simp add: heap_low_def lfree_low_def fresh_heap_lfree fresh_heap_ptr)
qed

text \<open>The first block that is allocated lies at the start.\<close>

lemma fresh_malloc:
  assumes n: "0 < n" "request n < 130792"
  shows "\<exists>s cs. rt_malloc n fresh_heap = Inr (0x2000010C, s) \<and> heap_ok s \<and> request n \<le> length cs \<and>
    buffers s = [0x2000010C \<mapsto> cs] \<and> (130768 < request n \<longrightarrow> lfree s = heap_end s) \<and>
    length cs = (if request n \<le> 130768 then request n else 130792) \<and> used_mem s = length cs + 12 \<and>
    mem_size_aligned s = 130792 \<and> heap_low s \<and> heap_inv s (taken (request n) 130804)"
  using fresh_heap_inv n(1)
proof (cases rule: rt_malloc_cases)
  case none
  with n fresh_heap_facts(2) show ?thesis
    using fresh_heap_lfree fresh_heap_ptr by auto
next
  case (some us g vs s)
  have u: "us = []" "g = 130804" "vs = []" using some(1) by (auto simp: Cons_eq_append_conv append_eq_Cons_conv)
  note some = some [unfolded u]
  let ?cs = "take (taken_len (request n) 130804 - 12) (buffer fresh_heap (total []) 130804)"
  have len: "length ?cs = (if request n \<le> 130768 then request n else 130792)"
    using n by (auto simp: taken_len_def)
  have "rt_malloc n fresh_heap = Inr (0x2000010C, s)" using some(3) by (simp add: fresh_heap_ptr)
  moreover have "buffers s = [0x2000010C \<mapsto> ?cs]" using some(7) by (simp add: fresh_heap_ptr fresh_heap_facts(5))
  moreover have "heap_ok s" using some(4) by (rule heap_okI)
  moreover have "lfree s = heap_end s" if "130768 < request n"
    using heap_invD(3) [OF some(4)] that laid_outD(2) [OF heap_invD(1) [OF some(4)]]
    by (auto simp: lfree_ok_def taken_def is_free_def)
  moreover have "used_mem s = length ?cs + 12"
    using some(9) len heap_invD(4) [OF fresh_heap_inv] by (simp add: taken_len_def)
  moreover have "mem_size_aligned s = 130792" using some(6) by (simp add: fresh_heap_facts(2))
  moreover have "request n \<le> length ?cs" using n(2) unfolding len by simp
  moreover have "heap_low s"
    using some(11) fresh_heap_facts(6) heap_invD(9) [OF fresh_heap_inv] heap_invD(9) [OF some(4)] by (simp add: heap_low_def)
  moreover have "heap_inv s (taken (request n) 130804)" using some(4) by simp
  ultimately show ?thesis using len by blast
qed

lemma request_small: "request 20 = 20" "request 8 = 12" "request 130780 = 130780"
  by (simp_all add: request_def rt_align_def add32_def)

text \<open>When \<^verbatim>\<open>rt_malloc\<close> refuses; the search does not look at a block that ends the heap and fits exactly.\<close>

lemma malloc_refuses:
  assumes ok: "heap_ok s" and low: "heap_low s" and n: "0 < n"
  shows "rt_malloc n s = Inr (0, s) \<longleftrightarrow>
    (\<forall>x g. (x, g, False) \<in> set (heap_blocks s) \<longrightarrow> x < mem_size_aligned s - request n \<longrightarrow> g < request n + 12)"
proof -
  obtain bs where inv: "heap_inv s bs" and bl: "heap_blocks s = cells 0 bs" using heap_okE [OF ok] .
  have low: "lfree s \<le> heap_ptr s + x" if "(x, g, False) \<in> set (cells 0 bs)" for x g
    using low that heap_invD(9) [OF inv] by (auto simp: heap_low_def lfree_low_def is_free_def)
  from inv n show ?thesis
  proof (cases rule: rt_malloc_cases)
    case none
    with low show ?thesis by (auto simp: bl)
  next
    case (some us g vs s')
    have "(total us, g, False) \<in> set (cells 0 bs)" unfolding some(1) by simp
    with some(2,3,13) show ?thesis by (auto simp: bl not_less)
  qed
qed

section \<open>The calls\<close>

text \<open>C13: \<^verbatim>\<open>rt_malloc\<close> returns NULL and changes nothing, or a pointer at a multiple of 4 that was not in use to a
buffer of at least the bytes asked for; all other buffers keep their contents, and no assertion fails.\<close>

theorem malloc_gives_new_buffer:
  assumes "heap_ok s" and "0 < n" and "n \<le> 0xFFFFFFFC"
  shows "\<exists>p s'. rt_malloc n s = Inr (p, s') \<and> heap_ok s' \<and>
    (p = 0 \<and> s' = s \<or>
     0 < p \<and> p mod 4 = 0 \<and> buffers s p = None \<and> (\<exists>cs. n \<le> length cs \<and> buffers s' = (buffers s)(p \<mapsto> cs)))"
proof -
  note r = request_ge [OF assms(3)]
  have "n \<le> length cs" if "request n \<le> length cs" for cs :: "u8 list" using r that by (rule order_trans)
  note longer = this
  from rt_malloc_ok [OF assms(1,2)] obtain p s' where p: "rt_malloc n s = Inr (p, s')" "heap_ok s'"
      "p = 0 \<and> s' = s \<or> 0 < p \<and> p mod 4 = 0 \<and> buffers s p = None \<and>
        (\<exists>cs. request n \<le> length cs \<and> buffers s' = (buffers s)(p \<mapsto> cs) \<and>
          used_mem s' = used_mem s + length cs + 12)"
    by (elim exE conjE) (rule that)
  from this(3) have "p = 0 \<and> s' = s \<or> 0 < p \<and> p mod 4 = 0 \<and> buffers s p = None \<and>
        (\<exists>cs. n \<le> length cs \<and> buffers s' = (buffers s)(p \<mapsto> cs))" using longer by blast
  with p(1,2) show ?thesis by (intro exI conjI)
qed

theorem malloc_gives_new_buffer_witness:
  "\<exists>s' cs. rt_malloc 20 fresh_heap = Inr (0x2000010C, s') \<and> heap_ok s' \<and> 20 \<le> length cs \<and> buffers s' = [0x2000010C \<mapsto> cs]"
proof -
  from fresh_malloc [of 20] obtain s where s: "rt_malloc 20 fresh_heap = Inr (0x2000010C, s)"
    unfolding request_small by auto
  from malloc_gives_new_buffer [OF fresh_heap_facts(1), of 20] obtain p s' where
    "rt_malloc 20 fresh_heap = Inr (p, s')" "heap_ok s'"
    "p = 0 \<or> (\<exists>cs. 20 \<le> length cs \<and> buffers s' = (buffers fresh_heap)(p \<mapsto> cs))" by auto
  with s show ?thesis unfolding fresh_heap_facts(5) by auto
qed

text \<open>The buffers of two pointers that are both in use do not overlap, and lie inside the heap.\<close>

lemma buffers_apart:
  assumes "heap_ok s" and "buffers s p = Some cs" and "buffers s q = Some ds" and "p \<noteq> q"
  shows "{p..<p + length cs} \<inter> {q..<q + length ds} = {} \<and>
    {p..<p + length cs} \<subseteq> {heap_ptr s..<heap_end s}"
proof -
  obtain bs where inv: "heap_inv s bs" using heap_okE [OF assms(1)] .
  obtain us g vs where b: "bs = us @ (g, True) # vs" "p = heap_ptr s + total us + 12" "cs = buffer s (total us) g"
    using buffers_block [OF inv assms(2)] .
  obtain us2 h vs2 where b2: "bs = us2 @ (h, True) # vs2" "q = heap_ptr s + total us2 + 12" "ds = buffer s (total us2) h"
    using buffers_block [OF inv assms(3)] .
  have l: "laid_out s (us @ (g, True) # vs)" "laid_out s (us2 @ (h, True) # vs2)"
    using heap_invD(1) [OF inv] b(1) b2(1) by simp_all
  note g = laid_out_block(2,4) [OF l(1)] and h = laid_out_block(2) [OF l(2)]
  have c: "(total us, g, True) \<in> set (cells 0 bs)" unfolding b(1) by simp
  have c2: "(total us2, h, True) \<in> set (cells 0 bs)" unfolding b2(1) by simp
  have "total us \<noteq> total us2" using b(2) b2(2) assms(4) by auto
  then have "total us + g \<le> total us2 \<or> total us2 + h \<le> total us"
    using cells_apart [OF c c2] cells_apart [OF c2 c] by (auto simp: neq_iff)
  then show ?thesis using b(2,3) b2(2,3) g h by auto
qed

text \<open>\<^verbatim>\<open>rt_free\<close> of a pointer that is in use passes its assertions and takes that buffer, and no other, out of the heap; the count of used bytes falls by its length and its header.\<close>

theorem free_takes_back:
  assumes "heap_ok s" and "buffers s p = Some cs"
  shows "\<exists>s'. rt_free p s = Inr s' \<and> heap_ok s' \<and> buffers s' = (buffers s)(p := None) \<and>
    used_mem s' + length cs + 12 = used_mem s"
  using rt_free_ok [OF assms] by (elim exE conjE) (intro exI conjI)

theorem free_takes_back_witness:
  "\<exists>s s' cs. length cs = 20 \<and> buffers s = [0x2000010C \<mapsto> cs] \<and> rt_free 0x2000010C s = Inr s' \<and> buffers s' = Map.empty \<and> used_mem s' = 0"
proof -
  from fresh_malloc [of 20] obtain s cs where s: "heap_ok s" "buffers s = [0x2000010C \<mapsto> cs]" "length cs = 20" "used_mem s = 32"
    unfolding request_small by auto
  from free_takes_back [of s "0x2000010C" cs] s show ?thesis by auto
qed

text \<open>Freeing the same pointer twice is caught: the second \<^verbatim>\<open>rt_free\<close> fails the assertion that the block is in use, also when the block has been joined with its neighbours.\<close>

theorem double_free_caught:
  assumes "heap_ok s" and "buffers s p = Some cs" and "rt_free p s = Inr s'"
  shows "rt_free p s' = Inl AssertFailed"
proof -
  from rt_free_ok [OF assms(1,2)] assms(3) have s': "heap_ok s'" "heap_ptr s' = heap_ptr s"
      "mem_size_aligned s' = mem_size_aligned s" "used (item (p - 12) s') = 0" by auto
  obtain bs where inv: "heap_inv s bs" using heap_okE [OF assms(1)] .
  obtain bs' where inv': "heap_inv s' bs'" using heap_okE [OF s'(1)] .
  obtain us g vs where b: "bs = us @ (g, True) # vs" "p = heap_ptr s + total us + 12"
    using buffers_block [OF inv assms(2)] .
  have lo: "laid_out s (us @ (g, True) # vs)" using heap_invD(1) [OF inv] b(1) by simp
  note l = laid_out_block(2,4) [OF lo] and d = laid_outD [OF heap_invD(1) [OF inv]] and d' = laid_outD [OF heap_invD(1) [OF inv']]
  have "heap_end s' = heap_end s" using d(2,3) d'(2,3) s'(2,3) by simp
  moreover have "sub32 p 12 = p - 12" using b(2) l d(2,4) by simp
  moreover have "p mod 4 = 0"
    using d(1) layout_total_mod [OF laid_out_block(11) [OF lo]] b(2) by (auto simp: mod_eq_0_iff_dvd)
  ultimately show ?thesis
    using heap_invD(7) [OF inv'] s'(2,4) b(2) l by (simp add: rt_free_def rt_assert_def Let_def)
qed

theorem double_free_caught_witness:
  "\<exists>s s'. rt_malloc 20 fresh_heap = Inr (0x2000010C, s) \<and> rt_free 0x2000010C s = Inr s' \<and>
     rt_free 0x2000010C s' = Inl AssertFailed"
proof -
  from fresh_malloc [of 20] obtain s cs where s: "rt_malloc 20 fresh_heap = Inr (0x2000010C, s)" "heap_ok s"
      "buffers s = [0x2000010C \<mapsto> cs]" unfolding request_small by auto
  from rt_free_ok [OF s(2), of "0x2000010C" cs] s(3) obtain s' where s': "rt_free 0x2000010C s = Inr s'" by auto
  from double_free_caught [OF s(2) _ s'] s(1,3) s' show ?thesis by auto
qed

text \<open>C15: \<^verbatim>\<open>rt_realloc\<close> of a pointer in use returns NULL and changes nothing, or a pointer to a buffer of at least the bytes asked for that begins with the old contents, as far as both reach; the old pointer is gone (unless it is the one returned) and all other buffers keep their contents.\<close>

theorem realloc_keeps_contents:
  assumes "heap_ok s" and "buffers s p = Some cs" and "0 < n" and "n \<le> 0xFFFFFFFC"
  shows "\<exists>q s'. rt_realloc p n s = Inr (q, s') \<and> heap_ok s' \<and>
    (q = 0 \<and> s' = s \<or>
     0 < q \<and> (q = p \<or> buffers s q = None) \<and>
     (\<exists>ds. n \<le> length ds \<and> take (min n (length cs)) ds = take (min n (length cs)) cs \<and>
       buffers s' = (buffers s)(p := None, q \<mapsto> ds)))"
  using rt_realloc_ok [OF assms] by (elim exE conjE) (intro exI conjI)

theorem realloc_keeps_contents_witness:
  "\<exists>s cs q s'. length cs = 20 \<and> buffers s = [0x2000010C \<mapsto> cs] \<and> rt_realloc 0x2000010C 8 s = Inr (q, s') \<and> heap_ok s' \<and>
     (q = 0 \<and> s' = s \<or> (\<exists>ds. 8 \<le> length ds \<and> take 8 ds = take 8 cs \<and> buffers s' = [q \<mapsto> ds]))"
proof -
  from fresh_malloc [of 20] obtain s cs where s: "heap_ok s" "buffers s = [0x2000010C \<mapsto> cs]" "length cs = 20"
    unfolding request_small by auto
  from realloc_keeps_contents [of s "0x2000010C" cs 8] s show ?thesis by fastforce
qed

text \<open>\<^verbatim>\<open>rt_calloc\<close>, where the product does not wrap around, gives a new buffer that begins with as many zero bytes as were asked for, or NULL.\<close>

theorem calloc_zeroes:
  assumes "heap_ok s" and "0 < count * n" and "count * n \<le> 0xFFFFFFFC"
  shows "\<exists>p s'. rt_calloc count n s = Inr (p, s') \<and> heap_ok s' \<and>
    (p = 0 \<and> s' = s \<or>
     0 < p \<and> buffers s p = None \<and>
     (\<exists>cs. take (count * n) cs = replicate (count * n) 0 \<and> count * n \<le> length cs \<and> buffers s' = (buffers s)(p \<mapsto> cs)))"
proof -
  have "mul32 count n = count * n" using assms(3) by (simp add: mul32_def)
  with rt_calloc_ok [OF assms(1), of count n] assms(2,3) show ?thesis by simp
qed

theorem calloc_zeroes_witness:
  "\<exists>p s'. rt_calloc 5 4 fresh_heap = Inr (p, s') \<and> heap_ok s' \<and>
     (p = 0 \<or> (\<exists>cs. take 20 cs = replicate 20 0 \<and> buffers s' = [p \<mapsto> cs]))"
  using calloc_zeroes [OF fresh_heap_facts(1), of 5 4] by (auto simp: fresh_heap_facts(5))

text \<open>C16: As long as no block was made smaller, \<^verbatim>\<open>rt_malloc\<close> refuses exactly when no free block of the heap is long enough: only one that would end exactly at the end of the heap does not count.\<close>

theorem malloc_refuses_iff:
  assumes "heap_ok s" and "heap_low s" and "0 < n"
  shows "rt_malloc n s = Inr (0, s) \<longleftrightarrow>
    (\<forall>x g. (x, g, False) \<in> set (heap_blocks s) \<longrightarrow> x < mem_size_aligned s - request n \<longrightarrow> g < request n + 12)"
  using assms by (rule malloc_refuses)

theorem malloc_refuses_iff_witness:
  "rt_malloc 130780 fresh_heap \<noteq> Inr (0, fresh_heap) \<and> rt_malloc 130792 fresh_heap = Inr (0, fresh_heap)"
proof -
  have "request 130792 = 130792" by (simp add: request_def rt_align_def add32_def)
  then show ?thesis
    using malloc_refuses_iff [OF fresh_heap_facts(1,6), of 130780] malloc_refuses_iff [OF fresh_heap_facts(1,6), of 130792]
    by (simp add: fresh_heap_facts(2,4) request_small)
qed

text \<open>C17: Freeing what \<^verbatim>\<open>rt_malloc\<close> has just returned restores the blocks, the buffers and the count of used bytes.\<close>

theorem malloc_free_restores:
  assumes ok: "heap_ok s" and n: "0 < n" and m: "rt_malloc n s = Inr (p, s1)" and p: "p \<noteq> 0"
  shows "\<exists>s2. rt_free p s1 = Inr s2 \<and> heap_blocks s2 = heap_blocks s \<and> buffers s2 = buffers s \<and> used_mem s2 = used_mem s"
proof -
  from rt_malloc_ok [OF ok n] m p obtain cs where s1: "heap_ok s1" "heap_ptr s1 = heap_ptr s" "mem_size_aligned s1 = mem_size_aligned s"
      "buffers s p = None" "buffers s1 = (buffers s)(p \<mapsto> cs)" "used_mem s1 = used_mem s + length cs + 12" by auto
  from rt_free_ok [OF s1(1), of p cs] s1(5) obtain s2 where s2: "rt_free p s1 = Inr s2" "heap_ok s2"
      "buffers s2 = (buffers s1)(p := None)" "heap_ptr s2 = heap_ptr s1" "mem_size_aligned s2 = mem_size_aligned s1"
      "used_mem s2 + length cs + 12 = used_mem s1" by auto
  have "buffers s2 = buffers s" using s2(3) s1(4,5) by (simp add: fun_upd_idem)
  moreover from this have "heap_blocks s2 = heap_blocks s"
    using s1 s2 by (intro same_buffers_same_blocks [OF ok]) simp_all
  ultimately show ?thesis using s2(1,6) s1(6) by auto
qed

theorem malloc_free_restores_witness:
  "\<exists>s1 s2. rt_malloc 20 fresh_heap = Inr (0x2000010C, s1) \<and> rt_free 0x2000010C s1 = Inr s2 \<and>
     heap_blocks s2 = [(0, 130804, False)]"
proof -
  from fresh_malloc [of 20] obtain s where "rt_malloc 20 fresh_heap = Inr (0x2000010C, s)"
    unfolding request_small by auto
  with malloc_free_restores [OF fresh_heap_facts(1) _ this] show ?thesis
    by (auto simp: fresh_heap_facts(4))
qed

text \<open>When all buffers have been given back, in whatever order, the heap is one free block again.\<close>

theorem all_freed_one_block:
  assumes "heap_ok s" and "buffers s = Map.empty"
  shows "heap_blocks s = [(0, mem_size_aligned s + 12, False)]"
proof -
  obtain bs where inv: "heap_inv s bs" and bl: "heap_blocks s = cells 0 bs" using heap_okE [OF assms(1)] .
  have free: "(o1, g, True) \<notin> set (cells 0 bs)" for o1 g
    unfolding buffers_cell [OF inv] assms(2) by simp
  note d = laid_outD [OF heap_invD(1) [OF inv]]
  obtain g u cs where b: "bs = (g, u) # cs" using d(5) by (cases bs) auto
  have "\<not> u" using free [of 0 g] b by auto
  moreover have "cs = []"
  proof (rule ccontr)
    assume "cs \<noteq> []"
    then obtain h v ds where c: "cs = (h, v) # ds" by (cases cs) auto
    have "v" using heap_invD(2) [OF inv] \<open>\<not> u\<close> b c by auto
    then show False using free [of g h] b c by simp
  qed
  ultimately show ?thesis using b bl d(3) by simp
qed

theorem all_freed_one_block_witness:
  "\<exists>s s'. buffers s \<noteq> Map.empty \<and> rt_free 0x2000010C s = Inr s' \<and> heap_blocks s' = [(0, 130804, False)]"
proof -
  from fresh_malloc [of 20] obtain s cs where s: "heap_ok s" "buffers s = [0x2000010C \<mapsto> cs]" "mem_size_aligned s = 130792"
    unfolding request_small by auto
  from rt_free_ok [OF s(1), of "0x2000010C" cs] s(2) obtain s' where s': "rt_free 0x2000010C s = Inr s'" "heap_ok s'"
      "buffers s' = Map.empty" "mem_size_aligned s' = mem_size_aligned s" by auto
  from all_freed_one_block [OF s'(2,3)] s s' show ?thesis by (intro exI [of _ s] exI [of _ s']) simp
qed

section \<open>The counts\<close>

text \<open>The buffers in use, with the headers before them.\<close>

lemma used_total_sum:
  assumes "layout t pv off bs"
  shows "finite (dom (live s (cells off bs))) \<and>
    (\<Sum>p \<in> dom (live s (cells off bs)). length (the (live s (cells off bs) p)) + 12) = used_total bs"
  using assms
proof (induction t pv off bs rule: layout.induct)
  case (1 t pv off)
  then show ?case by simp
next
  case (2 t pv off g u bs)
  let ?m = "live s (cells (off + g) bs)" and ?p = "heap_ptr s + off + 12"
  have IH: "finite (dom ?m)" "(\<Sum>p \<in> dom ?m. length (the (?m p)) + 12) = used_total bs" using 2 by simp_all
  have g: "16 \<le> g" and lay: "layout t off (off + g) bs" using 2 by simp_all
  show ?case
  proof (cases u)
    case True
    have "?m ?p = None" using g by (intro live_outside [OF lay]) simp
    then have np: "?p \<notin> dom ?m" by auto
    have "(\<Sum>p \<in> dom ?m. length (the ((?m(?p \<mapsto> buffer s off g)) p)) + 12) = (\<Sum>p \<in> dom ?m. length (the (?m p)) + 12)"
      using np by (intro sum.cong) auto
    define m' where "m' = ?m(?p \<mapsto> buffer s off g)"
    have "dom m' = insert ?p (dom ?m)" "m' ?p = Some (buffer s off g)" by (simp_all add: m'_def)
    moreover have "(\<Sum>p \<in> dom ?m. length (the (m' p)) + 12) = used_total bs"
      using IH(2) \<open>(\<Sum>p \<in> dom ?m. length (the ((?m(?p \<mapsto> buffer s off g)) p)) + 12) = (\<Sum>p \<in> dom ?m. length (the (?m p)) + 12)\<close>
      by (simp only: m'_def)
    ultimately have "finite (dom m') \<and> (\<Sum>p \<in> dom m'. length (the (m' p)) + 12) = g + used_total bs"
      using IH(1) np g by simp
    moreover have "live s (cells off ((g, u) # bs)) = m'" "used_total ((g, u) # bs) = g + used_total bs"
      using True by (simp_all add: m'_def)
    ultimately show ?thesis by simp
  next
    case False
    with IH show ?thesis by simp
  qed
qed

text \<open>\<^verbatim>\<open>rt_memory_info\<close> is exact: the bytes in use are the lengths of all buffers and 12 bytes for each, and the highest value ever is not below it.\<close>

theorem memory_info_exact:
  assumes "heap_ok s"
  shows "fst (snd (rt_memory_info s)) = (\<Sum>p \<in> dom (buffers s). length (the (buffers s p)) + 12) \<and>
    fst (snd (rt_memory_info s)) \<le> snd (snd (rt_memory_info s)) \<and>
    snd (snd (rt_memory_info s)) \<le> fst (rt_memory_info s) + 12"
proof -
  obtain bs where inv: "heap_inv s bs" using heap_okE [OF assms] .
  note i = heap_invD [OF inv] and d = laid_outD [OF heap_invD(1) [OF inv]]
  show ?thesis using used_total_sum [OF d(6), of s] i d(3) by (simp add: rt_memory_info_def)
qed

theorem memory_info_exact_witness:
  "\<exists>s. rt_malloc 20 fresh_heap = Inr (0x2000010C, s) \<and> fst (snd (rt_memory_info s)) = 32"
proof -
  from fresh_malloc [of 20] obtain s cs where s: "rt_malloc 20 fresh_heap = Inr (0x2000010C, s)" "heap_ok s"
      "buffers s = [0x2000010C \<mapsto> cs]" "length cs = 20" unfolding request_small by auto
  from memory_info_exact [OF s(2)] s(3,4) have "fst (snd (rt_memory_info s)) = 32" by simp
  with s(1) show ?thesis by blast
qed

section \<open>Where it falls short\<close>

text \<open>A request that is so large that aligning it wraps around is answered like one for 12 bytes, with a buffer, instead of being refused.\<close>

theorem malloc_size_wraps:
  assumes "heap_ok s" and "0xFFFFFFFC < n" and "n < 2 ^ 32"
  shows "rt_malloc n s = rt_malloc 12 s"
proof -
  obtain bs where "heap_inv s bs" using heap_okE [OF assms(1)] .
  from laid_outD(3,5) [OF heap_invD(1) [OF this]] have m: "12 \<le> mem_size_aligned s" by simp
  have "add32 n 3 = n + 3 - 2 ^ 32"
  proof -
    have "n + 3 = (n + 3 - 2 ^ 32) + 2 ^ 32" using assms(2) by simp
    then have "add32 n 3 = (n + 3 - 2 ^ 32) mod 2 ^ 32" unfolding add32_def by (metis mod_add_self2)
    then show ?thesis using assms(3) by simp
  qed
  moreover have "n + 3 - 2 ^ 32 < 4" using assms(3) by simp
  ultimately have "rt_align n = 0" by (simp add: rt_align_def)
  moreover have "rt_align 12 = 12" by (simp add: rt_align_def add32_def)
  ultimately show ?thesis using m assms(2) by (simp add: rt_malloc_def Let_def)
qed

theorem malloc_size_wraps_witness:
  "\<exists>s cs. rt_malloc 0xFFFFFFFF fresh_heap = Inr (0x2000010C, s) \<and> buffers s = [0x2000010C \<mapsto> cs] \<and> length cs = 12"
proof -
  have r: "request 12 = 12" by (simp add: request_def rt_align_def add32_def)
  from fresh_malloc [of 12] obtain s cs where "rt_malloc 12 fresh_heap = Inr (0x2000010C, s)" "buffers s = [0x2000010C \<mapsto> cs]"
      "length cs = 12" unfolding r by auto
  with malloc_size_wraps [OF fresh_heap_facts(1), of "0xFFFFFFFF"] show ?thesis by auto
qed

text \<open>With \<^verbatim>\<open>lfree\<close> at the end of the heap every request is refused.\<close>

lemma malloc_at_end:
  assumes "heap_ok s" and "lfree s = heap_end s" and "0 < n"
  shows "rt_malloc n s = Inr (0, s)"
proof -
  obtain bs where inv: "heap_inv s bs" using heap_okE [OF assms(1)] .
  note i = heap_invD [OF inv] and d = laid_outD [OF heap_invD(1) [OF inv]]
  define s0 where "s0 = s\<lparr>heap_sem := rt_sem_init 0\<rparr>"
  have unl: "heap_unlock s0 = s" using i(7) by (cases s) (simp add: heap_unlock_taken s0_def)
  have off: "offset_of (lfree s0) s0 = total bs" using assms(2) d(2,4) by (simp add: offset_of_def s0_def)
  have "malloc_search (heap_fuel s0) (total bs) k s0 = Inr None" if "k \<le> mem_size_aligned s" for k
  proof -
    have "sub32 (mem_size_aligned s0) k = mem_size_aligned s - k" using that d(3,4) by (simp add: s0_def)
    moreover have "\<not> total bs < mem_size_aligned s - k" using d(3) by simp
    ultimately show ?thesis by (simp add: heap_fuel_def)
  qed
  then show ?thesis
    using assms(3) d(3,5) i(7) off unl by (simp add: rt_malloc_def Let_def s0_def [symmetric])
qed

text \<open>C19: \<^verbatim>\<open>rt_realloc\<close> that makes a block smaller does not lower \<^verbatim>\<open>lfree\<close>: in a heap that was full, what it cuts off is not found by any request.\<close>

theorem cut_off_rest_lost:
  assumes ok: "heap_ok s" and full: "lfree s = heap_end s" and p: "buffers s p = Some cs"
    and n: "0 < n" "n \<le> 0xFFFFFFFC" and cut: "rt_align n + 24 < length cs" and k: "0 < k"
  shows "\<exists>s' ds. rt_realloc p n s = Inr (p, s') \<and> buffers s' = (buffers s)(p \<mapsto> ds) \<and> length ds < length cs \<and>
    rt_malloc k s' = Inr (0, s')"
proof -
  obtain s' where s': "rt_realloc p n s = Inr (p, s')" "lfree s' = heap_end s'" "heap_ok s'"
      "buffers s' = (buffers s)(p \<mapsto> take (rt_align n) cs)"
    using realloc_cut [OF ok p n cut] full by auto
  then show ?thesis using malloc_at_end [OF s'(3,2) k] cut
    by (intro exI [of _ s'] exI [of _ "take (rt_align n) cs"]) auto
qed

theorem cut_off_rest_lost_witness:
  "\<exists>s s' cs ds. length cs = 130792 \<and> length ds < 130792 \<and> rt_realloc 0x2000010C 20 s = Inr (0x2000010C, s') \<and>
     buffers s = [0x2000010C \<mapsto> cs] \<and> buffers s' = [0x2000010C \<mapsto> ds] \<and> rt_malloc 8 s' = Inr (0, s')"
proof -
  from fresh_malloc [of 130780] obtain s cs where s: "heap_ok s" "lfree s = heap_end s"
      "buffers s = [0x2000010C \<mapsto> cs]" "length cs = 130792" unfolding request_small by auto
  have "rt_align 20 = 20" by (simp add: rt_align_def add32_def)
  with cut_off_rest_lost [OF s(1,2), of "0x2000010C" cs 20 8] s(3,4) show ?thesis by fastforce
qed

text \<open>Making a block smaller by up to 24 bytes moves it: in a full heap \<^verbatim>\<open>rt_realloc\<close> answers NULL for a size that the block has.\<close>

theorem smaller_block_refused:
  assumes ok: "heap_ok s" and full: "lfree s = heap_end s" and p: "buffers s p = Some cs"
    and n: "0 < n" "n \<le> 0xFFFFFFFC" and smaller: "rt_align n < length cs" "length cs \<le> rt_align n + 24"
  shows "rt_realloc p n s = Inr (0, s)"
proof -
  obtain us g vs where r: "cs = buffer s (total us) g" "4 \<le> rt_align n" "rt_realloc p n s = (if rt_align n > mem_size_aligned s then Inr (0, s)
      else if length cs = rt_align n then Inr (p, s)
      else if rt_align n + 36 < g then map_r (\<lambda>s. (p, s)) (realloc_shrink (heap_ptr s + total us) (g - 12) (rt_align n) (s\<lparr>heap_sem := rt_sem_init 0\<rparr>))
      else realloc_move p (length cs) (rt_align n) s)"
    using realloc_cases [OF ok p n] by metis
  have "\<not> rt_align n + 36 < g" using smaller(2) unfolding r(1) length_buffer by linarith
  moreover have "realloc_move p (length cs) (rt_align n) s = Inr (0, s)"
    using malloc_at_end [OF ok full, of "rt_align n"] r(2) by (simp add: realloc_move_def)
  ultimately show ?thesis using smaller(1) by (simp add: r(3))
qed

theorem smaller_block_refused_witness:
  "\<exists>s cs. length cs = 130792 \<and> buffers s = [0x2000010C \<mapsto> cs] \<and> rt_realloc 0x2000010C 130780 s = Inr (0, s)"
proof -
  from fresh_malloc [of 130780] obtain s cs where s: "heap_ok s" "lfree s = heap_end s"
      "buffers s = [0x2000010C \<mapsto> cs]" "length cs = 130792" unfolding request_small by auto
  have "rt_align 130780 = 130780" by (simp add: rt_align_def add32_def)
  with smaller_block_refused [OF s(1,2), of "0x2000010C" cs 130780] s(3,4) show ?thesis by auto
qed

section \<open>Runs of calls\<close>

text \<open>
  The calls of clients that keep to the rules: they free and resize only what they hold, write only
  inside it, and do not ask for more than an address space holds. Other calls are left out of a run.
\<close>

datatype heap_event = Alloc nat | ZeroAlloc nat nat | Resize nat nat | Release nat | Write nat nat u8

definition allowed :: "heap_event \<Rightarrow> heap \<Rightarrow> bool" where
  "allowed ev s =
     (case ev of
        Alloc n \<Rightarrow> True
      | ZeroAlloc c n \<Rightarrow> mul32 c n \<le> 0xFFFFFFFC
      | Resize p n \<Rightarrow> n \<le> 0xFFFFFFFC \<and> (p = 0 \<or> buffers s p \<noteq> None)
      | Release p \<Rightarrow> p = 0 \<or> buffers s p \<noteq> None
      | Write p i v \<Rightarrow> (case buffers s p of None \<Rightarrow> False | Some cs \<Rightarrow> i < length cs))"

definition heap_step :: "heap_event \<Rightarrow> heap \<Rightarrow> heap result" where
  "heap_step ev s =
     (if allowed ev s
      then case ev of
          Alloc n \<Rightarrow> map_r snd (rt_malloc n s)
        | ZeroAlloc c n \<Rightarrow> map_r snd (rt_calloc c n s)
        | Resize p n \<Rightarrow> map_r snd (rt_realloc p n s)
        | Release p \<Rightarrow> rt_free p s
        | Write p i v \<Rightarrow> Inr (s\<lparr>mem_ram := (mem_ram s)(p + i := v)\<rparr>)
      else Inr s)"

text \<open>The pointer an event names.\<close>

definition names :: "heap_event \<Rightarrow> nat \<Rightarrow> bool" where
  "names ev p = (case ev of Resize q n \<Rightarrow> p = q | Release q \<Rightarrow> p = q | Write q i v \<Rightarrow> p = q | _ \<Rightarrow> False)"

lemma rt_free_step:
  assumes ok: "heap_ok s" and "p = 0 \<or> (\<exists>cs. buffers s p = Some cs)"
  shows "\<exists>s'. rt_free p s = Inr s' \<and> heap_ok s' \<and> (\<forall>q. q \<noteq> p \<longrightarrow> buffers s q \<noteq> None \<longrightarrow> buffers s' q = buffers s q)"
  using assms(2)
proof
  assume "p = 0"
  with ok show ?thesis by (simp add: rt_free_def)
next
  assume "\<exists>cs. buffers s p = Some cs"
  then obtain cs where "buffers s p = Some cs" by blast
  from rt_free_ok [OF ok this] show ?thesis by auto
qed

lemma heap_step_ok:
  assumes ok: "heap_ok s"
  shows "\<exists>s'. heap_step ev s = Inr s' \<and> heap_ok s' \<and> (\<forall>p. \<not> names ev p \<longrightarrow> buffers s p \<noteq> None \<longrightarrow> buffers s' p = buffers s p)"
proof (cases "allowed ev s")
  case False
  with ok show ?thesis by (simp add: heap_step_def)
next
  case True
  show ?thesis
  proof (cases ev)
    case (Alloc n)
    show ?thesis
    proof (cases "n = 0")
      case True
      with Alloc ok \<open>allowed ev s\<close> show ?thesis by (simp add: heap_step_def rt_malloc_def)
    next
      case False
      with rt_malloc_ok [OF ok, of n] Alloc True show ?thesis by (fastforce simp: heap_step_def)
    qed
  next
    case (ZeroAlloc c n)
    show ?thesis
    proof (cases "mul32 c n = 0")
      case z: True
      with ZeroAlloc ok True show ?thesis by (simp add: heap_step_def rt_calloc_def rt_malloc_def)
    next
      case False
      with True ZeroAlloc rt_calloc_ok [OF ok, of c n] show ?thesis by (fastforce simp: heap_step_def allowed_def)
    qed
  next
    case (Resize p n)
    have n: "n \<le> 0xFFFFFFFC" using True Resize by (simp add: allowed_def)
    show ?thesis
    proof (cases "p = 0 \<or> n = 0")
      case False
      then obtain cs where "buffers s p = Some cs" using True Resize by (auto simp: allowed_def)
      from rt_realloc_ok [OF ok this] False n obtain q s' where q: "rt_realloc p n s = Inr (q, s')" "heap_ok s'"
        "q = 0 \<and> s' = s \<or> (q = p \<or> buffers s q = None) \<and> (\<exists>ds. buffers s' = (buffers s)(p := None, q \<mapsto> ds))"
        by blast
      have "buffers s' r = buffers s r" if "r \<noteq> p" "buffers s r \<noteq> None" for r
        using q(3) that by auto
      moreover have "heap_step ev s = Inr s'" using q(1) True Resize by (simp add: heap_step_def)
      ultimately show ?thesis using q(2) Resize by (auto simp: names_def)
    next
      case pn: True
      have free: "p = 0 \<or> (\<exists>cs. buffers s p = Some cs)" using True Resize by (auto simp: allowed_def)
      show ?thesis
      proof (cases "n = 0")
        case n0: True
        have "rt_align 0 = 0" by (simp add: rt_align_def add32_def)
        then have "heap_step ev s = rt_free p s"
          using n0 True Resize by (cases "rt_free p s") (simp_all add: heap_step_def rt_realloc_def)
        with rt_free_step [OF ok free] Resize show ?thesis by (simp add: names_def)
      next
        case False
        then have p0: "p = 0" and m: "0 < rt_align n" using pn rt_align_ge [OF n] by auto
        then have "heap_step ev s = (if mem_size_aligned s < rt_align n then Inr s else map_r snd (rt_malloc (rt_align n) s))"
          using True Resize by (simp add: heap_step_def rt_realloc_def Let_def)
        with rt_malloc_ok [OF ok m] ok show ?thesis by fastforce
      qed
    qed
  next
    case (Release p)
    have "p = 0 \<or> (\<exists>cs. buffers s p = Some cs)" using True Release by (auto simp: allowed_def)
    from rt_free_step [OF ok this] True Release show ?thesis by (simp add: heap_step_def names_def)
  next
    case (Write p i v)
    then obtain cs where cs: "buffers s p = Some cs" "i < length cs"
      using True by (auto simp: allowed_def split: option.splits)
    obtain bs where inv: "heap_inv s bs" using heap_okE [OF ok] .
    obtain us g vs where b: "bs = us @ (g, True) # vs" "p = heap_ptr s + total us + 12" "cs = buffer s (total us) g"
      using buffers_block [OF inv cs(1)] .
    define r where "r = (mem_ram s)(p + i := v)"
    have "r x = mem_ram s x"
      if "x < heap_ptr s + total us + 12 \<or> heap_ptr s + total us + g \<le> x" for x
      using that b(2) cs(2) [unfolded b(3) length_buffer] by (auto simp: r_def)
    note w = write_inv [OF inv [unfolded b(1)], of r, OF this, folded b(2)]
    have "heap_step ev s = Inr (s\<lparr>mem_ram := r\<rparr>)" using True Write by (simp add: heap_step_def r_def)
    moreover note heap_okI [OF w(1)]
    moreover have "buffers (s\<lparr>mem_ram := r\<rparr>) q = buffers s q" if "\<not> names ev q" for q
      using w(2) that Write by (auto simp: names_def)
    ultimately show ?thesis by blast
  qed
qed

interpretation heap: safe_component
  "\<lambda>s. \<exists>b e t. 0 < b \<and> b + 42 \<le> e \<and> e < 2 ^ 32 \<and> used_mem t = 0 \<and> max_mem t = 0 \<and> s = rt_system_heap_init b e t"
  heap_step heap_ok
proof
  show "heap_ok s"
    if "\<exists>b e t. 0 < b \<and> b + 42 \<le> e \<and> e < 2 ^ 32 \<and> used_mem t = 0 \<and> max_mem t = 0 \<and> s = rt_system_heap_init b e t" for s
    using that heap_init_blocks(1) heap_okI by blast
  show "heap_ok s'" if "heap_ok s" "heap_step ev s = Inr s'" for s ev s'
    using heap_step_ok [OF that(1), of ev] that(2) by simp
  show "\<exists>s'. heap_step ev s = Inr s'" if "heap_ok s" for s ev
    using heap_step_ok [OF that, of ev] by blast
qed

text \<open>C11: From the heap that \<^verbatim>\<open>rt_system_heap_init\<close> makes of an area of at least 42 bytes, every run of calls of rule-abiding clients gets through, with no assertion failing and no loop without end, and leaves a heap in order: headers linked in both directions, no two free blocks side by side, \<^verbatim>\<open>lfree\<close> at a free block or the end, the count exact, and the semaphore released.\<close>

theorem heap_well_formed:
  assumes "0 < b" and "b + 42 \<le> e" and "e < 2 ^ 32" and "used_mem t = 0" and "max_mem t = 0"
  shows "\<exists>s'. fold_r heap_step evs (rt_system_heap_init b e t) = Inr s' \<and> heap_ok s'"
  using assms by (intro heap.run_total heap.inv_start) blast

theorem heap_well_formed_witness:
  "\<exists>s'. fold_r heap_step [Alloc 20, Alloc 30, Write 0x2000010C 3 7, Resize 0x2000010C 8, Release 0x2000010C, ZeroAlloc 5 6]
     fresh_heap = Inr s' \<and> heap_ok s'"
  unfolding fresh_heap_def by (rule heap_well_formed) simp_all

lemma others_leave:
  assumes "heap_ok s" and "buffers s p = Some cs" and "\<forall>ev \<in> set evs. \<not> names ev p"
  shows "\<exists>s'. fold_r heap_step evs s = Inr s' \<and> heap_ok s' \<and> buffers s' p = Some cs"
  using assms
proof (induction evs arbitrary: s)
  case Nil
  then show ?case by simp
next
  case (Cons ev evs)
  from heap_step_ok [OF Cons.prems(1), of ev] Cons.prems(2,3) obtain s1 where
    "heap_step ev s = Inr s1" "heap_ok s1" "buffers s1 p = Some cs" by auto
  with Cons.IH [of s1] Cons.prems(3) show ?case by simp
qed

text \<open>C12: Whatever other clients do, a client's buffer keeps its contents and its pointer as long as no call names it.\<close>

theorem others_leave_my_buffer:
  assumes "heap_ok s" and "buffers s p = Some cs" and "\<forall>ev \<in> set evs. \<not> names ev p"
  shows "\<exists>s'. fold_r heap_step evs s = Inr s' \<and> heap_ok s' \<and> buffers s' p = Some cs"
  using assms by (rule others_leave)

theorem others_leave_my_buffer_witness:
  "\<exists>s s' cs. rt_malloc 20 fresh_heap = Inr (0x2000010C, s) \<and> buffers s 0x2000010C = Some cs \<and>
     fold_r heap_step [Alloc 100, Alloc 200, ZeroAlloc 3 4, Release 0] s = Inr s' \<and> buffers s' 0x2000010C = Some cs"
proof -
  from fresh_malloc [of 20] obtain s cs where s: "rt_malloc 20 fresh_heap = Inr (0x2000010C, s)" "heap_ok s"
      "buffers s = [0x2000010C \<mapsto> cs]" unfolding request_small by auto
  have "buffers s 0x2000010C = Some cs" using s(3) by simp
  from others_leave_my_buffer [OF s(2) this, of "[Alloc 100, Alloc 200, ZeroAlloc 3 4, Release 0]"] s(1) this
  show ?thesis by (auto simp: names_def)
qed

text \<open>
  C14: The bytes two successful calls of \<^verbatim>\<open>rt_malloc\<close> were asked for do not overlap and lie inside the heap,
  whatever calls of rule-abiding clients come between them that do not free or resize the first.
\<close>

theorem mallocs_disjoint:
  assumes "heap_ok s" and "0 < n" and "n \<le> 0xFFFFFFFC" and "0 < m" and "m \<le> 0xFFFFFFFC"
    and "rt_malloc n s = Inr (p, s1)" and "p \<noteq> 0"
    and "fold_r heap_step evs s1 = Inr s2" and "\<forall>ev \<in> set evs. \<not> names ev p"
    and "rt_malloc m s2 = Inr (q, s3)" and "q \<noteq> 0"
  shows "{p..<p + n} \<inter> {q..<q + m} = {} \<and>
    {p..<p + n} \<union> {q..<q + m} \<subseteq> {heap_ptr s3..<heap_end s3}"
proof -
  from rt_malloc_ok [OF assms(1,2)] assms(6,7) obtain cs where s1: "heap_ok s1" "buffers s1 p = Some cs"
    "request n \<le> length cs" by auto
  from others_leave [OF s1(1,2) assms(9)] assms(8) have s2: "heap_ok s2" "buffers s2 p = Some cs" by auto
  from rt_malloc_ok [OF s2(1) assms(4)] assms(10,11) obtain ds where s3: "heap_ok s3" "buffers s2 q = None"
    "request m \<le> length ds" "buffers s3 = (buffers s2)(q \<mapsto> ds)" by auto
  then have p: "buffers s3 p = Some cs" and q: "buffers s3 q = Some ds" and pq: "p \<noteq> q" using s2(2) by auto
  have n: "n \<le> length cs" using request_ge [OF assms(3)] s1(3) by linarith
  have m: "m \<le> length ds" using request_ge [OF assms(5)] s3(3) by linarith
  have "{p..<p + n} \<subseteq> {p..<p + length cs}" using n by auto
  moreover have "{q..<q + m} \<subseteq> {q..<q + length ds}" using m by auto
  moreover note buffers_apart [OF s3(1) p q pq]
  moreover have "{q..<q + length ds} \<subseteq> {heap_ptr s3..<heap_end s3}"
    using buffers_apart [OF s3(1) q p] pq by auto
  ultimately show ?thesis by blast
qed

theorem mallocs_disjoint_witness:
  "\<exists>s1 q s3. rt_malloc 20 fresh_heap = Inr (0x2000010C, s1) \<and> fold_r heap_step [Release 0] s1 = Inr s1 \<and>
     rt_malloc 20 s1 = Inr (q, s3) \<and> q \<noteq> 0 \<and> {0x2000010C..<0x2000010C + 20} \<inter> {q..<q + 20} = {}"
proof -
  from fresh_malloc [of 20] obtain s cs where s: "rt_malloc 20 fresh_heap = Inr (0x2000010C, s)" "heap_ok s" "heap_low s"
      "mem_size_aligned s = 130792" "heap_inv s (taken 20 130804)" unfolding request_small by auto
  have "(32, 130772, False) \<in> set (heap_blocks s)"
    using heap_blocks_cells [OF heap_invD(1) [OF s(5)]] by (simp add: taken_def)
  then have "rt_malloc 20 s \<noteq> Inr (0, s)"
    unfolding malloc_refuses [OF s(2,3), of 20, simplified] request_small s(4) by force
  with rt_malloc_ok [OF s(2), of 20] obtain q s3 where q: "rt_malloc 20 s = Inr (q, s3)" "q \<noteq> 0" by auto
  have run: "fold_r heap_step [Release 0] s = Inr s" by (simp add: heap_step_def allowed_def rt_free_def)
  have "{0x2000010C..<0x2000010C + 20} \<inter> {q..<q + 20} = {}"
    using mallocs_disjoint [OF fresh_heap_facts(1) _ _ _ _ s(1) _ run _ q] by (simp add: names_def)
  with s(1) run q show ?thesis by (intro exI [of _ s] exI [of _ q] exI [of _ s3]) simp
qed

end
